(* ===== verification/Text.thy ===== *)
theory Text
  imports Fwm_Prelude
begin

text \<open>
  Rust's \<open>str\<close>: a value of type \<open>string\<close> is the UTF-8 bytes of the text, so
  \<open>length\<close> is \<open>str::len\<close>. Operations on \<open>chars()\<close> decode the bytes. The character
  classes are those of the standard library; membership of code points outside ASCII in the
  class of letters and digits comes from its Unicode tables and is the parameter
  \<open>ua\<close> of \<open>is_alphanumeric\<close>.
\<close>

section \<open>Code points\<close>

definition byte :: "char \<Rightarrow> nat" where
  "byte c = of_char c"

definition is_continuation :: "char \<Rightarrow> bool" where
  "is_continuation c = (128 \<le> byte c \<and> byte c < 192)"

definition low6 :: "char \<Rightarrow> nat" where
  "low6 c = byte c mod 64"

text \<open>
  The characters of a text with the bytes each was read from. A Rust \<open>str\<close> is well-formed
  UTF-8; the last equation only makes the function total.
\<close>

fun utf8_chunks :: "string \<Rightarrow> (nat \<times> string) list" where
  "utf8_chunks [] = []"
| "utf8_chunks [a] = [(byte a, [a])]"
| "utf8_chunks [a, b] =
     (if 192 \<le> byte a \<and> byte a < 224 then [((byte a mod 32) * 64 + low6 b, [a, b])]
      else (byte a, [a]) # utf8_chunks [b])"
| "utf8_chunks [a, b, c] =
     (if 192 \<le> byte a \<and> byte a < 224
        then ((byte a mod 32) * 64 + low6 b, [a, b]) # utf8_chunks [c]
      else if 224 \<le> byte a \<and> byte a < 240
        then [((byte a mod 16) * 4096 + low6 b * 64 + low6 c, [a, b, c])]
      else (byte a, [a]) # utf8_chunks [b, c])"
| "utf8_chunks (a # b # c # d # s) =
     (if 192 \<le> byte a \<and> byte a < 224
        then ((byte a mod 32) * 64 + low6 b, [a, b]) # utf8_chunks (c # d # s)
      else if 224 \<le> byte a \<and> byte a < 240
        then ((byte a mod 16) * 4096 + low6 b * 64 + low6 c, [a, b, c]) # utf8_chunks (d # s)
      else if 240 \<le> byte a
        then ((byte a mod 8) * 262144 + low6 b * 4096 + low6 c * 64 + low6 d, [a, b, c, d])
             # utf8_chunks s
      else (byte a, [a]) # utf8_chunks (b # c # d # s))"

definition chars :: "string \<Rightarrow> nat list" where
  "chars s = map fst (utf8_chunks s)"

definition is_ascii :: "string \<Rightarrow> bool" where
  "is_ascii s = (\<forall>c \<in> set s. byte c < 128)"

lemma concat_utf8_chunks: "concat (map snd (utf8_chunks s)) = s"
  by (induction s rule: utf8_chunks.induct) auto

lemma is_ascii_simps [simp]:
  "is_ascii []"
  "is_ascii (c # s) \<longleftrightarrow> byte c < 128 \<and> is_ascii s"
  "is_ascii (s @ t) \<longleftrightarrow> is_ascii s \<and> is_ascii t"
  by (auto simp: is_ascii_def)

lemma utf8_chunks_ascii: "is_ascii s \<Longrightarrow> utf8_chunks s = map (\<lambda>c. (byte c, [c])) s"
  by (induction s rule: utf8_chunks.induct) auto

lemma chars_ascii: "is_ascii s \<Longrightarrow> chars s = map byte s"
  by (simp add: chars_def utf8_chunks_ascii)

lemma byte_inject [simp]: "byte a = byte b \<longleftrightarrow> a = b"
  by (simp add: byte_def)

definition is_whitespace :: "nat \<Rightarrow> bool" where
  "is_whitespace c =
     (9 \<le> c \<and> c \<le> 13 \<or> c = 32 \<or> c = 133 \<or> c = 160 \<or> c = 5760 \<or> 8192 \<le> c \<and> c \<le> 8202 \<or>
      c = 8232 \<or> c = 8233 \<or> c = 8239 \<or> c = 8287 \<or> c = 12288)"

definition is_control :: "nat \<Rightarrow> bool" where
  "is_control c = (c < 32 \<or> 127 \<le> c \<and> c < 160)"

definition is_alphanumeric :: "(nat \<Rightarrow> bool) \<Rightarrow> nat \<Rightarrow> bool" where
  "is_alphanumeric ua c =
     (if c < 128 then 48 \<le> c \<and> c \<le> 57 \<or> 65 \<le> c \<and> c \<le> 90 \<or> 97 \<le> c \<and> c \<le> 122 else ua c)"

definition is_char_boundary :: "string \<Rightarrow> nat \<Rightarrow> bool" where
  "is_char_boundary s i =
     (i = 0 \<or> i = length s \<or> i < length s \<and> \<not> is_continuation (s ! i))"

section \<open>Bytes\<close>

definition is_ascii_digit :: "char \<Rightarrow> bool" where
  "is_ascii_digit c = (48 \<le> byte c \<and> byte c \<le> 57)"

definition is_ascii_alphanumeric :: "char \<Rightarrow> bool" where
  "is_ascii_alphanumeric c =
     (is_ascii_digit c \<or> 65 \<le> byte c \<and> byte c \<le> 90 \<or> 97 \<le> byte c \<and> byte c \<le> 122)"

definition is_ascii_hexdigit :: "char \<Rightarrow> bool" where
  "is_ascii_hexdigit c =
     (is_ascii_digit c \<or> 65 \<le> byte c \<and> byte c \<le> 70 \<or> 97 \<le> byte c \<and> byte c \<le> 102)"

definition ascii_lower :: "char \<Rightarrow> char" where
  "ascii_lower c = (if 65 \<le> byte c \<and> byte c \<le> 90 then char_of (byte c + 32) else c)"

definition to_ascii_lowercase :: "string \<Rightarrow> string" where
  "to_ascii_lowercase s = map ascii_lower s"

definition eq_ignore_ascii_case :: "string \<Rightarrow> string \<Rightarrow> bool" where
  "eq_ignore_ascii_case s t = (to_ascii_lowercase s = to_ascii_lowercase t)"

lemma byte_char_of: "n < 256 \<Longrightarrow> byte (char_of n) = n"
  by (simp add: byte_def)

lemma ascii_lower_idem [simp]: "ascii_lower (ascii_lower c) = ascii_lower c"
  by (auto simp: ascii_lower_def byte_char_of)

lemma to_ascii_lowercase_idem [simp]:
  "to_ascii_lowercase (to_ascii_lowercase s) = to_ascii_lowercase s"
  by (simp add: to_ascii_lowercase_def)

section \<open>Splitting and trimming\<close>

text \<open>\<open>split\<close>, \<open>split_once\<close> and \<open>rsplit_once\<close> at an ASCII separator, and \<open>strip_prefix\<close>.\<close>

fun split_on :: "char \<Rightarrow> string \<Rightarrow> string list" where
  "split_on sep [] = [[]]"
| "split_on sep (c # s) =
     (if c = sep then [] # split_on sep s
      else (case split_on sep s of [] \<Rightarrow> [[c]] | p # ps \<Rightarrow> (c # p) # ps))"

fun split_once :: "char \<Rightarrow> string \<Rightarrow> (string \<times> string) option" where
  "split_once sep [] = None"
| "split_once sep (c # s) =
     (if c = sep then Some ([], s) else map_option (\<lambda>(a, b). (c # a, b)) (split_once sep s))"

definition rsplit_once :: "char \<Rightarrow> string \<Rightarrow> (string \<times> string) option" where
  "rsplit_once sep s = map_option (\<lambda>(a, b). (rev b, rev a)) (split_once sep (rev s))"

fun strip_prefix :: "string \<Rightarrow> string \<Rightarrow> string option" where
  "strip_prefix [] s = Some s"
| "strip_prefix (p # ps) [] = None"
| "strip_prefix (p # ps) (c # s) = (if p = c then strip_prefix ps s else None)"

definition starts_with :: "string \<Rightarrow> string \<Rightarrow> bool" where
  "starts_with p s = (strip_prefix p s \<noteq> None)"

definition trim :: "string \<Rightarrow> string" where
  "trim s = concat (map snd (rev (dropWhile (\<lambda>c. is_whitespace (fst c))
              (rev (dropWhile (\<lambda>c. is_whitespace (fst c)) (utf8_chunks s))))))"

fun split_whitespace :: "(nat \<times> string) list \<Rightarrow> string list" where
  "split_whitespace [] = []"
| "split_whitespace ((c, b) # cs) =
     (if is_whitespace c then split_whitespace cs
      else (case cs of
              [] \<Rightarrow> [b]
            | (d, _) # _ \<Rightarrow> if is_whitespace d then b # split_whitespace cs
                else (case split_whitespace cs of [] \<Rightarrow> [b] | w # ws \<Rightarrow> (b @ w) # ws)))"

lemma split_on_nonempty [simp]: "split_on sep s \<noteq> []"
  by (induction s) (auto split: list.splits)

lemma split_once_Some:
  "split_once sep s = Some (a, b) \<longleftrightarrow> s = a @ sep # b \<and> sep \<notin> set a"
proof (induction s arbitrary: a)
  case Nil
  then show ?case by simp
next
  case (Cons c s)
  then show ?case by (cases a) auto
qed

lemma split_once_None: "split_once sep s = None \<longleftrightarrow> sep \<notin> set s"
  by (induction s) auto

lemma rsplit_once_Some:
  "rsplit_once sep s = Some (a, b) \<longleftrightarrow> s = a @ sep # b \<and> sep \<notin> set b"
proof -
  have "rsplit_once sep s = Some (a, b) \<longleftrightarrow> split_once sep (rev s) = Some (rev b, rev a)"
    by (auto simp: rsplit_once_def)
  also have "\<dots> \<longleftrightarrow> rev s = rev b @ sep # rev a \<and> sep \<notin> set b"
    by (simp add: split_once_Some)
  also have "\<dots> \<longleftrightarrow> s = a @ sep # b \<and> sep \<notin> set b"
    by (metis (no_types, lifting) append.assoc append_Cons append_Nil rev.simps(2) rev_append rev_rev_ident)
  finally show ?thesis .
qed

lemma rsplit_once_None: "rsplit_once sep s = None \<longleftrightarrow> sep \<notin> set s"
  by (simp add: rsplit_once_def split_once_None)

lemma strip_prefix_Some: "strip_prefix p s = Some r \<longleftrightarrow> s = p @ r"
  by (induction p s rule: strip_prefix.induct) auto

lemma starts_with_iff: "starts_with p s \<longleftrightarrow> (\<exists>r. s = p @ r)"
  by (metis option.distinct(1) option.exhaust starts_with_def strip_prefix_Some)

lemma split_on_no_sep: "sep \<notin> set s \<Longrightarrow> split_on sep s = [s]"
  by (induction s) auto

lemma split_on_append: "sep \<notin> set a \<Longrightarrow> split_on sep (a @ sep # b) = a # split_on sep b"
  by (induction a) auto

lemma trim_ascii:
  assumes "is_ascii s" and "\<forall>c \<in> set s. \<not> is_whitespace (byte c)"
  shows "trim s = s"
proof -
  have drop: "dropWhile (\<lambda>c. is_whitespace (fst c)) xs = xs"
    if "\<forall>x \<in> set xs. \<not> is_whitespace (fst x)" for xs :: "(nat \<times> string) list"
    using that by (cases xs) auto
  have a: "\<forall>x \<in> set (utf8_chunks s). \<not> is_whitespace (fst x)"
    using assms by (auto simp: utf8_chunks_ascii)
  have b: "\<forall>x \<in> set (rev (utf8_chunks s)). \<not> is_whitespace (fst x)"
    using a by simp
  show ?thesis
    unfolding trim_def drop [OF a] drop [OF b] rev_rev_ident by (rule concat_utf8_chunks)
qed

section \<open>Decimal numbers\<close>

definition digit_char :: "nat \<Rightarrow> char" where
  "digit_char d = char_of (48 + d)"

fun show_nat :: "nat \<Rightarrow> string" where
  "show_nat n = (if n < 10 then [digit_char n] else show_nat (n div 10) @ [digit_char (n mod 10)])"

declare show_nat.simps [simp del]

definition digits_value :: "string \<Rightarrow> nat" where
  "digits_value s = foldl (\<lambda>v c. v * 10 + (byte c - 48)) 0 s"

text \<open>
  \<open>str::parse\<close> of an unsigned integer type with \<open>limit\<close> values: an optional plus sign, at
  least one digit, and a value in range.
\<close>

definition parse_uint :: "nat \<Rightarrow> string \<Rightarrow> nat option" where
  "parse_uint limit s =
     (let ds = (case s of [] \<Rightarrow> [] | c # r \<Rightarrow> if c = CHR ''+'' then r else s)
      in if ds \<noteq> [] \<and> list_all is_ascii_digit ds \<and> digits_value ds < limit
         then Some (digits_value ds) else None)"

definition parse_u16 :: "string \<Rightarrow> u16 option" where
  "parse_u16 s = map_option of_nat (parse_uint 65536 s)"

definition show_word :: "'w::len word \<Rightarrow> string" where
  "show_word w = show_nat (unat w)"

lemma byte_digit_char: "d < 10 \<Longrightarrow> byte (digit_char d) = 48 + d"
  by (simp add: digit_char_def byte_char_of)

lemma is_ascii_digit_digit_char: "d < 10 \<Longrightarrow> is_ascii_digit (digit_char d)"
  by (simp add: is_ascii_digit_def byte_digit_char)

lemma show_nat_digits: "list_all is_ascii_digit (show_nat n)"
proof (induction n rule: show_nat.induct)
  case (1 n)
  then show ?case
    by (subst show_nat.simps) (auto simp: is_ascii_digit_digit_char)
qed

lemma show_nat_nonempty [simp]: "show_nat n \<noteq> []"
  by (subst show_nat.simps) simp

lemma digits_value_snoc: "digits_value (s @ [c]) = digits_value s * 10 + (byte c - 48)"
  by (simp add: digits_value_def)

lemma digits_value_show_nat: "digits_value (show_nat n) = n"
proof (induction n rule: show_nat.induct)
  case (1 n)
  show ?case
  proof (cases "n < 10")
    case True
    then show ?thesis
      by (subst show_nat.simps) (simp add: digits_value_def byte_digit_char)
  next
    case False
    with "1.IH" have "digits_value (show_nat (n div 10)) = n div 10" by simp
    with False show ?thesis
      by (subst show_nat.simps) (simp add: digits_value_snoc byte_digit_char)
  qed
qed

lemma digit_not_plus: "is_ascii_digit c \<Longrightarrow> c \<noteq> CHR ''+''"
  by (auto simp: is_ascii_digit_def byte_def)

lemma show_nat_not_plus: "show_nat n = c # r \<Longrightarrow> c \<noteq> CHR ''+''"
  using show_nat_digits [of n] digit_not_plus by auto

lemma parse_uint_show_nat: "n < limit \<Longrightarrow> parse_uint limit (show_nat n) = Some n"
proof -
  assume n: "n < limit"
  obtain c r where cr: "show_nat n = c # r" by (cases "show_nat n") auto
  with show_nat_not_plus have "c \<noteq> CHR ''+''" by blast
  then have "(case show_nat n of [] \<Rightarrow> [] | c # r \<Rightarrow> if c = CHR ''+'' then r else show_nat n) = show_nat n"
    by (simp add: cr)
  with n show ?thesis
    by (simp add: parse_uint_def show_nat_digits digits_value_show_nat)
qed

lemma parse_uint_bound: "parse_uint limit s = Some n \<Longrightarrow> n < limit"
  by (auto simp: parse_uint_def Let_def split: if_splits)

lemma parse_u16_show_word [simp]: "parse_u16 (show_word w) = Some w" for w :: u16
proof -
  have "unat w < 65536" using unsigned_less [of w, where 'a = nat] by simp
  then show ?thesis by (simp add: parse_u16_def show_word_def parse_uint_show_nat)
qed

lemma show_word_chars: "c \<in> set (show_word w) \<Longrightarrow> is_ascii_digit c"
  using show_nat_digits [of "unat w"] by (auto simp: show_word_def list_all_iff)

end
