(* ===== verification/Net.thy ===== *)
theory Net
  imports Text
begin

text \<open>
  Addresses of the standard library's \<open>net\<close> module as the code uses them: their textual
  form, \<open>Ipv4Addr\<close>, \<open>Ipv6Addr\<close> and \<open>SocketAddr\<close>, and the overlap test of
  \<open>crates/fwm-core/src/model.rs\<close> that decides whether two listeners compete for one port.
\<close>

section \<open>Addresses\<close>

datatype ipv4 = Ipv4 u8 u8 u8 u8

datatype ipv6 = Ipv6 u16 u16 u16 u16 u16 u16 u16 u16

datatype ip_addr = V4 ipv4 | V6 ipv6

text \<open>A V6 socket address also carries its flow information and scope id.\<close>

datatype socket_addr = SockV4 ipv4 u16 | SockV6 ipv6 u16 u32 u32

fun sock_ip :: "socket_addr \<Rightarrow> ip_addr" where
  "sock_ip (SockV4 a p) = V4 a"
| "sock_ip (SockV6 a p flow scope) = V6 a"

fun sock_port :: "socket_addr \<Rightarrow> u16" where
  "sock_port (SockV4 a p) = p"
| "sock_port (SockV6 a p flow scope) = p"

fun segments :: "ipv6 \<Rightarrow> u16 list" where
  "segments (Ipv6 a b c d e f g h) = [a, b, c, d, e, f, g, h]"

fun ipv6_of_segments :: "u16 list \<Rightarrow> ipv6 option" where
  "ipv6_of_segments [a, b, c, d, e, f, g, h] = Some (Ipv6 a b c d e f g h)"
| "ipv6_of_segments _ = None"

fun v4_unspecified :: "ipv4 \<Rightarrow> bool" where
  "v4_unspecified (Ipv4 a b c d) = (a = 0 \<and> b = 0 \<and> c = 0 \<and> d = 0)"

definition v6_unspecified :: "ipv6 \<Rightarrow> bool" where
  "v6_unspecified x = (\<forall>s \<in> set (segments x). s = 0)"

definition high_octet :: "u16 \<Rightarrow> u8" where
  "high_octet s = of_nat (unat s div 256)"

definition low_octet :: "u16 \<Rightarrow> u8" where
  "low_octet s = of_nat (unat s mod 256)"

definition segment_of :: "u8 \<Rightarrow> u8 \<Rightarrow> u16" where
  "segment_of hi lo = of_nat (unat hi * 256 + unat lo)"

fun to_ipv4_mapped :: "ipv6 \<Rightarrow> ipv4 option" where
  "to_ipv4_mapped (Ipv6 a b c d e f g h) =
     (if a = 0 \<and> b = 0 \<and> c = 0 \<and> d = 0 \<and> e = 0 \<and> f = 65535
      then Some (Ipv4 (high_octet g) (low_octet g) (high_octet h) (low_octet h)) else None)"

fun to_canonical :: "ip_addr \<Rightarrow> ip_addr" where
  "to_canonical (V4 a) = V4 a"
| "to_canonical (V6 a) = (case to_ipv4_mapped a of None \<Rightarrow> V6 a | Some v4 \<Rightarrow> V4 v4)"

lemma ipv6_of_segments_iff: "ipv6_of_segments ss = Some x \<longleftrightarrow> segments x = ss"
  by (cases x; cases ss rule: ipv6_of_segments.cases) auto

section \<open>Listeners that compete for a port\<close>

definition overlaps :: "socket_addr \<Rightarrow> socket_addr \<Rightarrow> bool" where
  "overlaps a b =
     (if sock_port a \<noteq> sock_port b then False
      else (case (to_canonical (sock_ip a), to_canonical (sock_ip b)) of
          (V4 x, V4 y) \<Rightarrow> x = y \<or> v4_unspecified x \<or> v4_unspecified y
        | (V6 x, V6 y) \<Rightarrow> x = y \<or> v6_unspecified x \<or> v6_unspecified y
        | (V4 x, V6 y) \<Rightarrow> v6_unspecified y
        | (V6 x, V4 y) \<Rightarrow> v6_unspecified x))"

text \<open>
  What a listener answers for: an IPv4 wildcard takes every IPv4 address, an IPv6 wildcard
  takes every address of both families, and any other address takes itself alone (an
  IPv4-mapped IPv6 address being its IPv4 address).
\<close>

definition answers_for :: "ip_addr \<Rightarrow> ip_addr set" where
  "answers_for a = (case to_canonical a of
       V4 x \<Rightarrow> if v4_unspecified x then range V4 else {V4 x}
     | V6 x \<Rightarrow> if v6_unspecified x then UNIV else {V6 x})"

lemma overlaps_iff_answers:
  "overlaps a b \<longleftrightarrow>
     sock_port a = sock_port b \<and> answers_for (sock_ip a) \<inter> answers_for (sock_ip b) \<noteq> {}"
  by (auto simp: overlaps_def answers_for_def split: ip_addr.splits)

lemma overlaps_sym: "overlaps a b \<longleftrightarrow> overlaps b a"
  by (auto simp: overlaps_iff_answers)

lemma overlaps_refl: "overlaps a a"
  by (auto simp: overlaps_def split: ip_addr.splits)

section \<open>Reading addresses\<close>

definition hex_digit :: "char \<Rightarrow> nat option" where
  "hex_digit c =
     (if is_ascii_digit c then Some (byte c - 48)
      else if 65 \<le> byte c \<and> byte c \<le> 70 then Some (byte c - 55)
      else if 97 \<le> byte c \<and> byte c \<le> 102 then Some (byte c - 87) else None)"

definition to_digit :: "nat \<Rightarrow> char \<Rightarrow> nat option" where
  "to_digit radix c = (case hex_digit c of None \<Rightarrow> None | Some d \<Rightarrow> if d < radix then Some d else None)"

type_synonym 'a reader = "string \<Rightarrow> ('a \<times> string) option"

text \<open>
  \<open>read_number\<close> of the address parser: all digits in reach, at most \<open>maxd\<close> of them, and
  no superfluous leading zero unless \<open>zeros\<close> allows it.
\<close>

definition read_number :: "nat \<Rightarrow> nat \<Rightarrow> bool \<Rightarrow> nat \<Rightarrow> nat reader" where
  "read_number radix maxd zeros limit s =
     (let ds = takeWhile (\<lambda>c. to_digit radix c \<noteq> None) s;
          n = foldl (\<lambda>v c. v * radix + the (to_digit radix c)) 0 ds
      in if ds = [] \<or> maxd < length ds \<or> \<not> zeros \<and> hd ds = CHR ''0'' \<and> 1 < length ds \<or> limit \<le> n
         then None else Some (n, drop (length ds) s))"

definition read_separator :: "char \<Rightarrow> nat \<Rightarrow> 'a reader \<Rightarrow> 'a reader" where
  "read_separator sep i r s =
     (if i = 0 then r s
      else (case s of [] \<Rightarrow> None | c # t \<Rightarrow> if c = sep then r t else None))"

definition read_octet :: "nat \<Rightarrow> u8 reader" where
  "read_octet i s = map_option (\<lambda>(n, t). (of_nat n, t))
     (read_separator CHR ''.'' i (read_number 10 3 False 256) s)"

definition read_ipv4 :: "ipv4 reader" where
  "read_ipv4 s =
     Option.bind (read_octet 0 s) (\<lambda>(a, s).
     Option.bind (read_octet 1 s) (\<lambda>(b, s).
     Option.bind (read_octet 2 s) (\<lambda>(c, s).
     Option.bind (read_octet 3 s) (\<lambda>(d, s). Some (Ipv4 a b c d, s)))))"

fun read_groups :: "nat \<Rightarrow> nat \<Rightarrow> string \<Rightarrow> u16 list \<times> bool \<times> string" where
  "read_groups 0 i s = ([], False, s)"
| "read_groups (Suc n) i s =
     (case (if 0 < n then read_separator CHR '':'' i read_ipv4 s else None) of
        Some (Ipv4 a b c d, t) \<Rightarrow> ([segment_of a b, segment_of c d], True, t)
      | None \<Rightarrow>
          (case read_separator CHR '':'' i (read_number 16 4 True 65536) s of
             None \<Rightarrow> ([], False, s)
           | Some (g, t) \<Rightarrow>
               (let (gs, v4, u) = read_groups n (Suc i) t in (of_nat g # gs, v4, u))))"

definition read_ipv6 :: "ipv6 reader" where
  "read_ipv6 s =
     (let (head, v4, t) = read_groups 8 0 s in
      if length head = 8 then map_option (\<lambda>x. (x, t)) (ipv6_of_segments head)
      else if v4 then None
      else (case strip_prefix ''::'' t of
          None \<Rightarrow> None
        | Some u \<Rightarrow>
            (let (rest, v4', w) = read_groups (8 - (length head + 1)) 0 u in
             map_option (\<lambda>x. (x, w))
               (ipv6_of_segments (head @ replicate (8 - length head - length rest) 0 @ rest)))))"

definition complete :: "'a reader \<Rightarrow> string \<Rightarrow> 'a option" where
  "complete r s = (case r s of Some (x, []) \<Rightarrow> Some x | _ \<Rightarrow> None)"

definition parse_ipv4 :: "string \<Rightarrow> ipv4 option" where
  "parse_ipv4 s = (if 15 < length s then None else complete read_ipv4 s)"

definition parse_ipv6 :: "string \<Rightarrow> ipv6 option" where
  "parse_ipv6 s = complete read_ipv6 s"

definition read_ip :: "ip_addr reader" where
  "read_ip s = (case read_ipv4 s of
       Some (a, t) \<Rightarrow> Some (V4 a, t)
     | None \<Rightarrow> map_option (\<lambda>(a, t). (V6 a, t)) (read_ipv6 s))"

definition parse_ip :: "string \<Rightarrow> ip_addr option" where
  "parse_ip s = complete read_ip s"

lemma read_separator_absent: "sep \<notin> set s \<Longrightarrow> 0 < i \<Longrightarrow> read_separator sep i r s = None"
  by (auto simp: read_separator_def split: list.splits)

lemma read_groups_without_colon:
  "CHR '':'' \<notin> set s \<Longrightarrow> 0 < i \<Longrightarrow> read_groups n i s = ([], False, s)"
  by (cases n) (auto simp: read_separator_absent)

lemma set_read_number: "read_number radix maxd zeros limit s = Some (n, t) \<Longrightarrow> set t \<subseteq> set s"
  by (auto simp: read_number_def Let_def dest: in_set_dropD split: if_splits)

lemma set_read_octet: "read_octet i s = Some (n, t) \<Longrightarrow> set t \<subseteq> set s"
  by (auto simp: read_octet_def read_separator_def split: if_splits list.splits
      dest!: set_read_number)

lemma set_read_ipv4: "read_ipv4 s = Some (a, t) \<Longrightarrow> set t \<subseteq> set s"
  by (auto simp: read_ipv4_def bind_eq_Some_conv dest!: set_read_octet)

lemma read_groups_first_without_colon:
  assumes "CHR '':'' \<notin> set s" and "read_groups n 0 s = (gs, v4, t)"
  shows "length gs \<le> 2 \<and> set t \<subseteq> set s"
proof (cases n)
  case 0
  with assms(2) show ?thesis by simp
next
  case (Suc m)
  have sub: "CHR '':'' \<notin> set u" if "set u \<subseteq> set s" for u
    using that assms(1) by blast
  have rest: "read_groups m (Suc 0) u = ([], False, u)" if "set u \<subseteq> set s" for u
    using sub [OF that] by (simp add: read_groups_without_colon)
  from assms(2) Suc show ?thesis
    by (auto simp: read_separator_def rest split: if_splits option.splits prod.splits ipv4.splits
        dest!: set_read_number set_read_ipv4)
qed

lemma parse_ipv6_colon: "parse_ipv6 s = Some a \<Longrightarrow> CHR '':'' \<in> set s"
proof (rule ccontr)
  assume parsed: "parse_ipv6 s = Some a" and absent: "CHR '':'' \<notin> set s"
  obtain gs v4 t where g: "read_groups 8 0 s = (gs, v4, t)"
    by (cases "read_groups 8 0 s") auto
  from read_groups_first_without_colon [OF absent g]
  have small: "length gs \<le> 2" and "CHR '':'' \<notin> set t" using absent by auto
  then have "strip_prefix ''::'' t = None"
    by (cases t) auto
  with small g have "read_ipv6 s = None" by (auto simp: read_ipv6_def)
  with parsed show False by (simp add: parse_ipv6_def complete_def)
qed

section \<open>Printing addresses\<close>

definition hex_char :: "nat \<Rightarrow> char" where
  "hex_char d = char_of (if d < 10 then 48 + d else 87 + d)"

fun show_hex :: "nat \<Rightarrow> string" where
  "show_hex n = (if n < 16 then [hex_char n] else show_hex (n div 16) @ [hex_char (n mod 16)])"

declare show_hex.simps [simp del]

fun join :: "string \<Rightarrow> string list \<Rightarrow> string" where
  "join sep [] = []"
| "join sep [x] = x"
| "join sep (x # y # ys) = x @ sep @ join sep (y # ys)"

fun show_ipv4 :: "ipv4 \<Rightarrow> string" where
  "show_ipv4 (Ipv4 a b c d) = join ''.'' (map show_word [a, b, c, d])"

text \<open>The first longest run of zero segments, as (start, length).\<close>

fun zero_span :: "nat \<Rightarrow> nat \<times> nat \<Rightarrow> nat \<times> nat \<Rightarrow> u16 list \<Rightarrow> nat \<times> nat" where
  "zero_span i longest current [] = longest"
| "zero_span i longest (start, len) (s # ss) =
     (if s = 0
      then (let cur = (if len = 0 then i else start, len + 1)
            in zero_span (i + 1) (if snd longest < snd cur then cur else longest) cur ss)
      else zero_span (i + 1) longest (0, 0) ss)"

definition show_segments :: "u16 list \<Rightarrow> string" where
  "show_segments ss = join '':'' (map (\<lambda>s. show_hex (unat s)) ss)"

definition show_ipv6 :: "ipv6 \<Rightarrow> string" where
  "show_ipv6 x = (case to_ipv4_mapped x of
       Some v4 \<Rightarrow> ''::ffff:'' @ show_ipv4 v4
     | None \<Rightarrow>
         (let ss = segments x; (start, len) = zero_span 0 (0, 0) (0, 0) ss in
          if 1 < len then show_segments (take start ss) @ ''::'' @ show_segments (drop (start + len) ss)
          else show_segments ss))"

fun show_ip :: "ip_addr \<Rightarrow> string" where
  "show_ip (V4 a) = show_ipv4 a"
| "show_ip (V6 a) = show_ipv6 a"

fun show_socket_addr :: "socket_addr \<Rightarrow> string" where
  "show_socket_addr (SockV4 a p) = show_ipv4 a @ '':'' @ show_word p"
| "show_socket_addr (SockV6 a p flow scope) =
     (if scope = 0 then ''['' @ show_ipv6 a @ '']:'' @ show_word p
      else ''['' @ show_ipv6 a @ ''%'' @ show_word scope @ '']:'' @ show_word p)"

text \<open>The address a \<open>u8\<close> array of a protocol message denotes.\<close>

fun ipv4_of_octets :: "u8 list \<Rightarrow> ipv4 option" where
  "ipv4_of_octets [a, b, c, d] = Some (Ipv4 a b c d)"
| "ipv4_of_octets _ = None"

fun segments_of_octets :: "u8 list \<Rightarrow> u16 list" where
  "segments_of_octets (a # b # bs) = segment_of a b # segments_of_octets bs"
| "segments_of_octets _ = []"

definition ipv6_of_octets :: "u8 list \<Rightarrow> ipv6 option" where
  "ipv6_of_octets bs = (if length bs = 16 then ipv6_of_segments (segments_of_octets bs) else None)"

text \<open>Evaluating the readers on a concrete text.\<close>

lemma read_groups_numeral:
  "read_groups (numeral k) i s =
     (case (if 0 < pred_numeral k then read_separator CHR '':'' i read_ipv4 s else None) of
        Some (Ipv4 a b c d, t) \<Rightarrow> ([segment_of a b, segment_of c d], True, t)
      | None \<Rightarrow>
          (case read_separator CHR '':'' i (read_number 16 4 True 65536) s of
             None \<Rightarrow> ([], False, s)
           | Some (g, t) \<Rightarrow>
               (let (gs, v4, u) = read_groups (pred_numeral k) (Suc i) t in (of_nat g # gs, v4, u))))"
  by (simp only: numeral_eq_Suc read_groups.simps)

lemma replicate_numeral: "replicate (numeral k) x = x # replicate (pred_numeral k) x"
  by (simp only: numeral_eq_Suc replicate.simps)

lemmas read_eval =
  parse_ipv6_def parse_ipv4_def complete_def read_ipv6_def read_groups_numeral replicate_numeral
  read_separator_def read_ipv4_def read_octet_def read_number_def to_digit_def hex_digit_def
  is_ascii_digit_def byte_def

section \<open>Properties\<close>

text \<open>
  Two listeners conflict exactly when they use one port and some address would be
  answered by both, with IPv4-mapped addresses seen as IPv4, \<open>0.0.0.0\<close> answering for all of
  IPv4 and \<open>::\<close> for everything.
\<close>

theorem overlaps_meaning:
  "overlaps a b \<longleftrightarrow>
     sock_port a = sock_port b \<and> answers_for (sock_ip a) \<inter> answers_for (sock_ip b) \<noteq> {}"
  by (rule overlaps_iff_answers)

end
