(* ===== verification/Model.thy ===== *)
theory Model
  imports Net
begin

text \<open>
  The configuration model of \<open>crates/fwm-core/src/model.rs\<close>: destinations, tunnels, server
  profiles, forwarding rules and runtime states, with the operations of the types
  themselves. Identifiers and names are \<open>string\<close>, paths are their UTF-8 text, and every
  error text is a constructor of an error type.
\<close>

section \<open>Destinations\<close>

record endpoint =
  ep_host :: string
  ep_port :: u16

datatype endpoint_error =
    ExpectedHostPort | InvalidIpv6Literal | InvalidIpv6Scope | Ipv6NeedsBrackets
  | InvalidTargetHost | InvalidPort | PortOutOfRange

definition endpoint_to_string :: "endpoint \<Rightarrow> string" where
  "endpoint_to_string e =
     (if CHR '':'' \<in> set (ep_host e)
      then ''['' @ ep_host e @ '']:'' @ show_word (ep_port e)
      else ep_host e @ '':'' @ show_word (ep_port e))"

definition bracketed :: "string \<Rightarrow> bool" where
  "bracketed h = (h \<noteq> [] \<and> hd h = CHR ''['' \<and> last h = CHR '']'')"

definition scope_byte :: "char \<Rightarrow> bool" where
  "scope_byte b = (is_ascii_alphanumeric b \<or> b \<in> set ''_.-'')"

definition endpoint_host :: "string \<Rightarrow> endpoint_error + string" where
  "endpoint_host h =
     (if bracketed h then
        (let lit = butlast (tl h);
             (address, zone) = (case split_once CHR ''%'' lit of
                 None \<Rightarrow> (lit, None) | Some (a, z) \<Rightarrow> (a, Some z))
         in if parse_ipv6 address = None then Inl InvalidIpv6Literal
            else (case zone of
                Some z \<Rightarrow> if z = [] \<or> \<not> list_all scope_byte z then Inl InvalidIpv6Scope else Inr lit
              | None \<Rightarrow> Inr lit))
      else if \<exists>c \<in> set h. c \<in> set '':[]'' then Inl Ipv6NeedsBrackets
      else Inr h)"

definition endpoint_from_str :: "string \<Rightarrow> endpoint_error + endpoint" where
  "endpoint_from_str value =
     rbind (ok_or (rsplit_once CHR '':'' value) ExpectedHostPort) (\<lambda>(raw, port).
     rbind (endpoint_host raw) (\<lambda>host.
     rbind (rguard (host = [] \<or> (\<exists>c \<in> set (chars host). is_whitespace c \<or> is_control c))
              InvalidTargetHost) (\<lambda>_.
     rbind (ok_or (parse_u16 port) InvalidPort) (\<lambda>p.
     rbind (rguard (p = 0) PortOutOfRange) (\<lambda>_.
     Inr \<lparr>ep_host = host, ep_port = p\<rparr>)))))"

text \<open>
  A destination that survives being written and read back. The text form keeps the host as
  it is unless it holds a colon, which only an IPv6 literal may.
\<close>

definition written_host :: "string \<Rightarrow> string" where
  "written_host h = (if CHR '':'' \<in> set h then ''['' @ h @ '']'' else h)"

definition endpoint_ok :: "endpoint \<Rightarrow> bool" where
  "endpoint_ok e =
     (endpoint_host (written_host (ep_host e)) = Inr (ep_host e) \<and> ep_host e \<noteq> [] \<and>
      \<not> (\<exists>c \<in> set (chars (ep_host e)). is_whitespace c \<or> is_control c) \<and> ep_port e \<noteq> 0)"

lemma bracketed_wrap [simp]: "bracketed (''['' @ h @ '']'')"
  by (simp add: bracketed_def)

lemma endpoint_host_bracketed:
  "bracketed h \<Longrightarrow> endpoint_host h = Inr r \<Longrightarrow> r = butlast (tl h) \<and> CHR '':'' \<in> set r"
  by (auto simp: endpoint_host_def Let_def split_once_Some split: if_splits option.splits prod.splits
      dest!: parse_ipv6_colon)

lemma endpoint_host_plain:
  "\<not> bracketed h \<Longrightarrow> endpoint_host h = Inr r \<longleftrightarrow> r = h \<and> (\<forall>c \<in> set h. c \<notin> set '':[]'')"
  by (auto simp: endpoint_host_def)

lemma bracketed_parts: "bracketed h \<Longrightarrow> tl h \<noteq> [] \<Longrightarrow> ''['' @ butlast (tl h) @ '']'' = h"
proof -
  assume b: "bracketed h" and t: "tl h \<noteq> []"
  from t have "last h = last (tl h)" by (cases h) auto
  with b t have "butlast (tl h) @ '']'' = tl h"
    by (metis append_butlast_last_id bracketed_def)
  with b show ?thesis by (cases h) (auto simp: bracketed_def)
qed

lemma endpoint_host_written:
  assumes "endpoint_host h = Inr r"
  shows "endpoint_host (written_host r) = Inr r"
proof (cases "bracketed h")
  case True
  with assms have r: "r = butlast (tl h)" and colon: "CHR '':'' \<in> set r"
    using endpoint_host_bracketed by blast+
  then have "tl h \<noteq> []" by auto
  with True r have "''['' @ r @ '']'' = h" using bracketed_parts by simp
  with assms colon show ?thesis by (simp add: written_host_def)
next
  case False
  with assms have "r = h" and plain: "\<forall>c \<in> set h. c \<notin> set '':[]''"
    by (auto simp: endpoint_host_plain)
  with assms show ?thesis by (auto simp: written_host_def)
qed

lemma endpoint_host_of_written:
  assumes "endpoint_host (written_host h) = Inr r"
  shows "r = h"
proof (cases "CHR '':'' \<in> set h")
  case True
  with assms have e: "endpoint_host (''['' @ h @ '']'') = Inr r" by (simp add: written_host_def)
  from endpoint_host_bracketed [OF bracketed_wrap e] show ?thesis by simp
next
  case colon: False
  with assms have e: "endpoint_host h = Inr r" by (simp add: written_host_def)
  show ?thesis
  proof (cases "bracketed h")
    case True
    from endpoint_host_bracketed [OF True e] have "CHR '':'' \<in> set (butlast (tl h))" by auto
    then have "CHR '':'' \<in> set h" by (cases h) (auto dest: in_set_butlastD)
    with colon show ?thesis by simp
  next
    case False
    with e show ?thesis by (simp add: endpoint_host_plain)
  qed
qed

lemma colon_not_in_show_word: "CHR '':'' \<notin> set (show_word p)"
  using show_word_chars by (fastforce simp: is_ascii_digit_def byte_def)

lemma rsplit_endpoint:
  "rsplit_once CHR '':'' (endpoint_to_string e) = Some (written_host (ep_host e), show_word (ep_port e))"
  by (auto simp: endpoint_to_string_def written_host_def rsplit_once_Some colon_not_in_show_word)

lemma endpoint_from_string:
  "endpoint_from_str (endpoint_to_string e) = Inr e' \<longleftrightarrow> endpoint_ok e \<and> e' = e"
proof (cases "endpoint_host (written_host (ep_host e))")
  case (Inl x)
  then show ?thesis by (simp add: endpoint_from_str_def rsplit_endpoint endpoint_ok_def)
next
  case (Inr r)
  then have "r = ep_host e" by (rule endpoint_host_of_written)
  with Inr show ?thesis
    by (cases e) (auto simp: endpoint_from_str_def rsplit_endpoint endpoint_ok_def result_simps)
qed

lemma endpoint_from_str_ok: "endpoint_from_str s = Inr e \<Longrightarrow> endpoint_ok e"
  by (auto simp: endpoint_from_str_def endpoint_ok_def result_simps dest: endpoint_host_written)

section \<open>Tunnels\<close>

datatype tunnel =
    Local socket_addr endpoint
  | Remote socket_addr endpoint
  | Dynamic socket_addr
  | RemoteDynamic socket_addr
  | Relay socket_addr endpoint string

fun listen :: "tunnel \<Rightarrow> socket_addr" where
  "listen (Local l t) = l"
| "listen (Remote l t) = l"
| "listen (Dynamic l) = l"
| "listen (RemoteDynamic l) = l"
| "listen (Relay l t s) = l"

fun target :: "tunnel \<Rightarrow> endpoint option" where
  "target (Local l t) = Some t"
| "target (Remote l t) = Some t"
| "target (Relay l t s) = Some t"
| "target _ = None"

fun target_server_id :: "tunnel \<Rightarrow> string option" where
  "target_server_id (Relay l t s) = Some s"
| "target_server_id _ = None"

fun kind :: "tunnel \<Rightarrow> string" where
  "kind (Local l t) = ''local''"
| "kind (Remote l t) = ''remote''"
| "kind (Dynamic l) = ''dynamic''"
| "kind (RemoteDynamic l) = ''remote_dynamic''"
| "kind (Relay l t s) = ''relay''"

fun is_remote :: "tunnel \<Rightarrow> bool" where
  "is_remote (Remote l t) = True"
| "is_remote (RemoteDynamic l) = True"
| "is_remote (Relay l t s) = True"
| "is_remote _ = False"

fun is_relay :: "tunnel \<Rightarrow> bool" where
  "is_relay (Relay l t s) = True"
| "is_relay _ = False"

lemma is_relay_target_server: "is_relay t \<longleftrightarrow> target_server_id t \<noteq> None"
  by (cases t) auto

lemma is_relay_remote: "is_relay t \<Longrightarrow> is_remote t"
  by (cases t) auto

datatype desired_state = Running | Stopped

datatype connection_mode = Shared | Dedicated

datatype remote_cleanup = Off | Verified

section \<open>Server profiles\<close>

record server_profile =
  sp_id :: string
  sp_name :: string
  sp_host :: "string option"
  sp_user :: "string option"
  sp_port :: "u16 option"
  sp_ssh_alias :: "string option"
  sp_ssh_config :: "string option"
  sp_identity_files :: "string list"
  sp_known_hosts :: "string option"
  sp_proxy_jump :: "string list"

datatype profile_error =
    SshPortZero | NeedsHostOrAlias string | SshFieldInvalid string | SshPathInvalid string
  | ProxyJumpEntryInvalid | ProxyJumpNoneCombined

definition new_profile :: "string \<Rightarrow> string \<Rightarrow> server_profile" where
  "new_profile new_id name =
     \<lparr>sp_id = new_id, sp_name = name, sp_host = None, sp_user = None, sp_port = None,
      sp_ssh_alias = None, sp_ssh_config = None, sp_identity_files = [], sp_known_hosts = None,
      sp_proxy_jump = []\<rparr>"

definition option_list :: "'a option \<Rightarrow> 'a list" where
  "option_list x = (case x of None \<Rightarrow> [] | Some a \<Rightarrow> [a])"

lemma set_option_list [simp]: "set (option_list x) = set_option x"
  by (cases x) (auto simp: option_list_def)

definition plain_word :: "string \<Rightarrow> bool" where
  "plain_word v = (v \<noteq> [] \<and> \<not> (\<exists>c \<in> set (chars v). is_control c \<or> is_whitespace c))"

definition plain_path :: "string \<Rightarrow> bool" where
  "plain_path v = (v \<noteq> [] \<and> \<not> (\<exists>c \<in> set (chars v). is_control c))"

definition plain_jump :: "string \<Rightarrow> bool" where
  "plain_jump v = (v \<noteq> [] \<and>
     \<not> (\<exists>c \<in> set (chars v). is_control c \<or> is_whitespace c \<or> c = byte CHR '',''))"

definition validate_connection_options :: "server_profile \<Rightarrow> profile_error + unit" where
  "validate_connection_options p =
     rbind (rguard (sp_port p = Some 0) SshPortZero) (\<lambda>_.
     rbind (rguard (sp_host p = None \<and> sp_ssh_alias p = None) (NeedsHostOrAlias (sp_name p))) (\<lambda>_.
     rbind (try_each (\<lambda>(name, value). case value of
               None \<Rightarrow> Inr ()
             | Some v \<Rightarrow> rguard (\<not> plain_word v) (SshFieldInvalid name))
            [(''host'', sp_host p), (''user'', sp_user p), (''ssh_alias'', sp_ssh_alias p)]) (\<lambda>_.
     rbind (try_each (\<lambda>(name, path). rguard (\<not> plain_path path) (SshPathInvalid name))
            (map (Pair ''identity'') (sp_identity_files p)
             @ map (Pair ''ssh_config'') (option_list (sp_ssh_config p))
             @ map (Pair ''known_hosts'') (option_list (sp_known_hosts p)))) (\<lambda>_.
     rbind (rguard (\<exists>j \<in> set (sp_proxy_jump p). \<not> plain_jump j) ProxyJumpEntryInvalid) (\<lambda>_.
     rguard (1 < length (sp_proxy_jump p) \<and>
             (\<exists>j \<in> set (sp_proxy_jump p). eq_ignore_ascii_case j ''none'')) ProxyJumpNoneCombined)))))"

lemma validate_connection_options_Inr:
  "validate_connection_options p = Inr () \<longleftrightarrow>
     sp_port p \<noteq> Some 0 \<and> (sp_host p \<noteq> None \<or> sp_ssh_alias p \<noteq> None) \<and>
     (\<forall>v \<in> set_option (sp_host p) \<union> set_option (sp_user p) \<union> set_option (sp_ssh_alias p). plain_word v) \<and>
     (\<forall>v \<in> set (sp_identity_files p) \<union> set_option (sp_ssh_config p) \<union> set_option (sp_known_hosts p).
        plain_path v) \<and>
     (\<forall>j \<in> set (sp_proxy_jump p). plain_jump j) \<and>
     (length (sp_proxy_jump p) \<le> 1 \<or>
      (\<forall>j \<in> set (sp_proxy_jump p). \<not> eq_ignore_ascii_case j ''none''))"
  by (cases "sp_host p"; cases "sp_user p"; cases "sp_ssh_alias p")
    (simp_all add: validate_connection_options_def result_simps ball_Un not_less conj_ac cong: conj_cong)

section \<open>Forwarding rules\<close>

record forward_spec =
  fs_id :: string
  fs_name :: string
  fs_group :: "string option"
  fs_server_id :: string
  fs_tunnel :: tunnel
  fs_desired_state :: desired_state
  fs_connection_mode :: connection_mode
  fs_remote_cleanup :: remote_cleanup

definition referenced_server_ids :: "forward_spec \<Rightarrow> string list" where
  "referenced_server_ids f = fs_server_id f # option_list (target_server_id (fs_tunnel f))"

definition listen_server_id :: "forward_spec \<Rightarrow> string" where
  "listen_server_id f = fs_server_id f"

definition references_server :: "forward_spec \<Rightarrow> string \<Rightarrow> bool" where
  "references_server f i = (i \<in> set (referenced_server_ids f))"

lemma references_server_iff:
  "references_server f i \<longleftrightarrow> i = fs_server_id f \<or> target_server_id (fs_tunnel f) = Some i"
  by (auto simp: references_server_def referenced_server_ids_def option_list_def split: option.splits)

section \<open>Configuration\<close>

record retry_policy =
  keepalive_interval_secs :: u64
  keepalive_max :: u64
  connect_timeout_secs :: u64
  max_delay_secs :: u64
  stable_reset_secs :: u64

definition default_retry_policy :: retry_policy where
  "default_retry_policy =
     \<lparr>keepalive_interval_secs = 5, keepalive_max = 3, connect_timeout_secs = 10,
      max_delay_secs = 30, stable_reset_secs = 60\<rparr>"

record defaults =
  retry :: retry_policy

record config =
  schema_version :: u32
  revision :: u64
  cfg_defaults :: defaults
  servers :: "server_profile list"
  forwards :: "forward_spec list"

definition SCHEMA_VERSION :: u32 where
  "SCHEMA_VERSION = 4"

definition default_config :: config where
  "default_config =
     \<lparr>schema_version = SCHEMA_VERSION, revision = 0,
      cfg_defaults = \<lparr>retry = default_retry_policy\<rparr>, servers = [], forwards = []\<rparr>"

section \<open>Runtime states\<close>

datatype runtime_state =
  RStopped | Starting | Established | Backoff | NeedsAttention | Stopping | Unverified

record forward_status =
  st_id :: string
  st_name :: string
  st_group :: "string option"
  st_server :: string
  st_target_server :: "string option"
  st_kind :: string
  st_listen :: string
  st_target :: "string option"
  st_desired_state :: desired_state
  st_state :: runtime_state
  st_retry_count :: u32
  st_next_retry_unix_ms :: "u64 option"
  st_last_error :: "string option"
  st_active_connections :: u64

record event_context =
  ec_forward_name :: "string option"
  ec_server_id :: "string option"
  ec_server_name :: "string option"
  ec_group :: "string option"
  ec_target_server_id :: "string option"
  ec_target_server_name :: "string option"

record engine_event =
  ev_context :: "event_context option"
  ev_server_id :: "string option"
  ev_sequence :: u64
  ev_timestamp_ms :: u64
  ev_forward_id :: "string option"
  ev_message :: string

section \<open>Properties\<close>

text \<open>
  A destination read from text is written so that it reads back unchanged, with
  brackets restored around an IPv6 literal and its zone.
\<close>

theorem endpoint_text_roundtrip:
  assumes "endpoint_from_str s = Inr e"
  shows "endpoint_from_str (endpoint_to_string e) = Inr e"
  using endpoint_from_str_ok [OF assms] by (simp add: endpoint_from_string)


lemma sample_ipv6: "parse_ipv6 ''fe80::1'' = Some (Ipv6 65152 0 0 0 0 0 0 1)"
  by (simp add: read_eval)

lemma sample_split: "rsplit_once CHR '':'' ''[fe80::1%eth0]:5432'' = Some (''[fe80::1%eth0]'', ''5432'')"
  by (simp add: rsplit_once_def)
lemma sample_host: "endpoint_host ''[fe80::1%eth0]'' = Inr ''fe80::1%eth0''"
  by (simp add: endpoint_host_def bracketed_def sample_ipv6 scope_byte_def is_ascii_alphanumeric_def is_ascii_digit_def byte_def)
lemma sample_port: "parse_u16 ''5432'' = Some 5432"
  by (simp add: parse_u16_def parse_uint_def digits_value_def is_ascii_digit_def byte_def)
lemma sample_chars: "chars ''fe80::1%eth0'' = map byte ''fe80::1%eth0''"
  by (rule chars_ascii) (simp add: byte_def)
lemma sample_endpoint_read:
  "endpoint_from_str ''[fe80::1%eth0]:5432'' = Inr \<lparr>ep_host = ''fe80::1%eth0'', ep_port = 5432\<rparr>"
  by (simp add: endpoint_from_str_def sample_split sample_host sample_port sample_chars byte_def is_whitespace_def
      is_control_def)

theorem endpoint_text_roundtrip_witness:
  "endpoint_from_str (endpoint_to_string \<lparr>ep_host = ''fe80::1%eth0'', ep_port = 5432\<rparr>) =
     Inr \<lparr>ep_host = ''fe80::1%eth0'', ep_port = 5432\<rparr>"
  by (rule endpoint_text_roundtrip [OF sample_endpoint_read])

end
