(* ===== verification/Config.thy ===== *)
theory Config
  imports Model
begin

text \<open>
  \<open>Config::validate\<close> of \<open>crates/fwm-core/src/model.rs\<close> with its helpers, and the
  declarative well-formedness it decides. \<open>ua\<close> is the classification of non-ASCII letters
  and digits, \<open>js\<close> the length of a configuration's JSON text (\<open>None\<close> when it cannot be
  serialized): both come from code outside the repository.
\<close>

section \<open>The checks\<close>

datatype config_error =
    RevisionTooLarge | TooManyEntries | NotSerializable | TooLarge | UnsupportedSchema u32
  | PolicyZero | PolicyTooLong | NameInvalid | IdInvalid | DuplicateServer
  | ProfileInvalid profile_error | ServerNameIsId string string | DuplicateForward
  | UnknownTargetServer string | UnknownServer string | ListenPortZero | RelayShared
  | TargetInvalid endpoint_error | VerifiedLocal | GroupIsForwardName
  | ForwardNameIsId string string | GroupIsForwardId
  | GroupListenConflict string string string | ListenConflict string string
  | Panicked

definition validate_id :: "string \<Rightarrow> config_error + unit" where
  "validate_id i = rguard (i = [] \<or> 128 < length i) IdInvalid"

definition name_char :: "(nat \<Rightarrow> bool) \<Rightarrow> nat \<Rightarrow> bool" where
  "name_char ua c = (is_alphanumeric ua c \<or> c \<in> set (chars ''-_.''))"

definition validate_name :: "(nat \<Rightarrow> bool) \<Rightarrow> string \<Rightarrow> config_error + unit" where
  "validate_name ua n =
     rguard (n = [] \<or> 100 < length n \<or> \<not> list_all (name_char ua) (chars n)) NameInvalid"

definition validate_limits :: "(config \<Rightarrow> nat option) \<Rightarrow> config \<Rightarrow> config_error + unit" where
  "validate_limits js c =
     rbind (rguard (2 ^ 63 - 1 < unat (revision c)) RevisionTooLarge) (\<lambda>_.
     rbind (rguard (128 < length (servers c) \<or> 512 < length (forwards c)) TooManyEntries) (\<lambda>_.
     rbind (ok_or (js c) NotSerializable) (\<lambda>n.
     rbind (rguard (256 * 1024 < n) TooLarge) (\<lambda>_.
     rguard (schema_version c \<noteq> SCHEMA_VERSION) (UnsupportedSchema (schema_version c))))))"

definition validate_policy :: "retry_policy \<Rightarrow> config_error + unit" where
  "validate_policy p =
     rbind (rguard (keepalive_interval_secs p = 0 \<or> keepalive_max p = 0 \<or>
                    connect_timeout_secs p = 0 \<or> max_delay_secs p = 0 \<or> stable_reset_secs p = 0)
              PolicyZero) (\<lambda>_.
     rguard (\<exists>v \<in> set [keepalive_interval_secs p, connect_timeout_secs p, max_delay_secs p,
                       stable_reset_secs p]. 31536000 < v) PolicyTooLong)"

text \<open>The first server loop; it also collects the set of server ids.\<close>

fun validate_servers ::
    "(nat \<Rightarrow> bool) \<Rightarrow> string set \<Rightarrow> string set \<Rightarrow> server_profile list \<Rightarrow> config_error + string set" where
  "validate_servers ua ids names [] = Inr ids"
| "validate_servers ua ids names (s # ss) =
     rbind (validate_name ua (sp_name s)) (\<lambda>_.
     rbind (validate_id (sp_id s)) (\<lambda>_.
     rbind (rguard (sp_id s = [] \<or> sp_id s \<in> ids \<or> sp_name s \<in> names) DuplicateServer) (\<lambda>_.
     rbind (map_err ProfileInvalid (validate_connection_options s)) (\<lambda>_.
     validate_servers ua (insert (sp_id s) ids) (insert (sp_name s) names) ss))))"

definition validate_server_names :: "string set \<Rightarrow> server_profile list \<Rightarrow> config_error + unit" where
  "validate_server_names ids ss =
     try_each (\<lambda>s. if sp_name s \<noteq> sp_id s \<and> sp_name s \<in> ids
                   then (case List.find (\<lambda>other. sp_id other = sp_name s) ss of
                       None \<Rightarrow> Inl Panicked
                     | Some other \<Rightarrow> Inl (ServerNameIsId (sp_name s) (sp_name other)))
                   else Inr ()) ss"

text \<open>The body of the forward loop after the identity checks.\<close>

definition validate_forward :: "string set \<Rightarrow> forward_spec \<Rightarrow> config_error + unit" where
  "validate_forward ids f =
     rbind (case target_server_id (fs_tunnel f) of
              None \<Rightarrow> Inr ()
            | Some t \<Rightarrow> rguard (\<not> (\<exists>existing \<in> ids. existing = t)) (UnknownTargetServer (fs_name f))) (\<lambda>_.
     rbind (rguard (fs_server_id f \<notin> ids) (UnknownServer (fs_name f))) (\<lambda>_.
     rbind (rguard (sock_port (listen (fs_tunnel f)) = 0) ListenPortZero) (\<lambda>_.
     rbind (rguard (is_relay (fs_tunnel f) \<and> fs_connection_mode f \<noteq> Dedicated) RelayShared) (\<lambda>_.
     rbind (case target (fs_tunnel f) of
              None \<Rightarrow> Inr ()
            | Some t \<Rightarrow> rbind (map_err TargetInvalid (endpoint_from_str (endpoint_to_string t))) (\<lambda>_. Inr ())) (\<lambda>_.
     rguard (fs_remote_cleanup f = Verified \<and> \<not> is_remote (fs_tunnel f)) VerifiedLocal)))))"

record forward_names =
  seen_ids :: "string set"
  seen_names :: "string set"
  group_names :: "string set"

fun validate_forwards ::
    "(nat \<Rightarrow> bool) \<Rightarrow> string set \<Rightarrow> forward_names \<Rightarrow> forward_spec list \<Rightarrow> config_error + forward_names" where
  "validate_forwards ua ids acc [] = Inr acc"
| "validate_forwards ua ids acc (f # fs) =
     rbind (validate_name ua (fs_name f)) (\<lambda>_.
     rbind (validate_id (fs_id f)) (\<lambda>_.
     rbind (case fs_group f of
              None \<Rightarrow> Inr (group_names acc)
            | Some g \<Rightarrow> rbind (validate_name ua g) (\<lambda>_. Inr (insert g (group_names acc)))) (\<lambda>groups.
     rbind (rguard (fs_id f = [] \<or> fs_id f \<in> seen_ids acc \<or> fs_name f \<in> seen_names acc)
              DuplicateForward) (\<lambda>_.
     rbind (validate_forward ids f) (\<lambda>_.
     validate_forwards ua ids
       \<lparr>seen_ids = insert (fs_id f) (seen_ids acc), seen_names = insert (fs_name f) (seen_names acc),
        group_names = groups\<rparr> fs)))))"

definition validate_forward_names :: "string set \<Rightarrow> forward_spec list \<Rightarrow> config_error + unit" where
  "validate_forward_names ids fs =
     try_each (\<lambda>f. if fs_name f \<noteq> fs_id f \<and> fs_name f \<in> ids
                   then (case List.find (\<lambda>other. fs_id other = fs_name f) fs of
                       None \<Rightarrow> Inl Panicked
                     | Some other \<Rightarrow> Inl (ForwardNameIsId (fs_name f) (fs_name other)))
                   else Inr ()) fs"

definition same_side :: "forward_spec \<Rightarrow> forward_spec \<Rightarrow> bool" where
  "same_side a b =
     (if is_remote (fs_tunnel a) \<and> is_remote (fs_tunnel b) then fs_server_id a = fs_server_id b
      else \<not> is_remote (fs_tunnel a) \<and> \<not> is_remote (fs_tunnel b))"

definition listeners_conflict :: "forward_spec \<Rightarrow> forward_spec \<Rightarrow> bool" where
  "listeners_conflict a b =
     (same_side a b \<and> overlaps (listen (fs_tunnel a)) (listen (fs_tunnel b)))"

definition validate_pair :: "forward_spec \<Rightarrow> forward_spec \<Rightarrow> config_error + unit" where
  "validate_pair a b =
     (let same_group = (fs_group a \<noteq> None \<and> fs_group a = fs_group b);
          both_running = (fs_desired_state a = Running \<and> fs_desired_state b = Running)
      in if \<not> same_group \<and> \<not> both_running then Inr ()
         else if listeners_conflict a b then
           (case fs_group a of
              Some g \<Rightarrow> if same_group then Inl (GroupListenConflict g (fs_name a) (fs_name b))
                        else Inl (ListenConflict (fs_name a) (fs_name b))
            | None \<Rightarrow> Inl (ListenConflict (fs_name a) (fs_name b)))
         else Inr ())"

definition group_id_conflict :: "forward_names \<Rightarrow> forward_spec list \<Rightarrow> config_error + unit" where
  "group_id_conflict acc fs =
     (if group_names acc \<inter> seen_ids acc = {} then Inr ()
      else if \<forall>conflict \<in> group_names acc \<inter> seen_ids acc. \<exists>f \<in> set fs. fs_id f = conflict
      then Inl GroupIsForwardId else Inl Panicked)"

definition validate :: "(nat \<Rightarrow> bool) \<Rightarrow> (config \<Rightarrow> nat option) \<Rightarrow> config \<Rightarrow> config_error + unit" where
  "validate ua js c =
     rbind (validate_limits js c) (\<lambda>_.
     rbind (validate_policy (retry (cfg_defaults c))) (\<lambda>_.
     rbind (validate_servers ua {} {} (servers c)) (\<lambda>ids.
     rbind (validate_server_names ids (servers c)) (\<lambda>_.
     rbind (validate_forwards ua ids \<lparr>seen_ids = {}, seen_names = {}, group_names = {}\<rparr> (forwards c)) (\<lambda>acc.
     rbind (rguard (group_names acc \<inter> seen_names acc \<noteq> {}) GroupIsForwardName) (\<lambda>_.
     rbind (validate_forward_names (seen_ids acc) (forwards c)) (\<lambda>_.
     rbind (group_id_conflict acc (forwards c)) (\<lambda>_.
     try_each (\<lambda>(a, b). validate_pair a b) (all_pairs (forwards c))))))))))"

section \<open>Well-formedness\<close>

definition good_name :: "(nat \<Rightarrow> bool) \<Rightarrow> string \<Rightarrow> bool" where
  "good_name ua n = (n \<noteq> [] \<and> length n \<le> 100 \<and> (\<forall>c \<in> set (chars n). name_char ua c))"

definition good_id :: "string \<Rightarrow> bool" where
  "good_id i = (i \<noteq> [] \<and> length i \<le> 128)"

definition good_policy :: "retry_policy \<Rightarrow> bool" where
  "good_policy p =
     (keepalive_max p \<noteq> 0 \<and>
      (\<forall>v \<in> {keepalive_interval_secs p, connect_timeout_secs p, max_delay_secs p, stable_reset_secs p}.
         0 < v \<and> v \<le> 31536000))"

text \<open>
  Ids and names of one kind of resource: no two entries share an id or a name, and a name is
  never another entry's id, so a selector denotes at most one entry.
\<close>

definition unambiguous :: "('a \<Rightarrow> string) \<Rightarrow> ('a \<Rightarrow> string) \<Rightarrow> 'a list \<Rightarrow> bool" where
  "unambiguous id_of name_of xs =
     (distinct (map id_of xs) \<and> distinct (map name_of xs) \<and>
      (\<forall>x \<in> set xs. \<forall>y \<in> set xs. name_of x = id_of y \<longrightarrow> id_of x = id_of y))"

lemma unambiguousD:
  assumes "unambiguous id_of name_of xs"
  shows "distinct (map id_of xs)" and "distinct (map name_of xs)"
    and "x \<in> set xs \<Longrightarrow> y \<in> set xs \<Longrightarrow> name_of x = id_of y \<Longrightarrow> id_of x = id_of y"
  using assms unfolding unambiguous_def by blast+

lemma unambiguous_map:
  assumes "\<And>x. id_of (f x) = id_of x" and "\<And>x. name_of (f x) = name_of x"
  shows "unambiguous id_of name_of (map f xs) \<longleftrightarrow> unambiguous id_of name_of xs"
  by (simp only: unambiguous_def map_map comp_def assms set_map ball_simps)

definition good_forward :: "string set \<Rightarrow> forward_spec \<Rightarrow> bool" where
  "good_forward ids f =
     ((\<forall>i. references_server f i \<longrightarrow> i \<in> ids) \<and>
      sock_port (listen (fs_tunnel f)) \<noteq> 0 \<and>
      (is_relay (fs_tunnel f) \<longrightarrow> fs_connection_mode f = Dedicated) \<and>
      (\<forall>t. target (fs_tunnel f) = Some t \<longrightarrow> endpoint_ok t) \<and>
      (fs_remote_cleanup f = Verified \<longrightarrow> is_remote (fs_tunnel f)))"

definition group_set :: "forward_spec list \<Rightarrow> string set" where
  "group_set fs = \<Union> (set (map (\<lambda>f. set_option (fs_group f)) fs))"

text \<open>
  Two rules that may run at the same time, as members of one group or because both are meant
  to run, never compete for a port of the same machine.
\<close>

definition coexist :: "forward_spec \<Rightarrow> forward_spec \<Rightarrow> bool" where
  "coexist a b =
     (((fs_group a \<noteq> None \<and> fs_group a = fs_group b) \<or>
       fs_desired_state a = Running \<and> fs_desired_state b = Running) \<longrightarrow> \<not> listeners_conflict a b)"

definition wf_config :: "(nat \<Rightarrow> bool) \<Rightarrow> (config \<Rightarrow> nat option) \<Rightarrow> config \<Rightarrow> bool" where
  "wf_config ua js c =
     (unat (revision c) < 2 ^ 63 \<and> length (servers c) \<le> 128 \<and> length (forwards c) \<le> 512 \<and>
      (case js c of None \<Rightarrow> False | Some n \<Rightarrow> n \<le> 256 * 1024) \<and>
      schema_version c = SCHEMA_VERSION \<and> good_policy (retry (cfg_defaults c)) \<and>
      (\<forall>s \<in> set (servers c). good_name ua (sp_name s) \<and> good_id (sp_id s) \<and>
                             validate_connection_options s = Inr ()) \<and>
      unambiguous sp_id sp_name (servers c) \<and>
      (\<forall>f \<in> set (forwards c). good_name ua (fs_name f) \<and> good_id (fs_id f) \<and>
         (\<forall>g \<in> set_option (fs_group f). good_name ua g) \<and> good_forward (sp_id ` set (servers c)) f) \<and>
      unambiguous fs_id fs_name (forwards c) \<and>
      group_set (forwards c) \<inter> (fs_id ` set (forwards c) \<union> fs_name ` set (forwards c)) = {} \<and>
      (\<forall>(a, b) \<in> set (all_pairs (forwards c)). coexist a b))"

section \<open>The validator decides well-formedness\<close>

lemma validate_id_Inr: "validate_id i = Inr () \<longleftrightarrow> good_id i"
  by (auto simp: validate_id_def good_id_def result_simps)

lemma validate_name_Inr: "validate_name ua n = Inr () \<longleftrightarrow> good_name ua n"
  by (auto simp: validate_name_def good_name_def result_simps list_all_iff)

lemma validate_limits_Inr:
  "validate_limits js c = Inr () \<longleftrightarrow>
     unat (revision c) < 2 ^ 63 \<and> length (servers c) \<le> 128 \<and> length (forwards c) \<le> 512 \<and>
     (case js c of None \<Rightarrow> False | Some n \<Rightarrow> n \<le> 256 * 1024) \<and> schema_version c = SCHEMA_VERSION"
  by (cases "js c") (auto simp: validate_limits_def result_simps)

lemma validate_policy_Inr: "validate_policy p = Inr () \<longleftrightarrow> good_policy p"
  by (auto simp: validate_policy_def good_policy_def result_simps word_neq_0_conv not_less)

lemma validate_servers_Inr:
  "validate_servers ua ids names ss = Inr r \<longleftrightarrow>
     (\<forall>s \<in> set ss. good_name ua (sp_name s) \<and> good_id (sp_id s) \<and> validate_connection_options s = Inr ()) \<and>
     distinct (map sp_id ss) \<and> distinct (map sp_name ss) \<and>
     sp_id ` set ss \<inter> ids = {} \<and> sp_name ` set ss \<inter> names = {} \<and> r = ids \<union> sp_id ` set ss"
proof (induction ss arbitrary: ids names)
  case Nil
  then show ?case by auto
next
  case (Cons s ss)
  have "good_id (sp_id s) \<Longrightarrow> sp_id s \<noteq> []" by (simp add: good_id_def)
  then show ?case
    by (simp add: result_simps validate_name_Inr validate_id_Inr Cons.IH) blast
qed

lemma validate_forward_Inr: "validate_forward ids f = Inr () \<longleftrightarrow> good_forward ids f"
proof -
  have "(\<forall>i. references_server f i \<longrightarrow> i \<in> ids)
    \<longleftrightarrow> fs_server_id f \<in> ids \<and> (\<forall>t. target_server_id (fs_tunnel f) = Some t \<longrightarrow> t \<in> ids)"
    by (auto simp: references_server_iff)
  then show ?thesis
    by (auto simp: validate_forward_def good_forward_def result_simps endpoint_from_string
        split: option.splits)
qed

lemma validate_forwards_Inr:
  "validate_forwards ua ids acc fs = Inr r \<longleftrightarrow>
     (\<forall>f \<in> set fs. good_name ua (fs_name f) \<and> good_id (fs_id f) \<and>
        (\<forall>g \<in> set_option (fs_group f). good_name ua g) \<and> good_forward ids f) \<and>
     distinct (map fs_id fs) \<and> distinct (map fs_name fs) \<and>
     fs_id ` set fs \<inter> seen_ids acc = {} \<and> fs_name ` set fs \<inter> seen_names acc = {} \<and>
     r = \<lparr>seen_ids = seen_ids acc \<union> fs_id ` set fs, seen_names = seen_names acc \<union> fs_name ` set fs,
          group_names = group_names acc \<union> group_set fs\<rparr>"
proof (induction fs arbitrary: acc)
  case Nil
  then show ?case by (auto simp: group_set_def)
next
  case (Cons f fs)
  have "good_id (fs_id f) \<Longrightarrow> fs_id f \<noteq> []" by (simp add: good_id_def)
  moreover have "group_set (f # fs) = set_option (fs_group f) \<union> group_set fs"
    by (simp add: group_set_def)
  ultimately show ?case
    by (cases "fs_group f")
      (simp_all add: result_simps validate_name_Inr validate_id_Inr validate_forward_Inr Cons.IH; blast)+
qed

lemma name_collisions_Inr:
  assumes "ids = id_of ` set xs"
  shows "try_each (\<lambda>x. if name_of x \<noteq> id_of x \<and> name_of x \<in> ids
                 then (case List.find (\<lambda>other. id_of other = name_of x) xs of
                     None \<Rightarrow> Inl p | Some other \<Rightarrow> Inl (e x other)) else Inr ()) xs = Inr () \<longleftrightarrow>
         (\<forall>x \<in> set xs. \<forall>y \<in> set xs. name_of x = id_of y \<longrightarrow> id_of x = id_of y)"
proof -
  have "(if name_of x \<noteq> id_of x \<and> name_of x \<in> ids
         then (case List.find (\<lambda>other. id_of other = name_of x) xs of
             None \<Rightarrow> Inl p | Some other \<Rightarrow> Inl (e x other)) else Inr ()) = Inr ()
      \<longleftrightarrow> (name_of x \<in> id_of ` set xs \<longrightarrow> name_of x = id_of x)" for x
    using assms by (auto split: option.splits)
  then have "?thesis \<longleftrightarrow> ((\<forall>x \<in> set xs. name_of x \<in> id_of ` set xs \<longrightarrow> name_of x = id_of x) \<longleftrightarrow>
      (\<forall>x \<in> set xs. \<forall>y \<in> set xs. name_of x = id_of y \<longrightarrow> id_of x = id_of y))"
    by (simp only: result_simps)
  moreover have "(\<forall>x \<in> set xs. name_of x \<in> id_of ` set xs \<longrightarrow> name_of x = id_of x) \<longleftrightarrow>
      (\<forall>x \<in> set xs. \<forall>y \<in> set xs. name_of x = id_of y \<longrightarrow> id_of x = id_of y)"
  proof (intro iffI ballI impI)
    fix x y
    assume "\<forall>x \<in> set xs. name_of x \<in> id_of ` set xs \<longrightarrow> name_of x = id_of x"
      and "x \<in> set xs" "y \<in> set xs" "name_of x = id_of y"
    then show "id_of x = id_of y" by (metis imageI)
  next
    fix x
    assume "\<forall>x \<in> set xs. \<forall>y \<in> set xs. name_of x = id_of y \<longrightarrow> id_of x = id_of y"
      and "x \<in> set xs" "name_of x \<in> id_of ` set xs"
    then show "name_of x = id_of x" by (metis imageE)
  qed
  ultimately show ?thesis by blast
qed

lemma validate_pair_Inr: "validate_pair a b = Inr () \<longleftrightarrow> coexist a b"
  by (auto simp: validate_pair_def coexist_def Let_def split: option.splits)

lemma group_id_conflict_Inr: "group_id_conflict acc fs = Inr () \<longleftrightarrow> group_names acc \<inter> seen_ids acc = {}"
  by (simp add: group_id_conflict_def)

lemma validate_iff_wf: "validate ua js c = Inr () \<longleftrightarrow> wf_config ua js c"
proof -
  let ?ids = "sp_id ` set (servers c)"
  have servers: "validate_server_names ?ids (servers c) = Inr () \<longleftrightarrow>
      (\<forall>x \<in> set (servers c). \<forall>y \<in> set (servers c). sp_name x = sp_id y \<longrightarrow> sp_id x = sp_id y)"
    unfolding validate_server_names_def by (rule name_collisions_Inr) simp
  have forwards: "validate_forward_names (fs_id ` set (forwards c)) (forwards c) = Inr () \<longleftrightarrow>
      (\<forall>x \<in> set (forwards c). \<forall>y \<in> set (forwards c). fs_name x = fs_id y \<longrightarrow> fs_id x = fs_id y)"
    unfolding validate_forward_names_def by (rule name_collisions_Inr) simp
  have pairs: "(\<forall>p \<in> set (all_pairs (forwards c)). (case p of (a, b) \<Rightarrow> validate_pair a b) = Inr ())
      \<longleftrightarrow> (\<forall>(a, b) \<in> set (all_pairs (forwards c)). coexist a b)"
    by (auto simp: validate_pair_Inr split: prod.splits)
  show ?thesis
    unfolding validate_def wf_config_def unambiguous_def
    by (simp add: result_simps validate_limits_Inr validate_policy_Inr validate_servers_Inr
        validate_forwards_Inr servers forwards pairs group_id_conflict_Inr Int_Un_distrib)
      (rule iffI; elim conjE; intro conjI; assumption)
qed

text \<open>The two \<open>unwrap\<close>s of the error messages are never reached on an absent value.\<close>

lemma try_each_Inl: "try_each f xs = Inl e \<Longrightarrow> \<exists>x \<in> set xs. f x = Inl e"
  by (induction xs) (auto simp: result_simps)

lemma validate_servers_no_panic: "validate_servers ua ids names ss \<noteq> Inl Panicked"
  by (induction ss arbitrary: ids names)
    (auto simp: result_simps validate_name_def validate_id_def map_err_def split: sum.splits)

lemma validate_forward_no_panic: "validate_forward ids f \<noteq> Inl Panicked"
  by (auto simp: validate_forward_def result_simps map_err_def split: option.splits sum.splits)

lemma validate_forwards_no_panic: "validate_forwards ua ids acc fs \<noteq> Inl Panicked"
  by (induction fs arbitrary: acc)
    (auto simp: result_simps validate_name_def validate_id_def validate_forward_no_panic split: option.splits)

lemma name_collisions_no_panic:
  assumes "ids = id_of ` set xs" and "\<And>x y. e x y \<noteq> p"
  shows "try_each (\<lambda>x. if name_of x \<noteq> id_of x \<and> name_of x \<in> ids
                 then (case List.find (\<lambda>other. id_of other = name_of x) xs of
                     None \<Rightarrow> Inl p | Some other \<Rightarrow> Inl (e x other)) else Inr ()) xs \<noteq> Inl p"
  using assms by (force dest!: try_each_Inl simp: find_None_iff split: if_splits option.splits)

lemma validate_never_panics: "validate ua js c \<noteq> Inl Panicked"
proof
  assume panic: "validate ua js c = Inl Panicked"
  have "validate_limits js c \<noteq> Inl Panicked" and "validate_policy p \<noteq> Inl Panicked" for p
    by (auto simp: validate_limits_def validate_policy_def result_simps)
  moreover have "validate_server_names (sp_id ` set (servers c)) (servers c) \<noteq> Inl Panicked"
    unfolding validate_server_names_def by (rule name_collisions_no_panic) auto
  moreover have "validate_forward_names (fs_id ` set (forwards c)) (forwards c) \<noteq> Inl Panicked"
    unfolding validate_forward_names_def by (rule name_collisions_no_panic) auto
  moreover have "group_id_conflict \<lparr>seen_ids = fs_id ` set (forwards c),
      seen_names = fs_name ` set (forwards c), group_names = group_set (forwards c)\<rparr> (forwards c) \<noteq> Inl Panicked"
    by (auto simp: group_id_conflict_def)
  moreover have "validate_pair a b \<noteq> Inl Panicked" for a b
    by (auto simp: validate_pair_def Let_def split: option.splits)
  ultimately show False
    using panic validate_servers_no_panic validate_forwards_no_panic
    by (auto simp: validate_def result_simps validate_servers_Inr validate_forwards_Inr dest!: try_each_Inl)
qed

section \<open>Properties\<close>

text \<open>
  Property C6. The validator decides well-formedness: it accepts exactly the configurations
  whose limits, policies, names, ids, references, endpoints and listeners are sound, whatever
  order its loops report a fault in, and its two \<open>unwrap\<close>s never panic.
\<close>

theorem validate_decides_wf:
  "(validate ua js c = Inr () \<longleftrightarrow> wf_config ua js c) \<and> validate ua js c \<noteq> Inl Panicked"
  using validate_iff_wf validate_never_panics by blast

end
