(* ===== verification/Samples.thy ===== *)
theory Samples
  imports Config
begin

text \<open>
  A small valid configuration, two servers with a local, a remote and a relay rule, at which
  the theorems with hypotheses are instantiated.
\<close>

section \<open>A sample configuration\<close>

definition loopback :: "u16 \<Rightarrow> socket_addr" where
  "loopback p = SockV4 (Ipv4 127 0 0 1) p"

definition sample_server_a :: server_profile where
  "sample_server_a = (new_profile ''srv-a'' ''alpha'')\<lparr>sp_host := Some ''10.0.0.1''\<rparr>"

definition sample_server_b :: server_profile where
  "sample_server_b = (new_profile ''srv-b'' ''beta'')\<lparr>sp_ssh_alias := Some ''beta-host''\<rparr>"

definition sample_target :: endpoint where
  "sample_target = \<lparr>ep_host = ''localhost'', ep_port = 22\<rparr>"

definition sample_local :: forward_spec where
  "sample_local = \<lparr>fs_id = ''f1'', fs_name = ''web-3000'', fs_group = None, fs_server_id = ''srv-a'',
     fs_tunnel = Local (loopback 3000) sample_target, fs_desired_state = Running,
     fs_connection_mode = Shared, fs_remote_cleanup = Off\<rparr>"

definition sample_local2 :: forward_spec where
  "sample_local2 = \<lparr>fs_id = ''f2'', fs_name = ''web-3001'', fs_group = None, fs_server_id = ''srv-b'',
     fs_tunnel = Local (loopback 3001) sample_target, fs_desired_state = Stopped,
     fs_connection_mode = Shared, fs_remote_cleanup = Off\<rparr>"

definition sample_remote :: forward_spec where
  "sample_remote = \<lparr>fs_id = ''f3'', fs_name = ''back'', fs_group = Some ''infra'', fs_server_id = ''srv-a'',
     fs_tunnel = Remote (loopback 8080) sample_target, fs_desired_state = Running,
     fs_connection_mode = Dedicated, fs_remote_cleanup = Verified\<rparr>"

definition sample_relay :: forward_spec where
  "sample_relay = \<lparr>fs_id = ''f4'', fs_name = ''bridge'', fs_group = Some ''infra'', fs_server_id = ''srv-a'',
     fs_tunnel = Relay (loopback 9000) sample_target ''srv-b'', fs_desired_state = Running,
     fs_connection_mode = Dedicated, fs_remote_cleanup = Verified\<rparr>"

definition sample_config :: config where
  "sample_config = default_config
     \<lparr>revision := 7, servers := [sample_server_a, sample_server_b],
      forwards := [sample_local, sample_local2, sample_remote, sample_relay]\<rparr>"

definition no_ext :: "nat \<Rightarrow> bool" where
  "no_ext c = False"

definition small_json :: "config \<Rightarrow> nat option" where
  "small_json c = Some 100"

lemmas sample_defs =
  sample_config_def sample_server_a_def sample_server_b_def sample_target_def sample_local_def
  sample_local2_def sample_remote_def sample_relay_def new_profile_def default_config_def
  SCHEMA_VERSION_def loopback_def

lemmas text_eval =
  chars_ascii byte_def good_name_def good_id_def name_char_def is_alphanumeric_def no_ext_def
  plain_word_def is_control_def is_whitespace_def is_ascii_def

lemma sample_servers_ok:
  "s \<in> set (servers sample_config) \<Longrightarrow>
     good_name no_ext (sp_name s) \<and> good_id (sp_id s) \<and> validate_connection_options s = Inr ()"
  by (auto simp: sample_defs text_eval validate_connection_options_Inr)

lemma sample_target_ok: "endpoint_ok sample_target"
  by (simp add: endpoint_ok_def sample_target_def written_host_def endpoint_host_def bracketed_def text_eval)

lemma sample_forwards_ok:
  "f \<in> set (forwards sample_config) \<Longrightarrow>
     good_name no_ext (fs_name f) \<and> good_id (fs_id f) \<and> (\<forall>g \<in> set_option (fs_group f). good_name no_ext g) \<and>
     good_forward (sp_id ` set (servers sample_config)) f"
  using sample_target_ok
  by (auto simp: sample_defs text_eval good_forward_def references_server_iff)

lemma sample_pairs: "\<forall>(a, b) \<in> set (all_pairs (forwards sample_config)). coexist a b"
  by (simp add: sample_defs coexist_def listeners_conflict_def same_side_def overlaps_def)

lemma sample_wf: "wf_config no_ext small_json sample_config"
  unfolding wf_config_def
proof (intro conjI ballI)
  show "unambiguous sp_id sp_name (servers sample_config)"
    and "unambiguous fs_id fs_name (forwards sample_config)"
    by (simp_all add: sample_defs unambiguous_def)
qed (use sample_servers_ok sample_forwards_ok sample_pairs in
    \<open>auto simp: small_json_def sample_config_def default_config_def good_policy_def
       default_retry_policy_def group_set_def sample_defs\<close>)

end
