(* ===== verification/Selection.thy ===== *)
theory Selection
  imports Samples
begin

text \<open>
  Looking resources up by id or name (\<open>Config::server\<close>, \<open>Config::forward\<close>) and resolving
  the selectors of commands (\<open>Config::select_*\<close> and \<open>Selection::resolve\<close> in
  \<open>crates/fwm-core/src/selection.rs\<close>).
\<close>

section \<open>Lookups and selections\<close>

definition lookup_by :: "('a \<Rightarrow> string) \<Rightarrow> ('a \<Rightarrow> string) \<Rightarrow> 'a list \<Rightarrow> string \<Rightarrow> 'a option" where
  "lookup_by id_of name_of xs sel =
     or_else (List.find (\<lambda>x. id_of x = sel) xs) (List.find (\<lambda>x. name_of x = sel) xs)"

definition server :: "config \<Rightarrow> string \<Rightarrow> server_profile option" where
  "server c sel = lookup_by sp_id sp_name (servers c) sel"

definition forward :: "config \<Rightarrow> string \<Rightarrow> forward_spec option" where
  "forward c sel = lookup_by fs_id fs_name (forwards c) sel"

datatype select_error =
    UnknownForwardOrGroup string | UnknownGroup string | UnknownServerSelector string

definition select_group_forwards :: "config \<Rightarrow> string \<Rightarrow> select_error + string list" where
  "select_group_forwards c g =
     (let ids = map fs_id (filter (\<lambda>f. fs_group f = Some g) (forwards c))
      in if ids = [] then Inl (UnknownGroup g) else Inr ids)"

definition select_forwards :: "config \<Rightarrow> string \<Rightarrow> select_error + string list" where
  "select_forwards c sel =
     (case forward c sel of
        Some f \<Rightarrow> Inr [fs_id f]
      | None \<Rightarrow> map_err (\<lambda>_. UnknownForwardOrGroup sel) (select_group_forwards c sel))"

definition select_server_forwards :: "config \<Rightarrow> string \<Rightarrow> select_error + string list" where
  "select_server_forwards c sel =
     rbind (ok_or (server c sel) (UnknownServerSelector sel)) (\<lambda>s.
     Inr (map fs_id (filter (\<lambda>f. references_server f (sp_id s)) (forwards c))))"

datatype selection = SelAll | SelServer string | SelForward string | SelGroup string

fun resolve :: "selection \<Rightarrow> config \<Rightarrow> select_error + string list" where
  "resolve SelAll c = Inr (map fs_id (forwards c))"
| "resolve (SelServer s) c = select_server_forwards c s"
| "resolve (SelForward f) c = select_forwards c f"
| "resolve (SelGroup g) c = select_group_forwards c g"

section \<open>The contract of a directory of resources\<close>

text \<open>
  What the clients of a lookup rely on: in a valid configuration the ids and the names of
  one kind of resource are unambiguous.
\<close>

locale directory =
  fixes id_of :: "'a \<Rightarrow> string"
    and name_of :: "'a \<Rightarrow> string"
    and entries :: "'c \<Rightarrow> 'a list"
    and valid :: "'c \<Rightarrow> bool"
  assumes entries_unambiguous: "valid c \<Longrightarrow> unambiguous id_of name_of (entries c)"
begin

lemma entry_id_unique:
  "valid c \<Longrightarrow> x \<in> set (entries c) \<Longrightarrow> y \<in> set (entries c) \<Longrightarrow> id_of x = id_of y \<Longrightarrow> x = y"
  using distinct_map_unique unambiguousD(1) [OF entries_unambiguous] by metis

lemma entry_name_unique:
  "valid c \<Longrightarrow> x \<in> set (entries c) \<Longrightarrow> y \<in> set (entries c) \<Longrightarrow> name_of x = name_of y \<Longrightarrow> x = y"
  using distinct_map_unique unambiguousD(2) [OF entries_unambiguous] by metis

lemma found_by_id:
  "valid c \<Longrightarrow> x \<in> set (entries c) \<Longrightarrow> lookup_by id_of name_of (entries c) (id_of x) = Some x"
  by (auto simp: lookup_by_def or_else_Some_iff intro!: find_unique entry_id_unique)

lemma found_by_name:
  assumes v: "valid c" and x: "x \<in> set (entries c)"
  shows "lookup_by id_of name_of (entries c) (name_of x) = Some x"
proof (cases "List.find (\<lambda>y. id_of y = name_of x) (entries c)")
  case None
  have "List.find (\<lambda>y. name_of y = name_of x) (entries c) = Some x"
    using v x by (auto intro!: find_unique entry_name_unique)
  with None show ?thesis by (simp add: lookup_by_def)
next
  case (Some y)
  then have y: "y \<in> set (entries c)" "id_of y = name_of x" by (auto dest: find_SomeD)
  have "id_of x = id_of y"
    by (rule unambiguousD(3) [OF entries_unambiguous [OF v] x y(1) y(2) [symmetric]])
  with v x y(1) have "y = x" by (metis entry_id_unique)
  with Some show ?thesis by (simp add: lookup_by_def)
qed

lemma lookup_sound:
  "lookup_by id_of name_of (entries c) sel = Some x \<Longrightarrow>
     x \<in> set (entries c) \<and> (id_of x = sel \<or> name_of x = sel)"
  by (auto simp: lookup_by_def or_else_Some_iff dest: find_SomeD)

lemma lookup_iff:
  "valid c \<Longrightarrow> lookup_by id_of name_of (entries c) sel = Some x \<longleftrightarrow>
     x \<in> set (entries c) \<and> (id_of x = sel \<or> name_of x = sel)"
  using found_by_id found_by_name lookup_sound by blast

end

interpretation servers_dir: directory sp_id sp_name servers "wf_config ua js" for ua js
  by unfold_locales (simp add: wf_config_def)

interpretation forwards_dir: directory fs_id fs_name forwards "wf_config ua js" for ua js
  by unfold_locales (simp add: wf_config_def)

lemma server_iff:
  "wf_config ua js c \<Longrightarrow> server c sel = Some s \<longleftrightarrow> s \<in> set (servers c) \<and> (sp_id s = sel \<or> sp_name s = sel)"
  unfolding server_def by (rule servers_dir.lookup_iff)

lemma forward_iff:
  "wf_config ua js c \<Longrightarrow> forward c sel = Some f \<longleftrightarrow> f \<in> set (forwards c) \<and> (fs_id f = sel \<or> fs_name f = sel)"
  unfolding forward_def by (rule forwards_dir.lookup_iff)

section \<open>What a selection denotes\<close>

text \<open>The rules a selector stands for, without the order of the lookups.\<close>

definition denotes :: "config \<Rightarrow> selection \<Rightarrow> forward_spec \<Rightarrow> bool" where
  "denotes c sel f = (case sel of
       SelAll \<Rightarrow> True
     | SelServer s \<Rightarrow> (\<exists>p \<in> set (servers c). (sp_id p = s \<or> sp_name p = s) \<and> references_server f (sp_id p))
     | SelForward s \<Rightarrow> fs_id f = s \<or> fs_name f = s \<or> fs_group f = Some s
     | SelGroup g \<Rightarrow> fs_group f = Some g)"

lemma group_never_names_a_rule:
  "wf_config ua js c \<Longrightarrow> f \<in> set (forwards c) \<Longrightarrow> fs_group f = Some g \<Longrightarrow>
     f' \<in> set (forwards c) \<Longrightarrow> fs_id f' \<noteq> g \<and> fs_name f' \<noteq> g"
  by (fastforce simp: wf_config_def group_set_def)

lemma select_group_Inr:
  "select_group_forwards c g = Inr ids \<Longrightarrow>
     ids = map fs_id (filter (\<lambda>f. denotes c (SelGroup g) f) (forwards c)) \<and> ids \<noteq> []"
  by (auto simp: select_group_forwards_def Let_def denotes_def split: if_splits)

lemma select_forwards_Inr:
  assumes wf: "wf_config ua js c" and sel: "select_forwards c s = Inr ids"
  shows "ids = map fs_id (filter (\<lambda>f. denotes c (SelForward s) f) (forwards c)) \<and> ids \<noteq> []"
proof (cases "forward c s")
  case (Some x)
  with wf have x: "x \<in> set (forwards c)" "fs_id x = s \<or> fs_name x = s" by (auto simp: forward_iff)
  have "denotes c (SelForward s) f \<longleftrightarrow> f = x" if f: "f \<in> set (forwards c)" for f
  proof
    assume "denotes c (SelForward s) f"
    moreover from group_never_names_a_rule [OF wf f _ x(1)] x(2) have "fs_group f \<noteq> Some s" by auto
    ultimately have "forward c s = Some f" using f by (auto simp: denotes_def forward_iff [OF wf])
    with Some show "f = x" by simp
  qed (use x in \<open>auto simp: denotes_def\<close>)
  moreover have "distinct (forwards c)"
    using wf by (auto simp: wf_config_def unambiguous_def distinct_map)
  ultimately have "filter (\<lambda>f. denotes c (SelForward s) f) (forwards c) = [x]"
    using x(1) by (intro filter_single) auto
  with Some sel show ?thesis by (auto simp: select_forwards_def)
next
  case None
  then have "fs_id f \<noteq> s \<and> fs_name f \<noteq> s" if "f \<in> set (forwards c)" for f
    using that forward_iff [OF wf] by (metis option.distinct(1))
  then have "filter (\<lambda>f. denotes c (SelForward s) f) (forwards c)
      = filter (\<lambda>f. denotes c (SelGroup s) f) (forwards c)"
    by (auto simp: denotes_def intro!: filter_cong)
  moreover from None sel have "select_group_forwards c s = Inr ids"
    by (simp add: select_forwards_def result_simps)
  ultimately show ?thesis using select_group_Inr by simp
qed

lemma select_server_Inr:
  assumes wf: "wf_config ua js c" and sel: "select_server_forwards c s = Inr ids"
  shows "ids = map fs_id (filter (\<lambda>f. denotes c (SelServer s) f) (forwards c))"
proof -
  from sel obtain p where p: "server c s = Some p"
    and ids: "ids = map fs_id (filter (\<lambda>f. references_server f (sp_id p)) (forwards c))"
    by (auto simp: select_server_forwards_def result_simps)
  have "(\<exists>q \<in> set (servers c). (sp_id q = s \<or> sp_name q = s) \<and> references_server f (sp_id q))
      \<longleftrightarrow> references_server f (sp_id p)" for f
  proof
    assume "\<exists>q \<in> set (servers c). (sp_id q = s \<or> sp_name q = s) \<and> references_server f (sp_id q)"
    then obtain q where "server c s = Some q" "references_server f (sp_id q)"
      by (auto simp: server_iff [OF wf])
    with p show "references_server f (sp_id p)" by simp
  next
    assume "references_server f (sp_id p)"
    with p show "\<exists>q \<in> set (servers c). (sp_id q = s \<or> sp_name q = s) \<and> references_server f (sp_id q)"
      by (auto simp: server_iff [OF wf])
  qed
  then show ?thesis by (simp add: ids denotes_def)
qed

lemma resolve_denotes:
  assumes "wf_config ua js c" and "resolve sel c = Inr ids"
  shows "ids = map fs_id (filter (denotes c sel) (forwards c))"
proof (cases sel)
  case SelAll
  then show ?thesis using assms by (simp add: denotes_def)
next
  case (SelServer s)
  then show ?thesis using assms select_server_Inr by simp
next
  case (SelForward s)
  then show ?thesis using assms select_forwards_Inr by simp
next
  case (SelGroup g)
  then show ?thesis using assms select_group_Inr by simp
qed

lemma resolve_in_config: "resolve sel c = Inr ids \<Longrightarrow> set ids \<subseteq> fs_id ` set (forwards c)"
  by (cases sel)
    (auto simp: select_server_forwards_def select_forwards_def select_group_forwards_def
      forward_def lookup_by_def or_else_Some_iff result_simps Let_def
      split: option.splits if_splits dest!: find_SomeD)

lemma resolve_error_empty:
  assumes wf: "wf_config ua js c" and err: "resolve sel c = Inl e"
  shows "filter (denotes c sel) (forwards c) = []"
proof (cases sel)
  case SelAll
  with err show ?thesis by simp
next
  case (SelServer s)
  with err have "server c s = None" by (auto simp: select_server_forwards_def result_simps)
  with wf have "\<not> (p \<in> set (servers c) \<and> (sp_id p = s \<or> sp_name p = s))" for p
    using server_iff [of ua js c s p] by simp
  with SelServer show ?thesis by (auto simp: denotes_def filter_empty_conv)
next
  case (SelForward s)
  with err have "forward c s = None" and g: "select_group_forwards c s = Inl (UnknownGroup s)"
    by (auto simp: select_forwards_def select_group_forwards_def Let_def split: option.splits if_splits)
  with wf have "\<not> (f \<in> set (forwards c) \<and> (fs_id f = s \<or> fs_name f = s))" for f
    using forward_iff [of ua js c s f] by simp
  with SelForward g show ?thesis
    by (auto simp: denotes_def filter_empty_conv select_group_forwards_def Let_def split: if_splits)
next
  case (SelGroup g)
  with err show ?thesis
    by (auto simp: denotes_def filter_empty_conv select_group_forwards_def Let_def split: if_splits)
qed

section \<open>Properties\<close>

text \<open>
  In a valid configuration a selector of a command resolves to exactly the rules
  it denotes, each once and in configuration order; it is refused only when it denotes none.
\<close>

theorem resolve_exact:
  assumes "wf_config ua js c"
  shows "case resolve sel c of
      Inr ids \<Rightarrow> ids = map fs_id (filter (denotes c sel) (forwards c)) \<and> distinct ids
    | Inl _ \<Rightarrow> filter (denotes c sel) (forwards c) = []"
proof (cases "resolve sel c")
  case (Inl e)
  with resolve_error_empty [OF assms] show ?thesis by simp
next
  case (Inr ids)
  have "distinct (map fs_id (forwards c))"
    using forwards_dir.entries_unambiguous [OF assms] by (rule unambiguousD(1))
  with resolve_denotes [OF assms Inr] Inr show ?thesis by (simp add: distinct_map_filter)
qed

theorem resolve_exact_witness:
  "resolve (SelForward ''infra'') sample_config = Inr [''f3'', ''f4''] \<and>
   resolve (SelServer ''beta'') sample_config = Inr [''f2'', ''f4''] \<and>
   map fs_id (filter (denotes sample_config (SelServer ''beta'')) (forwards sample_config)) = [''f2'', ''f4'']"
proof -
  have "resolve (SelForward ''infra'') sample_config = Inr [''f3'', ''f4'']"
    by (simp add: sample_defs select_forwards_def forward_def lookup_by_def select_group_forwards_def)
  moreover have "resolve (SelServer ''beta'') sample_config = Inr [''f2'', ''f4'']"
    by (simp add: sample_defs select_server_forwards_def server_def lookup_by_def references_server_iff)
  ultimately show ?thesis using resolve_exact [OF sample_wf, of "SelServer ''beta''"] by simp
qed

text \<open>
  A name or an id selects at most one server and one rule: looking up either
  finds the entry that bears it, and every hit bears it.
\<close>

theorem lookup_unambiguous:
  assumes "wf_config ua js c"
  shows "(server c sel = Some s \<longleftrightarrow> s \<in> set (servers c) \<and> (sp_id s = sel \<or> sp_name s = sel)) \<and>
    (forward c sel = Some f \<longleftrightarrow> f \<in> set (forwards c) \<and> (fs_id f = sel \<or> fs_name f = sel))"
  using server_iff [OF assms] forward_iff [OF assms] by blast

theorem lookup_unambiguous_witness:
  "server sample_config ''alpha'' = Some sample_server_a \<and> forward sample_config ''f4'' = Some sample_relay"
  unfolding conjunct1 [OF lookup_unambiguous [OF sample_wf]] conjunct2 [OF lookup_unambiguous [OF sample_wf]]
  by (simp add: sample_defs)

end
