(* ===== verification/Migrate.thy ===== *)
theory Migrate
  imports Samples
begin

text \<open>
  \<open>Config::migrate\<close>: version 1 rules get managed recovery, the batches of versions 1 and 2
  get a group inferred from their names, and the revision advances. The \<open>BTreeMap\<close> of
  batches is an association list sorted by prefix.
\<close>

section \<open>The migration\<close>

definition upgrade_cleanup :: "u32 \<Rightarrow> forward_spec \<Rightarrow> forward_spec" where
  "upgrade_cleanup legacy f =
     (if legacy = 1 \<and> is_remote (fs_tunnel f)
      then f\<lparr>fs_remote_cleanup := Verified, fs_connection_mode := Dedicated\<rparr> else f)"

text \<open>The group a rule's name suggests: \<open>prefix-port\<close>, where no rule has that prefix as name or id.\<close>

definition batch_prefix ::
    "(nat \<Rightarrow> bool) \<Rightarrow> string set \<Rightarrow> string set \<Rightarrow> forward_spec \<Rightarrow> string option" where
  "batch_prefix ua names ids f =
     (if fs_group f \<noteq> None then None
      else (case rsplit_once CHR ''-'' (fs_name f) of
          None \<Rightarrow> None
        | Some (prefix, suffix) \<Rightarrow>
            if suffix = show_word (sock_port (listen (fs_tunnel f))) \<and> is_ok (validate_name ua prefix) \<and>
               prefix \<notin> names \<and> prefix \<notin> ids
            then Some prefix else None))"

type_synonym batches = "(string \<times> nat list) list"

fun push_batch :: "string \<Rightarrow> nat \<Rightarrow> batches \<Rightarrow> batches" where
  "push_batch k i [] = [(k, [i])]"
| "push_batch k i ((k', is) # bs) =
     (if k = k' then (k', is @ [i]) # bs
      else if k < k' then (k, [i]) # (k', is) # bs
      else (k', is) # push_batch k i bs)"

fun collect_batches ::
    "(nat \<Rightarrow> bool) \<Rightarrow> string set \<Rightarrow> string set \<Rightarrow> batches \<Rightarrow> nat \<Rightarrow> forward_spec list \<Rightarrow> batches" where
  "collect_batches ua names ids bs i [] = bs"
| "collect_batches ua names ids bs i (f # fs) =
     collect_batches ua names ids
       (case batch_prefix ua names ids f of None \<Rightarrow> bs | Some p \<Rightarrow> push_batch p i bs) (Suc i) fs"

definition grouped_rules :: "string \<Rightarrow> nat list \<Rightarrow> forward_spec list \<Rightarrow> forward_spec list" where
  "grouped_rules name members fs =
     map snd (filter (\<lambda>(i, f). i \<in> set members \<or> fs_group f = Some name) (enumerate 0 fs))"

definition batch_conflicts :: "forward_spec list \<Rightarrow> bool" where
  "batch_conflicts grouped = (\<exists>(a, b) \<in> set (all_pairs grouped). listeners_conflict a b)"

definition assign_group :: "string \<Rightarrow> nat list \<Rightarrow> forward_spec list \<Rightarrow> forward_spec list" where
  "assign_group name members fs = foldl (\<lambda>fs i. fs[i := (fs ! i)\<lparr>fs_group := Some name\<rparr>]) fs members"

fun apply_batches :: "batches \<Rightarrow> forward_spec list \<Rightarrow> forward_spec list" where
  "apply_batches [] fs = fs"
| "apply_batches ((name, members) # bs) fs =
     apply_batches bs
       (if 1 < length members \<and> \<not> batch_conflicts (grouped_rules name members fs)
        then assign_group name members fs else fs)"

definition infer_legacy_groups :: "(nat \<Rightarrow> bool) \<Rightarrow> forward_spec list \<Rightarrow> forward_spec list" where
  "infer_legacy_groups ua fs =
     apply_batches (collect_batches ua (set (map fs_name fs)) (set (map fs_id fs)) [] 0 fs) fs"

datatype migrate_error = RevisionExhausted | UnsupportedVersion u32

text \<open>The result is the migrated configuration and whether anything changed.\<close>

definition migrate :: "(nat \<Rightarrow> bool) \<Rightarrow> config \<Rightarrow> migrate_error + (config \<times> bool)" where
  "migrate ua c =
     (if schema_version c = SCHEMA_VERSION then Inr (c, False)
      else if 1 \<le> schema_version c \<and> schema_version c \<le> 3 then
        (let legacy = schema_version c;
             upgraded = map (upgrade_cleanup legacy) (forwards c);
             grouped = (if legacy < 3 then infer_legacy_groups ua upgraded else upgraded)
         in rbind (ok_or (checked_add (revision c) 1) RevisionExhausted) (\<lambda>r.
            Inr (c\<lparr>forwards := grouped, schema_version := SCHEMA_VERSION, revision := r\<rparr>, True)))
      else Inl (UnsupportedVersion (schema_version c)))"

section \<open>What a migration keeps\<close>

text \<open>Rules agree in all but their group (and, in version 1, their recovery mode).\<close>

definition same_but_group :: "forward_spec \<Rightarrow> forward_spec \<Rightarrow> bool" where
  "same_but_group f g = (f\<lparr>fs_group := None\<rparr> = g\<lparr>fs_group := None\<rparr>)"

lemma same_but_group_refl [simp]: "same_but_group f f"
  by (simp add: same_but_group_def)

lemma same_but_group_trans: "same_but_group f g \<Longrightarrow> same_but_group g h \<Longrightarrow> same_but_group f h"
  by (simp add: same_but_group_def)

lemma same_but_group_fields:
  assumes "same_but_group f g"
  shows "fs_id g = fs_id f" "fs_name g = fs_name f" "fs_server_id g = fs_server_id f"
    "fs_tunnel g = fs_tunnel f" "fs_desired_state g = fs_desired_state f"
    "fs_connection_mode g = fs_connection_mode f" "fs_remote_cleanup g = fs_remote_cleanup f"
proof -
  from assms have "f\<lparr>fs_group := None\<rparr> = g\<lparr>fs_group := None\<rparr>" by (simp add: same_but_group_def)
  then show "fs_id g = fs_id f" "fs_name g = fs_name f" "fs_server_id g = fs_server_id f"
    "fs_tunnel g = fs_tunnel f" "fs_desired_state g = fs_desired_state f"
    "fs_connection_mode g = fs_connection_mode f" "fs_remote_cleanup g = fs_remote_cleanup f"
    by (cases f; cases g; simp)+
qed

lemma same_but_group_same_side: "same_but_group a a' \<Longrightarrow> same_but_group b b' \<Longrightarrow>
    listeners_conflict a' b' = listeners_conflict a b"
  using same_but_group_fields by (simp add: listeners_conflict_def same_side_def)

lemma length_assign_group [simp]: "length (assign_group name members fs) = length fs"
  unfolding assign_group_def by (induction members arbitrary: fs) auto

lemma nth_assign_group:
  "i < length fs \<Longrightarrow> assign_group name members fs ! i =
     (if i \<in> set members then (fs ! i)\<lparr>fs_group := Some name\<rparr> else fs ! i)"
proof (induction members arbitrary: fs)
  case Nil
  then show ?case by (simp add: assign_group_def)
next
  case (Cons m ms)
  let ?fs = "fs[m := (fs ! m)\<lparr>fs_group := Some name\<rparr>]"
  have "assign_group name (m # ms) fs = assign_group name ms ?fs"
    by (simp add: assign_group_def)
  moreover from Cons.prems have "i < length ?fs" by simp
  ultimately show ?case using Cons.IH [of ?fs] Cons.prems by (cases "m = i") auto
qed

definition regrouped :: "forward_spec list \<Rightarrow> forward_spec list \<Rightarrow> bool" where
  "regrouped = list_all2 same_but_group"

lemma regrouped_nth:
  "regrouped fs gs \<longleftrightarrow> length fs = length gs \<and> (\<forall>i < length fs. same_but_group (fs ! i) (gs ! i))"
  by (auto simp: regrouped_def list_all2_conv_all_nth)

lemma regrouped_assign: "regrouped fs (assign_group name members fs)"
  by (auto simp: regrouped_nth nth_assign_group same_but_group_def)

lemma regrouped_trans: "regrouped fs gs \<Longrightarrow> regrouped gs hs \<Longrightarrow> regrouped fs hs"
  unfolding regrouped_nth using same_but_group_trans by fastforce

lemma regrouped_apply_batches: "regrouped fs (apply_batches bs fs)"
proof (induction bs fs rule: apply_batches.induct)
  case (1 fs)
  then show ?case by (simp add: regrouped_nth)
next
  case (2 name members bs fs)
  let ?fs = "if 1 < length members \<and> \<not> batch_conflicts (grouped_rules name members fs)
        then assign_group name members fs else fs"
  have "regrouped fs fs" by (simp add: regrouped_nth)
  then have first: "regrouped fs ?fs" using regrouped_assign by (cases "1 < length members") auto
  have "apply_batches ((name, members) # bs) fs = apply_batches bs ?fs" by simp
  with regrouped_trans [OF first "2.IH"] show ?case by simp
qed

lemma regrouped_infer: "regrouped fs (infer_legacy_groups ua fs)"
  by (simp add: infer_legacy_groups_def regrouped_apply_batches)

lemma regrouped_maps:
  assumes "regrouped fs gs"
  shows "map fs_id gs = map fs_id fs" and "map fs_name gs = map fs_name fs"
  using assms unfolding regrouped_def
  by (induction rule: list_all2_induct) (simp_all add: same_but_group_fields(1,2))

section \<open>Migration keeps a configuration valid\<close>

definition all_coexist :: "forward_spec list \<Rightarrow> bool" where
  "all_coexist fs = (\<forall>(a, b) \<in> set (all_pairs fs). coexist a b)"

definition groups_satisfy :: "(string \<Rightarrow> bool) \<Rightarrow> forward_spec list \<Rightarrow> bool" where
  "groups_satisfy Q fs = (\<forall>f \<in> set fs. \<forall>g \<in> set_option (fs_group f). Q g)"

lemma all_coexist_nth:
  "all_coexist fs \<longleftrightarrow> (\<forall>i j. i < j \<longrightarrow> j < length fs \<longrightarrow> coexist (fs ! i) (fs ! j))"
  unfolding all_coexist_def by (fastforce simp: all_pairs_iff)

lemma grouped_pair:
  assumes "i < j" and "j < length fs"
    and "i \<in> set members \<or> fs_group (fs ! i) = Some name"
    and "j \<in> set members \<or> fs_group (fs ! j) = Some name"
  shows "(fs ! i, fs ! j) \<in> set (all_pairs (grouped_rules name members fs))"
proof -
  let ?p = "\<lambda>(i, f). i \<in> set members \<or> fs_group f = Some name"
  have "(enumerate 0 fs ! i, enumerate 0 fs ! j) \<in> set (all_pairs (enumerate 0 fs))"
    using assms(1,2) by (intro all_pairs_nth) auto
  then have "((i, fs ! i), (j, fs ! j)) \<in> set (all_pairs (filter ?p (enumerate 0 fs)))"
    using assms by (simp add: all_pairs_filter nth_enumerate_eq)
  then show ?thesis by (force simp: grouped_rules_def all_pairs_map)
qed

lemma coexist_same_but_group:
  assumes "same_but_group a a'" and "same_but_group b b'"
    and "fs_group a' \<noteq> None \<Longrightarrow> fs_group a' = fs_group b' \<Longrightarrow> \<not> listeners_conflict a b"
    and "coexist a b"
  shows "coexist a' b'"
  using assms(3,4)
  unfolding coexist_def same_but_group_same_side [OF assms(1,2)]
    same_but_group_fields(5) [OF assms(1)] same_but_group_fields(5) [OF assms(2)]
  by blast

lemma assign_group_coexist:
  assumes ok: "all_coexist fs" and free: "\<not> batch_conflicts (grouped_rules name members fs)"
  shows "all_coexist (assign_group name members fs)"
  unfolding all_coexist_nth
proof (intro allI impI)
  fix i j
  assume ij: "i < j" and "j < length (assign_group name members fs)"
  then have j: "j < length fs" and i: "i < length fs" by auto
  let ?gs = "assign_group name members fs"
  have same: "same_but_group (fs ! k) (?gs ! k)" if "k < length fs" for k
    using that regrouped_assign by (simp add: regrouped_nth)
  show "coexist (?gs ! i) (?gs ! j)"
  proof (rule coexist_same_but_group [OF same [OF i] same [OF j]])
    show "coexist (fs ! i) (fs ! j)" using ok ij j by (simp add: all_coexist_nth)
    assume some: "fs_group (?gs ! i) \<noteq> None" and eq: "fs_group (?gs ! i) = fs_group (?gs ! j)"
    show "\<not> listeners_conflict (fs ! i) (fs ! j)"
    proof (cases "fs_group (?gs ! i) = Some name")
      case True
      with eq i j have "i \<in> set members \<or> fs_group (fs ! i) = Some name"
        and "j \<in> set members \<or> fs_group (fs ! j) = Some name"
        by (auto simp: nth_assign_group split: if_splits)
      from grouped_pair [OF ij j this] free show ?thesis by (auto simp: batch_conflicts_def)
    next
      case False
      with eq i j have "fs_group (fs ! i) = fs_group (fs ! j)" "fs_group (fs ! i) \<noteq> None"
        using some by (auto simp: nth_assign_group split: if_splits)
      with ok ij j show ?thesis by (auto simp: all_coexist_nth coexist_def)
    qed
  qed
qed

lemma assign_group_satisfy:
  assumes "groups_satisfy Q fs" and "Q name"
  shows "groups_satisfy Q (assign_group name members fs)"
  unfolding groups_satisfy_def
proof
  fix f
  assume "f \<in> set (assign_group name members fs)"
  then obtain i where i: "i < length fs" and f: "f = assign_group name members fs ! i"
    by (auto simp: in_set_conv_nth)
  then have "fs_group f = Some name \<or> f = fs ! i" by (simp add: nth_assign_group)
  with assms i show "\<forall>g \<in> set_option (fs_group f). Q g"
    by (auto simp: groups_satisfy_def)
qed

lemma apply_batches_ok:
  assumes "\<forall>(k, is) \<in> set bs. Q k" and "groups_satisfy Q fs" and "all_coexist fs"
  shows "groups_satisfy Q (apply_batches bs fs) \<and> all_coexist (apply_batches bs fs)"
  using assms
proof (induction bs fs rule: apply_batches.induct)
  case (1 fs)
  then show ?case by simp
next
  case (2 name members bs fs)
  let ?fs = "if 1 < length members \<and> \<not> batch_conflicts (grouped_rules name members fs)
        then assign_group name members fs else fs"
  have "groups_satisfy Q ?fs \<and> all_coexist ?fs"
    using "2.prems" assign_group_satisfy assign_group_coexist by simp
  with "2.IH" "2.prems"(1) have "groups_satisfy Q (apply_batches bs ?fs) \<and> all_coexist (apply_batches bs ?fs)"
    by auto
  then show ?case by simp
qed

text \<open>Every collected batch holds rules without a group whose name suggests its prefix.\<close>

definition batches_from ::
    "(nat \<Rightarrow> bool) \<Rightarrow> string set \<Rightarrow> string set \<Rightarrow> forward_spec list \<Rightarrow> batches \<Rightarrow> bool" where
  "batches_from ua names ids fs bs =
     (\<forall>(k, is) \<in> set bs. is \<noteq> [] \<and>
        (\<forall>i \<in> set is. i < length fs \<and> batch_prefix ua names ids (fs ! i) = Some k))"

lemma batches_from_push:
  assumes "batches_from ua names ids fs bs" and "i < length fs"
    and "batch_prefix ua names ids (fs ! i) = Some k"
  shows "batches_from ua names ids fs (push_batch k i bs)"
  using assms by (induction k i bs rule: push_batch.induct) (auto simp: batches_from_def)

lemma batches_from_collect:
  assumes "batches_from ua names ids fs bs" and "n + length gs = length fs" and "gs = drop n fs"
  shows "batches_from ua names ids fs (collect_batches ua names ids bs n gs)"
  using assms
proof (induction gs arbitrary: bs n)
  case Nil
  then show ?case by simp
next
  case (Cons g gs)
  from Cons.prems(2) have n: "n < length fs" by simp
  with Cons.prems(3) have "fs ! n = g \<and> gs = drop (Suc n) fs"
    by (simp add: Cons_nth_drop_Suc [symmetric])
  then have g: "fs ! n = g" and gs: "gs = drop (Suc n) fs" by simp_all
  have "batches_from ua names ids fs
      (case batch_prefix ua names ids g of None \<Rightarrow> bs | Some p \<Rightarrow> push_batch p n bs)"
    using Cons.prems(1) n g by (auto split: option.splits intro: batches_from_push)
  with Cons.IH [OF this _ gs] Cons.prems(2) show ?case by simp
qed

lemma inferred_batches:
  "batches_from ua (set (map fs_name fs)) (set (map fs_id fs)) fs
     (collect_batches ua (set (map fs_name fs)) (set (map fs_id fs)) [] 0 fs)"
  by (rule batches_from_collect) (simp_all add: batches_from_def)

lemma batch_prefix_Some:
  "batch_prefix ua names ids f = Some k \<Longrightarrow>
     fs_group f = None \<and> good_name ua k \<and> k \<notin> names \<and> k \<notin> ids"
  by (auto simp: batch_prefix_def is_ok_iff validate_name_Inr split: if_splits option.splits)

lemma infer_legacy_groups_ok:
  assumes "all_coexist fs"
    and "groups_satisfy (\<lambda>g. good_name ua g \<and> g \<notin> fs_id ` set fs \<union> fs_name ` set fs) fs"
  shows "all_coexist (infer_legacy_groups ua fs) \<and>
    groups_satisfy (\<lambda>g. good_name ua g \<and> g \<notin> fs_id ` set fs \<union> fs_name ` set fs) (infer_legacy_groups ua fs)"
proof -
  let ?Q = "\<lambda>g. good_name ua g \<and> g \<notin> fs_id ` set fs \<union> fs_name ` set fs"
  let ?bs = "collect_batches ua (set (map fs_name fs)) (set (map fs_id fs)) [] 0 fs"
  have "?Q k" if "(k, is) \<in> set ?bs" for k "is"
  proof -
    from that inferred_batches [of ua fs] obtain i where "i < length fs"
      and "batch_prefix ua (set (map fs_name fs)) (set (map fs_id fs)) (fs ! i) = Some k"
      by (fastforce simp: batches_from_def neq_Nil_conv)
    from batch_prefix_Some [OF this(2)] show ?thesis by auto
  qed
  then have "\<forall>(k, is) \<in> set ?bs. ?Q k" by blast
  from apply_batches_ok [OF this assms(2,1)] show ?thesis by (simp add: infer_legacy_groups_def)
qed

lemma upgrade_cleanup_fields [simp]:
  "fs_id (upgrade_cleanup v f) = fs_id f" "fs_name (upgrade_cleanup v f) = fs_name f"
  "fs_group (upgrade_cleanup v f) = fs_group f" "fs_server_id (upgrade_cleanup v f) = fs_server_id f"
  "fs_tunnel (upgrade_cleanup v f) = fs_tunnel f"
  "fs_desired_state (upgrade_cleanup v f) = fs_desired_state f"
  by (simp_all add: upgrade_cleanup_def)

lemma upgrade_cleanup_conflict [simp]:
  "listeners_conflict (upgrade_cleanup v f) (upgrade_cleanup v g) = listeners_conflict f g"
  by (simp add: listeners_conflict_def same_side_def)

lemma upgrade_cleanup_coexist [simp]:
  "coexist (upgrade_cleanup v f) (upgrade_cleanup v g) = coexist f g"
  by (simp add: coexist_def)

lemma upgrade_cleanup_good: "good_forward ids f \<Longrightarrow> good_forward ids (upgrade_cleanup v f)"
  by (auto simp: good_forward_def upgrade_cleanup_def references_server_iff)

lemma good_forward_same_but_group: "same_but_group f g \<Longrightarrow> good_forward ids f \<Longrightarrow> good_forward ids g"
  by (simp add: good_forward_def references_server_iff same_but_group_fields)

text \<open>Rules that already have a group keep it.\<close>

lemma apply_batches_nth:
  assumes "\<And>k is. (k, is) \<in> set bs \<Longrightarrow> i \<notin> set is" and "i < length fs"
  shows "apply_batches bs fs ! i = fs ! i"
  using assms
proof (induction bs fs rule: apply_batches.induct)
  case (1 fs)
  then show ?case by simp
next
  case (2 name members bs fs)
  let ?fs = "if 1 < length members \<and> \<not> batch_conflicts (grouped_rules name members fs)
        then assign_group name members fs else fs"
  from "2.prems"(1) [of name members] have "i \<notin> set members" by simp
  with "2.prems"(2) have "?fs ! i = fs ! i" and "i < length ?fs" by (simp_all add: nth_assign_group)
  moreover have "apply_batches bs ?fs ! i = ?fs ! i"
    by (rule "2.IH") (use "2.prems" \<open>i < length ?fs\<close> in auto)
  ultimately show ?case by simp
qed

lemma infer_keeps_groups:
  assumes "i < length fs" and "fs_group (fs ! i) \<noteq> None"
  shows "infer_legacy_groups ua fs ! i = fs ! i"
proof -
  have "i \<notin> set is"
    if "(k, is) \<in> set (collect_batches ua (set (map fs_name fs)) (set (map fs_id fs)) [] 0 fs)" for k "is"
  proof
    assume "i \<in> set is"
    with that inferred_batches [of ua fs]
    have "batch_prefix ua (set (map fs_name fs)) (set (map fs_id fs)) (fs ! i) = Some k"
      unfolding batches_from_def by blast
    from batch_prefix_Some [OF this] assms(2) show False by simp
  qed
  then show ?thesis unfolding infer_legacy_groups_def by (rule apply_batches_nth [OF _ assms(1)]) blast
qed

lemma upgrade_wf:
  assumes wf: "wf_config ua js (c\<lparr>schema_version := SCHEMA_VERSION\<rparr>)"
    and fs: "fs = map (upgrade_cleanup v) (forwards c)"
  shows "length fs \<le> 512" and "unambiguous fs_id fs_name fs" and "all_coexist fs"
    and "\<forall>f \<in> set fs. good_name ua (fs_name f) \<and> good_id (fs_id f) \<and>
           good_forward (sp_id ` set (servers c)) f"
    and "groups_satisfy (\<lambda>g. good_name ua g \<and> g \<notin> fs_id ` set fs \<union> fs_name ` set fs) fs"
proof -
  show "length fs \<le> 512" using wf fs by (simp add: wf_config_def)
  have "unambiguous fs_id fs_name (forwards c)" using wf by (simp add: wf_config_def)
  then show "unambiguous fs_id fs_name fs"
    by (simp add: fs unambiguous_map)
  show "all_coexist fs"
    using wf by (auto simp: wf_config_def all_coexist_def fs all_pairs_map)
  show "\<forall>f \<in> set fs. good_name ua (fs_name f) \<and> good_id (fs_id f) \<and>
           good_forward (sp_id ` set (servers c)) f"
    using wf by (auto simp: wf_config_def fs intro: upgrade_cleanup_good)
  show "groups_satisfy (\<lambda>g. good_name ua g \<and> g \<notin> fs_id ` set fs \<union> fs_name ` set fs) fs"
    using wf by (fastforce simp: wf_config_def groups_satisfy_def fs group_set_def)
qed

lemma wf_config_from_parts:
  assumes "unat (revision c) < 2 ^ 63" and "length (servers c) \<le> 128"
    and "case js c of None \<Rightarrow> False | Some n \<Rightarrow> n \<le> 256 * 1024"
    and "schema_version c = SCHEMA_VERSION" and "good_policy (retry (cfg_defaults c))"
    and "\<forall>s \<in> set (servers c). good_name ua (sp_name s) \<and> good_id (sp_id s) \<and>
           validate_connection_options s = Inr ()"
    and "unambiguous sp_id sp_name (servers c)"
    and "length (forwards c) \<le> 512" and "unambiguous fs_id fs_name (forwards c)"
    and "all_coexist (forwards c)"
    and "\<forall>f \<in> set (forwards c). good_name ua (fs_name f) \<and> good_id (fs_id f) \<and>
           good_forward (sp_id ` set (servers c)) f"
    and "groups_satisfy (\<lambda>g. good_name ua g \<and> g \<notin> fs_id ` set (forwards c) \<union> fs_name ` set (forwards c))
           (forwards c)"
  shows "wf_config ua js c"
  using assms unfolding wf_config_def all_coexist_def groups_satisfy_def group_set_def
  by (intro conjI) (simp_all, blast+)

lemma regrouped_good:
  assumes "regrouped fs gs"
    and "\<forall>f \<in> set fs. good_name ua (fs_name f) \<and> good_id (fs_id f) \<and> good_forward ids f"
  shows "\<forall>f \<in> set gs. good_name ua (fs_name f) \<and> good_id (fs_id f) \<and> good_forward ids f"
  using assms unfolding regrouped_def
  by (induction rule: list_all2_induct) (auto simp: same_but_group_fields(1,2) intro: good_forward_same_but_group)

lemma regrouped_unambiguous:
  assumes "regrouped fs gs" and "unambiguous fs_id fs_name fs"
  shows "unambiguous fs_id fs_name gs"
proof -
  have pairs: "map (\<lambda>f. (fs_id f, fs_name f)) gs = map (\<lambda>f. (fs_id f, fs_name f)) fs"
    using regrouped_maps [OF assms(1)] by (simp add: list_eq_iff_nth_eq)
  have ex: "\<exists>f \<in> set fs. fs_id f = fs_id g \<and> fs_name f = fs_name g" if "g \<in> set gs" for g
  proof -
    from that have "(fs_id g, fs_name g) \<in> set (map (\<lambda>f. (fs_id f, fs_name f)) fs)"
      unfolding pairs [symmetric] by auto
    then show ?thesis by auto
  qed
  show ?thesis
    unfolding unambiguous_def
  proof (intro conjI ballI impI)
    show "distinct (map fs_id gs)" and "distinct (map fs_name gs)"
      using regrouped_maps [OF assms(1)] unambiguousD(1,2) [OF assms(2)] by simp_all
  next
    fix x y
    assume "x \<in> set gs" "y \<in> set gs" "fs_name x = fs_id y"
    with ex obtain x' y' where "x' \<in> set fs" "fs_id x' = fs_id x" "fs_name x' = fs_name x"
      and "y' \<in> set fs" "fs_id y' = fs_id y" by metis
    with unambiguousD(3) [OF assms(2), of x' y'] \<open>fs_name x = fs_id y\<close> show "fs_id x = fs_id y"
      by simp
  qed
qed

lemma migrate_cases:
  assumes "migrate ua c = Inr (c', changed)"
  obtains (current) "schema_version c = SCHEMA_VERSION" "c' = c" "\<not> changed"
  | (legacy) gs r where "schema_version c \<noteq> SCHEMA_VERSION" "schema_version c \<le> 3" "changed"
      "checked_add (revision c) 1 = Some r"
      "c' = c\<lparr>forwards := gs, schema_version := SCHEMA_VERSION, revision := r\<rparr>"
      "gs = (if schema_version c < 3
             then infer_legacy_groups ua (map (upgrade_cleanup (schema_version c)) (forwards c))
             else map (upgrade_cleanup (schema_version c)) (forwards c))"
  using assms
  by (auto simp: migrate_def Let_def result_simps split: if_splits)

lemma migrate_regroups:
  assumes "gs = (if v < 3 then infer_legacy_groups ua (map (upgrade_cleanup v) fs)
                 else map (upgrade_cleanup v) fs)"
  shows "regrouped (map (upgrade_cleanup v) fs) gs"
proof (cases "v < 3")
  case True
  with assms show ?thesis by (simp add: regrouped_infer)
next
  case False
  with assms show ?thesis by (simp add: regrouped_nth)
qed

lemma migrate_wf:
  assumes m: "migrate ua c = Inr (c', changed)"
    and wf: "wf_config ua js (c\<lparr>schema_version := SCHEMA_VERSION\<rparr>)"
    and rev: "unat (revision c) + 1 < 2 ^ 63"
    and size: "case js c' of None \<Rightarrow> False | Some n \<Rightarrow> n \<le> 256 * 1024"
  shows "wf_config ua js c'"
  using m
proof (cases rule: migrate_cases)
  case current
  with wf have "c\<lparr>schema_version := SCHEMA_VERSION\<rparr> = c" by (cases c) simp
  with wf current show ?thesis by simp
next
  case (legacy gs r)
  let ?fs = "map (upgrade_cleanup (schema_version c)) (forwards c)"
  let ?Q = "\<lambda>g. good_name ua g \<and> g \<notin> fs_id ` set ?fs \<union> fs_name ` set ?fs"
  note up = upgrade_wf [OF wf refl, of "schema_version c"]
  have re: "regrouped ?fs gs" by (rule migrate_regroups [OF legacy(6)])
  have maps: "map fs_id gs = map fs_id ?fs" "map fs_name gs = map fs_name ?fs"
    by (rule regrouped_maps [OF re])+
  then have keys: "fs_id ` set gs = fs_id ` set ?fs" "fs_name ` set gs = fs_name ` set ?fs"
    by (metis list.set_map)+
  have len: "length gs \<le> 512" using re up(1) by (simp add: regrouped_nth)
  have "all_coexist gs \<and> groups_satisfy ?Q gs"
    using infer_legacy_groups_ok [OF up(3,5)] up(3,5) unfolding legacy(6) by (cases "schema_version c < 3") simp_all
  then have "all_coexist gs" and groups: "groups_satisfy ?Q gs" by simp_all
  moreover have "unat r < 2 ^ 63" using unat_checked_add [OF legacy(4)] rev by simp
  ultimately show ?thesis
    using wf size len regrouped_good [OF re up(4)] regrouped_unambiguous [OF re up(2)]
    unfolding legacy(5)
    by (intro wf_config_from_parts) (simp_all add: wf_config_def keys)
qed

text \<open>What a rule keeps across a migration.\<close>

definition carried_over :: "forward_spec \<Rightarrow> forward_spec \<Rightarrow> bool" where
  "carried_over f g =
     (fs_id g = fs_id f \<and> fs_name g = fs_name f \<and> fs_server_id g = fs_server_id f \<and>
      fs_tunnel g = fs_tunnel f \<and> fs_desired_state g = fs_desired_state f \<and>
      (fs_group f = None \<or> fs_group g = fs_group f))"

lemma carried_over_legacy:
  assumes gs: "gs = (if v < 3 then infer_legacy_groups ua (map (upgrade_cleanup v) fs)
                 else map (upgrade_cleanup v) fs)"
  shows "list_all2 carried_over fs gs"
proof -
  let ?fs = "map (upgrade_cleanup v) fs"
  have re: "regrouped ?fs gs" by (rule migrate_regroups [OF gs])
  have "carried_over (fs ! i) (gs ! i)" if i: "i < length fs" for i
  proof -
    have same: "same_but_group (?fs ! i) (gs ! i)" using re i by (simp add: regrouped_nth)
    have "gs ! i = ?fs ! i" if "fs_group (?fs ! i) \<noteq> None"
      using infer_keeps_groups [of i ?fs ua] that i unfolding gs by simp
    then have "fs_group (fs ! i) = None \<or> fs_group (gs ! i) = fs_group (fs ! i)"
      using i by (cases "fs_group (fs ! i)") simp_all
    then show ?thesis using same_but_group_fields(1-5) [OF same] i by (simp add: carried_over_def)
  qed
  with re show ?thesis by (simp add: list_all2_conv_all_nth regrouped_nth)
qed

lemma migrate_result_frame:
  assumes "migrate ua c = Inr (c', changed)"
  shows "servers c' = servers c \<and> cfg_defaults c' = cfg_defaults c \<and>
    schema_version c' = SCHEMA_VERSION \<and>
    unat (revision c') = unat (revision c) + (if changed then 1 else 0) \<and>
    list_all2 carried_over (forwards c) (forwards c')"
  using assms
proof (cases rule: migrate_cases)
  case current
  then show ?thesis by (simp add: list_all2_refl carried_over_def)
next
  case (legacy gs r)
  then show ?thesis using unat_checked_add [OF legacy(4)] carried_over_legacy [OF legacy(6)] by simp
qed

lemma migrate_current: "schema_version c = SCHEMA_VERSION \<Longrightarrow> migrate ua c = Inr (c, False)"
  by (simp add: migrate_def)

section \<open>Properties\<close>

text \<open>The sample configuration as an older daemon stored it.\<close>

definition sample_legacy :: config where
  "sample_legacy = sample_config\<lparr>schema_version := 2\<rparr>"

text \<open>
  Migrating an older configuration that is valid apart from its schema number
  gives a valid configuration: the inferred groups never create a listener conflict, never
  collide with a rule's name or id, and are themselves valid names.
\<close>

theorem migrate_keeps_valid:
  assumes "migrate ua c = Inr (c', changed)"
    and "wf_config ua js (c\<lparr>schema_version := SCHEMA_VERSION\<rparr>)"
    and "unat (revision c) + 1 < 2 ^ 63"
    and "case js c' of None \<Rightarrow> False | Some n \<Rightarrow> n \<le> 256 * 1024"
  shows "validate ua js c' = Inr ()"
  using migrate_wf [OF assms] by (simp add: validate_iff_wf)

lemma sample_legacy_wf: "wf_config no_ext small_json (sample_legacy\<lparr>schema_version := SCHEMA_VERSION\<rparr>)"
proof -
  have "sample_legacy\<lparr>schema_version := SCHEMA_VERSION\<rparr> = sample_config"
    by (simp add: sample_legacy_def sample_config_def default_config_def)
  then show ?thesis by (simp add: sample_wf)
qed

lemma sample_legacy_migrates:
  "\<exists>c'. migrate no_ext sample_legacy = Inr (c', True) \<and> schema_version c' = SCHEMA_VERSION"
  by (simp add: migrate_def sample_legacy_def sample_config_def default_config_def SCHEMA_VERSION_def
      Let_def checked_add_def)

theorem migrate_keeps_valid_witness:
  "\<exists>c'. migrate no_ext sample_legacy = Inr (c', True) \<and> validate no_ext small_json c' = Inr ()"
proof -
  obtain c' where m: "migrate no_ext sample_legacy = Inr (c', True)" using sample_legacy_migrates by blast
  have "validate no_ext small_json c' = Inr ()"
    by (rule migrate_keeps_valid [OF m sample_legacy_wf])
      (simp_all add: small_json_def sample_legacy_def sample_config_def)
  with m show ?thesis by blast
qed

text \<open>
  A migration touches nothing it should not: servers, defaults, and of every
  rule the id, name, server, tunnel, desired state and an existing group stay, in order; the
  schema number becomes the current one, the revision advances by exactly one when the
  configuration changed, and migrating again changes nothing.
\<close>

theorem migrate_frame:
  assumes "migrate ua c = Inr (c', changed)"
  shows "servers c' = servers c \<and> cfg_defaults c' = cfg_defaults c \<and>
    schema_version c' = SCHEMA_VERSION \<and>
    unat (revision c') = unat (revision c) + (if changed then 1 else 0) \<and>
    list_all2 carried_over (forwards c) (forwards c') \<and> migrate ua c' = Inr (c', False)"
  using migrate_result_frame [OF assms] by (simp add: migrate_current)

theorem migrate_frame_witness:
  "\<exists>c'. migrate no_ext sample_legacy = Inr (c', True) \<and> servers c' = servers sample_legacy \<and>
     unat (revision c') = 8 \<and> migrate no_ext c' = Inr (c', False)"
proof -
  obtain c' where m: "migrate no_ext sample_legacy = Inr (c', True)" using sample_legacy_migrates by blast
  from migrate_frame [OF m] m show ?thesis by (simp add: sample_legacy_def sample_config_def)
qed

end
