(* ===== verification/Wire.thy ===== *)
theory Wire
  imports Samples
begin

text \<open>
  The strict wire form of a forwarding rule, \<open>crates/fwm-core/src/model_forward.rs\<close>: a flat
  record of optional fields that becomes a \<open>forward_spec\<close> or is refused. Defaults depend on
  the direction of the tunnel.
\<close>

section \<open>Decoding\<close>

datatype wire_kind = KLocal | KRemote | KDynamic | KRemoteDynamic | KRelay

record wire_forward =
  wf_id :: string
  wf_name :: string
  wf_group :: "string option"
  wf_server_id :: string
  wf_kind :: wire_kind
  wf_listen :: socket_addr
  wf_target :: "endpoint option"
  wf_target_server_id :: "string option"
  wf_desired_state :: desired_state
  wf_connection_mode :: "connection_mode option"
  wf_remote_cleanup :: "remote_cleanup option"

datatype wire_error =
    TargetServerOnlyForRelay | RelayNeedsTargetServer | NeedsTarget wire_kind | NoTargetAllowed wire_kind
  | VerifiedOnlyForRemote | RelayNeverShared

definition kind_is_relay :: "wire_kind \<Rightarrow> bool" where
  "kind_is_relay k = (k = KRelay)"

definition wire_tunnel :: "wire_forward \<Rightarrow> wire_error + tunnel" where
  "wire_tunnel w = (case wf_kind w of
       KLocal \<Rightarrow> rbind (ok_or (wf_target w) (NeedsTarget KLocal)) (\<lambda>t. Inr (Local (wf_listen w) t))
     | KRemote \<Rightarrow> rbind (ok_or (wf_target w) (NeedsTarget KRemote)) (\<lambda>t. Inr (Remote (wf_listen w) t))
     | KDynamic \<Rightarrow>
         if wf_target w \<noteq> None then Inl (NoTargetAllowed KDynamic) else Inr (Dynamic (wf_listen w))
     | KRemoteDynamic \<Rightarrow>
         if wf_target w \<noteq> None then Inl (NoTargetAllowed KRemoteDynamic)
         else Inr (RemoteDynamic (wf_listen w))
     | KRelay \<Rightarrow> rbind (ok_or (wf_target w) (NeedsTarget KRelay)) (\<lambda>t.
         Inr (Relay (wf_listen w) t (case wf_target_server_id w of None \<Rightarrow> [] | Some s \<Rightarrow> s))))"

definition wire_cleanup :: "wire_forward \<Rightarrow> tunnel \<Rightarrow> remote_cleanup" where
  "wire_cleanup w t =
     (case wf_remote_cleanup w of Some x \<Rightarrow> x | None \<Rightarrow> if is_remote t then Verified else Off)"

definition wire_mode :: "wire_forward \<Rightarrow> tunnel \<Rightarrow> connection_mode" where
  "wire_mode w t =
     (if wire_cleanup w t = Verified \<or> is_relay t then Dedicated
      else (case wf_connection_mode w of Some m \<Rightarrow> m | None \<Rightarrow> Shared))"

definition try_from :: "wire_forward \<Rightarrow> wire_error + forward_spec" where
  "try_from w =
     (if kind_is_relay (wf_kind w) \<noteq> (wf_target_server_id w \<noteq> None)
      then Inl (if wf_target_server_id w \<noteq> None then TargetServerOnlyForRelay else RelayNeedsTargetServer)
      else rbind (wire_tunnel w) (\<lambda>tunnel.
           rbind (rguard (wire_cleanup w tunnel = Verified \<and> \<not> is_remote tunnel) VerifiedOnlyForRemote) (\<lambda>_.
           rbind (rguard (is_relay tunnel \<and> wf_connection_mode w = Some Shared) RelayNeverShared) (\<lambda>_.
           Inr \<lparr>fs_id = wf_id w, fs_name = wf_name w, fs_group = wf_group w,
                fs_server_id = wf_server_id w, fs_tunnel = tunnel,
                fs_desired_state = wf_desired_state w, fs_connection_mode = wire_mode w tunnel,
                fs_remote_cleanup = wire_cleanup w tunnel\<rparr>))))"

section \<open>Encoding\<close>

text \<open>The flattened form that serializing a rule writes.\<close>

fun kind_of :: "tunnel \<Rightarrow> wire_kind" where
  "kind_of (Local l t) = KLocal"
| "kind_of (Remote l t) = KRemote"
| "kind_of (Dynamic l) = KDynamic"
| "kind_of (RemoteDynamic l) = KRemoteDynamic"
| "kind_of (Relay l t s) = KRelay"

definition to_wire :: "forward_spec \<Rightarrow> wire_forward" where
  "to_wire f =
     \<lparr>wf_id = fs_id f, wf_name = fs_name f, wf_group = fs_group f, wf_server_id = fs_server_id f,
      wf_kind = kind_of (fs_tunnel f), wf_listen = listen (fs_tunnel f), wf_target = target (fs_tunnel f),
      wf_target_server_id = target_server_id (fs_tunnel f), wf_desired_state = fs_desired_state f,
      wf_connection_mode = Some (fs_connection_mode f), wf_remote_cleanup = Some (fs_remote_cleanup f)\<rparr>"

section \<open>Coherent rules\<close>

text \<open>
  The modes of a rule fit its tunnel: managed recovery only for remote listeners, and both
  managed recovery and relays on sessions of their own.
\<close>

definition coherent :: "forward_spec \<Rightarrow> bool" where
  "coherent f =
     ((fs_remote_cleanup f = Off \<or> is_remote (fs_tunnel f) \<and> fs_connection_mode f = Dedicated) \<and>
      (is_relay (fs_tunnel f) = False \<or> fs_connection_mode f = Dedicated))"

lemma wire_tunnel_fields:
  "wire_tunnel w = Inr t \<Longrightarrow>
     listen t = wf_listen w \<and> target t = wf_target w \<and> kind_of t = wf_kind w \<and>
     (is_relay t \<longleftrightarrow> wf_kind w = KRelay)"
  by (auto simp: wire_tunnel_def result_simps split: wire_kind.splits if_splits option.splits)

lemma wire_tunnel_target_server:
  "wire_tunnel w = Inr t \<Longrightarrow> kind_is_relay (wf_kind w) = (wf_target_server_id w \<noteq> None) \<Longrightarrow>
     target_server_id t = wf_target_server_id w"
  by (auto simp: wire_tunnel_def kind_is_relay_def result_simps split: wire_kind.splits if_splits option.splits)

lemma not_verified [simp]: "x \<noteq> Verified \<longleftrightarrow> x = Off"
  by (cases x) simp_all

lemma try_from_Inr_iff:
  "try_from w = Inr f \<longleftrightarrow>
     (kind_is_relay (wf_kind w) \<longleftrightarrow> wf_target_server_id w \<noteq> None) \<and>
     (\<exists>t. wire_tunnel w = Inr t \<and> (wire_cleanup w t = Off \<or> is_remote t) \<and>
        \<not> (is_relay t \<and> wf_connection_mode w = Some Shared) \<and>
        \<lparr>fs_id = wf_id w, fs_name = wf_name w, fs_group = wf_group w,
             fs_server_id = wf_server_id w, fs_tunnel = t, fs_desired_state = wf_desired_state w,
             fs_connection_mode = wire_mode w t, fs_remote_cleanup = wire_cleanup w t\<rparr> = f)"
  unfolding try_from_def by (simp add: result_simps)

lemma try_from_coherent: "try_from w = Inr f \<Longrightarrow> coherent f"
  unfolding try_from_Inr_iff coherent_def
  by (elim conjE exE, hypsubst) (auto simp: wire_mode_def)

lemma wire_tunnel_to_wire [simp]: "wire_tunnel (to_wire f) = Inr (fs_tunnel f)"
  by (cases "fs_tunnel f") (simp_all add: to_wire_def wire_tunnel_def)

lemma to_wire_relay [simp]:
  "kind_is_relay (wf_kind (to_wire f)) \<longleftrightarrow> wf_target_server_id (to_wire f) \<noteq> None"
  by (cases "fs_tunnel f") (simp_all add: to_wire_def kind_is_relay_def)

lemma to_wire_fields [simp]:
  "wire_cleanup (to_wire f) t = fs_remote_cleanup f"
  "wf_connection_mode (to_wire f) = Some (fs_connection_mode f)"
  "wf_id (to_wire f) = fs_id f" "wf_name (to_wire f) = fs_name f" "wf_group (to_wire f) = fs_group f"
  "wf_server_id (to_wire f) = fs_server_id f" "wf_desired_state (to_wire f) = fs_desired_state f"
  by (simp_all add: to_wire_def wire_cleanup_def)

lemma try_from_to_wire: "try_from (to_wire f) = Inr f \<longleftrightarrow> coherent f"
  unfolding try_from_Inr_iff
  by (cases f; cases "fs_remote_cleanup f"; cases "fs_connection_mode f")
    (simp_all add: coherent_def wire_mode_def)

section \<open>Properties\<close>


definition sample_wire :: wire_forward where
  "sample_wire = \<lparr>wf_id = ''rule'', wf_name = ''relay-rule'', wf_group = None, wf_server_id = ''source'',
     wf_kind = KRelay, wf_listen = loopback 8080, wf_target = Some sample_target,
     wf_target_server_id = Some ''target'', wf_desired_state = Running, wf_connection_mode = None,
     wf_remote_cleanup = Some Off\<rparr>"

lemma sample_wire_decodes:
  "try_from sample_wire = Inr \<lparr>fs_id = ''rule'', fs_name = ''relay-rule'', fs_group = None,
     fs_server_id = ''source'', fs_tunnel = Relay (loopback 8080) sample_target ''target'',
     fs_desired_state = Running, fs_connection_mode = Dedicated, fs_remote_cleanup = Off\<rparr>"
  by (simp add: try_from_def sample_wire_def kind_is_relay_def wire_tunnel_def wire_cleanup_def wire_mode_def)


end
