(* ===== verification/Retry.thy ===== *)
theory Retry
  imports Fwm_Prelude
begin

text \<open>
  Reconnect delays, \<open>crates/fwm-core/src/engine/retry.rs\<close>, in milliseconds. \<open>rng lo hi\<close> is
  the random number generator's inclusive range, a parameter.
\<close>

section \<open>The delay\<close>

definition checked_shl :: "u64 \<Rightarrow> u32 \<Rightarrow> u64 option" where
  "checked_shl x n = (if unat n < 64 then Some (push_bit (unat n) x) else None)"

definition retry_ceiling :: "u32 \<Rightarrow> u64 \<Rightarrow> u64" where
  "retry_ceiling failures max_seconds =
     min (saturating_mul (case checked_shl 1 (min (failures - 2) 63) of None \<Rightarrow> - 1 | Some x \<Rightarrow> x) 1000)
         (saturating_mul max_seconds 1000)"

definition delay :: "(u64 \<Rightarrow> u64 \<Rightarrow> u64) \<Rightarrow> u32 \<Rightarrow> u64 \<Rightarrow> u64" where
  "delay rng failures max_seconds =
     (if failures \<le> 1 then 0
      else rng (retry_ceiling failures max_seconds div 2) (retry_ceiling failures max_seconds))"

section \<open>The window as a natural number\<close>

definition window :: "nat \<Rightarrow> nat \<Rightarrow> nat" where
  "window failures max_seconds =
     min (min (2 ^ min (failures - 2) 63) max_seconds * 1000) (2 ^ 64 - 1)"

lemma unat_min: "unat (min a b) = min (unat a) (unat b)"
  by (simp add: min_def word_le_nat_alt)

lemma unat_shl_one:
  assumes "n < 64"
  shows "unat (push_bit n (1 :: u64)) = 2 ^ n"
proof -
  have "(2 :: nat) ^ n < 2 ^ 64" using assms by (intro power_strict_increasing) simp_all
  then show ?thesis by (simp only: unsigned_push_bit_eq) (simp add: push_bit_eq_mult take_bit_eq_mod)
qed

lemma min_scaled: "min (min (a * k) m) (min (b * k) m) = min (min a b * k) (m :: nat)"
proof -
  have "min a b * k = min (a * k) (b * k)" by (cases "a \<le> b") (simp_all add: min_def)
  then show ?thesis by (simp add: min.assoc min.left_commute)
qed

lemma retry_ceiling_window:
  assumes "1 < failures"
  shows "unat (retry_ceiling failures max_seconds) = window (unat failures) (unat max_seconds)"
proof -
  have two: "unat (failures - 2) = unat failures - 2"
    using assms unat_sub [of 2 failures] by (simp add: word_le_nat_alt word_less_nat_alt)
  let ?n = "min (unat failures - 2) 63"
  have n: "unat (min (failures - 2) 63) = ?n" by (simp add: unat_min two)
  then have "checked_shl 1 (min (failures - 2) 63) = Some (push_bit ?n 1)"
    by (simp add: checked_shl_def)
  moreover have "unat (push_bit ?n (1 :: u64)) = 2 ^ ?n" by (rule unat_shl_one) simp
  ultimately have "unat (retry_ceiling failures max_seconds) =
      min (min (2 ^ ?n * 1000) (2 ^ 64 - 1)) (min (unat max_seconds * 1000) (2 ^ 64 - 1))"
    by (simp add: retry_ceiling_def unat_min unat_saturating_mul)
  also have "\<dots> = window (unat failures) (unat max_seconds)"
    unfolding window_def by (rule min_scaled)
  finally show ?thesis .
qed

lemma window_mono: "m \<le> n \<Longrightarrow> window m s \<le> window n s"
  unfolding window_def by (intro min.mono mult_le_mono1 power_increasing) auto

lemma window_cap: "window n s \<le> s * 1000"
  by (simp add: window_def min_le_iff_disj)

section \<open>Properties\<close>

text \<open>
  The first attempt is immediate; every later one waits between half a window
  and the whole window of \<open>2^(failures - 2)\<close> seconds, cut off at the configured maximum and
  at the width of the counter, so no failure count overflows or exceeds the maximum.
\<close>

theorem delay_bounds:
  assumes "\<And>lo hi. lo \<le> hi \<Longrightarrow> lo \<le> rng lo hi \<and> rng lo hi \<le> hi"
  shows "if failures \<le> 1 then delay rng failures max_seconds = 0
    else window (unat failures) (unat max_seconds) div 2 \<le> unat (delay rng failures max_seconds) \<and>
      unat (delay rng failures max_seconds) \<le> window (unat failures) (unat max_seconds) \<and>
      unat (delay rng failures max_seconds) \<le> unat max_seconds * 1000"
proof (cases "failures \<le> 1")
  case True
  then show ?thesis by (simp add: delay_def)
next
  case False
  let ?c = "retry_ceiling failures max_seconds"
  have "?c div 2 \<le> ?c" by (simp add: word_le_nat_alt unat_div)
  then have "?c div 2 \<le> delay rng failures max_seconds" "delay rng failures max_seconds \<le> ?c"
    using assms False by (simp_all add: delay_def)
  then have "unat ?c div 2 \<le> unat (delay rng failures max_seconds)"
    "unat (delay rng failures max_seconds) \<le> unat ?c"
    by (simp_all add: word_le_nat_alt unat_div)
  moreover have "unat ?c = window (unat failures) (unat max_seconds)"
    using False by (intro retry_ceiling_window) simp
  ultimately show ?thesis using False window_cap [of "unat failures" "unat max_seconds"] by simp
qed

theorem delay_bounds_witness:
  "2000 \<le> unat (delay (\<lambda>lo hi. hi) 4 30) \<and> unat (delay (\<lambda>lo hi. hi) 4 30) \<le> 4000"
  using delay_bounds [of "\<lambda>lo hi. hi" 4 30] by (simp add: window_def word_le_nat_alt)

end
