(* ===== verification/Ports.thy ===== *)
theory Ports
  imports Text
begin

text \<open>
  Port lists of the command line, \<open>crates/fwm/src/cli/ports.rs\<close>: comma-separated ports and
  inclusive ranges. The \<open>BTreeSet\<close> is its ascending list.
\<close>

section \<open>Parsing\<close>

datatype port_error = ExpectedPort | PortRange | RangeDescending | TooManyPorts

definition MAX_PORTS :: nat where
  "MAX_PORTS = 512"

definition single :: "string \<Rightarrow> port_error + u16" where
  "single value =
     (let v = trim value in
      if v = [] \<or> \<not> list_all is_ascii_digit v then Inl ExpectedPort
      else (case parse_u16 v of
          Some p \<Rightarrow> if p \<noteq> 0 then Inr p else Inl PortRange
        | None \<Rightarrow> Inl PortRange))"

definition port_item :: "string \<Rightarrow> port_error + (u16 \<times> u16)" where
  "port_item raw =
     (let item = trim raw in
      rbind (case split_once CHR ''-'' item of
               Some (lo, hi) \<Rightarrow> rbind (single lo) (\<lambda>a. rbind (single hi) (\<lambda>b. Inr (a, b)))
             | None \<Rightarrow> rbind (single item) (\<lambda>p. Inr (p, p))) (\<lambda>(lo, hi).
      rbind (rguard (hi < lo) RangeDescending) (\<lambda>_. Inr (lo, hi))))"

definition ports_between :: "u16 \<Rightarrow> u16 \<Rightarrow> u16 list" where
  "ports_between lo hi = map of_nat [unat lo..<Suc (unat hi)]"

fun insert_ports :: "u16 list \<Rightarrow> u16 list \<Rightarrow> port_error + u16 list" where
  "insert_ports ports [] = Inr ports"
| "insert_ports ports (p # ps) =
     (if MAX_PORTS < length (insort_insert p ports) then Inl TooManyPorts
      else insert_ports (insort_insert p ports) ps)"

fun expand_items :: "u16 list \<Rightarrow> string list \<Rightarrow> port_error + u16 list" where
  "expand_items ports [] = Inr ports"
| "expand_items ports (item # items) =
     rbind (port_item item) (\<lambda>(lo, hi).
     rbind (insert_ports ports (ports_between lo hi)) (\<lambda>ports'. expand_items ports' items))"

definition expand :: "string \<Rightarrow> port_error + u16 list" where
  "expand value = expand_items [] (split_on CHR '','' value)"

section \<open>The set of ports a text denotes\<close>

lemma single_Inr:
  "single v = Inr p \<Longrightarrow> p \<noteq> 0"
  by (auto simp: single_def Let_def split: if_splits option.splits)

lemma port_item_Inr: "port_item s = Inr (a, b) \<Longrightarrow> 0 < a \<and> a \<le> b"
  by (auto simp: port_item_def Let_def result_simps not_less word_neq_0_conv
      split: option.splits prod.splits dest: single_Inr)

lemma set_ports_between: "set (ports_between a b) = {a..b}"
proof (intro set_eqI iffI)
  fix p
  assume "p \<in> set (ports_between a b)"
  then obtain n where n: "unat a \<le> n" "n \<le> unat b" "p = of_nat n"
    by (auto simp: ports_between_def)
  moreover have "unat b < 65536" using unsigned_less [of b] by simp
  ultimately have "unat p = n" by (simp add: unat_of_nat)
  with n(1,2) show "p \<in> {a..b}" by (simp add: word_le_nat_alt)
next
  fix p
  assume "p \<in> {a..b}"
  then have "unat p \<in> {unat a..<Suc (unat b)}" by (simp add: word_le_nat_alt less_Suc_eq_le)
  moreover have "p = of_nat (unat p)" by simp
  ultimately show "p \<in> set (ports_between a b)"
    unfolding ports_between_def set_map set_upt by blast
qed

lemma length_sorted_distinct: "sorted xs \<Longrightarrow> distinct xs \<Longrightarrow> xs = sorted_list_of_set (set xs)"
  by (simp add: sorted_list_of_set_sort_remdups distinct_remdups_id sort_key_id_if_sorted)

lemma length_sorted_list_of_set: "length (sorted_list_of_set A) = card A"
  by (cases "finite A") simp_all

lemma insort_insert_set:
  fixes ports :: "u16 list"
  assumes "ports = sorted_list_of_set A" and "finite A"
  shows "insort_insert p ports = sorted_list_of_set (insert p A)"
proof -
  have "sorted (insort_insert p ports)" "distinct (insort_insert p ports)"
    "set (insort_insert p ports) = insert p A"
    using assms by (simp_all add: sorted_insort_insert distinct_insort_insert set_insort_insert)
  then show ?thesis using length_sorted_distinct by metis
qed

lemma insert_ports_iff:
  assumes "card A \<le> MAX_PORTS" and "finite A"
  shows "insert_ports (sorted_list_of_set A) ps = Inr r \<longleftrightarrow>
    card (A \<union> set ps) \<le> MAX_PORTS \<and> r = sorted_list_of_set (A \<union> set ps)"
  using assms
proof (induction ps arbitrary: A)
  case Nil
  then show ?case by auto
next
  case (Cons p ps)
  have step: "insort_insert p (sorted_list_of_set A) = sorted_list_of_set (insert p A)"
    using Cons.prems by (intro insort_insert_set) simp_all
  have len: "length (insort_insert p (sorted_list_of_set A)) = card (insert p A)"
    unfolding step by (rule length_sorted_list_of_set)
  have un: "A \<union> set (p # ps) = insert p A \<union> set ps" by simp
  show ?case
  proof (cases "MAX_PORTS < card (insert p A)")
    case True
    moreover have "card (insert p A) \<le> card (A \<union> set (p # ps))"
      using Cons.prems by (intro card_mono) auto
    moreover from True have "insert_ports (sorted_list_of_set A) (p # ps) = Inl TooManyPorts"
      by (simp only: insert_ports.simps len if_True)
    ultimately show ?thesis by (simp del: insert_ports.simps)
  next
    case False
    then have ok: "card (insert p A) \<le> MAX_PORTS" by simp
    from False have "insert_ports (sorted_list_of_set A) (p # ps)
        = insert_ports (sorted_list_of_set (insert p A)) ps"
      by (simp only: insert_ports.simps len if_False) (simp only: step)
    with Cons.IH [OF ok] Cons.prems un show ?thesis by (simp only:) simp
  qed
qed

definition interval_union :: "(u16 \<times> u16) list \<Rightarrow> u16 set" where
  "interval_union ivs = (\<Union>(a, b) \<in> set ivs. {a..b})"

lemma interval_union_simps [simp]:
  "interval_union [] = {}" "interval_union ((a, b) # ivs) = {a..b} \<union> interval_union ivs"
  by (simp_all add: interval_union_def)

lemma expand_items_iff:
  assumes "card A \<le> MAX_PORTS" and "finite A"
  shows "expand_items (sorted_list_of_set A) items = Inr r \<longleftrightarrow>
    (\<exists>ivs. collect_results port_item items = Inr ivs \<and> card (A \<union> interval_union ivs) \<le> MAX_PORTS \<and>
       r = sorted_list_of_set (A \<union> interval_union ivs))"
  using assms
proof (induction items arbitrary: A)
  case Nil
  then show ?case by auto
next
  case (Cons item items)
  show ?case
  proof (cases "port_item item")
    case (Inl e)
    then show ?thesis by simp
  next
    case (Inr iv)
    obtain a b where iv: "iv = (a, b)" by (cases iv)
    let ?B = "A \<union> {a..b}"
    show ?thesis
    proof (cases "card ?B \<le> MAX_PORTS")
      case True
      then have "insert_ports (sorted_list_of_set A) (ports_between a b) = Inr (sorted_list_of_set ?B)"
        using Cons.prems by (simp add: insert_ports_iff set_ports_between)
      then have "expand_items (sorted_list_of_set A) (item # items) = expand_items (sorted_list_of_set ?B) items"
        using Inr iv by simp
      with Cons.IH [OF True] Cons.prems Inr iv show ?thesis
        by (simp add: result_simps Un_assoc)
          (metis Un_assoc interval_union_simps(2))
    next
      case False
      have "\<not> card (A \<union> ({a..b} \<union> interval_union ivs)) \<le> MAX_PORTS" for ivs
      proof -
        have "card ?B \<le> card (A \<union> ({a..b} \<union> interval_union ivs))"
          by (intro card_mono) auto
        with False show ?thesis by simp
      qed
      moreover have "\<exists>e. insert_ports (sorted_list_of_set A) (ports_between a b) = Inl e"
        using False Cons.prems insert_ports_iff [of A "ports_between a b"]
        by (cases "insert_ports (sorted_list_of_set A) (ports_between a b)") (auto simp: set_ports_between)
      ultimately show ?thesis using Inr iv by (auto simp: result_simps)
    qed
  qed
qed

section \<open>Properties\<close>

text \<open>
  A port list expands to the ascending, duplicate-free list of the ports its
  items denote, and it does so exactly when every item parses and at most 512 distinct ports
  are denoted: repeated mentions never count against the bound.
\<close>

theorem expand_exact:
  "expand v = Inr ps \<longleftrightarrow>
     (\<exists>ivs. collect_results port_item (split_on CHR '','' v) = Inr ivs \<and>
        card (interval_union ivs) \<le> MAX_PORTS \<and> ps = sorted_list_of_set (interval_union ivs))"
  using expand_items_iff [of "{}" "split_on CHR '','' v" ps] by (simp add: expand_def)

end
