(* ===== verification/RandomNames.thy ===== *)
theory RandomNames
  imports Samples "HOL-Library.Multiset"
begin

text \<open>
  Automatic rule names, \<open>crates/fwm/src/cli/random_names.rs\<close>. The vocabulary file is the
  parameter \<open>words\<close>, the shuffle of the random number generator the parameter \<open>shuffle\<close>,
  of which only that it permutes its argument is used.
\<close>

section \<open>Drawing names\<close>

definition used_names :: "config \<Rightarrow> string option \<Rightarrow> string set" where
  "used_names c reserved =
     set (concat (map (\<lambda>f. [fs_id f, fs_name f] @ option_list (fs_group f)) (forwards c))
          @ option_list reserved)"

definition random_names ::
    "string list \<Rightarrow> (string list \<Rightarrow> string list) \<Rightarrow> config \<Rightarrow> string option \<Rightarrow> string list" where
  "random_names words shuffle c reserved =
     shuffle (filter (\<lambda>w. w \<notin> used_names c reserved) words)"

datatype names_error = NoNamesLeft

definition take_name :: "string list \<Rightarrow> names_error + (string \<times> string list)" where
  "take_name available =
     (if available = [] then Inl NoNamesLeft else Inr (last available, butlast available))"

text \<open>Taking \<open>n\<close> names one after the other.\<close>

fun take_names :: "nat \<Rightarrow> string list \<Rightarrow> names_error + (string list \<times> string list)" where
  "take_names 0 available = Inr ([], available)"
| "take_names (Suc n) available =
     rbind (take_name available) (\<lambda>(name, rest).
     rbind (take_names n rest) (\<lambda>(names, left). Inr (name # names, left)))"

section \<open>Names are taken once\<close>

lemma take_names_Inr:
  "take_names n available = Inr (names, left) \<longleftrightarrow>
     n \<le> length available \<and> names = take n (rev available) \<and> left = take (length available - n) available"
proof (induction n arbitrary: available names left)
  case 0
  then show ?case by auto
next
  case (Suc n)
  show ?case
  proof (cases available rule: rev_cases)
    case Nil
    then show ?thesis by (simp add: take_name_def)
  next
    case (snoc xs x)
    then show ?thesis
      by (cases names) (auto simp: take_name_def result_simps Suc.IH)
  qed
qed

lemma used_names_iff:
  "n \<in> used_names c reserved \<longleftrightarrow>
     (\<exists>f \<in> set (forwards c). n = fs_id f \<or> n = fs_name f \<or> n \<in> set_option (fs_group f)) \<or>
     n \<in> set_option reserved"
  by (simp add: used_names_def)

section \<open>Properties\<close>

text \<open>
  Automatic names come from the vocabulary, are pairwise distinct, and never
  equal a rule's id, name or group or the reserved group; taking names succeeds exactly as
  long as unused words remain.
\<close>

theorem random_names_fresh:
  assumes "distinct words" and "\<And>xs. mset (shuffle xs) = mset xs"
  shows "case take_names n (random_names words shuffle c reserved) of
      Inr (names, left) \<Rightarrow> length names = n \<and> distinct names \<and> set names \<subseteq> set words \<and>
        set names \<inter> used_names c reserved = {}
    | Inl _ \<Rightarrow> card (set words - used_names c reserved) < n"
proof -
  let ?free = "filter (\<lambda>w. w \<notin> used_names c reserved) words"
  let ?avail = "random_names words shuffle c reserved"
  have m: "mset ?avail = mset ?free" using assms(2) by (simp add: random_names_def)
  have set_eq: "set ?avail = set words - used_names c reserved"
    using mset_eq_setD [OF m] by auto
  have d: "distinct ?avail" using mset_eq_imp_distinct_iff [OF m] assms(1) by simp
  show ?thesis
  proof (cases "take_names n ?avail")
    case (Inr r)
    then obtain names left where r: "take_names n ?avail = Inr (names, left)" by (cases r) auto
    then have n: "n \<le> length ?avail" and names: "names = take n (rev ?avail)"
      by (simp_all add: take_names_Inr)
    have "set names \<subseteq> set ?avail" using set_take_subset [of n "rev ?avail"] by (simp add: names)
    with r n d set_eq show ?thesis by (auto simp: names distinct_take)
  next
    case (Inl e)
    have "\<not> n \<le> length ?avail"
    proof
      assume "n \<le> length ?avail"
      then have "\<exists>r. take_names n ?avail = Inr r" using take_names_Inr [of n ?avail] by auto
      with Inl show False by simp
    qed
    moreover have "length ?avail = card (set words - used_names c reserved)"
      using distinct_card [OF d] set_eq by simp
    ultimately show ?thesis using Inl by simp
  qed
qed

theorem random_names_fresh_witness:
  "take_names 2 (random_names [''back'', ''oak'', ''infra'', ''elm''] rev sample_config (Some ''ash''))
     = Inr ([''oak'', ''elm''], []) \<and> distinct [''oak'', ''elm''] \<and>
   set [''oak'', ''elm''] \<inter> used_names sample_config (Some ''ash'') = {}"
proof -
  let ?words = "[''back'', ''oak'', ''infra'', ''elm'']"
  have r: "take_names 2 (random_names ?words rev sample_config (Some ''ash'')) = Inr ([''oak'', ''elm''], [])"
    by (simp add: take_names_Inr random_names_def used_names_iff sample_defs)
  have d: "distinct ?words" by simp
  show ?thesis
    using random_names_fresh [OF d, where shuffle = rev and n = 2 and c = sample_config and reserved = "Some ''ash''"] r by simp
qed

end
