(* ===== verification/Bytes.thy ===== *)
theory Bytes
  imports Net
begin

text \<open>
  Byte streams: bytes as \<open>u8\<close>, big-endian integers, the UTF-8 check of
  \<open>String::from_utf8\<close>, and reading exactly so many bytes from the rest of a stream.
\<close>

section \<open>Bytes and text\<close>

definition text_of :: "u8 list \<Rightarrow> string" where
  "text_of bs = map (\<lambda>b. char_of (unat b)) bs"

definition bytes_of :: "string \<Rightarrow> u8 list" where
  "bytes_of s = map (\<lambda>c. of_nat (byte c)) s"

lemma byte_less: "byte c < 256"
proof -
  have "byte c mod 256 < 256" by simp
  then show ?thesis by (simp add: byte_def)
qed

lemma text_of_bytes_of [simp]: "text_of (bytes_of s) = s"
  proof -
  have "char_of (unat (of_nat (byte c) :: u8)) = c" for c
    using byte_less [of c] by (simp add: unat_of_nat byte_def)
  then show ?thesis by (simp add: text_of_def bytes_of_def comp_def)
qed

definition continuation :: "u8 \<Rightarrow> bool" where
  "continuation b = (128 \<le> b \<and> b \<le> 191)"

text \<open>The well-formed sequences: no overlong forms, no surrogates, nothing above U+10FFFF.\<close>

fun utf8_valid :: "u8 list \<Rightarrow> bool" where
  "utf8_valid [] = True"
| "utf8_valid (a # bs) =
     (if a < 128 then utf8_valid bs
      else if 194 \<le> a \<and> a \<le> 223 then
        (case bs of b # r \<Rightarrow> continuation b \<and> utf8_valid r | _ \<Rightarrow> False)
      else if 224 \<le> a \<and> a \<le> 239 then
        (case bs of b # c # r \<Rightarrow>
             (if a = 224 then 160 \<le> b \<and> b \<le> 191 else if a = 237 then 128 \<le> b \<and> b \<le> 159
              else continuation b) \<and> continuation c \<and> utf8_valid r
         | _ \<Rightarrow> False)
      else if 240 \<le> a \<and> a \<le> 244 then
        (case bs of b # c # d # r \<Rightarrow>
             (if a = 240 then 144 \<le> b \<and> b \<le> 191 else if a = 244 then 128 \<le> b \<and> b \<le> 143
              else continuation b) \<and> continuation c \<and> continuation d \<and> utf8_valid r
         | _ \<Rightarrow> False)
      else False)"

definition from_utf8 :: "u8 list \<Rightarrow> string option" where
  "from_utf8 bs = (if utf8_valid bs then Some (text_of bs) else None)"

lemma utf8_valid_ascii: "\<forall>b \<in> set bs. b < 128 \<Longrightarrow> utf8_valid bs"
  by (induction bs) auto

section \<open>Big-endian integers\<close>

definition be_u32 :: "nat \<Rightarrow> u8 list" where
  "be_u32 n = [of_nat (n div 16777216), of_nat (n div 65536), of_nat (n div 256), of_nat n]"

definition nat_of_be :: "u8 list \<Rightarrow> nat" where
  "nat_of_be bs = foldl (\<lambda>acc b. acc * 256 + unat b) 0 bs"

lemma unat_of_nat_u8: "unat (of_nat n :: u8) = n mod 256"
  by (simp add: unat_of_nat)

lemma length_be_u32 [simp]: "length (be_u32 n) = 4"
  by (simp add: be_u32_def)

lemma nat_of_be_u32:
  assumes "n < 2 ^ 32"
  shows "nat_of_be (be_u32 n) = n"
proof -
  have "nat_of_be (be_u32 n) =
      ((n div 16777216 mod 256 * 256 + n div 65536 mod 256) * 256 + n div 256 mod 256) * 256 + n mod 256"
    by (simp only: nat_of_be_def be_u32_def foldl.simps unat_of_nat_u8 mult_0 add_0)
  also have "n div 16777216 mod 256 = n div 16777216" using assms by simp
  also have "(n div 16777216 * 256 + n div 65536 mod 256) = n div 65536"
    using div_mult_mod_eq [of "n div 65536" 256] by (simp add: div_mult2_eq [symmetric])
  also have "(n div 65536 * 256 + n div 256 mod 256) = n div 256"
    using div_mult_mod_eq [of "n div 256" 256] by (simp add: div_mult2_eq [symmetric])
  also have "n div 256 * 256 + n mod 256 = n" by simp
  finally show ?thesis .
qed

section \<open>Reading\<close>

definition read_exact :: "nat \<Rightarrow> u8 list \<Rightarrow> (u8 list \<times> u8 list) option" where
  "read_exact n s = (if n \<le> length s then Some (take n s, drop n s) else None)"

lemma read_exact_append [simp]: "length a = n \<Longrightarrow> read_exact n (a @ b) = Some (a, b)"
  by (simp add: read_exact_def)

lemma read_exact_Some: "read_exact n s = Some (a, b) \<longleftrightarrow> length a = n \<and> s = a @ b"
proof
  assume "read_exact n s = Some (a, b)"
  then show "length a = n \<and> s = a @ b" by (auto simp: read_exact_def split: if_splits)
qed (simp add: read_exact_def)

end
