(* ===== verification/Socks.thy ===== *)
theory Socks
  imports Bytes Model
begin

text \<open>
  The SOCKS5 handshake of a dynamic forward, \<open>crates/fwm-core/src/engine/socks.rs\<close>. A
  connection is what the client will still send, what was written to it, and whether it
  still accepts writes; a handler is a function from connections to a result and the
  connection afterwards.
\<close>

section \<open>Reading and writing a connection\<close>

record conn =
  incoming :: "u8 list"
  sent :: "u8 list"
  accepts :: bool

datatype socks_error =
    UnexpectedEof | BrokenPipe | OnlySocks5 | NeedsNoAuth | InvalidRequest | OnlyConnect
  | EmptyHostname | HostnameNotUtf8 | UnsupportedAddress | InvalidDestination

type_synonym 'a io = "conn \<Rightarrow> (socks_error + 'a) \<times> conn"

definition io_return :: "'a \<Rightarrow> 'a io" where
  "io_return a s = (Inr a, s)"

definition io_fail :: "socks_error \<Rightarrow> 'a io" where
  "io_fail e s = (Inl e, s)"

definition io_bind :: "'a io \<Rightarrow> ('a \<Rightarrow> 'b io) \<Rightarrow> 'b io" where
  "io_bind m f s = (case m s of (Inl e, t) \<Rightarrow> (Inl e, t) | (Inr a, t) \<Rightarrow> f a t)"

definition read_n :: "nat \<Rightarrow> u8 list io" where
  "read_n n s = (case read_exact n (incoming s) of
       None \<Rightarrow> (Inl UnexpectedEof, s\<lparr>incoming := []\<rparr>)
     | Some (a, b) \<Rightarrow> (Inr a, s\<lparr>incoming := b\<rparr>))"

definition write_all :: "u8 list \<Rightarrow> unit io" where
  "write_all bs s = (if accepts s then (Inr (), s\<lparr>sent := sent s @ bs\<rparr>) else (Inl BrokenPipe, s))"

definition reply_bytes :: "u8 \<Rightarrow> u8 list" where
  "reply_bytes status = [5, status, 0, 1, 0, 0, 0, 0, 0, 0]"

definition reply :: "u8 \<Rightarrow> unit io" where
  "reply status = write_all (reply_bytes status)"

definition refuse :: "u8 \<Rightarrow> socks_error \<Rightarrow> 'a io" where
  "refuse status e = io_bind (reply status) (\<lambda>_. io_fail e)"

section \<open>The handshake\<close>

definition read_host :: "u8 \<Rightarrow> string io" where
  "read_host address_type =
     (if address_type = 1 then
        io_bind (read_n 4) (\<lambda>a. case ipv4_of_octets a of
            Some ip \<Rightarrow> io_return (show_ipv4 ip) | None \<Rightarrow> io_fail UnexpectedEof)
      else if address_type = 3 then
        io_bind (read_n 1) (\<lambda>count.
          if hd count = 0 then refuse 8 EmptyHostname
          else io_bind (read_n (unat (hd count))) (\<lambda>a. case from_utf8 a of
            Some host \<Rightarrow> io_return host | None \<Rightarrow> refuse 8 HostnameNotUtf8))
      else if address_type = 4 then
        io_bind (read_n 16) (\<lambda>a. case ipv6_of_octets a of
            Some ip \<Rightarrow> io_return (show_ipv6 ip) | None \<Rightarrow> io_fail UnexpectedEof)
      else refuse 8 UnsupportedAddress)"

definition read_destination :: "endpoint io" where
  "read_destination =
     io_bind (read_n 4) (\<lambda>header.
       if header ! 0 \<noteq> 5 \<or> header ! 2 \<noteq> 0 then refuse 1 InvalidRequest
       else if header ! 1 \<noteq> 1 then refuse 7 OnlyConnect
       else io_bind (read_host (header ! 3)) (\<lambda>host.
         io_bind (read_n 2) (\<lambda>p.
           let port = segment_of (p ! 0) (p ! 1) in
           if port = 0 \<or> CHR 0x00 \<in> set host then refuse 1 InvalidDestination
           else io_return \<lparr>ep_host = host, ep_port = port\<rparr>)))"

definition handshake :: "endpoint io" where
  "handshake =
     io_bind (read_n 1) (\<lambda>version.
       if hd version \<noteq> 5 then io_fail OnlySocks5
       else io_bind (read_n 1) (\<lambda>count. io_bind (read_n (unat (hd count))) (\<lambda>methods.
         if 0 \<notin> set methods then io_bind (write_all [5, 255]) (\<lambda>_. io_fail NeedsNoAuth)
         else io_bind (write_all [5, 0]) (\<lambda>_. read_destination))))"

section \<open>What a client may expect\<close>

text \<open>The bytes a client has received when the handshake ends with an error.\<close>

definition error_output :: "socks_error \<Rightarrow> u8 list set" where
  "error_output e = (case e of
       UnexpectedEof \<Rightarrow> {[], [5, 0]}
     | BrokenPipe \<Rightarrow> {}
     | OnlySocks5 \<Rightarrow> {[]}
     | NeedsNoAuth \<Rightarrow> {[5, 255]}
     | InvalidRequest \<Rightarrow> {[5, 0] @ reply_bytes 1}
     | OnlyConnect \<Rightarrow> {[5, 0] @ reply_bytes 7}
     | EmptyHostname \<Rightarrow> {[5, 0] @ reply_bytes 8}
     | HostnameNotUtf8 \<Rightarrow> {[5, 0] @ reply_bytes 8}
     | UnsupportedAddress \<Rightarrow> {[5, 0] @ reply_bytes 8}
     | InvalidDestination \<Rightarrow> {[5, 0] @ reply_bytes 1})"

text \<open>
  What a handler does on a connection that accepts writes and has written \<open>w\<close> so far: a
  result satisfying \<open>P\<close> with \<open>w'\<close> written, or an error whose output is one of \<open>E\<close>.
\<close>

definition outcome ::
    "u8 list \<Rightarrow> u8 list \<Rightarrow> ('a \<Rightarrow> bool) \<Rightarrow> (socks_error \<Rightarrow> u8 list set) \<Rightarrow> 'a io \<Rightarrow> bool" where
  "outcome w w' P E m =
     (\<forall>s. accepts s \<longrightarrow> sent s = w \<longrightarrow>
        (case m s of
           (Inr a, t) \<Rightarrow> P a \<and> accepts t \<and> sent t = w'
         | (Inl e, t) \<Rightarrow> sent t \<in> E e))"

lemma outcomeI:
  assumes "\<And>s a t. accepts s \<Longrightarrow> sent s = w \<Longrightarrow> m s = (Inr a, t) \<Longrightarrow> P a \<and> accepts t \<and> sent t = w'"
    and "\<And>s e t. accepts s \<Longrightarrow> sent s = w \<Longrightarrow> m s = (Inl e, t) \<Longrightarrow> sent t \<in> E e"
  shows "outcome w w' P E m"
  unfolding outcome_def by (auto split: sum.splits prod.splits intro: assms(2) dest: assms(1))

lemma outcomeD:
  assumes "outcome w w' P E m" and "accepts s" and "sent s = w"
  shows "m s = (Inr a, t) \<Longrightarrow> P a \<and> accepts t \<and> sent t = w'" and "m s = (Inl e, t) \<Longrightarrow> sent t \<in> E e"
  using assms unfolding outcome_def by fastforce+

lemma outcome_bind:
  assumes m: "outcome w w1 P E m" and f: "\<And>a. P a \<Longrightarrow> outcome w1 w2 Q E (f a)"
  shows "outcome w w2 Q E (io_bind m f)"
proof (rule outcomeI)
  fix s b t
  assume s: "accepts s" "sent s = w" and "io_bind m f s = (Inr b, t)"
  then obtain a u where "m s = (Inr a, u)" "f a u = (Inr b, t)"
    by (auto simp: io_bind_def split: sum.splits prod.splits)
  with outcomeD(1) [OF m s] outcomeD(1) [OF f] show "Q b \<and> accepts t \<and> sent t = w2" by blast
next
  fix s e t
  assume s: "accepts s" "sent s = w" and "io_bind m f s = (Inl e, t)"
  then consider "m s = (Inl e, t)" | a u where "m s = (Inr a, u)" "f a u = (Inl e, t)"
    by (auto simp: io_bind_def split: sum.splits prod.splits)
  then show "sent t \<in> E e"
    using outcomeD [OF m s] outcomeD(2) [OF f] by cases blast+
qed

lemma outcome_return: "P a \<Longrightarrow> outcome w w P E (io_return a)"
  by (simp add: outcome_def io_return_def)

lemma outcome_fail: "w \<in> E e \<Longrightarrow> outcome w w' P E (io_fail e)"
  by (simp add: outcome_def io_fail_def)

lemma outcome_read: "w \<in> E UnexpectedEof \<Longrightarrow> outcome w w (\<lambda>a. length a = n) E (read_n n)"
  by (auto simp: outcome_def read_n_def read_exact_Some split: option.splits)

lemma outcome_write: "outcome w (w @ bs) (\<lambda>_. True) E (write_all bs)"
  by (simp add: outcome_def write_all_def)

lemma outcome_refuse: "w @ reply_bytes status \<in> E e \<Longrightarrow> outcome w w' P E (refuse status e)"
  unfolding refuse_def reply_def by (rule outcome_bind [OF outcome_write outcome_fail])

lemmas outcome_rules =
  outcome_bind [OF outcome_read] outcome_bind [OF outcome_write] outcome_return outcome_fail outcome_refuse

lemma outcome_read_host: "outcome [5, 0] [5, 0] (\<lambda>h. True) error_output (read_host address_type)"
  unfolding read_host_def
  by (auto intro!: outcome_rules simp: error_output_def split: option.splits)

definition destination_ok :: "endpoint \<Rightarrow> bool" where
  "destination_ok e = (ep_port e \<noteq> 0 \<and> CHR 0x00 \<notin> set (ep_host e))"

lemma outcome_read_destination: "outcome [5, 0] [5, 0] destination_ok error_output read_destination"
  unfolding read_destination_def Let_def
  by (auto intro!: outcome_rules outcome_bind [OF outcome_read_host]
      simp: error_output_def destination_ok_def)

lemma outcome_handshake: "outcome [] [5, 0] destination_ok error_output handshake"
proof -
  have "outcome [] [5, 0] destination_ok error_output (io_bind (write_all [5, 0]) (\<lambda>_. read_destination))"
    using outcome_bind [OF outcome_write [of "[]" "[5, 0]"]] outcome_read_destination by simp
  then show ?thesis
    unfolding handshake_def
    by (auto intro!: outcome_bind [OF outcome_read] outcome_fail
        outcome_bind [OF outcome_write [of "[]" "[5, 255]"]] simp: error_output_def)
qed

section \<open>Requests\<close>

datatype socks_address = AddrV4 ipv4 | AddrName string | AddrV6 "u8 list"

fun address_bytes :: "socks_address \<Rightarrow> u8 list" where
  "address_bytes (AddrV4 (Ipv4 a b c d)) = [1, a, b, c, d]"
| "address_bytes (AddrName h) = [3, of_nat (length h)] @ bytes_of h"
| "address_bytes (AddrV6 bs) = 4 # bs"

fun address_text :: "socks_address \<Rightarrow> string" where
  "address_text (AddrV4 ip) = show_ipv4 ip"
| "address_text (AddrName h) = h"
| "address_text (AddrV6 bs) = show_ipv6 (the (ipv6_of_octets bs))"

fun address_ok :: "socks_address \<Rightarrow> bool" where
  "address_ok (AddrV4 ip) = True"
| "address_ok (AddrName h) = (h \<noteq> [] \<and> length h < 256 \<and> utf8_valid (bytes_of h))"
| "address_ok (AddrV6 bs) = (length bs = 16)"

definition greeting :: "u8 list \<Rightarrow> u8 list" where
  "greeting methods = [5, of_nat (length methods)] @ methods"

definition connect_request :: "socks_address \<Rightarrow> u16 \<Rightarrow> u8 list" where
  "connect_request a p = [5, 1, 0] @ address_bytes a @ [high_octet p, low_octet p]"

lemma segment_of_octets [simp]: "segment_of (high_octet p) (low_octet p) = p"
proof -
  have "unat p < 65536" using unsigned_less [of p] by simp
  then have "unat (high_octet p) = unat p div 256" "unat (low_octet p) = unat p mod 256"
    by (simp_all add: high_octet_def low_octet_def unat_of_nat)
  then show ?thesis by (simp add: segment_of_def)
qed

lemma ipv6_of_octets_some: "length bs = 16 \<Longrightarrow> ipv6_of_octets bs = Some (the (ipv6_of_octets bs))"
proof -
  assume "length bs = 16"
  then obtain a b c d e f g h i j k l m n p q where "bs = [a,b,c,d,e,f,g,h,i,j,k,l,m,n,p,q]"
    by (auto simp: eval_nat_numeral length_Suc_conv)
  then show ?thesis by (simp add: ipv6_of_octets_def)
qed

lemma read_n_append [simp]:
  "length a = n \<Longrightarrow> incoming s = a @ r \<Longrightarrow> read_n n s = (Inr a, s\<lparr>incoming := r\<rparr>)"
  by (simp add: read_n_def)

lemma read_one [simp]: "incoming s = b # r \<Longrightarrow> read_n 1 s = (Inr [b], s\<lparr>incoming := r\<rparr>)"
  by (simp add: read_n_def read_exact_def)

lemma read_prefix [simp]:
  "length a = n \<Longrightarrow> read_n n (s\<lparr>incoming := a @ r\<rparr>) = (Inr a, s\<lparr>incoming := r\<rparr>)"
  by (simp add: read_n_def)

lemma read_two [simp]: "read_n 2 (s\<lparr>incoming := a # b # r\<rparr>) = (Inr [a, b], s\<lparr>incoming := r\<rparr>)"
  by (simp add: read_n_def read_exact_def)

lemma length_bytes_of [simp]: "length (bytes_of h) = length h"
  by (simp add: bytes_of_def)

lemma read_host_address:
  assumes "address_ok a" and "incoming s = tl (address_bytes a) @ r"
  shows "read_host (hd (address_bytes a)) s = (Inr (address_text a), s\<lparr>incoming := r\<rparr>)"
proof (cases a)
  case (AddrV4 ip)
  then show ?thesis using assms
    by (cases ip) (simp add: read_host_def io_bind_def io_return_def read_n_def read_exact_def)
next
  case (AddrName h)
  have l: "unat (of_nat (length h) :: u8) = length h"
    using assms AddrName by (simp add: unat_of_nat)
  moreover from this have "(of_nat (length h) :: u8) \<noteq> 0" using assms AddrName by auto
  ultimately show ?thesis using assms AddrName
    by (simp add: read_host_def io_bind_def io_return_def from_utf8_def del: One_nat_def)
next
  case (AddrV6 bs)
  then show ?thesis using assms ipv6_of_octets_some [of bs]
    by (auto simp: read_host_def io_bind_def io_return_def split: option.splits)
qed

lemma connect_request_parts:
  "connect_request a p = [5, 1, 0, hd (address_bytes a)] @ tl (address_bytes a) @ [high_octet p, low_octet p]"
  by (cases a rule: address_bytes.cases) (simp_all add: connect_request_def)

lemma read_destination_request:
  assumes "address_ok a" and "p \<noteq> 0" and "CHR 0x00 \<notin> set (address_text a)"
    and "incoming s = connect_request a p @ rest"
  shows "read_destination s = (Inr \<lparr>ep_host = address_text a, ep_port = p\<rparr>, s\<lparr>incoming := rest\<rparr>)"
proof -
  let ?tail = "tl (address_bytes a) @ [high_octet p, low_octet p] @ rest"
  have "read_n 4 s = (Inr [5, 1, 0, hd (address_bytes a)], s\<lparr>incoming := ?tail\<rparr>)"
    using assms(4) by (intro read_n_append) (simp_all add: connect_request_parts)
  moreover have "read_host (hd (address_bytes a)) (s\<lparr>incoming := ?tail\<rparr>) =
      (Inr (address_text a), s\<lparr>incoming := [high_octet p, low_octet p] @ rest\<rparr>)"
    using read_host_address [OF assms(1), of "s\<lparr>incoming := ?tail\<rparr>"] by simp
  ultimately show ?thesis
    using assms(2,3) by (simp add: read_destination_def io_bind_def io_return_def Let_def)
qed

lemma handshake_request:
  assumes "0 \<in> set methods" and "length methods < 256"
    and "address_ok a" and "p \<noteq> 0" and "CHR 0x00 \<notin> set (address_text a)" and "accepts s"
    and "incoming s = greeting methods @ connect_request a p @ rest"
  shows "handshake s = (Inr \<lparr>ep_host = address_text a, ep_port = p\<rparr>,
    s\<lparr>incoming := rest, sent := sent s @ [5, 0]\<rparr>)"
proof -
  let ?c = "of_nat (length methods) :: u8"
  let ?r = "connect_request a p @ rest"
  have l: "unat ?c = length methods" using assms(2) by (simp add: unat_of_nat)
  have "read_n 1 s = (Inr [5], s\<lparr>incoming := ?c # methods @ ?r\<rparr>)"
    using assms(7) by (simp add: greeting_def del: One_nat_def)
  moreover have "read_n 1 (s\<lparr>incoming := ?c # methods @ ?r\<rparr>) = (Inr [?c], s\<lparr>incoming := methods @ ?r\<rparr>)"
    by (simp del: One_nat_def)
  moreover have "read_n (unat ?c) (s\<lparr>incoming := methods @ ?r\<rparr>) = (Inr methods, s\<lparr>incoming := ?r\<rparr>)"
    using l by simp
  moreover have "read_destination (s\<lparr>incoming := ?r, sent := sent s @ [5, 0]\<rparr>) =
      (Inr \<lparr>ep_host = address_text a, ep_port = p\<rparr>, s\<lparr>incoming := rest, sent := sent s @ [5, 0]\<rparr>)"
    using read_destination_request [OF assms(3-5), of "s\<lparr>incoming := ?r, sent := sent s @ [5, 0]\<rparr>"] by simp
  ultimately show ?thesis
    using assms(1,6) unfolding handshake_def
    by (simp add: io_bind_def write_all_def del: One_nat_def read_one)
qed

section \<open>Properties\<close>

text \<open>
  A well-formed SOCKS5 CONNECT request is read to its end and no further: the
  handshake returns the requested host, a name unchanged, and the port, after writing only
  the method selection, whatever the client sends next.
\<close>

theorem socks_accepts_connect:
  assumes "0 \<in> set methods" and "length methods < 256"
    and "address_ok a" and "p \<noteq> 0" and "CHR 0x00 \<notin> set (address_text a)"
  shows "handshake \<lparr>incoming = greeting methods @ connect_request a p @ rest, sent = [], accepts = True\<rparr>
    = (Inr \<lparr>ep_host = address_text a, ep_port = p\<rparr>,
       \<lparr>incoming = rest, sent = [5, 0], accepts = True\<rparr>)"
  using handshake_request [OF assms, of "\<lparr>incoming = greeting methods @ connect_request a p @ rest,
      sent = [], accepts = True\<rparr>" rest] by simp

theorem socks_accepts_connect_witness:
  "fst (handshake \<lparr>incoming = greeting [2, 0] @ connect_request (AddrName ''example.org'') 443 @ [7],
      sent = [], accepts = True\<rparr>) = Inr \<lparr>ep_host = ''example.org'', ep_port = 443\<rparr>"
  using socks_accepts_connect [of "[2, 0]" "AddrName ''example.org''" 443 "[7]"]
  by (simp add: bytes_of_def byte_def continuation_def)

text \<open>
  Whatever a client sends, it gets exactly one protocol answer per phase: an
  accepted request has a nonzero port and a host without NUL, and every refused one was
  answered with the status of its fault before the connection is dropped.
\<close>

theorem socks_answers_once:
  assumes "accepts s" and "sent s = []"
  shows "case handshake s of
      (Inr e, t) \<Rightarrow> ep_port e \<noteq> 0 \<and> CHR 0x00 \<notin> set (ep_host e) \<and> sent t = [5, 0]
    | (Inl e, t) \<Rightarrow> sent t \<in> error_output e"
  using outcomeD [OF outcome_handshake assms] by (auto simp: destination_ok_def split: sum.splits prod.splits)

theorem socks_answers_once_witness:
  "sent (snd (handshake \<lparr>incoming = [5, 1, 0, 5, 3, 0, 1], sent = [], accepts = True\<rparr>)) = [5, 0] @ reply_bytes 7"
proof -
  let ?s = "\<lparr>incoming = [5, 1, 0, 5, 3, 0, 1], sent = [], accepts = True\<rparr>"
  have "fst (handshake ?s) = Inl OnlyConnect"
    by (simp add: handshake_def io_bind_def read_n_def read_exact_def write_all_def read_destination_def
        refuse_def reply_def io_fail_def)
  then show ?thesis
    using socks_answers_once [of ?s] by (auto simp: error_output_def split: prod.splits)
qed

end
