(* ===== verification/Codec.thy ===== *)
theory Codec
  imports Bytes
begin

text \<open>
  Length-prefixed frames on the control socket, \<open>crates/fwm-api/src/codec.rs\<close>. A reader is
  the list of bytes still to come before the end of the stream. JSON is code outside the
  repository: \<open>enc\<close> and \<open>dec\<close> are parameters.
\<close>

section \<open>Frames\<close>

definition MAX_FRAME_BYTES :: nat where
  "MAX_FRAME_BYTES = 1024 * 1024"

datatype frame_error = FrameEof | FrameLength | FrameJson | FrameSerialize | FrameTooLarge

definition read_frame :: "(u8 list \<Rightarrow> 'v option) \<Rightarrow> u8 list \<Rightarrow> (frame_error + 'v option) \<times> u8 list" where
  "read_frame dec s = (case s of
       [] \<Rightarrow> (Inr None, [])
     | b # s1 \<Rightarrow> (case read_exact 3 s1 of
           None \<Rightarrow> (Inl FrameEof, [])
         | Some (bs, s2) \<Rightarrow>
             (let size = nat_of_be (b # bs) in
              if size = 0 \<or> MAX_FRAME_BYTES < size then (Inl FrameLength, s2)
              else (case read_exact size s2 of
                  None \<Rightarrow> (Inl FrameEof, [])
                | Some (payload, s3) \<Rightarrow> (case dec payload of
                      Some v \<Rightarrow> (Inr (Some v), s3)
                    | None \<Rightarrow> (Inl FrameJson, s3))))))"

definition write_frame :: "('v \<Rightarrow> u8 list option) \<Rightarrow> 'v \<Rightarrow> u8 list \<Rightarrow> frame_error + u8 list" where
  "write_frame enc v written = (case enc v of
       None \<Rightarrow> Inl FrameSerialize
     | Some bytes \<Rightarrow>
         if MAX_FRAME_BYTES < length bytes then Inl FrameTooLarge
         else Inr (written @ be_u32 (length bytes) @ bytes))"

section \<open>Conversations\<close>

text \<open>Writing frames one after the other, and reading until the end of the stream.\<close>

fun write_frames :: "('v \<Rightarrow> u8 list option) \<Rightarrow> 'v list \<Rightarrow> u8 list \<Rightarrow> frame_error + u8 list" where
  "write_frames enc [] written = Inr written"
| "write_frames enc (v # vs) written = rbind (write_frame enc v written) (write_frames enc vs)"

lemma read_frame_shorter: "read_frame dec s = (Inr (Some v), t) \<Longrightarrow> length t < length s"
  by (auto simp: read_frame_def Let_def read_exact_Some split: list.splits option.splits if_splits)

function read_frames :: "(u8 list \<Rightarrow> 'v option) \<Rightarrow> u8 list \<Rightarrow> frame_error + 'v list" where
  "read_frames dec s = (case read_frame dec s of
       (Inl e, t) \<Rightarrow> Inl e
     | (Inr None, t) \<Rightarrow> Inr []
     | (Inr (Some v), t) \<Rightarrow> rbind (read_frames dec t) (\<lambda>vs. Inr (v # vs)))"
  by auto
termination by (relation "measure (\<lambda>(_, s). length s)") (auto dest: read_frame_shorter [OF sym])

declare read_frames.simps [simp del]

lemma read_frames_simps:
  "read_frame dec s = (Inl e, t) \<Longrightarrow> read_frames dec s = Inl e"
  "read_frame dec s = (Inr None, t) \<Longrightarrow> read_frames dec s = Inr []"
  "read_frame dec s = (Inr (Some v), t) \<Longrightarrow>
     read_frames dec s = rbind (read_frames dec t) (\<lambda>vs. Inr (v # vs))"
  by (simp_all add: read_frames.simps [of dec s])

lemma read_frame_payload:
  assumes "0 < length p" and "length p \<le> MAX_FRAME_BYTES"
  shows "read_frame dec (be_u32 (length p) @ p @ rest) =
    ((case dec p of Some v \<Rightarrow> Inr (Some v) | None \<Rightarrow> Inl FrameJson), rest)"
proof -
  obtain b bs where b: "be_u32 (length p) = b # bs" and bs: "length bs = 3"
    by (simp add: be_u32_def)
  have "length p < 2 ^ 32" using assms(2) by (simp add: MAX_FRAME_BYTES_def)
  then have "nat_of_be (b # bs) = length p" using nat_of_be_u32 b by metis
  with assms bs show ?thesis
    by (simp add: b read_frame_def split: option.splits)
qed

lemma write_frames_append:
  "write_frames enc vs w = Inr out \<Longrightarrow> \<exists>fs. out = w @ fs"
  by (induction vs arbitrary: w) (fastforce simp: result_simps write_frame_def split: option.splits if_splits)+

lemma read_write_frames:
  assumes json: "\<And>v bs. enc v = Some bs \<Longrightarrow> bs \<noteq> [] \<and> dec bs = Some v"
    and "write_frames enc vs w = Inr (w @ out)"
  shows "read_frames dec out = Inr vs"
  using assms(2)
proof (induction vs arbitrary: w out)
  case Nil
  then show ?case by (simp add: read_frames_simps(2) read_frame_def)
next
  case (Cons v vs)
  then obtain bytes where enc: "enc v = Some bytes" and size: "length bytes \<le> MAX_FRAME_BYTES"
    and rest: "write_frames enc vs (w @ be_u32 (length bytes) @ bytes) = Inr (w @ out)"
    by (auto simp: result_simps write_frame_def split: option.splits if_splits)
  obtain fs where fs: "w @ out = (w @ be_u32 (length bytes) @ bytes) @ fs"
    using write_frames_append [OF rest] by blast
  then have out: "out = be_u32 (length bytes) @ bytes @ fs" by simp
  have "read_frames dec fs = Inr vs"
    by (rule Cons.IH [of "w @ be_u32 (length bytes) @ bytes"]) (use rest fs in simp)
  moreover have "read_frame dec out = (Inr (Some v), fs)"
    using json [OF enc] size unfolding out by (simp add: read_frame_payload)
  ultimately show ?case by (simp add: read_frames_simps(3))
qed

lemma read_frame_torn:
  assumes p: "length p \<le> MAX_FRAME_BYTES" and k: "0 < k" "k < 4 + length p"
  shows "read_frame dec (take k (be_u32 (length p) @ p)) = (Inl FrameEof, [])"
proof -
  obtain b bs where b: "be_u32 (length p) = b # bs" and bs: "length bs = 3"
    by (simp add: be_u32_def)
  have "length p < 2 ^ 32" using p by (simp add: MAX_FRAME_BYTES_def)
  then have n: "nat_of_be (b # bs) = length p" using nat_of_be_u32 b by metis
  obtain m where m: "k = Suc m" using k(1) by (cases k) auto
  show ?thesis
  proof (cases "m < 3")
    case True
    then show ?thesis using bs by (simp add: b m read_frame_def read_exact_def)
  next
    case False
    then have "read_exact 3 (take m (bs @ p)) = Some (bs, take (m - 3) p)"
      using bs by (simp add: read_exact_def)
    moreover have "length p \<noteq> 0" and "m - 3 < length p" using k False m by linarith+
    ultimately show ?thesis using p n by (simp add: b m read_frame_def read_exact_def Let_def)
  qed
qed

section \<open>Properties\<close>

text \<open>
  The messages written to a control connection are exactly the messages read
  from it, in order and up to the clean end of the stream.
\<close>

theorem frames_roundtrip:
  assumes "\<And>v bs. enc v = Some bs \<Longrightarrow> bs \<noteq> [] \<and> dec bs = Some v"
    and "write_frames enc vs [] = Inr out"
  shows "read_frames dec out = Inr vs"
  using read_write_frames [of enc dec vs "[]" out] assms by simp

definition digit_json :: "nat \<Rightarrow> u8 list option" where
  "digit_json n = (if n < 10 then Some [of_nat (48 + n)] else None)"

definition digit_unjson :: "u8 list \<Rightarrow> nat option" where
  "digit_unjson bs = (case bs of [b] \<Rightarrow> Some (unat b - 48) | _ \<Rightarrow> None)"

theorem frames_roundtrip_witness:
  "read_frames digit_unjson [0, 0, 0, 1, 55, 0, 0, 0, 1, 51] = Inr [7, 3]"
proof (rule frames_roundtrip [of digit_json])
  show "bs \<noteq> [] \<and> digit_unjson bs = Some v" if "digit_json v = Some bs" for v bs
  proof -
    have "v < 10" "bs = [of_nat (48 + v)]" using that by (auto simp: digit_json_def split: if_splits)
    then show ?thesis by (simp only: digit_unjson_def list.case) (simp add: unat_of_nat del: of_nat_add)
  qed
  show "write_frames digit_json [7, 3] [] = Inr [0, 0, 0, 1, 55, 0, 0, 0, 1, 51]"
    by (simp add: write_frame_def digit_json_def MAX_FRAME_BYTES_def be_u32_def)
qed

text \<open>
  A connection that ends inside a frame is reported as such: no torn frame is
  ever taken for a message or for a clean end, and a frame beyond the limit is refused on
  its length alone, before its payload is read.
\<close>

theorem torn_frame_detected:
  assumes "length p \<le> MAX_FRAME_BYTES" and "0 < k" and "k < 4 + length p"
    and "MAX_FRAME_BYTES < n" and "n < 2 ^ 32"
  shows "read_frame dec (take k (be_u32 (length p) @ p)) = (Inl FrameEof, []) \<and>
    read_frame dec (be_u32 n @ rest) = (Inl FrameLength, rest)"
proof -
  obtain b bs where b: "be_u32 n = b # bs" and bs: "length bs = 3" by (simp add: be_u32_def)
  have "nat_of_be (b # bs) = n" using nat_of_be_u32 [OF assms(5)] b by simp
  then have "read_frame dec (be_u32 n @ rest) = (Inl FrameLength, rest)"
    using assms(4) bs by (simp add: b read_frame_def)
  with read_frame_torn [OF assms(1-3)] show ?thesis by simp
qed

theorem torn_frame_detected_witness:
  "read_frame digit_unjson (take 4 (be_u32 1 @ [55])) = (Inl FrameEof, []) \<and>
   read_frame digit_unjson (be_u32 1048577 @ [9]) = (Inl FrameLength, [9])"
  using torn_frame_detected [of "[55]" 4 1048577 digit_unjson "[9]"] by (simp add: MAX_FRAME_BYTES_def)

end
