(* ===== verification/History.thy ===== *)
theory History
  imports Selection
begin

text \<open>
  Event history, \<open>crates/fwm-core/src/history.rs\<close>: entries with the labels observed when the
  event happened, the enrichment of records written by older versions, and the filters of
  the event queries.
\<close>

section \<open>Entries and labels\<close>

record history_entry =
  he_instance :: string
  he_event :: engine_event
  he_forward_name :: "string option"
  he_server_id :: "string option"
  he_server_name :: "string option"
  he_group :: "string option"
  he_target_server_id :: "string option"
  he_target_server_name :: "string option"

record history_labels =
  hl_forward_name :: "string option"
  hl_server_id :: "string option"
  hl_server_name :: "string option"
  hl_group :: "string option"
  hl_target_server_id :: "string option"
  hl_target_server_name :: "string option"

definition from_entry :: "history_entry \<Rightarrow> history_labels" where
  "from_entry e =
     \<lparr>hl_forward_name = he_forward_name e, hl_server_id = he_server_id e,
      hl_server_name = he_server_name e, hl_group = he_group e,
      hl_target_server_id = he_target_server_id e, hl_target_server_name = he_target_server_name e\<rparr>"

definition apply_labels :: "history_labels \<Rightarrow> history_entry \<Rightarrow> history_entry" where
  "apply_labels l e = e
     \<lparr>he_forward_name := hl_forward_name l, he_server_id := hl_server_id l,
      he_server_name := hl_server_name l, he_group := hl_group l,
      he_target_server_id := hl_target_server_id l, he_target_server_name := hl_target_server_name l\<rparr>"

definition labels_of :: "config \<Rightarrow> forward_spec \<Rightarrow> history_labels" where
  "labels_of c f =
     \<lparr>hl_forward_name = Some (fs_name f), hl_server_id = Some (fs_server_id f),
      hl_server_name = map_option sp_name (server c (fs_server_id f)), hl_group = fs_group f,
      hl_target_server_id = target_server_id (fs_tunnel f),
      hl_target_server_name =
        map_option sp_name (Option.bind (target_server_id (fs_tunnel f)) (server c))\<rparr>"

text \<open>Collecting pairs into a \<open>HashMap\<close> keeps the last pair of a key.\<close>

definition labels_from_config :: "config \<Rightarrow> string \<Rightarrow> history_labels option" where
  "labels_from_config c = map_of (rev (map (\<lambda>f. (fs_id f, labels_of c f)) (forwards c)))"

definition no_context :: event_context where
  "no_context =
     \<lparr>ec_forward_name = None, ec_server_id = None, ec_server_name = None, ec_group = None,
      ec_target_server_id = None, ec_target_server_name = None\<rparr>"

definition new_entry :: "string \<Rightarrow> engine_event \<Rightarrow> history_entry" where
  "new_entry inst ev =
     (let ctx = (case ev_context ev of None \<Rightarrow> no_context | Some x \<Rightarrow> x);
          ev' = ev\<lparr>ev_server_id := or_else (ec_server_id ctx) (ev_server_id ev)\<rparr>
      in \<lparr>he_instance = inst, he_event = ev', he_forward_name = ec_forward_name ctx,
          he_server_id = ev_server_id ev', he_server_name = ec_server_name ctx,
          he_group = ec_group ctx, he_target_server_id = ec_target_server_id ctx,
          he_target_server_name = ec_target_server_name ctx\<rparr>)"

definition label :: "history_entry \<Rightarrow> string" where
  "label e =
     (case or_else (he_forward_name e) (or_else (ev_forward_id (he_event e))
            (or_else (he_server_name e) (he_server_id e))) of
        None \<Rightarrow> ''daemon'' | Some l \<Rightarrow> l)"

definition for_rule :: "string \<Rightarrow> engine_event \<Rightarrow> forward_spec \<Rightarrow> server_profile \<Rightarrow> history_entry" where
  "for_rule inst ev f s =
     new_entry inst
       (if ev_context ev = None
        then ev\<lparr>ev_context := Some \<lparr>ec_forward_name = Some (fs_name f), ec_server_id = Some (sp_id s),
               ec_server_name = Some (sp_name s), ec_group = fs_group f,
               ec_target_server_id = target_server_id (fs_tunnel f), ec_target_server_name = None\<rparr>\<rparr>
        else ev)"

definition for_server :: "string \<Rightarrow> engine_event \<Rightarrow> server_profile \<Rightarrow> history_entry" where
  "for_server inst ev s =
     new_entry inst
       (if ev_context ev = None
        then ev\<lparr>ev_context := Some (no_context\<lparr>ec_server_id := Some (sp_id s),
               ec_server_name := Some (sp_name s)\<rparr>)\<rparr>
        else ev)"

definition enrich_entry :: "history_entry \<Rightarrow> history_entry" where
  "enrich_entry e =
     (case ev_context (he_event e) of
        Some ctx \<Rightarrow>
          (let sid = or_else (ec_server_id ctx) (he_server_id e);
               e1 = e\<lparr>he_forward_name := ec_forward_name ctx, he_server_id := sid,
                      he_event := (he_event e)\<lparr>ev_server_id := sid\<rparr>,
                      he_server_name := ec_server_name ctx, he_group := ec_group ctx\<rparr>
           in if he_target_server_id e = None
              then e1\<lparr>he_target_server_id := ec_target_server_id ctx,
                      he_target_server_name := ec_target_server_name ctx\<rparr>
              else e1)
      | None \<Rightarrow>
          if he_server_id e = None then e\<lparr>he_server_id := ev_server_id (he_event e)\<rparr> else e)"

definition enrich_legacy :: "history_entry list \<Rightarrow> history_entry list" where
  "enrich_legacy es = map enrich_entry es"

section \<open>Filters\<close>

record history_filter =
  hf_name :: "string option"
  hf_server :: "string option"
  hf_group :: "string option"

text \<open>The rule ids a name stands for, or the group it falls back to.\<close>

definition selected_rules ::
    "string \<Rightarrow> history_entry list \<Rightarrow> config option \<Rightarrow> string set \<times> string option" where
  "selected_rules name es cfg =
     (case Option.bind cfg (\<lambda>c. forward c name) of
        Some rule \<Rightarrow> ({fs_id rule}, None)
      | None \<Rightarrow>
          if \<exists>e \<in> set es. ev_forward_id (he_event e) = Some name then ({name}, None)
          else if (case cfg of None \<Rightarrow> False
                   | Some c \<Rightarrow> \<exists>f \<in> set (forwards c). fs_group f = Some name) then ({}, Some name)
          else (let ids = set (concat (map (\<lambda>e. option_list (ev_forward_id (he_event e)))
                        (filter (\<lambda>e. he_forward_name e = Some name \<or>
                                     ev_forward_id (he_event e) = Some name) es)))
                in (ids, if ids = {} then Some name else None)))"

definition selected_server :: "string option \<Rightarrow> history_entry list \<Rightarrow> config option \<Rightarrow> string option" where
  "selected_server sel es cfg =
     or_else (Option.bind sel (\<lambda>name. Option.bind cfg (\<lambda>c. map_option sp_id (server c name))))
       (case sel of None \<Rightarrow> None
        | Some i \<Rightarrow> if \<exists>e \<in> set es. he_server_id e = Some i \<or> he_target_server_id e = Some i
                    then Some i else None)"

definition matches_name ::
    "string option \<Rightarrow> history_entry list \<Rightarrow> config option \<Rightarrow> history_entry \<Rightarrow> bool" where
  "matches_name sel es cfg e =
     (case sel of None \<Rightarrow> True
      | Some name \<Rightarrow>
          (let (ids, grp) = selected_rules name es cfg in
           (case grp of None \<Rightarrow> False | Some g \<Rightarrow> he_group e = Some g) \<or>
           (case ev_forward_id (he_event e) of None \<Rightarrow> False | Some i \<Rightarrow> i \<in> ids)))"

definition matches_server ::
    "string option \<Rightarrow> history_entry list \<Rightarrow> config option \<Rightarrow> history_entry \<Rightarrow> bool" where
  "matches_server sel es cfg e =
     (case sel of None \<Rightarrow> True
      | Some name \<Rightarrow> (case selected_server sel es cfg of
            Some i \<Rightarrow> he_server_id e = Some i \<or> he_target_server_id e = Some i
          | None \<Rightarrow> he_server_name e = Some name \<or> he_target_server_name e = Some name))"

definition matches_group :: "string option \<Rightarrow> history_entry \<Rightarrow> bool" where
  "matches_group sel e = (case sel of None \<Rightarrow> True | Some g \<Rightarrow> he_group e = Some g)"

definition select_history ::
    "history_filter \<Rightarrow> history_entry list \<Rightarrow> config option \<Rightarrow> history_entry list" where
  "select_history flt es cfg =
     filter (matches_group (hf_group flt))
       (filter (matches_server (hf_server flt) es cfg)
         (filter (matches_name (hf_name flt) es cfg) es))"

definition tail :: "'a list \<Rightarrow> nat \<Rightarrow> 'a list" where
  "tail es count = drop (length es - count) es"

section \<open>Labels are those of the event\<close>

lemma apply_from_entry [simp]: "apply_labels (from_entry e) e = e"
  by (simp add: apply_labels_def from_entry_def)

lemma enrich_entry_idem: "enrich_entry (enrich_entry e) = enrich_entry e"
  by (cases "ev_context (he_event e)"; cases "he_target_server_id e"; cases "he_server_id e")
    (auto simp: enrich_entry_def Let_def or_else_def split: option.splits)

lemma enrich_new_entry: "enrich_entry (new_entry inst ev) = new_entry inst ev"
  by (cases "ev_context ev")
    (auto simp: enrich_entry_def new_entry_def Let_def no_context_def or_else_def split: option.splits)

lemma labels_from_config_lookup:
  assumes "wf_config ua js c" and "f \<in> set (forwards c)"
  shows "labels_from_config c (fs_id f) = Some (labels_of c f)"
proof -
  have d: "distinct (map fs_id (forwards c))"
    using forwards_dir.entries_unambiguous [OF assms(1)] by (rule unambiguousD(1))
  let ?ps = "map (\<lambda>f. (fs_id f, labels_of c f)) (forwards c)"
  have "distinct (map fst (rev ?ps))" using d by (simp add: rev_map [symmetric] comp_def)
  moreover have "(fs_id f, labels_of c f) \<in> set (rev ?ps)" using assms(2) by auto
  ultimately show ?thesis unfolding labels_from_config_def by (rule map_of_is_SomeI)
qed

lemma selected_rules_current:
  "forward c name = Some rule \<Longrightarrow> selected_rules name es (Some c) = ({fs_id rule}, None)"
  by (simp add: selected_rules_def)

section \<open>Properties\<close>

text \<open>
  Labels recorded when an event happened are never rewritten: enriching an entry
  a second time, or an entry this version wrote itself, changes nothing, and only records
  without own labels gain any.
\<close>

theorem enrich_keeps_recorded_labels:
  "enrich_legacy (enrich_legacy es) = enrich_legacy es \<and>
   enrich_legacy (map (new_entry inst) evs) = map (new_entry inst) evs"
  by (simp add: enrich_legacy_def enrich_entry_idem enrich_new_entry)

text \<open>
  Filtering by a current rule's name or id returns all events of that rule, in
  order, under whatever names it had, and only those; server and group filters narrow the
  result by the labels recorded with the event.
\<close>

theorem history_follows_rule:
  assumes "wf_config ua js c" and "f \<in> set (forwards c)" and "sel = fs_id f \<or> sel = fs_name f"
  shows "select_history \<lparr>hf_name = Some sel, hf_server = s, hf_group = g\<rparr> es (Some c) =
    filter (\<lambda>e. ev_forward_id (he_event e) = Some (fs_id f) \<and> matches_server s es (Some c) e \<and>
                matches_group g e) es"
proof -
  have "forward c sel = Some f" using assms by (auto simp: forward_iff)
  then have "matches_name (Some sel) es (Some c) e \<longleftrightarrow> ev_forward_id (he_event e) = Some (fs_id f)" for e
    by (auto simp: matches_name_def selected_rules_current split: option.splits)
  then show ?thesis by (simp add: select_history_def conj_ac)
qed

definition sample_event :: "u64 \<Rightarrow> string \<Rightarrow> engine_event" where
  "sample_event n i =
     \<lparr>ev_context = None, ev_server_id = None, ev_sequence = n, ev_timestamp_ms = 0,
      ev_forward_id = Some i, ev_message = ''up''\<rparr>"

theorem history_follows_rule_witness:
  "select_history \<lparr>hf_name = Some ''back'', hf_server = None, hf_group = None\<rparr>
      (map (new_entry ''d'') [sample_event 1 ''f3'', sample_event 2 ''f4'']) (Some sample_config)
     = [new_entry ''d'' (sample_event 1 ''f3'')]"
proof -
  have "sample_remote \<in> set (forwards sample_config)" by (simp add: sample_config_def)
  moreover have "''back'' = fs_id sample_remote \<or> ''back'' = fs_name sample_remote"
    by (simp add: sample_remote_def)
  ultimately show ?thesis
    using history_follows_rule [OF sample_wf]
    by (simp add: matches_server_def matches_group_def new_entry_def sample_event_def Let_def sample_remote_def)
qed

end
