(* ===== verification/Cursor.thy ===== *)
theory Cursor
  imports History
begin

text \<open>
  \<open>HistoryCursor\<close> of \<open>crates/fwm-core/src/history/cursor.rs\<close>: the highest sequence number
  seen of every daemon instance, so that re-reading the retained files yields each event
  once. The \<open>HashMap\<close> is a map from instances to sequence numbers.
\<close>

section \<open>The cursor\<close>

type_synonym cursor = "string \<rightharpoonup> u64"

definition from_snapshot :: "history_entry list \<Rightarrow> cursor" where
  "from_snapshot es =
     foldl (\<lambda>m e. m(he_instance e \<mapsto>
        (case m (he_instance e) of None \<Rightarrow> ev_sequence (he_event e)
         | Some q \<Rightarrow> max q (ev_sequence (he_event e))))) Map.empty es"

fun take_loop ::
    "cursor \<Rightarrow> bool \<Rightarrow> history_entry list \<Rightarrow> cursor \<times> history_entry list \<times> bool" where
  "take_loop m gap [] = (m, [], gap)"
| "take_loop m gap (e # es) =
     (let prev = (case m (he_instance e) of None \<Rightarrow> 0 | Some q \<Rightarrow> q);
          n = ev_sequence (he_event e)
      in if prev < n
         then (let (m', fresh, gap') =
                   take_loop (m(he_instance e \<mapsto> n)) (gap \<or> saturating_add prev 1 < n) es
               in (m', e # fresh, gap'))
         else take_loop (m(he_instance e \<mapsto> prev)) gap es)"

definition take_new :: "cursor \<Rightarrow> history_entry list \<Rightarrow> cursor \<times> history_entry list \<times> bool" where
  "take_new m es =
     (let (m', fresh, gap) = take_loop m False es;
          retained = he_instance ` set es
      in (if retained = {} then m' else m' |` retained, fresh, gap))"

section \<open>What has been seen\<close>

definition position :: "cursor \<Rightarrow> string \<Rightarrow> nat" where
  "position m i = (case m i of None \<Rightarrow> 0 | Some q \<Rightarrow> unat q)"

abbreviation entry_seq :: "history_entry \<Rightarrow> nat" where
  "entry_seq e \<equiv> unat (ev_sequence (he_event e))"

lemma position_upd [simp]: "position (m(i \<mapsto> q)) = (position m)(i := unat q)"
  by (rule ext) (simp add: position_def)

lemma position_prev: "unat (case m i of None \<Rightarrow> 0 | Some q \<Rightarrow> q) = position m i"
  by (simp add: position_def split: option.splits)

text \<open>The entries a reader at position \<open>pos\<close> should get: those above everything seen before.\<close>

fun unseen :: "(string \<Rightarrow> nat) \<Rightarrow> history_entry list \<Rightarrow> history_entry list" where
  "unseen pos [] = []"
| "unseen pos (e # es) =
     (if pos (he_instance e) < entry_seq e
      then e # unseen (pos(he_instance e := entry_seq e)) es else unseen pos es)"

fun high_water :: "history_entry list \<Rightarrow> string \<Rightarrow> nat" where
  "high_water [] i = 0"
| "high_water (e # es) i = (if he_instance e = i then max (entry_seq e) (high_water es i) else high_water es i)"

lemma take_loop_position:
  "take_loop m gap es = (m', fresh, gap') \<Longrightarrow>
     position m' i = max (position m i) (high_water es i) \<and> fresh = unseen (position m) es \<and>
     dom m' = dom m \<union> he_instance ` set es"
proof (induction m gap es arbitrary: m' fresh gap' rule: take_loop.induct)
  case (1 m gap)
  then show ?case by simp
next
  case (2 m gap e es)
  let ?prev = "case m (he_instance e) of None \<Rightarrow> 0 | Some q \<Rightarrow> q"
  let ?n = "ev_sequence (he_event e)"
  have lt: "?prev < ?n \<longleftrightarrow> position m (he_instance e) < entry_seq e"
    by (simp add: word_less_nat_alt position_prev)
  show ?case
  proof (cases "?prev < ?n")
    case True
    then obtain rest where r: "take_loop (m(he_instance e \<mapsto> ?n)) (gap \<or> saturating_add ?prev 1 < ?n) es
        = (m', rest, gap')" and f: "fresh = e # rest"
      using "2.prems" by (auto simp: Let_def split: prod.splits)
    have pos: "position (m(he_instance e \<mapsto> ?n)) = (position m)(he_instance e := entry_seq e)"
      by (rule ext) simp
    note ih = "2.IH"(1) [OF refl refl True r, unfolded pos]
    have "dom m' = dom m \<union> he_instance ` set (e # es)" using ih by auto
    moreover have "fresh = unseen (position m) (e # es)"
    proof -
      have "rest = unseen ((position m)(he_instance e := entry_seq e)) es" using ih by blast
      then show ?thesis using lt True by (simp only: f unseen.simps if_True)
    qed
    moreover have "position m' i = max (position m i) (high_water (e # es) i)"
      using ih lt True by (auto simp: max_def)
    ultimately show ?thesis by blast
  next
    case False
    then have r: "take_loop (m(he_instance e \<mapsto> ?prev)) gap es = (m', fresh, gap')"
      using "2.prems" by (simp add: Let_def)
    have pos: "position (m(he_instance e \<mapsto> ?prev)) = position m"
      by (rule ext) (simp add: position_prev)
    note ih = "2.IH"(2) [OF refl refl False r, unfolded pos]
    have "dom m' = dom m \<union> he_instance ` set (e # es)" using ih by auto
    moreover have "fresh = unseen (position m) (e # es)" using ih lt False by simp
    moreover have "position m' i = max (position m i) (high_water (e # es) i)"
      using ih lt False by (auto simp: max_def)
    ultimately show ?thesis by blast
  qed
qed

lemma unseen_none: "(\<And>e. e \<in> set es \<Longrightarrow> entry_seq e \<le> pos (he_instance e)) \<Longrightarrow> unseen pos es = []"
  by (induction es) (auto simp: not_less)

lemma high_water_le: "e \<in> set es \<Longrightarrow> entry_seq e \<le> high_water es (he_instance e)"
  by (induction es) auto

lemma unseen_set:
  "set (unseen pos es) \<subseteq> {e \<in> set es. pos (he_instance e) < entry_seq e}"
proof (induction es arbitrary: pos)
  case Nil
  then show ?case by simp
next
  case (Cons e es)
  show ?case
  proof
    fix x
    assume "x \<in> set (unseen pos (e # es))"
    then consider "x = e" "pos (he_instance e) < entry_seq e"
      | "pos (he_instance e) < entry_seq e" "x \<in> set (unseen (pos(he_instance e := entry_seq e)) es)"
      | "x \<in> set (unseen pos es)" by (auto split: if_splits)
    then show "x \<in> {x \<in> set (e # es). pos (he_instance x) < entry_seq x}"
    proof cases
      case 2
      with Cons.IH [of "pos(he_instance e := entry_seq e)"] have
        "x \<in> set es" "(pos(he_instance e := entry_seq e)) (he_instance x) < entry_seq x" by blast+
      with 2 show ?thesis by (auto split: if_splits)
    next
      case 3
      with Cons.IH [of pos] show ?thesis by auto
    qed simp
  qed
qed

lemma unseen_distinct: "distinct (map (\<lambda>e. (he_instance e, entry_seq e)) (unseen pos es))"
proof (induction es arbitrary: pos)
  case Nil
  then show ?case by simp
next
  case (Cons e es)
  then show ?case
    using unseen_set [of "pos(he_instance e := entry_seq e)" es] by fastforce
qed

lemma take_new_parts:
  assumes "take_new m es = (m', fresh, gap)"
  shows "fresh = unseen (position m) es"
    and "i \<in> he_instance ` set es \<Longrightarrow> position m' i = max (position m i) (high_water es i)"
    and "es \<noteq> [] \<Longrightarrow> dom m' = he_instance ` set es"
proof -
  obtain m1 where l: "take_loop m False es = (m1, fresh, gap)"
    and m': "m' = (if he_instance ` set es = {} then m1 else m1 |` (he_instance ` set es))"
    using assms by (auto simp: take_new_def Let_def split: prod.splits)
  note p = take_loop_position [OF l]
  show "fresh = unseen (position m) es" using p by simp
  show "i \<in> he_instance ` set es \<Longrightarrow> position m' i = max (position m i) (high_water es i)"
    using p [of i] m' by (auto simp: position_def)
  show "es \<noteq> [] \<Longrightarrow> dom m' = he_instance ` set es" using p m' by auto
qed

lemma take_loop_gap:
  "take_loop m gap es = (m', fresh, gap') \<Longrightarrow> gap \<Longrightarrow> gap'"
  by (induction m gap es arbitrary: m' fresh gap' rule: take_loop.induct)
    (auto simp: Let_def split: prod.splits if_splits)

section \<open>Properties\<close>

text \<open>
  Every event is delivered exactly once: a read yields, in order and without
  repeats, precisely events above the position reached before, and reading the same retained
  files again yields nothing and reports no gap. Instances that are no longer retained are
  forgotten.
\<close>

theorem take_new_exactly_once:
  assumes "take_new m es = (m', fresh, gap)"
  shows "fresh = unseen (position m) es \<and>
    distinct (map (\<lambda>e. (he_instance e, entry_seq e)) fresh) \<and>
    (\<exists>m''. take_new m' es = (m'', [], False)) \<and> (es = [] \<or> dom m' = he_instance ` set es)"
proof -
  note p = take_new_parts [OF assms]
  have seen: "entry_seq e \<le> position m' (he_instance e)" if "e \<in> set es" for e
    using p(2) [of "he_instance e"] high_water_le [OF that] that by simp
  have "take_loop k False es = (k', f, g) \<Longrightarrow> (\<And>e. e \<in> set es \<Longrightarrow> entry_seq e \<le> position k (he_instance e))
      \<Longrightarrow> f = [] \<and> \<not> g" for k k' f g
  proof (induction es arbitrary: k)
    case Nil
    then show ?case by simp
  next
    case (Cons e es)
    let ?prev = "case k (he_instance e) of None \<Rightarrow> 0 | Some q \<Rightarrow> q"
    have "\<not> ?prev < ev_sequence (he_event e)"
      using Cons.prems(2) [of e] by (simp add: word_less_nat_alt position_prev)
    then have "take_loop (k(he_instance e \<mapsto> ?prev)) False es = (k', f, g)"
      using Cons.prems(1) by (simp add: Let_def)
    then show ?case
    proof (rule Cons.IH)
      have "position (k(he_instance e \<mapsto> ?prev)) = position k"
        by (rule ext) (simp add: position_prev)
      then show "entry_seq x \<le> position (k(he_instance e \<mapsto> ?prev)) (he_instance x)" if "x \<in> set es" for x
        using Cons.prems(2) that by (simp only:) simp
    qed
  qed
  from this [OF _ seen] have "\<exists>m''. take_new m' es = (m'', [], False)"
    by (cases "take_loop m' False es") (auto simp: take_new_def)
  with p(1,3) unseen_distinct show ?thesis by auto
qed

theorem take_new_exactly_once_witness:
  "\<exists>m''. take_new [''d'' \<mapsto> 2] (map (new_entry ''d'') [sample_event 1 ''f'', sample_event 2 ''f'']) = (m'', [], False)"
proof -
  let ?es = "map (new_entry ''d'') [sample_event 1 ''f'', sample_event 2 ''f'']"
  have t: "take_new Map.empty ?es = ([''d'' \<mapsto> 2], ?es, False)"
    by (auto simp: take_new_def new_entry_def sample_event_def Let_def saturating_add_def restrict_map_def)
  from take_new_exactly_once [OF t] show ?thesis by blast
qed

end
