(* ===== verification/HistoryLog.thy ===== *)
theory HistoryLog
  imports History
begin

text \<open>
  The two bounded log files of the event history,
  \<open>crates/fwm-core/src/history/storage.rs\<close>. A file is its bytes, a missing file \<open>None\<close>.
  JSON is code outside the repository (\<open>enc\<close>, \<open>dec\<close>); file operations other than on a
  missing file succeed. Lengths are natural numbers: no file reaches \<open>2^64\<close> bytes.
\<close>

section \<open>Truncating messages\<close>

definition MAX_LOG_BYTES :: nat where
  "MAX_LOG_BYTES = 2 * 1024 * 1024"

definition MAX_RECORD_BYTES :: nat where
  "MAX_RECORD_BYTES = 8 * 1024"

definition MAX_MESSAGE_BYTES :: nat where
  "MAX_MESSAGE_BYTES = 4096"

definition newline :: char where
  "newline = CHR 0x0A"

function floor_boundary :: "string \<Rightarrow> nat \<Rightarrow> nat" where
  "floor_boundary s b = (if is_char_boundary s b then b else floor_boundary s (b - 1))"
  by auto
termination
proof (relation "measure snd")
  fix s b
  assume "\<not> is_char_boundary s b"
  then have "b \<noteq> 0" by (auto simp: is_char_boundary_def)
  then show "((s, b - 1), (s, b)) \<in> measure snd" by simp
qed simp

declare floor_boundary.simps [simp del]

definition truncate_message :: "string \<Rightarrow> nat \<Rightarrow> string" where
  "truncate_message m limit =
     (if length m \<le> limit then m
      else take (floor_boundary m (limit - length '' [truncated]'')) m @ '' [truncated]'')"

lemma floor_boundary_le: "floor_boundary s b \<le> b"
  by (induction s b rule: floor_boundary.induct) (metis diff_le_self floor_boundary.simps le_trans order_refl)

lemma floor_boundary_boundary: "is_char_boundary s (floor_boundary s b)"
  by (induction s b rule: floor_boundary.induct) (metis floor_boundary.simps)

lemma length_truncate_message: "length (truncate_message m limit) \<le> max limit 12"
proof -
  have marker: "length '' [truncated]'' = 12" by simp
  have "floor_boundary m (limit - 12) + 12 \<le> max limit 12"
    using floor_boundary_le [of m "limit - 12"] by linarith
  then show ?thesis unfolding truncate_message_def marker length_append length_take if_distrib [of length] marker
    by auto
qed

lemma truncate_message_shorter: "12 \<le> limit \<Longrightarrow> limit < length m \<Longrightarrow> length (truncate_message m limit) < length m"
  using length_truncate_message [of m limit] by simp

section \<open>Appending\<close>

record disk =
  active :: "string option"
  archived :: "string option"

datatype log_error = NotSerialized | RecordTooLarge | RenameMissing | KeepsRotating

definition with_message :: "history_entry \<Rightarrow> string \<Rightarrow> history_entry" where
  "with_message e m = e\<lparr>he_event := (he_event e)\<lparr>ev_message := m\<rparr>\<rparr>"

abbreviation message :: "history_entry \<Rightarrow> string" where
  "message e \<equiv> ev_message (he_event e)"

function fit_record ::
    "(history_entry \<Rightarrow> string option) \<Rightarrow> history_entry \<Rightarrow> string \<Rightarrow> log_error + (history_entry \<times> string)" where
  "fit_record enc e line =
     (if MAX_RECORD_BYTES < length line + 1 \<and> 32 < length (message e)
      then (let e' = with_message e (truncate_message (message e) (length (message e) div 2))
            in rbind (ok_or (enc e') NotSerialized) (fit_record enc e'))
      else Inr (e, line))"
  by auto
termination
  by (relation "measure (\<lambda>(_, e, _). length (message e))")
    (auto simp: with_message_def intro!: truncate_message_shorter)

declare fit_record.simps [simp del]

text \<open>\<open>write_record\<close> starts a new line first when the last write was torn.\<close>

definition terminated :: "string \<Rightarrow> string" where
  "terminated s = (if s \<noteq> [] \<and> last s \<noteq> newline then s @ [newline] else s)"

definition write_record :: "string option \<Rightarrow> string \<Rightarrow> string" where
  "write_record f line = (case f of None \<Rightarrow> line | Some s \<Rightarrow> terminated s @ line)"

definition file_length :: "string option \<Rightarrow> nat" where
  "file_length f = (case f of None \<Rightarrow> 0 | Some s \<Rightarrow> length s)"

definition make_room :: "disk \<Rightarrow> string \<Rightarrow> log_error + disk" where
  "make_room d line =
     (if MAX_LOG_BYTES < file_length (active d) + (length line + 1)
      then (case active d of
          None \<Rightarrow> Inl RenameMissing
        | Some s \<Rightarrow> Inr \<lparr>active = None, archived = Some s\<rparr>)
      else Inr d)"

definition append_history ::
    "(history_entry \<Rightarrow> string option) \<Rightarrow> disk \<Rightarrow> history_entry \<Rightarrow> log_error + disk" where
  "append_history enc d entry =
     (let bounded = with_message entry (truncate_message (message entry) MAX_MESSAGE_BYTES)
      in rbind (ok_or (enc bounded) NotSerialized) (\<lambda>line0.
         rbind (fit_record enc bounded line0) (\<lambda>(_, body).
         let line = body @ [newline] in
         rbind (rguard (MAX_RECORD_BYTES < length line) RecordTooLarge) (\<lambda>_.
         rbind (make_room d line) (\<lambda>d'.
         Inr (d'\<lparr>active := Some (write_record (active d') line)\<rparr>))))))"

section \<open>Reading\<close>

fun split_inclusive :: "string \<Rightarrow> string list" where
  "split_inclusive [] = []"
| "split_inclusive (c # s) =
     (if c = newline then [c] # split_inclusive s
      else (case split_inclusive s of [] \<Rightarrow> [[c]] | l # ls \<Rightarrow> (c # l) # ls))"

definition is_ascii_whitespace :: "char \<Rightarrow> bool" where
  "is_ascii_whitespace c = (byte c = 9 \<or> byte c = 10 \<or> byte c = 12 \<or> byte c = 13 \<or> byte c = 32)"

type_synonym entry_key = "string \<times> u64"

definition key :: "history_entry \<Rightarrow> entry_key" where
  "key e = (he_instance e, ev_sequence (he_event e))"

fun read_lines ::
    "(string \<Rightarrow> history_entry option) \<Rightarrow> entry_key set \<Rightarrow> string list \<Rightarrow>
       history_entry list \<times> entry_key set \<times> nat" where
  "read_lines dec seen [] = ([], seen, 0)"
| "read_lines dec seen (line # ls) =
     (if last line \<noteq> newline \<or> MAX_RECORD_BYTES < length line
      then (let (es, s, n) = read_lines dec seen ls in (es, s, n + 1))
      else if list_all is_ascii_whitespace line then read_lines dec seen ls
      else (case dec line of
          None \<Rightarrow> (let (es, s, n) = read_lines dec seen ls in (es, s, n + 1))
        | Some e \<Rightarrow>
            if key e \<in> seen then read_lines dec seen ls
            else (let (es, s, n) = read_lines dec (insert (key e) seen) ls in (e # es, s, n))))"

text \<open>A file beyond the limit is read from the first whole line of its last 2 MiB.\<close>

definition clip :: "string \<Rightarrow> string" where
  "clip s =
     (if MAX_LOG_BYTES < length s
      then (case dropWhile (\<lambda>c. c \<noteq> newline) (drop (length s - MAX_LOG_BYTES) s) of
              [] \<Rightarrow> [] | _ # r \<Rightarrow> r)
      else s)"

datatype read_warning = SizeLimit bool | SkippedRecords bool nat

definition read_file ::
    "(string \<Rightarrow> history_entry option) \<Rightarrow> bool \<Rightarrow> entry_key set \<Rightarrow> string option \<Rightarrow>
       history_entry list \<times> entry_key set \<times> read_warning list" where
  "read_file dec is_active seen f = (case f of
       None \<Rightarrow> ([], seen, [])
     | Some s \<Rightarrow>
         (let (es, seen', skipped) = read_lines dec seen (split_inclusive (clip s))
          in (es, seen', (if MAX_LOG_BYTES < length s then [SizeLimit is_active] else []) @
                (if skipped \<noteq> 0 then [SkippedRecords is_active skipped] else []))))"

definition read_pair ::
    "(string \<Rightarrow> history_entry option) \<Rightarrow> disk \<Rightarrow> history_entry list \<times> read_warning list" where
  "read_pair dec d =
     (let (old, seen, w1) = read_file dec False {} (archived d);
          (new, _, w2) = read_file dec True seen (active d)
      in (old @ new, w1 @ w2))"

text \<open>
  The first record identifies a generation of the active file. A rotation between the opens
  is noticed by opening the active file again; after four attempts the read gives up. A view
  is what the three opens of one attempt find.
\<close>

definition generation :: "string option \<Rightarrow> string option" where
  "generation f = map_option (\<lambda>s. let h = take MAX_RECORD_BYTES s in
     (case split_inclusive h of [] \<Rightarrow> [] | l # _ \<Rightarrow> l)) f"

record view =
  first_active :: "string option"
  seen_archived :: "string option"
  second_active :: "string option"

fun stable_pair :: "view list \<Rightarrow> disk option" where
  "stable_pair [] = None"
| "stable_pair (v # vs) =
     (if generation (first_active v) = generation (second_active v)
      then Some \<lparr>active = first_active v, archived = seen_archived v\<rparr>
      else stable_pair vs)"

definition read_history ::
    "(string \<Rightarrow> history_entry option) \<Rightarrow> view list \<Rightarrow>
       log_error + (history_entry list \<times> read_warning list)" where
  "read_history dec views =
     rbind (ok_or (stable_pair (take 4 views)) KeepsRotating) (\<lambda>d. Inr (read_pair dec d))"

section \<open>Records and files\<close>

lemma fit_record_Inr:
  "enc e = Some line \<Longrightarrow> fit_record enc e line = Inr (e', line') \<Longrightarrow>
     enc e' = Some line' \<and> (\<exists>m. e' = with_message e m \<and> length m \<le> length (message e))"
proof (induction enc e line rule: fit_record.induct)
  case (1 enc e line)
  show ?case
  proof (cases "MAX_RECORD_BYTES < length line + 1 \<and> 32 < length (message e)")
    case True
    let ?m = "truncate_message (message e) (length (message e) div 2)"
    let ?e = "with_message e ?m"
    from True "1.prems"(2) obtain line2 where l: "enc ?e = Some line2"
      and r: "fit_record enc ?e line2 = Inr (e', line')"
      by (subst (asm) fit_record.simps) (auto simp: result_simps Let_def)
    have "length ?m \<le> length (message e)"
      using True truncate_message_shorter [of "length (message e) div 2" "message e"] by linarith
    with "1.IH" [OF True refl l r] show ?thesis
      by (force simp: with_message_def)
  next
    case False
    have "fit_record enc e line = Inr (e, line)" by (subst fit_record.simps) (simp only: False if_False)
    with "1.prems" have "e' = e" "line' = line" by simp_all
    moreover have "e = with_message e (message e)" by (simp add: with_message_def)
    ultimately show ?thesis using "1.prems"(1) by blast
  qed
qed

lemma key_with_message [simp]: "key (with_message e m) = key e"
  by (simp add: key_def with_message_def)

lemma with_message_twice [simp]: "with_message (with_message e m) n = with_message e n"
  by (simp add: with_message_def)

lemma message_with_message [simp]: "message (with_message e m) = m"
  by (simp add: with_message_def)

lemma append_history_cases:
  assumes "append_history enc d entry = Inr d'"
  obtains e body d1 where "enc e = Some body"
    and "\<exists>m. e = with_message entry m \<and> length m \<le> max (length (message entry)) 12 \<and> length m \<le> MAX_MESSAGE_BYTES"
    and "length body + 1 \<le> MAX_RECORD_BYTES" and "make_room d (body @ [newline]) = Inr d1"
    and "d' = d1\<lparr>active := Some (write_record (active d1) (body @ [newline]))\<rparr>"
proof -
  let ?m = "truncate_message (message entry) MAX_MESSAGE_BYTES"
  from assms obtain line0 e body d1 where 0: "enc (with_message entry ?m) = Some line0"
    and f: "fit_record enc (with_message entry ?m) line0 = Inr (e, body)"
    and l: "\<not> MAX_RECORD_BYTES < length (body @ [newline])" and r: "make_room d (body @ [newline]) = Inr d1"
    and d': "d' = d1\<lparr>active := Some (write_record (active d1) (body @ [newline]))\<rparr>"
    by (auto simp: append_history_def Let_def result_simps)
  have "length ?m \<le> MAX_MESSAGE_BYTES"
    using length_truncate_message [of "message entry" MAX_MESSAGE_BYTES] by (simp add: MAX_MESSAGE_BYTES_def)
  moreover have "length ?m \<le> max (length (message entry)) 12"
    using truncate_message_shorter [of MAX_MESSAGE_BYTES "message entry"]
    by (cases "length (message entry) \<le> MAX_MESSAGE_BYTES")
      (auto simp: truncate_message_def MAX_MESSAGE_BYTES_def)
  moreover have "enc e = Some body \<and> (\<exists>m. e = with_message entry m \<and> length m \<le> length ?m)"
    using fit_record_Inr [OF 0 f] by simp
  ultimately have "enc e = Some body" and
    "\<exists>m. e = with_message entry m \<and> length m \<le> max (length (message entry)) 12 \<and> length m \<le> MAX_MESSAGE_BYTES"
    by (auto intro: le_trans)
  with l r d' that show ?thesis by simp
qed

definition log_bounded :: "disk \<Rightarrow> bool" where
  "log_bounded d = (file_length (active d) \<le> MAX_LOG_BYTES \<and> file_length (archived d) \<le> MAX_LOG_BYTES)"

lemma make_room_never_missing:
  "length line \<le> MAX_RECORD_BYTES \<Longrightarrow> make_room d line \<noteq> Inl e"
  by (auto simp: make_room_def file_length_def MAX_LOG_BYTES_def MAX_RECORD_BYTES_def split: option.splits)

lemma make_room_fits:
  assumes "make_room d line = Inr d1" and "length line \<le> MAX_RECORD_BYTES" and "log_bounded d"
  shows "length (write_record (active d1) line) \<le> MAX_LOG_BYTES \<and> file_length (archived d1) \<le> MAX_LOG_BYTES"
  using assms
  by (auto simp: make_room_def log_bounded_def file_length_def write_record_def terminated_def
      MAX_LOG_BYTES_def MAX_RECORD_BYTES_def split: option.splits if_splits)

lemma append_keeps_bound:
  assumes "append_history enc d e = Inr d'" and "log_bounded d"
  shows "log_bounded d'"
  using assms(1)
proof (cases rule: append_history_cases)
  case (1 e' body d1)
  have "length (body @ [newline]) \<le> MAX_RECORD_BYTES" using 1(3) by simp
  from make_room_fits [OF 1(4) this assms(2)] show ?thesis
    by (simp add: 1(5) log_bounded_def file_length_def)
qed

lemma split_inclusive_line:
  "newline \<notin> set body \<Longrightarrow> split_inclusive (body @ [newline]) = [body @ [newline]]"
  by (induction body) auto

lemma split_inclusive_append:
  "s = [] \<or> last s = newline \<Longrightarrow> split_inclusive (s @ t) = split_inclusive s @ split_inclusive t"
proof (induction s)
  case Nil
  then show ?case by simp
next
  case (Cons c s)
  show ?case
  proof (cases "s = []")
    case True
    with Cons.prems show ?thesis by simp
  next
    case False
    with Cons have ih: "split_inclusive (s @ t) = split_inclusive s @ split_inclusive t" by auto
    have "split_inclusive s \<noteq> []" using False by (cases s) (auto split: list.splits)
    then show ?thesis by (simp add: ih split: list.splits)
  qed
qed

lemma read_lines_append:
  "read_lines dec seen ls = (es, s, n) \<Longrightarrow> read_lines dec s ms = (fs, t, k) \<Longrightarrow>
     read_lines dec seen (ls @ ms) = (es @ fs, t, n + k)"
  by (induction dec seen ls arbitrary: es n rule: read_lines.induct)
    (auto simp: Let_def split: prod.splits if_splits option.splits)

text \<open>The keys of the records a file holds, a torn last line included once it is terminated.\<close>

definition recorded :: "(string \<Rightarrow> history_entry option) \<Rightarrow> string option \<Rightarrow> entry_key set" where
  "recorded dec f = (case f of None \<Rightarrow> {} | Some s \<Rightarrow>
     (\<Union>line \<in> set (split_inclusive s) \<union> set (split_inclusive (terminated s)). key ` set_option (dec line)))"

lemma read_lines_seen:
  "read_lines dec seen ls = (es, s, n) \<Longrightarrow> s \<subseteq> seen \<union> (\<Union>line \<in> set ls. key ` set_option (dec line))"
proof (induction ls arbitrary: seen es s n)
  case Nil
  then show ?case by simp
next
  case (Cons line ls)
  consider es' n' where "read_lines dec seen ls = (es', s, n')"
    | e es' n' where "dec line = Some e" "read_lines dec (insert (key e) seen) ls = (es', s, n')"
    using Cons.prems by (auto simp: Let_def split: prod.splits if_splits option.splits)
  then show ?case
  proof cases
    case 1
    from Cons.IH [OF 1] show ?thesis by auto
  next
    case 2
    from Cons.IH [OF 2(2)] 2(1) show ?thesis by auto
  qed
qed

lemma recorded_file:
  assumes "read_file dec active_file seen f = (es, s, w)" and "file_length f \<le> MAX_LOG_BYTES"
  shows "s \<subseteq> seen \<union> recorded dec f"
proof (cases f)
  case None
  with assms show ?thesis by (simp add: read_file_def)
next
  case (Some c)
  then have "clip c = c" using assms(2) by (simp add: clip_def file_length_def)
  then obtain n where "read_lines dec seen (split_inclusive c) = (es, s, n)"
    using assms(1) Some by (auto simp: read_file_def Let_def split: prod.splits)
  from read_lines_seen [OF this] Some show ?thesis by (auto simp: recorded_def)
qed

text \<open>The active file without its newest record.\<close>

definition without_newest :: "disk \<Rightarrow> string \<Rightarrow> disk" where
  "without_newest d g = d\<lparr>active := Some g\<rparr>"

lemma read_pair_append:
  assumes len: "length (g @ body @ [newline]) \<le> MAX_LOG_BYTES" "length body + 1 \<le> MAX_RECORD_BYTES"
    and arch: "file_length (archived d) \<le> MAX_LOG_BYTES"
    and g: "g = [] \<or> last g = newline" and body: "newline \<notin> set body" "\<not> list_all is_ascii_whitespace body"
    and dec: "dec (body @ [newline]) = Some e"
    and fresh: "key e \<notin> recorded dec (archived d)"
      "key e \<notin> (\<Union>line \<in> set (split_inclusive g). key ` set_option (dec line))"
  shows "fst (read_pair dec (d\<lparr>active := Some (g @ body @ [newline])\<rparr>)) =
    fst (read_pair dec (without_newest d g)) @ [e]"
proof -
  obtain old seen w where old: "read_file dec False {} (archived d) = (old, seen, w)"
    by (metis prod_cases3)
  obtain es s n where new: "read_lines dec seen (split_inclusive g) = (es, s, n)"
    by (metis prod_cases3)
  have "s \<subseteq> seen \<union> (\<Union>line \<in> set (split_inclusive g). key ` set_option (dec line))"
    by (rule read_lines_seen [OF new])
  moreover have "seen \<subseteq> recorded dec (archived d)" using recorded_file [OF old arch] by simp
  ultimately have k: "key e \<notin> s" using fresh by blast
  have "read_lines dec s [body @ [newline]] = ([e], insert (key e) s, 0)"
    using k len(2) body(2) dec by (simp add: newline_def)
  from read_lines_append [OF new this]
  have "read_lines dec seen (split_inclusive (g @ body @ [newline])) = (es @ [e], insert (key e) s, n)"
    using g body(1) by (simp add: split_inclusive_append split_inclusive_line)
  moreover have "clip (g @ body @ [newline]) = g @ body @ [newline]" and "clip g = g"
    using len(1) by (simp_all add: clip_def)
  ultimately show ?thesis using old new len(1)
    by (simp add: read_pair_def without_newest_def read_file_def)
qed

lemma last_terminated: "terminated s = [] \<or> last (terminated s) = newline"
  by (auto simp: terminated_def)

lemma append_then_read_pair:
  assumes json: "\<And>x s. enc x = Some s \<Longrightarrow>
      newline \<notin> set s \<and> \<not> list_all is_ascii_whitespace s \<and> dec (s @ [newline]) = Some x"
    and app: "append_history enc d entry = Inr d'" and bounded: "log_bounded d"
    and fresh: "key entry \<notin> recorded dec (active d) \<union> recorded dec (archived d)"
  shows "\<exists>g e m. fst (read_pair dec d') = fst (read_pair dec (without_newest d' g)) @ [e] \<and>
    e = with_message entry m \<and> length m \<le> MAX_MESSAGE_BYTES \<and>
    (archived d' = archived d \<and> g = (case active d of None \<Rightarrow> [] | Some s \<Rightarrow> terminated s) \<or>
     archived d' = active d \<and> g = [])"
  using app
proof (cases rule: append_history_cases)
  case (1 e body d1)
  let ?g = "case active d1 of None \<Rightarrow> [] | Some s \<Rightarrow> terminated s"
  let ?line = "body @ [newline]"
  from 1(2) obtain m where m: "e = with_message entry m" "length m \<le> MAX_MESSAGE_BYTES" by blast
  have ll: "length ?line \<le> MAX_RECORD_BYTES" using 1(3) by simp
  have w: "write_record (active d1) ?line = ?g @ ?line" by (simp add: write_record_def split: option.splits)
  note fits = make_room_fits [OF 1(4) ll bounded, unfolded w]
  have d1: "d1 = d \<or> active d1 = None \<and> archived d1 = active d"
    using 1(4) by (auto simp: make_room_def split: if_splits option.splits)
  have k: "key e = key entry" using m by simp
  have "fst (read_pair dec (d1\<lparr>active := Some (?g @ ?line)\<rparr>)) =
      fst (read_pair dec (without_newest d1 ?g)) @ [e]"
  proof (rule read_pair_append)
    show "length (?g @ body @ [newline]) \<le> MAX_LOG_BYTES" "file_length (archived d1) \<le> MAX_LOG_BYTES"
      using fits by simp_all
    show "length body + 1 \<le> MAX_RECORD_BYTES" by (rule 1(3))
    show "?g = [] \<or> last ?g = newline" by (auto simp: last_terminated split: option.splits)
    show "newline \<notin> set body" "\<not> list_all is_ascii_whitespace body" "dec (body @ [newline]) = Some e"
      using json [OF 1(1)] by simp_all
    show "key e \<notin> recorded dec (archived d1)" using d1 fresh k by auto
    show "key e \<notin> (\<Union>line \<in> set (split_inclusive ?g). key ` set_option (dec line))"
      using d1 fresh k by (auto simp: recorded_def split: option.splits)
  qed
  moreover have "without_newest d' ?g = without_newest d1 ?g" by (simp add: 1(5) without_newest_def)
  moreover have "d' = d1\<lparr>active := Some (?g @ ?line)\<rparr>" using 1(5) w by simp
  moreover from this d1 have "archived d' = archived d \<and> ?g = (case active d of None \<Rightarrow> [] | Some s \<Rightarrow> terminated s) \<or>
      archived d' = active d \<and> ?g = []" by auto
  ultimately show ?thesis using m by metis
qed

section \<open>Properties\<close>

text \<open>
  Appending keeps both retained files within 2 MiB, whatever the entry, and
  rotates before it would not: the renamed file always exists, so an append fails only when
  the entry cannot be serialized or its metadata alone exceeds the record budget.
\<close>

theorem append_stays_bounded:
  assumes "log_bounded d"
  shows "case append_history enc d e of
      Inr d' \<Rightarrow> log_bounded d'
    | Inl err \<Rightarrow> err = NotSerialized \<or> err = RecordTooLarge"
proof (cases "append_history enc d e")
  case (Inr d')
  with append_keeps_bound [OF Inr assms] show ?thesis by simp
next
  case (Inl err)
  have fit: "fit_record enc x l = Inl err' \<Longrightarrow> err' = NotSerialized" for x l err'
    by (induction enc x l rule: fit_record.induct)
      (subst (asm) (2) fit_record.simps, auto simp: result_simps Let_def split: if_splits)
  have "err = NotSerialized \<or> err = RecordTooLarge"
    using Inl by (auto simp: append_history_def Let_def result_simps make_room_never_missing dest: fit)
  with Inl show ?thesis by simp
qed

definition sample_entry :: history_entry where
  "sample_entry = new_entry ''d'' (sample_event 1 ''f3'')"

definition sample_enc :: "history_entry \<Rightarrow> string option" where
  "sample_enc e = (if e = sample_entry then Some ''{}'' else None)"

definition sample_dec :: "string \<Rightarrow> history_entry option" where
  "sample_dec s = (if s = ''{}'' @ [newline] then Some sample_entry else None)"

definition torn_disk :: disk where
  "torn_disk = \<lparr>active = Some ''{'', archived = None\<rparr>"

lemma torn_disk_bounded: "log_bounded torn_disk"
  by (simp add: log_bounded_def torn_disk_def file_length_def MAX_LOG_BYTES_def)

lemma torn_disk_append:
  "append_history sample_enc torn_disk sample_entry = Inr \<lparr>active = Some (''{'' @ [newline] @ ''{}'' @ [newline]), archived = None\<rparr>"
proof -
  have "truncate_message (message sample_entry) MAX_MESSAGE_BYTES = message sample_entry"
    by (simp add: truncate_message_def sample_entry_def new_entry_def sample_event_def Let_def MAX_MESSAGE_BYTES_def)
  moreover have "with_message sample_entry (message sample_entry) = sample_entry"
    by (simp add: with_message_def)
  moreover have "fit_record sample_enc sample_entry ''{}'' = Inr (sample_entry, ''{}'')"
    by (subst fit_record.simps) (simp add: MAX_RECORD_BYTES_def)
  ultimately show ?thesis
    by (simp add: append_history_def sample_enc_def MAX_RECORD_BYTES_def make_room_def torn_disk_def
        file_length_def MAX_LOG_BYTES_def write_record_def terminated_def newline_def)
qed

theorem append_stays_bounded_witness:
  "log_bounded \<lparr>active = Some (''{'' @ [newline] @ ''{}'' @ [newline]), archived = None\<rparr>"
  using append_stays_bounded [OF torn_disk_bounded, of sample_enc sample_entry] by (simp add: torn_disk_append)

text \<open>
  An appended event is read back as the newest entry, with its message cut to
  the limit at most, and behind it everything the retained files held: a rotation drops only
  the older file, and a torn last write never swallows the new record.
\<close>

theorem append_then_read:
  assumes "\<And>x s. enc x = Some s \<Longrightarrow>
      newline \<notin> set s \<and> \<not> list_all is_ascii_whitespace s \<and> dec (s @ [newline]) = Some x"
    and "append_history enc d entry = Inr d'" and "log_bounded d"
    and "key entry \<notin> recorded dec (active d) \<union> recorded dec (archived d)"
  shows "\<exists>g e m. fst (read_pair dec d') = fst (read_pair dec (without_newest d' g)) @ [e] \<and>
    e = with_message entry m \<and> length m \<le> MAX_MESSAGE_BYTES \<and>
    (archived d' = archived d \<and> g = (case active d of None \<Rightarrow> [] | Some s \<Rightarrow> terminated s) \<or>
     archived d' = active d \<and> g = [])"
  by (rule append_then_read_pair [OF assms(1,2,3,4)])

theorem append_then_read_witness:
  "\<exists>es m. fst (read_pair sample_dec \<lparr>active = Some (''{'' @ [newline] @ ''{}'' @ [newline]), archived = None\<rparr>)
     = es @ [with_message sample_entry m]"
proof -
  have json: "newline \<notin> set s \<and> \<not> list_all is_ascii_whitespace s \<and> sample_dec (s @ [newline]) = Some x"
    if "sample_enc x = Some s" for x s
    using that by (auto simp: sample_enc_def sample_dec_def newline_def is_ascii_whitespace_def byte_def split: if_splits)
  have "key sample_entry \<notin> recorded sample_dec (active torn_disk) \<union> recorded sample_dec (archived torn_disk)"
    by (simp add: recorded_def torn_disk_def terminated_def sample_dec_def newline_def)
  from append_then_read [OF json torn_disk_append torn_disk_bounded this] show ?thesis by metis
qed

end
