(* ===== verification/Status.thy ===== *)
theory Status
  imports Samples
begin

text \<open>
  Status entries and events of the engine, \<open>crates/fwm-core/src/engine/state.rs\<close>. Every rule
  handed to a background task carries the generation it was created with; what the task
  reports counts only while the entry still has that generation. The shared \<open>HashMap\<close> of
  entries is an association list whose order is the iteration order, and \<open>now\<close> is the
  clock's reading. A connection key stands for its JSON text.
\<close>

section \<open>Entries\<close>

text \<open>
  The identity of an SSH session. The code writes these tuples as JSON texts, which differ
  when the tuples do; the last string of a side is the fingerprint of its SSH route.
\<close>

datatype connection_key =
    GroupKey server_profile retry_policy "string option" string
  | RelayKey server_profile string server_profile string retry_policy string

record status_entry =
  se_generation :: u64
  se_key :: connection_key
  se_spec :: forward_spec
  se_status :: forward_status

type_synonym statuses = "(string \<times> status_entry) list"

record shared =
  entries :: statuses
  last_sequence :: u64
  published :: "engine_event list"

record rule =
  ru_spec :: forward_spec
  ru_server_name :: string
  ru_generation :: u64

definition entry_of :: "shared \<Rightarrow> string \<Rightarrow> status_entry option" where
  "entry_of s i = map_of (entries s) i"

text \<open>\<open>get_mut\<close> followed by an assignment through the reference.\<close>

definition put_entry :: "string \<Rightarrow> status_entry \<Rightarrow> shared \<Rightarrow> shared" where
  "put_entry i e s = s\<lparr>entries := AList.update i e (entries s)\<rparr>"

section \<open>Events\<close>

definition emit_scoped ::
    "u64 \<Rightarrow> string option \<Rightarrow> event_context option \<Rightarrow> string \<Rightarrow> shared \<Rightarrow> shared" where
  "emit_scoped now i ctx msg s =
     (let n = last_sequence s + 1 in
      s\<lparr>last_sequence := n,
        published := published s @
          [\<lparr>ev_context = ctx, ev_server_id = Option.bind ctx ec_server_id, ev_sequence = n,
            ev_timestamp_ms = now, ev_forward_id = i, ev_message = msg\<rparr>]\<rparr>)"

definition emit_server :: "u64 \<Rightarrow> server_profile \<Rightarrow> string \<Rightarrow> shared \<Rightarrow> shared" where
  "emit_server now p msg =
     emit_scoped now None
       (Some \<lparr>ec_forward_name = None, ec_server_id = Some (sp_id p), ec_server_name = Some (sp_name p),
              ec_group = None, ec_target_server_id = None, ec_target_server_name = None\<rparr>) msg"

definition current_entry :: "rule \<Rightarrow> shared \<Rightarrow> status_entry option" where
  "current_entry r s =
     (case entry_of s (fs_id (ru_spec r)) of
        None \<Rightarrow> None
      | Some e \<Rightarrow> if se_generation e = ru_generation r then Some e else None)"

definition emit :: "u64 \<Rightarrow> rule \<Rightarrow> string \<Rightarrow> shared \<Rightarrow> shared" where
  "emit now r msg s =
     (let entry = current_entry r s;
          spec = (case entry of None \<Rightarrow> ru_spec r | Some e \<Rightarrow> se_spec e)
      in emit_scoped now (Some (fs_id spec))
           (Some \<lparr>ec_forward_name = Some (fs_name spec), ec_server_id = Some (fs_server_id spec),
                  ec_server_name = Some (case entry of None \<Rightarrow> ru_server_name r
                                                 | Some e \<Rightarrow> st_server (se_status e)),
                  ec_group = fs_group spec,
                  ec_target_server_id = target_server_id (fs_tunnel spec),
                  ec_target_server_name = Option.bind entry (\<lambda>e. st_target_server (se_status e))\<rparr>) msg s)"

section \<open>What a task reports\<close>

fun state_name :: "runtime_state \<Rightarrow> string" where
  "state_name RStopped = ''Stopped''"
| "state_name Starting = ''Starting''"
| "state_name Established = ''Established''"
| "state_name Backoff = ''Backoff''"
| "state_name NeedsAttention = ''NeedsAttention''"
| "state_name Stopping = ''Stopping''"
| "state_name Unverified = ''Unverified''"

definition update ::
    "u64 \<Rightarrow> rule \<Rightarrow> runtime_state \<Rightarrow> string option \<Rightarrow> u32 \<Rightarrow> u64 option \<Rightarrow> shared \<Rightarrow> shared" where
  "update now r st error retries next_at s =
     (case current_entry r s of
        None \<Rightarrow> s
      | Some e \<Rightarrow>
          (let changed = (st_state (se_status e) \<noteq> st \<or> st_last_error (se_status e) \<noteq> error);
               s' = put_entry (fs_id (ru_spec r))
                      (e\<lparr>se_status := (se_status e)\<lparr>st_state := st, st_last_error := error,
                           st_retry_count := retries, st_next_retry_unix_ms := next_at\<rparr>\<rparr>) s
           in if changed
              then emit now r (case error of Some x \<Rightarrow> state_name st @ '': '' @ x | None \<Rightarrow> state_name st) s'
              else s'))"

definition count_connections :: "(u64 \<Rightarrow> u64) \<Rightarrow> rule \<Rightarrow> shared \<Rightarrow> shared" where
  "count_connections f r s =
     (case current_entry r s of
        None \<Rightarrow> s
      | Some e \<Rightarrow> put_entry (fs_id (ru_spec r))
          (e\<lparr>se_status := (se_status e)\<lparr>st_active_connections := f (st_active_connections (se_status e))\<rparr>\<rparr>) s)"

definition connection_opened :: "rule \<Rightarrow> shared \<Rightarrow> shared" where
  "connection_opened = count_connections (\<lambda>n. n + 1)"

text \<open>Dropping the guard that \<open>connection_opened\<close> returned.\<close>

definition connection_closed :: "rule \<Rightarrow> shared \<Rightarrow> shared" where
  "connection_closed = count_connections (\<lambda>n. saturating_sub n 1)"

definition connection_error :: "u64 \<Rightarrow> rule \<Rightarrow> string \<Rightarrow> shared \<Rightarrow> shared" where
  "connection_error now r err = emit now r (''target connection failed: '' @ err)"

section \<open>Any interleaving of reports\<close>

datatype report =
    Updated rule runtime_state "string option" u32 "u64 option"
  | Opened rule
  | Closed rule
  | Failed rule string
  | Server_message server_profile string

fun apply_report :: "u64 \<Rightarrow> report \<Rightarrow> shared \<Rightarrow> shared" where
  "apply_report now (Updated r st err n t) = update now r st err n t"
| "apply_report now (Opened r) = connection_opened r"
| "apply_report now (Closed r) = connection_closed r"
| "apply_report now (Failed r err) = connection_error now r err"
| "apply_report now (Server_message p msg) = emit_server now p msg"

definition run_reports :: "(u64 \<times> report) list \<Rightarrow> shared \<Rightarrow> shared" where
  "run_reports rs s = foldl (\<lambda>s (now, r). apply_report now r s) s rs"

fun report_rule :: "report \<Rightarrow> rule option" where
  "report_rule (Updated r st err n t) = Some r"
| "report_rule (Opened r) = Some r"
| "report_rule (Closed r) = Some r"
| "report_rule (Failed r err) = Some r"
| "report_rule (Server_message p msg) = None"

text \<open>A report is stale for an entry when it comes from another rule or another generation.\<close>

definition stale :: "string \<Rightarrow> status_entry option \<Rightarrow> report \<Rightarrow> bool" where
  "stale i entry rep = (case (report_rule rep, entry) of
       (None, _) \<Rightarrow> True
     | (_, None) \<Rightarrow> True
     | (Some r, Some e) \<Rightarrow> fs_id (ru_spec r) \<noteq> i \<or> ru_generation r \<noteq> se_generation e)"

lemma entries_emit_scoped [simp]: "entries (emit_scoped now i ctx msg s) = entries s"
  by (simp add: emit_scoped_def Let_def)

lemma entries_emit [simp]: "entries (emit now r msg s) = entries s"
  by (simp add: emit_def Let_def)

lemma entry_of_emit [simp]: "entry_of (emit now r msg s) i = entry_of s i"
  by (simp add: entry_of_def)

lemma entry_of_put [simp]: "entry_of (put_entry i e s) j = (if j = i then Some e else entry_of s j)"
  by (simp add: entry_of_def put_entry_def update_conv')

lemma current_entry_Some:
  "current_entry r s = Some e \<longleftrightarrow>
     entry_of s (fs_id (ru_spec r)) = Some e \<and> se_generation e = ru_generation r"
  by (auto simp: current_entry_def split: option.splits)

lemma entry_of_update:
  "entry_of (update now r st err n t s) i =
     (case current_entry r s of
        Some e \<Rightarrow> if i = fs_id (ru_spec r)
          then Some (e\<lparr>se_status := (se_status e)\<lparr>st_state := st, st_last_error := err,
                 st_retry_count := n, st_next_retry_unix_ms := t\<rparr>\<rparr>)
          else entry_of s i
      | None \<Rightarrow> entry_of s i)"
  by (simp add: update_def Let_def split: option.splits)

lemma entry_of_count:
  "entry_of (count_connections f r s) i =
     (case current_entry r s of
        Some e \<Rightarrow> if i = fs_id (ru_spec r)
          then Some (e\<lparr>se_status := (se_status e)\<lparr>st_active_connections := f (st_active_connections (se_status e))\<rparr>\<rparr>)
          else entry_of s i
      | None \<Rightarrow> entry_of s i)"
  by (simp add: count_connections_def split: option.splits)

lemma entry_of_connection_error [simp]: "entry_of (connection_error now r err s) i = entry_of s i"
  by (simp add: connection_error_def)

lemma entry_of_emit_server [simp]: "entry_of (emit_server now p msg s) i = entry_of s i"
  by (simp add: emit_server_def entry_of_def)

lemma stale_not_current:
  assumes "stale i (entry_of s i) rep" and "report_rule rep = Some r" and "current_entry r s = Some e"
  shows "fs_id (ru_spec r) \<noteq> i"
proof
  assume "fs_id (ru_spec r) = i"
  with assms(3) have "entry_of s i = Some e" "se_generation e = ru_generation r"
    by (simp_all add: current_entry_Some)
  with assms(1,2) \<open>fs_id (ru_spec r) = i\<close> show False by (simp add: stale_def)
qed

lemma stale_update:
  assumes "\<And>e. current_entry r s = Some e \<Longrightarrow> fs_id (ru_spec r) \<noteq> i"
  shows "entry_of (update now r st err n t s) i = entry_of s i"
    and "entry_of (count_connections f r s) i = entry_of s i"
  using assms by (cases "current_entry r s"; simp add: entry_of_update entry_of_count)+

lemma stale_report_keeps_entry:
  assumes "stale i (entry_of s i) rep"
  shows "entry_of (apply_report now rep s) i = entry_of s i"
proof (cases "report_rule rep")
  case None
  then show ?thesis by (cases rep) simp_all
next
  case (Some r)
  note other = stale_not_current [OF assms Some]
  from Some show ?thesis
    by (cases rep) (simp_all add: stale_update [OF other] connection_opened_def connection_closed_def)
qed

abbreviation identity :: "status_entry option \<Rightarrow> (u64 \<times> connection_key \<times> forward_spec) option" where
  "identity e \<equiv> map_option (\<lambda>e. (se_generation e, se_key e, se_spec e)) e"

lemma identity_update: "identity (entry_of (update now r st err n t s) i) = identity (entry_of s i)"
proof (cases "current_entry r s")
  case (Some e)
  then have "entry_of s (fs_id (ru_spec r)) = Some e" by (simp add: current_entry_Some)
  with Some show ?thesis by (cases "i = fs_id (ru_spec r)") (simp_all add: entry_of_update)
qed (simp add: entry_of_update)

lemma identity_count: "identity (entry_of (count_connections f r s) i) = identity (entry_of s i)"
proof (cases "current_entry r s")
  case (Some e)
  then have "entry_of s (fs_id (ru_spec r)) = Some e" by (simp add: current_entry_Some)
  with Some show ?thesis by (cases "i = fs_id (ru_spec r)") (simp_all add: entry_of_count)
qed (simp add: entry_of_count)

lemma report_keeps_identity: "identity (entry_of (apply_report now rep s) i) = identity (entry_of s i)"
  by (cases rep)
    (simp_all only: apply_report.simps identity_update identity_count connection_opened_def
      connection_closed_def entry_of_connection_error entry_of_emit_server)

lemma run_reports_simps [simp]:
  "run_reports [] s = s" "run_reports ((now, r) # rs) s = run_reports rs (apply_report now r s)"
  by (simp_all add: run_reports_def)

lemma run_reports_stale:
  "(\<And>now r. (now, r) \<in> set rs \<Longrightarrow> stale i (entry_of s i) r) \<Longrightarrow> entry_of (run_reports rs s) i = entry_of s i"
proof (induction rs arbitrary: s)
  case Nil
  then show ?case by simp
next
  case (Cons nr rs)
  obtain now r where nr: "nr = (now, r)" by (cases nr)
  have "stale i (entry_of s i) r" using Cons.prems [of now r] nr by simp
  then have e: "entry_of (apply_report now r s) i = entry_of s i" by (rule stale_report_keeps_entry)
  have "entry_of (run_reports rs (apply_report now r s)) i = entry_of (apply_report now r s) i"
    by (rule Cons.IH) (use Cons.prems in \<open>auto simp: e\<close>)
  with e nr show ?case by simp
qed

section \<open>Sequence numbers\<close>

definition sequences :: "shared \<Rightarrow> u64 list" where
  "sequences s = map ev_sequence (published s)"

lemma emit_scoped_sequences:
  "sequences (emit_scoped now i ctx msg s) = sequences s @ [last_sequence s + 1]"
  "last_sequence (emit_scoped now i ctx msg s) = last_sequence s + 1"
  by (simp_all add: sequences_def emit_scoped_def Let_def)

lemma put_entry_sequences [simp]:
  "sequences (put_entry i e s) = sequences s" "last_sequence (put_entry i e s) = last_sequence s"
  by (simp_all add: sequences_def put_entry_def)

lemma apply_report_sequences:
  "sequences (apply_report now rep s) = sequences s \<and> last_sequence (apply_report now rep s) = last_sequence s \<or>
   sequences (apply_report now rep s) = sequences s @ [last_sequence s + 1] \<and>
     last_sequence (apply_report now rep s) = last_sequence s + 1"
  by (cases rep)
    (auto simp: update_def count_connections_def connection_opened_def connection_closed_def emit_def
      connection_error_def emit_server_def Let_def emit_scoped_sequences split: option.splits)

lemma run_reports_sequences:
  "\<exists>n. sequences (run_reports rs s) = sequences s @ map (\<lambda>k. last_sequence s + of_nat k) [1..<Suc n] \<and>
     last_sequence (run_reports rs s) = last_sequence s + of_nat n \<and> n \<le> length rs"
proof (induction rs arbitrary: s)
  case Nil
  then show ?case by (intro exI [of _ 0]) simp
next
  case (Cons nr rs)
  obtain now r where nr: "nr = (now, r)" by (cases nr)
  let ?t = "apply_report now r s"
  obtain n where n: "sequences (run_reports rs ?t) = sequences ?t @ map (\<lambda>k. last_sequence ?t + of_nat k) [1..<Suc n]"
      "last_sequence (run_reports rs ?t) = last_sequence ?t + of_nat n" "n \<le> length rs"
    using Cons.IH [of ?t] by blast
  from apply_report_sequences [of now r s] show ?case
  proof
    assume "sequences ?t = sequences s \<and> last_sequence ?t = last_sequence s"
    with n nr show ?thesis by (intro exI [of _ n]) simp
  next
    assume t: "sequences ?t = sequences s @ [last_sequence s + 1] \<and> last_sequence ?t = last_sequence s + 1"
    have "[1..<Suc (Suc n)] = 1 # map Suc [1..<Suc n]" by (simp add: map_Suc_upt upt_conv_Cons del: upt_Suc)
    then have "map (\<lambda>k. last_sequence s + of_nat k) [1..<Suc (Suc n)] =
        (last_sequence s + 1) # map (\<lambda>k. last_sequence ?t + of_nat k) [1..<Suc n]"
      using t by (simp add: comp_def add.assoc)
    with t n nr show ?thesis by (intro exI [of _ "Suc n"]) (simp add: add.assoc del: upt_Suc)
  qed
qed

section \<open>Properties\<close>

text \<open>
  Whatever superseded tasks report, and in whatever interleaving, a status entry
  they do not belong to keeps every field, and a deleted entry never comes back.
\<close>

theorem stale_reports_harmless:
  assumes "\<And>now r. (now, r) \<in> set rs \<Longrightarrow> stale i (entry_of s i) r"
  shows "entry_of (run_reports rs s) i = entry_of s i"
  by (rule run_reports_stale [OF assms])

definition sample_status :: "forward_spec \<Rightarrow> forward_status" where
  "sample_status f = \<lparr>st_id = fs_id f, st_name = fs_name f, st_group = None, st_server = ''alpha'',
     st_target_server = None, st_kind = kind (fs_tunnel f), st_listen = [], st_target = None,
     st_desired_state = Running, st_state = Starting, st_retry_count = 0, st_next_retry_unix_ms = None,
     st_last_error = None, st_active_connections = 7\<rparr>"

definition sample_shared :: shared where
  "sample_shared = \<lparr>entries = [(''f1'', \<lparr>se_generation = 2,
       se_key = GroupKey sample_server_a default_retry_policy None [], se_spec = sample_local,
       se_status = sample_status sample_local\<rparr>)], last_sequence = 0, published = []\<rparr>"

definition sample_rule :: "u64 \<Rightarrow> rule" where
  "sample_rule g = \<lparr>ru_spec = sample_local, ru_server_name = ''alpha'', ru_generation = g\<rparr>"

theorem stale_reports_harmless_witness:
  "entry_of (run_reports [(5, Updated (sample_rule 1) Established None 0 None), (6, Closed (sample_rule 1))]
      sample_shared) ''f1'' = entry_of sample_shared ''f1''"
  by (rule stale_reports_harmless)
    (auto simp: stale_def sample_rule_def sample_shared_def entry_of_def split: option.splits)

text \<open>
  Published events are numbered without gaps or repeats in the order they were
  published, whatever tasks publish them, and no report ever changes an entry's generation,
  connection identity or rule.
\<close>

theorem events_numbered:
  "(\<exists>n \<le> length rs. sequences (run_reports rs s) =
      sequences s @ map (\<lambda>k. last_sequence s + of_nat k) [1..<Suc n]) \<and>
   map_option (\<lambda>e. (se_generation e, se_key e, se_spec e)) (entry_of (apply_report now rep s) i) =
     map_option (\<lambda>e. (se_generation e, se_key e, se_spec e)) (entry_of s i)"
  using run_reports_sequences [of rs s] report_keeps_identity by blast

end
