(* ===== verification/Engine.thy ===== *)
theory Engine
  imports Status Selection
begin

text \<open>
  The engine of \<open>crates/fwm-core/src/engine/mod.rs\<close> and \<open>engine/lifecycle.rs\<close>: which SSH
  sessions are supervised, which rules each of them serves, and what a configuration change,
  a retry, a restart or a shutdown does to them. Background tasks are numbered in the order
  they are spawned; \<open>finished\<close> says which have ended by themselves, \<open>cancelled\<close> lists those
  told to end. \<open>wakes\<close> counts the notifications of a \<open>watch\<close> channel. \<open>route\<close> is the
  fingerprint of a server's resolved SSH route when it is asked for. The hash maps of groups
  and relays are association lists in iteration order.
\<close>

section \<open>State\<close>

record group =
  g_profile :: server_profile
  g_policy :: retry_policy
  g_desired :: "rule list"
  g_wakes :: nat
  g_task :: nat

record relay_group =
  rg_source :: server_profile
  rg_target :: server_profile
  rg_policy :: retry_policy
  rg_key :: connection_key
  rg_desired :: rule
  rg_wakes :: nat
  rg_task :: nat

record engine =
  en_groups :: "(connection_key \<times> group) list"
  en_relays :: "(string \<times> relay_group) list"
  en_retired :: "nat list"
  en_shared :: shared
  en_generation :: u64
  en_fps :: "string \<rightharpoonup> server_profile \<times> string"
  en_next_task :: nat
  en_cancelled :: "nat list"

datatype engine_error =
    InvalidConfig config_error | NoServer | NoTargetServer | NoFingerprint | NoForward string
  | GenerationExhausted | NoSelection select_error

definition new_engine :: engine where
  "new_engine = \<lparr>en_groups = [], en_relays = [], en_retired = [],
     en_shared = \<lparr>entries = [], last_sequence = 0, published = []\<rparr>, en_generation = 0,
     en_fps = Map.empty, en_next_task = 0, en_cancelled = []\<rparr>"

definition runtime_equal :: "forward_spec \<Rightarrow> forward_spec \<Rightarrow> bool" where
  "runtime_equal a b =
     (fs_id a = fs_id b \<and> fs_server_id a = fs_server_id b \<and> fs_tunnel a = fs_tunnel b \<and>
      fs_desired_state a = fs_desired_state b \<and> fs_connection_mode a = fs_connection_mode b \<and>
      fs_remote_cleanup a = fs_remote_cleanup b)"

definition relay_target_name :: "config \<Rightarrow> forward_spec \<Rightarrow> string option" where
  "relay_target_name c f =
     map_option sp_name (Option.bind (target_server_id (fs_tunnel f)) (server c))"

definition find_server :: "config \<Rightarrow> string \<Rightarrow> server_profile option" where
  "find_server c i = List.find (\<lambda>s. sp_id s = i) (servers c)"

section \<open>Fingerprints and connection keys\<close>

definition unnamed :: "server_profile \<Rightarrow> server_profile" where
  "unnamed p = p\<lparr>sp_name := []\<rparr>"

definition refresh_fingerprint ::
    "(server_profile \<Rightarrow> string) \<Rightarrow> server_profile \<Rightarrow> (string \<rightharpoonup> server_profile \<times> string) \<Rightarrow>
       (string \<rightharpoonup> server_profile \<times> string)" where
  "refresh_fingerprint route s fps =
     (if (case fps (sp_id s) of None \<Rightarrow> True | Some (previous, _) \<Rightarrow> previous \<noteq> unnamed s)
      then fps(sp_id s \<mapsto> (unnamed s, route s)) else fps)"

definition refresh_fingerprints ::
    "(server_profile \<Rightarrow> string) \<Rightarrow> config \<Rightarrow> (string \<rightharpoonup> server_profile \<times> string) \<Rightarrow>
       (string \<rightharpoonup> server_profile \<times> string)" where
  "refresh_fingerprints route c fps =
     foldl (\<lambda>m s. refresh_fingerprint route s m) (fps |` (sp_id ` set (servers c)))
       (filter (\<lambda>s. \<exists>f \<in> set (forwards c). references_server f (sp_id s)) (servers c))"

definition dedicated_id :: "forward_spec \<Rightarrow> string option" where
  "dedicated_id f =
     (if fs_connection_mode f = Dedicated \<or> fs_remote_cleanup f = Verified then Some (fs_id f) else None)"

record placed =
  pl_key :: connection_key
  pl_server :: server_profile
  pl_target :: "server_profile option"
  pl_rule :: rule

definition rule_key ::
    "config \<Rightarrow> (string \<rightharpoonup> server_profile \<times> string) \<Rightarrow> forward_spec \<Rightarrow>
       engine_error + (connection_key \<times> server_profile \<times> server_profile option)" where
  "rule_key c fps f =
     rbind (ok_or (find_server c (fs_server_id f)) NoServer) (\<lambda>s.
     case target_server_id (fs_tunnel f) of
       Some tid \<Rightarrow>
         rbind (ok_or (find_server c tid) NoTargetServer) (\<lambda>t.
         rbind (ok_or (fps (sp_id s)) NoFingerprint) (\<lambda>(_, sfp).
         rbind (ok_or (fps tid) NoFingerprint) (\<lambda>(_, tfp).
         Inr (RelayKey (unnamed s) sfp (unnamed t) tfp (retry (cfg_defaults c)) (fs_id f), s, Some t))))
     | None \<Rightarrow>
         rbind (ok_or (fps (sp_id s)) NoFingerprint) (\<lambda>(_, fp).
         Inr (GroupKey (unnamed s) (retry (cfg_defaults c)) (dedicated_id f) fp, s, None)))"

section \<open>Tracking a rule\<close>

definition initial_state :: "forward_spec \<Rightarrow> status_entry option \<Rightarrow> runtime_state" where
  "initial_state f existing =
     (if fs_desired_state f = Stopped \<and>
         (case existing of None \<Rightarrow> False
          | Some e \<Rightarrow> st_state (se_status e) \<notin> {RStopped, NeedsAttention, Backoff})
      then Stopping
      else if fs_desired_state f = Stopped then RStopped else Starting)"

definition initial_status ::
    "config \<Rightarrow> forward_spec \<Rightarrow> server_profile \<Rightarrow> runtime_state \<Rightarrow> forward_status" where
  "initial_status c f s st =
     \<lparr>st_id = fs_id f, st_name = fs_name f, st_group = fs_group f, st_server = sp_name s,
      st_target_server = relay_target_name c f, st_kind = kind (fs_tunnel f),
      st_listen = show_socket_addr (listen (fs_tunnel f)),
      st_target = map_option endpoint_to_string (target (fs_tunnel f)),
      st_desired_state = fs_desired_state f, st_state = st, st_retry_count = 0,
      st_next_retry_unix_ms = None, st_last_error = None, st_active_connections = 0\<rparr>"

definition keeps_running :: "status_entry option \<Rightarrow> forward_spec \<Rightarrow> connection_key \<Rightarrow> bool" where
  "keeps_running existing f k =
     (case existing of None \<Rightarrow> False | Some e \<Rightarrow> runtime_equal (se_spec e) f \<and> se_key e = k)"

definition relabel :: "config \<Rightarrow> forward_spec \<Rightarrow> server_profile \<Rightarrow> status_entry \<Rightarrow> status_entry" where
  "relabel c f s e = e
     \<lparr>se_spec := f,
      se_status := (se_status e)\<lparr>st_name := fs_name f, st_group := fs_group f, st_server := sp_name s,
                                 st_target_server := relay_target_name c f\<rparr>\<rparr>"

definition track_rule ::
    "config \<Rightarrow> forward_spec \<Rightarrow> server_profile \<Rightarrow> connection_key \<Rightarrow> engine \<Rightarrow> engine \<times> u64" where
  "track_rule c f s k e =
     (let existing = entry_of (en_shared e) (fs_id f) in
      if keeps_running existing f k
      then (e\<lparr>en_shared := put_entry (fs_id f) (relabel c f s (the existing)) (en_shared e)\<rparr>,
            se_generation (the existing))
      else (let n = en_generation e + 1 in
        (e\<lparr>en_generation := n,
           en_shared := put_entry (fs_id f)
             \<lparr>se_generation = n, se_key = k, se_spec = f,
              se_status = initial_status c f s (initial_state f existing)\<rparr> (en_shared e)\<rparr>, n)))"

definition place_rule :: "config \<Rightarrow> engine \<Rightarrow> forward_spec \<Rightarrow> engine_error + (engine \<times> placed)" where
  "place_rule c e f =
     rbind (rule_key c (en_fps e) f) (\<lambda>(k, s, t).
     let (e', n) = track_rule c f s k e in
     Inr (e', \<lparr>pl_key = k, pl_server = s, pl_target = t,
               pl_rule = \<lparr>ru_spec = f, ru_server_name = sp_name s, ru_generation = n\<rparr>\<rparr>))"

section \<open>The desired sessions\<close>

type_synonym group_plan = "(connection_key \<times> (server_profile \<times> rule list)) list"
type_synonym relay_plan = "(string \<times> (server_profile \<times> server_profile \<times> rule \<times> connection_key)) list"

fun push_rule :: "connection_key \<Rightarrow> server_profile \<Rightarrow> rule \<Rightarrow> group_plan \<Rightarrow> group_plan" where
  "push_rule k s r [] = [(k, (s, [r]))]"
| "push_rule k s r ((k', (s', rs)) # gs) =
     (if k' = k then (k', (s', rs @ [r])) # gs else (k', (s', rs)) # push_rule k s r gs)"

definition add_to_plan :: "placed \<Rightarrow> group_plan \<times> relay_plan \<Rightarrow> group_plan \<times> relay_plan" where
  "add_to_plan p plan =
     (case pl_target p of
        Some t \<Rightarrow> (fst plan, AList.update (fs_id (ru_spec (pl_rule p)))
                    (pl_server p, t, pl_rule p, pl_key p) (snd plan))
      | None \<Rightarrow> (push_rule (pl_key p) (pl_server p) (pl_rule p) (fst plan), snd plan))"

text \<open>The loop over the rules; an error leaves what was tracked before it.\<close>

fun reconcile_rules ::
    "config \<Rightarrow> engine \<Rightarrow> group_plan \<times> relay_plan \<Rightarrow> forward_spec list \<Rightarrow>
       engine \<times> (engine_error + group_plan \<times> relay_plan)" where
  "reconcile_rules c e plan [] = (e, Inr plan)"
| "reconcile_rules c e plan (f # fs) =
     (case place_rule c e f of
        Inl err \<Rightarrow> (e, Inl err)
      | Inr (e', p) \<Rightarrow> reconcile_rules c e' (add_to_plan p plan) fs)"

definition retain_entries :: "string set \<Rightarrow> shared \<Rightarrow> shared" where
  "retain_entries present s = s\<lparr>entries := filter (\<lambda>(i, _). i \<in> present) (entries s)\<rparr>"

section \<open>Applying the plan\<close>

definition rules_changed :: "rule list \<Rightarrow> rule list \<Rightarrow> bool" where
  "rules_changed previous rules =
     (length previous \<noteq> length rules \<or>
      (\<exists>old \<in> set previous. \<not> (\<exists>new \<in> set rules.
         fs_id (ru_spec old) = fs_id (ru_spec new) \<and> ru_generation old = ru_generation new)))"

definition spawn_group :: "server_profile \<Rightarrow> retry_policy \<Rightarrow> rule list \<Rightarrow> engine \<Rightarrow> group \<times> engine" where
  "spawn_group p policy rules e =
     (\<lparr>g_profile = p, g_policy = policy, g_desired = rules, g_wakes = 0, g_task = en_next_task e\<rparr>,
      e\<lparr>en_next_task := en_next_task e + 1\<rparr>)"

definition retire_groups :: "group_plan \<Rightarrow> engine \<Rightarrow> engine" where
  "retire_groups plan e =
     (let old = filter (\<lambda>(k, _). k \<notin> fst ` set plan) (en_groups e) in
      e\<lparr>en_groups := filter (\<lambda>(k, _). k \<in> fst ` set plan) (en_groups e),
        en_cancelled := en_cancelled e @ map (g_task \<circ> snd) old,
        en_retired := en_retired e @ map (g_task \<circ> snd) old\<rparr>)"

definition apply_group ::
    "retry_policy \<Rightarrow> connection_key \<times> (server_profile \<times> rule list) \<Rightarrow> engine \<Rightarrow> engine" where
  "apply_group policy kp e =
     (let (k, (profile, rules)) = kp in
      case map_of (en_groups e) k of
        Some g \<Rightarrow> e\<lparr>en_groups := AList.update k
            (g\<lparr>g_profile := profile, g_desired := rules,
               g_wakes := g_wakes g + (if rules_changed (g_desired g) rules then 1 else 0)\<rparr>) (en_groups e)\<rparr>
      | None \<Rightarrow>
          (let (g, e') = spawn_group profile policy rules e in
           e'\<lparr>en_groups := AList.update k g (en_groups e')\<rparr>))"

definition spawn_relay ::
    "server_profile \<Rightarrow> server_profile \<Rightarrow> retry_policy \<Rightarrow> connection_key \<Rightarrow> rule \<Rightarrow> engine \<Rightarrow>
       relay_group \<times> engine" where
  "spawn_relay src tgt policy k r e =
     (\<lparr>rg_source = src, rg_target = tgt, rg_policy = policy, rg_key = k, rg_desired = r,
       rg_wakes = 0, rg_task = en_next_task e\<rparr>,
      e\<lparr>en_next_task := en_next_task e + 1\<rparr>)"

definition relay_current :: "relay_plan \<Rightarrow> string \<times> relay_group \<Rightarrow> bool" where
  "relay_current plan ig =
     (case map_of plan (fst ig) of None \<Rightarrow> False | Some (_, _, _, k) \<Rightarrow> k = rg_key (snd ig))"

definition retire_relays :: "relay_plan \<Rightarrow> engine \<Rightarrow> engine" where
  "retire_relays plan e =
     (let old = filter (\<lambda>ig. \<not> relay_current plan ig) (en_relays e) in
      e\<lparr>en_relays := filter (relay_current plan) (en_relays e),
        en_cancelled := en_cancelled e @ map (rg_task \<circ> snd) old,
        en_retired := en_retired e @ map (rg_task \<circ> snd) old\<rparr>)"

definition apply_relay ::
    "retry_policy \<Rightarrow> string \<times> (server_profile \<times> server_profile \<times> rule \<times> connection_key) \<Rightarrow>
       engine \<Rightarrow> engine" where
  "apply_relay policy ip e =
     (let (i, (src, tgt, r, k)) = ip in
      case map_of (en_relays e) i of
        Some g \<Rightarrow> e\<lparr>en_relays := AList.update i
            (g\<lparr>rg_source := src, rg_target := tgt, rg_desired := r,
               rg_wakes := rg_wakes g +
                 (if ru_generation (rg_desired g) \<noteq> ru_generation r \<or> ru_spec (rg_desired g) \<noteq> ru_spec r
                  then 1 else 0)\<rparr>) (en_relays e)\<rparr>
      | None \<Rightarrow>
          (let (g, e') = spawn_relay src tgt policy k r e in
           e'\<lparr>en_relays := AList.update i g (en_relays e')\<rparr>))"

definition reconcile_relays :: "relay_plan \<Rightarrow> retry_policy \<Rightarrow> engine \<Rightarrow> engine" where
  "reconcile_relays plan policy e = foldl (\<lambda>e ip. apply_relay policy ip e) (retire_relays plan e) plan"

section \<open>Reviving sessions whose task has ended\<close>

definition revive_group :: "connection_key \<Rightarrow> engine \<Rightarrow> engine" where
  "revive_group k e =
     (case map_of (en_groups e) k of
        None \<Rightarrow> e
      | Some old \<Rightarrow>
          (let (g, e') = spawn_group (g_profile old) (g_policy old) (g_desired old) e in
           e'\<lparr>en_groups := AList.update k g (en_groups e'),
              en_cancelled := en_cancelled e @ [g_task old], en_retired := en_retired e @ [g_task old]\<rparr>))"

definition revive_finished_groups :: "(nat \<Rightarrow> bool) \<Rightarrow> engine \<Rightarrow> engine" where
  "revive_finished_groups finished e =
     foldl (\<lambda>e k. revive_group k e) e
       (map fst (filter (\<lambda>(_, g). finished (g_task g)) (en_groups e)))"

definition revive_relay :: "string \<Rightarrow> engine \<Rightarrow> engine" where
  "revive_relay i e =
     (case map_of (en_relays e) i of
        None \<Rightarrow> e
      | Some old \<Rightarrow>
          (let (g, e') = spawn_relay (rg_source old) (rg_target old) (rg_policy old) (rg_key old)
                           (rg_desired old) e in
           e'\<lparr>en_relays := AList.update i g (en_relays e'),
              en_cancelled := en_cancelled e @ [rg_task old], en_retired := en_retired e @ [rg_task old]\<rparr>))"

definition revive_finished_relays :: "(nat \<Rightarrow> bool) \<Rightarrow> engine \<Rightarrow> engine" where
  "revive_finished_relays finished e =
     foldl (\<lambda>e i. revive_relay i e) e
       (map fst (filter (\<lambda>(_, g). finished (rg_task g)) (en_relays e)))"

section \<open>Reconciling\<close>

definition apply_plan ::
    "(nat \<Rightarrow> bool) \<Rightarrow> config \<Rightarrow> group_plan \<times> relay_plan \<Rightarrow> engine \<Rightarrow> engine" where
  "apply_plan finished c plan e =
     (let policy = retry (cfg_defaults c);
          e1 = e\<lparr>en_shared := retain_entries (fs_id ` set (forwards c)) (en_shared e)\<rparr>;
          e2 = retire_groups (fst plan) e1;
          e3 = e2\<lparr>en_retired := filter (\<lambda>t. \<not> finished t) (en_retired e2)\<rparr>;
          e4 = foldl (\<lambda>e kp. apply_group policy kp e) e3 (fst plan);
          e5 = reconcile_relays (snd plan) policy e4
      in revive_finished_relays finished (revive_finished_groups finished e5))"

definition reconcile ::
    "(nat \<Rightarrow> bool) \<Rightarrow> (config \<Rightarrow> nat option) \<Rightarrow> (server_profile \<Rightarrow> string) \<Rightarrow> (nat \<Rightarrow> bool) \<Rightarrow>
       config \<Rightarrow> engine \<Rightarrow> engine \<times> (engine_error + unit)" where
  "reconcile ua js route finished c e =
     (case validate ua js c of
        Inl err \<Rightarrow> (e, Inl (InvalidConfig err))
      | Inr _ \<Rightarrow>
          (let e1 = e\<lparr>en_fps := refresh_fingerprints route c (en_fps e)\<rparr> in
           case reconcile_rules c e1 ([], []) (forwards c) of
             (e2, Inl err) \<Rightarrow> (e2, Inl err)
           | (e2, Inr plan) \<Rightarrow> (apply_plan finished c plan e2, Inr ())))"

end
