(* ===== verification/Supervision.thy ===== *)
theory Supervision
  imports Engine
begin

text \<open>
  What reconciling establishes: every rule of the configuration is supervised by exactly the
  session its connection key names, with the generation of its status entry, and nothing else
  is. Rules whose runtime definition and route did not change keep running undisturbed.
\<close>

section \<open>Fingerprints\<close>

definition fingerprint_of ::
    "(server_profile \<Rightarrow> string) \<Rightarrow> (string \<rightharpoonup> server_profile \<times> string) \<Rightarrow> server_profile \<Rightarrow> string" where
  "fingerprint_of route fps s =
     (case fps (sp_id s) of
        Some (p, x) \<Rightarrow> if p = unnamed s then x else route s
      | None \<Rightarrow> route s)"

lemma refresh_fingerprint_self:
  "refresh_fingerprint route s fps (sp_id s) = Some (unnamed s, fingerprint_of route fps s)"
  by (auto simp: refresh_fingerprint_def fingerprint_of_def split: option.splits prod.splits)

lemma refresh_fingerprint_other:
  "i \<noteq> sp_id s \<Longrightarrow> refresh_fingerprint route s fps i = fps i"
  by (simp add: refresh_fingerprint_def)

lemma foldl_fingerprints_other:
  "i \<notin> sp_id ` set ss \<Longrightarrow> foldl (\<lambda>m s. refresh_fingerprint route s m) fps ss i = fps i"
  by (induction ss arbitrary: fps) (simp_all add: refresh_fingerprint_other)

lemma foldl_fingerprints:
  "distinct (map sp_id ss) \<Longrightarrow> s \<in> set ss \<Longrightarrow>
     foldl (\<lambda>m s. refresh_fingerprint route s m) fps ss (sp_id s) =
       Some (unnamed s, fingerprint_of route fps s)"
proof (induction ss arbitrary: fps)
  case Nil
  then show ?case by simp
next
  case (Cons x ss)
  show ?case
  proof (cases "s = x")
    case True
    then have "sp_id s \<notin> sp_id ` set ss" using Cons.prems by auto
    then show ?thesis
      using True by (simp add: foldl_fingerprints_other refresh_fingerprint_self)
  next
    case False
    then have s: "s \<in> set ss" and "sp_id s \<noteq> sp_id x" using Cons.prems by (auto simp: image_iff)
    then have "fingerprint_of route (refresh_fingerprint route x fps) s = fingerprint_of route fps s"
      by (simp add: fingerprint_of_def refresh_fingerprint_other)
    with Cons.IH [OF _ s, of "refresh_fingerprint route x fps"] Cons.prems(1) show ?thesis by simp
  qed
qed

lemma refresh_fingerprints_known:
  assumes wf: "wf_config ua js c" and s: "s \<in> set (servers c)"
    and f: "f \<in> set (forwards c)" "references_server f (sp_id s)"
  shows "refresh_fingerprints route c fps (sp_id s) = Some (unnamed s, fingerprint_of route fps s)"
proof -
  let ?ss = "filter (\<lambda>s. \<exists>f \<in> set (forwards c). references_server f (sp_id s)) (servers c)"
  have "distinct (map sp_id (servers c))"
    using servers_dir.entries_unambiguous [OF wf] by (rule unambiguousD(1))
  then have d: "distinct (map sp_id ?ss)" by (simp add: distinct_map_filter)
  have "s \<in> set ?ss" using s f by auto
  from foldl_fingerprints [OF d this, of route "fps |` (sp_id ` set (servers c))"] s
  show ?thesis by (simp add: refresh_fingerprints_def fingerprint_of_def)
qed

section \<open>Every rule of a valid configuration has a session\<close>

lemma find_server_wf:
  assumes wf: "wf_config ua js c"
  shows "find_server c i = Some s \<longleftrightarrow> s \<in> set (servers c) \<and> sp_id s = i"
proof
  assume "find_server c i = Some s"
  then show "s \<in> set (servers c) \<and> sp_id s = i" by (auto simp: find_server_def dest: find_SomeD)
next
  assume s: "s \<in> set (servers c) \<and> sp_id s = i"
  show "find_server c i = Some s"
    unfolding find_server_def using s servers_dir.entry_id_unique [OF wf] by (intro find_unique) auto
qed

lemma wf_references:
  assumes "wf_config ua js c" and "f \<in> set (forwards c)" and "references_server f i"
  obtains s where "find_server c i = Some s" and "s \<in> set (servers c)" and "sp_id s = i"
proof -
  have "good_forward (sp_id ` set (servers c)) f" using assms(1,2) by (simp add: wf_config_def)
  then have "i \<in> sp_id ` set (servers c)" using assms(3) by (simp add: good_forward_def)
  then obtain s where "s \<in> set (servers c)" "sp_id s = i" by auto
  with find_server_wf [OF assms(1), of i s] that show ?thesis by simp
qed

text \<open>The key of a rule under given fingerprints, when all its servers are known.\<close>

lemma rule_key_total:
  assumes wf: "wf_config ua js c" and f: "f \<in> set (forwards c)"
  obtains k s t where "rule_key c (refresh_fingerprints route c fps) f = Inr (k, s, t)"
    and "find_server c (fs_server_id f) = Some s" and "t = None \<longleftrightarrow> \<not> is_relay (fs_tunnel f)"
proof -
  let ?fps = "refresh_fingerprints route c fps"
  have "references_server f (fs_server_id f)" by (simp add: references_server_iff)
  then obtain s where s: "find_server c (fs_server_id f) = Some s" "s \<in> set (servers c)" "sp_id s = fs_server_id f"
    using wf_references [OF wf f] by blast
  then obtain sfp where sfp: "?fps (sp_id s) = Some (unnamed s, sfp)"
    using refresh_fingerprints_known [OF wf s(2) f] by (simp add: references_server_iff)
  show thesis
  proof (cases "target_server_id (fs_tunnel f)")
    case None
    with s sfp that show ?thesis by (auto simp: rule_key_def is_relay_target_server)
  next
    case (Some tid)
    then have "references_server f tid" by (simp add: references_server_iff)
    then obtain t where t: "find_server c tid = Some t" "t \<in> set (servers c)" "sp_id t = tid"
      using wf_references [OF wf f] by blast
    then obtain tfp where "?fps tid = Some (unnamed t, tfp)"
      using refresh_fingerprints_known [OF wf t(2) f] \<open>references_server f tid\<close> by simp
    with s sfp t Some that show ?thesis by (auto simp: rule_key_def is_relay_target_server)
  qed
qed

section \<open>Tracking the rules one after the other\<close>

text \<open>The session side of two engines: all that tracking rules leaves alone.\<close>

definition same_sessions :: "engine \<Rightarrow> engine \<Rightarrow> bool" where
  "same_sessions e e' =
     (en_groups e' = en_groups e \<and> en_relays e' = en_relays e \<and> en_retired e' = en_retired e \<and>
      en_fps e' = en_fps e \<and> en_next_task e' = en_next_task e \<and> en_cancelled e' = en_cancelled e)"

definition tracked_entry ::
    "config \<Rightarrow> status_entry option \<Rightarrow> forward_spec \<Rightarrow> connection_key \<Rightarrow> server_profile \<Rightarrow> u64 \<Rightarrow> status_entry" where
  "tracked_entry c old f k s n =
     (if keeps_running old f k then relabel c f s (the old)
      else \<lparr>se_generation = n, se_key = k, se_spec = f,
            se_status = initial_status c f s (initial_state f old)\<rparr>)"

lemma tracked_entry_fields [simp]:
  "se_spec (tracked_entry c old f k s n) = f" "se_key (tracked_entry c old f k s n) = k"
  by (auto simp: tracked_entry_def relabel_def keeps_running_def split: option.splits)

definition placed_in :: "config \<Rightarrow> engine \<Rightarrow> forward_spec \<Rightarrow> placed" where
  "placed_in c e f =
     (let (k, s, t) = projr (rule_key c (en_fps e) f) in
      \<lparr>pl_key = k, pl_server = s, pl_target = t,
       pl_rule = \<lparr>ru_spec = f, ru_server_name = sp_name s,
                  ru_generation = se_generation (the (entry_of (en_shared e) (fs_id f)))\<rparr>\<rparr>)"

definition counter_room :: "engine \<Rightarrow> nat \<Rightarrow> bool" where
  "counter_room e n = (unat (en_generation e) + n < 2 ^ 64)"

lemma place_rule_step:
  assumes key: "rule_key c (en_fps e) f = Inr (k, s, t)" and room: "counter_room e 1"
  obtains e' n where "place_rule c e f = Inr (e', placed_in c e' f)" and "same_sessions e e'"
    and "en_shared e' = put_entry (fs_id f) (tracked_entry c (entry_of (en_shared e) (fs_id f)) f k s n) (en_shared e)"
    and "keeps_running (entry_of (en_shared e) (fs_id f)) f k \<or>
           unat (en_generation e) < unat n \<and> n = en_generation e'"
    and "unat (en_generation e) \<le> unat (en_generation e')"
    and "unat (en_generation e') \<le> unat (en_generation e) + 1"
proof -
  let ?old = "entry_of (en_shared e) (fs_id f)"
  let ?n = "en_generation e + 1"
  let ?e' = "fst (track_rule c f s k e)"
  have n: "unat ?n = unat (en_generation e) + 1"
    using room by (simp add: counter_room_def unat_word_ariths)
  show thesis
  proof (rule that)
    show sess: "same_sessions e ?e'"
      by (simp add: track_rule_def Let_def same_sessions_def)
    show shared: "en_shared ?e' = put_entry (fs_id f) (tracked_entry c ?old f k s ?n) (en_shared e)"
      by (simp add: track_rule_def Let_def tracked_entry_def)
    have "snd (track_rule c f s k e) = se_generation (tracked_entry c ?old f k s ?n)"
      by (simp add: track_rule_def Let_def tracked_entry_def relabel_def)
    then show "place_rule c e f = Inr (?e', placed_in c ?e' f)"
      using key sess by (simp add: place_rule_def placed_in_def same_sessions_def shared case_prod_beta)
    show "keeps_running ?old f k \<or> unat (en_generation e) < unat ?n \<and> ?n = en_generation ?e'"
      using n by (simp add: track_rule_def Let_def)
    show "unat (en_generation e) \<le> unat (en_generation ?e')"
      and "unat (en_generation ?e') \<le> unat (en_generation e) + 1"
      using n by (simp_all add: track_rule_def Let_def)
  qed
qed

definition tracked :: "config \<Rightarrow> engine \<Rightarrow> engine \<Rightarrow> forward_spec \<Rightarrow> bool" where
  "tracked c e e' f =
     (\<exists>k s t n. rule_key c (en_fps e) f = Inr (k, s, t) \<and>
        entry_of (en_shared e') (fs_id f) =
          Some (tracked_entry c (entry_of (en_shared e) (fs_id f)) f k s n) \<and>
        (keeps_running (entry_of (en_shared e) (fs_id f)) f k \<or>
         unat (en_generation e) < unat n \<and> unat n \<le> unat (en_generation e')))"

lemma same_sessions_trans: "same_sessions a b \<Longrightarrow> same_sessions b c \<Longrightarrow> same_sessions a c"
  by (simp add: same_sessions_def)

lemma same_sessions_fps: "same_sessions a b \<Longrightarrow> en_fps b = en_fps a"
  by (simp add: same_sessions_def)

lemma placed_in_cong:
  "en_fps e' = en_fps e \<Longrightarrow> entry_of (en_shared e') (fs_id f) = entry_of (en_shared e) (fs_id f) \<Longrightarrow>
     placed_in c e' f = placed_in c e f"
  by (simp add: placed_in_def)

lemma reconcile_rules_tracks:
  assumes "distinct (map fs_id fs)"
    and "\<And>f. f \<in> set fs \<Longrightarrow> \<exists>k s t. rule_key c (en_fps e) f = Inr (k, s, t)"
    and "counter_room e (length fs)"
  obtains e' where "reconcile_rules c e plan fs =
      (e', Inr (foldl (\<lambda>p f. add_to_plan (placed_in c e' f) p) plan fs))"
    and "same_sessions e e'" and "unat (en_generation e) \<le> unat (en_generation e')"
    and "\<And>i. i \<notin> fs_id ` set fs \<Longrightarrow> entry_of (en_shared e') i = entry_of (en_shared e) i"
    and "\<And>f. f \<in> set fs \<Longrightarrow> tracked c e e' f"
    and "distinct (map fst (entries (en_shared e))) \<Longrightarrow> distinct (map fst (entries (en_shared e')))"
  using assms
proof (induction fs arbitrary: e plan thesis)
  case Nil
  show ?case by (rule Nil.prems(1) [of e]) (simp_all add: same_sessions_def)
next
  case (Cons f fs)
  from Cons.prems(3) [of f] obtain k s t where key: "rule_key c (en_fps e) f = Inr (k, s, t)" by auto
  have "counter_room e 1" using Cons.prems(4) by (simp add: counter_room_def)
  from place_rule_step [OF key this] obtain e1 n where step: "place_rule c e f = Inr (e1, placed_in c e1 f)"
    and s1: "same_sessions e e1"
    and sh1: "en_shared e1 = put_entry (fs_id f) (tracked_entry c (entry_of (en_shared e) (fs_id f)) f k s n) (en_shared e)"
    and fresh: "keeps_running (entry_of (en_shared e) (fs_id f)) f k \<or>
      unat (en_generation e) < unat n \<and> n = en_generation e1"
    and mono: "unat (en_generation e) \<le> unat (en_generation e1)" "unat (en_generation e1) \<le> unat (en_generation e) + 1"
    by blast
  have room: "counter_room e1 (length fs)" using Cons.prems(4) mono by (simp add: counter_room_def)
  have d: "distinct (map fs_id fs)" and f: "fs_id f \<notin> fs_id ` set fs" using Cons.prems(2) by auto
  have keys: "\<exists>k s t. rule_key c (en_fps e1) g = Inr (k, s, t)" if "g \<in> set fs" for g
    using Cons.prems(3) [of g] that same_sessions_fps [OF s1] by simp
  from Cons.IH [OF _ d keys room, of "add_to_plan (placed_in c e1 f) plan"] obtain e' where
    r: "reconcile_rules c e1 (add_to_plan (placed_in c e1 f) plan) fs =
        (e', Inr (foldl (\<lambda>p f. add_to_plan (placed_in c e' f) p) (add_to_plan (placed_in c e1 f) plan) fs))"
    and s2: "same_sessions e1 e'" and mono2: "unat (en_generation e1) \<le> unat (en_generation e')"
    and other: "\<And>i. i \<notin> fs_id ` set fs \<Longrightarrow> entry_of (en_shared e') i = entry_of (en_shared e1) i"
    and tr: "\<And>g. g \<in> set fs \<Longrightarrow> tracked c e1 e' g"
    and dist: "distinct (map fst (entries (en_shared e1))) \<Longrightarrow> distinct (map fst (entries (en_shared e')))"
    by blast
  have entry: "entry_of (en_shared e') (fs_id f) =
      Some (tracked_entry c (entry_of (en_shared e) (fs_id f)) f k s n)"
    using other [OF f] by (simp add: sh1)
  have "placed_in c e' f = placed_in c e1 f"
    by (rule placed_in_cong) (simp_all add: same_sessions_fps [OF s2] other [OF f])
  with step r have all: "reconcile_rules c e plan (f # fs) =
      (e', Inr (foldl (\<lambda>p f. add_to_plan (placed_in c e' f) p) plan (f # fs)))" by simp
  show ?case
  proof (rule Cons.prems(1) [OF all same_sessions_trans [OF s1 s2]])
    show "unat (en_generation e) \<le> unat (en_generation e')" using mono(1) mono2 by (rule le_trans)
    show "entry_of (en_shared e') i = entry_of (en_shared e) i" if "i \<notin> fs_id ` set (f # fs)" for i
      using that other [of i] by (simp add: sh1)
    show "tracked c e e' g" if "g \<in> set (f # fs)" for g
    proof (cases "g = f")
      case True
      have "keeps_running (entry_of (en_shared e) (fs_id f)) f k \<or>
          unat (en_generation e) < unat n \<and> unat n \<le> unat (en_generation e')"
        using fresh mono2 by blast
      with key entry True show ?thesis unfolding tracked_def by blast
    next
      case False
      with that have g: "g \<in> set fs" by simp
      then have "fs_id g \<noteq> fs_id f" using f by (auto simp: image_iff)
      then have "entry_of (en_shared e1) (fs_id g) = entry_of (en_shared e) (fs_id g)" by (simp add: sh1)
      with tr [OF g] have "\<exists>k s t n. rule_key c (en_fps e) g = Inr (k, s, t) \<and>
          entry_of (en_shared e') (fs_id g) =
            Some (tracked_entry c (entry_of (en_shared e) (fs_id g)) g k s n) \<and>
          (keeps_running (entry_of (en_shared e) (fs_id g)) g k \<or>
           unat (en_generation e1) < unat n \<and> unat n \<le> unat (en_generation e'))"
        unfolding tracked_def same_sessions_fps [OF s1] by simp
      then show ?thesis unfolding tracked_def using mono(1) le_less_trans by blast
    qed
    show "distinct (map fst (entries (en_shared e')))" if "distinct (map fst (entries (en_shared e)))"
      by (rule dist) (simp add: sh1 put_entry_def distinct_update that)
  qed
qed

section \<open>The plan\<close>

definition rules_of :: "group_plan \<Rightarrow> connection_key \<Rightarrow> rule list" where
  "rules_of gp k = (case map_of gp k of None \<Rightarrow> [] | Some (_, rs) \<Rightarrow> rs)"

lemma rules_of_push: "rules_of (push_rule k s r gp) k' = rules_of gp k' @ (if k' = k then [r] else [])"
  by (induction k s r gp rule: push_rule.induct) (auto simp: rules_of_def)

lemma keys_push [simp]: "fst ` set (push_rule k s r gp) = insert k (fst ` set gp)"
  by (induction k s r gp rule: push_rule.induct) auto

lemma distinct_push: "distinct (map fst gp) \<Longrightarrow> distinct (map fst (push_rule k s r gp))"
  by (induction k s r gp rule: push_rule.induct) auto

definition build_plan ::
    "(forward_spec \<Rightarrow> placed) \<Rightarrow> forward_spec list \<Rightarrow> group_plan \<times> relay_plan \<Rightarrow> group_plan \<times> relay_plan" where
  "build_plan pl fs plan = foldl (\<lambda>p f. add_to_plan (pl f) p) plan fs"

lemma build_plan_simps [simp]:
  "build_plan pl [] plan = plan"
  "build_plan pl (f # fs) plan = build_plan pl fs (add_to_plan (pl f) plan)"
  by (simp_all add: build_plan_def)

lemma build_plan_groups:
  "rules_of (fst (build_plan pl fs plan)) k =
     rules_of (fst plan) k @ map (pl_rule \<circ> pl) (filter (\<lambda>f. pl_target (pl f) = None \<and> pl_key (pl f) = k) fs)"
  "fst ` set (fst (build_plan pl fs plan)) =
     fst ` set (fst plan) \<union> (pl_key \<circ> pl) ` {f \<in> set fs. pl_target (pl f) = None}"
  "distinct (map fst (fst plan)) \<Longrightarrow> distinct (map fst (fst (build_plan pl fs plan)))"
proof (induction fs arbitrary: plan)
  case (Cons f fs)
  case 1
  show ?case using Cons.IH(1) [of "add_to_plan (pl f) plan"]
    by (auto simp: add_to_plan_def rules_of_push split: option.splits)
  case 2
  show ?case using Cons.IH(2) [of "add_to_plan (pl f) plan"]
    by (auto simp: add_to_plan_def split: option.splits)
  case 3
  then show ?case using Cons.IH(3) [of "add_to_plan (pl f) plan"]
    by (auto simp: add_to_plan_def distinct_push split: option.splits)
qed simp_all

definition relay_item :: "placed \<Rightarrow> server_profile \<times> server_profile \<times> rule \<times> connection_key" where
  "relay_item p = (pl_server p, the (pl_target p), pl_rule p, pl_key p)"

lemma build_plan_relay_keys:
  "distinct (map fst (snd plan)) \<Longrightarrow> distinct (map fst (snd (build_plan pl fs plan)))"
  by (induction fs arbitrary: plan) (auto simp: add_to_plan_def distinct_update split: option.splits)

lemma build_plan_relays:
  assumes "distinct (map fs_id fs)" and "\<And>f. f \<in> set fs \<Longrightarrow> ru_spec (pl_rule (pl f)) = f"
  shows "map_of (snd (build_plan pl fs plan)) i =
     (case List.find (\<lambda>f. fs_id f = i \<and> pl_target (pl f) \<noteq> None) fs of
        Some f \<Rightarrow> Some (relay_item (pl f)) | None \<Rightarrow> map_of (snd plan) i)"
  using assms
proof (induction fs arbitrary: plan)
  case Nil
  then show ?case by simp
next
  case (Cons f fs)
  have spec: "ru_spec (pl_rule (pl f)) = f" using Cons.prems(2) by simp
  have none: "List.find (\<lambda>g. fs_id g = fs_id f \<and> pl_target (pl g) \<noteq> None) fs = None"
    using Cons.prems(1) unfolding find_None_iff by (metis distinct.simps(2) imageI list.simps(9) set_map)
  have ih: "map_of (snd (build_plan pl fs (add_to_plan (pl f) plan))) i =
      (case List.find (\<lambda>f. fs_id f = i \<and> pl_target (pl f) \<noteq> None) fs of
        Some f \<Rightarrow> Some (relay_item (pl f)) | None \<Rightarrow> map_of (snd (add_to_plan (pl f) plan)) i)"
    using Cons by simp
  show ?case
  proof (cases "i = fs_id f \<and> pl_target (pl f) \<noteq> None")
    case True
    then show ?thesis using ih none spec by (auto simp: add_to_plan_def relay_item_def update_conv')
  next
    case False
    then show ?thesis using ih spec
      by (auto simp: add_to_plan_def update_conv' split: option.splits)
  qed
qed

section \<open>Applying a plan\<close>

definition group_at :: "engine \<Rightarrow> connection_key \<Rightarrow> group option" where
  "group_at e k = map_of (en_groups e) k"

definition relay_at :: "engine \<Rightarrow> string \<Rightarrow> relay_group option" where
  "relay_at e i = map_of (en_relays e) i"

text \<open>
  What applying one planned group does: \<open>refreshed\<close> relates the group before, if there was
  one, to the group after.
\<close>

definition refreshed_group :: "group option \<Rightarrow> server_profile \<Rightarrow> rule list \<Rightarrow> group \<Rightarrow> bool" where
  "refreshed_group old p rs g =
     (g_desired g = rs \<and> g_profile g = p \<and>
      (case old of None \<Rightarrow> True
       | Some o' \<Rightarrow> g_task g = g_task o' \<and> g_policy g = g_policy o' \<and>
           g_wakes g = g_wakes o' + (if rules_changed (g_desired o') rs then 1 else 0)))"

text \<open>Everything of an engine but its groups and the task counter.\<close>

definition same_but_groups :: "engine \<Rightarrow> engine \<Rightarrow> bool" where
  "same_but_groups e e' =
     (en_relays e' = en_relays e \<and> en_shared e' = en_shared e \<and> en_generation e' = en_generation e \<and>
      en_fps e' = en_fps e \<and> en_cancelled e' = en_cancelled e \<and> en_retired e' = en_retired e)"

lemma apply_group_at:
  assumes "apply_group policy (k, (p, rs)) e = e'"
  obtains g where "group_at e' k = Some g" and "refreshed_group (group_at e k) p rs g"
    and "\<And>k'. k' \<noteq> k \<Longrightarrow> group_at e' k' = group_at e k'" and "same_but_groups e e'"
    and "fst ` set (en_groups e') = insert k (fst ` set (en_groups e))"
    and "distinct (map fst (en_groups e)) \<Longrightarrow> distinct (map fst (en_groups e'))"
proof (cases "map_of (en_groups e) k")
  case None
  then have e': "e' = e\<lparr>en_next_task := en_next_task e + 1,
      en_groups := AList.update k \<lparr>g_profile = p, g_policy = policy, g_desired = rs, g_wakes = 0,
        g_task = en_next_task e\<rparr> (en_groups e)\<rparr>"
    using assms by (simp add: apply_group_def spawn_group_def)
  show ?thesis
    by (rule that) (simp add: None e' group_at_def refreshed_group_def same_but_groups_def update_conv'
        AList.dom_update distinct_update)+
next
  case (Some g)
  then have e': "e' = e\<lparr>en_groups := AList.update k
      (g\<lparr>g_profile := p, g_desired := rs,
         g_wakes := g_wakes g + (if rules_changed (g_desired g) rs then 1 else 0)\<rparr>) (en_groups e)\<rparr>"
    using assms by (simp add: apply_group_def)
  show ?thesis
    by (rule that) (simp add: Some e' group_at_def refreshed_group_def same_but_groups_def update_conv'
        AList.dom_update distinct_update)+
qed

lemma same_but_groups_trans: "same_but_groups a b \<Longrightarrow> same_but_groups b c \<Longrightarrow> same_but_groups a c"
  by (simp add: same_but_groups_def)

lemma apply_groups_at:
  assumes "distinct (map fst gp)" and "foldl (\<lambda>e kp. apply_group policy kp e) e gp = e'"
  shows "(\<forall>k p rs. map_of gp k = Some (p, rs) \<longrightarrow>
      (\<exists>g. group_at e' k = Some g \<and> refreshed_group (group_at e k) p rs g)) \<and>
    (\<forall>k. k \<notin> fst ` set gp \<longrightarrow> group_at e' k = group_at e k) \<and> same_but_groups e e' \<and>
    fst ` set (en_groups e') = fst ` set gp \<union> fst ` set (en_groups e) \<and>
    (distinct (map fst (en_groups e)) \<longrightarrow> distinct (map fst (en_groups e')))"
  using assms
proof (induction gp arbitrary: e)
  case Nil
  then show ?case by (simp add: same_but_groups_def)
next
  case (Cons kp gp)
  obtain k p rs where kp: "kp = (k, (p, rs))" by (metis prod_cases3)
  let ?e1 = "apply_group policy kp e"
  obtain g where 1: "group_at ?e1 k = Some g" "refreshed_group (group_at e k) p rs g"
    "\<And>k'. k' \<noteq> k \<Longrightarrow> group_at ?e1 k' = group_at e k'" "same_but_groups e ?e1"
    "fst ` set (en_groups ?e1) = insert k (fst ` set (en_groups e))"
    "distinct (map fst (en_groups e)) \<Longrightarrow> distinct (map fst (en_groups ?e1))"
    using apply_group_at [OF refl, of policy k p rs e] kp by metis
  have k: "k \<notin> fst ` set gp" using Cons.prems(1) kp by auto
  have d: "distinct (map fst gp)" using Cons.prems(1) by simp
  have fold: "foldl (\<lambda>e kp. apply_group policy kp e) ?e1 gp = e'" using Cons.prems(2) by simp
  note ih = Cons.IH [OF d fold]
  note found = ih [THEN conjunct1, rule_format]
    and other = ih [THEN conjunct2, THEN conjunct1, rule_format]
    and frame = ih [THEN conjunct2, THEN conjunct2, THEN conjunct1]
    and doms = ih [THEN conjunct2, THEN conjunct2, THEN conjunct2, THEN conjunct1]
    and dist = ih [THEN conjunct2, THEN conjunct2, THEN conjunct2, THEN conjunct2]
  have hit: "\<exists>g. group_at e' k' = Some g \<and> refreshed_group (group_at e k') p' rs' g"
    if "map_of (kp # gp) k' = Some (p', rs')" for k' p' rs'
  proof (cases "k' = k")
    case True
    then have "group_at e' k' = Some g" "p' = p" "rs' = rs" using other k 1(1) that kp by auto
    with 1(2) True show ?thesis by simp
  next
    case False
    then have "map_of gp k' = Some (p', rs')" using that kp by simp
    from found [OF this] 1(3) [OF False] show ?thesis by simp
  qed
  have miss: "group_at e' k' = group_at e k'" if "k' \<notin> fst ` set (kp # gp)" for k'
    using other [of k'] 1(3) [of k'] that kp by simp
  show ?case
    using hit miss same_but_groups_trans [OF 1(4) frame] doms 1(5,6) dist kp by (intro conjI) auto
qed

definition refreshed_relay ::
    "relay_group option \<Rightarrow> server_profile \<Rightarrow> server_profile \<Rightarrow> rule \<Rightarrow> connection_key \<Rightarrow> relay_group \<Rightarrow> bool" where
  "refreshed_relay old src tgt r k g =
     (rg_desired g = r \<and> rg_source g = src \<and> rg_target g = tgt \<and>
      (case old of None \<Rightarrow> rg_key g = k
       | Some o' \<Rightarrow> rg_key g = rg_key o' \<and> rg_task g = rg_task o' \<and> rg_policy g = rg_policy o'))"

definition same_but_relays :: "engine \<Rightarrow> engine \<Rightarrow> bool" where
  "same_but_relays e e' =
     (en_groups e' = en_groups e \<and> en_shared e' = en_shared e \<and> en_generation e' = en_generation e \<and>
      en_fps e' = en_fps e \<and> en_cancelled e' = en_cancelled e \<and> en_retired e' = en_retired e)"

lemma same_but_relays_trans: "same_but_relays a b \<Longrightarrow> same_but_relays b c \<Longrightarrow> same_but_relays a c"
  by (simp add: same_but_relays_def)

lemma apply_relay_at:
  assumes "apply_relay policy (i, (src, tgt, r, k)) e = e'"
  obtains g where "relay_at e' i = Some g" and "refreshed_relay (relay_at e i) src tgt r k g"
    and "\<And>i'. i' \<noteq> i \<Longrightarrow> relay_at e' i' = relay_at e i'" and "same_but_relays e e'"
    and "fst ` set (en_relays e') = insert i (fst ` set (en_relays e))"
    and "distinct (map fst (en_relays e)) \<Longrightarrow> distinct (map fst (en_relays e'))"
proof (cases "map_of (en_relays e) i")
  case None
  then have e': "e' = e\<lparr>en_next_task := en_next_task e + 1,
      en_relays := AList.update i \<lparr>rg_source = src, rg_target = tgt, rg_policy = policy, rg_key = k,
        rg_desired = r, rg_wakes = 0, rg_task = en_next_task e\<rparr> (en_relays e)\<rparr>"
    using assms by (simp add: apply_relay_def spawn_relay_def)
  show ?thesis
    by (rule that) (simp add: None e' relay_at_def refreshed_relay_def same_but_relays_def update_conv'
        AList.dom_update distinct_update)+
next
  case (Some g)
  then have e': "e' = e\<lparr>en_relays := AList.update i
      (g\<lparr>rg_source := src, rg_target := tgt, rg_desired := r,
         rg_wakes := rg_wakes g +
           (if ru_generation (rg_desired g) \<noteq> ru_generation r \<or> ru_spec (rg_desired g) \<noteq> ru_spec r
            then 1 else 0)\<rparr>) (en_relays e)\<rparr>"
    using assms by (simp add: apply_relay_def)
  show ?thesis
    by (rule that) (simp add: Some e' relay_at_def refreshed_relay_def same_but_relays_def update_conv'
        AList.dom_update distinct_update)+
qed

lemma apply_relays_at:
  assumes "distinct (map fst rp)" and "foldl (\<lambda>e ip. apply_relay policy ip e) e rp = e'"
  shows "(\<forall>i src tgt r k. map_of rp i = Some (src, tgt, r, k) \<longrightarrow>
      (\<exists>g. relay_at e' i = Some g \<and> refreshed_relay (relay_at e i) src tgt r k g)) \<and>
    (\<forall>i. i \<notin> fst ` set rp \<longrightarrow> relay_at e' i = relay_at e i) \<and> same_but_relays e e' \<and>
    fst ` set (en_relays e') = fst ` set rp \<union> fst ` set (en_relays e) \<and>
    (distinct (map fst (en_relays e)) \<longrightarrow> distinct (map fst (en_relays e')))"
  using assms
proof (induction rp arbitrary: e)
  case Nil
  then show ?case by (simp add: same_but_relays_def)
next
  case (Cons ip rp)
  obtain i src tgt r k where ip: "ip = (i, (src, tgt, r, k))" by (metis prod_cases4 surj_pair)
  let ?e1 = "apply_relay policy ip e"
  obtain g where 1: "relay_at ?e1 i = Some g" "refreshed_relay (relay_at e i) src tgt r k g"
    "\<And>i'. i' \<noteq> i \<Longrightarrow> relay_at ?e1 i' = relay_at e i'" "same_but_relays e ?e1"
    "fst ` set (en_relays ?e1) = insert i (fst ` set (en_relays e))"
    "distinct (map fst (en_relays e)) \<Longrightarrow> distinct (map fst (en_relays ?e1))"
    using apply_relay_at [OF refl, of policy i src tgt r k e] ip by metis
  have i: "i \<notin> fst ` set rp" using Cons.prems(1) ip by auto
  have d: "distinct (map fst rp)" using Cons.prems(1) by simp
  have fold: "foldl (\<lambda>e ip. apply_relay policy ip e) ?e1 rp = e'" using Cons.prems(2) by simp
  note ih = Cons.IH [OF d fold]
  note found = ih [THEN conjunct1, rule_format]
    and other = ih [THEN conjunct2, THEN conjunct1, rule_format]
    and frame = ih [THEN conjunct2, THEN conjunct2, THEN conjunct1]
    and doms = ih [THEN conjunct2, THEN conjunct2, THEN conjunct2, THEN conjunct1]
    and dist = ih [THEN conjunct2, THEN conjunct2, THEN conjunct2, THEN conjunct2]
  have hit: "\<exists>g. relay_at e' i' = Some g \<and> refreshed_relay (relay_at e i') s' t' r' k' g"
    if "map_of (ip # rp) i' = Some (s', t', r', k')" for i' s' t' r' k'
  proof (cases "i' = i")
    case True
    then have "relay_at e' i' = Some g" "s' = src" "t' = tgt" "r' = r" "k' = k"
      using other i 1(1) that ip by auto
    with 1(2) True show ?thesis by simp
  next
    case False
    then have "map_of rp i' = Some (s', t', r', k')" using that ip by simp
    from found [OF this] 1(3) [OF False] show ?thesis by simp
  qed
  have miss: "relay_at e' i' = relay_at e i'" if "i' \<notin> fst ` set (ip # rp)" for i'
    using other [of i'] 1(3) [of i'] that ip by simp
  show ?case
    using hit miss same_but_relays_trans [OF 1(4) frame] doms 1(5,6) dist ip by (intro conjI) auto
qed

section \<open>Retiring and reviving\<close>

lemma map_of_filter_key: "map_of (filter (\<lambda>(k, _). P k) al) k = (if P k then map_of al k else None)"
  by (induction al) auto

lemma map_of_filter_pair:
  "distinct (map fst al) \<Longrightarrow>
     map_of (filter P al) k = (case map_of al k of None \<Rightarrow> None | Some v \<Rightarrow> if P (k, v) then Some v else None)"
proof (induction al)
  case Nil
  then show ?case by simp
next
  case (Cons a al)
  have "map_of al (fst a) = None" using Cons.prems by (simp add: map_of_eq_None_iff)
  with Cons show ?case by (cases a) (auto split: option.splits)
qed

lemma retire_groups_at:
  "group_at (retire_groups gp e) k = (if k \<in> fst ` set gp then group_at e k else None)"
  "distinct (map fst (en_groups e)) \<Longrightarrow> distinct (map fst (en_groups (retire_groups gp e)))"
  "en_relays (retire_groups gp e) = en_relays e" "en_shared (retire_groups gp e) = en_shared e"
  by (simp_all add: retire_groups_def Let_def group_at_def map_of_filter_key distinct_map_filter)

lemma retire_groups_keys: "fst ` set (en_groups (retire_groups gp e)) \<subseteq> fst ` set gp"
  by (force simp: retire_groups_def Let_def)

lemma retire_relays_at:
  assumes "distinct (map fst (en_relays e))"
  shows "relay_at (retire_relays rp e) i =
      (case relay_at e i of None \<Rightarrow> None | Some g \<Rightarrow> if relay_current rp (i, g) then Some g else None)"
    and "distinct (map fst (en_relays (retire_relays rp e)))"
  using assms by (simp_all add: retire_relays_def Let_def relay_at_def map_of_filter_pair distinct_map_filter)

lemma retire_relays_keys: "fst ` set (en_relays (retire_relays rp e)) \<subseteq> fst ` set rp"
proof
  fix i
  assume "i \<in> fst ` set (en_relays (retire_relays rp e))"
  then obtain g where "relay_current rp (i, g)" by (auto simp: retire_relays_def Let_def)
  then have "map_of rp i \<noteq> None" by (auto simp: relay_current_def split: option.splits)
  then show "i \<in> fst ` set rp" by (simp add: map_of_eq_None_iff)
qed

lemma retire_relays_frame [simp]:
  "en_groups (retire_relays rp e) = en_groups e" "en_shared (retire_relays rp e) = en_shared e"
  by (simp_all add: retire_relays_def Let_def)

text \<open>Reviving replaces tasks only: what a session serves stays.\<close>

abbreviation serves :: "group option \<Rightarrow> (server_profile \<times> retry_policy \<times> rule list) option" where
  "serves g \<equiv> map_option (\<lambda>g. (g_profile g, g_policy g, g_desired g)) g"

abbreviation relays_for ::
    "relay_group option \<Rightarrow> (server_profile \<times> server_profile \<times> retry_policy \<times> connection_key \<times> rule) option" where
  "relays_for g \<equiv> map_option (\<lambda>g. (rg_source g, rg_target g, rg_policy g, rg_key g, rg_desired g)) g"

lemma revive_group_at:
  "serves (group_at (revive_group k e) k') = serves (group_at e k')"
  "k' \<noteq> k \<Longrightarrow> group_at (revive_group k e) k' = group_at e k'"
  "map fst (en_groups (revive_group k e)) = map fst (en_groups e)"
  "en_relays (revive_group k e) = en_relays e" "en_shared (revive_group k e) = en_shared e"
  by (auto simp: revive_group_def group_at_def spawn_group_def update_conv' update_keys
      map_of_eq_None_iff split: option.splits)

lemma revive_groups_at:
  "serves (group_at (foldl (\<lambda>e k. revive_group k e) e ks) k') = serves (group_at e k')"
  "k' \<notin> set ks \<Longrightarrow> group_at (foldl (\<lambda>e k. revive_group k e) e ks) k' = group_at e k'"
  "map fst (en_groups (foldl (\<lambda>e k. revive_group k e) e ks)) = map fst (en_groups e)"
  "en_relays (foldl (\<lambda>e k. revive_group k e) e ks) = en_relays e"
  "en_shared (foldl (\<lambda>e k. revive_group k e) e ks) = en_shared e"
  by (induction ks arbitrary: e) (simp_all add: revive_group_at)

lemma revive_relay_at:
  "relays_for (relay_at (revive_relay i e) i') = relays_for (relay_at e i')"
  "i' \<noteq> i \<Longrightarrow> relay_at (revive_relay i e) i' = relay_at e i'"
  "map fst (en_relays (revive_relay i e)) = map fst (en_relays e)"
  "en_groups (revive_relay i e) = en_groups e" "en_shared (revive_relay i e) = en_shared e"
  by (auto simp: revive_relay_def relay_at_def spawn_relay_def update_conv' update_keys
      map_of_eq_None_iff split: option.splits)

lemma revive_relays_at:
  "relays_for (relay_at (foldl (\<lambda>e i. revive_relay i e) e ks) i') = relays_for (relay_at e i')"
  "i' \<notin> set ks \<Longrightarrow> relay_at (foldl (\<lambda>e i. revive_relay i e) e ks) i' = relay_at e i'"
  "map fst (en_relays (foldl (\<lambda>e i. revive_relay i e) e ks)) = map fst (en_relays e)"
  "en_groups (foldl (\<lambda>e i. revive_relay i e) e ks) = en_groups e"
  "en_shared (foldl (\<lambda>e i. revive_relay i e) e ks) = en_shared e"
  by (induction ks arbitrary: e) (simp_all add: revive_relay_at)

lemma not_revived:
  assumes "distinct (map fst al)" and "map_of al k = Some g" and "\<not> finished g"
  shows "k \<notin> set (map fst (filter (\<lambda>(_, g). finished g) al))"
  using assms by (auto simp: map_of_eq_Some_iff dest: eq_key_imp_eq_value)

lemma group_at_cong: "en_groups e' = en_groups e \<Longrightarrow> group_at e' k = group_at e k"
  by (simp add: group_at_def)

lemma relay_at_cong: "en_relays e' = en_relays e \<Longrightarrow> relay_at e' i = relay_at e i"
  by (simp add: relay_at_def)

definition keys_ok :: "engine \<Rightarrow> bool" where
  "keys_ok e = (distinct (map fst (en_groups e)) \<and> distinct (map fst (en_relays e)) \<and>
     distinct (map fst (entries (en_shared e))))"

lemma apply_plan_parts:
  assumes gp: "distinct (map fst gp)" and rp: "distinct (map fst rp)"
    and dg: "distinct (map fst (en_groups e))" and dr: "distinct (map fst (en_relays e))"
  obtains e5 where "apply_plan finished c (gp, rp) e =
      revive_finished_relays finished (revive_finished_groups finished e5)"
    and "\<And>k p rs. map_of gp k = Some (p, rs) \<Longrightarrow>
       \<exists>g. group_at e5 k = Some g \<and> refreshed_group (group_at e k) p rs g"
    and "\<And>i src tgt r k. map_of rp i = Some (src, tgt, r, k) \<Longrightarrow>
       \<exists>g. relay_at e5 i = Some g \<and> rg_desired g = r \<and> rg_key g = k \<and>
         (\<forall>old. relay_at e i = Some old \<longrightarrow> rg_key old = k \<longrightarrow> rg_task g = rg_task old)"
    and "fst ` set (en_groups e5) = fst ` set gp" and "fst ` set (en_relays e5) = fst ` set rp"
    and "distinct (map fst (en_groups e5))" and "distinct (map fst (en_relays e5))"
    and "en_shared e5 = retain_entries (fs_id ` set (forwards c)) (en_shared e)"
proof -
  let ?policy = "retry (cfg_defaults c)"
  define e1 where "e1 = e\<lparr>en_shared := retain_entries (fs_id ` set (forwards c)) (en_shared e)\<rparr>"
  define e2 where "e2 = retire_groups gp e1"
  define e3 where "e3 = e2\<lparr>en_retired := filter (\<lambda>t. \<not> finished t) (en_retired e2)\<rparr>"
  define e4 where "e4 = foldl (\<lambda>e kp. apply_group ?policy kp e) e3 gp"
  define e5 where "e5 = reconcile_relays rp ?policy e4"
  have g3: "group_at e3 k = (if k \<in> fst ` set gp then group_at e k else None)" for k
    using retire_groups_at(1) [of gp e1 k] by (simp add: e3_def e2_def e1_def group_at_def)
  have r3: "en_relays e3 = en_relays e" "en_shared e3 = en_shared e1"
    by (simp_all add: e3_def e2_def e1_def retire_groups_at)
  have d3: "distinct (map fst (en_groups e3))"
    using retire_groups_at(2) [of e1 gp] dg by (simp add: e3_def e2_def e1_def)
  have k3: "fst ` set (en_groups e3) \<subseteq> fst ` set gp"
    using retire_groups_keys [of gp e1] by (simp add: e3_def e2_def)
  note g4 = apply_groups_at [OF gp e4_def [symmetric]]
  have r4: "en_relays e4 = en_relays e" "en_shared e4 = en_shared e1"
    using g4 r3 by (simp_all add: same_but_groups_def)
  define e4' where "e4' = retire_relays rp e4"
  note at4 = retire_relays_at [of e4 rp, folded e4'_def, unfolded r4(1), OF dr]
  have e5: "e5 = foldl (\<lambda>e ip. apply_relay ?policy ip e) e4' rp"
    by (simp add: e5_def reconcile_relays_def e4'_def)
  note g5 = apply_relays_at [OF rp e5 [symmetric]]
  have groups5: "en_groups e5 = en_groups e4" and shared5: "en_shared e5 = en_shared e1"
    using g5 r4 by (simp_all add: same_but_relays_def e4'_def)
  show thesis
  proof (rule that [of e5])
    show "apply_plan finished c (gp, rp) e = revive_finished_relays finished (revive_finished_groups finished e5)"
      by (simp add: apply_plan_def Let_def e1_def e2_def e3_def e4_def e5_def)
    show "\<exists>g. group_at e5 k = Some g \<and> refreshed_group (group_at e k) p rs g" if "map_of gp k = Some (p, rs)" for k p rs
    proof -
      have "k \<in> fst ` set gp" using that by (force dest: map_of_SomeD)
      then show ?thesis using g4 [THEN conjunct1, rule_format, OF that] g3 [of k]
        by (simp add: group_at_cong [OF groups5])
    qed
    show "\<exists>g. relay_at e5 i = Some g \<and> rg_desired g = r \<and> rg_key g = k \<and>
         (\<forall>old. relay_at e i = Some old \<longrightarrow> rg_key old = k \<longrightarrow> rg_task g = rg_task old)"
      if m: "map_of rp i = Some (src, tgt, r, k)" for i src tgt r k
    proof -
      obtain g where g: "relay_at e5 i = Some g" "refreshed_relay (relay_at e4' i) src tgt r k g"
        using g5 [THEN conjunct1, rule_format, OF m] by blast
      have "relay_at e4' i = (case relay_at e i of None \<Rightarrow> None | Some o' \<Rightarrow> if rg_key o' = k then Some o' else None)"
        using at4(1) m by (simp add: relay_at_cong [OF r4(1)] relay_current_def eq_commute [of k] split: option.splits)
      with g show ?thesis by (auto simp: refreshed_relay_def split: option.splits if_splits)
    qed
    show "fst ` set (en_groups e5) = fst ` set gp"
      using g4 k3 unfolding groups5 by blast
    show "fst ` set (en_relays e5) = fst ` set rp"
      using g5 retire_relays_keys [of rp e4] by (auto simp: e4'_def)
    show "distinct (map fst (en_groups e5))" using g4 d3 unfolding groups5 by blast
    show "distinct (map fst (en_relays e5))" using g5 at4(2) by blast
    show "en_shared e5 = retain_entries (fs_id ` set (forwards c)) (en_shared e)"
      unfolding shared5 by (simp add: e1_def)
  qed
qed

text \<open>
  The sessions after a plan was applied; a session that existed before and whose task runs
  keeps that task.
\<close>

lemma apply_plan_at:
  fixes c :: config
  defines "e' \<equiv> \<lambda>finished gp rp e. apply_plan finished c (gp, rp) e"
  assumes gp: "distinct (map fst gp)" and rp: "distinct (map fst rp)"
    and dg: "distinct (map fst (en_groups e))" and dr: "distinct (map fst (en_relays e))"
  shows "map_of gp k = Some (p, rs) \<Longrightarrow>
      \<exists>g. group_at (e' finished gp rp e) k = Some g \<and> g_desired g = rs \<and>
        (\<forall>old. group_at e k = Some old \<longrightarrow> \<not> finished (g_task old) \<longrightarrow> g_task g = g_task old \<and>
           g_wakes g = g_wakes old + (if rules_changed (g_desired old) rs then 1 else 0))"
    and "map_of rp i = Some (src, tgt, r, k) \<Longrightarrow>
      \<exists>g. relay_at (e' finished gp rp e) i = Some g \<and> rg_desired g = r \<and> rg_key g = k \<and>
        (\<forall>old. relay_at e i = Some old \<longrightarrow> rg_key old = k \<longrightarrow> \<not> finished (rg_task old) \<longrightarrow>
           rg_task g = rg_task old)"
    and "fst ` set (en_groups (e' finished gp rp e)) = fst ` set gp"
    and "fst ` set (en_relays (e' finished gp rp e)) = fst ` set rp"
    and "distinct (map fst (en_groups (e' finished gp rp e)))"
    and "distinct (map fst (en_relays (e' finished gp rp e)))"
    and "en_shared (e' finished gp rp e) = retain_entries (fs_id ` set (forwards c)) (en_shared e)"
proof -
  from apply_plan_parts [OF gp rp dg dr, of finished c] obtain e5 where
    e': "e' finished gp rp e = revive_finished_relays finished (revive_finished_groups finished e5)"
    and g5: "\<And>k p rs. map_of gp k = Some (p, rs) \<Longrightarrow>
       \<exists>g. group_at e5 k = Some g \<and> refreshed_group (group_at e k) p rs g"
    and r5: "\<And>i src tgt r k. map_of rp i = Some (src, tgt, r, k) \<Longrightarrow>
       \<exists>g. relay_at e5 i = Some g \<and> rg_desired g = r \<and> rg_key g = k \<and>
         (\<forall>old. relay_at e i = Some old \<longrightarrow> rg_key old = k \<longrightarrow> rg_task g = rg_task old)"
    and k5: "fst ` set (en_groups e5) = fst ` set gp" "fst ` set (en_relays e5) = fst ` set rp"
    and d5: "distinct (map fst (en_groups e5))" "distinct (map fst (en_relays e5))"
    and s5: "en_shared e5 = retain_entries (fs_id ` set (forwards c)) (en_shared e)"
    unfolding e'_def by blast
  define e6 where "e6 = revive_finished_groups finished e5"
  have e7: "e' finished gp rp e = revive_finished_relays finished e6" by (simp add: e' e6_def)
  have keys6: "map fst (en_groups e6) = map fst (en_groups e5)" and rel6: "en_relays e6 = en_relays e5"
    and sh6: "en_shared e6 = en_shared e5"
    by (simp_all add: e6_def revive_finished_groups_def revive_groups_at)
  have keys7: "map fst (en_relays (e' finished gp rp e)) = map fst (en_relays e5)"
    and grp7: "en_groups (e' finished gp rp e) = en_groups e6" and sh7: "en_shared (e' finished gp rp e) = en_shared e5"
    by (simp_all add: e7 revive_finished_relays_def revive_relays_at rel6 sh6)
  show "fst ` set (en_groups (e' finished gp rp e)) = fst ` set gp"
    using k5(1) keys6 grp7 by (metis list.set_map)
  show "fst ` set (en_relays (e' finished gp rp e)) = fst ` set rp"
    using k5(2) keys7 by (metis list.set_map)
  show "distinct (map fst (en_groups (e' finished gp rp e)))" by (simp only: grp7 keys6 d5)
  show "distinct (map fst (en_relays (e' finished gp rp e)))" by (simp only: keys7 d5)
  show "en_shared (e' finished gp rp e) = retain_entries (fs_id ` set (forwards c)) (en_shared e)"
    by (simp only: sh7 s5)
  show "\<exists>g. group_at (e' finished gp rp e) k = Some g \<and> g_desired g = rs \<and>
        (\<forall>old. group_at e k = Some old \<longrightarrow> \<not> finished (g_task old) \<longrightarrow> g_task g = g_task old \<and>
           g_wakes g = g_wakes old + (if rules_changed (g_desired old) rs then 1 else 0))"
    if m: "map_of gp k = Some (p, rs)"
  proof -
    obtain g where g: "group_at e5 k = Some g" "refreshed_group (group_at e k) p rs g"
      using g5 [OF m] by blast
    have "serves (group_at e6 k) = serves (Some g)"
      by (simp only: e6_def revive_finished_groups_def revive_groups_at(1) g(1))
    then obtain g' where g': "group_at e6 k = Some g'" "g_desired g' = g_desired g" by auto
    have "g' = g" if "\<not> finished (g_task g)"
    proof -
      have "k \<notin> set (map fst (filter (\<lambda>(_, g). finished (g_task g)) (en_groups e5)))"
        using not_revived [OF d5(1), of k g "\<lambda>g. finished (g_task g)"] g(1) that by (simp add: group_at_def)
      from revive_groups_at(2) [OF this, of e5] show ?thesis
        using g(1) g'(1) by (simp add: e6_def revive_finished_groups_def)
    qed
    with g g' show ?thesis
      by (auto simp: group_at_cong [OF grp7] refreshed_group_def split: option.splits)
  qed
  show "\<exists>g. relay_at (e' finished gp rp e) i = Some g \<and> rg_desired g = r \<and> rg_key g = k \<and>
        (\<forall>old. relay_at e i = Some old \<longrightarrow> rg_key old = k \<longrightarrow> \<not> finished (rg_task old) \<longrightarrow>
           rg_task g = rg_task old)"
    if m: "map_of rp i = Some (src, tgt, r, k)"
  proof -
    obtain g where g: "relay_at e5 i = Some g" "rg_desired g = r" "rg_key g = k"
      "\<And>old. relay_at e i = Some old \<Longrightarrow> rg_key old = k \<Longrightarrow> rg_task g = rg_task old"
      using r5 [OF m] by blast
    have "relays_for (relay_at (e' finished gp rp e) i) = relays_for (Some g)"
      by (simp only: e7 revive_finished_relays_def revive_relays_at(1) relay_at_cong [OF rel6] g(1))
    then obtain g' where g': "relay_at (e' finished gp rp e) i = Some g'"
      "rg_desired g' = rg_desired g" "rg_key g' = rg_key g" by auto
    have "g' = g" if "\<not> finished (rg_task g)"
    proof -
      have "i \<notin> set (map fst (filter (\<lambda>(_, g). finished (rg_task g)) (en_relays e6)))"
        using not_revived [OF d5(2), of i g "\<lambda>g. finished (rg_task g)"] g(1) that
        by (simp add: relay_at_def rel6)
      from revive_relays_at(2) [OF this, of e6] show ?thesis
        using g(1) g'(1) by (simp add: e7 revive_finished_relays_def relay_at_cong [OF rel6])
    qed
    with g g' show ?thesis by auto
  qed
qed

section \<open>Supervision\<close>

text \<open>
  The specification: every rule is served by the one session of its key with its current
  generation, every session serves some rule, and no session serves anything else.
\<close>

definition served :: "engine \<Rightarrow> forward_spec \<Rightarrow> status_entry \<Rightarrow> bool" where
  "served e f en =
     (if is_relay (fs_tunnel f)
      then (case relay_at e (fs_id f) of None \<Rightarrow> False
            | Some g \<Rightarrow> ru_spec (rg_desired g) = f \<and> ru_generation (rg_desired g) = se_generation en \<and>
                rg_key g = se_key en)
      else (case group_at e (se_key en) of None \<Rightarrow> False
            | Some g \<Rightarrow> \<exists>r \<in> set (g_desired g). ru_spec r = f \<and> ru_generation r = se_generation en))"

definition supervised :: "config \<Rightarrow> engine \<Rightarrow> bool" where
  "supervised c e =
     ((\<forall>f \<in> set (forwards c). case entry_of (en_shared e) (fs_id f) of None \<Rightarrow> False
         | Some en \<Rightarrow> se_spec en = f \<and> served e f en) \<and>
      fst ` set (entries (en_shared e)) = fs_id ` set (forwards c) \<and>
      (\<forall>(k, g) \<in> set (en_groups e). g_desired g \<noteq> [] \<and>
         distinct (map (fs_id \<circ> ru_spec) (g_desired g)) \<and>
         (\<forall>r \<in> set (g_desired g). ru_spec r \<in> set (forwards c) \<and> \<not> is_relay (fs_tunnel (ru_spec r)) \<and>
            (case entry_of (en_shared e) (fs_id (ru_spec r)) of None \<Rightarrow> False | Some en \<Rightarrow> se_key en = k))) \<and>
      (\<forall>(i, g) \<in> set (en_relays e). ru_spec (rg_desired g) \<in> set (forwards c) \<and>
         fs_id (ru_spec (rg_desired g)) = i \<and> is_relay (fs_tunnel (ru_spec (rg_desired g)))))"

lemma entry_of_retain: "entry_of (retain_entries I s) i = (if i \<in> I then entry_of s i else None)"
  by (simp add: entry_of_def retain_entries_def map_of_filter_key)

lemma entry_keys: "i \<in> fst ` set (entries s) \<longleftrightarrow> entry_of s i \<noteq> None"
  by (simp add: entry_of_def map_of_eq_None_iff)

text \<open>A rule after tracking: its entry and what is put into the plan for it.\<close>

definition placed_rule :: "config \<Rightarrow> engine \<Rightarrow> forward_spec \<Rightarrow> bool" where
  "placed_rule c e f =
     (case entry_of (en_shared e) (fs_id f) of None \<Rightarrow> False
      | Some en \<Rightarrow> se_spec en = f \<and> pl_key (placed_in c e f) = se_key en \<and>
          (pl_target (placed_in c e f) = None \<longleftrightarrow> \<not> is_relay (fs_tunnel f)) \<and>
          ru_spec (pl_rule (placed_in c e f)) = f \<and>
          ru_generation (pl_rule (placed_in c e f)) = se_generation en)"

lemma reconcile_tracks:
  assumes wf: "wf_config ua js c" and room: "counter_room e (length (forwards c))"
  obtains e2 where
    "reconcile ua js route finished c e =
       (apply_plan finished c (build_plan (placed_in c e2) (forwards c) ([], [])) e2, Inr ())"
    and "same_sessions (e\<lparr>en_fps := refresh_fingerprints route c (en_fps e)\<rparr>) e2"
    and "\<And>f. f \<in> set (forwards c) \<Longrightarrow> placed_rule c e2 f"
    and "\<And>f. f \<in> set (forwards c) \<Longrightarrow> tracked c (e\<lparr>en_fps := refresh_fingerprints route c (en_fps e)\<rparr>) e2 f"
    and "keys_ok e \<Longrightarrow> keys_ok e2"
proof -
  let ?e1 = "e\<lparr>en_fps := refresh_fingerprints route c (en_fps e)\<rparr>"
  have d: "distinct (map fs_id (forwards c))"
    using forwards_dir.entries_unambiguous [OF wf] by (rule unambiguousD(1))
  have keys: "\<exists>k s t. rule_key c (en_fps ?e1) f = Inr (k, s, t)" if f: "f \<in> set (forwards c)" for f
  proof -
    obtain k s t where "rule_key c (refresh_fingerprints route c (en_fps e)) f = Inr (k, s, t)"
      using rule_key_total [OF wf f, of route "en_fps e"] by blast
    then show ?thesis by simp
  qed
  have room1: "counter_room ?e1 (length (forwards c))" using room by (simp add: counter_room_def)
  show thesis
  proof (rule reconcile_rules_tracks [OF d keys room1, of "([], [])"])
    fix e2
    assume r: "reconcile_rules c ?e1 ([], []) (forwards c) =
        (e2, Inr (foldl (\<lambda>p f. add_to_plan (placed_in c e2 f) p) ([], []) (forwards c)))"
      and sess: "same_sessions ?e1 e2"
      and tr: "\<And>f. f \<in> set (forwards c) \<Longrightarrow> tracked c ?e1 e2 f"
      and dist: "distinct (map fst (entries (en_shared ?e1))) \<Longrightarrow> distinct (map fst (entries (en_shared e2)))"
    have fps: "en_fps e2 = refresh_fingerprints route c (en_fps e)"
      using same_sessions_fps [OF sess] by simp
    have rec: "reconcile ua js route finished c e =
       (apply_plan finished c (build_plan (placed_in c e2) (forwards c) ([], [])) e2, Inr ())"
      using wf r by (simp add: reconcile_def validate_iff_wf [symmetric] Let_def build_plan_def)
    have pl: "placed_rule c e2 f" if f: "f \<in> set (forwards c)" for f
    proof -
      obtain k s t where key: "rule_key c (refresh_fingerprints route c (en_fps e)) f = Inr (k, s, t)"
        and t: "t = None \<longleftrightarrow> \<not> is_relay (fs_tunnel f)"
        using rule_key_total [OF wf f, of route "en_fps e"] by blast
      from tr [OF f] key obtain n where "entry_of (en_shared e2) (fs_id f) =
          Some (tracked_entry c (entry_of (en_shared e) (fs_id f)) f k s n)"
        unfolding tracked_def by auto
      then show ?thesis using key t by (simp add: placed_rule_def placed_in_def fps)
    qed
    have ok: "keys_ok e2" if "keys_ok e"
      using that dist sess by (simp add: keys_ok_def same_sessions_def)
    show thesis by (rule that [OF rec sess pl tr ok])
  qed
qed

lemma map_of_rules:
  assumes "k \<in> fst ` set gp"
  obtains p where "map_of gp k = Some (p, rules_of gp k)"
proof -
  from assms have "map_of gp k \<noteq> None" by (simp add: map_of_eq_None_iff)
  then show thesis using that by (auto simp: rules_of_def)
qed

text \<open>How an entry and a session continue across a reconciliation.\<close>

definition continued :: "(server_profile \<Rightarrow> string) \<Rightarrow> config \<Rightarrow> engine \<Rightarrow> engine \<Rightarrow> forward_spec \<Rightarrow> bool" where
  "continued route c e e' f =
     (\<exists>k s t n. rule_key c (refresh_fingerprints route c (en_fps e)) f = Inr (k, s, t) \<and>
        entry_of (en_shared e') (fs_id f) =
          Some (tracked_entry c (entry_of (en_shared e) (fs_id f)) f k s n) \<and>
        (keeps_running (entry_of (en_shared e) (fs_id f)) f k \<or> unat (en_generation e) < unat n))"

definition tasks_kept :: "(nat \<Rightarrow> bool) \<Rightarrow> engine \<Rightarrow> engine \<Rightarrow> bool" where
  "tasks_kept finished e e' =
     ((\<forall>k old g. group_at e k = Some old \<longrightarrow> group_at e' k = Some g \<longrightarrow> \<not> finished (g_task old) \<longrightarrow>
         g_task g = g_task old \<and>
         g_wakes g = g_wakes old + (if rules_changed (g_desired old) (g_desired g) then 1 else 0)) \<and>
      (\<forall>i old g. relay_at e i = Some old \<longrightarrow> relay_at e' i = Some g \<longrightarrow> rg_key old = rg_key g \<longrightarrow>
         \<not> finished (rg_task old) \<longrightarrow> rg_task g = rg_task old))"

lemma reconcile_supervised:
  assumes wf: "wf_config ua js c" and ok: "keys_ok e" and room: "counter_room e (length (forwards c))"
    and r: "reconcile ua js route finished c e = (e', res)"
  shows "res = Inr () \<and> supervised c e' \<and> keys_ok e' \<and> (\<forall>f \<in> set (forwards c). continued route c e e' f) \<and>
    tasks_kept finished e e'"
proof -
  obtain e2 where
    rec: "reconcile ua js route finished c e =
       (apply_plan finished c (build_plan (placed_in c e2) (forwards c) ([], [])) e2, Inr ())"
    and sess: "same_sessions (e\<lparr>en_fps := refresh_fingerprints route c (en_fps e)\<rparr>) e2"
    and pl: "\<And>f. f \<in> set (forwards c) \<Longrightarrow> placed_rule c e2 f"
    and tr: "\<And>f. f \<in> set (forwards c) \<Longrightarrow> tracked c (e\<lparr>en_fps := refresh_fingerprints route c (en_fps e)\<rparr>) e2 f"
    and ok2': "keys_ok e \<Longrightarrow> keys_ok e2"
    by (rule reconcile_tracks [OF wf room, of route finished]) (rule that; assumption)
  have ok2: "keys_ok e2" by (rule ok2' [OF ok])
  define pl' where "pl' = placed_in c e2"
  define gp where "gp = fst (build_plan pl' (forwards c) ([], []))"
  define rp where "rp = snd (build_plan pl' (forwards c) ([], []))"
  have e': "e' = apply_plan finished c (gp, rp) e2" and res: "res = Inr ()"
    using r rec by (simp_all add: gp_def rp_def pl'_def)
  have d: "distinct (map fs_id (forwards c))"
    using forwards_dir.entries_unambiguous [OF wf] by (rule unambiguousD(1))
  have spec: "ru_spec (pl_rule (pl' f)) = f" if "f \<in> set (forwards c)" for f
    using pl [OF that] by (auto simp: placed_rule_def pl'_def split: option.splits)
  have rules: "rules_of gp k = map (pl_rule \<circ> pl') (filter (\<lambda>f. pl_target (pl' f) = None \<and> pl_key (pl' f) = k) (forwards c))" for k
    using build_plan_groups(1) [of pl' "forwards c" "([], [])" k] by (simp add: gp_def rules_of_def)
  have gkeys: "fst ` set gp = (pl_key \<circ> pl') ` {f \<in> set (forwards c). pl_target (pl' f) = None}"
    using build_plan_groups(2) [of pl' "forwards c" "([], [])"] by (simp add: gp_def)
  have gd: "distinct (map fst gp)" unfolding gp_def by (rule build_plan_groups(3)) simp
  have rd: "distinct (map fst rp)" unfolding rp_def by (rule build_plan_relay_keys) simp
  have rmap: "map_of rp i = (case List.find (\<lambda>f. fs_id f = i \<and> pl_target (pl' f) \<noteq> None) (forwards c) of
        Some f \<Rightarrow> Some (relay_item (pl' f)) | None \<Rightarrow> None)" for i
    using build_plan_relays [OF d spec, of "([], [])" i] unfolding rp_def by (simp only: snd_conv map_of.simps)
  have dg: "distinct (map fst (en_groups e2))" and dr: "distinct (map fst (en_relays e2))"
    using ok2 by (simp_all add: keys_ok_def)
  note at = apply_plan_at [OF gd rd dg dr, where c = c and finished = finished, folded e']
  have entry: "entry_of (en_shared e') (fs_id f) = entry_of (en_shared e2) (fs_id f)"
    if "f \<in> set (forwards c)" for f
    using that by (simp add: at(7) entry_of_retain)
  have served: "case entry_of (en_shared e') (fs_id f) of None \<Rightarrow> False
      | Some en \<Rightarrow> se_spec en = f \<and> served e' f en" if f: "f \<in> set (forwards c)" for f
  proof -
    obtain en where en: "entry_of (en_shared e2) (fs_id f) = Some en" "se_spec en = f"
      "pl_key (pl' f) = se_key en" "pl_target (pl' f) = None \<longleftrightarrow> \<not> is_relay (fs_tunnel f)"
      "ru_generation (pl_rule (pl' f)) = se_generation en"
      using pl [OF f] by (auto simp: placed_rule_def pl'_def split: option.splits)
    have "served e' f en"
    proof (cases "is_relay (fs_tunnel f)")
      case True
      have "List.find (\<lambda>g. fs_id g = fs_id f \<and> pl_target (pl' g) \<noteq> None) (forwards c) = Some f"
        using f True en(4) distinct_map_unique [OF d] by (intro find_unique) auto
      then have "map_of rp (fs_id f) = Some (relay_item (pl' f))" by (simp add: rmap)
      from at(2) [OF this [unfolded relay_item_def]] True spec [OF f] en show ?thesis
        by (auto simp: served_def)
    next
      case False
      then have "f \<in> {f \<in> set (forwards c). pl_target (pl' f) = None}" using f en(4) by simp
      then have "(pl_key \<circ> pl') f \<in> fst ` set gp" unfolding gkeys by (rule imageI)
      then have "se_key en \<in> fst ` set gp" using en(3) by simp
      then obtain p where "map_of gp (se_key en) = Some (p, rules_of gp (se_key en))" by (rule map_of_rules)
      from at(1) [OF this] obtain g where g: "group_at e' (se_key en) = Some g"
        "g_desired g = rules_of gp (se_key en)" by blast
      have "pl_rule (pl' f) \<in> set (g_desired g)" using f en(3,4) False by (auto simp: g(2) rules)
      with g(1) False spec [OF f] en(5) show ?thesis by (auto simp: served_def)
    qed
    with en entry [OF f] show ?thesis by simp
  qed
  have keys: "fst ` set (entries (en_shared e')) = fs_id ` set (forwards c)"
  proof (intro set_eqI iffI)
    fix i
    assume "i \<in> fst ` set (entries (en_shared e'))"
    then show "i \<in> fs_id ` set (forwards c)" by (auto simp: entry_keys at(7) entry_of_retain split: if_splits)
  next
    fix i
    assume "i \<in> fs_id ` set (forwards c)"
    then obtain f where "f \<in> set (forwards c)" "i = fs_id f" by auto
    with served [OF this(1)] show "i \<in> fst ` set (entries (en_shared e'))"
      by (auto simp: entry_keys split: option.splits)
  qed
  have groups: "g_desired g \<noteq> [] \<and> distinct (map (fs_id \<circ> ru_spec) (g_desired g)) \<and> (\<forall>r \<in> set (g_desired g). ru_spec r \<in> set (forwards c) \<and>
      \<not> is_relay (fs_tunnel (ru_spec r)) \<and>
      (case entry_of (en_shared e') (fs_id (ru_spec r)) of None \<Rightarrow> False | Some en \<Rightarrow> se_key en = k))"
    if kg: "(k, g) \<in> set (en_groups e')" for k g
  proof -
    have "k \<in> fst ` set gp" using kg at(3) by force
    then obtain p where "map_of gp k = Some (p, rules_of gp k)" by (rule map_of_rules)
    from at(1) [OF this] have "g_desired g = rules_of gp k"
      using kg at(5) by (auto simp: group_at_def map_of_eq_Some_iff dest: eq_key_imp_eq_value)
    moreover have "distinct (map (fs_id \<circ> ru_spec) (rules_of gp k))"
    proof -
      have "map (fs_id \<circ> ru_spec) (rules_of gp k) =
          map fs_id (filter (\<lambda>f. pl_target (pl' f) = None \<and> pl_key (pl' f) = k) (forwards c))"
        unfolding rules map_map by (rule map_cong) (simp_all add: spec)
      then show ?thesis using d by (simp add: distinct_map_filter)
    qed
    moreover have "rules_of gp k \<noteq> []" using \<open>k \<in> fst ` set gp\<close> by (auto simp: gkeys rules filter_empty_conv)
    moreover have "ru_spec r \<in> set (forwards c) \<and> \<not> is_relay (fs_tunnel (ru_spec r)) \<and>
      (case entry_of (en_shared e') (fs_id (ru_spec r)) of None \<Rightarrow> False | Some en \<Rightarrow> se_key en = k)"
      if "r \<in> set (rules_of gp k)" for r
    proof -
      from that obtain f where f: "f \<in> set (forwards c)" "pl_target (pl' f) = None" "pl_key (pl' f) = k"
        "r = pl_rule (pl' f)" by (auto simp: rules)
      with pl [OF f(1)] spec [OF f(1)] entry [OF f(1)] show ?thesis
        by (auto simp: placed_rule_def pl'_def split: option.splits)
    qed
    ultimately show ?thesis by simp
  qed
  have relays: "ru_spec (rg_desired g) \<in> set (forwards c) \<and> fs_id (ru_spec (rg_desired g)) = i \<and>
      is_relay (fs_tunnel (ru_spec (rg_desired g)))" if ig: "(i, g) \<in> set (en_relays e')" for i g
  proof -
    have "i \<in> fst ` set rp" using ig at(4) by force
    then have "map_of rp i \<noteq> None" by (simp add: map_of_eq_None_iff)
    then obtain f where m: "map_of rp i = Some (relay_item (pl' f))"
      and "List.find (\<lambda>f. fs_id f = i \<and> pl_target (pl' f) \<noteq> None) (forwards c) = Some f"
      by (auto simp: rmap split: option.splits)
    then have f: "f \<in> set (forwards c)" "fs_id f = i" "pl_target (pl' f) \<noteq> None"
      by (auto dest: find_SomeD)
    from at(2) [OF m [unfolded relay_item_def]] have "rg_desired g = pl_rule (pl' f)"
      using ig at(6) by (auto simp: relay_at_def map_of_eq_Some_iff dest: eq_key_imp_eq_value)
    with f pl [OF f(1)] spec [OF f(1)] show ?thesis
      by (auto simp: placed_rule_def pl'_def split: option.splits)
  qed
  have cont: "continued route c e e' f" if f: "f \<in> set (forwards c)" for f
  proof -
    obtain k s t n where "rule_key c (refresh_fingerprints route c (en_fps e)) f = Inr (k, s, t)"
      "entry_of (en_shared e2) (fs_id f) = Some (tracked_entry c (entry_of (en_shared e) (fs_id f)) f k s n)"
      "keeps_running (entry_of (en_shared e) (fs_id f)) f k \<or> unat (en_generation e) < unat n"
      using tr [OF f] unfolding tracked_def by auto
    with entry [OF f] show ?thesis unfolding continued_def by auto
  qed
  have at_e: "group_at e2 k = group_at e k" "relay_at e2 i = relay_at e i" for k i
    using sess by (simp_all add: same_sessions_def group_at_def relay_at_def)
  have kept: "tasks_kept finished e e'"
    unfolding tasks_kept_def
  proof (intro conjI allI impI)
    fix k old g
    assume old: "group_at e k = Some old" and g: "group_at e' k = Some g" and fin: "\<not> finished (g_task old)"
    from g have "k \<in> fst ` set (en_groups e')" by (force simp: group_at_def dest: map_of_SomeD)
    then have "k \<in> fst ` set gp" by (simp add: at(3))
    then obtain p where "map_of gp k = Some (p, rules_of gp k)" by (rule map_of_rules)
    from at(1) [OF this] old g fin
    show "g_task g = g_task old"
      and "g_wakes g = g_wakes old + (if rules_changed (g_desired old) (g_desired g) then 1 else 0)"
      by (auto simp: at_e)
  next
    fix i old g
    assume old: "relay_at e i = Some old" and g: "relay_at e' i = Some g" and k: "rg_key old = rg_key g"
      and fin: "\<not> finished (rg_task old)"
    from g have "i \<in> fst ` set (en_relays e')" by (force simp: relay_at_def dest: map_of_SomeD)
    then have "i \<in> fst ` set rp" by (simp add: at(4))
    then obtain src tgt r k' where m: "map_of rp i = Some (src, tgt, r, k')"
      by (metis map_of_eq_None_iff option.exhaust prod_cases4)
    from at(2) [OF m] old g k fin show "rg_task g = rg_task old" by (auto simp: at_e)
  qed
  have "distinct (map fst (entries (en_shared e')))"
    using ok2 by (simp add: at(7) retain_entries_def keys_ok_def distinct_map_filter)
  then have "keys_ok e'" using at(5,6) by (simp add: keys_ok_def)
  moreover have "supervised c e'"
    unfolding supervised_def using served keys groups relays by auto
  ultimately show ?thesis using res cont kept by simp
qed

section \<open>Properties\<close>


lemma new_engine_ok: "keys_ok new_engine" "counter_room new_engine n \<longleftrightarrow> n < 2 ^ 64"
  by (simp_all add: keys_ok_def new_engine_def counter_room_def)


text \<open>
  A reconciliation never disturbs what did not change: a rule with the same
  runtime definition and connection key keeps its generation, state, counters and session
  task, taking over only new labels; any other rule gets a generation above all earlier ones,
  so that reports of its former tasks count as stale.
\<close>

theorem reconcile_undisturbed:
  assumes "wf_config ua js c" and "keys_ok e" and "counter_room e (length (forwards c))"
    and "reconcile ua js route finished c e = (e', res)" and "f \<in> set (forwards c)"
  shows "tasks_kept finished e e' \<and>
    (\<exists>k s t en'. rule_key c (refresh_fingerprints route c (en_fps e)) f = Inr (k, s, t) \<and>
      entry_of (en_shared e') (fs_id f) = Some en' \<and> se_key en' = k \<and>
      (if keeps_running (entry_of (en_shared e) (fs_id f)) f k
       then en' = relabel c f s (the (entry_of (en_shared e) (fs_id f)))
       else unat (en_generation e) < unat (se_generation en') \<and>
            st_active_connections (se_status en') = 0 \<and> st_retry_count (se_status en') = 0))"
proof -
  from reconcile_supervised [OF assms(1-4)] assms(5)
  have kept: "tasks_kept finished e e'" and cont: "continued route c e e' f" by blast+
  from cont obtain k s t n where k: "rule_key c (refresh_fingerprints route c (en_fps e)) f = Inr (k, s, t)"
    and en: "entry_of (en_shared e') (fs_id f) =
      Some (tracked_entry c (entry_of (en_shared e) (fs_id f)) f k s n)"
    and n: "keeps_running (entry_of (en_shared e) (fs_id f)) f k \<or> unat (en_generation e) < unat n"
    unfolding continued_def by blast
  show ?thesis
    using kept k en n
    by (cases "keeps_running (entry_of (en_shared e) (fs_id f)) f k")
      (simp_all add: tracked_entry_def initial_status_def relabel_def keeps_running_def split: option.splits)
qed

theorem reconcile_undisturbed_witness:
  "\<exists>en'. entry_of (en_shared (fst (reconcile no_ext small_json sp_name (\<lambda>_. False) sample_config new_engine))) ''f1''
      = Some en' \<and> 0 < unat (se_generation en')"
proof -
  have room: "counter_room new_engine (length (forwards sample_config))"
    by (simp add: new_engine_ok sample_config_def)
  have f: "sample_local \<in> set (forwards sample_config)" by (simp add: sample_config_def)
  have old: "\<not> keeps_running (entry_of (en_shared new_engine) i) sample_local k" for i k
    by (simp add: keeps_running_def entry_of_def new_engine_def)
  show ?thesis
    using reconcile_undisturbed [OF sample_wf new_engine_ok(1) room prod.collapse [symmetric] f,
        where route = sp_name and finished = "\<lambda>_. False"] old
    by (auto simp: sample_local_def new_engine_def)
qed

end
