(* ===== verification/Lifecycle.thy ===== *)
theory Lifecycle
  imports Supervision
begin

text \<open>
  Retry, restart, reconnect and shutdown of \<open>crates/fwm-core/src/engine/lifecycle.rs\<close> and
  \<open>engine/mod.rs\<close>. A generation request validates the whole selection before it changes
  anything; \<open>None\<close> in a loop over the supervised rules stands for the \<open>unwrap\<close> of a status
  entry that is missing.
\<close>

section \<open>Selecting what to restart\<close>

datatype operation = Retry | Restart

record skipped_forward =
  sk_id :: string
  sk_name :: string
  sk_reason :: string

record operation_report =
  affected :: "string list"
  skipped :: "skipped_forward list"

definition supervisor_alive :: "(nat \<Rightarrow> bool) \<Rightarrow> engine \<Rightarrow> string \<Rightarrow> connection_key \<Rightarrow> bool" where
  "supervisor_alive finished e i k =
     (case group_at e k of
        Some g \<Rightarrow> \<not> finished (g_task g)
      | None \<Rightarrow> (case relay_at e i of None \<Rightarrow> False | Some g \<Rightarrow> \<not> finished (rg_task g)))"

definition skip_reason ::
    "(nat \<Rightarrow> bool) \<Rightarrow> engine \<Rightarrow> operation \<Rightarrow> string \<Rightarrow> status_entry \<Rightarrow> string option" where
  "skip_reason finished e op i en =
     (if fs_desired_state (se_spec en) \<noteq> Running then Some ''stopped''
      else if op = Retry \<and> supervisor_alive finished e i (se_key en) then
        (case st_state (se_status en) of
           Established \<Rightarrow> Some ''already_established''
         | Starting \<Rightarrow> Some ''already_starting''
         | Stopping \<Rightarrow> Some ''stopping''
         | _ \<Rightarrow> None)
      else None)"

fun scan_selection ::
    "(nat \<Rightarrow> bool) \<Rightarrow> engine \<Rightarrow> operation \<Rightarrow> string set \<Rightarrow> string list \<Rightarrow> operation_report option" where
  "scan_selection finished e op seen [] = Some \<lparr>affected = [], skipped = []\<rparr>"
| "scan_selection finished e op seen (i # is) =
     (if i \<in> seen then scan_selection finished e op seen is
      else (case entry_of (en_shared e) i of
          None \<Rightarrow> None
        | Some en \<Rightarrow>
            map_option (\<lambda>rep. case skip_reason finished e op i en of
                Some reason \<Rightarrow> rep\<lparr>skipped := \<lparr>sk_id = i, sk_name = fs_name (se_spec en), sk_reason = reason\<rparr>
                                              # skipped rep\<rparr>
              | None \<Rightarrow> rep\<lparr>affected := i # affected rep\<rparr>)
            (scan_selection finished e op (insert i seen) is)))"

section \<open>Giving rules a new generation\<close>

definition restart_entry :: "u64 \<Rightarrow> status_entry \<Rightarrow> status_entry" where
  "restart_entry n en = en
     \<lparr>se_generation := n,
      se_status := (se_status en)\<lparr>st_active_connections := 0, st_retry_count := 0, st_state := Starting,
                                  st_last_error := None, st_next_retry_unix_ms := None\<rparr>\<rparr>"

type_synonym bump_state = "shared \<times> u64"

definition bump_rule :: "string set \<Rightarrow> bump_state \<Rightarrow> rule \<Rightarrow> (bump_state \<times> rule) option" where
  "bump_rule sel st r =
     (let i = fs_id (ru_spec r) in
      if i \<notin> sel then Some (st, r)
      else (case entry_of (fst st) i of
          None \<Rightarrow> None
        | Some en \<Rightarrow> let n = snd st + 1 in
            Some ((put_entry i (restart_entry n en) (fst st), n), r\<lparr>ru_generation := n\<rparr>)))"

fun bump_rules :: "string set \<Rightarrow> bump_state \<Rightarrow> rule list \<Rightarrow> (bump_state \<times> rule list) option" where
  "bump_rules sel st [] = Some (st, [])"
| "bump_rules sel st (r # rs) =
     Option.bind (bump_rule sel st r) (\<lambda>(st', r').
     map_option (\<lambda>(st'', rs'). (st'', r' # rs')) (bump_rules sel st' rs))"

fun bump_groups ::
    "string set \<Rightarrow> bump_state \<Rightarrow> (connection_key \<times> group) list \<Rightarrow>
       (bump_state \<times> (connection_key \<times> group) list) option" where
  "bump_groups sel st [] = Some (st, [])"
| "bump_groups sel st ((k, g) # gs) =
     Option.bind (bump_rules sel st (g_desired g)) (\<lambda>(st', rs).
     let changed = (\<exists>r \<in> set (g_desired g). fs_id (ru_spec r) \<in> sel);
         g' = (if changed then g\<lparr>g_desired := rs, g_wakes := g_wakes g + 1\<rparr> else g)
     in map_option (\<lambda>(st'', gs'). (st'', (k, g') # gs')) (bump_groups sel st' gs))"

fun bump_relays ::
    "string set \<Rightarrow> bump_state \<Rightarrow> (string \<times> relay_group) list \<Rightarrow>
       (bump_state \<times> (string \<times> relay_group) list) option" where
  "bump_relays sel st [] = Some (st, [])"
| "bump_relays sel st ((i, g) # gs) =
     Option.bind (bump_rule sel st (rg_desired g)) (\<lambda>(st', r).
     let g' = (if fs_id (ru_spec (rg_desired g)) \<in> sel
               then g\<lparr>rg_desired := r, rg_wakes := rg_wakes g + 1\<rparr> else g)
     in map_option (\<lambda>(st'', gs'). (st'', (i, g') # gs')) (bump_relays sel st' gs))"

definition bump_all :: "string set \<Rightarrow> engine \<Rightarrow> engine option" where
  "bump_all sel e =
     Option.bind (bump_groups sel (en_shared e, en_generation e) (en_groups e)) (\<lambda>(st, gs).
     Option.bind (bump_relays sel st (en_relays e)) (\<lambda>(st', rs).
     Some (e\<lparr>en_groups := gs, en_relays := rs, en_shared := fst st', en_generation := snd st'\<rparr>)))"

text \<open>\<open>None\<close> is a panic; an error leaves the engine as it was.\<close>

definition request_generation ::
    "(nat \<Rightarrow> bool) \<Rightarrow> string list \<Rightarrow> operation \<Rightarrow> engine \<Rightarrow>
       (engine \<times> (engine_error + operation_report)) option" where
  "request_generation finished ids op e =
     (case List.find (\<lambda>i. entry_of (en_shared e) i = None) ids of
        Some i \<Rightarrow> Some (e, Inl (NoForward i))
      | None \<Rightarrow>
          Option.bind (scan_selection finished e op {} ids) (\<lambda>rep.
          if checked_add (en_generation e) (of_nat (length (affected rep))) = None
          then Some (e, Inl GenerationExhausted)
          else Option.bind (bump_all (set (affected rep)) e) (\<lambda>e'.
            Some (revive_finished_relays finished (revive_finished_groups finished e'), Inr rep))))"

definition retry_rules where
  "retry_rules finished ids e = request_generation finished ids Retry e"

definition restart_rules where
  "restart_rules finished ids e = request_generation finished ids Restart e"

section \<open>Reconnecting a server\<close>

definition drop_sessions :: "string \<Rightarrow> engine \<Rightarrow> engine" where
  "drop_sessions i e =
     (let hit = (\<lambda>(k, g). \<exists>r \<in> set (g_desired g). fs_server_id (ru_spec r) = i);
          rhit = (\<lambda>(j :: string, g). sp_id (rg_source g) = i \<or> sp_id (rg_target g) = i)
      in e\<lparr>en_groups := filter (Not \<circ> hit) (en_groups e), en_relays := filter (Not \<circ> rhit) (en_relays e),
           en_cancelled := en_cancelled e @ map (g_task \<circ> snd) (filter hit (en_groups e))
                                          @ map (rg_task \<circ> snd) (filter rhit (en_relays e))\<rparr>)"

definition reconnect_server ::
    "(nat \<Rightarrow> bool) \<Rightarrow> (config \<Rightarrow> nat option) \<Rightarrow> (server_profile \<Rightarrow> string) \<Rightarrow> (nat \<Rightarrow> bool) \<Rightarrow>
       config \<Rightarrow> string \<Rightarrow> engine \<Rightarrow> (engine \<times> (engine_error + operation_report)) option" where
  "reconnect_server ua js route finished c sel e =
     (case server c sel of
        None \<Rightarrow> Some (e, Inl NoServer)
      | Some s \<Rightarrow>
          (let e1 = e\<lparr>en_fps := (en_fps e)(sp_id s := None)\<rparr> in
           case select_server_forwards c (sp_id s) of
             Inl err \<Rightarrow> Some (e1, Inl (NoSelection err))
           | Inr ids \<Rightarrow>
               Option.bind (request_generation finished ids Restart e1) (\<lambda>(e2, res).
               case res of
                 Inl err \<Rightarrow> Some (e2, Inl err)
               | Inr rep \<Rightarrow>
                   (case reconcile ua js route finished c (drop_sessions (sp_id s) e2) of
                      (e3, Inl err) \<Rightarrow> Some (e3, Inl err)
                    | (e3, Inr _) \<Rightarrow> Some (e3, Inr rep)))))"

definition refresh_ssh_config ::
    "(nat \<Rightarrow> bool) \<Rightarrow> (config \<Rightarrow> nat option) \<Rightarrow> (server_profile \<Rightarrow> string) \<Rightarrow> (nat \<Rightarrow> bool) \<Rightarrow>
       config \<Rightarrow> engine \<Rightarrow> engine \<times> (engine_error + unit)" where
  "refresh_ssh_config ua js route finished c e =
     reconcile ua js route finished c (e\<lparr>en_fps := Map.empty\<rparr>)"

section \<open>Status and shutdown\<close>

definition snapshot :: "engine \<Rightarrow> forward_status list" where
  "snapshot e = sort_key st_name (map (se_status \<circ> snd) (entries (en_shared e)))"

definition stop_entry :: "status_entry \<Rightarrow> status_entry" where
  "stop_entry en = en\<lparr>se_status := (se_status en)\<lparr>st_state := RStopped, st_next_retry_unix_ms := None,
     st_active_connections := 0\<rparr>\<rparr>"

text \<open>The tasks are joined, by force after the deadline, before the entries are settled.\<close>

definition shutdown :: "engine \<Rightarrow> engine" where
  "shutdown e = e
     \<lparr>en_groups := [], en_relays := [], en_retired := [],
      en_cancelled := en_cancelled e @ map (g_task \<circ> snd) (en_groups e) @ map (rg_task \<circ> snd) (en_relays e),
      en_shared := (en_shared e)\<lparr>entries := map (\<lambda>(i, en). (i, stop_entry en)) (entries (en_shared e))\<rparr>\<rparr>"

section \<open>What a bump changes\<close>

abbreviation rule_id :: "rule \<Rightarrow> string" where
  "rule_id r \<equiv> fs_id (ru_spec r)"

definition hits :: "string set \<Rightarrow> rule list \<Rightarrow> nat" where
  "hits sel rs = length (filter (\<lambda>r. rule_id r \<in> sel) rs)"

lemma hits_simps [simp]:
  "hits sel [] = 0" "hits sel (r # rs) = (if rule_id r \<in> sel then 1 else 0) + hits sel rs"
  "hits sel (rs @ qs) = hits sel rs + hits sel qs"
  by (simp_all add: hits_def)

text \<open>The entries in \<open>S\<close> are restarted under fresh generations, all others stay.\<close>

definition bumped :: "string set \<Rightarrow> nat \<Rightarrow> bump_state \<Rightarrow> bump_state \<Rightarrow> bool" where
  "bumped S n st st' =
     (unat (snd st') = unat (snd st) + n \<and>
      (\<forall>i. i \<notin> S \<longrightarrow> entry_of (fst st') i = entry_of (fst st) i) \<and>
      (\<forall>i \<in> S. \<exists>en m. entry_of (fst st) i = Some en \<and> entry_of (fst st') i = Some (restart_entry m en) \<and>
         unat (snd st) < unat m \<and> unat m \<le> unat (snd st')) \<and>
      map fst (entries (fst st')) = map fst (entries (fst st)))"

lemma bumped_in:
  assumes "bumped S n st st'" and "i \<in> S" and "entry_of (fst st) i = Some en"
  obtains m where "entry_of (fst st') i = Some (restart_entry m en)"
    and "unat (snd st) < unat m" and "unat m \<le> unat (snd st')"
proof -
  from assms(1,2) obtain en' m where m: "entry_of (fst st) i = Some en'"
    "entry_of (fst st') i = Some (restart_entry m en')" "unat (snd st) < unat m" "unat m \<le> unat (snd st')"
    unfolding bumped_def by blast
  with assms(3) that show thesis by simp
qed

lemma bumped_refl: "bumped {} 0 st st"
  by (simp add: bumped_def)

lemma bumped_trans:
  assumes a: "bumped S m st st1" and b: "bumped T n st1 st2" and disj: "S \<inter> T = {}"
  shows "bumped (S \<union> T) (m + n) st st2"
  unfolding bumped_def
proof (intro conjI allI impI ballI)
  show "unat (snd st2) = unat (snd st) + (m + n)" using a b by (simp add: bumped_def)
  show "map fst (entries (fst st2)) = map fst (entries (fst st))" using a b by (simp add: bumped_def)
  show "entry_of (fst st2) i = entry_of (fst st) i" if "i \<notin> S \<union> T" for i
    using a b that by (simp add: bumped_def)
  show "\<exists>en m. entry_of (fst st) i = Some en \<and> entry_of (fst st2) i = Some (restart_entry m en) \<and>
      unat (snd st) < unat m \<and> unat m \<le> unat (snd st2)" if i: "i \<in> S \<union> T" for i
  proof (cases "i \<in> S")
    case True
    then have "i \<notin> T" using disj by blast
    moreover obtain en k where "entry_of (fst st) i = Some en" "entry_of (fst st1) i = Some (restart_entry k en)"
      "unat (snd st) < unat k" "unat k \<le> unat (snd st1)" using a True unfolding bumped_def by blast
    moreover from \<open>i \<notin> T\<close> have "entry_of (fst st2) i = entry_of (fst st1) i" using b by (simp add: bumped_def)
    moreover have "unat (snd st1) \<le> unat (snd st2)" using b by (simp add: bumped_def)
    ultimately show ?thesis by auto
  next
    case False
    then have "i \<in> T" using i by blast
    then obtain en k where "entry_of (fst st1) i = Some en" "entry_of (fst st2) i = Some (restart_entry k en)"
      "unat (snd st1) < unat k" "unat k \<le> unat (snd st2)" using b unfolding bumped_def by blast
    moreover have "entry_of (fst st1) i = entry_of (fst st) i" using a False unfolding bumped_def by blast
    moreover have "unat (snd st) \<le> unat (snd st1)" using a unfolding bumped_def by linarith
    ultimately show ?thesis by auto
  qed
qed

definition rule_bumped :: "string set \<Rightarrow> shared \<Rightarrow> rule \<Rightarrow> rule \<Rightarrow> bool" where
  "rule_bumped sel sh r r' =
     (ru_spec r' = ru_spec r \<and>
      (if rule_id r \<in> sel
       then (case entry_of sh (rule_id r) of None \<Rightarrow> False | Some en \<Rightarrow> ru_generation r' = se_generation en)
       else r' = r))"

lemma rule_bumped_cong:
  "rule_bumped sel sh r r' \<Longrightarrow> entry_of sh' (rule_id r) = entry_of sh (rule_id r) \<Longrightarrow> rule_bumped sel sh' r r'"
  by (simp add: rule_bumped_def)

definition room :: "bump_state \<Rightarrow> nat \<Rightarrow> bool" where
  "room st n = (unat (snd st) + n < 2 ^ 64)"

lemma keys_put_entry: "entry_of s i \<noteq> None \<Longrightarrow> map fst (entries (put_entry i e s)) = map fst (entries s)"
  by (auto simp: put_entry_def update_keys entry_of_def map_of_eq_None_iff)

lemma bump_rule_bumped:
  assumes "rule_id r \<in> sel \<Longrightarrow> entry_of (fst st) (rule_id r) \<noteq> None" and "room st (hits sel [r])"
  obtains st' r' where "bump_rule sel st r = Some (st', r')"
    and "bumped (sel \<inter> {rule_id r}) (hits sel [r]) st st'" and "rule_bumped sel (fst st') r r'"
proof (cases "rule_id r \<in> sel")
  case False
  then show ?thesis by (intro that [of st r]) (simp_all add: bump_rule_def rule_bumped_def bumped_refl)
next
  case True
  with assms(1) obtain en where en: "entry_of (fst st) (rule_id r) = Some en" by auto
  let ?n = "snd st + 1"
  have n: "unat ?n = unat (snd st) + 1"
    using assms(2) True by (simp add: room_def unat_word_ariths)
  show ?thesis
  proof (rule that)
    show "bump_rule sel st r =
        Some ((put_entry (rule_id r) (restart_entry ?n en) (fst st), ?n), r\<lparr>ru_generation := ?n\<rparr>)"
      using True en by (simp add: bump_rule_def Let_def)
    show "bumped (sel \<inter> {rule_id r}) (hits sel [r]) st (put_entry (rule_id r) (restart_entry ?n en) (fst st), ?n)"
    proof -
      have "sel \<inter> {rule_id r} = {rule_id r}" using True by auto
      then show ?thesis using True en n
        by (simp add: bumped_def keys_put_entry) (rule exI [of _ ?n], simp)
    qed
    show "rule_bumped sel (fst (put_entry (rule_id r) (restart_entry ?n en) (fst st), ?n)) r (r\<lparr>ru_generation := ?n\<rparr>)"
      using True by (simp add: rule_bumped_def restart_entry_def)
  qed
qed

lemma room_step: "room st (m + n) \<Longrightarrow> bumped S m st st' \<Longrightarrow> room st' n \<and> room st m"
  by (simp add: room_def bumped_def)

lemma bumped_keeps_entry: "bumped S n st st' \<Longrightarrow> entry_of (fst st) i \<noteq> None \<Longrightarrow> entry_of (fst st') i \<noteq> None"
  unfolding bumped_def by (metis option.distinct(1))

lemma bumped_other: "bumped S n st st' \<Longrightarrow> i \<notin> S \<Longrightarrow> entry_of (fst st') i = entry_of (fst st) i"
  by (simp add: bumped_def)

lemma bump_rules_bumped:
  assumes "distinct (map rule_id rs)" and "\<And>r. r \<in> set rs \<Longrightarrow> entry_of (fst st) (rule_id r) \<noteq> None"
    and "room st (hits sel rs)"
  obtains st' rs' where "bump_rules sel st rs = Some (st', rs')"
    and "bumped (sel \<inter> set (map rule_id rs)) (hits sel rs) st st'"
    and "list_all2 (rule_bumped sel (fst st')) rs rs'"
  using assms
proof (induction rs arbitrary: st thesis)
  case Nil
  show ?case by (rule Nil.prems(1) [of st "[]"]) (simp_all add: bumped_refl)
next
  case (Cons r rs)
  have "room st (hits sel [r])" using Cons.prems(4) by (simp add: room_def)
  then obtain st1 r1 where 1: "bump_rule sel st r = Some (st1, r1)"
    "bumped (sel \<inter> {rule_id r}) (hits sel [r]) st st1" "rule_bumped sel (fst st1) r r1"
    using bump_rule_bumped [of r sel st] Cons.prems(3) [of r] by auto
  have ex: "\<And>q. q \<in> set rs \<Longrightarrow> entry_of (fst st1) (rule_id q) \<noteq> None"
    using bumped_keeps_entry [OF 1(2)] Cons.prems(3) by simp
  have rm: "room st1 (hits sel rs)" using room_step [OF _ 1(2)] Cons.prems(4) by (simp add: room_def)
  obtain st2 rs2 where 2: "bump_rules sel st1 rs = Some (st2, rs2)"
    "bumped (sel \<inter> set (map rule_id rs)) (hits sel rs) st1 st2" "list_all2 (rule_bumped sel (fst st2)) rs rs2"
    using Cons.IH [OF _ _ ex rm] Cons.prems(2) by auto
  have "rule_id r \<notin> sel \<inter> set (map rule_id rs)" using Cons.prems(2) by auto
  then have keep: "rule_bumped sel (fst st2) r r1"
    using rule_bumped_cong [OF 1(3)] bumped_other [OF 2(2)] by simp
  have "(sel \<inter> {rule_id r}) \<union> (sel \<inter> set (map rule_id rs)) = sel \<inter> set (map rule_id (r # rs))" by auto
  moreover have "(sel \<inter> {rule_id r}) \<inter> (sel \<inter> set (map rule_id rs)) = {}" using Cons.prems(2) by auto
  ultimately have "bumped (sel \<inter> set (map rule_id (r # rs))) (hits sel (r # rs)) st st2"
    using bumped_trans [OF 1(2) 2(2)] by simp
  with 1 2 keep show ?case by (intro Cons.prems(1) [of st2 "r1 # rs2"]) simp_all
qed

text \<open>A session after a bump: the same session with its rules bumped.\<close>

definition group_bumped :: "string set \<Rightarrow> shared \<Rightarrow> group \<Rightarrow> group \<Rightarrow> bool" where
  "group_bumped sel sh g g' =
     (list_all2 (rule_bumped sel sh) (g_desired g) (g_desired g') \<and> g_task g' = g_task g \<and>
      g_profile g' = g_profile g \<and> g_policy g' = g_policy g)"

definition relay_bumped :: "string set \<Rightarrow> shared \<Rightarrow> relay_group \<Rightarrow> relay_group \<Rightarrow> bool" where
  "relay_bumped sel sh g g' =
     (rule_bumped sel sh (rg_desired g) (rg_desired g') \<and> rg_task g' = rg_task g \<and> rg_key g' = rg_key g)"

definition keyed :: "('v \<Rightarrow> 'v \<Rightarrow> bool) \<Rightarrow> ('k \<times> 'v) list \<Rightarrow> ('k \<times> 'v) list \<Rightarrow> bool" where
  "keyed R = list_all2 (\<lambda>(k, v) (k', v'). k' = k \<and> R v v')"

lemma keyed_simps [simp]:
  "keyed R [] al \<longleftrightarrow> al = []"
  "keyed R ((k, v) # al) al' \<longleftrightarrow> (\<exists>v' bl. al' = (k, v') # bl \<and> R v v' \<and> keyed R al bl)"
  by (auto simp: keyed_def list_all2_Cons1)

lemma keyed_map_of: "keyed R al al' \<Longrightarrow> map_of al k = Some v \<Longrightarrow> \<exists>v'. map_of al' k = Some v' \<and> R v v'"
  by (induction al arbitrary: al') (auto split: if_splits)

lemma keyed_back: "keyed R al al' \<Longrightarrow> (k, v') \<in> set al' \<Longrightarrow> \<exists>v. (k, v) \<in> set al \<and> R v v'"
  by (induction al arbitrary: al') (auto, blast+)

lemma keyed_keys: "keyed R al al' \<Longrightarrow> map fst al' = map fst al"
  by (induction al arbitrary: al') auto

lemma unselected_same:
  "list_all2 (rule_bumped sel sh) rs rs' \<Longrightarrow> \<forall>r \<in> set rs. rule_id r \<notin> sel \<Longrightarrow> rs' = rs"
  by (induction rule: list_all2_induct) (auto simp: rule_bumped_def)

definition group_rules :: "(connection_key \<times> group) list \<Rightarrow> rule list" where
  "group_rules gs = concat (map (g_desired \<circ> snd) gs)"

lemma group_rules_simps [simp]:
  "group_rules [] = []" "group_rules ((k, g) # gs) = g_desired g @ group_rules gs"
  by (simp_all add: group_rules_def)

lemma rules_bumped_cong:
  assumes "list_all2 (rule_bumped sel sh) rs rs'"
    and "\<And>r. r \<in> set rs \<Longrightarrow> entry_of sh' (rule_id r) = entry_of sh (rule_id r)"
  shows "list_all2 (rule_bumped sel sh') rs rs'"
  using assms by (induction rule: list_all2_induct) (auto intro: rule_bumped_cong)

lemma bump_groups_bumped:
  assumes "distinct (map rule_id (group_rules gs))"
    and "\<And>r. r \<in> set (group_rules gs) \<Longrightarrow> entry_of (fst st) (rule_id r) \<noteq> None"
    and "room st (hits sel (group_rules gs))"
  obtains st' gs' where "bump_groups sel st gs = Some (st', gs')"
    and "bumped (sel \<inter> set (map rule_id (group_rules gs))) (hits sel (group_rules gs)) st st'"
    and "keyed (group_bumped sel (fst st')) gs gs'"
  using assms
proof (induction gs arbitrary: st thesis)
  case Nil
  show ?case by (rule Nil.prems(1) [of st "[]"]) (simp_all add: bumped_refl)
next
  case (Cons kg gs)
  obtain k g where kg: "kg = (k, g)" by (cases kg)
  let ?rs = "g_desired g" and ?qs = "group_rules gs"
  have "room st (hits sel ?rs)" using Cons.prems(4) by (simp add: room_def kg)
  then obtain st1 rs1 where 1: "bump_rules sel st ?rs = Some (st1, rs1)"
    "bumped (sel \<inter> set (map rule_id ?rs)) (hits sel ?rs) st st1" "list_all2 (rule_bumped sel (fst st1)) ?rs rs1"
    using bump_rules_bumped [of ?rs st sel] Cons.prems(2,3) by (auto simp: kg)
  have ex: "\<And>q. q \<in> set ?qs \<Longrightarrow> entry_of (fst st1) (rule_id q) \<noteq> None"
    using bumped_keeps_entry [OF 1(2)] Cons.prems(3) by (simp add: kg)
  have rm: "room st1 (hits sel ?qs)"
    using room_step [OF _ 1(2)] Cons.prems(4) by (simp add: room_def kg)
  obtain st2 gs2 where 2: "bump_groups sel st1 gs = Some (st2, gs2)"
    "bumped (sel \<inter> set (map rule_id ?qs)) (hits sel ?qs) st1 st2" "keyed (group_bumped sel (fst st2)) gs gs2"
    using Cons.IH [OF _ _ ex rm] Cons.prems(2) by (auto simp: kg)
  have disj: "set (map rule_id ?rs) \<inter> set (map rule_id ?qs) = {}" using Cons.prems(2) by (simp add: kg)
  let ?changed = "\<exists>r \<in> set ?rs. rule_id r \<in> sel"
  let ?g = "if ?changed then g\<lparr>g_desired := rs1, g_wakes := g_wakes g + 1\<rparr> else g"
  have "list_all2 (rule_bumped sel (fst st2)) ?rs rs1"
    by (rule rules_bumped_cong [OF 1(3)]) (use disj in \<open>auto intro!: bumped_other [OF 2(2)]\<close>)
  then have g: "group_bumped sel (fst st2) g ?g"
    using unselected_same by (auto simp: group_bumped_def)
  have "(sel \<inter> set (map rule_id ?rs)) \<union> (sel \<inter> set (map rule_id ?qs))
      = sel \<inter> set (map rule_id (group_rules (kg # gs)))" by (auto simp: kg)
  moreover have "(sel \<inter> set (map rule_id ?rs)) \<inter> (sel \<inter> set (map rule_id ?qs)) = {}" using disj by blast
  ultimately have b: "bumped (sel \<inter> set (map rule_id (group_rules (kg # gs)))) (hits sel (group_rules (kg # gs))) st st2"
    using bumped_trans [OF 1(2) 2(2)] by (simp add: kg)
  show ?case
    by (rule Cons.prems(1) [OF _ b, of "(k, ?g) # gs2"])
      (simp_all add: kg 1(1) 2(1,3) g Let_def del: hits_simps)
qed

definition relay_rules :: "(string \<times> relay_group) list \<Rightarrow> rule list" where
  "relay_rules gs = map (rg_desired \<circ> snd) gs"

lemma bump_relays_bumped:
  assumes "distinct (map rule_id (relay_rules gs))"
    and "\<And>r. r \<in> set (relay_rules gs) \<Longrightarrow> entry_of (fst st) (rule_id r) \<noteq> None"
    and "room st (hits sel (relay_rules gs))"
  obtains st' gs' where "bump_relays sel st gs = Some (st', gs')"
    and "bumped (sel \<inter> set (map rule_id (relay_rules gs))) (hits sel (relay_rules gs)) st st'"
    and "keyed (relay_bumped sel (fst st')) gs gs'"
  using assms
proof (induction gs arbitrary: st thesis)
  case Nil
  show ?case by (rule Nil.prems(1) [of st "[]"]) (simp_all add: bumped_refl relay_rules_def)
next
  case (Cons ig gs)
  obtain i g where ig: "ig = (i, g)" by (cases ig)
  let ?r = "rg_desired g" and ?qs = "relay_rules gs"
  have all: "relay_rules (ig # gs) = ?r # ?qs" by (simp add: relay_rules_def ig)
  have "room st (hits sel [?r])" using Cons.prems(4) by (simp add: room_def all)
  then obtain st1 r1 where 1: "bump_rule sel st ?r = Some (st1, r1)"
    "bumped (sel \<inter> {rule_id ?r}) (hits sel [?r]) st st1" "rule_bumped sel (fst st1) ?r r1"
    using bump_rule_bumped [of ?r sel st] Cons.prems(3) [of ?r] by (auto simp: all)
  have ex: "\<And>q. q \<in> set ?qs \<Longrightarrow> entry_of (fst st1) (rule_id q) \<noteq> None"
    using bumped_keeps_entry [OF 1(2)] Cons.prems(3) by (simp add: all)
  have rm: "room st1 (hits sel ?qs)"
    using room_step [OF _ 1(2)] Cons.prems(4) by (simp add: room_def all)
  obtain st2 gs2 where 2: "bump_relays sel st1 gs = Some (st2, gs2)"
    "bumped (sel \<inter> set (map rule_id ?qs)) (hits sel ?qs) st1 st2" "keyed (relay_bumped sel (fst st2)) gs gs2"
    using Cons.IH [OF _ _ ex rm] Cons.prems(2) by (auto simp: all)
  have disj: "rule_id ?r \<notin> set (map rule_id ?qs)" using Cons.prems(2) by (simp add: all)
  let ?g = "if rule_id ?r \<in> sel then g\<lparr>rg_desired := r1, rg_wakes := rg_wakes g + 1\<rparr> else g"
  have "rule_bumped sel (fst st2) ?r r1"
    using 1(3) by (rule rule_bumped_cong) (use disj in \<open>auto intro!: bumped_other [OF 2(2)]\<close>)
  then have g: "relay_bumped sel (fst st2) g ?g"
    by (auto simp: relay_bumped_def rule_bumped_def split: option.splits)
  have "(sel \<inter> {rule_id ?r}) \<union> (sel \<inter> set (map rule_id ?qs))
      = sel \<inter> set (map rule_id (relay_rules (ig # gs)))" by (auto simp: all)
  moreover have "(sel \<inter> {rule_id ?r}) \<inter> (sel \<inter> set (map rule_id ?qs)) = {}" using disj by blast
  ultimately have b: "bumped (sel \<inter> set (map rule_id (relay_rules (ig # gs)))) (hits sel (relay_rules (ig # gs))) st st2"
    using bumped_trans [OF 1(2) 2(2)] by (simp add: all)
  show ?case
    by (rule Cons.prems(1) [OF _ b, of "(i, ?g) # gs2"])
      (simp_all add: ig 1(1) 2(1,3) g Let_def)
qed

section \<open>Bumping a supervised engine\<close>

lemma supervisedD:
  assumes "supervised c e"
  shows "f \<in> set (forwards c) \<Longrightarrow> \<exists>en. entry_of (en_shared e) (fs_id f) = Some en \<and> se_spec en = f \<and> served e f en"
    and "fst ` set (entries (en_shared e)) = fs_id ` set (forwards c)"
    and "(k, g) \<in> set (en_groups e) \<Longrightarrow> distinct (map rule_id (g_desired g))"
    and "(k, g) \<in> set (en_groups e) \<Longrightarrow> r \<in> set (g_desired g) \<Longrightarrow>
      ru_spec r \<in> set (forwards c) \<and> \<not> is_relay (fs_tunnel (ru_spec r)) \<and>
      (\<exists>en. entry_of (en_shared e) (rule_id r) = Some en \<and> se_key en = k)"
    and "(i, rg) \<in> set (en_relays e) \<Longrightarrow> ru_spec (rg_desired rg) \<in> set (forwards c) \<and>
      rule_id (rg_desired rg) = i \<and> is_relay (fs_tunnel (ru_spec (rg_desired rg)))"
proof -
  note a = assms [unfolded supervised_def]
  note a1 = a [THEN conjunct1] and a2 = a [THEN conjunct2, THEN conjunct1]
    and a3 = a [THEN conjunct2, THEN conjunct2, THEN conjunct1]
    and a4 = a [THEN conjunct2, THEN conjunct2, THEN conjunct2]
  show "fst ` set (entries (en_shared e)) = fs_id ` set (forwards c)" by (rule a2)
  show "\<exists>en. entry_of (en_shared e) (fs_id f) = Some en \<and> se_spec en = f \<and> served e f en"
    if "f \<in> set (forwards c)"
    using bspec [OF a1 that] by (cases "entry_of (en_shared e) (fs_id f)") simp_all
  show "distinct (map rule_id (g_desired g))" if "(k, g) \<in> set (en_groups e)"
    using bspec [OF a3 that] by (simp add: comp_def)
  show "ru_spec r \<in> set (forwards c) \<and> \<not> is_relay (fs_tunnel (ru_spec r)) \<and>
      (\<exists>en. entry_of (en_shared e) (rule_id r) = Some en \<and> se_key en = k)"
    if "(k, g) \<in> set (en_groups e)" and "r \<in> set (g_desired g)"
  proof -
    have "\<forall>r \<in> set (g_desired g). ru_spec r \<in> set (forwards c) \<and> \<not> is_relay (fs_tunnel (ru_spec r)) \<and>
        (case entry_of (en_shared e) (rule_id r) of None \<Rightarrow> False | Some en \<Rightarrow> se_key en = k)"
      using bspec [OF a3 that(1)] by simp
    from bspec [OF this that(2)] show ?thesis by (cases "entry_of (en_shared e) (rule_id r)") simp_all
  qed
  show "ru_spec (rg_desired rg) \<in> set (forwards c) \<and>
      rule_id (rg_desired rg) = i \<and> is_relay (fs_tunnel (ru_spec (rg_desired rg)))"
    if "(i, rg) \<in> set (en_relays e)"
    using bspec [OF a4 that] by simp
qed

lemma supervised_spec_unique:
  assumes "supervised c e" and "f \<in> set (forwards c)" and "f' \<in> set (forwards c)" and "fs_id f = fs_id f'"
  shows "f = f'"
proof -
  from supervisedD(1) [OF assms(1,2)] obtain en where 1: "entry_of (en_shared e) (fs_id f) = Some en" "se_spec en = f"
    by blast
  from supervisedD(1) [OF assms(1,3)] obtain en' where 2: "entry_of (en_shared e) (fs_id f') = Some en'" "se_spec en' = f'"
    by blast
  from 1(1) 2(1) assms(4) have "en = en'" by simp
  then show ?thesis using 1(2) 2(2) by simp
qed

lemma distinct_group_rules:
  assumes "distinct (map fst gs)" and "\<And>k g. (k, g) \<in> set gs \<Longrightarrow> distinct (map rule_id (g_desired g))"
    and "\<And>k g r. (k, g) \<in> set gs \<Longrightarrow> r \<in> set (g_desired g) \<Longrightarrow> key_of (rule_id r) = Some k"
  shows "distinct (map rule_id (group_rules gs))"
  using assms
proof (induction gs)
  case Nil
  then show ?case by simp
next
  case (Cons kg gs)
  obtain k g where kg: "kg = (k, g)" by (cases kg)
  have ih: "distinct (map rule_id (group_rules gs))"
  proof (rule Cons.IH)
    show "distinct (map fst gs)" using Cons.prems(1) by simp
    show "distinct (map rule_id (g_desired g))" if "(k, g) \<in> set gs" for k g
      using Cons.prems(2) [of k g] that by simp
    show "key_of (rule_id r) = Some k" if "(k, g) \<in> set gs" "r \<in> set (g_desired g)" for k g r
      using Cons.prems(3) [of k g r] that by simp
  qed
  have "rule_id r \<noteq> rule_id q" if "r \<in> set (g_desired g)" "q \<in> set (group_rules gs)" for r q
  proof
    assume eq: "rule_id r = rule_id q"
    from that(2) obtain k' g' where q: "(k', g') \<in> set gs" "q \<in> set (g_desired g')"
      by (auto simp: group_rules_def)
    have "key_of (rule_id r) = Some k" using Cons.prems(3) [of k g r] that(1) kg by simp
    moreover have "key_of (rule_id q) = Some k'" using Cons.prems(3) [of k' g' q] q by simp
    moreover have "k \<noteq> k'" using Cons.prems(1) q(1) kg by force
    ultimately show False using eq by simp
  qed
  moreover have "distinct (map rule_id (g_desired g))" using Cons.prems(2) [of k g] kg by simp
  ultimately show ?case using ih kg by auto
qed

lemma supervised_rules:
  assumes sup: "supervised c e" and ok: "keys_ok e"
  shows "distinct (map rule_id (group_rules (en_groups e)))" and "distinct (map rule_id (relay_rules (en_relays e)))"
    and "set (map rule_id (group_rules (en_groups e))) \<inter> set (map rule_id (relay_rules (en_relays e))) = {}"
    and "set (map rule_id (group_rules (en_groups e))) \<union> set (map rule_id (relay_rules (en_relays e)))
      = fst ` set (entries (en_shared e))"
proof -
  have keys: "distinct (map fst (en_groups e))" "distinct (map fst (en_relays e))"
    using ok by (simp_all add: keys_ok_def)
  show "distinct (map rule_id (group_rules (en_groups e)))"
    by (rule distinct_group_rules [OF keys(1), where key_of = "\<lambda>i. map_option se_key (entry_of (en_shared e) i)"])
      (use supervisedD(3,4) [OF sup] in fastforce)+
  have "map rule_id (relay_rules (en_relays e)) = map fst (en_relays e)"
    unfolding relay_rules_def map_map by (rule map_cong) (use supervisedD(5) [OF sup] in auto)
  then show "distinct (map rule_id (relay_rules (en_relays e)))" using keys(2) by simp
  show "set (map rule_id (group_rules (en_groups e))) \<inter> set (map rule_id (relay_rules (en_relays e))) = {}"
  proof (rule ccontr)
    assume "\<not> ?thesis"
    then obtain k g r i rg where kg: "(k, g) \<in> set (en_groups e)" "r \<in> set (g_desired g)"
      and ig: "(i, rg) \<in> set (en_relays e)" and eq: "rule_id r = rule_id (rg_desired rg)"
      by (auto simp: group_rules_def relay_rules_def)
    from supervisedD(4) [OF sup kg] supervisedD(5) [OF sup ig] supervised_spec_unique [OF sup _ _ eq]
    show False by auto
  qed
  show "set (map rule_id (group_rules (en_groups e))) \<union> set (map rule_id (relay_rules (en_relays e)))
      = fst ` set (entries (en_shared e))"
  proof (intro set_eqI iffI)
    fix i
    assume "i \<in> set (map rule_id (group_rules (en_groups e))) \<union> set (map rule_id (relay_rules (en_relays e)))"
    then show "i \<in> fst ` set (entries (en_shared e))"
      unfolding supervisedD(2) [OF sup]
      by (auto simp: group_rules_def relay_rules_def dest!: supervisedD(4) [OF sup] supervisedD(5) [OF sup])
  next
    fix i
    assume "i \<in> fst ` set (entries (en_shared e))"
    then obtain f where f: "f \<in> set (forwards c)" "i = fs_id f" unfolding supervisedD(2) [OF sup] by auto
    from supervisedD(1) [OF sup f(1)] obtain en where "served e f en" by blast
    then consider g r where "(se_key en, g) \<in> set (en_groups e)" "r \<in> set (g_desired g)" "ru_spec r = f"
      | rg where "(fs_id f, rg) \<in> set (en_relays e)" "ru_spec (rg_desired rg) = f"
      by (auto simp: served_def group_at_def relay_at_def split: if_splits option.splits dest!: map_of_SomeD)
    then show "i \<in> set (map rule_id (group_rules (en_groups e))) \<union> set (map rule_id (relay_rules (en_relays e)))"
      by cases (force simp: group_rules_def relay_rules_def f(2))+
  qed
qed

lemma hits_distinct:
  assumes "distinct (map rule_id rs)" and "finite sel"
  shows "hits sel rs = card (sel \<inter> set (map rule_id rs))"
proof -
  have "map rule_id (filter (\<lambda>r. rule_id r \<in> sel) rs) = filter (\<lambda>i. i \<in> sel) (map rule_id rs)"
    by (simp add: filter_map comp_def)
  moreover have "distinct (filter (\<lambda>i. i \<in> sel) (map rule_id rs))" using assms(1) by (rule distinct_filter)
  ultimately have "hits sel rs = card (set (filter (\<lambda>i. i \<in> sel) (map rule_id rs)))"
    unfolding hits_def by (metis distinct_card length_map)
  also have "set (filter (\<lambda>i. i \<in> sel) (map rule_id rs)) = sel \<inter> set (map rule_id rs)" by auto
  finally show ?thesis .
qed

definition bumped_engine :: "string set \<Rightarrow> engine \<Rightarrow> engine \<Rightarrow> bool" where
  "bumped_engine sel e e' =
     (bumped sel (card sel) (en_shared e, en_generation e) (en_shared e', en_generation e') \<and>
      keyed (group_bumped sel (en_shared e')) (en_groups e) (en_groups e') \<and>
      keyed (relay_bumped sel (en_shared e')) (en_relays e) (en_relays e'))"

lemma bump_all_bumped:
  assumes sup: "supervised c e" and ok: "keys_ok e" and sel: "sel \<subseteq> fst ` set (entries (en_shared e))"
    and rm: "unat (en_generation e) + card sel < 2 ^ 64"
  obtains e' where "bump_all sel e = Some e'" and "bumped_engine sel e e'"
proof -
  note rules = supervised_rules [OF sup ok]
  let ?G = "group_rules (en_groups e)" and ?R = "relay_rules (en_relays e)"
  let ?st = "(en_shared e, en_generation e)"
  have fin: "finite sel" using sel finite_subset by blast
  have card: "card sel = hits sel ?G + hits sel ?R"
  proof -
    have "sel = (sel \<inter> set (map rule_id ?G)) \<union> (sel \<inter> set (map rule_id ?R))" using sel rules(4) by blast
    moreover have "(sel \<inter> set (map rule_id ?G)) \<inter> (sel \<inter> set (map rule_id ?R)) = {}" using rules(3) by blast
    ultimately show ?thesis
      using fin by (metis card_Un_disjoint finite_Int hits_distinct rules(1,2))
  qed
  have ex: "entry_of (en_shared e) (rule_id r) \<noteq> None" if "r \<in> set ?G \<or> r \<in> set ?R" for r
  proof -
    have "rule_id r \<in> fst ` set (entries (en_shared e))" unfolding rules(4) [symmetric] using that by auto
    then show ?thesis by (simp add: entry_keys)
  qed
  have "room ?st (hits sel ?G)" using rm card by (simp add: room_def)
  then obtain st1 gs where 1: "bump_groups sel ?st (en_groups e) = Some (st1, gs)"
    "bumped (sel \<inter> set (map rule_id ?G)) (hits sel ?G) ?st st1" "keyed (group_bumped sel (fst st1)) (en_groups e) gs"
    using bump_groups_bumped [OF rules(1), of ?st sel] ex by auto
  have ex1: "entry_of (fst st1) (rule_id r) \<noteq> None" if "r \<in> set ?R" for r
    using bumped_keeps_entry [OF 1(2)] ex that by simp
  have "room st1 (hits sel ?R)" using room_step [OF _ 1(2)] rm card by (simp add: room_def)
  then obtain st2 rs where 2: "bump_relays sel st1 (en_relays e) = Some (st2, rs)"
    "bumped (sel \<inter> set (map rule_id ?R)) (hits sel ?R) st1 st2" "keyed (relay_bumped sel (fst st2)) (en_relays e) rs"
    using bump_relays_bumped [OF rules(2) ex1] by blast
  have S: "(sel \<inter> set (map rule_id ?G)) \<union> (sel \<inter> set (map rule_id ?R)) = sel" using sel rules(4) by blast
  have "(sel \<inter> set (map rule_id ?G)) \<inter> (sel \<inter> set (map rule_id ?R)) = {}" using rules(3) by blast
  from bumped_trans [OF 1(2) 2(2) this] have b: "bumped sel (card sel) ?st st2" unfolding S card .
  have g2: "keyed (group_bumped sel (fst st2)) (en_groups e) gs"
  proof -
    have same: "entry_of (fst st2) (rule_id r) = entry_of (fst st1) (rule_id r)" if "r \<in> set ?G" for r
      using bumped_other [OF 2(2)] rules(3) that by auto
    have "keyed (group_bumped sel (fst st1)) al al' \<Longrightarrow> set (group_rules al) \<subseteq> set ?G \<Longrightarrow>
        keyed (group_bumped sel (fst st2)) al al'" for al al'
    proof (induction al arbitrary: al')
      case (Cons kg al)
      obtain k g where kg: "kg = (k, g)" by (cases kg)
      then obtain g' bl where al': "al' = (k, g') # bl" "group_bumped sel (fst st1) g g'"
        "keyed (group_bumped sel (fst st1)) al bl" using Cons.prems(1) by auto
      have "group_bumped sel (fst st2) g g'"
        using al'(2) Cons.prems(2) kg same unfolding group_bumped_def by (auto intro: rules_bumped_cong)
      with Cons al' kg show ?case by auto
    qed simp
    with 1(3) show ?thesis by blast
  qed
  show thesis
    by (rule that [of "e\<lparr>en_groups := gs, en_relays := rs, en_shared := fst st2, en_generation := snd st2\<rparr>"])
      (use 1(1) 2(1,3) b g2 in \<open>simp_all add: bump_all_def bumped_engine_def\<close>)
qed

lemma bumped_engine_supervised:
  assumes sup: "supervised c e" and ok: "keys_ok e" and b: "bumped_engine sel e e'"
  shows "supervised c e' \<and> keys_ok e'"
proof -
  have st: "bumped sel (card sel) (en_shared e, en_generation e) (en_shared e', en_generation e')"
    and gs: "keyed (group_bumped sel (en_shared e')) (en_groups e) (en_groups e')"
    and rs: "keyed (relay_bumped sel (en_shared e')) (en_relays e) (en_relays e')"
    using b by (simp_all add: bumped_engine_def)
  have entry: "\<exists>en'. entry_of (en_shared e') i = Some en' \<and> se_spec en' = se_spec en \<and> se_key en' = se_key en \<and>
      (i \<notin> sel \<longrightarrow> en' = en)" if ei: "entry_of (en_shared e) i = Some en" for i en
  proof (cases "i \<in> sel")
    case True
    then obtain m where "entry_of (en_shared e') i = Some (restart_entry m en)"
      using bumped_in [OF st True, unfolded fst_conv, OF ei] by blast
    with True show ?thesis by (simp add: restart_entry_def)
  next
    case False
    with bumped_other [OF st False] ei show ?thesis by simp
  qed
  have served: "case entry_of (en_shared e') (fs_id f) of None \<Rightarrow> False | Some en \<Rightarrow> se_spec en = f \<and> served e' f en"
    if f: "f \<in> set (forwards c)" for f
  proof -
    obtain en where en: "entry_of (en_shared e) (fs_id f) = Some en" "se_spec en = f" "served e f en"
      using supervisedD(1) [OF sup f] by blast
    obtain en' where en': "entry_of (en_shared e') (fs_id f) = Some en'" "se_spec en' = f"
      "se_key en' = se_key en" "fs_id f \<notin> sel \<Longrightarrow> en' = en"
      using entry [OF en(1)] en(2) by auto
    have gen: "ru_generation r' = se_generation en'"
      if "rule_bumped sel (en_shared e') r r'" "ru_spec r = f" "ru_generation r = se_generation en" for r r'
      using that en'(1,4) by (auto simp: rule_bumped_def split: if_splits)
    have "served e' f en'"
    proof (cases "is_relay (fs_tunnel f)")
      case True
      then obtain g where g: "relay_at e (fs_id f) = Some g" "ru_spec (rg_desired g) = f"
        "ru_generation (rg_desired g) = se_generation en" "rg_key g = se_key en"
        using en(3) by (auto simp: served_def split: option.splits)
      obtain g' where "relay_at e' (fs_id f) = Some g'" "relay_bumped sel (en_shared e') g g'"
        using keyed_map_of [OF rs, of "fs_id f" g] g(1) by (auto simp: relay_at_def)
      then have rb: "rule_bumped sel (en_shared e') (rg_desired g) (rg_desired g')" "rg_key g' = rg_key g"
        by (simp_all add: relay_bumped_def)
      from rb(1) g(2) have "ru_spec (rg_desired g') = f" by (simp add: rule_bumped_def)
      with True \<open>relay_at e' (fs_id f) = Some g'\<close> gen [OF rb(1) g(2,3)] rb(2) g(4) en'(3) show ?thesis
        by (simp add: served_def)
    next
      case False
      then obtain g r where g: "group_at e (se_key en) = Some g" and r: "r \<in> set (g_desired g)" "ru_spec r = f"
        "ru_generation r = se_generation en"
        using en(3) by (auto simp: served_def split: option.splits)
      obtain g' where g': "group_at e' (se_key en) = Some g'" "group_bumped sel (en_shared e') g g'"
        using keyed_map_of [OF gs, of "se_key en" g] g by (auto simp: group_at_def)
      then have "list_all2 (rule_bumped sel (en_shared e')) (g_desired g) (g_desired g')"
        by (simp add: group_bumped_def)
      with r(1) obtain r' where "r' \<in> set (g_desired g')" "rule_bumped sel (en_shared e') r r'"
        by (metis in_set_conv_nth list_all2_conv_all_nth)
      with False g'(1) gen [OF _ r(2,3)] r(2) en'(3) show ?thesis
        by (auto simp: served_def rule_bumped_def)
    qed
    with en' show ?thesis by simp
  qed
  have keys: "map fst (entries (en_shared e')) = map fst (entries (en_shared e))"
    using st by (simp add: bumped_def)
  have group: "g_desired g' \<noteq> [] \<and> distinct (map (fs_id \<circ> ru_spec) (g_desired g')) \<and>
     (\<forall>r \<in> set (g_desired g'). ru_spec r \<in> set (forwards c) \<and> \<not> is_relay (fs_tunnel (ru_spec r)) \<and>
      (case entry_of (en_shared e') (rule_id r) of None \<Rightarrow> False | Some en \<Rightarrow> se_key en = k))"
    if kg: "(k, g') \<in> set (en_groups e')" for k g'
  proof -
    obtain g where g: "(k, g) \<in> set (en_groups e)" "group_bumped sel (en_shared e') g g'"
      using keyed_back [OF gs kg] by blast
    then have l: "list_all2 (rule_bumped sel (en_shared e')) (g_desired g) (g_desired g')"
      by (simp add: group_bumped_def)
    then have specs: "map ru_spec (g_desired g') = map ru_spec (g_desired g)"
      by (induction rule: list_all2_induct) (simp_all add: rule_bumped_def)
    have "g_desired g \<noteq> []" using sup g(1) by (auto simp: supervised_def)
    then have "g_desired g' \<noteq> []" using specs by auto
    moreover have "distinct (map (fs_id \<circ> ru_spec) (g_desired g'))"
    proof -
      have "distinct (map (fs_id \<circ> ru_spec) (g_desired g))" using sup g(1) by (auto simp: supervised_def)
      then have "distinct (map fs_id (map ru_spec (g_desired g)))" by (simp only: map_map)
      then show ?thesis unfolding specs [symmetric] by (simp only: map_map)
    qed
    moreover have "ru_spec r \<in> set (forwards c) \<and> \<not> is_relay (fs_tunnel (ru_spec r)) \<and>
      (case entry_of (en_shared e') (rule_id r) of None \<Rightarrow> False | Some en \<Rightarrow> se_key en = k)"
      if "r \<in> set (g_desired g')" for r
    proof -
      have "ru_spec r \<in> set (map ru_spec (g_desired g))" unfolding specs [symmetric] using that by auto
      then obtain q where q: "q \<in> set (g_desired g)" "ru_spec q = ru_spec r" by auto
      from supervisedD(4) [OF sup g(1) q(1)] obtain en where "entry_of (en_shared e) (rule_id r) = Some en"
        "se_key en = k" "ru_spec r \<in> set (forwards c)" "\<not> is_relay (fs_tunnel (ru_spec r))"
        unfolding q(2) by blast
      with entry [OF this(1)] show ?thesis by auto
    qed
    ultimately show ?thesis by blast
  qed
  have relay: "ru_spec (rg_desired g') \<in> set (forwards c) \<and> rule_id (rg_desired g') = i \<and>
      is_relay (fs_tunnel (ru_spec (rg_desired g')))" if ig: "(i, g') \<in> set (en_relays e')" for i g'
  proof -
    obtain g where g: "(i, g) \<in> set (en_relays e)" "relay_bumped sel (en_shared e') g g'"
      using keyed_back [OF rs ig] by blast
    with supervisedD(5) [OF sup g(1)] show ?thesis by (simp add: relay_bumped_def rule_bumped_def)
  qed
  have "keys_ok e'"
    using ok keys keyed_keys [OF gs] keyed_keys [OF rs] by (simp add: keys_ok_def)
  moreover have "fst ` set (entries (en_shared e')) = fs_id ` set (forwards c)"
    using supervisedD(2) [OF sup] keys by (metis list.set_map)
  ultimately show ?thesis
    unfolding supervised_def using served group relay by auto
qed

lemma revive_supervised:
  assumes sup: "supervised c e" and ok: "keys_ok e"
    and e': "e' = revive_finished_relays finished (revive_finished_groups finished e)"
  shows "supervised c e' \<and> keys_ok e' \<and> en_shared e' = en_shared e"
proof -
  define e1 where "e1 = revive_finished_groups finished e"
  have 1: "serves (group_at e1 k) = serves (group_at e k)" "map fst (en_groups e1) = map fst (en_groups e)"
    "en_relays e1 = en_relays e" "en_shared e1 = en_shared e" for k
    by (simp_all add: e1_def revive_finished_groups_def revive_groups_at)
  have 2: "relays_for (relay_at e' i) = relays_for (relay_at e1 i)" "map fst (en_relays e') = map fst (en_relays e1)"
    "en_groups e' = en_groups e1" "en_shared e' = en_shared e1" for i
    by (simp_all add: e' e1_def [symmetric] revive_finished_relays_def revive_relays_at)
  have ok': "keys_ok e'" using ok 1 2 by (simp add: keys_ok_def)
  have g: "serves (group_at e' k) = serves (group_at e k)" for k
    using 1(1) [of k] by (simp add: group_at_cong [OF 2(3)])
  have r: "relays_for (relay_at e' i) = relays_for (relay_at e i)" for i
    using 2(1) [of i] by (simp add: relay_at_cong [OF 1(3)])
  have back_g: "\<exists>g. (k, g) \<in> set (en_groups e) \<and> g_desired g = g_desired g'" if "(k, g') \<in> set (en_groups e')" for k g'
  proof -
    have "group_at e' k = Some g'" using that ok' by (simp add: group_at_def keys_ok_def)
    with g [of k] obtain x where "group_at e k = Some x" "g_desired x = g_desired g'"
      by (cases "group_at e k") auto
    then show ?thesis by (auto simp: group_at_def dest: map_of_SomeD)
  qed
  have back_r: "\<exists>g. (i, g) \<in> set (en_relays e) \<and> rg_desired g = rg_desired g'" if ig: "(i, g') \<in> set (en_relays e')" for i g'
  proof -
    have "relay_at e' i = Some g'" using ig ok' by (simp add: relay_at_def keys_ok_def)
    with r [of i] obtain x where "relay_at e i = Some x" "rg_desired x = rg_desired g'"
      by (cases "relay_at e i") auto
    then show ?thesis by (auto simp: relay_at_def dest: map_of_SomeD)
  qed
  have sh: "en_shared e' = en_shared e" using 1 2 by simp
  have served: "served e' f en = served e f en" for f en
  proof (cases "is_relay (fs_tunnel f)")
    case True
    then show ?thesis using r [of "fs_id f"] by (auto simp: served_def split: option.splits)
  next
    case False
    then show ?thesis using g [of "se_key en"] by (auto simp: served_def split: option.splits)
  qed
  have "supervised c e'"
    using sup unfolding supervised_def sh served
    by (intro conjI) (blast, blast, use back_g in fastforce, use back_r in fastforce)
  with ok' sh show ?thesis by simp
qed

section \<open>The selection\<close>

definition selected_ids :: "(nat \<Rightarrow> bool) \<Rightarrow> engine \<Rightarrow> operation \<Rightarrow> string set \<Rightarrow> string set" where
  "selected_ids finished e op I =
     {i \<in> I. \<exists>en. entry_of (en_shared e) i = Some en \<and> skip_reason finished e op i en = None}"

lemma scan_selection_exact:
  assumes "\<And>i. i \<in> set ids \<Longrightarrow> entry_of (en_shared e) i \<noteq> None"
  shows "\<exists>rep. scan_selection finished e op seen ids = Some rep \<and> distinct (affected rep) \<and>
    set (affected rep) = selected_ids finished e op (set ids - seen) \<and>
    sk_id ` set (skipped rep) = (set ids - seen) - set (affected rep)"
  using assms
proof (induction ids arbitrary: seen)
  case Nil
  then show ?case by (simp add: selected_ids_def)
next
  case (Cons i ids)
  have ex: "\<And>j. j \<in> set ids \<Longrightarrow> entry_of (en_shared e) j \<noteq> None" using Cons.prems by simp
  show ?case
  proof (cases "i \<in> seen")
    case True
    then have "set (i # ids) - seen = set ids - seen" by auto
    with True Cons.IH [OF ex, of seen] show ?thesis by simp
  next
    case False
    from Cons.IH [OF ex, of "insert i seen"] obtain rep where rep:
      "scan_selection finished e op (insert i seen) ids = Some rep" "distinct (affected rep)"
      "set (affected rep) = selected_ids finished e op (set ids - insert i seen)"
      "sk_id ` set (skipped rep) = set ids - insert i seen - set (affected rep)" by blast
    from Cons.prems [of i] obtain en where en: "entry_of (en_shared e) i = Some en" by auto
    have sets: "set (i # ids) - seen = insert i (set ids - insert i seen)" using False by auto
    show ?thesis
    proof (cases "skip_reason finished e op i en")
      case None
      have "selected_ids finished e op (set (i # ids) - seen) = insert i (set (affected rep))"
        unfolding sets rep(3) using None en by (auto simp: selected_ids_def)
      moreover have "i \<notin> set (affected rep)" unfolding rep(3) by (simp add: selected_ids_def)
      ultimately show ?thesis using False en None rep sets by auto
    next
      case (Some reason)
      have "selected_ids finished e op (set (i # ids) - seen) = set (affected rep)"
        unfolding sets rep(3) using Some en by (auto simp: selected_ids_def)
      moreover have "i \<notin> set (affected rep)" unfolding rep(3) by (simp add: selected_ids_def)
      ultimately show ?thesis using False en Some rep sets by auto
    qed
  qed
qed

lemma request_generation_outcome:
  assumes sup: "supervised c e" and ok: "keys_ok e" and small: "length (forwards c) < 2 ^ 64"
  shows "(\<exists>i \<in> set ids. entry_of (en_shared e) i = None \<and> request_generation finished ids op e = Some (e, Inl (NoForward i))) \<or>
    request_generation finished ids op e = Some (e, Inl GenerationExhausted) \<or>
    (\<exists>e' rep. request_generation finished ids op e = Some (e', Inr rep) \<and> supervised c e' \<and> keys_ok e' \<and>
       set (affected rep) = selected_ids finished e op (set ids) \<and>
       sk_id ` set (skipped rep) = set ids - set (affected rep) \<and>
       (\<forall>i. case entry_of (en_shared e) i of
          None \<Rightarrow> entry_of (en_shared e') i = None
        | Some en \<Rightarrow> if i \<in> set (affected rep)
            then \<exists>m. entry_of (en_shared e') i = Some (restart_entry m en) \<and> unat (en_generation e) < unat m
            else entry_of (en_shared e') i = Some en))"
proof (cases "List.find (\<lambda>i. entry_of (en_shared e) i = None) ids")
  case (Some i)
  then have "i \<in> set ids" "entry_of (en_shared e) i = None" by (auto dest: find_SomeD)
  moreover have "request_generation finished ids op e = Some (e, Inl (NoForward i))"
    using Some by (simp add: request_generation_def)
  ultimately show ?thesis by blast
next
  case None
  then have ex: "\<And>i. i \<in> set ids \<Longrightarrow> entry_of (en_shared e) i \<noteq> None" by (auto simp: find_None_iff)
  from scan_selection_exact [OF this, of ids finished op "{}"] obtain rep where
    rep: "scan_selection finished e op {} ids = Some rep" "distinct (affected rep)"
    "set (affected rep) = selected_ids finished e op (set ids)"
    "sk_id ` set (skipped rep) = set ids - set (affected rep)" by auto
  let ?n = "of_nat (length (affected rep)) :: u64"
  show ?thesis
  proof (cases "checked_add (en_generation e) ?n")
    case None
    with \<open>List.find _ _ = None\<close> rep(1) show ?thesis by (simp add: request_generation_def)
  next
    case (Some g)
    let ?sel = "set (affected rep)"
    have sel: "?sel \<subseteq> fst ` set (entries (en_shared e))"
      unfolding rep(3) by (auto simp: selected_ids_def entry_keys)
    have "card ?sel \<le> card (fs_id ` set (forwards c))"
      using sel unfolding supervisedD(2) [OF sup] by (intro card_mono) simp_all
    also have "\<dots> \<le> length (forwards c)"
      using card_image_le [of "set (forwards c)" fs_id] card_length [of "forwards c"] by simp
    finally have "card ?sel < 2 ^ 64" using small by simp
    moreover have len: "length (affected rep) = card ?sel" using rep(2) by (simp add: distinct_card)
    ultimately have "unat ?n = card ?sel" by (simp add: unat_of_nat)
    with Some have True: "unat (en_generation e) + card ?sel < 2 ^ 64" by (simp add: checked_add_Some)
    from bump_all_bumped [OF sup ok sel True] obtain e1 where
      b: "bump_all ?sel e = Some e1" "bumped_engine ?sel e e1" by blast
    define e2 where "e2 = revive_finished_relays finished (revive_finished_groups finished e1)"
    have req: "request_generation finished ids op e = Some (e2, Inr rep)"
      using \<open>List.find _ _ = None\<close> rep(1) Some b(1) by (simp add: request_generation_def e2_def)
    from bumped_engine_supervised [OF sup ok b(2)] have 1: "supervised c e1" "keys_ok e1" by simp_all
    from revive_supervised [OF 1 e2_def] have 2: "supervised c e2" "keys_ok e2" "en_shared e2 = en_shared e1"
      by simp_all
    have st: "bumped ?sel (card ?sel) (en_shared e, en_generation e) (en_shared e1, en_generation e1)"
      using b(2) by (simp add: bumped_engine_def)
    have "case entry_of (en_shared e) i of None \<Rightarrow> entry_of (en_shared e2) i = None
      | Some en \<Rightarrow> if i \<in> ?sel
          then \<exists>m. entry_of (en_shared e2) i = Some (restart_entry m en) \<and> unat (en_generation e) < unat m
          else entry_of (en_shared e2) i = Some en" for i
    proof (cases "i \<in> ?sel")
      case True
      then have "entry_of (en_shared e) i \<noteq> None" unfolding rep(3) by (auto simp: selected_ids_def)
      then obtain en where en: "entry_of (en_shared e) i = Some en" by auto
      obtain m where "entry_of (en_shared e1) i = Some (restart_entry m en)" "unat (en_generation e) < unat m"
        using bumped_in [OF st True, unfolded fst_conv snd_conv, OF en] by blast
      with True 2(3) en show ?thesis by auto
    next
      case False
      with bumped_other [OF st False] 2(3) show ?thesis by (auto split: option.splits)
    qed
    with req 2(1,2) rep(3,4) show ?thesis by blast
  qed
qed

section \<open>Properties\<close>

text \<open>
  A retry or restart is all or nothing and never panics. Refused, it leaves the
  engine untouched. Granted, it affects exactly the selected rules that may be restarted and
  reports the others as skipped; every affected rule restarts under a generation above all
  earlier ones, no other status entry changes, and supervision is kept.
\<close>

theorem generation_request_exact:
  assumes "supervised c e" and "keys_ok e" and "length (forwards c) < 2 ^ 64"
  shows "(\<exists>i \<in> set ids. entry_of (en_shared e) i = None \<and>
      request_generation finished ids op e = Some (e, Inl (NoForward i))) \<or>
    request_generation finished ids op e = Some (e, Inl GenerationExhausted) \<or>
    (\<exists>e' rep. request_generation finished ids op e = Some (e', Inr rep) \<and> supervised c e' \<and> keys_ok e' \<and>
       set (affected rep) = selected_ids finished e op (set ids) \<and>
       sk_id ` set (skipped rep) = set ids - set (affected rep) \<and>
       (\<forall>i. case entry_of (en_shared e) i of
          None \<Rightarrow> entry_of (en_shared e') i = None
        | Some en \<Rightarrow> if i \<in> set (affected rep)
            then \<exists>m. entry_of (en_shared e') i = Some (restart_entry m en) \<and> unat (en_generation e) < unat m
            else entry_of (en_shared e') i = Some en))"
  by (rule request_generation_outcome [OF assms])

definition sample_engine :: engine where
  "sample_engine = fst (reconcile no_ext small_json sp_name (\<lambda>_. False) sample_config new_engine)"

lemma sample_engine_supervised: "supervised sample_config sample_engine" "keys_ok sample_engine"
proof -
  have room: "counter_room new_engine (length (forwards sample_config))"
    by (simp add: new_engine_ok sample_config_def)
  obtain res where "reconcile no_ext small_json sp_name (\<lambda>_. False) sample_config new_engine = (sample_engine, res)"
    by (cases "reconcile no_ext small_json sp_name (\<lambda>_. False) sample_config new_engine")
      (simp add: sample_engine_def)
  from reconcile_supervised [OF sample_wf new_engine_ok(1) room this]
  show "supervised sample_config sample_engine" "keys_ok sample_engine" by blast+
qed

theorem generation_request_exact_witness:
  "request_generation (\<lambda>_. False) [''nosuch''] Restart sample_engine = Some (sample_engine, Inl (NoForward ''nosuch''))"
proof -
  have "''nosuch'' \<notin> fst ` set (entries (en_shared sample_engine))"
    unfolding supervisedD(2) [OF sample_engine_supervised(1)] by (simp add: sample_defs)
  then have "entry_of (en_shared sample_engine) ''nosuch'' = None" by (simp add: entry_keys)
  then show ?thesis
    using generation_request_exact [OF sample_engine_supervised, of "[''nosuch'']" "\<lambda>_. False" Restart]
    by (auto simp: request_generation_def sample_config_def)
qed

text \<open>
  After a shutdown nothing is supervised: every session task was told to end and
  joined, and every rule shows as stopped with no connection and no retry pending. A snapshot
  lists every rule once, ordered by name.
\<close>

theorem shutdown_stops_all:
  "en_groups (shutdown e) = [] \<and> en_relays (shutdown e) = [] \<and> en_retired (shutdown e) = [] \<and>
   set (map (g_task \<circ> snd) (en_groups e)) \<union> set (map (rg_task \<circ> snd) (en_relays e))
     \<subseteq> set (en_cancelled (shutdown e)) \<and>
   set (map (\<lambda>st. (st_state st, st_active_connections st, st_next_retry_unix_ms st)) (snapshot (shutdown e)))
     \<subseteq> {(RStopped, 0, None)} \<and>
   map fst (entries (en_shared (shutdown e))) = map fst (entries (en_shared e)) \<and>
   sorted (map st_name (snapshot e)) \<and> length (snapshot e) = length (entries (en_shared e))"
  by (auto simp: shutdown_def snapshot_def stop_entry_def case_prod_beta comp_def)

end
