(* ===== verification/Patterns.thy ===== *)
theory Patterns
  imports Text "HOL-Library.While_Combinator"
begin

text \<open>
  Host patterns of SSH configuration files, \<open>crates/fwm-core/src/ssh/config.rs\<close>. The
  matcher is the loop of the code over byte offsets, with the last star and the offset it is
  retried from; \<open>while_option\<close> makes its termination a theorem. The reference is the
  usual recursive definition of glob matching.
\<close>

section \<open>The matching loop\<close>

record scan =
  sc_p :: nat
  sc_v :: nat
  sc_star :: "nat option"
  sc_checkpoint :: nat
  sc_failed :: bool

definition byte_matches :: "bool \<Rightarrow> char \<Rightarrow> char \<Rightarrow> bool" where
  "byte_matches ignore_case p c =
     (p = CHR ''?'' \<or> p = c \<or> ignore_case \<and> ascii_lower p = ascii_lower c)"

definition scan_step :: "string \<Rightarrow> string \<Rightarrow> bool \<Rightarrow> scan \<Rightarrow> scan" where
  "scan_step pattern value ignore_case s =
     (if sc_p s < length pattern \<and> byte_matches ignore_case (pattern ! sc_p s) (value ! sc_v s)
      then s\<lparr>sc_p := sc_p s + 1, sc_v := sc_v s + 1\<rparr>
      else if sc_p s < length pattern \<and> pattern ! sc_p s = CHR ''*''
      then s\<lparr>sc_star := Some (sc_p s), sc_p := sc_p s + 1, sc_checkpoint := sc_v s\<rparr>
      else (case sc_star s of
          Some b \<Rightarrow> s\<lparr>sc_checkpoint := sc_checkpoint s + 1, sc_v := sc_checkpoint s + 1, sc_p := b + 1\<rparr>
        | None \<Rightarrow> s\<lparr>sc_failed := True\<rparr>))"

definition scan_on :: "string \<Rightarrow> scan \<Rightarrow> bool" where
  "scan_on value s = (\<not> sc_failed s \<and> sc_v s < length value)"

definition scan_start :: scan where
  "scan_start = \<lparr>sc_p = 0, sc_v = 0, sc_star = None, sc_checkpoint = 0, sc_failed = False\<rparr>"

fun only_stars :: "string \<Rightarrow> bool" where
  "only_stars [] = True"
| "only_stars (c # s) = (c = CHR ''*'' \<and> only_stars s)"

text \<open>\<open>None\<close> would be a matcher that does not return.\<close>

definition wildcard_match_case :: "string \<Rightarrow> string \<Rightarrow> bool \<Rightarrow> bool option" where
  "wildcard_match_case pattern value ignore_case =
     map_option (\<lambda>s. \<not> sc_failed s \<and> only_stars (drop (sc_p s) pattern))
       (while_option (scan_on value) (scan_step pattern value ignore_case) scan_start)"

definition wildcard_match :: "string \<Rightarrow> string \<Rightarrow> bool option" where
  "wildcard_match pattern value = wildcard_match_case pattern value True"

section \<open>Reference matching\<close>

fun glob :: "bool \<Rightarrow> string \<Rightarrow> string \<Rightarrow> bool" where
  "glob ic [] v = (v = [])"
| "glob ic (p # ps) v =
     (if p = CHR ''*'' then glob ic ps v \<or> (case v of [] \<Rightarrow> False | _ # cs \<Rightarrow> glob ic (p # ps) cs)
      else (case v of [] \<Rightarrow> False | c # cs \<Rightarrow> byte_matches ic p c \<and> glob ic ps cs))"

lemma glob_star_drop: "glob ic (CHR ''*'' # ps) v \<longleftrightarrow> (\<exists>k \<le> length v. glob ic ps (drop k v))"
proof (induction v)
  case Nil
  then show ?case by simp
next
  case (Cons c v)
  have "(\<exists>k \<le> length (c # v). glob ic ps (drop k (c # v))) \<longleftrightarrow>
      glob ic ps (c # v) \<or> (\<exists>k \<le> length v. glob ic ps (drop k v))"
    by (metis (no_types, lifting) Suc_le_mono drop0 drop_Suc_Cons length_Cons not0_implies_Suc zero_le)
  with Cons.IH show ?case by simp
qed

lemma glob_empty_value: "glob ic ps [] \<longleftrightarrow> only_stars ps"
  by (induction ps) auto

lemma star_not_literal:
  assumes "c \<noteq> CHR ''*''"
  shows "\<not> byte_matches ic (CHR ''*'') c"
proof -
  have star: "byte (CHR ''*'') = 42" by (simp add: byte_def)
  have "byte c \<noteq> 42" using assms star byte_inject by metis
  then have "byte (ascii_lower c) \<noteq> 42" by (simp add: ascii_lower_def byte_char_of)
  moreover have "ascii_lower (CHR ''*'') = CHR ''*''" by (simp add: ascii_lower_def star)
  ultimately show ?thesis using assms star by (auto simp: byte_matches_def)
qed

text \<open>A stretch of the pattern without stars consumes as many bytes as it has.\<close>

lemma glob_segment:
  assumes "n \<le> length ps" and "\<forall>i < n. ps ! i \<noteq> CHR ''*''"
  shows "glob ic ps v \<longleftrightarrow>
    n \<le> length v \<and> (\<forall>i < n. byte_matches ic (ps ! i) (v ! i)) \<and> glob ic (drop n ps) (drop n v)"
  using assms
proof (induction n arbitrary: ps v)
  case 0
  then show ?case by simp
next
  case (Suc n)
  then obtain p qs where ps: "ps = p # qs" by (cases ps) auto
  have p: "p \<noteq> CHR ''*''" using Suc.prems(2) ps by auto
  have qs: "n \<le> length qs" "\<forall>i < n. qs ! i \<noteq> CHR ''*''" using Suc.prems ps by auto
  show ?case
  proof (cases v)
    case Nil
    with p ps show ?thesis by simp
  next
    case (Cons c cs)
    with p ps Suc.IH [OF qs, of cs] show ?thesis
      by (auto simp: less_Suc_eq_0_disj)
  qed
qed

section \<open>The loop returns\<close>

definition scan_ok :: "string \<Rightarrow> string \<Rightarrow> scan \<Rightarrow> bool" where
  "scan_ok pattern value s =
     (sc_p s \<le> length pattern \<and> sc_v s \<le> length value \<and>
      (case sc_star s of
         None \<Rightarrow> True
       | Some b \<Rightarrow> b < sc_p s \<and> sc_checkpoint s + sc_p s = sc_v s + b + 1))"

lemma scan_ok_start: "scan_ok pattern value scan_start"
  by (simp add: scan_ok_def scan_start_def)

lemma scan_ok_step:
  "scan_ok pattern value s \<Longrightarrow> scan_on value s \<Longrightarrow> scan_ok pattern value (scan_step pattern value ic s)"
  by (auto simp: scan_ok_def scan_step_def scan_on_def split: option.splits if_splits)

text \<open>Every step fails, advances the last star's attempt, the value, or the pattern.\<close>

definition scan_measures :: "string \<Rightarrow> string \<Rightarrow> (scan \<times> scan) set" where
  "scan_measures pattern value = measures
     [\<lambda>s. if sc_failed s then 0 else 1,
      \<lambda>s. case sc_star s of None \<Rightarrow> length value + 1 | Some _ \<Rightarrow> length value - sc_checkpoint s,
      \<lambda>s. length value - sc_v s,
      \<lambda>s. length pattern - sc_p s]"

lemma scan_step_decreases:
  "scan_ok pattern value s \<Longrightarrow> scan_on value s \<Longrightarrow>
     (scan_step pattern value ic s, s) \<in> scan_measures pattern value"
  by (auto simp: scan_ok_def scan_step_def scan_on_def scan_measures_def split: option.splits)

lemma scan_returns:
  "\<exists>s. while_option (scan_on value) (scan_step pattern value ic) scan_start = Some s"
proof (rule wf_while_option_Some [where P = "scan_ok pattern value"])
  have "wf (scan_measures pattern value)" by (simp add: scan_measures_def)
  then show "wf {(t, s). (scan_ok pattern value s \<and> scan_on value s) \<and> t = scan_step pattern value ic s}"
    by (rule wf_subset) (auto intro: scan_step_decreases)
qed (auto intro: scan_ok_step scan_ok_start)

section \<open>The loop decides glob matching\<close>

text \<open>
  Between the last star and the current position the pattern has no star and has matched,
  and nothing before the last retry can match any more.
\<close>

definition scan_sound :: "string \<Rightarrow> string \<Rightarrow> bool \<Rightarrow> scan \<Rightarrow> bool" where
  "scan_sound pattern value ic s =
     (scan_ok pattern value s \<and>
      (if sc_failed s then \<not> glob ic pattern value
       else (case sc_star s of
         None \<Rightarrow> glob ic pattern value = glob ic (drop (sc_p s) pattern) (drop (sc_v s) value)
       | Some b \<Rightarrow>
           (\<forall>i < sc_p s - b - 1. drop (b + 1) pattern ! i \<noteq> CHR ''*'' \<and>
              byte_matches ic (drop (b + 1) pattern ! i) (drop (sc_checkpoint s) value ! i)) \<and>
           glob ic pattern value = (\<exists>k. sc_checkpoint s \<le> k \<and> k \<le> length value \<and>
              glob ic (drop (b + 1) pattern) (drop k value)))))"

lemma glob_at_star:
  "p < length pattern \<Longrightarrow> pattern ! p = CHR ''*'' \<Longrightarrow>
     glob ic (drop p pattern) v \<longleftrightarrow> (\<exists>k \<le> length v. glob ic (drop (p + 1) pattern) (drop k v))"
  using glob_star_drop by (metis Cons_nth_drop_Suc Suc_eq_plus1)

lemma glob_at_mismatch:
  "v < length value \<Longrightarrow> \<not> (p < length pattern \<and> byte_matches ic (pattern ! p) (value ! v)) \<Longrightarrow>
     \<not> (p < length pattern \<and> pattern ! p = CHR ''*'') \<Longrightarrow> \<not> glob ic (drop p pattern) (drop v value)"
  by (cases "p < length pattern") (simp_all add: Cons_nth_drop_Suc [symmetric])

lemma drop_shift:
  assumes "v \<le> length value"
  shows "(\<exists>k \<le> length (drop v value). P (drop k (drop v value))) \<longleftrightarrow>
    (\<exists>k. v \<le> k \<and> k \<le> length value \<and> P (drop k value))"
proof
  assume "\<exists>k \<le> length (drop v value). P (drop k (drop v value))"
  then obtain k where "k \<le> length value - v" "P (drop (k + v) value)" by auto
  with assms show "\<exists>k. v \<le> k \<and> k \<le> length value \<and> P (drop k value)"
    by (intro exI [of _ "k + v"]) auto
next
  assume "\<exists>k. v \<le> k \<and> k \<le> length value \<and> P (drop k value)"
  then obtain k where "v \<le> k" "k \<le> length value" "P (drop k value)" by blast
  then show "\<exists>k \<le> length (drop v value). P (drop k (drop v value))"
    by (intro exI [of _ "k - v"]) auto
qed

text \<open>What the segment after the last star says about an attempt from offset \<open>k\<close>.\<close>

lemma attempt_segment:
  assumes "b < p" and "p \<le> length pattern"
    and "\<forall>i < p - b - 1. drop (b + 1) pattern ! i \<noteq> CHR ''*''"
  shows "glob ic (drop (b + 1) pattern) w \<longleftrightarrow> p - b - 1 \<le> length w \<and>
    (\<forall>i < p - b - 1. byte_matches ic (drop (b + 1) pattern ! i) (w ! i)) \<and>
    glob ic (drop p pattern) (drop (p - b - 1) w)"
proof -
  have "p - b - 1 \<le> length (drop (b + 1) pattern)" using assms by simp
  from glob_segment [OF this assms(3), of ic w] assms(1) show ?thesis by simp
qed

lemma sound_after_match:
  assumes star: "CHR ''*'' \<notin> set value" and s: "scan_sound pattern value ic s" "scan_on value s"
    and m: "sc_p s < length pattern" "byte_matches ic (pattern ! sc_p s) (value ! sc_v s)"
  shows "scan_sound pattern value ic (s\<lparr>sc_p := sc_p s + 1, sc_v := sc_v s + 1\<rparr>)"
proof -
  have v: "sc_v s < length value" and f: "\<not> sc_failed s" using s(2) by (auto simp: scan_on_def)
  have "value ! sc_v s \<noteq> CHR ''*''" using star v by (metis nth_mem)
  with m(2) have lit: "pattern ! sc_p s \<noteq> CHR ''*''" using star_not_literal by metis
  have ok: "scan_ok pattern value (s\<lparr>sc_p := sc_p s + 1, sc_v := sc_v s + 1\<rparr>)"
    using s m(1) v by (auto simp: scan_sound_def scan_ok_def split: option.splits)
  show ?thesis
  proof (cases "sc_star s")
    case None
    have "glob ic (drop (sc_p s) pattern) (drop (sc_v s) value) =
        glob ic (drop (sc_p s + 1) pattern) (drop (sc_v s + 1) value)"
      using m lit v by (simp add: Cons_nth_drop_Suc [symmetric])
    with None ok s(1) f show ?thesis by (simp add: scan_sound_def)
  next
    case (Some b)
    have b: "b < sc_p s" "sc_checkpoint s + sc_p s = sc_v s + b + 1"
      using s(1) Some by (auto simp: scan_sound_def scan_ok_def)
    have seg: "drop (b + 1) pattern ! i \<noteq> CHR ''*'' \<and>
        byte_matches ic (drop (b + 1) pattern ! i) (drop (sc_checkpoint s) value ! i)"
      if i: "i < sc_p s + 1 - b - 1" for i
    proof (cases "i < sc_p s - b - 1")
      case True
      with s(1) Some f show ?thesis by (simp add: scan_sound_def)
    next
      case False
      with i have "i = sc_p s - b - 1" by simp
      then have "drop (b + 1) pattern ! i = pattern ! sc_p s" "drop (sc_checkpoint s) value ! i = value ! sc_v s"
        using b m(1) v by simp_all
      with lit m(2) show ?thesis by simp
    qed
    with Some ok s(1) f show ?thesis by (simp add: scan_sound_def)
  qed
qed

lemma sound_after_star:
  assumes s: "scan_sound pattern value ic s" "scan_on value s"
    and m: "sc_p s < length pattern" "pattern ! sc_p s = CHR ''*''"
  shows "scan_sound pattern value ic
    (s\<lparr>sc_star := Some (sc_p s), sc_p := sc_p s + 1, sc_checkpoint := sc_v s\<rparr>)"
proof -
  have v: "sc_v s < length value" and f: "\<not> sc_failed s" using s(2) by (auto simp: scan_on_def)
  let ?P = "glob ic (drop (sc_p s + 1) pattern)"
  have here: "glob ic (drop (sc_p s) pattern) (drop w value) \<longleftrightarrow> (\<exists>k. w \<le> k \<and> k \<le> length value \<and> ?P (drop k value))"
    if "w \<le> length value" for w
    unfolding glob_at_star [OF m] by (rule drop_shift [OF that])
  have "glob ic pattern value \<longleftrightarrow> (\<exists>k. sc_v s \<le> k \<and> k \<le> length value \<and> ?P (drop k value))"
  proof (cases "sc_star s")
    case None
    with s(1) f here [of "sc_v s"] v show ?thesis by (simp add: scan_sound_def)
  next
    case (Some b)
    have b: "b < sc_p s" "sc_p s \<le> length pattern" "sc_checkpoint s + sc_p s = sc_v s + b + 1"
      using s(1) Some by (auto simp: scan_sound_def scan_ok_def)
    have seg: "\<forall>i < sc_p s - b - 1. drop (b + 1) pattern ! i \<noteq> CHR ''*''"
      "\<forall>i < sc_p s - b - 1. byte_matches ic (drop (b + 1) pattern ! i) (drop (sc_checkpoint s) value ! i)"
      and eq: "glob ic pattern value = (\<exists>k. sc_checkpoint s \<le> k \<and> k \<le> length value \<and>
          glob ic (drop (b + 1) pattern) (drop k value))"
      using s(1) f Some by (auto simp: scan_sound_def)
    note attempt = attempt_segment [OF b(1,2) seg(1), of ic]
    have len: "sc_p s - b - 1 = sc_v s - sc_checkpoint s" "sc_checkpoint s \<le> sc_v s" using b by simp_all
    show ?thesis
    proof
      assume "glob ic pattern value"
      then obtain k where k: "sc_checkpoint s \<le> k" "k \<le> length value"
          "glob ic (drop (b + 1) pattern) (drop k value)"
        unfolding eq by blast
      then have fit: "sc_p s - b - 1 \<le> length value - k"
        "glob ic (drop (sc_p s) pattern) (drop (sc_p s - b - 1 + k) value)"
        unfolding attempt by auto
      have "sc_p s - b - 1 + k \<le> length value" using fit(1) k(2) by simp
      from here [OF this] fit(2) obtain j
        where "sc_p s - b - 1 + k \<le> j" "j \<le> length value" "?P (drop j value)" by blast
      with k(1) len show "\<exists>k. sc_v s \<le> k \<and> k \<le> length value \<and> ?P (drop k value)"
        by (intro exI [of _ j]) auto
    next
      assume "\<exists>k. sc_v s \<le> k \<and> k \<le> length value \<and> ?P (drop k value)"
      then have "glob ic (drop (sc_p s) pattern) (drop (sc_v s) value)"
        using here [of "sc_v s"] v by auto
      then have "glob ic (drop (b + 1) pattern) (drop (sc_checkpoint s) value)"
        unfolding attempt using seg(2) len v by simp
      with len v show "glob ic pattern value" unfolding eq by (intro exI [of _ "sc_checkpoint s"]) auto
    qed
  qed
  moreover have "scan_ok pattern value (s\<lparr>sc_star := Some (sc_p s), sc_p := sc_p s + 1, sc_checkpoint := sc_v s\<rparr>)"
    using s(1) m(1) by (auto simp: scan_sound_def scan_ok_def)
  ultimately show ?thesis using f by (simp add: scan_sound_def)
qed

lemma sound_after_retry:
  assumes s: "scan_sound pattern value ic s" "scan_on value s" and b: "sc_star s = Some b"
    and miss: "\<not> (sc_p s < length pattern \<and> byte_matches ic (pattern ! sc_p s) (value ! sc_v s))"
      "\<not> (sc_p s < length pattern \<and> pattern ! sc_p s = CHR ''*'')"
  shows "scan_sound pattern value ic
    (s\<lparr>sc_checkpoint := sc_checkpoint s + 1, sc_v := sc_checkpoint s + 1, sc_p := b + 1\<rparr>)"
proof -
  have v: "sc_v s < length value" and f: "\<not> sc_failed s" using s(2) by (auto simp: scan_on_def)
  have p: "b < sc_p s" "sc_p s \<le> length pattern" "sc_checkpoint s + sc_p s = sc_v s + b + 1"
    using s(1) b by (auto simp: scan_sound_def scan_ok_def)
  have seg: "\<forall>i < sc_p s - b - 1. drop (b + 1) pattern ! i \<noteq> CHR ''*''"
    and eq: "glob ic pattern value = (\<exists>k. sc_checkpoint s \<le> k \<and> k \<le> length value \<and>
        glob ic (drop (b + 1) pattern) (drop k value))"
    using s(1) f b by (auto simp: scan_sound_def)
  have miss': "\<not> glob ic (drop (sc_p s) pattern) (drop (sc_v s) value)"
    by (rule glob_at_mismatch [OF v miss])
  have "\<not> glob ic (drop (b + 1) pattern) (drop (sc_checkpoint s) value)"
  proof -
    have "sc_p s - b - 1 + sc_checkpoint s = sc_v s" using p by simp
    then have "drop (sc_p s - b - 1) (drop (sc_checkpoint s) value) = drop (sc_v s) value" by simp
    with miss' show ?thesis unfolding attempt_segment [OF p(1,2) seg] by simp
  qed
  then have "glob ic pattern value = (\<exists>k. sc_checkpoint s + 1 \<le> k \<and> k \<le> length value \<and>
      glob ic (drop (b + 1) pattern) (drop k value))"
    unfolding eq by (metis Suc_eq_plus1 Suc_leD le_antisym not_less_eq_eq)
  moreover have "sc_checkpoint s + 1 \<le> length value" "b + 1 \<le> length pattern" using p v by simp_all
  ultimately show ?thesis using f b by (simp add: scan_sound_def scan_ok_def)
qed

lemma scan_sound_step:
  assumes "CHR ''*'' \<notin> set value" and s: "scan_sound pattern value ic s" "scan_on value s"
  shows "scan_sound pattern value ic (scan_step pattern value ic s)"
proof (cases "sc_p s < length pattern \<and> byte_matches ic (pattern ! sc_p s) (value ! sc_v s)")
  case True
  then show ?thesis using sound_after_match [OF assms] by (simp add: scan_step_def)
next
  case miss: False
  show ?thesis
  proof (cases "sc_p s < length pattern \<and> pattern ! sc_p s = CHR ''*''")
    case True
    then show ?thesis using sound_after_star [OF s] miss by (simp add: scan_step_def)
  next
    case nostar: False
    show ?thesis
    proof (cases "sc_star s")
      case None
      have v: "sc_v s < length value" "\<not> sc_failed s" using s(2) by (auto simp: scan_on_def)
      have "\<not> glob ic pattern value"
        using s(1) None v glob_at_mismatch [OF v(1) miss nostar] by (simp add: scan_sound_def)
      moreover have "scan_ok pattern value (s\<lparr>sc_failed := True\<rparr>)"
        using s(1) None by (simp add: scan_sound_def scan_ok_def)
      ultimately show ?thesis using miss nostar None by (auto simp: scan_step_def scan_sound_def)
    next
      case (Some b)
      show ?thesis
        unfolding scan_step_def if_not_P [OF miss] if_not_P [OF nostar] Some option.case
        by (rule sound_after_retry [OF s Some miss nostar])
    qed
  qed
qed

lemma scan_sound_end:
  assumes s: "scan_sound pattern value ic s" and "\<not> scan_on value s"
  shows "glob ic pattern value \<longleftrightarrow> \<not> sc_failed s \<and> only_stars (drop (sc_p s) pattern)"
proof (cases "sc_failed s")
  case True
  with s show ?thesis by (simp add: scan_sound_def)
next
  case f: False
  then have v: "sc_v s = length value" using assms by (auto simp: scan_on_def scan_sound_def scan_ok_def)
  show ?thesis
  proof (cases "sc_star s")
    case None
    with s f v show ?thesis by (simp add: scan_sound_def glob_empty_value)
  next
    case (Some b)
    have p: "b < sc_p s" "sc_p s \<le> length pattern" "sc_checkpoint s + sc_p s = sc_v s + b + 1"
      using s Some by (auto simp: scan_sound_def scan_ok_def)
    have seg: "\<forall>i < sc_p s - b - 1. drop (b + 1) pattern ! i \<noteq> CHR ''*''"
      "\<forall>i < sc_p s - b - 1. byte_matches ic (drop (b + 1) pattern ! i) (drop (sc_checkpoint s) value ! i)"
      and eq: "glob ic pattern value = (\<exists>k. sc_checkpoint s \<le> k \<and> k \<le> length value \<and>
          glob ic (drop (b + 1) pattern) (drop k value))"
      using s f Some by (auto simp: scan_sound_def)
    have "k \<le> sc_checkpoint s" if "k \<le> length value" "glob ic (drop (b + 1) pattern) (drop k value)" for k
      using that p v unfolding attempt_segment [OF p(1,2) seg(1)] by auto
    moreover have "sc_checkpoint s \<le> length value" using p v by simp
    ultimately have "glob ic pattern value \<longleftrightarrow> glob ic (drop (b + 1) pattern) (drop (sc_checkpoint s) value)"
      unfolding eq by (blast dest: le_antisym)
    also have "\<dots> \<longleftrightarrow> only_stars (drop (sc_p s) pattern)"
    proof -
      have "sc_p s - b - 1 + sc_checkpoint s = length value" using p v by simp
      then have "drop (sc_p s - b - 1) (drop (sc_checkpoint s) value) = []"
        "sc_p s - b - 1 \<le> length (drop (sc_checkpoint s) value)" by simp_all
      with seg(2) show ?thesis
        unfolding attempt_segment [OF p(1,2) seg(1)] by (simp add: glob_empty_value)
    qed
    finally show ?thesis using f by simp
  qed
qed

lemma wildcard_returns: "\<exists>r. wildcard_match_case pattern value ic = Some r"
  using scan_returns [of "value" pattern ic] by (auto simp: wildcard_match_case_def)

lemma wildcard_glob:
  assumes "CHR ''*'' \<notin> set value"
  shows "wildcard_match_case pattern value ic = Some (glob ic pattern value)"
proof -
  obtain s where s: "while_option (scan_on value) (scan_step pattern value ic) scan_start = Some s"
    using scan_returns by blast
  have "scan_sound pattern value ic scan_start"
    by (simp add: scan_sound_def scan_ok_start) (simp add: scan_start_def)
  with s have "scan_sound pattern value ic s"
    by (rule while_option_rule [rotated]) (auto intro: scan_sound_step [OF assms])
  moreover have "\<not> scan_on value s" using s by (rule while_option_stop)
  ultimately show ?thesis using s by (simp add: wildcard_match_case_def scan_sound_end)
qed

section \<open>Host lines\<close>

fun match_loop :: "string \<Rightarrow> string list \<Rightarrow> bool \<Rightarrow> bool" where
  "match_loop value [] matched = matched"
| "match_loop value (pattern # patterns) matched =
     (case strip_prefix ''!'' pattern of
        Some negative \<Rightarrow>
          if wildcard_match_case negative value False = Some True then False
          else match_loop value patterns matched
      | None \<Rightarrow>
          match_loop value patterns (matched \<or> wildcard_match_case pattern value False = Some True))"

definition matches_patterns :: "string \<Rightarrow> string list \<Rightarrow> bool" where
  "matches_patterns value patterns = match_loop value patterns False"

definition accepts_host :: "string \<Rightarrow> string list \<Rightarrow> bool" where
  "accepts_host value patterns =
     ((\<exists>p \<in> set patterns. \<not> starts_with ''!'' p \<and> glob False p value) \<and>
      (\<forall>n. ''!'' @ n \<in> set patterns \<longrightarrow> \<not> glob False n value))"

lemma match_loop_iff:
  assumes "CHR ''*'' \<notin> set value"
  shows "match_loop value patterns matched \<longleftrightarrow>
    (matched \<or> (\<exists>p \<in> set patterns. \<not> starts_with ''!'' p \<and> glob False p value)) \<and>
    (\<forall>n. ''!'' @ n \<in> set patterns \<longrightarrow> \<not> glob False n value)"
proof (induction patterns arbitrary: matched)
  case Nil
  then show ?case by simp
next
  case (Cons p ps)
  show ?case
  proof (cases "strip_prefix ''!'' p")
    case None
    then have "\<not> starts_with ''!'' p" "\<forall>n. ''!'' @ n \<noteq> p"
      by (auto simp: starts_with_def strip_prefix_Some [symmetric])
    with None show ?thesis by (auto simp: Cons.IH wildcard_glob [OF assms])
  next
    case (Some n)
    then have "p = ''!'' @ n" "starts_with ''!'' p" by (simp_all add: strip_prefix_Some starts_with_def)
    with Some show ?thesis by (auto simp: Cons.IH wildcard_glob [OF assms])
  qed
qed

text \<open>
  The pattern matcher always returns, and on a value without a literal star it
  decides glob matching: a star stands for any bytes, a question mark for one.
\<close>

theorem wildcard_decides_glob:
  assumes "CHR ''*'' \<notin> set value"
  shows "wildcard_match_case pattern value ic = Some (glob ic pattern value) \<and>
    (\<exists>r. wildcard_match_case pattern value' ic = Some r)"
  using wildcard_glob [OF assms] wildcard_returns by blast

lemma wildcard_decides_glob_witness:
  "wildcard_match_case ''*.ex?mple'' ''a.b.example'' False = Some True"
  using wildcard_decides_glob [of "''a.b.example''" "''*.ex?mple''" False "[]"]
  by (simp add: byte_matches_def)

text \<open>
  A \<open>Host\<close> line selects a name exactly when one of its patterns matches and none
  of its exclusions does, in whatever order they are written.
\<close>

theorem host_line_exact:
  assumes "CHR ''*'' \<notin> set value"
  shows "matches_patterns value patterns = accepts_host value patterns"
  by (simp add: matches_patterns_def accepts_host_def match_loop_iff [OF assms])

lemma host_line_exact_witness:
  "\<not> matches_patterns ''prod.example'' [''*.example'', ''!prod.*'']"
proof -
  have "glob False ''prod.*'' ''prod.example''" by (simp add: byte_matches_def)
  then have "\<not> accepts_host ''prod.example'' [''*.example'', ''!prod.*'']"
    by (auto simp: accepts_host_def)
  with host_line_exact [of "''prod.example''" "[''*.example'', ''!prod.*'']"] show ?thesis by simp
qed

text \<open>
  A value with a literal star is the exception: a star of the pattern standing opposite it is
  taken as that one byte, and no retry is recorded for it.
\<close>

lemma literal_star_missed:
  "wildcard_match_case ''*'' ''*a'' False = Some False" "glob False ''*'' ''*a''"
  by (simp_all add: wildcard_match_case_def while_option_unfold scan_on_def scan_step_def scan_start_def
      byte_matches_def)

end
