(* ===== verification/Paths.thy ===== *)
theory Paths
  imports Text "HOL-Library.List_Lexorder" "HOL-Library.Product_Lexorder" "HOL-Library.Char_ord"
begin

text \<open>
  Unix paths as Rust's \<open>std::path\<close> reads them, and \<open>absolute_normalized\<close> of
  \<open>crates/fwm-core/src/paths.rs\<close>. A path is its text; \<open>canonicalize\<close> of the file
  system is the parameter \<open>canon\<close>.
\<close>

section \<open>Lines\<close>

text \<open>\<open>str::lines\<close>: a carriage return before a line feed is dropped.\<close>

definition str_lines :: "string \<Rightarrow> string list" where
  "str_lines s =
     (let ls = split_on CHR 0x0A s;
          chop = (\<lambda>l. if l \<noteq> [] \<and> last l = CHR 0x0D then butlast l else l)
      in map chop (butlast ls) @ (if last ls = [] then [] else [last ls]))"

section \<open>Components\<close>

datatype component = RootDir | CurDir | ParentDir | Normal string

text \<open>The order \<open>derive\<close> gives \<open>Component\<close>: by constructor, then by bytes.\<close>

fun component_key :: "component \<Rightarrow> nat list" where
  "component_key RootDir = [0]"
| "component_key CurDir = [1]"
| "component_key ParentDir = [2]"
| "component_key (Normal s) = 3 # map byte s"

lemma component_key_inject: "component_key a = component_key b \<longleftrightarrow> a = b"
  by (cases a; cases b) (auto simp: inj_map_eq_map inj_def)

instantiation component :: linorder
begin

definition less_eq_component :: "component \<Rightarrow> component \<Rightarrow> bool" where
  "less_eq_component a b = (component_key a \<le> component_key b)"

definition less_component :: "component \<Rightarrow> component \<Rightarrow> bool" where
  "less_component a b = (component_key a < component_key b)"

instance
proof
  fix x y z :: component
  show "x < y \<longleftrightarrow> x \<le> y \<and> \<not> y \<le> x"
    unfolding less_eq_component_def less_component_def by (rule less_le_not_le)
  show "x \<le> x" by (simp add: less_eq_component_def)
  show "x \<le> y \<Longrightarrow> y \<le> z \<Longrightarrow> x \<le> z" unfolding less_eq_component_def by (rule order_trans)
  show "x \<le> y \<Longrightarrow> y \<le> x \<Longrightarrow> x = y"
    unfolding less_eq_component_def component_key_inject [symmetric] by (rule order_antisym)
  show "x \<le> y \<or> y \<le> x" unfolding less_eq_component_def by (rule linear)
qed

end

definition is_absolute :: "string \<Rightarrow> bool" where
  "is_absolute p = starts_with ''/'' p"

text \<open>
  \<open>Path::components\<close> drops empty components and dots, except a dot that begins a relative
  path.
\<close>

fun component_of :: "string \<Rightarrow> component list" where
  "component_of [] = []"
| "component_of s = (if s = ''.'' then [] else if s = ''..'' then [ParentDir] else [Normal s])"

definition components :: "string \<Rightarrow> component list" where
  "components p =
     (if is_absolute p then RootDir # concat (map component_of (split_on CHR ''/'' p))
      else (case split_on CHR ''/'' p of
          [] \<Rightarrow> []
        | first # more \<Rightarrow> (if first = ''.'' then [CurDir] else component_of first) @
                          concat (map component_of more)))"

text \<open>\<open>Path::join\<close> and, on what \<open>push\<close> has built, \<open>pop\<close>.\<close>

definition path_join :: "string \<Rightarrow> string \<Rightarrow> string" where
  "path_join base p =
     (if is_absolute p then p
      else if base = [] \<or> last base = CHR ''/'' then base @ p
      else base @ ''/'' @ p)"

fun component_text :: "component \<Rightarrow> string" where
  "component_text RootDir = ''/''"
| "component_text CurDir = ''.''"
| "component_text ParentDir = ''..''"
| "component_text (Normal s) = s"

definition path_of :: "component list \<Rightarrow> string" where
  "path_of cs = foldl (\<lambda>p c. path_join p (component_text c)) [] cs"

text \<open>\<open>Path::parent\<close> and \<open>Path::file_name\<close> look at the last component.\<close>

definition parent :: "string \<Rightarrow> string option" where
  "parent p = (case rev (components p) of
       [] \<Rightarrow> None
     | RootDir # _ \<Rightarrow> None
     | _ # rest \<Rightarrow> Some (path_of (rev rest)))"

definition file_name :: "string \<Rightarrow> string option" where
  "file_name p = (case rev (components p) of Normal s # _ \<Rightarrow> Some s | _ \<Rightarrow> None)"

definition pop :: "string \<Rightarrow> string" where
  "pop p = (case parent p of None \<Rightarrow> p | Some q \<Rightarrow> q)"

text \<open>\<open>Vec<PathBuf>::sort\<close> compares paths by their components.\<close>

definition sort_paths :: "string list \<Rightarrow> string list" where
  "sort_paths = sort_key components"

section \<open>Absolute paths\<close>

datatype canonical = Canonical string | NotFound | Unreadable

datatype path_error = BaseNotAbsolute | CannotResolve | EmptyPath

fun normalize_from :: "(string \<Rightarrow> canonical) \<Rightarrow> string \<Rightarrow> component list \<Rightarrow> path_error + string" where
  "normalize_from canon p [] = Inr p"
| "normalize_from canon p (c # cs) = (case c of
       CurDir \<Rightarrow> normalize_from canon p cs
     | ParentDir \<Rightarrow> normalize_from canon (pop p) cs
     | RootDir \<Rightarrow> normalize_from canon (path_join p ''/'') cs
     | Normal part \<Rightarrow>
         let q = path_join p part
         in (case canon q of
               Canonical r \<Rightarrow> normalize_from canon r cs
             | NotFound \<Rightarrow> normalize_from canon q cs
             | Unreadable \<Rightarrow> Inl CannotResolve))"

definition absolute_normalized :: "(string \<Rightarrow> canonical) \<Rightarrow> string \<Rightarrow> string \<Rightarrow> path_error + string" where
  "absolute_normalized canon p base =
     (let a = if is_absolute p then p else path_join base p
      in if \<not> is_absolute a then Inl BaseNotAbsolute else normalize_from canon [] (components a))"

end
