(* ===== verification/SshLine.thy ===== *)
theory SshLine
  imports Paths Model Net
begin

text \<open>
  One line of an SSH configuration and the values in it, \<open>crates/fwm-core/src/ssh/config.rs\<close>
  and \<open>ssh/path_options.rs\<close>: splitting into words, home and token expansion, booleans, and
  the paths that are kept relative to the file they come from.
\<close>

datatype ssh_error =
    Unterminated | OtherUser | BadToken "nat option" | EnvExpansion | NotBoolean string string
  | PathFailed path_error | EnvAgent | NotRegularFile | CannotOpen | FileTooLarge | IncludeDepth
  | BadInclude | NeedsValue string | ExpectsOne string | MatchUnsupported | Unsupported string
  | ExcludesPublickey | BadCanonicalize | DisablesTrust | BadCompression | Enabled string
  | NumericHost | TrailingDot | BadProfile profile_error | NoConfigFile | NoUser | BadPort | BadDestination
  | BadKnownHosts

section \<open>Words\<close>

definition quotable :: "nat \<Rightarrow> bool" where
  "quotable c = (c = 92 \<or> c = 34 \<or> c = 39)"

definition push_word :: "string list \<Rightarrow> string \<Rightarrow> string list" where
  "push_word out current = (if current = [] then out else out @ [current])"

fun scan_words ::
    "string list \<Rightarrow> string \<Rightarrow> nat option \<Rightarrow> bool \<Rightarrow> (nat \<times> string) list \<Rightarrow> ssh_error + string list" where
  "scan_words out current quote escaped [] =
     (if escaped \<or> quote \<noteq> None then Inl Unterminated else Inr (push_word out current))"
| "scan_words out current quote escaped ((c, b) # s) =
     (if escaped then scan_words out (current @ b) quote False s
      else if c = 92 \<and> (case s of [] \<Rightarrow> False | (d, _) # _ \<Rightarrow> quotable d)
      then scan_words out current quote True s
      else (case quote of
          Some q \<Rightarrow> if c = q then scan_words out current None False s
                   else scan_words out (current @ b) quote False s
        | None \<Rightarrow>
            if c = 39 \<or> c = 34 then scan_words out current (Some c) False s
            else if c = 35 then Inr (push_word out current)
            else if is_whitespace c \<or> c = 61 \<and> (out = [] \<or> length out = 1 \<and> current = [])
            then scan_words (push_word out current) [] None False s
            else scan_words out (current @ b) None False s))"

definition tokenize :: "string \<Rightarrow> ssh_error + string list" where
  "tokenize line = scan_words [] [] None False (utf8_chunks line)"

section \<open>Values\<close>

definition boolean :: "string \<Rightarrow> string \<Rightarrow> ssh_error + bool" where
  "boolean name v =
     (let w = to_ascii_lowercase v
      in if w = ''yes'' \<or> w = ''true'' then Inr True
         else if w = ''no'' \<or> w = ''false'' then Inr False
         else Inl (NotBoolean name v))"

definition expand_home :: "string \<Rightarrow> string \<Rightarrow> ssh_error + string" where
  "expand_home v home =
     (if v = ''~'' then Inr home
      else (case strip_prefix ''~/'' v of
          Some rest \<Rightarrow> Inr (path_join home rest)
        | None \<Rightarrow> if starts_with ''~'' v then Inl OtherUser else Inr v))"

record token_values =
  tk_alias :: string
  tk_host :: string
  tk_user :: string
  tk_port :: u16
  tk_home :: string

fun substitute :: "token_values \<Rightarrow> (nat \<times> string) list \<Rightarrow> ssh_error + string" where
  "substitute t [] = Inr []"
| "substitute t ((c, b) # s) =
     (if c \<noteq> 37 then rbind (substitute t s) (\<lambda>r. Inr (b @ r))
      else (case s of
          [] \<Rightarrow> Inl (BadToken None)
        | (d, _) # s' \<Rightarrow>
            if d = 37 then rbind (substitute t s') (\<lambda>r. Inr (''%'' @ r))
            else if d = 104 then rbind (substitute t s') (\<lambda>r. Inr (tk_host t @ r))
            else if d = 110 then rbind (substitute t s') (\<lambda>r. Inr (tk_alias t @ r))
            else if d = 114 then rbind (substitute t s') (\<lambda>r. Inr (tk_user t @ r))
            else if d = 112 then rbind (substitute t s') (\<lambda>r. Inr (show_word (tk_port t) @ r))
            else if d = 100 then rbind (substitute t s') (\<lambda>r. Inr (tk_home t @ r))
            else Inl (BadToken (Some d))))"

fun contains_env :: "string \<Rightarrow> bool" where
  "contains_env [] = False"
| "contains_env (c # s) = (starts_with ''${'' (c # s) \<or> contains_env s)"

definition expand_tokens :: "token_values \<Rightarrow> string \<Rightarrow> ssh_error + string" where
  "expand_tokens t v =
     rbind (expand_home v (tk_home t)) (\<lambda>e.
     rbind (substitute t (utf8_chunks e)) (\<lambda>r.
     rbind (rguard (contains_env r) EnvExpansion) (\<lambda>_. Inr r)))"

section \<open>Stable paths\<close>

text \<open>\<open>cwd\<close> is the working directory; only a relative base is resolved against it.\<close>

definition normalized_path ::
    "(string \<Rightarrow> canonical) \<Rightarrow> string \<Rightarrow> string \<Rightarrow> string \<Rightarrow> path_error + string" where
  "normalized_path canon cwd p base =
     (if p = [] then Inl EmptyPath
      else if starts_with ''~'' p \<or> starts_with ''%d/'' p \<or> p = ''%d'' then Inr p
      else if CHR ''%'' \<in> set p then
        (if is_absolute p then Inr p
         else rbind (absolute_normalized canon base cwd) (\<lambda>b. Inr (path_join b p)))
      else (case file_name p of
          Some name \<Rightarrow>
            (case absolute_normalized canon (case parent p of None \<Rightarrow> ''.'' | Some q \<Rightarrow> q) base of
               Inr q \<Rightarrow> Inr (path_join q name)
             | Inl e \<Rightarrow> if is_absolute p then Inr p else Inl e)
        | None \<Rightarrow> absolute_normalized canon p base))"

definition source_path ::
    "(string \<Rightarrow> canonical) \<Rightarrow> string \<Rightarrow> string \<Rightarrow> string \<Rightarrow> ssh_error + string" where
  "source_path canon cwd v source =
     (if eq_ignore_ascii_case v ''none'' \<or> v = ''SSH_AUTH_SOCK'' then Inr v
      else map_err PathFailed
        (normalized_path canon cwd v (case parent source of None \<Rightarrow> ''.'' | Some q \<Rightarrow> q)))"

definition map_option_result :: "('a \<Rightarrow> 'e + 'b) \<Rightarrow> 'a option \<Rightarrow> 'e + 'b option" where
  "map_option_result f x = (case x of None \<Rightarrow> Inr None | Some a \<Rightarrow> rbind (f a) (\<lambda>b. Inr (Some b)))"

definition map_profile_paths ::
    "(string \<Rightarrow> path_error + string) \<Rightarrow> server_profile \<Rightarrow> path_error + server_profile" where
  "map_profile_paths f p =
     rbind (collect_results f (sp_identity_files p)) (\<lambda>ids.
     rbind (map_option_result f (sp_ssh_config p)) (\<lambda>conf.
     rbind (map_option_result f (sp_known_hosts p)) (\<lambda>known.
     Inr (p\<lparr>sp_identity_files := ids, sp_ssh_config := conf, sp_known_hosts := known\<rparr>))))"

definition normalize_profile_paths ::
    "(string \<Rightarrow> canonical) \<Rightarrow> string \<Rightarrow> string \<Rightarrow> server_profile \<Rightarrow> path_error + server_profile" where
  "normalize_profile_paths canon cwd base = map_profile_paths (\<lambda>p. normalized_path canon cwd p base)"

text \<open>Persisted absolute paths stay as they are.\<close>

definition normalize_config_paths ::
    "(string \<Rightarrow> canonical) \<Rightarrow> string \<Rightarrow> string \<Rightarrow> config \<Rightarrow> path_error + config" where
  "normalize_config_paths canon cwd base c =
     rbind (collect_results (map_profile_paths
              (\<lambda>p. if is_absolute p then Inr p else normalized_path canon cwd p base)) (servers c)) (\<lambda>ss.
     Inr (c\<lparr>servers := ss\<rparr>))"

section \<open>Words survive quoting\<close>

fun escape_word :: "string \<Rightarrow> string" where
  "escape_word [] = []"
| "escape_word (c # w) =
     (if c = CHR 0x5C \<or> c = CHR 0x22 then CHR 0x5C # c # escape_word w else c # escape_word w)"

definition quote_word :: "string \<Rightarrow> string" where
  "quote_word w = [CHR 0x22] @ escape_word w @ [CHR 0x22]"

definition quoted_line :: "string list \<Rightarrow> string" where
  "quoted_line ws = join '' '' (map quote_word ws)"

abbreviation letters :: "string \<Rightarrow> (nat \<times> string) list" where
  "letters s \<equiv> map (\<lambda>c. (byte c, [c])) s"

lemma byte_chars: "byte (CHR 0x5C) = 92" "byte (CHR 0x22) = 34" "byte (CHR '' '') = 32"
  by (simp_all add: byte_def)

lemma byte_eq_iff: "byte c = 92 \<longleftrightarrow> c = CHR 0x5C" "byte c = 34 \<longleftrightarrow> c = CHR 0x22"
  using byte_inject byte_chars by metis+

lemma scan_escaped:
  "scan_words out cur (Some 34) False (letters (escape_word w) @ rest) = scan_words out (cur @ w) (Some 34) False rest"
proof (induction w arbitrary: cur)
  case Nil
  then show ?case by simp
next
  case (Cons c w)
  show ?case
    by (simp add: Cons.IH byte_eq_iff byte_chars quotable_def)
qed

lemma scan_quoted:
  "scan_words out [] None False (letters (quote_word w) @ rest) = scan_words out w None False rest"
  using scan_escaped [of out "[]" w "(34, [CHR 0x22]) # rest"]
  by (simp add: quote_word_def byte_chars quotable_def)

lemma scan_quoted_line:
  assumes "\<forall>w \<in> set ws. w \<noteq> []"
  shows "scan_words out [] None False (letters (quoted_line ws)) = Inr (out @ ws)"
  using assms
proof (induction ws arbitrary: out)
  case Nil
  then show ?case by (simp add: quoted_line_def push_word_def)
next
  case (Cons w ws)
  show ?case
  proof (cases ws)
    case Nil
    with Cons.prems scan_quoted [of out w "[]"] show ?thesis by (simp add: quoted_line_def push_word_def)
  next
    case (Cons v vs)
    then have "quoted_line (w # ws) = quote_word w @ '' '' @ quoted_line ws" by (simp add: quoted_line_def)
    with Cons.prems Cons.IH [of "out @ [w]"] show ?thesis
      by (simp add: scan_quoted byte_chars quotable_def push_word_def is_whitespace_def)
  qed
qed

lemma ascii_escape: "is_ascii w \<Longrightarrow> is_ascii (escape_word w)"
  by (induction w) (auto simp: byte_chars)

lemma ascii_quoted_line: "\<forall>w \<in> set ws. is_ascii w \<Longrightarrow> is_ascii (quoted_line ws)"
proof (induction ws)
  case Nil
  then show ?case by (simp add: quoted_line_def)
next
  case (Cons w ws)
  then show ?case
    by (cases ws) (auto simp: quoted_line_def quote_word_def byte_chars ascii_escape)
qed

text \<open>
  Words written in double quotes, with quotes and backslashes escaped, are read
  back as they are, whatever hashes, equals signs or spaces they hold.
\<close>

theorem quoted_words_roundtrip:
  assumes "\<forall>w \<in> set ws. w \<noteq> [] \<and> is_ascii w"
  shows "tokenize (quoted_line ws) = Inr ws"
  using assms scan_quoted_line [of ws "[]"] ascii_quoted_line [of ws]
  by (simp add: tokenize_def utf8_chunks_ascii)

lemma quoted_words_roundtrip_witness:
  "tokenize (quoted_line [''IdentityFile'', ''/a b/#key='', [CHR 0x5C, CHR 0x22]]) =
     Inr [''IdentityFile'', ''/a b/#key='', [CHR 0x5C, CHR 0x22]]"
  by (rule quoted_words_roundtrip) (simp add: byte_def)

end
