(* ===== verification/SshConfig.thy ===== *)
theory SshConfig
  imports SshLine Patterns Net
begin

text \<open>
  Reading SSH configuration files and resolving a server profile against them,
  \<open>crates/fwm-core/src/ssh/config.rs\<close>. The file system is the record \<open>ssh_files\<close>; the
  first argument of \<open>parse_file\<close> counts the include levels that are left, \<open>16\<close> less the
  length of the stack of the code.
\<close>

section \<open>Files and parsed values\<close>

datatype config_file = Irregular | Unopenable | Regular string

record ssh_files =
  f_canon :: "string \<Rightarrow> canonical"
  f_exists :: "string \<Rightarrow> bool"
  f_open :: "string \<Rightarrow> config_file"
  f_glob :: "string \<Rightarrow> string list option"
  f_cwd :: string

record parsed =
  pr_values :: "string \<rightharpoonup> string list"
  pr_identities :: "string list"

definition no_values :: parsed where
  "no_values = \<lparr>pr_values = Map.empty, pr_identities = []\<rparr>"

definition one :: "parsed \<Rightarrow> string \<Rightarrow> string option" where
  "one r k = (case pr_values r k of Some (v # _) \<Rightarrow> Some v | _ \<Rightarrow> None)"

definition insert_value :: "string \<Rightarrow> string list \<Rightarrow> parsed \<Rightarrow> parsed" where
  "insert_value k vs r = r\<lparr>pr_values := (pr_values r)(k \<mapsto> vs)\<rparr>"

definition or_insert :: "string \<Rightarrow> string list \<Rightarrow> parsed \<Rightarrow> parsed" where
  "or_insert k vs r = (if pr_values r k = None then insert_value k vs r else r)"

section \<open>Directives\<close>

definition single_valued :: "string list" where
  "single_valued =
     [''hostname'', ''user'', ''port'', ''proxyjump'', ''identityagent'', ''identitiesonly'',
      ''preferredauthentications'', ''hostkeyalias'', ''stricthostkeychecking'', ''forwardagent'',
      ''forwardx11'', ''forwardx11trusted'', ''compression'', ''usekeychain'', ''canonicalizehostname'']"

definition ignored :: "string list" where
  "ignored =
     [''addkeystoagent'', ''loglevel'', ''visualhostkey'', ''hashknownhosts'', ''controlmaster'',
      ''controlpath'', ''controlpersist'', ''serveraliveinterval'', ''serveralivecountmax'',
      ''tcpkeepalive'', ''exitonforwardfailure'', ''requesttty'', ''sessiontype'', ''batchmode'']"

definition path_valued :: "string list" where
  "path_valued = [''identityagent'', ''userknownhostsfile'', ''globalknownhostsfile'']"

definition plain_valued :: "string list" where
  "plain_valued = [''hostname'', ''user'', ''port'', ''proxyjump'', ''hostkeyalias'']"

definition off_switches :: "string list" where
  "off_switches = [''forwardagent'', ''forwardx11'', ''forwardx11trusted'', ''compression'', ''usekeychain'']"

fun add_identities :: "(string \<Rightarrow> ssh_error + string) \<Rightarrow> string list \<Rightarrow> string list \<Rightarrow> ssh_error + string list" where
  "add_identities path ids [] = Inr ids"
| "add_identities path ids (arg # args) =
     rbind (path arg) (\<lambda>p. add_identities path (if p \<in> set ids then ids else ids @ [p]) args)"

definition switched_on :: "string \<Rightarrow> string \<Rightarrow> ssh_error + bool" where
  "switched_on key v =
     (if key = ''compression'' then
        (if to_ascii_lowercase v = ''yes'' then Inr True
         else if to_ascii_lowercase v = ''no'' then Inr False else Inl BadCompression)
      else boolean key v)"

definition canonicalize_mode :: "string \<Rightarrow> ssh_error + string" where
  "canonicalize_mode v =
     (let w = to_ascii_lowercase v
      in if w = ''no'' \<or> w = ''false'' then Inr ''no''
         else if w = ''yes'' \<or> w = ''true'' then Inr ''yes''
         else if w = ''always'' then Inr ''always''
         else Inl BadCanonicalize)"

text \<open>A directive in an active section, other than \<open>Host\<close>, \<open>Match\<close> and \<open>Include\<close>.\<close>

definition directive ::
    "(string \<Rightarrow> ssh_error + string) \<Rightarrow> string \<Rightarrow> string \<Rightarrow> string list \<Rightarrow> parsed \<Rightarrow> ssh_error + parsed" where
  "directive path word key args r =
     (if key = ''identityfile'' then
        rbind (add_identities path (pr_identities r) args) (\<lambda>ids. Inr (r\<lparr>pr_identities := ids\<rparr>))
      else if key \<in> set path_valued then
        rbind (collect_results (\<lambda>arg. if key = ''identityagent'' \<and> starts_with ''$'' arg then Inl EnvAgent
                                     else path arg) args) (\<lambda>ps. Inr (or_insert key ps r))
      else if key \<in> set plain_valued then
        Inr (or_insert key args r)
      else if key = ''identitiesonly'' then
        rbind (boolean ''IdentitiesOnly'' (hd args)) (\<lambda>b.
        Inr (or_insert key [if b then ''yes'' else ''no''] r))
      else if key = ''preferredauthentications'' then
        rbind (rguard (''publickey'' \<notin> set (split_on CHR '','' (hd args))) ExcludesPublickey) (\<lambda>_.
        Inr (insert_value key args r))
      else if key = ''canonicalizehostname'' then
        rbind (canonicalize_mode (hd args)) (\<lambda>v. Inr (insert_value key [v] r))
      else if key \<in> set ignored then Inr r
      else if key = ''stricthostkeychecking'' then
        rbind (rguard (to_ascii_lowercase (hd args) \<notin> set [''yes'', ''true'', ''ask'']) DisablesTrust) (\<lambda>_.
        Inr (insert_value key args r))
      else if key \<in> set off_switches then
        rbind (switched_on key (hd args)) (\<lambda>on.
        rbind (rguard on (Enabled key)) (\<lambda>_. Inr (insert_value key args r)))
      else if key = ''proxycommand'' \<and> eq_ignore_ascii_case (hd args) ''none'' then
        Inr (insert_value key args r)
      else Inl (Unsupported word))"

section \<open>Files and includes\<close>

definition include_pattern :: "string \<Rightarrow> string \<Rightarrow> ssh_error + string" where
  "include_pattern home arg =
     rbind (expand_home arg home) (\<lambda>p.
     Inr (if is_absolute p then p else path_join (path_join home ''.ssh'') p))"

fun include_paths :: "(string \<Rightarrow> parsed \<Rightarrow> ssh_error + parsed) \<Rightarrow> string list \<Rightarrow> parsed \<Rightarrow> ssh_error + parsed" where
  "include_paths inc [] r = Inr r"
| "include_paths inc (p # ps) r = rbind (inc p r) (include_paths inc ps)"

fun include_args ::
    "ssh_files \<Rightarrow> string \<Rightarrow> (string \<Rightarrow> parsed \<Rightarrow> ssh_error + parsed) \<Rightarrow> string list \<Rightarrow> parsed \<Rightarrow>
       ssh_error + parsed" where
  "include_args fs home inc [] r = Inr r"
| "include_args fs home inc (arg # args) r =
     rbind (include_pattern home arg) (\<lambda>pat.
     rbind (ok_or (f_glob fs pat) BadInclude) (\<lambda>paths.
     rbind (include_paths inc (sort_paths paths) r) (include_args fs home inc args)))"

definition parse_line ::
    "ssh_files \<Rightarrow> string \<Rightarrow> string \<Rightarrow> string \<Rightarrow> (string \<Rightarrow> parsed \<Rightarrow> ssh_error + parsed) \<Rightarrow> string \<Rightarrow>
       bool \<times> parsed \<Rightarrow> ssh_error + (bool \<times> parsed)" where
  "parse_line fs name home source inc line st =
     rbind (tokenize line) (\<lambda>tokens. case tokens of
         [] \<Rightarrow> Inr st
       | word # args \<Rightarrow>
           let key = to_ascii_lowercase word; (active, r) = st in
           if args = [] then Inl (NeedsValue word)
           else if active \<and> pr_values r key \<noteq> None then Inr st
           else if active \<and> length args \<noteq> 1 \<and> key \<in> set single_valued then Inl (ExpectsOne word)
           else if key = ''host'' then Inr (matches_patterns name args, r)
           else if key = ''match'' then Inl MatchUnsupported
           else if key = ''include'' \<and> active then
             rbind (include_args fs home inc args r) (\<lambda>r'. Inr (active, r'))
           else if \<not> active then Inr st
           else rbind (directive (\<lambda>arg. source_path (f_canon fs) (f_cwd fs) arg source) word key args r)
                  (\<lambda>r'. Inr (active, r')))"

fun parse_lines ::
    "(string \<Rightarrow> bool \<times> parsed \<Rightarrow> ssh_error + (bool \<times> parsed)) \<Rightarrow> string list \<Rightarrow> bool \<times> parsed \<Rightarrow>
       ssh_error + (bool \<times> parsed)" where
  "parse_lines step [] st = Inr st"
| "parse_lines step (l # ls) st = rbind (step l st) (parse_lines step ls)"

definition MAX_SSH_CONFIG :: nat where
  "MAX_SSH_CONFIG = 1024 * 1024"

definition canonicalized :: "ssh_files \<Rightarrow> string \<Rightarrow> ssh_error + string" where
  "canonicalized fs path = (case f_canon fs path of Canonical c \<Rightarrow> Inr c | _ \<Rightarrow> Inl CannotOpen)"

definition read_config :: "ssh_files \<Rightarrow> string \<Rightarrow> ssh_error + string" where
  "read_config fs path = (case f_open fs path of
       Irregular \<Rightarrow> Inl NotRegularFile
     | Unopenable \<Rightarrow> Inl CannotOpen
     | Regular s \<Rightarrow> if MAX_SSH_CONFIG < length s then Inl FileTooLarge else Inr s)"

primrec parse_file ::
    "nat \<Rightarrow> ssh_files \<Rightarrow> string \<Rightarrow> string \<Rightarrow> string list \<Rightarrow> string \<Rightarrow> bool \<times> parsed \<Rightarrow>
       ssh_error + (bool \<times> parsed)" where
  "parse_file 0 fs name home stack path st =
     rbind (canonicalized fs path) (\<lambda>_. Inl IncludeDepth)"
| "parse_file (Suc n) fs name home stack path st =
     rbind (canonicalized fs path) (\<lambda>source.
     rbind (rguard (source \<in> set stack) IncludeDepth) (\<lambda>_.
     rbind (read_config fs path) (\<lambda>text.
     parse_lines (parse_line fs name home source
         (\<lambda>p r. rbind (parse_file n fs name home (stack @ [source]) p (True, r)) (\<lambda>st'. Inr (snd st'))))
       (str_lines text) st)))"

definition INCLUDE_LEVELS :: nat where
  "INCLUDE_LEVELS = 16"

end
