(* ===== verification/SshResolve.thy ===== *)
theory SshResolve
  imports SshConfig
begin

text \<open>
  The effective SSH settings of a server profile, \<open>resolve_with_home\<close> of
  \<open>crates/fwm-core/src/ssh/config.rs\<close>, on Unix. \<open>user_env\<close> holds the variables
  \<open>USER\<close>, \<open>USERNAME\<close> and \<open>SSH_AUTH_SOCK\<close>.
\<close>

section \<open>Host names\<close>

definition hex_text :: "string \<Rightarrow> bool" where
  "hex_text s = (s \<noteq> [] \<and> list_all is_ascii_hexdigit s)"

definition numeric_part :: "string \<Rightarrow> bool" where
  "numeric_part part =
     (let p = to_ascii_lowercase part
      in case strip_prefix ''0x'' p of
           Some h \<Rightarrow> hex_text h
         | None \<Rightarrow> p \<noteq> [] \<and> list_all is_ascii_digit p)"

definition mixed_notation :: "ip_addr \<Rightarrow> ipv4 option" where
  "mixed_notation a = (case a of
       V4 _ \<Rightarrow> None
     | V6 x \<Rightarrow>
         if take 6 (segments x) = [0, 0, 0, 0, 0, 0] \<and> segments x ! 6 \<noteq> 0
         then Some (Ipv4 (high_octet (segments x ! 6)) (low_octet (segments x ! 6))
                         (high_octet (segments x ! 7)) (low_octet (segments x ! 7)))
         else None)"

definition canonical_host :: "string \<Rightarrow> string \<Rightarrow> bool \<Rightarrow> ssh_error + string" where
  "canonical_host host mode proxied =
     (case parse_ip host of
        Some a \<Rightarrow> (case mixed_notation a of
            Some v4 \<Rightarrow> Inr (''::'' @ show_ipv4 v4)
          | None \<Rightarrow> Inr (show_ip a))
      | None \<Rightarrow>
          if CHR '':'' \<in> set host \<or> list_all numeric_part (split_on CHR ''.'' host) then Inl NumericHost
          else if host \<noteq> [] \<and> last host = CHR ''.'' \<and> (mode = ''always'' \<or> \<not> proxied) then Inl TrailingDot
          else Inr (to_ascii_lowercase host))"

definition effective_proxy_jump :: "server_profile \<Rightarrow> parsed \<Rightarrow> string list" where
  "effective_proxy_jump p r =
     (if length (sp_proxy_jump p) = 1 \<and> eq_ignore_ascii_case (hd (sp_proxy_jump p)) ''none'' then []
      else if sp_proxy_jump p \<noteq> [] then sp_proxy_jump p
      else (case one r ''proxyjump'' of
          None \<Rightarrow> []
        | Some v \<Rightarrow> if eq_ignore_ascii_case v ''none'' then [] else split_on CHR '','' v))"

section \<open>Resolving a profile\<close>

record user_env =
  env_user :: "string option"
  env_username :: "string option"
  env_auth_sock :: "string option"

record resolved_server =
  rs_alias :: string
  rs_host :: string
  rs_user :: string
  rs_port :: u16
  rs_identity_files :: "string list"
  rs_explicit_identity_files :: bool
  rs_known_hosts :: string
  rs_global_known_hosts :: "string list"
  rs_proxy_jump :: "string list"
  rs_identity_agent :: "string option"
  rs_identities_only :: bool
  rs_host_key_alias :: "string option"
  rs_ssh_config :: string

definition trust_host :: "resolved_server \<Rightarrow> string" where
  "trust_host s = (case rs_host_key_alias s of Some a \<Rightarrow> a | None \<Rightarrow> rs_host s)"

definition transpose_option :: "('a \<Rightarrow> 'e + 'b) \<Rightarrow> 'a option \<Rightarrow> 'e + 'b option" where
  "transpose_option f x = (case x of None \<Rightarrow> Inr None | Some a \<Rightarrow> rbind (f a) (\<lambda>b. Inr (Some b)))"

definition read_settings ::
    "ssh_files \<Rightarrow> string \<Rightarrow> server_profile \<Rightarrow> string \<Rightarrow> string \<Rightarrow> ssh_error + parsed" where
  "read_settings fs home p path name =
     (if f_exists fs path
      then rbind (parse_file INCLUDE_LEVELS fs name home [] path (True, no_values)) (\<lambda>st. Inr (snd st))
      else if sp_ssh_config p \<noteq> None then Inl NoConfigFile
      else Inr no_values)"

definition settle_host ::
    "ssh_files \<Rightarrow> string \<Rightarrow> server_profile \<Rightarrow> string \<Rightarrow> string \<Rightarrow> parsed \<Rightarrow> ssh_error + (string \<times> parsed)" where
  "settle_host fs home p path host r =
     (case one r ''canonicalizehostname'' of
        None \<Rightarrow> Inr (host, r)
      | Some mode \<Rightarrow>
          if mode = ''no'' then Inr (host, r)
          else rbind (canonical_host host mode (effective_proxy_jump p r \<noteq> [])) (\<lambda>h.
               rbind (parse_file INCLUDE_LEVELS fs h home [] path (True, insert_value ''hostname'' [h] r))
                 (\<lambda>st. Inr (h, snd st))))"

definition default_identities :: "string \<Rightarrow> string list" where
  "default_identities home =
     map (path_join (path_join home ''.ssh'')) [''id_ed25519'', ''id_ecdsa'', ''id_rsa'']"

definition identity_paths ::
    "(string \<Rightarrow> ssh_error + string) \<Rightarrow> string \<Rightarrow> server_profile \<Rightarrow> parsed \<Rightarrow> ssh_error + string list" where
  "identity_paths expand home p r =
     rbind (if sp_identity_files p \<noteq> [] then collect_results expand (sp_identity_files p)
            else collect_results expand (filter (\<lambda>v. \<not> eq_ignore_ascii_case v ''none'') (pr_identities r)))
       (\<lambda>ids. Inr (if ids = [] \<and> pr_identities r = [] \<and> sp_identity_files p = []
                    then ids @ default_identities home else ids))"

definition known_hosts_path ::
    "(string \<Rightarrow> ssh_error + string) \<Rightarrow> string \<Rightarrow> server_profile \<Rightarrow> parsed \<Rightarrow> ssh_error + string" where
  "known_hosts_path expand home p r = (case sp_known_hosts p of
       Some path \<Rightarrow> expand path
     | None \<Rightarrow> (case pr_values r ''userknownhostsfile'' of
           Some paths \<Rightarrow>
             if length paths \<noteq> 1 \<or> eq_ignore_ascii_case (hd paths) ''none'' then Inl BadKnownHosts
             else expand (hd paths)
         | None \<Rightarrow> Inr (path_join home ''.ssh/known_hosts'')))"

definition global_known_hosts_paths ::
    "(string \<Rightarrow> ssh_error + string) \<Rightarrow> parsed \<Rightarrow> ssh_error + string list" where
  "global_known_hosts_paths expand r = (case pr_values r ''globalknownhostsfile'' of
       Some paths \<Rightarrow> collect_results expand (filter (\<lambda>v. \<not> eq_ignore_ascii_case v ''none'') paths)
     | None \<Rightarrow> Inr [''/etc/ssh/ssh_known_hosts'', ''/etc/ssh/ssh_known_hosts2''])"

definition identity_agent ::
    "user_env \<Rightarrow> (string \<Rightarrow> ssh_error + string) \<Rightarrow> parsed \<Rightarrow> ssh_error + string option" where
  "identity_agent env expand r = transpose_option
     (\<lambda>s. if s = ''SSH_AUTH_SOCK'' then Inr (case env_auth_sock env of None \<Rightarrow> [] | Some a \<Rightarrow> a) else expand s)
     (one r ''identityagent'')"

definition profile_port :: "server_profile \<Rightarrow> parsed \<Rightarrow> ssh_error + u16" where
  "profile_port p r =
     rbind (transpose_option (\<lambda>v. ok_or (parse_u16 v) BadPort) (one r ''port'')) (\<lambda>q.
     Inr (case or_else (sp_port p) q of None \<Rightarrow> 22 | Some n \<Rightarrow> n))"

definition usable_destination :: "string \<Rightarrow> string \<Rightarrow> u16 \<Rightarrow> bool" where
  "usable_destination host user port =
     (trim host \<noteq> [] \<and> trim user \<noteq> [] \<and> port \<noteq> 0 \<and>
      (\<forall>c \<in> set host. c \<notin> {CHR 0x0A, CHR 0x0D, CHR 0x00}))"

definition finish_server ::
    "user_env \<Rightarrow> server_profile \<Rightarrow> string \<Rightarrow> string \<Rightarrow> string \<Rightarrow> string option \<Rightarrow> string \<Rightarrow> parsed \<Rightarrow>
       ssh_error + resolved_server" where
  "finish_server env p home path name initial_user host r =
     rbind (ok_or (or_else (sp_user p) (or_else (one r ''user'') initial_user)) NoUser) (\<lambda>user.
     rbind (profile_port p r) (\<lambda>port.
     rbind (rguard (\<not> usable_destination host user port) BadDestination) (\<lambda>_.
     let expand = expand_tokens \<lparr>tk_alias = name, tk_host = host, tk_user = user, tk_port = port, tk_home = home\<rparr> in
     rbind (identity_paths expand home p r) (\<lambda>ids.
     rbind (known_hosts_path expand home p r) (\<lambda>known.
     rbind (global_known_hosts_paths expand r) (\<lambda>global.
     rbind (identity_agent env expand r) (\<lambda>agent.
     rbind (transpose_option (boolean ''IdentitiesOnly'') (one r ''identitiesonly'')) (\<lambda>only.
     Inr \<lparr>rs_alias = name, rs_host = host, rs_user = user, rs_port = port, rs_identity_files = ids,
          rs_explicit_identity_files = (sp_identity_files p \<noteq> [] \<or> pr_identities r \<noteq> []),
          rs_known_hosts = known, rs_global_known_hosts = global,
          rs_proxy_jump = effective_proxy_jump p r, rs_identity_agent = agent,
          rs_identities_only = (case only of None \<Rightarrow> False | Some b \<Rightarrow> b),
          rs_host_key_alias = one r ''hostkeyalias'', rs_ssh_config = path\<rparr>))))))))"

definition resolve_with_home ::
    "ssh_files \<Rightarrow> user_env \<Rightarrow> server_profile \<Rightarrow> string \<Rightarrow> ssh_error + resolved_server" where
  "resolve_with_home fs env p home =
     rbind (map_err BadProfile (validate_connection_options p)) (\<lambda>_.
     rbind (ok_or (or_else (sp_ssh_alias p) (sp_host p)) (BadProfile (NeedsHostOrAlias (sp_name p)))) (\<lambda>name.
     rbind (transpose_option (\<lambda>path. expand_home path home) (sp_ssh_config p)) (\<lambda>given.
     let path = (case given of Some q \<Rightarrow> q | None \<Rightarrow> path_join home ''.ssh/config'') in
     rbind (read_settings fs home p path name) (\<lambda>r0.
     let initial_user = or_else (sp_user p) (or_else (one r0 ''user'') (or_else (env_user env) (env_username env)));
         host0 = (case or_else (sp_host p) (one r0 ''hostname'') of Some h \<Rightarrow> h | None \<Rightarrow> name) in
     rbind (expand_tokens \<lparr>tk_alias = name, tk_host = name,
              tk_user = (case initial_user of None \<Rightarrow> [] | Some u \<Rightarrow> u),
              tk_port = (case sp_port p of None \<Rightarrow> 22 | Some n \<Rightarrow> n), tk_home = home\<rparr> host0) (\<lambda>host1.
     rbind (settle_host fs home p path host1 r0) (\<lambda>(host, r).
     finish_server env p home path name initial_user host r))))))"

end
