(* ===== verification/SshTrust.thy ===== *)
theory SshTrust
  imports SshResolve
begin

text \<open>
  What reading SSH configuration files preserves. A relation between the values before and
  after that every directive respects is respected by whole files with their includes; its
  two instances say that the first value of a setting is kept and that no accepted setting
  weakens authentication or trust.
\<close>

section \<open>Relations that directives respect\<close>

locale parse_relation =
  fixes R :: "parsed \<Rightarrow> parsed \<Rightarrow> bool"
  assumes R_refl: "R r r"
    and R_trans: "R a b \<Longrightarrow> R b c \<Longrightarrow> R a c"
    and R_directive: "directive path word key args r = Inr r' \<Longrightarrow> args \<noteq> [] \<Longrightarrow>
      pr_values r key = None \<Longrightarrow> (key \<in> set single_valued \<longrightarrow> length args = 1) \<Longrightarrow> R r r'"
begin

lemma R_include_paths:
  assumes "\<And>p r r'. inc p r = Inr r' \<Longrightarrow> R r r'" and "include_paths inc ps r = Inr r'"
  shows "R r r'"
  using assms(2)
proof (induction ps arbitrary: r)
  case Nil
  then show ?case by (simp add: R_refl)
next
  case (Cons p ps)
  then show ?case by (auto simp: result_simps intro: R_trans assms(1))
qed

lemma R_include_args:
  assumes "\<And>p r r'. inc p r = Inr r' \<Longrightarrow> R r r'" and "include_args fs home inc args r = Inr r'"
  shows "R r r'"
  using assms(2)
proof (induction args arbitrary: r)
  case Nil
  then show ?case by (simp add: R_refl)
next
  case (Cons arg args)
  then obtain paths q where "include_paths inc (sort_paths paths) r = Inr q"
    "include_args fs home inc args q = Inr r'"
    by (auto simp: result_simps)
  from R_include_paths [OF assms(1) this(1)] Cons.IH [OF this(2)] show ?case by (rule R_trans)
qed

lemma R_parse_line:
  assumes inc: "\<And>p r r'. inc p r = Inr r' \<Longrightarrow> R r r'"
    and line: "parse_line fs name home source inc line (active, r) = Inr (active', r')"
  shows "R r r'"
proof -
  from line obtain tokens where t: "tokenize line = Inr tokens"
    by (auto simp: parse_line_def result_simps)
  show ?thesis
  proof (cases tokens)
    case Nil
    with line t show ?thesis by (simp add: parse_line_def R_refl)
  next
    case (Cons word args)
    show ?thesis
      using line
      by (simp add: parse_line_def t Cons Let_def R_refl result_simps split: if_splits)
        (auto simp: R_refl result_simps intro: R_include_args [OF inc] R_directive)
  qed
qed

lemma R_parse_lines:
  assumes "\<And>l a r a' r'. step l (a, r) = Inr (a', r') \<Longrightarrow> R r r'"
    and "parse_lines step ls (a, r) = Inr (a', r')"
  shows "R r r'"
  using assms(2)
proof (induction ls arbitrary: a r)
  case Nil
  then show ?case by (simp add: R_refl)
next
  case (Cons l ls)
  then obtain a1 r1 where "step l (a, r) = Inr (a1, r1)" "parse_lines step ls (a1, r1) = Inr (a', r')"
    by (auto simp: result_simps)
  with Cons.IH show ?case by (blast intro: R_trans assms(1))
qed

lemma R_parse_file:
  "parse_file n fs name home stack path (a, r) = Inr (a', r') \<Longrightarrow> R r r'"
proof (induction n arbitrary: stack path a r a' r')
  case 0
  then show ?case by (simp add: result_simps)
next
  case (Suc n)
  from Suc.prems obtain source body where
    "parse_lines (parse_line fs name home source
         (\<lambda>p r. rbind (parse_file n fs name home (stack @ [source]) p (True, r)) (\<lambda>st'. Inr (snd st'))))
       (str_lines body) (a, r) = Inr (a', r')"
    by (auto simp: result_simps)
  then show ?case
  proof (rule R_parse_lines [rotated])
    fix l a r a' r'
    assume "parse_line fs name home source
         (\<lambda>p r. rbind (parse_file n fs name home (stack @ [source]) p (True, r)) (\<lambda>st'. Inr (snd st')))
       l (a, r) = Inr (a', r')"
    then show "R r r'"
      by (rule R_parse_line [rotated]) (auto simp: result_simps intro: Suc.IH)
  qed
qed

lemma R_read_settings: "read_settings fs home p path name = Inr r \<Longrightarrow> R no_values r"
  by (auto simp: read_settings_def result_simps R_refl split: if_splits intro: R_parse_file)

end

section \<open>The first value of a setting wins\<close>

definition extends :: "parsed \<Rightarrow> parsed \<Rightarrow> bool" where
  "extends r r' =
     (pr_values r \<subseteq>\<^sub>m pr_values r' \<and> (\<exists>more. pr_identities r' = pr_identities r @ more))"

lemma add_identities_prefix:
  "add_identities path ids args = Inr ids' \<Longrightarrow> \<exists>more. ids' = ids @ more"
proof (induction args arbitrary: ids)
  case Nil
  then show ?case by simp
next
  case (Cons arg args)
  then obtain p where "add_identities path (if p \<in> set ids then ids else ids @ [p]) args = Inr ids'"
    by (auto simp: result_simps)
  from Cons.IH [OF this] show ?case by (auto split: if_splits)
qed

lemma extends_insert: "pr_values r k = None \<Longrightarrow> extends r (insert_value k vs r)"
  by (auto simp: extends_def insert_value_def map_le_def)

text \<open>What a directive may leave behind for a key.\<close>

definition admissible :: "string \<Rightarrow> string list \<Rightarrow> bool" where
  "admissible key vs =
     (if key \<in> set path_valued \<or> key \<in> set plain_valued then True
      else if key = ''identitiesonly'' then vs = [''yes''] \<or> vs = [''no'']
      else if key = ''preferredauthentications'' then ''publickey'' \<in> set (split_on CHR '','' (hd vs))
      else if key = ''canonicalizehostname'' then vs = [''no''] \<or> vs = [''yes''] \<or> vs = [''always'']
      else if key = ''stricthostkeychecking'' then to_ascii_lowercase (hd vs) \<in> {''yes'', ''true'', ''ask''}
      else if key \<in> set off_switches then to_ascii_lowercase (hd vs) \<in> {''no'', ''false''}
      else key = ''proxycommand'' \<and> eq_ignore_ascii_case (hd vs) ''none'')"

lemma boolean_Inr: "boolean name v = Inr b \<Longrightarrow> \<not> b \<Longrightarrow> to_ascii_lowercase v \<in> {''no'', ''false''}"
  by (auto simp: boolean_def Let_def split: if_splits)

lemma switched_off: "switched_on key v = Inr False \<Longrightarrow> to_ascii_lowercase v \<in> {''no'', ''false''}"
  by (auto simp: switched_on_def split: if_splits dest: boolean_Inr)

lemma canonicalize_mode_Inr: "canonicalize_mode v = Inr m \<Longrightarrow> m = ''no'' \<or> m = ''yes'' \<or> m = ''always''"
  by (auto simp: canonicalize_mode_def Let_def split: if_splits)

lemma directive_result:
  assumes d: "directive path word key args r = Inr r'" and new: "pr_values r key = None"
    and args: "args \<noteq> []"
  shows "(\<exists>ids. add_identities path (pr_identities r) args = Inr ids \<and> r' = r\<lparr>pr_identities := ids\<rparr>) \<or>
    r' = r \<or> (\<exists>vs. vs \<noteq> [] \<and> admissible key vs \<and> r' = insert_value key vs r)"
proof -
  have ins: "or_insert key vs r = insert_value key vs r" for vs using new by (simp add: or_insert_def)
  consider "key = ''identityfile''" | "key \<in> set path_valued" | "key \<in> set plain_valued"
    | "key = ''identitiesonly''" | "key = ''preferredauthentications''" | "key = ''canonicalizehostname''"
    | "key = ''stricthostkeychecking''" | "key \<in> set off_switches"
    | (other) "key \<noteq> ''identityfile''" "key \<notin> set path_valued" "key \<notin> set plain_valued"
      "key \<noteq> ''identitiesonly''" "key \<noteq> ''preferredauthentications''" "key \<noteq> ''canonicalizehostname''"
      "key \<noteq> ''stricthostkeychecking''" "key \<notin> set off_switches"
    by blast
  then show ?thesis
  proof cases
    case 1
    with d show ?thesis by (auto simp: directive_def result_simps)
  next
    case 2
    then have "key \<noteq> ''identityfile''" by (auto simp: path_valued_def)
    with 2 d obtain ps where "r' = insert_value key ps r" "ps \<noteq> []"
      using args by (auto simp: directive_def result_simps ins)
    with 2 show ?thesis by (auto simp: admissible_def)
  next
    case 3
    then have "key \<noteq> ''identityfile''" "key \<notin> set path_valued" by (auto simp: path_valued_def plain_valued_def)
    with 3 d args show ?thesis by (auto simp: directive_def ins admissible_def)
  next
    case 4
    with d obtain b where "r' = insert_value key [if b then ''yes'' else ''no''] r"
      by (auto simp: directive_def path_valued_def plain_valued_def result_simps ins [unfolded 4])
    with 4 show ?thesis
      by (intro disjI2 exI [of _ "[if b then ''yes'' else ''no'']"])
        (simp add: admissible_def path_valued_def plain_valued_def)
  next
    case 5
    with d args show ?thesis
      by (auto simp: directive_def path_valued_def plain_valued_def result_simps admissible_def)
  next
    case 6
    with d show ?thesis
      by (auto simp: directive_def path_valued_def plain_valued_def result_simps admissible_def
          dest: canonicalize_mode_Inr)
  next
    case 7
    with d args show ?thesis
      by (auto simp: directive_def path_valued_def plain_valued_def ignored_def result_simps admissible_def)
  next
    case 8
    then have "key \<noteq> ''identityfile''" "key \<notin> set path_valued" "key \<notin> set plain_valued" "key \<notin> set ignored"
      "key \<noteq> ''identitiesonly''" "key \<noteq> ''preferredauthentications''" "key \<noteq> ''canonicalizehostname''"
      "key \<noteq> ''stricthostkeychecking''"
      by (auto simp: path_valued_def plain_valued_def off_switches_def ignored_def)
    moreover from this 8 d have "switched_on key (hd args) = Inr False" "r' = insert_value key args r"
      by (auto simp: directive_def result_simps)
    ultimately have "admissible key args" "r' = insert_value key args r"
      using 8 switched_off by (auto simp: admissible_def)
    with args show ?thesis by blast
  next
    case other
    with d args show ?thesis by (auto simp: directive_def admissible_def split: if_splits)
  qed
qed

lemma extends_directive:
  assumes "directive path word key args r = Inr r'" and "args \<noteq> []" and "pr_values r key = None"
  shows "extends r r'"
  using directive_result [OF assms(1,3,2)] assms(3)
  by (auto simp: extends_insert) (auto simp: extends_def dest: add_identities_prefix)

lemma extends_trans: "extends a b \<Longrightarrow> extends b c \<Longrightarrow> extends a c"
  by (auto simp: extends_def intro: map_le_trans)

interpretation first_value: parse_relation extends
  by unfold_locales (auto simp: extends_def [where r' = r and r = r for r] intro: extends_trans extends_directive)

section \<open>No accepted setting weakens trust\<close>

definition trustworthy :: "parsed \<Rightarrow> bool" where
  "trustworthy r = (\<forall>k vs. pr_values r k = Some vs \<longrightarrow> vs \<noteq> [] \<and> admissible k vs)"

lemma trustworthy_insert: "trustworthy r \<Longrightarrow> vs \<noteq> [] \<Longrightarrow> admissible k vs \<Longrightarrow> trustworthy (insert_value k vs r)"
  by (auto simp: trustworthy_def insert_value_def)

interpretation trust: parse_relation "\<lambda>r r'. trustworthy r \<longrightarrow> trustworthy r'"
proof
  fix path word key args r r'
  assume "directive path word key args r = Inr r'" "args \<noteq> []" "pr_values r key = None"
  from directive_result [OF this(1,3,2)] show "trustworthy r \<longrightarrow> trustworthy r'"
    by (auto intro: trustworthy_insert) (simp add: trustworthy_def)
qed auto

lemma trustworthy_no_values [simp]: "trustworthy no_values"
  by (simp add: trustworthy_def no_values_def)

lemma trustworthy_hostname: "trustworthy r \<Longrightarrow> trustworthy (insert_value ''hostname'' [h] r)"
  by (rule trustworthy_insert) (auto simp: admissible_def plain_valued_def)

lemma settle_host_trustworthy:
  assumes "settle_host fs home p path host r = Inr (h, r')" and "trustworthy r"
  shows "trustworthy r'"
  using assms trust.R_parse_file [of INCLUDE_LEVELS fs _ home "[]" path True "insert_value ''hostname'' [h] r" _ r']
    trustworthy_hostname
  by (auto simp: settle_host_def result_simps split: option.splits if_splits)

text \<open>
  Reading a configuration with all its includes keeps what was read before: a
  setting once obtained never changes, and identities are only added at the end.
\<close>

theorem first_value_wins:
  assumes "parse_file n fs name home stack path (active, r) = Inr (active', r')"
    and "pr_values r key = Some vs"
  shows "pr_values r' key = Some vs \<and> (\<exists>more. pr_identities r' = pr_identities r @ more)"
proof -
  from first_value.R_parse_file [OF assms(1)] have "pr_values r \<subseteq>\<^sub>m pr_values r'"
    and more: "\<exists>more. pr_identities r' = pr_identities r @ more"
    by (simp_all add: extends_def)
  with assms(2) have "pr_values r' key = Some vs" by (metis domI map_le_def)
  with more show ?thesis by blast
qed

definition sample_text :: string where
  "sample_text = ''User a'' @ [CHR 0x0A] @ ''User b # late''"

definition sample_files :: ssh_files where
  "sample_files = \<lparr>f_canon = Canonical, f_exists = (\<lambda>p. p = ''/c''),
     f_open = (\<lambda>p. if p = ''/c'' then Regular sample_text else Unopenable),
     f_glob = (\<lambda>_. Some []), f_cwd = ''/''\<rparr>"

definition sample_values :: parsed where
  "sample_values = insert_value ''user'' [''a''] no_values"

lemma sample_tokens:
  "tokenize ''User a'' = Inr [''User'', ''a'']" "tokenize ''User b # late'' = Inr [''User'', ''b'']"
  by (simp_all add: tokenize_def byte_def is_whitespace_def quotable_def push_word_def)

lemma sample_lines: "str_lines sample_text = [''User a'', ''User b # late'']" "\<not> 1048576 < length sample_text"
  by (simp_all add: str_lines_def sample_text_def)

lemma sample_parse:
  "parse_file (Suc 0) sample_files name home [] ''/c'' (True, no_values) = Inr (True, sample_values)"
  "parse_file (Suc 0) sample_files name home [] ''/c'' (True, sample_values) = Inr (True, sample_values)"
proof -
  have low: "to_ascii_lowercase ''User'' = ''user''" by code_simp
  show "parse_file (Suc 0) sample_files name home [] ''/c'' (True, no_values) = Inr (True, sample_values)"
    "parse_file (Suc 0) sample_files name home [] ''/c'' (True, sample_values) = Inr (True, sample_values)"
    by (simp_all add: canonicalized_def read_config_def sample_files_def sample_values_def MAX_SSH_CONFIG_def
        sample_lines parse_line_def sample_tokens low no_values_def insert_value_def directive_def
        path_valued_def plain_valued_def single_valued_def or_insert_def)
qed

lemma first_value_wins_witness:
  "pr_values sample_values ''user'' = Some [''a'']"
  using first_value_wins [OF sample_parse(2), of "''user''" "[''a'']"]
  by (simp add: sample_values_def insert_value_def)

text \<open>
  Property C38. No accepted configuration weakens trust: host key checking is never turned off,
  agents and displays are never forwarded, no proxy command runs, and public keys stay among
  the authentication methods. Anything else the code does not implement is refused.
\<close>

theorem accepted_settings_safe:
  assumes "parse_file n fs name home stack path (active, no_values) = Inr (active', r)"
    and "pr_values r key = Some vs"
  shows "vs \<noteq> [] \<and> admissible key vs"
  using trust.R_parse_file [OF assms(1)] assms(2) by (simp add: trustworthy_def [of r])

lemma accepted_settings_safe_witness:
  "admissible ''user'' [''a'']"
  using accepted_settings_safe [OF sample_parse(1), of "''user''" "[''a'']"]
  by (simp add: sample_values_def insert_value_def)

section \<open>Resolved servers\<close>

lemma finish_server_result:
  assumes "finish_server env p home path name initial_user host r = Inr s"
  shows "rs_alias s = name \<and> rs_host s = host \<and> usable_destination (rs_host s) (rs_user s) (rs_port s) \<and>
    (\<forall>u. sp_user p = Some u \<longrightarrow> rs_user s = u) \<and> (\<forall>n. sp_port p = Some n \<longrightarrow> rs_port s = n) \<and>
    rs_proxy_jump s = effective_proxy_jump p r"
  using assms
  by (auto simp: finish_server_def Let_def result_simps profile_port_def)

lemma resolve_settings:
  assumes "resolve_with_home fs env p home = Inr s"
  obtains path name initial_user host r
    where "finish_server env p home path name initial_user host r = Inr s"
      and "trustworthy r" and "validate_connection_options p = Inr ()"
      and "or_else (sp_ssh_alias p) (sp_host p) = Some name"
proof -
  from assms obtain name path r0 host1 initial_user host r where
    v: "validate_connection_options p = Inr ()" and n: "or_else (sp_ssh_alias p) (sp_host p) = Some name"
    and r0: "read_settings fs home p path name = Inr r0"
    and h: "settle_host fs home p path host1 r0 = Inr (host, r)"
    and f: "finish_server env p home path name initial_user host r = Inr s"
    by (auto simp: resolve_with_home_def Let_def result_simps)
  have "trustworthy r0" using trust.R_read_settings [OF r0] by simp
  with h have "trustworthy r" by (rule settle_host_trustworthy)
  with f v n that show ?thesis by blast
qed

text \<open>
  A profile that resolves gives a usable destination: a host and a user that are
  not blank, a port that is not zero, no control characters in the host. What the profile
  itself sets wins over the configuration files, and a sole \<open>none\<close> turns jump hosts off.
\<close>

theorem resolved_destination:
  assumes "resolve_with_home fs env p home = Inr s"
  shows "usable_destination (rs_host s) (rs_user s) (rs_port s) \<and>
    (\<forall>u. sp_user p = Some u \<longrightarrow> rs_user s = u) \<and> (\<forall>n. sp_port p = Some n \<longrightarrow> rs_port s = n) \<and>
    Some (rs_alias s) = or_else (sp_ssh_alias p) (sp_host p) \<and>
    (sp_proxy_jump p \<noteq> [] \<longrightarrow> rs_proxy_jump s =
       (if length (sp_proxy_jump p) = 1 \<and> eq_ignore_ascii_case (hd (sp_proxy_jump p)) ''none''
        then [] else sp_proxy_jump p))"
  using assms
proof (rule resolve_settings)
  fix path name initial_user host r
  assume "finish_server env p home path name initial_user host r = Inr s"
    and "or_else (sp_ssh_alias p) (sp_host p) = Some name"
  with finish_server_result [OF this(1)] show ?thesis by (auto simp: effective_proxy_jump_def)
qed

definition sample_profile :: server_profile where
  "sample_profile = \<lparr>sp_id = ''s'', sp_name = ''dev'', sp_host = Some ''dev.example'', sp_user = Some ''me'',
     sp_port = Some 2222, sp_ssh_alias = None, sp_ssh_config = None, sp_identity_files = [''~/key''],
     sp_known_hosts = None, sp_proxy_jump = [''None'']\<rparr>"

definition sample_resolved :: resolved_server where
  "sample_resolved = \<lparr>rs_alias = ''dev.example'', rs_host = ''dev.example'', rs_user = ''me'', rs_port = 2222,
     rs_identity_files = [''/home/me/key''], rs_explicit_identity_files = True,
     rs_known_hosts = ''/home/me/.ssh/known_hosts'',
     rs_global_known_hosts = [''/etc/ssh/ssh_known_hosts'', ''/etc/ssh/ssh_known_hosts2''],
     rs_proxy_jump = [], rs_identity_agent = None, rs_identities_only = False, rs_host_key_alias = None,
     rs_ssh_config = ''/home/me/.ssh/config''\<rparr>"

abbreviation sample_tokens_of :: "string \<Rightarrow> string \<Rightarrow> u16 \<Rightarrow> token_values" where
  "sample_tokens_of host user port \<equiv> \<lparr>tk_alias = ''dev.example'', tk_host = host, tk_user = user, tk_port = port,
     tk_home = ''/home/me''\<rparr>"

lemma sample_expansions:
  "expand_tokens (sample_tokens_of h u n) ''dev.example'' = Inr ''dev.example''"
  "expand_tokens (sample_tokens_of h u n) ''~/key'' = Inr ''/home/me/key''"
  by (simp_all add: expand_tokens_def expand_home_def byte_def starts_with_def path_join_def is_absolute_def)

lemma sample_validates: "validate_connection_options sample_profile = Inr ()"
  by (simp add: validate_connection_options_def sample_profile_def option_list_def plain_word_def plain_path_def
      plain_jump_def chars_def byte_def is_control_def is_whitespace_def)

lemma resolved_destination_witness:
  "usable_destination ''dev.example'' ''me'' 2222"
proof -
  have usable: "usable_destination ''dev.example'' ''me'' 2222"
    by (simp add: usable_destination_def trim_def byte_def is_whitespace_def)
  have none: "eq_ignore_ascii_case ''None'' ''none''" by code_simp
  have one: "one no_values k = None" for k by (simp add: one_def no_values_def)
  have "resolve_with_home sample_files \<lparr>env_user = None, env_username = None, env_auth_sock = None\<rparr>
      sample_profile ''/home/me'' = Inr sample_resolved"
    unfolding resolve_with_home_def finish_server_def sample_validates
    by (simp add: sample_profile_def sample_files_def sample_resolved_def read_settings_def settle_host_def
        transpose_option_def profile_port_def identity_paths_def known_hosts_path_def path_join_def
        is_absolute_def starts_with_def global_known_hosts_paths_def identity_agent_def effective_proxy_jump_def
        sample_expansions usable none one)
      (simp add: no_values_def path_join_def is_absolute_def starts_with_def)
  from resolved_destination [OF this] show ?thesis by (simp add: sample_resolved_def)
qed

end
