(* ===== verification/Intents.thy ===== *)
theory Intents
  imports Samples
begin

text \<open>
  Control intent that outlives an edited draft, \<open>crates/fwm-core/src/store/control.rs\<close>: for
  every rule a user started, stopped or deleted while \<open>config.toml\<close> had pending edits, the
  state it has to keep. The \<open>BTreeMap\<close> of the code is a list sorted by key.
\<close>

section \<open>Sorted association lists\<close>

fun btree_insert :: "'k::linorder \<Rightarrow> 'v \<Rightarrow> ('k \<times> 'v) list \<Rightarrow> ('k \<times> 'v) list" where
  "btree_insert k v [] = [(k, v)]"
| "btree_insert k v ((k', v') # m) =
     (if k = k' then (k, v) # m
      else if k < k' then (k, v) # (k', v') # m
      else (k', v') # btree_insert k v m)"

definition btree_ok :: "('k::linorder \<times> 'v) list \<Rightarrow> bool" where
  "btree_ok m = sorted_wrt (<) (map fst m)"

lemma map_of_btree_insert [simp]:
  "map_of (btree_insert k v m) = (map_of m)(k \<mapsto> v)" for k :: "'k::linorder"
  by (induction m) auto

lemma keys_btree_insert [simp]: "fst ` set (btree_insert k v m) = insert k (fst ` set m)" for k :: "'k::linorder"
  by (simp add: dom_map_of_conv_image_fst [symmetric])

lemma btree_ok_insert [simp]: "btree_ok m \<Longrightarrow> btree_ok (btree_insert k v m)" for k :: "'k::linorder"
proof (induction m)
  case Nil
  then show ?case by (simp add: btree_ok_def)
next
  case (Cons p m)
  obtain k' v' where p: "p = (k', v')" by (cases p)
  from Cons.prems have tail: "btree_ok m" "\<forall>x \<in> fst ` set m. k' < x" by (auto simp: btree_ok_def p)
  consider "k = k'" | "k < k'" | "k' < k" by (rule linorder_cases)
  then show ?case
  proof cases
    case 3
    have "\<forall>x \<in> fst ` set (btree_insert k v m). k' < x" using tail(2) 3 by (simp only: keys_btree_insert) blast
    with 3 Cons.IH [OF tail(1)] show ?thesis by (auto simp: btree_ok_def p)
  qed (use Cons.prems tail in \<open>auto simp: btree_ok_def p\<close>)
qed

lemma btree_ok_map [simp]: "btree_ok (map (\<lambda>(k, v). (k, f k v)) m) \<longleftrightarrow> btree_ok m"
proof -
  have keys: "map fst (map (\<lambda>(k, v). (k, f k v)) m) = map fst m" by (induction m) auto
  show ?thesis by (simp only: btree_ok_def keys)
qed

lemma map_of_map_values: "map_of (map (\<lambda>(k, v). (k, f k v)) m) k = map_option (f k) (map_of m k)"
  by (induction m) auto

section \<open>Overrides\<close>

record intent =
  in_name :: string
  in_desired :: "desired_state option"

type_synonym overrides = "(string \<times> intent) list"

definition obey :: "overrides \<Rightarrow> forward_spec \<Rightarrow> forward_spec option" where
  "obey ov f = (case map_of ov (fs_id f) of
       Some i \<Rightarrow> (case in_desired i of
           None \<Rightarrow> None
         | Some st \<Rightarrow> Some (f\<lparr>fs_desired_state := st\<rparr>))
     | None \<Rightarrow> Some f)"

definition apply_overrides :: "overrides \<Rightarrow> config \<Rightarrow> config" where
  "apply_overrides ov c = c\<lparr>forwards := List.map_filter (obey ov) (forwards c)\<rparr>"

definition rule_by_id :: "config \<Rightarrow> string \<Rightarrow> forward_spec option" where
  "rule_by_id c i = List.find (\<lambda>f. fs_id f = i) (forwards c)"

definition rebase_intent :: "config \<Rightarrow> string \<Rightarrow> intent \<Rightarrow> intent" where
  "rebase_intent c i intent = (case rule_by_id c i of
       Some f \<Rightarrow> intent\<lparr>in_name := fs_name f, in_desired := Some (fs_desired_state f)\<rparr>
     | None \<Rightarrow> intent\<lparr>in_desired := None\<rparr>)"

definition rebase :: "overrides \<Rightarrow> config \<Rightarrow> overrides" where
  "rebase ov c = map (\<lambda>(i, intent). (i, rebase_intent c i intent)) ov"

definition protect_all :: "overrides \<Rightarrow> config \<Rightarrow> overrides" where
  "protect_all ov c = foldl (\<lambda>m f. btree_insert (fs_id f)
       \<lparr>in_name = fs_name f, in_desired = Some (fs_desired_state f)\<rparr> m) (rebase ov c) (forwards c)"

text \<open>One explicit command: \<open>None\<close> is an identity neither configuration has.\<close>

definition controlled_intent :: "config \<Rightarrow> config \<Rightarrow> string \<Rightarrow> intent option" where
  "controlled_intent previous c i =
     map_option (\<lambda>f. \<lparr>in_name = fs_name f, in_desired = map_option fs_desired_state (rule_by_id c i)\<rparr>)
       (or_else (rule_by_id c i) (rule_by_id previous i))"

fun record_intents :: "config \<Rightarrow> config \<Rightarrow> overrides \<Rightarrow> string list \<Rightarrow> string + overrides" where
  "record_intents previous c ov [] = Inr ov"
| "record_intents previous c ov (i # is) =
     (case controlled_intent previous c i of
        None \<Rightarrow> Inl i
      | Some intent \<Rightarrow> record_intents previous c (btree_insert i intent ov) is)"

section \<open>What overrides do to a draft\<close>

text \<open>An override is settled for a configuration when it asks for what the rule already has.\<close>

definition agrees :: "overrides \<Rightarrow> config \<Rightarrow> string \<Rightarrow> bool" where
  "agrees ov c i = (case map_of ov i of
       None \<Rightarrow> True
     | Some intent \<Rightarrow> in_desired intent = map_option fs_desired_state (rule_by_id c i))"

lemma rule_by_id_SomeD: "rule_by_id c i = Some f \<Longrightarrow> f \<in> set (forwards c) \<and> fs_id f = i"
  unfolding rule_by_id_def by (drule find_SomeD) simp

lemma rule_by_id_None: "rule_by_id c i = None \<longleftrightarrow> i \<notin> fs_id ` set (forwards c)"
  by (auto simp: rule_by_id_def find_None_iff)

lemma obey_id: "obey ov f = Some g \<Longrightarrow> fs_id g = fs_id f"
  by (auto simp: obey_def split: option.splits)

lemma set_map_filter: "y \<in> set (List.map_filter h xs) \<longleftrightarrow> (\<exists>x \<in> set xs. h x = Some y)"
  by (induction xs) (auto simp: List.map_filter_simps split: option.splits)

lemma find_map_filter:
  assumes key: "\<And>x y. h x = Some y \<Longrightarrow> key y = key x"
    and same: "\<And>x y. key x = i \<Longrightarrow> key y = i \<Longrightarrow> h x = None \<Longrightarrow> h y = None"
  shows "List.find (\<lambda>x. key x = i) (List.map_filter h xs) = Option.bind (List.find (\<lambda>x. key x = i) xs) h"
proof (induction xs)
  case Nil
  then show ?case by (simp add: List.map_filter_simps)
next
  case (Cons x xs)
  show ?case
  proof (cases "h x")
    case None
    have "List.find (\<lambda>x. key x = i) (List.map_filter h xs) = None" if "key x = i"
      unfolding find_None_iff set_map_filter using key same [OF that _ None] by (metis option.distinct(1))
    with None Cons.IH show ?thesis by (simp add: List.map_filter_simps)
  next
    case (Some y)
    with Cons.IH key [OF Some] show ?thesis by (simp add: List.map_filter_simps)
  qed
qed

lemma rule_by_id_apply: "rule_by_id (apply_overrides ov c) i = Option.bind (rule_by_id c i) (obey ov)"
  unfolding rule_by_id_def apply_overrides_def
  by simp (rule find_map_filter; auto simp: obey_def split: option.splits)

lemma map_of_rebase: "map_of (rebase ov c) i = map_option (rebase_intent c i) (map_of ov i)"
  unfolding rebase_def by (rule map_of_map_values)

lemma btree_ok_rebase [simp]: "btree_ok (rebase ov c) \<longleftrightarrow> btree_ok ov"
  unfolding rebase_def by simp

lemma rebase_agrees: "agrees (rebase ov c) c i"
  by (auto simp: agrees_def map_of_rebase rebase_intent_def split: option.splits)

end
