(* ===== verification/Store.thy ===== *)
theory Store
  imports Migrate SshLine Intents
begin

text \<open>
  The committed snapshot and the editable draft, \<open>crates/fwm-core/src/store.rs\<close>,
  \<open>store/control.rs\<close>, \<open>store/revision.rs\<close>, \<open>store/candidate.rs\<close> and \<open>store/io.rs\<close>.
  The state is the contents of \<open>config.toml\<close>, \<open>applied.toml\<close> and \<open>committed-revision\<close>. Every
  write takes its outcome from \<open>sf_faults\<close>, so an error or an unconfirmed sync can happen at
  any of them, and \<open>sf_editor\<close> is what an editor saves while the draft is being mirrored.
  TOML and JSON are parameters in \<open>store_env\<close>; the directories exist and hold no symlinks.
\<close>

section \<open>Environment and state\<close>

record store_env =
  v_ua :: "nat \<Rightarrow> bool"
  v_js :: "config \<Rightarrow> nat option"
  v_toml :: "string \<Rightarrow> config option"
  v_text :: "config \<Rightarrow> string option"
  v_revision :: "string \<Rightarrow> u64 option"
  v_schema :: "string \<Rightarrow> int option option"
  v_intents :: "string \<Rightarrow> overrides option"
  v_json :: "overrides \<Rightarrow> string"
  v_canon :: "string \<Rightarrow> canonical"
  v_cwd :: string
  v_config_dir :: string

datatype io_outcome = Done | Unsynced | Failed

datatype draft_version = Missing | Present string

record editor =
  ed_before :: "string option option"
  ed_during :: "string option"
  ed_late :: "string option"

record store =
  sf_config :: "string option"
  sf_snapshot :: "string option"
  sf_revision :: "string option"
  sf_recovery :: bool
  sf_read :: "draft_version option"
  sf_faults :: "io_outcome list"
  sf_editor :: editor
  sf_displaced :: "string list"
  sf_backups :: "(int \<times> string) list"
  sf_rescued :: "(string option \<times> string option) list"

datatype store_error =
    NoSuchFile | OverBudget | InvalidToml | MigrationFailed migrate_error | PathsFailed path_error
  | InvalidCandidate config_error | InvalidIntents | BadRevision | RevisionRange | WriteFailed
  | RevisionNotDurable | AlreadyInitialized | PendingDraft | UnknownControlled string | NotEncodable
  | SnapshotTooLarge | DraftMissing | DraftChanged | DraftCreated | NoRevision | RevisionsExhausted
  | IntentUnreadable

datatype store_warning =
    SnapshotUnsynced | DraftPreserved | MirrorUnsynced | MirrorFailed store_error | ClearUnsynced | ClearFailed

definition quiet :: editor where
  "quiet = \<lparr>ed_before = None, ed_during = None, ed_late = None\<rparr>"

definition MAX_CONFIG_BYTES :: nat where
  "MAX_CONFIG_BYTES = 1024 * 1024"

definition PREFIX :: string where
  "PREFIX = ''# fwm-control-overrides: ''"

type_synonym 'a action = "store \<Rightarrow> (store_error + 'a) \<times> store"

definition sreturn :: "'a \<Rightarrow> 'a action" where
  "sreturn a s = (Inr a, s)"

definition slift :: "store_error + 'a \<Rightarrow> 'a action" where
  "slift m s = (m, s)"

definition sask :: "(store \<Rightarrow> store_error + 'a) \<Rightarrow> 'a action" where
  "sask f s = (f s, s)"

definition sbind :: "'a action \<Rightarrow> ('a \<Rightarrow> 'b action) \<Rightarrow> 'b action" where
  "sbind m f s = (case m s of (Inl e, t) \<Rightarrow> (Inl e, t) | (Inr a, t) \<Rightarrow> f a t)"

section \<open>Writing files\<close>

definition next_outcome :: "store \<Rightarrow> io_outcome \<times> store" where
  "next_outcome s = (case sf_faults s of [] \<Rightarrow> (Done, s) | f # fs \<Rightarrow> (f, s\<lparr>sf_faults := fs\<rparr>))"

text \<open>
  \<open>persist(prepare(..)?, path)\<close>: a staged file replaces the target, or nothing changes. The
  result says whether the directory could not be synced.
\<close>

definition publish :: "(store \<Rightarrow> store) \<Rightarrow> bool action" where
  "publish write s =
     (let (f, s') = next_outcome s
      in if f = Failed then (Inl WriteFailed, s') else (Inr (f = Unsynced), write s'))"

definition stage :: "unit action" where
  "stage s = (let (f, s') = next_outcome s in (if f = Failed then Inl WriteFailed else Inr (), s'))"

section \<open>Reading files\<close>

definition read_text :: "string option \<Rightarrow> store_error + string" where
  "read_text f = (case f of
       None \<Rightarrow> Inl NoSuchFile
     | Some t \<Rightarrow> if MAX_CONFIG_BYTES < length t then Inl OverBudget else Inr t)"

definition parse_text :: "store_env \<Rightarrow> string \<Rightarrow> store_error + config" where
  "parse_text v t =
     rbind (ok_or (v_toml v t) InvalidToml) (\<lambda>c.
     rbind (map_err MigrationFailed (migrate (v_ua v) c)) (\<lambda>(c', _). Inr c'))"

definition normalized :: "store_env \<Rightarrow> config \<Rightarrow> store_error + config" where
  "normalized v c = map_err PathsFailed (normalize_config_paths (v_canon v) (v_cwd v) (v_config_dir v) c)"

definition checked :: "store_env \<Rightarrow> config \<Rightarrow> store_error + config" where
  "checked v c = rbind (map_err InvalidCandidate (validate (v_ua v) (v_js v) c)) (\<lambda>_. Inr c)"

definition read_file :: "store_env \<Rightarrow> string option \<Rightarrow> store_error + config" where
  "read_file v f =
     rbind (read_text f) (\<lambda>t. rbind (parse_text v t) (\<lambda>c. rbind (normalized v c) (checked v)))"

definition read_overrides :: "store_env \<Rightarrow> string option \<Rightarrow> store_error + overrides" where
  "read_overrides v f = (case f of
       None \<Rightarrow> Inr []
     | Some _ \<Rightarrow>
         rbind (read_text f) (\<lambda>t.
         (case str_lines t of
            [] \<Rightarrow> Inr []
          | l # _ \<Rightarrow> (case strip_prefix PREFIX l of
                Some json \<Rightarrow> ok_or (v_intents v json) InvalidIntents
              | None \<Rightarrow> Inr []))))"

definition candidate_version :: "store \<Rightarrow> store_error + draft_version" where
  "candidate_version s = (case sf_config s of
       None \<Rightarrow> Inr Missing
     | Some t \<Rightarrow> rbind (read_text (Some t)) (\<lambda>t. Inr (Present t)))"

definition parse_candidate_version ::
    "store_env \<Rightarrow> draft_version \<Rightarrow> store \<Rightarrow> store_error + config" where
  "parse_candidate_version v version s = (case version of
       Missing \<Rightarrow> Inl DraftMissing
     | Present t \<Rightarrow>
         rbind (parse_text v t) (\<lambda>c.
         rbind (normalized v c) (\<lambda>c.
         rbind (read_overrides v (sf_snapshot s)) (\<lambda>ov. checked v (apply_overrides ov c)))))"

definition read_candidate :: "store_env \<Rightarrow> config action" where
  "read_candidate v =
     sbind (sask candidate_version) (\<lambda>version.
     sbind (sask (parse_candidate_version v version)) (\<lambda>c s.
     (Inr c, s\<lparr>sf_read := Some version\<rparr>)))"

definition has_pending_edits :: "store_env \<Rightarrow> store \<Rightarrow> store_error + bool" where
  "has_pending_edits v s =
     (if sf_snapshot s = None then Inr False
      else rbind (read_file v (sf_snapshot s)) (\<lambda>applied.
           Inr (read_file v (sf_config s) \<noteq> Inr applied)))"

section \<open>The revision high-water mark\<close>

definition saved_revision :: "store \<Rightarrow> store_error + u64 option" where
  "saved_revision s = (case sf_revision s of
       None \<Rightarrow> Inr None
     | Some _ \<Rightarrow>
         rbind (read_text (sf_revision s)) (\<lambda>t.
         rbind (ok_or (parse_uint (2 ^ 64) (trim t)) BadRevision) (\<lambda>n.
         rbind (rguard (2 ^ 63 \<le> n) RevisionRange) (\<lambda>_. Inr (Some (of_nat n))))))"

definition reserve_revision :: "u64 \<Rightarrow> unit action" where
  "reserve_revision r =
     sbind (sask saved_revision) (\<lambda>saved.
     if (case saved of None \<Rightarrow> False | Some n \<Rightarrow> r \<le> n) then sreturn ()
     else sbind (publish (\<lambda>s. s\<lparr>sf_revision := Some (show_word r)\<rparr>)) (\<lambda>unsynced.
          slift (rguard unsynced RevisionNotDurable)))"

definition require_uninitialized :: "store \<Rightarrow> store_error + unit" where
  "require_uninitialized s =
     rbind (saved_revision s) (\<lambda>saved. rguard (saved \<noteq> None \<or> sf_recovery s) AlreadyInitialized)"

section \<open>Loading\<close>

datatype load_warning = DraftDiffers | DraftInvalid store_error

definition load :: "store_env \<Rightarrow> (config \<times> load_warning option) action" where
  "load v s =
     (if sf_snapshot s \<noteq> None then
        (rbind (read_file v (sf_snapshot s)) (\<lambda>c.
         Inr (c, case rbind (candidate_version s) (\<lambda>version. parse_candidate_version v version s) of
              Inr d \<Rightarrow> if d = c then None else Some DraftDiffers
            | Inl e \<Rightarrow> Some (DraftInvalid e))), s)
      else
        sbind (sask require_uninitialized) (\<lambda>_.
          if sf_config s \<noteq> None then sbind (read_candidate v) (\<lambda>c. sreturn (c, None))
          else (\<lambda>s. (Inr (default_config, None), s\<lparr>sf_read := Some Missing\<rparr>))) s)"

section \<open>Mirroring the draft\<close>

definition persist_new :: "string \<Rightarrow> bool action" where
  "persist_new plain s =
     (let (f, s') = next_outcome s
      in if f = Failed then (Inl WriteFailed, s')
         else if sf_config s' \<noteq> None then (Inl DraftCreated, s')
         else (Inr (f = Unsynced), s'\<lparr>sf_config := Some plain\<rparr>))"

text \<open>
  The current draft is moved aside, compared with the version that was read, and the mirror
  published under the free name; on any difference the draft gets its name back, or, when an
  editor has saved another one meanwhile, is kept beside it.
\<close>

definition restore_draft :: "string \<Rightarrow> store \<Rightarrow> store" where
  "restore_draft kept s =
     (if sf_config s = None then s\<lparr>sf_config := Some kept\<rparr>
      else s\<lparr>sf_displaced := sf_displaced s @ [kept]\<rparr>)"

definition replace_draft :: "string \<Rightarrow> string \<Rightarrow> editor \<Rightarrow> string \<Rightarrow> bool action" where
  "replace_draft plain expected ed original s =
     (let kept = (case ed_late ed of None \<Rightarrow> original | Some t \<Rightarrow> t);
          (r, s') = (if read_text (Some original) \<noteq> Inr expected then (Inl DraftChanged, s)
                     else sbind (persist_new plain) (\<lambda>unsynced.
                          if read_text (Some kept) \<noteq> Inr expected then slift (Inl DraftChanged)
                          else sreturn unsynced) s)
      in case r of
           Inr unsynced \<Rightarrow> (Inr unsynced, s')
         | Inl e \<Rightarrow> (Inl e, restore_draft kept s'))"

definition mirror_candidate :: "string \<Rightarrow> draft_version \<Rightarrow> bool action" where
  "mirror_candidate plain version s0 =
     (let ed = sf_editor s0;
          s = s0\<lparr>sf_config := (case ed_before ed of None \<Rightarrow> sf_config s0 | Some f \<Rightarrow> f), sf_editor := quiet\<rparr>
      in case version of
           Missing \<Rightarrow> persist_new plain s
         | Present expected \<Rightarrow>
             sbind stage (\<lambda>_ s. case sf_config s of
                 None \<Rightarrow> (Inl DraftChanged, s)
               | Some original \<Rightarrow> replace_draft plain expected ed original (s\<lparr>sf_config := ed_during ed\<rparr>)) s)"

section \<open>Committing\<close>

definition snapshot_text :: "store_env \<Rightarrow> overrides \<Rightarrow> string \<Rightarrow> string" where
  "snapshot_text v ov plain =
     (if ov \<noteq> [] then PREFIX @ v_json v ov @ [CHR 0x0A] @ plain else plain)"

definition write_snapshot :: "string \<Rightarrow> bool action" where
  "write_snapshot t = publish (\<lambda>s. s\<lparr>sf_snapshot := Some t\<rparr>)"

definition mirror_and_clear ::
    "string \<Rightarrow> overrides \<Rightarrow> draft_version option \<Rightarrow> store \<Rightarrow> store_warning list \<times> store" where
  "mirror_and_clear plain ov candidate s = (case candidate of
       None \<Rightarrow> ([DraftPreserved], s)
     | Some version \<Rightarrow>
         (case sbind stage (\<lambda>_. mirror_candidate plain version) s of
            (Inl e, s') \<Rightarrow> ([MirrorFailed e], s')
          | (Inr unsynced, s') \<Rightarrow>
              let s'' = s'\<lparr>sf_read := Some (Present plain)\<rparr>
              in if unsynced then ([MirrorUnsynced], s'')
                 else if ov \<noteq> [] then
                   (case write_snapshot plain s'' of
                      (Inl _, t) \<Rightarrow> ([ClearFailed], t)
                    | (Inr u, t) \<Rightarrow> (if u then [ClearUnsynced] else [], t))
                 else ([], s'')))"

definition commit_with_overrides ::
    "store_env \<Rightarrow> config \<Rightarrow> overrides \<Rightarrow> draft_version option \<Rightarrow> store_warning list action" where
  "commit_with_overrides v c ov candidate =
     sbind (slift (checked v c)) (\<lambda>_.
     sbind (slift (ok_or (v_text v c) NotEncodable)) (\<lambda>plain.
     sbind (slift (rguard (MAX_CONFIG_BYTES < length (snapshot_text v ov plain)) SnapshotTooLarge)) (\<lambda>_.
     sbind (reserve_revision (revision c)) (\<lambda>_.
     sbind (write_snapshot (snapshot_text v ov plain)) (\<lambda>unsynced s.
     (let (ws, s') = mirror_and_clear plain ov candidate s
      in (Inr ((if unsynced then [SnapshotUnsynced] else []) @ ws), s')))))))"

definition require_snapshot :: "store \<Rightarrow> store_error + unit" where
  "require_snapshot s = (if sf_snapshot s = None then require_uninitialized s else Inr ())"

definition commit :: "store_env \<Rightarrow> config \<Rightarrow> store_warning list action" where
  "commit v c =
     sbind (sask require_snapshot) (\<lambda>_.
     sbind (sask candidate_version) (\<lambda>version.
     sbind (sask (has_pending_edits v)) (\<lambda>pending.
     sbind (slift (rguard pending PendingDraft)) (\<lambda>_.
     sbind (sask (\<lambda>s. read_overrides v (sf_snapshot s))) (\<lambda>ov.
     commit_with_overrides v c (rebase ov c) (Some version))))))"

definition take_read :: "draft_version option action" where
  "take_read s = (Inr (sf_read s), s\<lparr>sf_read := None\<rparr>)"

definition commit_reload :: "store_env \<Rightarrow> config \<Rightarrow> store_warning list action" where
  "commit_reload v c =
     sbind (sask require_snapshot) (\<lambda>_.
     sbind (sask (\<lambda>s. read_overrides v (sf_snapshot s))) (\<lambda>ov.
     sbind take_read (\<lambda>taken.
     sbind (case taken of Some version \<Rightarrow> sreturn version | None \<Rightarrow> sask candidate_version) (\<lambda>version.
     commit_with_overrides v c (rebase ov c) (Some version)))))"

definition commit_control_for :: "store_env \<Rightarrow> config \<Rightarrow> string list \<Rightarrow> store_warning list action" where
  "commit_control_for v c selected =
     sbind (\<lambda>s. (Inr (candidate_version s), s)) (\<lambda>candidate.
     sbind (load v) (\<lambda>(previous, _).
     sbind (sask (has_pending_edits v)) (\<lambda>pending.
     sbind (sask (\<lambda>s. read_overrides v (sf_snapshot s))) (\<lambda>ov.
     sbind (slift (map_err UnknownControlled (record_intents previous c ov selected))) (\<lambda>ov'.
     commit_with_overrides v c ov'
       (case candidate of Inl _ \<Rightarrow> None | Inr version \<Rightarrow> if pending then None else Some version))))))"

definition commit_control :: "store_env \<Rightarrow> config \<Rightarrow> store_warning list action" where
  "commit_control v c =
     sbind (load v) (\<lambda>(previous, _).
     commit_control_for v c
       (map fs_id (filter (\<lambda>old. case rule_by_id c (fs_id old) of
            None \<Rightarrow> True | Some f \<Rightarrow> fs_desired_state f \<noteq> fs_desired_state old) (forwards previous))))"

section \<open>First start\<close>

definition back_up :: "int \<Rightarrow> string \<Rightarrow> unit action" where
  "back_up version original s =
     (if version \<in> fst ` set (sf_backups s) then (Inr (), s)
      else sbind (publish (\<lambda>s. s\<lparr>sf_backups := sf_backups s @ [(version, original)]\<rparr>)) (\<lambda>_. sreturn ()) s)"

definition upgrade_snapshot :: "store_env \<Rightarrow> config \<Rightarrow> string \<Rightarrow> unit action" where
  "upgrade_snapshot v c original =
     sbind (slift (ok_or (v_schema v original) InvalidToml)) (\<lambda>version. case version of
         None \<Rightarrow> sreturn ()
       | Some n \<Rightarrow>
           if 1 \<le> n \<and> n < uint SCHEMA_VERSION then
             sbind (back_up n original) (\<lambda>_.
             sbind (\<lambda>s. (Inr (case candidate_version s of
                 Inl _ \<Rightarrow> None
               | Inr w \<Rightarrow> if parse_candidate_version v w s = Inr c then Some w else None), s)) (\<lambda>candidate.
             sbind (sask (\<lambda>s. read_overrides v (sf_snapshot s))) (\<lambda>ov.
             sbind (commit_with_overrides v c ov candidate) (\<lambda>_. sreturn ()))))
           else sreturn ())"

definition initialize :: "store_env \<Rightarrow> config \<Rightarrow> unit action" where
  "initialize v c =
     sbind (slift (checked v c)) (\<lambda>_.
     sbind (sask require_snapshot) (\<lambda>_.
     sbind (\<lambda>s. case sf_snapshot s of None \<Rightarrow> (Inr (), s) | Some t \<Rightarrow> upgrade_snapshot v c t s) (\<lambda>_ s.
     (if sf_snapshot s = None then
        sbind (case sf_read s of Some w \<Rightarrow> sreturn w | None \<Rightarrow> sask candidate_version) (\<lambda>w.
        sbind (commit_with_overrides v c [] (Some w)) (\<lambda>_. sreturn ()))
      else reserve_revision (revision c)) s)))"

end
