(* ===== verification/StoreSafety.thy ===== *)
theory StoreSafety
  imports Store
begin

text \<open>
  What the store promises: a commit happens entirely or not at all, the revision high-water
  mark never falls below a committed revision, mirroring replaces exactly the draft that was
  read, and recorded control intent decides the state of the rules in any later draft.
\<close>

section \<open>Actions\<close>

named_theorems action_simps "results of store actions"

lemma sbind_Inr_iff [action_simps]:
  "sbind m f s = (Inr b, t) \<longleftrightarrow> (\<exists>a u. m s = (Inr a, u) \<and> f a u = (Inr b, t))"
  by (auto simp: sbind_def split: prod.splits sum.splits)

lemma sbind_Inl_iff [action_simps]:
  "sbind m f s = (Inl e, t) \<longleftrightarrow> m s = (Inl e, t) \<or> (\<exists>a u. m s = (Inr a, u) \<and> f a u = (Inl e, t))"
  by (auto simp: sbind_def split: prod.splits sum.splits)

lemma slift_iff [action_simps]: "slift m s = (r, t) \<longleftrightarrow> m = r \<and> t = s"
  by (auto simp: slift_def)

lemma sask_iff [action_simps]: "sask f s = (r, t) \<longleftrightarrow> f s = r \<and> t = s"
  by (auto simp: sask_def)

lemma sreturn_iff [action_simps]: "sreturn a s = (r, t) \<longleftrightarrow> r = Inr a \<and> t = s"
  by (auto simp: sreturn_def)

lemma next_outcome_frame: "next_outcome s = (f, s') \<Longrightarrow> \<exists>fs. s' = s\<lparr>sf_faults := fs\<rparr>"
  by (cases s) (auto simp: next_outcome_def split: list.splits)

lemma publish_cases:
  assumes "publish w s = (r, s')"
  obtains fs where "r = Inl WriteFailed" "s' = s\<lparr>sf_faults := fs\<rparr>"
    | fs u where "r = Inr u" "s' = w (s\<lparr>sf_faults := fs\<rparr>)"
  using assms next_outcome_frame [of s]
  by (cases "next_outcome s") (auto simp: publish_def split: if_splits)

lemma stage_frame: "stage s = (r, s') \<Longrightarrow> \<exists>fs. s' = s\<lparr>sf_faults := fs\<rparr>"
  by (cases "next_outcome s") (auto simp: stage_def dest: next_outcome_frame)

lemma persist_new_cases:
  assumes "persist_new p s = (r, s')"
  obtains e fs where "r = Inl e" "s' = s\<lparr>sf_faults := fs\<rparr>"
    | fs u where "r = Inr u" "sf_config s = None" "s' = s\<lparr>sf_faults := fs, sf_config := Some p\<rparr>"
  using assms next_outcome_frame [of s]
  by (cases "next_outcome s") (fastforce simp: persist_new_def split: if_splits)

section \<open>Mirroring\<close>

text \<open>The draft at the moment it is moved aside, and whether it is.\<close>

definition draft_now :: "store \<Rightarrow> string option" where
  "draft_now s = (case ed_before (sf_editor s) of None \<Rightarrow> sf_config s | Some f \<Rightarrow> f)"

definition moved_aside :: "draft_version \<Rightarrow> store \<Rightarrow> bool" where
  "moved_aside version s =
     (version \<noteq> Missing \<and> draft_now s \<noteq> None \<and> fst (next_outcome s) \<noteq> Failed)"

text \<open>The texts an editor has saved last, in each of the files it has open.\<close>

definition editor_texts :: "draft_version \<Rightarrow> store \<Rightarrow> string set" where
  "editor_texts version s =
     (if moved_aside version s
      then set_option (ed_during (sf_editor s)) \<union>
           set_option (or_else (ed_late (sf_editor s)) (draft_now s))
      else set_option (draft_now s))"

definition kept_texts :: "store \<Rightarrow> string set" where
  "kept_texts s = set_option (sf_config s) \<union> set (sf_displaced s)"

lemma replace_draft_cases:
  assumes "replace_draft plain expected ed original s = (r, s')"
  shows "(case r of
      Inr u \<Rightarrow> original = expected \<and> (\<forall>t. ed_late ed = Some t \<longrightarrow> t = expected) \<and>
               sf_config s = None \<and> sf_config s' = Some plain
    | Inl e \<Rightarrow> set_option (sf_config s) \<union> {case ed_late ed of None \<Rightarrow> original | Some t \<Rightarrow> t} \<subseteq> kept_texts s') \<and>
    sf_snapshot s' = sf_snapshot s \<and> sf_revision s' = sf_revision s"
proof -
  define kept where "kept = (case ed_late ed of None \<Rightarrow> original | Some t \<Rightarrow> t)"
  have read_iff: "read_text (Some t) = Inr e \<longleftrightarrow> t = e \<and> length t \<le> MAX_CONFIG_BYTES" for t e
    by (auto simp: read_text_def)
  have restored: "set_option (sf_config s) \<union> {kept} \<subseteq> kept_texts (restore_draft kept s)"
    "sf_snapshot (restore_draft kept s) = sf_snapshot s" "sf_revision (restore_draft kept s) = sf_revision s" for s
    by (auto simp: restore_draft_def kept_texts_def)
  show ?thesis
  proof (cases "read_text (Some original) = Inr expected")
    case False
    with assms restored show ?thesis
      by (auto simp: replace_draft_def kept_def [symmetric] Let_def)
  next
    case True
    obtain r1 s1 where p: "persist_new plain s = (r1, s1)" by (cases "persist_new plain s")
    show ?thesis
    proof (rule persist_new_cases [OF p])
      fix e fs
      assume a: "r1 = Inl e" "s1 = s\<lparr>sf_faults := fs\<rparr>"
      have "r = Inl e" "s' = restore_draft kept s1"
        using assms True p a by (auto simp: replace_draft_def kept_def [symmetric] Let_def sbind_def)
      with restored [of s1] a show ?thesis by (simp add: kept_def [symmetric])
    next
      fix fs u
      assume a: "r1 = Inr u" "sf_config s = None" "s1 = s\<lparr>sf_faults := fs, sf_config := Some plain\<rparr>"
      have r: "r = (if read_text (Some kept) \<noteq> Inr expected then Inl DraftChanged else Inr u)"
        "s' = (if read_text (Some kept) \<noteq> Inr expected then restore_draft kept s1 else s1)"
        using assms True p a
        by (auto simp: replace_draft_def kept_def [symmetric] Let_def sbind_def slift_def sreturn_def split: if_splits)
      show ?thesis
      proof (cases "read_text (Some kept) = Inr expected")
        case True
        with r a \<open>read_text (Some original) = Inr expected\<close> show ?thesis
          by (auto simp: read_iff kept_def split: option.splits)
      next
        case False
        with r a restored [of s1] show ?thesis by (auto simp: kept_def [symmetric])
      qed
    qed
  qed
qed

lemma mirror_outcome:
  assumes "mirror_candidate plain version s = (r, s')"
  shows "(case r of
      Inr _ \<Rightarrow> sf_config s' = Some plain \<and>
        (case version of Missing \<Rightarrow> draft_now s = None | Present t \<Rightarrow> editor_texts version s = {t})
    | Inl _ \<Rightarrow> editor_texts version s \<subseteq> kept_texts s') \<and>
    sf_snapshot s' = sf_snapshot s \<and> sf_revision s' = sf_revision s"
proof -
  define ed where "ed = sf_editor s"
  define s1 where "s1 = s\<lparr>sf_config := draft_now s, sf_editor := quiet\<rparr>"
  have s1: "sf_config s1 = draft_now s" "sf_snapshot s1 = sf_snapshot s" "sf_revision s1 = sf_revision s"
    "next_outcome s1 = (fst (next_outcome s), s1\<lparr>sf_faults := sf_faults (snd (next_outcome s))\<rparr>)"
    by (auto simp: s1_def next_outcome_def split: list.splits)
  show ?thesis
  proof (cases version)
    case Missing
    with assms have p: "persist_new plain s1 = (r, s')"
      by (simp add: mirror_candidate_def Let_def s1_def draft_now_def)
    have set: "editor_texts version s = set_option (draft_now s)"
      by (simp add: Missing editor_texts_def moved_aside_def)
    from p show ?thesis
      by (rule persist_new_cases) (auto simp: set [unfolded Missing] s1 Missing kept_texts_def)
  next
    case (Present expected)
    with assms have m: "sbind stage (\<lambda>_ s. case sf_config s of
          None \<Rightarrow> (Inl DraftChanged, s)
        | Some original \<Rightarrow> replace_draft plain expected ed original (s\<lparr>sf_config := ed_during ed\<rparr>)) s1 = (r, s')"
      unfolding ed_def by (simp add: mirror_candidate_def Let_def s1_def draft_now_def)
    define s2 where "s2 = s1\<lparr>sf_faults := sf_faults (snd (next_outcome s))\<rparr>"
    have stage: "stage s1 = (if fst (next_outcome s) = Failed then Inl WriteFailed else Inr (), s2)"
      by (simp add: stage_def s1(4) s2_def)
    have s2: "sf_config s2 = draft_now s" "sf_snapshot s2 = sf_snapshot s" "sf_revision s2 = sf_revision s"
      by (simp_all add: s2_def s1)
    show ?thesis
    proof (cases "moved_aside version s")
      case True
      then obtain original where o: "draft_now s = Some original" and f: "fst (next_outcome s) \<noteq> Failed"
        by (auto simp: moved_aside_def)
      have "replace_draft plain expected ed original (s2\<lparr>sf_config := ed_during ed\<rparr>) = (r, s')"
        using m f by (simp add: sbind_def stage s2 o)
      from replace_draft_cases [OF this] True s2 Present o show ?thesis
        by (auto simp: editor_texts_def ed_def [symmetric] or_else_def split: sum.splits option.splits)
    next
      case False
      then have set: "editor_texts version s = set_option (draft_now s)" by (simp add: editor_texts_def)
      have "\<exists>e. r = Inl e" "s' = s2"
        using m False Present s2 by (auto simp: sbind_def stage moved_aside_def split: if_splits option.splits)
      then show ?thesis using set s2 by (auto simp: kept_texts_def)
    qed
  qed
qed

text \<open>
  Property C29. Mirroring is a compare-and-swap on the user's draft. It replaces the draft only
  if it still is the version that was read, and otherwise no text an editor has saved is lost:
  each is still in \<open>config.toml\<close> or in a file kept beside it. The applied snapshot is not
  touched.
\<close>

theorem mirror_compare_and_swap:
  assumes "mirror_candidate plain version s = (r, s')"
  shows "(case r of
      Inr _ \<Rightarrow> sf_config s' = Some plain \<and>
        (case version of Missing \<Rightarrow> draft_now s = None | Present t \<Rightarrow> editor_texts version s = {t})
    | Inl _ \<Rightarrow> editor_texts version s \<subseteq> kept_texts s') \<and>
    sf_snapshot s' = sf_snapshot s \<and> sf_revision s' = sf_revision s"
  by (rule mirror_outcome [OF assms])

section \<open>The revision high-water mark\<close>

lemma length_show_nat: "n < 10 ^ k \<Longrightarrow> 0 < k \<Longrightarrow> length (show_nat n) \<le> k"
proof (induction n arbitrary: k rule: show_nat.induct)
  case (1 n)
  show ?case
  proof (cases "n < 10")
    case True
    with "1.prems" show ?thesis by (subst show_nat.simps) simp
  next
    case False
    obtain m where k: "k = Suc m" using "1.prems"(2) by (cases k) auto
    moreover from this have "m \<noteq> 0" using False "1.prems"(1) by (cases m) auto
    ultimately have m: "k = Suc m" "0 < m" by auto
    then have "n div 10 < 10 ^ m" using "1.prems" by (simp add: less_mult_imp_div_less mult.commute)
    with False "1.IH" m show ?thesis by (subst show_nat.simps) simp
  qed
qed

lemma trim_show_word [simp]: "trim (show_word w) = show_word w" for w :: "'w::len word"
  by (rule trim_ascii)
    (auto simp: is_ascii_def is_whitespace_def is_ascii_digit_def dest!: show_word_chars)

lemma saved_show_word:
  assumes "sf_revision s = Some (show_word r)" and "unat r < 2 ^ 63"
  shows "saved_revision s = Inr (Some r)"
proof -
  have "unat r < 10 ^ 20" using assms(2) by simp
  then have "length (show_word r) \<le> 20" unfolding show_word_def by (rule length_show_nat) simp
  then have t: "read_text (Some (show_word r)) = Inr (show_word r)"
    by (simp add: read_text_def MAX_CONFIG_BYTES_def)
  have "unat r < 2 ^ 64" using assms(2) by simp
  then have "parse_uint (2 ^ 64) (show_word r) = Some (unat r)"
    unfolding show_word_def by (rule parse_uint_show_nat)
  with assms t show ?thesis by (simp add: saved_revision_def)
qed

definition same_documents :: "store \<Rightarrow> store \<Rightarrow> bool" where
  "same_documents s s' =
     (sf_snapshot s' = sf_snapshot s \<and> sf_config s' = sf_config s \<and> sf_displaced s' = sf_displaced s \<and>
      sf_editor s' = sf_editor s \<and> sf_read s' = sf_read s)"

lemma same_documents_refl [simp]: "same_documents s s"
  by (simp add: same_documents_def)

lemma same_documents_faults [simp]: "same_documents s (s\<lparr>sf_faults := fs\<rparr>)"
  by (simp add: same_documents_def)

lemma reserve_result:
  assumes "reserve_revision r s = (res, s')" and "unat r < 2 ^ 63"
  shows "same_documents s s' \<and>
    (res = Inr () \<longrightarrow> (\<exists>n. saved_revision s' = Inr (Some n) \<and> r \<le> n \<and>
       (\<forall>m. saved_revision s = Inr (Some m) \<longrightarrow> m \<le> n)))"
proof (cases "saved_revision s")
  case (Inl e)
  with assms show ?thesis by (auto simp: reserve_revision_def sbind_def sask_def)
next
  case (Inr saved)
  show ?thesis
  proof (cases "case saved of None \<Rightarrow> False | Some n \<Rightarrow> r \<le> n")
    case True
    with assms Inr show ?thesis
      by (auto simp: reserve_revision_def sbind_def sask_def sreturn_def split: option.splits)
  next
    case False
    then have old: "\<forall>m. saved = Some m \<longrightarrow> m \<le> r" by (auto split: option.splits)
    obtain r1 s1 where p: "publish (\<lambda>s. s\<lparr>sf_revision := Some (show_word r)\<rparr>) s = (r1, s1)"
      by (cases "publish (\<lambda>s. s\<lparr>sf_revision := Some (show_word r)\<rparr>) s")
    with assms Inr False have res: "(res, s') = (case r1 of Inl e \<Rightarrow> (Inl e, s1) | Inr u \<Rightarrow> (rguard u RevisionNotDurable, s1))"
      by (auto simp: reserve_revision_def sbind_def sask_def slift_def split: sum.splits)
    from p show ?thesis
    proof (rule publish_cases)
      fix fs
      assume "r1 = Inl WriteFailed" "s1 = s\<lparr>sf_faults := fs\<rparr>"
      with res show ?thesis by simp
    next
      fix fs u
      assume a: "r1 = Inr u" "s1 = s\<lparr>sf_faults := fs, sf_revision := Some (show_word r)\<rparr>"
      have "saved_revision s1 = Inr (Some r)" by (rule saved_show_word [OF _ assms(2)]) (simp add: a(2))
      with res a old Inr show ?thesis by (auto simp: same_documents_def)
    qed
  qed
qed

section \<open>Committing\<close>

lemma write_snapshot_cases:
  assumes "write_snapshot t s = (r, s')"
  obtains fs where "r = Inl WriteFailed" "s' = s\<lparr>sf_faults := fs\<rparr>"
    | fs u where "r = Inr u" "s' = s\<lparr>sf_faults := fs, sf_snapshot := Some t\<rparr>"
  using assms unfolding write_snapshot_def by (rule publish_cases) auto

lemma saved_revision_cong:
  assumes "sf_revision s' = sf_revision s"
  shows "saved_revision s' = saved_revision s"
  unfolding saved_revision_def assms ..

lemma mirror_and_clear_result:
  assumes "mirror_and_clear plain ov candidate s = (ws, s')"
  shows "saved_revision s' = saved_revision s \<and>
    (candidate = None \<longrightarrow> s' = s \<and> ws = [DraftPreserved]) \<and>
    (sf_snapshot s' = sf_snapshot s \<or> sf_snapshot s' = Some plain \<and> sf_config s' = Some plain)"
proof (cases candidate)
  case None
  with assms show ?thesis by (simp add: mirror_and_clear_def)
next
  case (Some version)
  obtain r1 s1 where st: "stage s = (r1, s1)" by (cases "stage s")
  then obtain fs where s1: "s1 = s\<lparr>sf_faults := fs\<rparr>" using stage_frame by blast
  obtain r2 s2 where m: "mirror_candidate plain version s1 = (r2, s2)" by (cases "mirror_candidate plain version s1")
  note out = mirror_outcome [OF m]
  then have frame: "sf_snapshot s2 = sf_snapshot s" "sf_revision s2 = sf_revision s" by (simp_all add: s1)
  show ?thesis
  proof (cases r1)
    case (Inl e)
    with assms Some st s1 show ?thesis
      by (auto simp: mirror_and_clear_def sbind_def intro: saved_revision_cong)
  next
    case ok: (Inr u)
    show ?thesis
    proof (cases r2)
      case (Inl e)
      with assms Some st ok m frame show ?thesis
        by (auto simp: mirror_and_clear_def sbind_def intro: saved_revision_cong)
    next
      case (Inr unsynced)
      define s3 where "s3 = s2\<lparr>sf_read := Some (Present plain)\<rparr>"
      have s3: "sf_snapshot s3 = sf_snapshot s" "sf_revision s3 = sf_revision s" "sf_config s3 = Some plain"
        using frame out Inr by (simp_all add: s3_def)
      show ?thesis
      proof (cases "\<not> unsynced \<and> ov \<noteq> []")
        case False
        with assms Some st ok m Inr have "s' = s3"
          by (auto simp: mirror_and_clear_def sbind_def s3_def Let_def split: if_splits)
        with Some s3 show ?thesis by (auto intro: saved_revision_cong)
      next
        case True
        obtain r4 s4 where w: "write_snapshot plain s3 = (r4, s4)" by (cases "write_snapshot plain s3")
        with assms Some st ok m Inr True have "s' = s4"
          by (auto simp: mirror_and_clear_def sbind_def s3_def Let_def split: sum.splits)
        with w show ?thesis
          by (rule_tac write_snapshot_cases [OF w]) (use Some s3 in \<open>auto intro!: saved_revision_cong\<close>)
      qed
    qed
  qed
qed

lemma checked_Inr [action_simps]: "checked v c = Inr d \<longleftrightarrow> wf_config (v_ua v) (v_js v) c \<and> d = c"
  by (auto simp: checked_def result_simps validate_iff_wf)

lemma wf_revision: "wf_config ua js c \<Longrightarrow> unat (revision c) < 2 ^ 63"
  by (simp add: wf_config_def)

lemma wf_schema: "wf_config ua js c \<Longrightarrow> schema_version c = SCHEMA_VERSION"
  by (simp add: wf_config_def)

definition committed :: "store_env \<Rightarrow> config \<Rightarrow> overrides \<Rightarrow> store \<Rightarrow> store \<Rightarrow> bool" where
  "committed v c ov s s' =
     (wf_config (v_ua v) (v_js v) c \<and>
      (\<exists>n. saved_revision s' = Inr (Some n) \<and> revision c \<le> n \<and>
         (\<forall>m. saved_revision s = Inr (Some m) \<longrightarrow> m \<le> n)) \<and>
      (\<exists>plain. v_text v c = Some plain \<and> length (snapshot_text v ov plain) \<le> MAX_CONFIG_BYTES \<and>
         (sf_snapshot s' = Some (snapshot_text v ov plain) \<or>
          sf_snapshot s' = Some plain \<and> sf_config s' = Some plain)))"

lemma commit_result:
  assumes "commit_with_overrides v c ov candidate s = (r, s')"
  shows "case r of
      Inl _ \<Rightarrow> same_documents s s'
    | Inr ws \<Rightarrow> committed v c ov s s' \<and>
        (candidate = None \<longrightarrow> DraftPreserved \<in> set ws \<and> sf_config s' = sf_config s \<and>
           (\<exists>plain. v_text v c = Some plain \<and> sf_snapshot s' = Some (snapshot_text v ov plain)))"
proof (cases "checked v c")
  case (Inl e)
  with assms show ?thesis by (auto simp: commit_with_overrides_def sbind_def slift_def)
next
  case checked: (Inr d)
  then have wf: "wf_config (v_ua v) (v_js v) c" by (simp add: checked_Inr)
  show ?thesis
  proof (cases "v_text v c")
    case None
    with assms checked show ?thesis by (auto simp: commit_with_overrides_def sbind_def slift_def)
  next
    case (Some plain)
    define t where "t = snapshot_text v ov plain"
    show ?thesis
    proof (cases "MAX_CONFIG_BYTES < length t")
      case True
      with assms checked Some show ?thesis
        by (auto simp: commit_with_overrides_def sbind_def slift_def t_def)
    next
      case fits: False
      obtain r1 s1 where reserve: "reserve_revision (revision c) s = (r1, s1)"
        by (cases "reserve_revision (revision c) s")
      note reserved = reserve_result [OF this wf_revision [OF wf]]
      obtain r2 s2 where wr: "write_snapshot t s1 = (r2, s2)" by (cases "write_snapshot t s1")
      obtain ws s3 where mirror: "mirror_and_clear plain ov candidate s2 = (ws, s3)"
        by (cases "mirror_and_clear plain ov candidate s2")
      note mirrored = mirror_and_clear_result [OF this]
      have run: "(r, s') = (case r1 of Inl e \<Rightarrow> (Inl e, s1) | Inr _ \<Rightarrow> (case r2 of Inl e \<Rightarrow> (Inl e, s2)
          | Inr u \<Rightarrow> (Inr ((if u then [SnapshotUnsynced] else []) @ ws), s3)))"
        using assms checked Some fits reserve wr mirror
        by (auto simp: commit_with_overrides_def sbind_def slift_def t_def split: sum.splits)
      show ?thesis
      proof (cases r1)
        case (Inl e)
        with run reserved show ?thesis by simp
      next
        case r1: (Inr u)
        from wr show ?thesis
        proof (rule write_snapshot_cases)
          fix fs
          assume "r2 = Inl WriteFailed" "s2 = s1\<lparr>sf_faults := fs\<rparr>"
          with run r1 reserved show ?thesis by (simp add: same_documents_def)
        next
          fix fs w
          assume w: "r2 = Inr w" "s2 = s1\<lparr>sf_faults := fs, sf_snapshot := Some t\<rparr>"
          have saved: "saved_revision s2 = saved_revision s1" by (rule saved_revision_cong) (simp add: w(2))
          have docs: "sf_config s1 = sf_config s" using reserved by (simp add: same_documents_def)
          have "committed v c ov s s3"
            using reserved r1 mirrored saved wf Some fits w(2) unfolding committed_def t_def by auto
          moreover have "candidate = None \<longrightarrow> DraftPreserved \<in> set ws \<and> sf_config s3 = sf_config s \<and>
              sf_snapshot s3 = Some t"
            using mirrored w(2) docs by auto
          ultimately show ?thesis using run r1 w(1) Some by (auto simp: t_def)
        qed
      qed
    qed
  qed
qed

section \<open>Reading back\<close>

text \<open>
  What is relied on from TOML and JSON for one configuration and one set of overrides: what is
  written can be read back, a leading comment changes nothing, and the JSON is on one line.
\<close>

definition faithful :: "store_env \<Rightarrow> config \<Rightarrow> overrides \<Rightarrow> bool" where
  "faithful v c ov =
     (v_intents v (v_json v ov) = Some ov \<and> CHR 0x0A \<notin> set (v_json v ov) \<and> CHR 0x0D \<notin> set (v_json v ov) \<and>
      (case v_text v c of
         None \<Rightarrow> True
       | Some t \<Rightarrow> v_toml v t = Some c \<and> v_toml v (PREFIX @ v_json v ov @ [CHR 0x0A] @ t) = Some c \<and>
           (case str_lines t of [] \<Rightarrow> True | l # _ \<Rightarrow> strip_prefix PREFIX l = None)))"

lemma str_lines_first:
  assumes "CHR 0x0A \<notin> set a" and "a \<noteq> []" and "last a \<noteq> CHR 0x0D"
  shows "\<exists>ls. str_lines (a @ [CHR 0x0A] @ b) = a # ls"
  using assms by (auto simp: str_lines_def Let_def split_on_append)

lemma plain_overrides:
  assumes "faithful v c ov" and "v_text v c = Some plain" and "length plain \<le> MAX_CONFIG_BYTES"
  shows "read_overrides v (Some plain) = Inr []"
  using assms by (auto simp: read_overrides_def read_text_def faithful_def split: list.splits)

lemma snapshot_overrides:
  assumes f: "faithful v c ov" and p: "v_text v c = Some plain"
    and len: "length (snapshot_text v ov plain) \<le> MAX_CONFIG_BYTES"
  shows "read_overrides v (Some (snapshot_text v ov plain)) = Inr ov"
proof (cases "ov = []")
  case True
  with plain_overrides [OF f p] len show ?thesis by (simp add: snapshot_text_def)
next
  case False
  have json: "v_intents v (v_json v ov) = Some ov" "CHR 0x0A \<notin> set (v_json v ov)" "CHR 0x0D \<notin> set (v_json v ov)"
    using f by (auto simp: faithful_def)
  have a: "CHR 0x0A \<notin> set (PREFIX @ v_json v ov)" "PREFIX @ v_json v ov \<noteq> []"
    using json(2) by (auto simp: PREFIX_def)
  moreover have "last (PREFIX @ v_json v ov) \<noteq> CHR 0x0D"
    using json(3) by (cases "v_json v ov" rule: rev_cases) (auto simp: PREFIX_def)
  ultimately obtain ls where "str_lines ((PREFIX @ v_json v ov) @ [CHR 0x0A] @ plain) = (PREFIX @ v_json v ov) # ls"
    using str_lines_first by blast
  moreover have "strip_prefix PREFIX (PREFIX @ v_json v ov) = Some (v_json v ov)"
    by (simp add: strip_prefix_Some)
  ultimately show ?thesis
    using len json(1) False by (simp add: read_overrides_def read_text_def snapshot_text_def)
qed

lemma parse_committed:
  assumes "faithful v c ov" and "wf_config (v_ua v) (v_js v) c" and "v_text v c = Some plain"
  shows "parse_text v (snapshot_text v ov plain) = Inr c" "parse_text v plain = Inr c"
proof -
  have "v_toml v plain = Some c" "v_toml v (snapshot_text v ov plain) = Some c"
    using assms(1,3) by (simp_all add: faithful_def snapshot_text_def)
  moreover have "migrate (v_ua v) c = Inr (c, False)" using wf_schema [OF assms(2)] by (rule migrate_current)
  ultimately show "parse_text v (snapshot_text v ov plain) = Inr c" "parse_text v plain = Inr c"
    by (simp_all add: parse_text_def)
qed

lemma snapshot_text_length: "length plain \<le> length (snapshot_text v ov plain)"
  by (simp add: snapshot_text_def)

lemma committed_reads:
  assumes "committed v c ov s s'" and f: "faithful v c ov" and "normalized v c = Inr c"
  shows "read_file v (sf_snapshot s') = Inr c \<and>
    (read_overrides v (sf_snapshot s') = Inr ov \<or>
     read_overrides v (sf_snapshot s') = Inr [] \<and> sf_config s' = sf_snapshot s')"
proof -
  from assms(1) obtain plain where p: "v_text v c = Some plain"
    "length (snapshot_text v ov plain) \<le> MAX_CONFIG_BYTES"
    "sf_snapshot s' = Some (snapshot_text v ov plain) \<or> sf_snapshot s' = Some plain \<and> sf_config s' = Some plain"
    and wf: "wf_config (v_ua v) (v_js v) c"
    by (auto simp: committed_def)
  note parsed = parse_committed [OF f wf p(1)]
  have len: "length plain \<le> MAX_CONFIG_BYTES" using p(2) snapshot_text_length [of plain v ov] by simp
  have "checked v c = Inr c" using wf by (simp add: checked_Inr)
  with p parsed len snapshot_overrides [OF f p(1,2)] plain_overrides [OF f p(1) len] assms(3) show ?thesis
    by (auto simp: read_file_def read_text_def)
qed

lemma load_snapshot:
  assumes "sf_snapshot s \<noteq> None" and "read_file v (sf_snapshot s) = Inr c"
  shows "\<exists>w. load v s = (Inr (c, w), s)"
  using assms by (simp add: load_def)

lemma committed_snapshot: "committed v c ov s s' \<Longrightarrow> sf_snapshot s' \<noteq> None"
  by (auto simp: committed_def)

text \<open>
  Property C27. A commit happens entirely or not at all, whatever fails on the way. If it
  reports an error, the applied snapshot and the draft are what they were; if it succeeds, with
  warnings or without, the next load returns exactly the committed configuration.
\<close>

theorem commit_all_or_nothing:
  assumes "commit_with_overrides v c ov candidate s = (r, s')"
    and "faithful v c ov" and "normalized v c = Inr c"
  shows "case r of
      Inl _ \<Rightarrow> sf_snapshot s' = sf_snapshot s \<and> sf_config s' = sf_config s \<and> sf_displaced s' = sf_displaced s
    | Inr _ \<Rightarrow> wf_config (v_ua v) (v_js v) c \<and> (\<exists>w. load v s' = (Inr (c, w), s'))"
proof (cases r)
  case (Inl e)
  with commit_result [OF assms(1)] show ?thesis by (simp add: same_documents_def)
next
  case (Inr ws)
  with commit_result [OF assms(1)] have c: "committed v c ov s s'" by simp
  from committed_reads [OF c assms(2,3)] committed_snapshot [OF c] have "\<exists>w. load v s' = (Inr (c, w), s')"
    by (blast intro: load_snapshot)
  with Inr c show ?thesis by (simp add: committed_def)
qed

text \<open>
  Revisions never fall: after a successful commit the separate high-water mark is
  at least the committed revision and at least what it was, so a damaged snapshot cannot make
  an old revision acceptable again.
\<close>

theorem revision_never_falls:
  assumes "commit_with_overrides v c ov candidate s = (Inr ws, s')"
  shows "\<exists>n. saved_revision s' = Inr (Some n) \<and> revision c \<le> n \<and>
    (\<forall>m. saved_revision s = Inr (Some m) \<longrightarrow> m \<le> n)"
  using commit_result [OF assms] by (auto simp: committed_def)

section \<open>Control intent\<close>

definition intents_for :: "store_env \<Rightarrow> config \<Rightarrow> string list \<Rightarrow> store \<Rightarrow> store_error + overrides" where
  "intents_for v c selected s =
     rbind (fst (load v s)) (\<lambda>(previous, _).
     rbind (read_overrides v (sf_snapshot s)) (\<lambda>ov.
     map_err UnknownControlled (record_intents previous c ov selected)))"

definition wanted :: "overrides \<Rightarrow> config \<Rightarrow> string \<Rightarrow> bool" where
  "wanted ov c i = (case map_of ov i of
       None \<Rightarrow> False
     | Some intent \<Rightarrow> in_desired intent = map_option fs_desired_state (rule_by_id c i))"

lemma record_intents_keeps:
  "record_intents previous c ov sel = Inr ov' \<Longrightarrow> wanted ov c i \<Longrightarrow> wanted ov' c i"
proof (induction sel arbitrary: ov)
  case Nil
  then show ?case by simp
next
  case (Cons j sel)
  then obtain intent where intent: "controlled_intent previous c j = Some intent"
    "record_intents previous c (btree_insert j intent ov) sel = Inr ov'"
    by (auto split: option.splits)
  have "wanted (btree_insert j intent ov) c i"
    using Cons.prems(2) intent(1) by (auto simp: wanted_def controlled_intent_def split: option.splits)
  with Cons.IH [OF intent(2)] show ?case .
qed

lemma record_intents_wanted:
  "record_intents previous c ov sel = Inr ov' \<Longrightarrow> i \<in> set sel \<Longrightarrow> wanted ov' c i"
proof (induction sel arbitrary: ov)
  case Nil
  then show ?case by simp
next
  case (Cons j sel)
  then obtain intent where intent: "controlled_intent previous c j = Some intent"
    "record_intents previous c (btree_insert j intent ov) sel = Inr ov'"
    by (auto split: option.splits)
  show ?case
  proof (cases "i = j")
    case True
    have "wanted (btree_insert j intent ov) c j"
      using intent(1) by (auto simp: wanted_def controlled_intent_def)
    with True record_intents_keeps [OF intent(2)] show ?thesis by simp
  next
    case False
    with Cons.prems(2) Cons.IH [OF intent(2)] show ?thesis by simp
  qed
qed

lemma obey_wanted:
  assumes "wanted ov c (fs_id g)" and "obey ov g = Some h"
  shows "\<exists>f. rule_by_id c (fs_id g) = Some f \<and> fs_desired_state h = fs_desired_state f"
  using assms by (auto simp: wanted_def obey_def split: option.splits)

lemma load_snapshot_same: "load v s = (r, s') \<Longrightarrow> sf_snapshot s' = sf_snapshot s"
  by (auto simp: load_def sbind_def sask_def sreturn_def read_candidate_def split: if_splits sum.splits prod.splits)

lemma commit_control_runs:
  assumes "commit_control_for v c selected s = (Inr ws, s')" and "intents_for v c selected s = Inr ov"
  obtains candidate s1 where "commit_with_overrides v c ov candidate s1 = (Inr ws, s')"
proof -
  obtain previous w s1 where l: "load v s = (Inr (previous, w), s1)"
    using assms(2) by (cases "load v s") (auto simp: intents_for_def result_simps)
  from assms(1) l obtain ov0 ov' candidate where
    ov: "read_overrides v (sf_snapshot s1) = Inr ov0" "record_intents previous c ov0 selected = Inr ov'"
    and run: "commit_with_overrides v c ov' candidate s1 = (Inr ws, s')"
    by (auto simp: commit_control_for_def action_simps result_simps)
  have "ov' = ov"
    using assms(2) l ov load_snapshot_same [OF l] by (auto simp: intents_for_def result_simps)
  with run that show ?thesis by blast
qed

text \<open>
  Property C28. Stopping, starting or deleting rules while the draft has unapplied edits holds
  against that draft: as long as the draft is not the committed configuration, whatever text
  is read as the draft, a deleted rule does not come back and a selected rule that is there
  has the state the command asked for.
\<close>

theorem control_intent_wins:
  assumes "commit_control_for v c selected s = (Inr ws, s')"
    and "intents_for v c selected s = Inr ov" and "faithful v c ov" and "normalized v c = Inr c"
    and "sf_config s' \<noteq> sf_snapshot s'"
    and "parse_candidate_version v (Present t) s' = Inr d" and "i \<in> set selected" and "rule_by_id d i = Some h"
  shows "\<exists>f. rule_by_id c i = Some f \<and> fs_desired_state h = fs_desired_state f"
proof -
  from assms(1,2) obtain candidate s1 where "commit_with_overrides v c ov candidate s1 = (Inr ws, s')"
    by (rule commit_control_runs)
  from commit_result [OF this] have "committed v c ov s1 s'" by simp
  from committed_reads [OF this assms(3,4)] assms(5) have ov: "read_overrides v (sf_snapshot s') = Inr ov"
    by metis
  from assms(6) ov obtain c' where d: "d = apply_overrides ov c'"
    by (auto simp: parse_candidate_version_def result_simps action_simps)
  from assms(8) obtain g where g: "rule_by_id c' i = Some g" "obey ov g = Some h"
    unfolding d rule_by_id_apply by (auto simp: bind_eq_Some_conv)
  have "wanted ov c i"
    using assms(2,7) by (auto simp: intents_for_def result_simps intro: record_intents_wanted)
  moreover have "fs_id g = i" using g(1) by (auto dest: rule_by_id_SomeD)
  ultimately show ?thesis using g(2) obey_wanted by metis
qed

section \<open>A sample store\<close>

definition sample_draft :: config where
  "sample_draft = sample_config\<lparr>forwards := (sample_local\<lparr>fs_desired_state := Stopped\<rparr>) # tl (forwards sample_config)\<rparr>"

definition sample_intents :: overrides where
  "sample_intents = [(fs_id sample_local, \<lparr>in_name = fs_name sample_local, in_desired = Some Running\<rparr>)]"

definition sample_env :: store_env where
  "sample_env = \<lparr>v_ua = no_ext, v_js = small_json,
     v_toml = (\<lambda>t. let l = last (split_on CHR 0x0A t)
                   in if l = ''plain'' then Some sample_config else if l = ''draft'' then Some sample_draft else None),
     v_text = (\<lambda>c. if c = sample_config then Some ''plain'' else None),
     v_revision = (\<lambda>_. None), v_schema = (\<lambda>_. Some None), v_intents = (\<lambda>_. Some sample_intents), v_json = (\<lambda>_. ''{}''),
     v_canon = (\<lambda>_. NotFound), v_cwd = ''/'', v_config_dir = ''/''\<rparr>"

definition sample_store :: store where
  "sample_store = \<lparr>sf_config = Some ''draft'', sf_snapshot = Some ''plain'', sf_revision = None,
     sf_recovery = False, sf_read = None, sf_faults = [], sf_editor = quiet, sf_displaced = [], sf_backups = [], sf_rescued = []\<rparr>"

definition sample_committed :: store where
  "sample_committed = sample_store\<lparr>sf_revision := Some (show_word (revision sample_config)),
     sf_snapshot := Some (PREFIX @ ''{}'' @ [CHR 0x0A] @ ''plain'')\<rparr>"

lemma sample_env_fields [simp]:
  "v_ua sample_env = no_ext" "v_js sample_env = small_json" "v_text sample_env sample_config = Some ''plain''"
  "v_intents sample_env x = Some sample_intents" "v_json sample_env ov = ''{}''"
  "v_toml sample_env ''plain'' = Some sample_config" "v_toml sample_env ''draft'' = Some sample_draft"
  by (simp_all add: sample_env_def)

lemma sample_toml_overrides: "v_toml sample_env (PREFIX @ ''{}'' @ [CHR 0x0A] @ ''plain'') = Some sample_config"
  by (simp add: sample_env_def PREFIX_def)

lemma sample_faithful: "faithful sample_env sample_config sample_intents"
  using sample_toml_overrides by (simp add: faithful_def str_lines_def) (simp add: PREFIX_def)

lemma no_paths: "sp_identity_files p = [] \<Longrightarrow> sp_ssh_config p = None \<Longrightarrow> sp_known_hosts p = None \<Longrightarrow>
    map_profile_paths f p = Inr p"
  by (cases p) (simp add: map_profile_paths_def map_option_result_def)

lemma sample_no_paths: "s \<in> set (servers sample_config) \<Longrightarrow> map_profile_paths f s = Inr s"
  by (rule no_paths) (auto simp: sample_defs)

lemma collect_same: "(\<And>x. x \<in> set xs \<Longrightarrow> f x = Inr x) \<Longrightarrow> collect_results f xs = Inr xs"
  by (induction xs) auto

lemma sample_normalized:
  assumes "servers c = servers sample_config"
  shows "normalized sample_env c = Inr c"
proof -
  have "collect_results (map_profile_paths f) (servers c) = Inr (servers c)" for f
    unfolding assms by (rule collect_same) (rule sample_no_paths)
  then show ?thesis by (simp add: normalized_def normalize_config_paths_def)
qed

lemma sample_current: "schema_version sample_config = SCHEMA_VERSION" "schema_version sample_draft = SCHEMA_VERSION"
  by (simp_all add: sample_defs sample_draft_def)

lemma sample_parse_text:
  "parse_text sample_env ''plain'' = Inr sample_config" "parse_text sample_env ''draft'' = Inr sample_draft"
  by (simp_all add: parse_text_def migrate_current sample_current)

lemma sample_checked: "checked sample_env sample_config = Inr sample_config"
  using sample_wf by (simp add: checked_Inr)

lemma sample_read_snapshot: "read_file sample_env (Some ''plain'') = Inr sample_config"
  by (simp add: read_file_def read_text_def MAX_CONFIG_BYTES_def sample_parse_text sample_normalized sample_checked)

lemma sample_read_draft: "read_file sample_env (Some ''draft'') \<noteq> Inr sample_config"
proof -
  have "forwards sample_draft \<noteq> forwards sample_config"
    by (simp add: sample_draft_def sample_config_def sample_local_def)
  then have "sample_draft \<noteq> sample_config" by auto
  moreover have "normalized sample_env sample_draft = Inr sample_draft"
    by (rule sample_normalized) (simp add: sample_draft_def)
  then have "read_file sample_env (Some ''draft'') = checked sample_env sample_draft"
    by (simp add: read_file_def read_text_def MAX_CONFIG_BYTES_def sample_parse_text)
  then have "d = sample_draft" if "read_file sample_env (Some ''draft'') = Inr d" for d
    using that by (metis checked_Inr)
  ultimately show ?thesis by metis
qed

lemma sample_candidate: "read_overrides sample_env (Some ''plain'') = Inr []"
  "candidate_version sample_store = Inr (Present ''draft'')"
  by (simp_all add: read_overrides_def read_text_def MAX_CONFIG_BYTES_def str_lines_def PREFIX_def
      candidate_version_def sample_store_def)

lemma sample_load: "fst (load sample_env sample_store) = Inr (sample_config,
    case rbind (candidate_version sample_store) (\<lambda>version. parse_candidate_version sample_env version sample_store) of
      Inr d \<Rightarrow> if d = sample_config then None else Some DraftDiffers | Inl e \<Rightarrow> Some (DraftInvalid e))"
  "snd (load sample_env sample_store) = sample_store"
  by (simp_all add: load_def sample_store_def sample_read_snapshot)

lemma sample_rule: "rule_by_id sample_config (fs_id sample_local) = Some sample_local"
  by (simp add: rule_by_id_def sample_config_def)

lemma sample_recorded:
  "record_intents sample_config sample_config [] [fs_id sample_local] = Inr sample_intents"
proof -
  have "controlled_intent sample_config sample_config (fs_id sample_local) =
      Some \<lparr>in_name = fs_name sample_local, in_desired = Some (fs_desired_state sample_local)\<rparr>"
    by (simp add: controlled_intent_def sample_rule)
  then show ?thesis by (simp add: sample_intents_def) (simp add: sample_local_def)
qed

lemma sample_intents_for: "intents_for sample_env sample_config [fs_id sample_local] sample_store = Inr sample_intents"
proof -
  have "read_overrides sample_env (sf_snapshot sample_store) = Inr []"
    by (simp add: sample_store_def sample_candidate)
  then show ?thesis by (simp add: intents_for_def sample_load sample_recorded del: record_intents.simps)
qed

lemma sample_reserve:
  "reserve_revision (revision sample_config) sample_store =
     (Inr (), sample_store\<lparr>sf_revision := Some (show_word (revision sample_config))\<rparr>)"
  by (simp add: reserve_revision_def sbind_def sask_def saved_revision_def sample_store_def publish_def
      next_outcome_def slift_def)

lemma sample_commit:
  "commit_with_overrides sample_env sample_config sample_intents None sample_store =
     (Inr [DraftPreserved], sample_committed)"
proof -
  have "snapshot_text sample_env sample_intents ''plain'' = PREFIX @ ''{}'' @ [CHR 0x0A] @ ''plain''"
    by (simp add: snapshot_text_def sample_intents_def)
  moreover have "\<not> MAX_CONFIG_BYTES < length (PREFIX @ ''{}'' @ [CHR 0x0A] @ ''plain'')"
    by (simp add: PREFIX_def MAX_CONFIG_BYTES_def)
  ultimately show ?thesis
    by (simp add: commit_with_overrides_def sbind_def slift_def sample_checked sample_reserve write_snapshot_def
        publish_def next_outcome_def mirror_and_clear_def sample_committed_def)
      (simp add: sample_store_def)
qed

lemma commit_all_or_nothing_witness:
  "\<exists>w. load sample_env sample_committed = (Inr (sample_config, w), sample_committed)"
  using commit_all_or_nothing [OF sample_commit sample_faithful sample_normalized [OF refl]] by simp

lemma revision_never_falls_witness:
  "\<exists>n. saved_revision sample_committed = Inr (Some n) \<and> revision sample_config \<le> n"
  using revision_never_falls [OF sample_commit] by blast

lemma sample_control:
  "commit_control_for sample_env sample_config [fs_id sample_local] sample_store =
     (Inr [DraftPreserved], sample_committed)"
proof -
  obtain w where l: "load sample_env sample_store = (Inr (sample_config, w), sample_store)"
    using sample_load by (metis prod.collapse)
  have "has_pending_edits sample_env sample_store = Inr True"
    using sample_read_draft by (simp add: has_pending_edits_def sample_store_def sample_read_snapshot)
  moreover have "read_overrides sample_env (sf_snapshot sample_store) = Inr []"
    by (simp add: sample_store_def sample_candidate)
  ultimately show ?thesis
    by (simp add: commit_control_for_def sbind_def l sask_def slift_def sample_candidate sample_recorded sample_commit
        del: record_intents.simps)
qed

lemma sample_read_committed:
  "parse_candidate_version sample_env (Present ''draft'') sample_committed = Inr sample_config"
proof -
  have "read_overrides sample_env (sf_snapshot sample_committed) = Inr sample_intents"
    using snapshot_overrides [OF sample_faithful, of "''plain''"]
    by (simp add: sample_committed_def snapshot_text_def sample_intents_def PREFIX_def MAX_CONFIG_BYTES_def)
  moreover have "apply_overrides sample_intents sample_draft = sample_config"
    by (simp add: apply_overrides_def sample_draft_def sample_config_def List.map_filter_simps obey_def
        sample_intents_def sample_local_def sample_local2_def sample_remote_def sample_relay_def)
  ultimately show ?thesis
    using sample_normalized [of sample_draft] sample_checked
    by (simp add: parse_candidate_version_def sample_parse_text) (simp add: sample_draft_def)
qed

lemma control_intent_wins_witness:
  "\<exists>f. rule_by_id sample_config (fs_id sample_local) = Some f \<and> fs_desired_state f = Running"
proof -
  have "sf_config sample_committed \<noteq> sf_snapshot sample_committed"
    by (simp add: sample_committed_def sample_store_def PREFIX_def)
  from control_intent_wins [OF sample_control sample_intents_for sample_faithful sample_normalized [OF refl]
      this sample_read_committed _ sample_rule]
  show ?thesis by (auto simp: sample_local_def)
qed

definition sample_race :: store where
  "sample_race = sample_store\<lparr>sf_editor := \<lparr>ed_before = None, ed_during = Some ''newer'', ed_late = None\<rparr>\<rparr>"

lemma mirror_compare_and_swap_witness:
  "{''newer'', ''draft''} \<subseteq> kept_texts (snd (mirror_candidate ''plain'' (Present ''draft'') sample_race))"
proof -
  obtain r s' where m: "mirror_candidate ''plain'' (Present ''draft'') sample_race = (r, s')"
    by (cases "mirror_candidate ''plain'' (Present ''draft'') sample_race")
  have "editor_texts (Present ''draft'') sample_race = {''newer'', ''draft''}"
    by (auto simp: editor_texts_def moved_aside_def draft_now_def sample_race_def sample_store_def next_outcome_def)
  with mirror_compare_and_swap [OF m] m show ?thesis by (auto split: sum.splits)
qed

end
