(* ===== verification/Recovery.thy ===== *)
theory Recovery
  imports StoreSafety
begin

text \<open>
  Explicit recovery from the draft, \<open>crates/fwm-core/src/store/recovery.rs\<close> and
  \<open>recovery_revision\<close> of \<open>store/revision.rs\<close>: both files are backed up, every recovered rule
  is stopped, and the new revision is above every revision that can still be read.
\<close>

section \<open>The revision to continue from\<close>

definition trim_start :: "string \<Rightarrow> string" where
  "trim_start s = concat (map snd (dropWhile (\<lambda>c. is_whitespace (fst c)) (utf8_chunks s)))"

definition line_revision :: "string \<Rightarrow> u64 option" where
  "line_revision line = (case split_once CHR ''='' line of
       None \<Rightarrow> None
     | Some (key, v) \<Rightarrow>
         if trim key = ''revision''
         then map_option of_nat (parse_uint (2 ^ 64)
                (filter (\<lambda>c. c \<noteq> CHR ''_'') (trim (hd (split_on CHR ''#'' v)))))
         else None)"

fun find_map :: "('a \<Rightarrow> 'b option) \<Rightarrow> 'a list \<Rightarrow> 'b option" where
  "find_map f [] = None"
| "find_map f (x # xs) = or_else (f x) (find_map f xs)"

definition scanned_revision :: "string \<Rightarrow> u64 option" where
  "scanned_revision t =
     find_map line_revision (takeWhile (\<lambda>line. \<not> starts_with ''['' (trim_start line)) (str_lines t))"

definition snapshot_revision :: "store_env \<Rightarrow> u64 option \<Rightarrow> store \<Rightarrow> store_error + u64 option" where
  "snapshot_revision v saved s = (case sf_snapshot s of
       None \<Rightarrow> Inr None
     | Some t \<Rightarrow>
         rbind (case read_text (Some t) of
             Inr t \<Rightarrow> Inr t
           | Inl e \<Rightarrow> if saved \<noteq> None then Inr [] else Inl e) (\<lambda>t.
         Inr (or_else (v_revision v t) (scanned_revision t))))"

definition recovery_revision :: "store_env \<Rightarrow> u64 \<Rightarrow> store \<Rightarrow> store_error + u64" where
  "recovery_revision v candidate s =
     rbind (saved_revision s) (\<lambda>saved.
     rbind (snapshot_revision v saved s) (\<lambda>snapshot.
     rbind (rguard (saved = None \<and> snapshot = None \<and> (sf_snapshot s \<noteq> None \<or> sf_recovery s)) NoRevision) (\<lambda>_.
     let highest = max (max candidate (case saved of None \<Rightarrow> 0 | Some n \<Rightarrow> n))
                       (case snapshot of None \<Rightarrow> 0 | Some n \<Rightarrow> n)
     in case checked_add highest 1 of
          None \<Rightarrow> Inl RevisionsExhausted
        | Some r \<Rightarrow> if unat r < 2 ^ 63 then Inr r else Inl RevisionsExhausted)))"

section \<open>Recovering\<close>

datatype recovery_warning = IntentDiscarded store_error | CommitWarning store_warning

definition stop_rule :: "forward_spec \<Rightarrow> forward_spec" where
  "stop_rule f = f\<lparr>fs_desired_state := Stopped\<rparr>"

definition readable_intent :: "store_env \<Rightarrow> store \<Rightarrow> store_error + overrides" where
  "readable_intent v s =
     (if (case sf_snapshot s of None \<Rightarrow> False | Some t \<Rightarrow> 1024 * 1024 < length t) then Inl OverBudget
      else read_overrides v (sf_snapshot s))"

definition salvage_intent ::
    "store_env \<Rightarrow> bool \<Rightarrow> store \<Rightarrow> store_error + (overrides \<times> recovery_warning list)" where
  "salvage_intent v discard s = (case readable_intent v s of
       Inr ov \<Rightarrow> Inr (ov, [])
     | Inl e \<Rightarrow> if discard then Inr ([], [IntentDiscarded e]) else Inl IntentUnreadable)"

definition rescue :: "unit action" where
  "rescue = sbind (publish (\<lambda>s. s\<lparr>sf_rescued := sf_rescued s @ [(sf_config s, sf_snapshot s)]\<rparr>))
     (\<lambda>unsynced. slift (rguard unsynced WriteFailed))"

definition recovered_config ::
    "store_env \<Rightarrow> overrides \<Rightarrow> string \<Rightarrow> store \<Rightarrow> store_error + config" where
  "recovered_config v ov t s =
     rbind (parse_text v t) (\<lambda>c.
     rbind (normalized v c) (\<lambda>c.
     let stopped = (apply_overrides ov c)\<lparr>forwards := map stop_rule (forwards (apply_overrides ov c))\<rparr> in
     rbind (recovery_revision v (revision stopped) s) (\<lambda>r.
     checked v (stopped\<lparr>revision := r\<rparr>))))"

definition recover_version ::
    "store_env \<Rightarrow> bool \<Rightarrow> draft_version \<Rightarrow> (config \<times> recovery_warning list) action" where
  "recover_version v discard version = (case version of
       Missing \<Rightarrow> slift (Inl DraftMissing)
     | Present t \<Rightarrow>
         sbind (slift (rbind (parse_text v t) (normalized v))) (\<lambda>_.
         sbind (sask (salvage_intent v discard)) (\<lambda>(ov, lost).
         sbind (sask (recovered_config v ov t)) (\<lambda>c.
         sbind rescue (\<lambda>_.
         sbind (commit_with_overrides v c (protect_all ov c) (Some version)) (\<lambda>ws.
         sreturn (c, lost @ map CommitWarning ws)))))))"

definition recover_from_candidate ::
    "store_env \<Rightarrow> bool \<Rightarrow> (config \<times> recovery_warning list) action" where
  "recover_from_candidate v discard = sbind (sask candidate_version) (recover_version v discard)"

section \<open>What recovery promises\<close>


lemma unat_max_word: "unat (max a b) = max (unat a) (unat b)" for a b :: "'w::len word"
  by (simp add: max_def word_le_nat_alt)

lemma recovery_revision_above:
  assumes "recovery_revision v candidate s = Inr r"
  shows "unat candidate < unat r \<and> unat r < 2 ^ 63 \<and>
    (\<forall>n. saved_revision s = Inr (Some n) \<longrightarrow> unat n < unat r) \<and>
    (\<forall>saved n. saved_revision s = Inr saved \<longrightarrow> snapshot_revision v saved s = Inr (Some n) \<longrightarrow> unat n < unat r)"
proof -
  obtain saved where saved: "saved_revision s = Inr saved"
    using assms by (cases "saved_revision s") (simp_all add: recovery_revision_def)
  obtain snapshot where snapshot: "snapshot_revision v saved s = Inr snapshot"
    using assms saved by (cases "snapshot_revision v saved s") (simp_all add: recovery_revision_def)
  define highest where "highest = max (max candidate (case saved of None \<Rightarrow> 0 | Some n \<Rightarrow> n))
    (case snapshot of None \<Rightarrow> 0 | Some n \<Rightarrow> n)"
  have "checked_add highest 1 = Some r \<and> unat r < 2 ^ 63"
    using assms unfolding recovery_revision_def saved
    by (simp add: snapshot rguard_def highest_def [symmetric] Let_def split: if_splits option.splits)
  then have r: "unat r = unat highest + 1" "unat r < 2 ^ 63"
    using unat_checked_add by fastforce+
  have "unat candidate \<le> unat highest" "\<And>n. saved = Some n \<Longrightarrow> unat n \<le> unat highest"
    "\<And>n. snapshot = Some n \<Longrightarrow> unat n \<le> unat highest"
    by (auto simp: highest_def unat_max_word)
  with r saved snapshot show ?thesis by (auto simp: less_Suc_eq_le)
qed

lemma rescued_publish:
  assumes "publish w s = (r, s')" and "\<And>s. sf_rescued (w s) = sf_rescued s"
  shows "sf_rescued s' = sf_rescued s"
  using assms(1) by (rule publish_cases) (simp_all add: assms(2))

lemma rescued_reserve: "reserve_revision n s = (r, s') \<Longrightarrow> sf_rescued s' = sf_rescued s"
  by (cases r) (auto simp: reserve_revision_def action_simps dest!: rescued_publish split: if_splits option.splits)

lemma rescued_write: "write_snapshot t s = (r, s') \<Longrightarrow> sf_rescued s' = sf_rescued s"
  unfolding write_snapshot_def by (erule rescued_publish) simp

lemma rescued_stage: "stage s = (r, s') \<Longrightarrow> sf_rescued s' = sf_rescued s"
  by (auto dest: stage_frame)

lemma rescued_persist_new: "persist_new t s = (r, s') \<Longrightarrow> sf_rescued s' = sf_rescued s"
  by (erule persist_new_cases) simp_all

lemma rescued_restore [simp]: "sf_rescued (restore_draft t s) = sf_rescued s"
  by (simp add: restore_draft_def)

lemma rescued_replace:
  assumes "replace_draft plain expected ed original s = (r, s')"
  shows "sf_rescued s' = sf_rescued s"
proof -
  obtain q t where p: "persist_new plain s = (q, t)" by (cases "persist_new plain s")
  with assms rescued_persist_new [OF p] show ?thesis
    by (auto simp: replace_draft_def Let_def sbind_def slift_def sreturn_def split: if_splits sum.splits)
qed

lemma rescued_mirror: "mirror_candidate plain version s = (r, s') \<Longrightarrow> sf_rescued s' = sf_rescued s"
  by (cases r)
    (auto simp: mirror_candidate_def Let_def action_simps
      dest!: rescued_persist_new rescued_stage rescued_replace split: draft_version.splits option.splits)

lemma rescued_mirror_and_clear:
  "mirror_and_clear plain ov candidate s = (ws, s') \<Longrightarrow> sf_rescued s' = sf_rescued s"
  by (auto simp: mirror_and_clear_def Let_def action_simps
      dest!: rescued_stage rescued_mirror rescued_write split: option.splits prod.splits sum.splits if_splits)

lemma rescued_commit:
  assumes "commit_with_overrides v c ov candidate s = (r, s')"
  shows "sf_rescued s' = sf_rescued s"
proof -
  have tail: "sf_rescued t = sf_rescued u"
    if "(case mirror_and_clear plain ov candidate u of (ws, x) \<Rightarrow> (Inr (f ws), x)) = (q, t)"
    for plain u t and f :: "store_warning list \<Rightarrow> store_warning list" and q :: "store_error + store_warning list"
    using that rescued_mirror_and_clear by (cases "mirror_and_clear plain ov candidate u") fastforce
  show ?thesis using assms
    by (cases r) (auto simp: commit_with_overrides_def action_simps
        dest!: rescued_reserve rescued_write tail)
qed

lemma rescue_cases:
  assumes "rescue s = (r, s')"
  shows "same_documents s s' \<and> sf_revision s' = sf_revision s \<and>
    (r = Inr () \<longrightarrow> sf_rescued s' = sf_rescued s @ [(sf_config s, sf_snapshot s)])"
proof -
  obtain q t where p: "publish (\<lambda>s. s\<lparr>sf_rescued := sf_rescued s @ [(sf_config s, sf_snapshot s)]\<rparr>) s = (q, t)"
    by (cases "publish (\<lambda>s. s\<lparr>sf_rescued := sf_rescued s @ [(sf_config s, sf_snapshot s)]\<rparr>) s")
  with assms have r: "s' = t" "\<And>e. q = Inl e \<Longrightarrow> r = Inl e"
    by (auto simp: rescue_def sbind_def slift_def split: sum.splits)
  from p show ?thesis by (rule publish_cases) (use r in \<open>auto simp: same_documents_def\<close>)
qed

lemma recovered_config_result:
  assumes "recovered_config v ov t s = Inr c"
  shows "wf_config (v_ua v) (v_js v) c \<and> (\<forall>f\<in>set (forwards c). fs_desired_state f = Stopped) \<and>
    (\<exists>n. recovery_revision v n s = Inr (revision c))"
  using assms by (auto simp: recovered_config_def result_simps action_simps Let_def stop_rule_def)

lemma recovery_result:
  assumes "recover_from_candidate v discard s = (r, s')"
  shows "case r of
      Inl _ \<Rightarrow> same_documents s s'
    | Inr (c, _) \<Rightarrow> \<exists>t ov. same_documents s t \<and> saved_revision t = saved_revision s \<and>
        committed v c (protect_all ov c) t s' \<and>
        (\<forall>f\<in>set (forwards c). fs_desired_state f = Stopped) \<and>
        (\<exists>n. recovery_revision v n s = Inr (revision c)) \<and>
        sf_rescued s' = sf_rescued s @ [(sf_config s, sf_snapshot s)]"
proof (cases r)
  case (Inl e)
  then have "recover_from_candidate v discard s = (Inl e, s')" using assms by simp
  then consider "s' = s" | version where "recover_version v discard version s = (Inl e, s')"
    by (auto simp: recover_from_candidate_def action_simps)
  then have "s' = s \<or> rescue s = (Inl e, s') \<or>
      (\<exists>u c ov w. rescue s = (Inr (), u) \<and> commit_with_overrides v c ov (Some w) u = (Inl e, s'))"
  proof cases
    case (2 version)
    then show ?thesis by (cases version) (auto simp: recover_version_def action_simps split: prod.splits)
  qed simp
  then have "same_documents s s'"
    by (auto dest!: rescue_cases commit_result simp: same_documents_def)
  with Inl show ?thesis by simp
next
  case (Inr p)
  obtain c ws where p: "p = (c, ws)" by (cases p)
  then have "recover_from_candidate v discard s = (Inr (c, ws), s')" using assms Inr by simp
  then obtain version where "recover_version v discard version s = (Inr (c, ws), s')"
    by (auto simp: recover_from_candidate_def action_simps)
  then obtain src ov u w ws' where
    c: "recovered_config v ov src s = Inr c" and r: "rescue s = (Inr (), u)"
    and commit: "commit_with_overrides v c (protect_all ov c) (Some w) u = (Inr ws', s')"
    by (cases version) (auto simp: recover_version_def action_simps split: prod.splits)
  from rescue_cases [OF r] have u: "same_documents s u" "saved_revision u = saved_revision s"
    "sf_rescued u = sf_rescued s @ [(sf_config s, sf_snapshot s)]"
    by (auto intro: saved_revision_cong)
  from commit_result [OF commit] have "committed v c (protect_all ov c) u s'" by simp
  with u rescued_commit [OF commit] recovered_config_result [OF c] Inr p show ?thesis by auto
qed


section \<open>A sample recovery\<close>

definition stopped :: "u64 \<Rightarrow> config \<Rightarrow> config" where
  "stopped r c = c\<lparr>forwards := map stop_rule (forwards c), revision := r\<rparr>"

text \<open>Stopping every rule never makes a valid configuration invalid.\<close>

lemma stop_rule_fields [simp]:
  "fs_id (stop_rule f) = fs_id f" "fs_name (stop_rule f) = fs_name f" "fs_group (stop_rule f) = fs_group f"
  "fs_tunnel (stop_rule f) = fs_tunnel f" "fs_server_id (stop_rule f) = fs_server_id f"
  "fs_desired_state (stop_rule f) = Stopped" "good_forward ids (stop_rule f) = good_forward ids f"
  by (simp_all add: stop_rule_def good_forward_def references_server_def referenced_server_ids_def)

lemma coexist_stopped: "coexist a b \<Longrightarrow> coexist (stop_rule a) (stop_rule b)"
proof -
  have "listeners_conflict (stop_rule a) (stop_rule b) = listeners_conflict a b"
    by (simp add: listeners_conflict_def same_side_def)
  then show "coexist a b \<Longrightarrow> coexist (stop_rule a) (stop_rule b)" by (simp add: coexist_def) blast
qed

lemma stopped_fields [simp]:
  "servers (stopped r c) = servers c" "forwards (stopped r c) = map stop_rule (forwards c)"
  "revision (stopped r c) = r" "schema_version (stopped r c) = schema_version c"
  "cfg_defaults (stopped r c) = cfg_defaults c"
  by (simp_all add: stopped_def)

lemma group_set_stopped: "group_set (map stop_rule fs) = group_set fs"
  by (simp add: group_set_def)

lemma wf_stopped:
  assumes "wf_config ua js c" and "unat r < 2 ^ 63" and "js (stopped r c) = js c"
  shows "wf_config ua js (stopped r c)"
proof -
  have "\<forall>(a, b)\<in>set (all_pairs (map stop_rule (forwards c))). coexist a b"
    using assms(1) coexist_stopped by (fastforce simp: wf_config_def all_pairs_map)
  with assms show ?thesis
    unfolding wf_config_def by (simp add: unambiguous_map group_set_stopped image_image)
qed

definition rescue_env :: store_env where
  "rescue_env = sample_env\<lparr>v_revision := (\<lambda>_. Some 7), v_text := (\<lambda>_. Some ''draft'')\<rparr>"

lemma sample_recovered: "recovered_config rescue_env [] ''draft'' sample_store = Inr (stopped 8 sample_draft)"
proof -
  have parsed: "parse_text rescue_env ''draft'' = Inr sample_draft"
    using sample_parse_text(2) by (simp add: rescue_env_def parse_text_def)
  have norm: "normalized rescue_env sample_draft = Inr sample_draft"
    using sample_normalized [of sample_draft] by (simp add: rescue_env_def normalized_def sample_draft_def)
  have "apply_overrides [] sample_draft = sample_draft"
    by (simp add: apply_overrides_def sample_draft_def sample_config_def List.map_filter_simps obey_def)
  moreover have "snapshot_revision rescue_env None sample_store = Inr (Some 7)"
    by (simp add: snapshot_revision_def sample_store_def read_text_def MAX_CONFIG_BYTES_def rescue_env_def or_else_def)
  then have "recovery_revision rescue_env (revision sample_draft) sample_store = Inr 8"
    by (simp add: recovery_revision_def saved_revision_def sample_draft_def sample_config_def checked_add_def)
      (simp add: sample_store_def)
  moreover have "stopped 8 sample_draft = stopped 8 sample_config"
    by (simp add: stopped_def sample_draft_def sample_config_def stop_rule_def)
  then have "wf_config no_ext small_json (stopped 8 sample_draft)"
    using wf_stopped [OF sample_wf, of 8] by (simp add: small_json_def)
  then have "checked rescue_env (stopped 8 sample_draft) = Inr (stopped 8 sample_draft)"
    by (simp add: checked_Inr rescue_env_def)
  ultimately show ?thesis
    by (simp add: recovered_config_def parsed norm stopped_def)
qed

lemma sample_salvage: "salvage_intent rescue_env False sample_store = Inr ([], [])"
proof -
  have "read_overrides rescue_env (Some ''plain'') = Inr []"
    by (simp add: read_overrides_def read_text_def MAX_CONFIG_BYTES_def str_lines_def PREFIX_def)
  then show ?thesis by (simp add: salvage_intent_def readable_intent_def sample_store_def)
qed

lemma sample_commits:
  assumes "checked v c = Inr c" and "revision c = 8" and "v_text v c = Some ''draft''"
    and "length (snapshot_text v ov ''draft'') \<le> MAX_CONFIG_BYTES"
  shows "\<exists>ws t. commit_with_overrides v c ov (Some (Present ''draft'')) (sample_store\<lparr>sf_rescued := x\<rparr>) = (Inr ws, t)"
proof -
  have "reserve_revision 8 (sample_store\<lparr>sf_rescued := x\<rparr>) =
      (Inr (), sample_store\<lparr>sf_rescued := x, sf_revision := Some (show_word (8 :: u64))\<rparr>)"
    by (simp add: reserve_revision_def sbind_def sask_def saved_revision_def sample_store_def publish_def
        next_outcome_def slift_def)
  then show ?thesis
    using assms by (simp add: commit_with_overrides_def sbind_def slift_def write_snapshot_def publish_def
        next_outcome_def not_less split: prod.split)
      (simp add: sample_store_def)
qed

lemma sample_recovery_commits:
  "\<exists>ws t. commit_with_overrides rescue_env (stopped 8 sample_draft) ov (Some (Present ''draft''))
     (sample_store\<lparr>sf_rescued := x\<rparr>) = (Inr ws, t)"
proof (rule sample_commits)
  show "checked rescue_env (stopped 8 sample_draft) = Inr (stopped 8 sample_draft)"
    using sample_recovered by (auto simp: recovered_config_def result_simps Let_def checked_def)
qed (simp_all add: rescue_env_def snapshot_text_def PREFIX_def MAX_CONFIG_BYTES_def)


end
