(* ===== verification/Protocol.thy ===== *)
theory Protocol
  imports Lifecycle Store
begin

text \<open>
  Requests of the control protocol, \<open>crates/fwm-api/src/protocol.rs\<close>: the commands, which of
  them change the configuration, and the errors a daemon or the offline client answers with.
  An error is a constructor for each place that builds one; \<open>code\<close> is the text it carries.
\<close>

definition API_VERSION :: u32 where
  "API_VERSION = 2"

datatype command =
    Ping
  | GetConfig
  | PutServer server_profile
  | RemoveServer string
  | PutForward forward_spec
  | PutForwardWithServer forward_spec "server_profile option" "server_profile option"
  | PutForwardsWithServer "forward_spec list" "server_profile option" "server_profile option"
  | CreateForwards "forward_spec list" "server_profile option" "server_profile option"
  | RemoveForward string
  | RemoveForwards selection
  | SetDesired selection desired_state
  | RetryRules selection
  | RestartRules selection
  | QueryStatus
  | StatusView "selection option"
  | Events u64
  | Reload
  | ValidateDraft
  | Doctor "string option"
  | InspectHost string
  | InspectHostProfile server_profile
  | InspectHopProfile server_profile string
  | TrustHopProfile server_profile string string
  | TrustHostProfile server_profile string
  | DoctorProfile server_profile
  | TrustHost string string
  | Shutdown

fun mutates_config :: "command \<Rightarrow> bool" where
  "mutates_config (PutServer _) = True"
| "mutates_config (RemoveServer _) = True"
| "mutates_config (PutForward _) = True"
| "mutates_config (PutForwardWithServer _ _ _) = True"
| "mutates_config (PutForwardsWithServer _ _ _) = True"
| "mutates_config (CreateForwards _ _ _) = True"
| "mutates_config (RemoveForward _) = True"
| "mutates_config (RemoveForwards _) = True"
| "mutates_config (SetDesired _ _) = True"
| "mutates_config (RestartRules _) = True"
| "mutates_config Reload = True"
| "mutates_config _ = False"

record request =
  rq_version :: u32
  rq_id :: string
  rq_expected :: "u64 option"
  rq_command :: command

datatype api_error =
    SelectorUnknown select_error
  | ServerNotFound
  | ForwardGone string
  | ServerInUse
  | EmptyBatch
  | EmptyEdit
  | RepeatedForward
  | UnusedServer
  | NotAChange
  | BadRequestId
  | UnexpectedRequest
  | ServerExists string
  | ForwardExists string
  | ConfigRejected config_error
  | DraftRejected store_error
  | StorageFailed store_error
  | DraftPending
  | RevisionExhausted
  | RevisionConflict u64
  | VersionMismatch
  | RequestIdReused
  | RuntimeFailed engine_error
  | EncodingFailed
  | ResponseTooLarge
  | ProbeFailed string string

fun code :: "api_error \<Rightarrow> string" where
  "code (SelectorUnknown _) = ''not_found''"
| "code ServerNotFound = ''not_found''"
| "code (ForwardGone _) = ''not_found''"
| "code ServerInUse = ''server_in_use''"
| "code EmptyBatch = ''invalid_request''"
| "code EmptyEdit = ''invalid_request''"
| "code RepeatedForward = ''invalid_request''"
| "code UnusedServer = ''invalid_request''"
| "code NotAChange = ''invalid_request''"
| "code BadRequestId = ''invalid_request''"
| "code UnexpectedRequest = ''invalid_request''"
| "code (ServerExists _) = ''already_exists''"
| "code (ForwardExists _) = ''already_exists''"
| "code (ConfigRejected _) = ''invalid_config''"
| "code (DraftRejected _) = ''invalid_config''"
| "code (StorageFailed _) = ''storage_error''"
| "code DraftPending = ''config_pending_edits''"
| "code RevisionExhausted = ''revision_exhausted''"
| "code (RevisionConflict _) = ''revision_conflict''"
| "code VersionMismatch = ''version_mismatch''"
| "code RequestIdReused = ''request_id_conflict''"
| "code (RuntimeFailed _) = ''runtime_error''"
| "code EncodingFailed = ''internal_error''"
| "code ResponseTooLarge = ''response_too_large''"
| "code (ProbeFailed c _) = c"

end
