(* ===== verification/Change.thy ===== *)
theory Change
  imports Protocol
begin

text \<open>
  Configuration changes shared by the daemon and the offline client,
  \<open>crates/fwm/src/configuration.rs\<close> and \<open>configuration/batch.rs\<close>: a command is applied to a copy
  of the configuration and the result validated, before anything is stored or started.
\<close>

section \<open>Batches\<close>

text \<open>\<open>if let Some(existing) = iter_mut().find(..) { *existing = x } else { push(x) }\<close>.\<close>

definition put :: "('a \<Rightarrow> string) \<Rightarrow> 'a \<Rightarrow> 'a list \<Rightarrow> 'a list" where
  "put key x xs =
     (if List.find (\<lambda>y. key y = key x) xs \<noteq> None then replace_first (\<lambda>y. key y = key x) x xs else xs @ [x])"

definition insert_server :: "config \<Rightarrow> server_profile \<Rightarrow> bool \<Rightarrow> api_error + config" where
  "insert_server c s referenced =
     (case List.find (\<lambda>e. sp_id e = sp_id s \<or> sp_name e = sp_name s) (servers c) of
        Some existing \<Rightarrow> Inl (ServerExists (sp_name existing))
      | None \<Rightarrow>
          if \<not> referenced then Inl UnusedServer
          else Inr (c\<lparr>servers := servers c @ [s]\<rparr>))"

fun insert_servers :: "forward_spec list \<Rightarrow> server_profile list \<Rightarrow> config \<Rightarrow> api_error + config" where
  "insert_servers fs [] c = Inr c"
| "insert_servers fs (s # ss) c =
     rbind (insert_server c s (sp_id s \<in> set (concat (map referenced_server_ids fs))))
       (\<lambda>c. insert_servers fs ss c)"

definition not_existing :: "config \<Rightarrow> forward_spec \<Rightarrow> api_error + unit" where
  "not_existing c f =
     (case List.find (\<lambda>e. fs_id e = fs_id f \<or> fs_name e = fs_name f) (forwards c) of
        Some existing \<Rightarrow> Inl (ForwardExists (fs_name existing))
      | None \<Rightarrow> Inr ())"

definition append_new ::
    "(nat \<Rightarrow> bool) \<Rightarrow> (config \<Rightarrow> nat option) \<Rightarrow> config \<Rightarrow> forward_spec list \<Rightarrow> server_profile list \<Rightarrow>
       api_error + config" where
  "append_new ua js c fs ss =
     rbind (rguard (fs = []) EmptyBatch) (\<lambda>_.
     rbind (insert_servers fs ss c) (\<lambda>c.
     rbind (try_each (not_existing c) fs) (\<lambda>_.
     let c' = c\<lparr>forwards := forwards c @ fs\<rparr> in
     rbind (map_err ConfigRejected (validate ua js c')) (\<lambda>_. Inr c'))))"

fun check_edit :: "config \<Rightarrow> string set \<Rightarrow> forward_spec list \<Rightarrow> api_error + unit" where
  "check_edit c ids [] = Inr ()"
| "check_edit c ids (f # fs) =
     (if fs_id f \<in> ids then Inl RepeatedForward
      else if \<not> (\<exists>e \<in> set (forwards c). fs_id e = fs_id f) then Inl (ForwardGone (fs_name f))
      else check_edit c (insert (fs_id f) ids) fs)"

definition replace_rule :: "config \<Rightarrow> forward_spec \<Rightarrow> config" where
  "replace_rule c f = c\<lparr>forwards := replace_first (\<lambda>e. fs_id e = fs_id f) f (forwards c)\<rparr>"

definition replace_batch ::
    "(nat \<Rightarrow> bool) \<Rightarrow> (config \<Rightarrow> nat option) \<Rightarrow> config \<Rightarrow> forward_spec list \<Rightarrow> server_profile list \<Rightarrow>
       api_error + config" where
  "replace_batch ua js c fs ss =
     rbind (rguard (fs = []) EmptyEdit) (\<lambda>_.
     rbind (check_edit c {} fs) (\<lambda>_.
     rbind (insert_servers fs ss c) (\<lambda>c.
     let c' = foldl replace_rule c fs in
     rbind (map_err ConfigRejected (validate ua js c')) (\<lambda>_. Inr c'))))"

definition saved_message :: "forward_spec list \<Rightarrow> string" where
  "saved_message fs =
     (let running = length (filter (\<lambda>f. fs_desired_state f = Running) fs)
      in show_nat (length fs) @ '' forward(s) saved (running: '' @ show_nat running @
         '', stopped: '' @ show_nat (length fs - running) @ '')'')"

section \<open>Commands\<close>

record change =
  ch_config :: config
  ch_selected :: "string list option"
  ch_message :: string

definition resolve_ids :: "config \<Rightarrow> selection \<Rightarrow> api_error + string list" where
  "resolve_ids c sel = map_err SelectorUnknown (resolve sel c)"

definition remove_ids :: "config \<Rightarrow> selection \<Rightarrow> api_error + (config \<times> string list option \<times> string)" where
  "remove_ids c sel =
     rbind (resolve_ids c sel) (\<lambda>ids.
     Inr (c\<lparr>forwards := filter (\<lambda>f. fs_id f \<notin> set ids) (forwards c)\<rparr>, Some ids,
          show_nat (length ids) @ '' forward(s) removed''))"

definition set_state :: "string list \<Rightarrow> desired_state \<Rightarrow> forward_spec \<Rightarrow> forward_spec" where
  "set_state ids st f = (if fs_id f \<in> set ids then f\<lparr>fs_desired_state := st\<rparr> else f)"

definition set_ids ::
    "config \<Rightarrow> selection \<Rightarrow> desired_state \<Rightarrow> string \<Rightarrow> api_error + (config \<times> string list option \<times> string)" where
  "set_ids c sel st verb =
     rbind (resolve_ids c sel) (\<lambda>ids.
     Inr (c\<lparr>forwards := map (set_state ids st) (forwards c)\<rparr>, Some ids,
          verb @ '' requested for '' @ show_nat (length ids) @ '' forward(s)''))"

fun edit ::
    "(nat \<Rightarrow> bool) \<Rightarrow> (config \<Rightarrow> nat option) \<Rightarrow> config \<Rightarrow> command \<Rightarrow>
       api_error + (config \<times> string list option \<times> string)" where
  "edit ua js c (PutServer s) = Inr (c\<lparr>servers := put sp_id s (servers c)\<rparr>, None, ''server saved'')"
| "edit ua js c (RemoveServer selector) =
     rbind (ok_or (server c selector) ServerNotFound) (\<lambda>s.
     rbind (rguard (\<exists>f \<in> set (forwards c). references_server f (sp_id s)) ServerInUse) (\<lambda>_.
     Inr (c\<lparr>servers := filter (\<lambda>e. sp_id e \<noteq> sp_id s) (servers c)\<rparr>, None, ''server removed'')))"
| "edit ua js c (PutForward f) = Inr (c\<lparr>forwards := put fs_id f (forwards c)\<rparr>, None, ''forward saved'')"
| "edit ua js c (PutForwardWithServer f s t) =
     rbind (replace_batch ua js c [f] (option_list s @ option_list t)) (\<lambda>c. Inr (c, None, ''forward saved''))"
| "edit ua js c (PutForwardsWithServer fs s t) =
     rbind (replace_batch ua js c fs (option_list s @ option_list t)) (\<lambda>c. Inr (c, None, saved_message fs))"
| "edit ua js c (CreateForwards fs s t) =
     rbind (append_new ua js c fs (option_list s @ option_list t)) (\<lambda>c. Inr (c, None, saved_message fs))"
| "edit ua js c (RemoveForward selector) = remove_ids c (SelForward selector)"
| "edit ua js c (RemoveForwards sel) = remove_ids c sel"
| "edit ua js c (SetDesired sel st) = set_ids c sel st (if st = Stopped then ''Stop'' else ''Start'')"
| "edit ua js c (RestartRules sel) = set_ids c sel Running ''Restart''"
| "edit ua js c _ = Inl NotAChange"

definition prepare ::
    "(nat \<Rightarrow> bool) \<Rightarrow> (config \<Rightarrow> nat option) \<Rightarrow> config \<Rightarrow> command \<Rightarrow> api_error + change" where
  "prepare ua js before command =
     rbind (edit ua js before command) (\<lambda>(c, selected, message).
     rbind (map_err ConfigRejected (validate ua js c)) (\<lambda>_.
     Inr \<lparr>ch_config = c, ch_selected = selected, ch_message = message\<rparr>))"

section \<open>The abstract configuration\<close>

text \<open>
  A configuration as two maps from ids, and what a command does to them. A command with a
  selector acts on the rules it denotes in the configuration it was given.
\<close>

definition by_key :: "('a \<Rightarrow> string) \<Rightarrow> 'a list \<Rightarrow> string \<rightharpoonup> 'a" where
  "by_key key xs = map_of (map (\<lambda>x. (key x, x)) xs)"

type_synonym catalog = "(string \<rightharpoonup> server_profile) \<times> (string \<rightharpoonup> forward_spec)"

definition catalog :: "config \<Rightarrow> catalog" where
  "catalog c = (by_key sp_id (servers c), by_key fs_id (forwards c))"

definition update_where :: "('a \<Rightarrow> 'a option) \<Rightarrow> (string \<rightharpoonup> 'a) \<Rightarrow> string \<rightharpoonup> 'a" where
  "update_where g m i = Option.bind (m i) g"

definition with_batch :: "forward_spec list \<Rightarrow> server_profile list \<Rightarrow> catalog \<Rightarrow> catalog" where
  "with_batch fs ss = map_prod (\<lambda>p. p ++ by_key sp_id ss) (\<lambda>r. r ++ by_key fs_id fs)"

definition without_rules :: "config \<Rightarrow> selection \<Rightarrow> catalog \<Rightarrow> catalog" where
  "without_rules c sel = map_prod id (update_where (\<lambda>f. if denotes c sel f then None else Some f))"

definition with_state :: "config \<Rightarrow> selection \<Rightarrow> desired_state \<Rightarrow> catalog \<Rightarrow> catalog" where
  "with_state c sel st =
     map_prod id (update_where (\<lambda>f. Some (if denotes c sel f then f\<lparr>fs_desired_state := st\<rparr> else f)))"

fun effect :: "config \<Rightarrow> command \<Rightarrow> catalog \<Rightarrow> catalog" where
  "effect c (PutServer s) = map_prod (\<lambda>p. p(sp_id s \<mapsto> s)) id"
| "effect c (RemoveServer sel) =
     map_prod (update_where (\<lambda>s. if sp_id s = sel \<or> sp_name s = sel then None else Some s)) id"
| "effect c (PutForward f) = map_prod id (\<lambda>r. r(fs_id f \<mapsto> f))"
| "effect c (PutForwardWithServer f s t) = with_batch [f] (option_list s @ option_list t)"
| "effect c (PutForwardsWithServer fs s t) = with_batch fs (option_list s @ option_list t)"
| "effect c (CreateForwards fs s t) = with_batch fs (option_list s @ option_list t)"
| "effect c (RemoveForward sel) = without_rules c (SelForward sel)"
| "effect c (RemoveForwards sel) = without_rules c sel"
| "effect c (SetDesired sel st) = with_state c sel st"
| "effect c (RestartRules sel) = with_state c sel Running"
| "effect c _ = id"

section \<open>Lists by key\<close>

lemma by_key_simps [simp]:
  "by_key k [] = Map.empty" "by_key k (x # xs) = (by_key k xs)(k x \<mapsto> x)"
  by (simp_all add: by_key_def)

lemma by_key_append: "by_key k (xs @ ys) = by_key k ys ++ by_key k xs"
  by (simp add: by_key_def)

lemma by_key_Some: "by_key k xs i = Some x \<Longrightarrow> x \<in> set xs \<and> k x = i"
  by (induction xs) (auto split: if_splits)

lemma by_key_None: "by_key k xs i = None \<longleftrightarrow> i \<notin> k ` set xs"
  by (induction xs) auto

lemma by_key_distinct: "distinct (map k xs) \<Longrightarrow> x \<in> set xs \<Longrightarrow> by_key k xs (k x) = Some x"
  by (induction xs) (auto simp: image_iff)

lemma by_key_replace_first:
  "k x \<in> k ` set xs \<Longrightarrow> by_key k (replace_first (\<lambda>y. k y = k x) x xs) = (by_key k xs)(k x \<mapsto> x)"
  by (induction xs) (auto simp: fun_eq_iff)

lemma by_key_put: "by_key k (put k x xs) = (by_key k xs)(k x \<mapsto> x)"
proof (cases "List.find (\<lambda>y. k y = k x) xs")
  case None
  then have "by_key k xs (k x) = None" by (auto simp: by_key_None find_None_iff)
  then have "by_key k (xs @ [x]) = (by_key k xs)(k x \<mapsto> x)"
    by (auto simp: by_key_append fun_eq_iff map_add_def split: option.split)
  with None show ?thesis by (simp add: put_def)
next
  case (Some y)
  then have "k x \<in> k ` set xs" by (auto dest!: find_SomeD intro: rev_image_eqI)
  with Some show ?thesis by (simp add: put_def by_key_replace_first)
qed

lemma by_key_update:
  assumes "distinct (map k xs)" and "\<And>x y. x \<in> set xs \<Longrightarrow> g x = Some y \<Longrightarrow> k y = k x"
  shows "by_key k (List.map_filter g xs) = update_where g (by_key k xs)"
  using assms
proof (induction xs)
  case Nil
  then show ?case by (simp add: update_where_def fun_eq_iff List.map_filter_simps)
next
  case (Cons x xs)
  then have ih: "by_key k (List.map_filter g xs) = update_where g (by_key k xs)" and new: "k x \<notin> k ` set xs"
    by auto
  have "by_key k xs (k x) = None" using new by (simp add: by_key_None)
  then show ?case
    using ih Cons.prems(2) [of x]
    by (auto simp: List.map_filter_simps update_where_def fun_eq_iff split: option.split)
qed

lemma map_filter_filter: "filter P xs = List.map_filter (\<lambda>x. if P x then Some x else None) xs"
  by (induction xs) (auto simp: List.map_filter_simps)

lemma map_filter_map: "map h xs = List.map_filter (\<lambda>x. Some (h x)) xs"
  by (simp add: List.map_filter_def)

section \<open>Each command has its effect\<close>

lemma dom_by_key: "dom (by_key k xs) = k ` set xs"
  using by_key_None [of k xs] by (auto simp: dom_def)

lemma by_key_disjoint:
  "k ` set xs \<inter> k ` set ys = {} \<Longrightarrow> by_key k (xs @ ys) = by_key k xs ++ by_key k ys"
  unfolding by_key_append by (rule map_add_comm) (simp add: dom_by_key Int_commute)

lemma insert_server_Inr:
  "insert_server c s r = Inr c' \<longleftrightarrow>
     r \<and> sp_id s \<notin> sp_id ` set (servers c) \<and> sp_name s \<notin> sp_name ` set (servers c) \<and>
     c' = c\<lparr>servers := servers c @ [s]\<rparr>"
  by (auto simp: insert_server_def find_None_iff image_iff split: option.splits) (auto dest!: find_SomeD)

definition servers_fresh :: "config \<Rightarrow> forward_spec list \<Rightarrow> server_profile list \<Rightarrow> bool" where
  "servers_fresh c fs ss =
     (distinct (map sp_id ss) \<and> distinct (map sp_name ss) \<and>
      sp_id ` set ss \<inter> sp_id ` set (servers c) = {} \<and> sp_name ` set ss \<inter> sp_name ` set (servers c) = {} \<and>
      (\<forall>s \<in> set ss. \<exists>f \<in> set fs. references_server f (sp_id s)))"

lemma insert_servers_Inr:
  "insert_servers fs ss c = Inr c' \<longleftrightarrow> servers_fresh c fs ss \<and> c' = c\<lparr>servers := servers c @ ss\<rparr>"
proof (induction ss arbitrary: c)
  case Nil
  then show ?case by (auto simp: servers_fresh_def)
next
  case (Cons s ss)
  then show ?case
    by (auto simp: result_simps insert_server_Inr servers_fresh_def references_server_def)
qed

lemma ex_key: "(\<exists>e \<in> xs. k e = v) \<longleftrightarrow> v \<in> k ` xs"
  by auto

lemma find_either: "List.find (\<lambda>e. i e = a \<or> n e = b) xs = None \<longleftrightarrow> a \<notin> i ` set xs \<and> b \<notin> n ` set xs"
  by (auto simp: find_None_iff)

lemma not_existing_Inr:
  "not_existing c f = Inr () \<longleftrightarrow> fs_id f \<notin> fs_id ` set (forwards c) \<and> fs_name f \<notin> fs_name ` set (forwards c)"
  unfolding find_either [symmetric] not_existing_def by (auto split: option.split)

lemma append_new_Inr:
  "append_new ua js c fs ss = Inr c' \<longleftrightarrow>
     fs \<noteq> [] \<and> servers_fresh c fs ss \<and>
     fs_id ` set fs \<inter> fs_id ` set (forwards c) = {} \<and> fs_name ` set fs \<inter> fs_name ` set (forwards c) = {} \<and>
     c' = c\<lparr>servers := servers c @ ss, forwards := forwards c @ fs\<rparr> \<and> wf_config ua js c'"
  by (auto simp: append_new_def result_simps insert_servers_Inr not_existing_Inr validate_iff_wf Let_def)

lemma check_edit_Inr:
  "check_edit c ids fs = Inr () \<longleftrightarrow>
     distinct (map fs_id fs) \<and> fs_id ` set fs \<inter> ids = {} \<and> fs_id ` set fs \<subseteq> fs_id ` set (forwards c)"
proof (induction c ids fs rule: check_edit.induct)
  case (2 c ids f fs)
  then show ?case by (auto simp: ex_key)
qed simp

lemma replace_rules_frame:
  "fs_id ` set (forwards (foldl replace_rule c fs)) = fs_id ` set (forwards c) \<and>
   servers (foldl replace_rule c fs) = servers c"
  by (induction fs arbitrary: c) (auto simp: replace_rule_def map_replace_first simp flip: set_map)

lemma replace_rules_by_key:
  assumes "distinct (map fs_id fs)" and "fs_id ` set fs \<subseteq> fs_id ` set (forwards c)"
  shows "by_key fs_id (forwards (foldl replace_rule c fs)) = by_key fs_id (forwards c) ++ by_key fs_id fs"
  using assms
proof (induction fs arbitrary: c)
  case Nil
  then show ?case by simp
next
  case (Cons f fs)
  have keys: "fs_id ` set (forwards (replace_rule c f)) = fs_id ` set (forwards c)"
    using replace_rules_frame [of c "[f]"] by simp
  have new: "by_key fs_id fs (fs_id f) = None" using Cons.prems(1) by (simp add: by_key_None)
  have "by_key fs_id (forwards (foldl replace_rule (replace_rule c f) fs)) =
      by_key fs_id (forwards (replace_rule c f)) ++ by_key fs_id fs"
    using Cons.prems keys by (intro Cons.IH) auto
  also have "by_key fs_id (forwards (replace_rule c f)) = (by_key fs_id (forwards c))(fs_id f \<mapsto> f)"
    using Cons.prems(2) by (simp add: replace_rule_def by_key_replace_first)
  also have "(by_key fs_id (forwards c))(fs_id f \<mapsto> f) ++ by_key fs_id fs =
      by_key fs_id (forwards c) ++ by_key fs_id (f # fs)"
    using new by (auto simp: fun_eq_iff map_add_def split: option.split)
  finally show ?case by (simp only: foldl_Cons)
qed

lemma replace_batch_result:
  assumes "replace_batch ua js c fs ss = Inr c'"
  shows "catalog c' = with_batch fs ss (catalog c)"
proof -
  from assms have fresh: "servers_fresh c fs ss" and e: "distinct (map fs_id fs)" "fs_id ` set fs \<subseteq> fs_id ` set (forwards c)"
    and c': "c' = foldl replace_rule (c\<lparr>servers := servers c @ ss\<rparr>) fs"
    by (auto simp: replace_batch_def result_simps insert_servers_Inr check_edit_Inr Let_def)
  have "sp_id ` set (servers c) \<inter> sp_id ` set ss = {}" using fresh by (auto simp: servers_fresh_def)
  with replace_rules_by_key [of fs "c\<lparr>servers := servers c @ ss\<rparr>"] e
    replace_rules_frame [of "c\<lparr>servers := servers c @ ss\<rparr>" fs]
  show ?thesis by (simp add: c' catalog_def with_batch_def by_key_disjoint)
qed

lemma append_new_result:
  assumes "append_new ua js c fs ss = Inr c'"
  shows "catalog c' = with_batch fs ss (catalog c)"
proof -
  have "sp_id ` set (servers c) \<inter> sp_id ` set ss = {}" "fs_id ` set (forwards c) \<inter> fs_id ` set fs = {}"
    and "c' = c\<lparr>servers := servers c @ ss, forwards := forwards c @ fs\<rparr>"
    using assms by (simp_all add: append_new_Inr servers_fresh_def Int_commute)
  then show ?thesis by (simp add: catalog_def with_batch_def by_key_disjoint)
qed

lemma resolved_rule:
  assumes "wf_config ua js c" and "resolve sel c = Inr ids" and "f \<in> set (forwards c)"
  shows "fs_id f \<in> set ids \<longleftrightarrow> denotes c sel f"
proof -
  have ids: "ids = map fs_id (filter (denotes c sel) (forwards c))" by (rule resolve_denotes [OF assms(1,2)])
  show ?thesis
  proof
    assume "fs_id f \<in> set ids"
    then obtain g where g: "g \<in> set (forwards c)" "denotes c sel g" "fs_id g = fs_id f" by (auto simp: ids)
    then have "g = f" using forwards_dir.entry_id_unique [OF assms(1) g(1) assms(3)] by simp
    with g show "denotes c sel f" by simp
  qed (use assms(3) in \<open>simp add: ids\<close>)
qed

lemma update_where_cong:
  assumes "\<And>i x. m i = Some x \<Longrightarrow> g x = h x"
  shows "update_where g m = update_where h m"
proof
  fix i
  show "update_where g m i = update_where h m i"
    using assms [of i] by (cases "m i") (simp_all add: update_where_def)
qed

text \<open>A list filtered or mapped at the rules a selection resolved to is an update of the map.\<close>

lemma by_key_resolved:
  assumes wf: "wf_config ua js c" and ids: "resolve sel c = Inr ids"
    and g: "\<And>f y. f \<in> set (forwards c) \<Longrightarrow> (if fs_id f \<in> set ids then g f else Some f) = Some y \<Longrightarrow> fs_id y = fs_id f"
  shows "by_key fs_id (List.map_filter (\<lambda>f. if fs_id f \<in> set ids then g f else Some f) (forwards c)) =
    update_where (\<lambda>f. if denotes c sel f then g f else Some f) (by_key fs_id (forwards c))"
proof -
  have "distinct (map fs_id (forwards c))"
    using forwards_dir.entries_unambiguous [OF wf] by (rule unambiguousD(1))
  then have "by_key fs_id (List.map_filter (\<lambda>f. if fs_id f \<in> set ids then g f else Some f) (forwards c)) =
      update_where (\<lambda>f. if fs_id f \<in> set ids then g f else Some f) (by_key fs_id (forwards c))"
    using g by (rule by_key_update)
  also have "\<dots> = update_where (\<lambda>f. if denotes c sel f then g f else Some f) (by_key fs_id (forwards c))"
    using resolved_rule [OF wf ids] by (intro update_where_cong) (auto dest!: by_key_Some)
  finally show ?thesis .
qed

lemma remove_ids_result:
  assumes wf: "wf_config ua js c" and r: "remove_ids c sel = Inr (c', selected, m)"
  shows "catalog c' = without_rules c sel (catalog c)"
proof -
  from r obtain ids where ids: "resolve sel c = Inr ids"
    and c': "c' = c\<lparr>forwards := filter (\<lambda>f. fs_id f \<notin> set ids) (forwards c)\<rparr>"
    by (auto simp: remove_ids_def resolve_ids_def result_simps)
  have "forwards c' = List.map_filter (\<lambda>f. if fs_id f \<in> set ids then None else Some f) (forwards c)"
    by (simp add: c' map_filter_filter if_not_P) (rule arg_cong [of _ _ "\<lambda>g. List.map_filter g (forwards c)"], auto)
  moreover have "by_key fs_id (List.map_filter (\<lambda>f. if fs_id f \<in> set ids then None else Some f) (forwards c)) =
      update_where (\<lambda>f. if denotes c sel f then None else Some f) (by_key fs_id (forwards c))"
    by (rule by_key_resolved [OF wf ids]) (simp split: if_splits)
  ultimately show ?thesis using c' by (simp add: catalog_def without_rules_def)
qed

lemma set_ids_result:
  assumes wf: "wf_config ua js c" and r: "set_ids c sel st verb = Inr (c', selected, m)"
  shows "catalog c' = with_state c sel st (catalog c)"
proof -
  from r obtain ids where ids: "resolve sel c = Inr ids"
    and c': "c' = c\<lparr>forwards := map (set_state ids st) (forwards c)\<rparr>"
    by (auto simp: set_ids_def resolve_ids_def result_simps)
  define g :: "forward_spec \<Rightarrow> forward_spec option" where "g = (\<lambda>f. Some (f\<lparr>fs_desired_state := st\<rparr>))"
  have "(\<lambda>f. Some (set_state ids st f)) = (\<lambda>f. if fs_id f \<in> set ids then g f else Some f)"
    by (auto simp: set_state_def g_def)
  then have "forwards c' = List.map_filter (\<lambda>f. if fs_id f \<in> set ids then g f else Some f) (forwards c)"
    by (simp add: c' map_filter_map)
  moreover have "(\<lambda>f. if denotes c sel f then g f else Some f) =
      (\<lambda>f. Some (if denotes c sel f then f\<lparr>fs_desired_state := st\<rparr> else f))"
    by (auto simp: g_def)
  moreover have "by_key fs_id (List.map_filter (\<lambda>f. if fs_id f \<in> set ids then g f else Some f) (forwards c)) =
      update_where (\<lambda>f. if denotes c sel f then g f else Some f) (by_key fs_id (forwards c))"
    by (rule by_key_resolved [OF wf ids]) (auto simp: g_def split: if_splits)
  ultimately show ?thesis using c' by (simp add: catalog_def with_state_def)
qed

section \<open>Properties\<close>

lemma removed_server:
  assumes wf: "wf_config ua js c" and s: "server c sel = Some s"
  shows "by_key sp_id (filter (\<lambda>e. sp_id e \<noteq> sp_id s) (servers c)) =
    update_where (\<lambda>e. if sp_id e = sel \<or> sp_name e = sel then None else Some e) (by_key sp_id (servers c))"
proof -
  have "distinct (map sp_id (servers c))"
    using servers_dir.entries_unambiguous [OF wf] by (rule unambiguousD(1))
  then have "by_key sp_id (filter (\<lambda>e. sp_id e \<noteq> sp_id s) (servers c)) =
      update_where (\<lambda>e. if sp_id e \<noteq> sp_id s then Some e else None) (by_key sp_id (servers c))"
    unfolding map_filter_filter by (rule by_key_update) (simp split: if_splits)
  also have "\<dots> = update_where (\<lambda>e. if sp_id e = sel \<or> sp_name e = sel then None else Some e) (by_key sp_id (servers c))"
  proof (rule update_where_cong)
    fix i e
    assume "by_key sp_id (servers c) i = Some e"
    then have e: "e \<in> set (servers c)" by (simp add: by_key_Some)
    have "sp_id e = sp_id s \<longleftrightarrow> sp_id e = sel \<or> sp_name e = sel"
      using e s server_iff [OF wf, of sel] servers_dir.entry_id_unique [OF wf e] by (metis option.inject)
    then show "(if sp_id e \<noteq> sp_id s then Some e else None) =
        (if sp_id e = sel \<or> sp_name e = sel then None else Some e)" by simp
  qed
  finally show ?thesis .
qed

lemma edit_result:
  assumes wf: "wf_config ua js c" and e: "edit ua js c cmd = Inr (c', selected, m)"
  shows "catalog c' = effect c cmd (catalog c)"
proof (cases cmd)
  case (PutServer s)
  with e show ?thesis by (auto simp: catalog_def by_key_put)
next
  case (RemoveServer sel)
  with e show ?thesis by (auto simp: result_simps catalog_def removed_server [OF wf])
next
  case (PutForward f)
  with e show ?thesis by (auto simp: catalog_def by_key_put)
next
  case (PutForwardWithServer f s t)
  with e show ?thesis by (auto simp: result_simps dest!: replace_batch_result)
next
  case (PutForwardsWithServer fs s t)
  with e show ?thesis by (auto simp: result_simps dest!: replace_batch_result)
next
  case (CreateForwards fs s t)
  with e show ?thesis by (auto simp: result_simps dest!: append_new_result)
next
  case (RemoveForward sel)
  with e remove_ids_result [OF wf] show ?thesis by simp
next
  case (RemoveForwards sel)
  with e remove_ids_result [OF wf] show ?thesis by simp
next
  case (SetDesired sel st)
  with e set_ids_result [OF wf] show ?thesis by simp
next
  case (RestartRules sel)
  with e set_ids_result [OF wf] show ?thesis by simp
qed (use e in simp_all)

definition same_frame :: "config \<Rightarrow> config \<Rightarrow> bool" where
  "same_frame c c' = (revision c' = revision c \<and> schema_version c' = schema_version c \<and> cfg_defaults c' = cfg_defaults c)"

lemma foldl_replace_frame: "same_frame c (foldl replace_rule c fs)"
  by (induction fs arbitrary: c) (simp_all add: same_frame_def replace_rule_def)

lemma edit_frame:
  assumes "edit ua js c cmd = Inr (c', selected, m)"
  shows "same_frame c c'"
proof -
  have batch: "replace_batch ua js c fs ss = Inr c' \<Longrightarrow> same_frame c c'" for fs ss
    using foldl_replace_frame [of "c\<lparr>servers := servers c @ ss\<rparr>" fs]
    by (auto simp: replace_batch_def result_simps insert_servers_Inr Let_def same_frame_def)
  show ?thesis
    using assms
    by (cases cmd) (auto simp: result_simps remove_ids_def set_ids_def append_new_Inr same_frame_def
        dest!: batch [unfolded same_frame_def])
qed

text \<open>
  Property C7. A prepared change refines its effect on the abstract configuration. Of a valid
  configuration it makes a valid one in which exactly the servers and rules the command names
  are added, replaced or removed, or have the state the command asks for; the rules of a
  selection are those it denotes. The revision and the defaults stay as they are.
\<close>

theorem prepare_refines_effect:
  assumes "wf_config ua js before" and "prepare ua js before cmd = Inr ch"
  shows "catalog (ch_config ch) = effect before cmd (catalog before) \<and>
    wf_config ua js (ch_config ch) \<and> same_frame before (ch_config ch)"
proof -
  from assms(2) obtain c selected m where e: "edit ua js before cmd = Inr (c, selected, m)"
    and ch: "ch_config ch = c" "wf_config ua js c"
    by (auto simp: prepare_def result_simps validate_iff_wf)
  show ?thesis using edit_result [OF assms(1) e] edit_frame [OF e] ch by simp
qed

lemma wf_filter:
  assumes "wf_config ua js c" and "js (c\<lparr>forwards := filter P (forwards c)\<rparr>) = js c"
  shows "wf_config ua js (c\<lparr>forwards := filter P (forwards c)\<rparr>)"
proof -
  have "unambiguous fs_id fs_name (filter P (forwards c))"
    using assms(1) by (simp add: wf_config_def unambiguous_def distinct_map_filter)
  moreover have "length (filter P (forwards c)) \<le> 512"
    using assms(1) le_trans [OF length_filter_le] by (auto simp: wf_config_def)
  moreover have "group_set (filter P (forwards c)) \<subseteq> group_set (forwards c)" by (auto simp: group_set_def)
  ultimately show ?thesis
    using assms by (auto simp: wf_config_def all_pairs_filter)
qed

lemma sample_removal:
  "prepare no_ext small_json sample_config (RemoveForwards (SelServer ''beta'')) =
     Inr \<lparr>ch_config = sample_config\<lparr>forwards := [sample_local, sample_remote]\<rparr>, ch_selected = Some [''f2'', ''f4''],
          ch_message = ''2 forward(s) removed''\<rparr>"
proof -
  have r: "resolve (SelServer ''beta'') sample_config = Inr [''f2'', ''f4'']"
    by (simp add: sample_defs select_server_forwards_def server_def lookup_by_def references_server_iff)
  have f: "filter (\<lambda>f. fs_id f \<notin> set [''f2'', ''f4'']) (forwards sample_config) = [sample_local, sample_remote]"
    by (simp add: sample_config_def) (simp add: sample_defs)
  have "wf_config no_ext small_json (sample_config\<lparr>forwards := [sample_local, sample_remote]\<rparr>)"
    using wf_filter [OF sample_wf, of "\<lambda>f. fs_id f \<notin> set [''f2'', ''f4'']"] unfolding f by (simp add: small_json_def)
  moreover have "show_nat (Suc (Suc 0)) = ''2''" by code_simp
  ultimately show ?thesis using r f
    by (simp add: prepare_def remove_ids_def resolve_ids_def validate_iff_wf [symmetric])
qed

theorem prepare_refines_effect_witness:
  "snd (effect sample_config (RemoveForwards (SelServer ''beta'')) (catalog sample_config)) ''f1'' = Some sample_local \<and>
   snd (effect sample_config (RemoveForwards (SelServer ''beta'')) (catalog sample_config)) ''f4'' = None"
proof -
  have "fs_id sample_local = ''f1''" "fs_id sample_remote = ''f3''" by (simp_all add: sample_local_def sample_remote_def)
  with conjunct1 [OF prepare_refines_effect [OF sample_wf sample_removal], symmetric]
  show ?thesis by (simp add: catalog_def)
qed

text \<open>
  Property C30. Creating rules never overwrites. It is accepted exactly when the batch is not
  empty, no rule or server of it bears the identity or the name of one that exists, every new
  server is used by the batch and the result is valid; what existed is then kept and the batch
  added at the end.
\<close>

theorem create_never_overwrites:
  "prepare ua js before (CreateForwards fs s t) = Inr ch \<longleftrightarrow>
     fs \<noteq> [] \<and> servers_fresh before fs (option_list s @ option_list t) \<and>
     fs_id ` set fs \<inter> fs_id ` set (forwards before) = {} \<and>
     fs_name ` set fs \<inter> fs_name ` set (forwards before) = {} \<and>
     ch = \<lparr>ch_config = before\<lparr>servers := servers before @ option_list s @ option_list t,
                                forwards := forwards before @ fs\<rparr>,
           ch_selected = None, ch_message = saved_message fs\<rparr> \<and>
     wf_config ua js (ch_config ch)"
  by (auto simp: prepare_def result_simps append_new_Inr validate_iff_wf)

end
