(* ===== verification/Journal.thy ===== *)
theory Journal
  imports HistoryLog Cursor
begin

text \<open>
  The event journal of the daemon, \<open>crates/fwm/src/daemon/events.rs\<close>: the retained events with
  their numbers, the catalogs of labels that events of deleted rules still need, and the reply
  to a client that asks for what is new. A \<open>HashMap\<close> is an association list; the order in which
  the labels of a configuration are iterated is the parameter \<open>iter\<close>.
\<close>

section \<open>State\<close>

definition RETAIN_EVENTS :: nat where
  "RETAIN_EVENTS = 2048"

definition MAX_CATALOG_LABELS :: nat where
  "MAX_CATALOG_LABELS = 8192"

type_synonym labels = "(string \<times> history_labels) list"

record journal =
  jo_instance :: string
  jo_disk :: disk
  jo_sequence :: u64
  jo_events :: "engine_event list"
  jo_labels :: labels
  jo_label_order :: "string list"
  jo_server_labels :: labels
  jo_server_order :: "string list"

definition no_labels :: history_labels where
  "no_labels =
     \<lparr>hl_forward_name = None, hl_server_id = None, hl_server_name = None, hl_group = None,
      hl_target_server_id = None, hl_target_server_name = None\<rparr>"

section \<open>Catalogs of labels\<close>

text \<open>
  The eviction loop pops the oldest id until the catalog fits. It would never end with an empty
  queue and a catalog too large, which is \<open>None\<close>.
\<close>

fun evict :: "string list \<Rightarrow> labels \<Rightarrow> (string list \<times> labels) option" where
  "evict order m =
     (if length m \<le> MAX_CATALOG_LABELS then Some (order, m)
      else (case order of [] \<Rightarrow> None | oldest # rest \<Rightarrow> evict rest (AList.delete oldest m)))"

declare evict.simps [simp del]

definition remember_in ::
    "string \<Rightarrow> history_labels \<Rightarrow> string list \<Rightarrow> labels \<Rightarrow> (string list \<times> labels) option" where
  "remember_in i l order m =
     evict (if i \<in> fst ` set m then order else order @ [i]) (AList.update i l m)"

definition remember :: "string \<Rightarrow> history_labels \<Rightarrow> journal \<Rightarrow> journal option" where
  "remember i l j =
     map_option (\<lambda>(order, m). j\<lparr>jo_label_order := order, jo_labels := m\<rparr>)
       (remember_in i l (jo_label_order j) (jo_labels j))"

definition remember_server :: "string \<Rightarrow> history_labels \<Rightarrow> journal \<Rightarrow> journal option" where
  "remember_server i l j =
     map_option (\<lambda>(order, m). j\<lparr>jo_server_order := order, jo_server_labels := m\<rparr>)
       (remember_in i (l\<lparr>hl_forward_name := None, hl_group := None\<rparr>) (jo_server_order j) (jo_server_labels j))"

definition set_server :: "server_profile \<Rightarrow> journal \<Rightarrow> journal option" where
  "set_server s =
     remember_server (sp_id s) (no_labels\<lparr>hl_server_id := Some (sp_id s), hl_server_name := Some (sp_name s)\<rparr>)"

fun for_each :: "('a \<Rightarrow> 's \<Rightarrow> 's option) \<Rightarrow> 'a list \<Rightarrow> 's \<Rightarrow> 's option" where
  "for_each f [] s = Some s"
| "for_each f (x # xs) s = Option.bind (f x s) (for_each f xs)"

definition set_config ::
    "((string \<rightharpoonup> history_labels) \<Rightarrow> labels) \<Rightarrow> config \<Rightarrow> journal \<Rightarrow> journal option" where
  "set_config iter c j =
     Option.bind (for_each set_server (servers c) j)
       (for_each (\<lambda>(i, l). remember i l) (iter (labels_from_config c)))"

definition restore_entry :: "history_entry \<Rightarrow> journal \<Rightarrow> journal option" where
  "restore_entry e j =
     Option.bind (case he_server_id e of None \<Rightarrow> Some j | Some i \<Rightarrow> remember_server i (from_entry e) j) (\<lambda>j.
     case ev_forward_id (he_event e) of
       Some i \<Rightarrow> if he_forward_name e \<noteq> None then remember i (from_entry e) j else Some j
     | None \<Rightarrow> Some j)"

definition new_journal ::
    "(string \<Rightarrow> history_entry option) \<Rightarrow> view list \<Rightarrow> string \<Rightarrow> disk \<Rightarrow> journal option" where
  "new_journal dec views inst d =
     for_each restore_entry
       (case read_history dec views of Inl _ \<Rightarrow> [] | Inr (es, _) \<Rightarrow> es)
       \<lparr>jo_instance = inst, jo_disk = d, jo_sequence = 0, jo_events = [], jo_labels = [], jo_label_order = [],
        jo_server_labels = [], jo_server_order = []\<rparr>"

section \<open>Recording\<close>

definition truncated_event :: "engine_event \<Rightarrow> engine_event" where
  "truncated_event e =
     (if MAX_MESSAGE_BYTES < length (ev_message e)
      then e\<lparr>ev_message := take (floor_boundary (ev_message e) MAX_MESSAGE_BYTES) (ev_message e) @ '' [truncated]''\<rparr>
      else e)"

definition persist ::
    "(history_entry \<Rightarrow> string option) \<Rightarrow> engine_event \<Rightarrow> journal \<Rightarrow> journal" where
  "persist enc event j =
     (let n = jo_sequence j + 1;
          e1 = (truncated_event event)\<lparr>ev_sequence := n\<rparr>;
          e = (case ev_context e1 of
                 None \<Rightarrow> e1
               | Some ctx \<Rightarrow> e1\<lparr>ev_server_id := or_else (ec_server_id ctx) (ev_server_id e1)\<rparr>);
          es = jo_events j @ [e]
      in j\<lparr>jo_sequence := n,
           jo_events := (if RETAIN_EVENTS < length es then tl es else es),
           jo_disk := (case append_history enc (jo_disk j) (new_entry (jo_instance j) e) of
                         Inl _ \<Rightarrow> jo_disk j | Inr d \<Rightarrow> d)\<rparr>)"

definition event_labels :: "string option \<Rightarrow> string option \<Rightarrow> journal \<Rightarrow> history_labels" where
  "event_labels fid sid j =
     (let found = Option.bind fid (map_of (jo_labels j));
          mine = (case found of
                    None \<Rightarrow> None
                  | Some l \<Rightarrow> if sid = None \<or> hl_server_id l = sid then Some l else None)
      in case or_else mine (Option.bind sid (map_of (jo_server_labels j))) of None \<Rightarrow> no_labels | Some l \<Rightarrow> l)"

definition record_scoped ::
    "(history_entry \<Rightarrow> string option) \<Rightarrow> u64 \<Rightarrow> string option \<Rightarrow> string option \<Rightarrow> string \<Rightarrow> journal \<Rightarrow> journal" where
  "record_scoped enc now fid sid msg j =
     (let l = event_labels fid sid j;
          has_context = (hl_forward_name l \<noteq> None \<or> hl_server_id l \<noteq> None \<or> hl_server_name l \<noteq> None \<or>
                         hl_group l \<noteq> None \<or> sid \<noteq> None)
      in persist enc
           \<lparr>ev_context =
              (if has_context
               then Some \<lparr>ec_forward_name = hl_forward_name l, ec_server_id = or_else sid (hl_server_id l),
                          ec_server_name = hl_server_name l, ec_group = hl_group l,
                          ec_target_server_id = hl_target_server_id l,
                          ec_target_server_name = hl_target_server_name l\<rparr>
               else None),
            ev_server_id = or_else sid (hl_server_id l), ev_sequence = 0, ev_timestamp_ms = now,
            ev_forward_id = fid, ev_message = msg\<rparr> j)"

definition record_event where
  "record_event enc now fid msg j = record_scoped enc now fid None msg j"

definition record_server where
  "record_server enc now sid msg j = record_scoped enc now None (Some sid) msg j"

definition record_engine where
  "record_engine enc e j = persist enc e j"

section \<open>Answering clients\<close>

record events_reply =
  er_instance :: string
  er_latest :: u64
  er_next :: u64
  er_has_more :: bool
  er_resync :: bool
  er_events :: "engine_event list"

fun within_budget :: "(engine_event \<Rightarrow> nat option) \<Rightarrow> nat \<Rightarrow> engine_event list \<Rightarrow> engine_event list" where
  "within_budget weigh bytes [] = []"
| "within_budget weigh bytes (e # es) =
     (let bytes' = bytes + (case weigh e of None \<Rightarrow> 8192 | Some n \<Rightarrow> n)
      in if bytes' \<le> 256 * 1024 then e # within_budget weigh bytes' es else [])"

definition since :: "(engine_event \<Rightarrow> nat option) \<Rightarrow> u64 \<Rightarrow> journal \<Rightarrow> events_reply" where
  "since weigh after j =
     (let latest = jo_sequence j;
          oldest = (case jo_events j of [] \<Rightarrow> latest + 1 | e # _ \<Rightarrow> ev_sequence e);
          wanted = filter (\<lambda>e. after < ev_sequence e \<or> latest < after) (jo_events j);
          es = within_budget weigh 0 wanted;
          blocked = (es = [] \<and> wanted \<noteq> []);
          next = (if es = [] then (if blocked then min after latest else latest) else ev_sequence (last es))
      in \<lparr>er_instance = jo_instance j, er_latest = latest, er_next = next, er_has_more = next < latest,
          er_resync = (blocked \<or> latest < after \<or> (after \<noteq> 0 \<and> saturating_add after 1 < oldest)),
          er_events = es\<rparr>)"

section \<open>The catalogs stay bounded\<close>

text \<open>The queue of a catalog holds exactly its ids, so that eviction always ends.\<close>

definition catalog_ok :: "string list \<Rightarrow> labels \<Rightarrow> bool" where
  "catalog_ok order m =
     (distinct order \<and> distinct (map fst m) \<and> set order = fst ` set m \<and> length m \<le> MAX_CATALOG_LABELS)"

lemma same_keys_length:
  assumes "distinct xs" and "distinct (map fst m)" and "set xs = fst ` set m"
  shows "length xs = length m"
  using assms distinct_card [of xs] distinct_card [of "map fst m"] by simp

lemma evict_one:
  assumes o: "distinct order" "distinct (map fst m)" "set order = fst ` set m"
    and len: "length m \<le> Suc MAX_CATALOG_LABELS"
  shows "\<exists>order' m'. evict order m = Some (order', m') \<and> catalog_ok order' m' \<and> set m' \<subseteq> set m"
proof (cases "length m \<le> MAX_CATALOG_LABELS")
  case True
  with o show ?thesis by (subst evict.simps) (simp add: catalog_ok_def)
next
  case False
  then have "order \<noteq> []" using same_keys_length [OF o] by auto
  then obtain x rest where order: "order = x # rest" by (cases order) auto
  have keys: "fst ` set (AList.delete x m) = set rest"
    using arg_cong [OF AList.delete_keys [of x m], of set] o order by auto
  have dist: "distinct (map fst (AList.delete x m))" using o(2) by (rule AList.distinct_delete)
  have "length (AList.delete x m) = length rest"
    using same_keys_length [of rest "AList.delete x m"] o(1) order dist keys by simp
  then have "length (AList.delete x m) \<le> MAX_CATALOG_LABELS"
    using same_keys_length [OF o] order len by simp
  with False order o(1) keys dist show ?thesis
    by (subst evict.simps, subst evict.simps) (auto simp: catalog_ok_def AList.delete_eq)
qed

lemma update_keys:
  "distinct (map fst m) \<Longrightarrow> distinct (map fst (AList.update i l m)) \<and>
     fst ` set (AList.update i l m) = insert i (fst ` set m) \<and>
     length (AList.update i l m) \<le> Suc (length m)"
  using AList.distinct_update [of m i l] arg_cong [OF AList.update_keys [of i l m], of set]
    arg_cong [OF AList.update_keys [of i l m], of length] by (auto split: if_splits)

lemma remember_in_ok:
  assumes "catalog_ok order m"
  shows "\<exists>order' m'. remember_in i l order m = Some (order', m') \<and> catalog_ok order' m'"
proof -
  have m: "distinct (map fst m)" "distinct order" "set order = fst ` set m" "length m \<le> MAX_CATALOG_LABELS"
    using assms by (auto simp: catalog_ok_def)
  note u = update_keys [OF m(1), of i l]
  have "\<exists>order' m'. evict (if i \<in> fst ` set m then order else order @ [i]) (AList.update i l m) = Some (order', m') \<and>
      catalog_ok order' m' \<and> set m' \<subseteq> set (AList.update i l m)"
    by (rule evict_one) (use m u in auto)
  then show ?thesis unfolding remember_in_def by blast
qed

section \<open>The journal invariant\<close>

definition journal_ok :: "journal \<Rightarrow> bool" where
  "journal_ok j =
     (catalog_ok (jo_label_order j) (jo_labels j) \<and> catalog_ok (jo_server_order j) (jo_server_labels j) \<and>
      length (jo_events j) = min (unat (jo_sequence j)) RETAIN_EVENTS \<and>
      map (unat \<circ> ev_sequence) (jo_events j) =
        [Suc (unat (jo_sequence j)) - length (jo_events j) ..< Suc (unat (jo_sequence j))])"

definition same_log :: "journal \<Rightarrow> journal \<Rightarrow> bool" where
  "same_log j j' = (jo_instance j' = jo_instance j \<and> jo_disk j' = jo_disk j \<and>
     jo_sequence j' = jo_sequence j \<and> jo_events j' = jo_events j)"

lemma same_log_refl [simp]: "same_log j j"
  by (simp add: same_log_def)

lemma same_log_trans: "same_log a b \<Longrightarrow> same_log b c \<Longrightarrow> same_log a c"
  by (simp add: same_log_def)

lemma remember_ok:
  "journal_ok j \<Longrightarrow> \<exists>j'. remember i l j = Some j' \<and> journal_ok j' \<and> same_log j j'"
  using remember_in_ok [of "jo_label_order j" "jo_labels j" i l]
  by (force simp: journal_ok_def remember_def same_log_def)

lemma remember_server_ok:
  "journal_ok j \<Longrightarrow> \<exists>j'. remember_server i l j = Some j' \<and> journal_ok j' \<and> same_log j j'"
  using remember_in_ok [of "jo_server_order j" "jo_server_labels j" i "l\<lparr>hl_forward_name := None, hl_group := None\<rparr>"]
  by (force simp: journal_ok_def remember_server_def same_log_def)

lemma for_each_ok:
  assumes "\<And>x j. journal_ok j \<Longrightarrow> \<exists>j'. f x j = Some j' \<and> journal_ok j' \<and> same_log j j'" and "journal_ok j"
  shows "\<exists>j'. for_each f xs j = Some j' \<and> journal_ok j' \<and> same_log j j'"
  using assms(2)
proof (induction xs arbitrary: j)
  case Nil
  then show ?case by simp
next
  case (Cons x xs)
  then show ?case using assms(1) [of j x] by (fastforce intro: same_log_trans)
qed

lemma set_config_ok:
  assumes "journal_ok j"
  shows "\<exists>j'. set_config iter c j = Some j' \<and> journal_ok j' \<and> same_log j j'"
proof -
  obtain k where k: "for_each set_server (servers c) j = Some k" "journal_ok k" "same_log j k"
    using for_each_ok [of set_server j] assms remember_server_ok unfolding set_server_def by blast
  have "\<exists>k'. for_each (\<lambda>(i, l). remember i l) (iter (labels_from_config c)) k = Some k' \<and> journal_ok k' \<and> same_log k k'"
    using remember_ok by (intro for_each_ok k(2)) auto
  with k show ?thesis by (auto simp: set_config_def intro: same_log_trans)
qed

lemma restore_entry_ok:
  assumes "journal_ok j"
  shows "\<exists>j'. restore_entry e j = Some j' \<and> journal_ok j' \<and> same_log j j'"
proof -
  obtain k where k: "(case he_server_id e of None \<Rightarrow> Some j | Some i \<Rightarrow> remember_server i (from_entry e) j) = Some k"
    "journal_ok k" "same_log j k"
    using assms remember_server_ok [OF assms] by (cases "he_server_id e") auto
  then show ?thesis
    using remember_ok [OF k(2), of _ "from_entry e"] same_log_trans [OF k(3)]
    by (fastforce simp: restore_entry_def split: option.split)
qed

lemma persist_ok:
  assumes "journal_ok j" and "unat (jo_sequence j) + 1 < 2 ^ 64"
  shows "journal_ok (persist enc e j) \<and> unat (jo_sequence (persist enc e j)) = unat (jo_sequence j) + 1"
proof -
  have n: "unat (jo_sequence j + 1) = unat (jo_sequence j) + 1"
    using assms(2) by (simp add: unat_word_ariths)
  obtain e' where e': "jo_events (persist enc e j) =
      (if RETAIN_EVENTS < length (jo_events j @ [e']) then tl (jo_events j @ [e']) else jo_events j @ [e'])"
    "ev_sequence e' = jo_sequence j + 1"
    by (simp add: persist_def Let_def split: option.split)
  let ?L = "length (jo_events j)" and ?s = "unat (jo_sequence j)"
  have old: "?L = min ?s RETAIN_EVENTS" "map (unat \<circ> ev_sequence) (jo_events j) = [Suc ?s - ?L ..< Suc ?s]"
    using assms(1) by (simp_all add: journal_ok_def)
  then have all: "map (unat \<circ> ev_sequence) (jo_events j @ [e']) = [Suc ?s - ?L ..< Suc (Suc ?s)]"
    by (simp add: e'(2) n)
  have fields: "jo_sequence (persist enc e j) = jo_sequence j + 1" "jo_labels (persist enc e j) = jo_labels j"
    "jo_label_order (persist enc e j) = jo_label_order j" "jo_server_labels (persist enc e j) = jo_server_labels j"
    "jo_server_order (persist enc e j) = jo_server_order j"
    by (simp_all add: persist_def Let_def)
  have "length (jo_events (persist enc e j)) = min (Suc ?s) RETAIN_EVENTS \<and>
      map (unat \<circ> ev_sequence) (jo_events (persist enc e j)) =
        [Suc (Suc ?s) - length (jo_events (persist enc e j)) ..< Suc (Suc ?s)]"
  proof (cases "RETAIN_EVENTS < Suc ?L")
    case True
    then have "jo_events (persist enc e j) = tl (jo_events j @ [e'])" by (simp add: e'(1))
    moreover have "map (unat \<circ> ev_sequence) (tl (jo_events j @ [e'])) = tl [Suc ?s - ?L ..< Suc (Suc ?s)]"
      by (simp only: map_tl all)
    moreover have "?L = RETAIN_EVENTS" "RETAIN_EVENTS \<le> ?s" using True old(1) by (auto simp: min_def split: if_splits)
    ultimately show ?thesis by (simp add: Suc_diff_le del: upt_Suc)
  next
    case False
    moreover from False have "?L = ?s" "Suc ?s \<le> RETAIN_EVENTS" using old(1) by (auto simp: min_def split: if_splits)
    ultimately show ?thesis using all by (simp add: e'(1) del: upt_Suc)
  qed
  with assms(1) fields n show ?thesis by (simp add: journal_ok_def del: upt_Suc)
qed

section \<open>Properties\<close>

fun apply_record ::
    "(history_entry \<Rightarrow> string option) \<Rightarrow> ((string \<rightharpoonup> history_labels) \<Rightarrow> labels) \<Rightarrow>
       config + engine_event \<Rightarrow> journal \<Rightarrow> journal option" where
  "apply_record enc iter (Inl c) j = set_config iter c j"
| "apply_record enc iter (Inr e) j = Some (record_engine enc e j)"

lemma journal_run:
  assumes "journal_ok j" and "unat (jo_sequence j) + length ops < 2 ^ 64"
  shows "\<exists>j'. for_each (apply_record enc iter) ops j = Some j' \<and> journal_ok j' \<and>
    unat (jo_sequence j') = unat (jo_sequence j) + length (filter (\<lambda>op. \<not> isl op) ops)"
  using assms
proof (induction ops arbitrary: j)
  case Nil
  then show ?case by simp
next
  case (Cons op ops)
  show ?case
  proof (cases op)
    case (Inl c)
    then show ?thesis using Cons.IH Cons.prems set_config_ok [OF Cons.prems(1), of iter c]
      by (fastforce simp: same_log_def)
  next
    case (Inr e)
    then show ?thesis using Cons.IH [of "persist enc e j"] Cons.prems persist_ok [of j enc e]
      by (auto simp: record_engine_def)
  qed
qed

lemma new_journal_ok: "\<exists>j. new_journal dec views inst d = Some j \<and> journal_ok j \<and> jo_sequence j = 0"
proof -
  define j0 where "j0 = \<lparr>jo_instance = inst, jo_disk = d, jo_sequence = 0, jo_events = [], jo_labels = [],
    jo_label_order = [], jo_server_labels = [], jo_server_order = []\<rparr>"
  define es where "es = (case read_history dec views of Inl _ \<Rightarrow> [] | Inr (es, _) \<Rightarrow> es)"
  have "journal_ok j0" "jo_sequence j0 = 0" by (simp_all add: journal_ok_def catalog_ok_def j0_def)
  moreover have "\<exists>j. for_each restore_entry es j0 = Some j \<and> journal_ok j \<and> same_log j0 j"
    using restore_entry_ok calculation(1) by (rule for_each_ok)
  moreover have "new_journal dec views inst d = for_each restore_entry es j0"
    by (simp add: new_journal_def es_def j0_def)
  ultimately show ?thesis by (auto simp: same_log_def)
qed

text \<open>
  Property C35. The journal is bounded, numbered without gaps and never hangs. Whatever the
  restored history and whatever configurations and events follow, every operation returns, the
  retained events are the last ones in sequence, at most 2048, and each catalog of labels holds
  at most 8192 ids.
\<close>

theorem journal_stays_bounded:
  assumes "length ops < 2 ^ 64 - 1"
  shows "\<exists>j. Option.bind (new_journal dec views inst d) (for_each (apply_record enc iter) ops) = Some j \<and>
    length (jo_events j) = min (unat (jo_sequence j)) RETAIN_EVENTS \<and>
    map (unat \<circ> ev_sequence) (jo_events j) =
      [Suc (unat (jo_sequence j)) - length (jo_events j) ..< Suc (unat (jo_sequence j))] \<and>
    length (jo_labels j) \<le> MAX_CATALOG_LABELS \<and> length (jo_server_labels j) \<le> MAX_CATALOG_LABELS"
proof -
  obtain j where j: "new_journal dec views inst d = Some j" "journal_ok j" "jo_sequence j = 0"
    using new_journal_ok by blast
  from assms j(3) have "unat (jo_sequence j) + length ops < 2 ^ 64" by simp
  from journal_run [OF j(2) this] obtain j' where "for_each (apply_record enc iter) ops j = Some j'" "journal_ok j'"
    by blast
  with j(1) show ?thesis unfolding journal_ok_def catalog_ok_def by (intro exI [of _ j']) simp
qed

lemma within_budget_take: "\<exists>k. within_budget weigh b es = take k es"
proof (induction es arbitrary: b)
  case Nil
  then show ?case by simp
next
  case (Cons e es)
  show ?case
  proof (cases "b + (case weigh e of None \<Rightarrow> 8192 | Some n \<Rightarrow> n) \<le> 256 * 1024")
    case True
    obtain k where "within_budget weigh (b + (case weigh e of None \<Rightarrow> 8192 | Some n \<Rightarrow> n)) es = take k es"
      using Cons.IH by blast
    with True have "within_budget weigh b (e # es) = take (Suc k) (e # es)" by simp
    then show ?thesis by blast
  next
    case False
    then have "within_budget weigh b (e # es) = take 0 (e # es)" by simp
    then show ?thesis by blast
  qed
qed

lemma filter_upt_above: "filter (\<lambda>n. m < n) [a ..< b] = [max a (Suc m) ..< b]"
proof (induction b)
  case 0
  then show ?case by simp
next
  case (Suc b)
  then show ?case by (auto simp: max_def)
qed

lemma wanted_sequences:
  assumes "journal_ok j"
  shows "map (unat \<circ> ev_sequence) (filter (\<lambda>e. after < ev_sequence e) (jo_events j)) =
    [max (Suc (unat (jo_sequence j)) - length (jo_events j)) (Suc (unat after)) ..< Suc (unat (jo_sequence j))]"
proof -
  have "map (unat \<circ> ev_sequence) (filter (\<lambda>e. after < ev_sequence e) (jo_events j)) =
      filter (\<lambda>n. unat after < n) (map (unat \<circ> ev_sequence) (jo_events j))"
    by (simp add: filter_map comp_def word_less_nat_alt)
  also have "\<dots> = filter (\<lambda>n. unat after < n) [Suc (unat (jo_sequence j)) - length (jo_events j) ..< Suc (unat (jo_sequence j))]"
    using assms by (simp add: journal_ok_def del: upt_Suc)
  finally show ?thesis unfolding filter_upt_above .
qed

lemma oldest_sequence:
  assumes "journal_ok j" and "unat (jo_sequence j) + 1 < 2 ^ 64"
  shows "unat (case jo_events j of [] \<Rightarrow> jo_sequence j + 1 | e # _ \<Rightarrow> ev_sequence e) =
    Suc (unat (jo_sequence j)) - length (jo_events j)"
proof (cases "jo_events j")
  case Nil
  then show ?thesis using assms(2) by (simp add: unat_word_ariths)
next
  case (Cons e es)
  have "hd (map (unat \<circ> ev_sequence) (jo_events j)) =
      hd [Suc (unat (jo_sequence j)) - length (jo_events j) ..< Suc (unat (jo_sequence j))]"
    using assms(1) by (simp add: journal_ok_def del: upt_Suc)
  moreover have "length (jo_events j) \<le> unat (jo_sequence j)" using assms(1) by (simp add: journal_ok_def)
  ultimately show ?thesis using Cons by (simp del: upt_Suc)
qed

definition first_new :: "u64 \<Rightarrow> journal \<Rightarrow> nat" where
  "first_new after j =
     (if after = 0 then Suc (unat (jo_sequence j)) - length (jo_events j) else Suc (unat after))"

definition sample_notice :: "u64 \<Rightarrow> engine_event" where
  "sample_notice n =
     \<lparr>ev_context = None, ev_server_id = None, ev_sequence = n, ev_timestamp_ms = 0, ev_forward_id = None,
      ev_message = ''started''\<rparr>"

theorem journal_stays_bounded_witness:
  "\<exists>j. Option.bind (new_journal (\<lambda>_. None) [] ''d1'' \<lparr>active = None, archived = None\<rparr>)
      (for_each (apply_record (\<lambda>_. None) (\<lambda>_. [])) [Inr (sample_notice 9), Inl default_config]) = Some j \<and>
    length (jo_events j) \<le> 2048"
proof -
  have "length [Inr (sample_notice 9), Inl default_config] < 2 ^ 64 - 1" by simp
  from journal_stays_bounded [OF this, of "\<lambda>_. None" "[]" "''d1''" "\<lparr>active = None, archived = None\<rparr>"
      "\<lambda>_. None" "\<lambda>_. []"]
  show ?thesis by (auto simp: RETAIN_EVENTS_def simp del: for_each.simps)
qed

text \<open>
  Property C26. A client that polls gets every event. Unless the reply asks it to start again,
  it holds events numbered without gaps, from the one after the position given (from the oldest
  kept for a new client) to the position returned; that position never goes back, moves on
  whenever there is something new, and has more after it exactly if it is not the latest.
\<close>

theorem since_without_gaps:
  assumes "journal_ok j" and "unat (jo_sequence j) + 1 < 2 ^ 64"
    and "r = since weigh after j" and "\<not> er_resync r"
  shows "map (unat \<circ> ev_sequence) (er_events r) = [first_new after j ..< Suc (unat (er_next r))] \<and>
    set (er_events r) \<subseteq> set (jo_events j) \<and> after \<le> er_next r \<and> er_next r \<le> jo_sequence j \<and>
    (after < jo_sequence j \<longrightarrow> after < er_next r) \<and> (er_has_more r \<longleftrightarrow> er_next r < jo_sequence j)"
proof -
  let ?s = "unat (jo_sequence j)" and ?L = "length (jo_events j)"
  define wanted where "wanted = filter (\<lambda>e. after < ev_sequence e) (jo_events j)"
  obtain k where k: "within_budget weigh 0 wanted = take k wanted" using within_budget_take by blast
  define es where "es = take k wanted"
  have le: "\<not> jo_sequence j < after" using assms(3,4) by (simp add: since_def Let_def)
  then have "filter (\<lambda>e. after < ev_sequence e \<or> jo_sequence j < after) (jo_events j) = wanted"
    by (simp add: wanted_def)
  then have since: "r = \<lparr>er_instance = jo_instance j, er_latest = jo_sequence j,
      er_next = (if es = [] then (if es = [] \<and> wanted \<noteq> [] then min after (jo_sequence j) else jo_sequence j)
                 else ev_sequence (last es)),
      er_has_more = (if es = [] then (if es = [] \<and> wanted \<noteq> [] then min after (jo_sequence j) else jo_sequence j)
                 else ev_sequence (last es)) < jo_sequence j,
      er_resync = (es = [] \<and> wanted \<noteq> [] \<or> jo_sequence j < after \<or> after \<noteq> 0 \<and>
        saturating_add after 1 < (case jo_events j of [] \<Rightarrow> jo_sequence j + 1 | e # _ \<Rightarrow> ev_sequence e)),
      er_events = es\<rparr>"
    unfolding assms(3) since_def Let_def es_def k [symmetric] by simp
  have r: "er_events r = es" "er_has_more r \<longleftrightarrow> er_next r < jo_sequence j"
    "er_next r = (if es = [] then (if wanted \<noteq> [] then min after (jo_sequence j) else jo_sequence j)
                  else ev_sequence (last es))"
    "\<not> (es = [] \<and> wanted \<noteq> [])"
    "after = 0 \<or> \<not> saturating_add after 1 < (case jo_events j of [] \<Rightarrow> jo_sequence j + 1 | e # _ \<Rightarrow> ev_sequence e)"
    using assms(4) unfolding since by auto
  have after: "unat after \<le> ?s" using le by (simp add: word_less_nat_alt)
  have L: "?L \<le> ?s" "?s = 0 \<or> 1 \<le> ?L"
    using assms(1) by (auto simp: journal_ok_def RETAIN_EVENTS_def)
  have "after \<noteq> 0 \<longrightarrow> Suc ?s - ?L \<le> Suc (unat after)"
    using r(5) oldest_sequence [OF assms(1,2)] after assms(2)
    by (auto simp: word_less_nat_alt unat_saturating_add)
  then have start: "max (Suc ?s - ?L) (Suc (unat after)) = first_new after j"
    using L by (auto simp: first_new_def)
  have wanted: "map (unat \<circ> ev_sequence) wanted = [first_new after j ..< Suc ?s]"
    using wanted_sequences [OF assms(1), of after] unfolding wanted_def start .
  show ?thesis
  proof (cases "es = []")
    case True
    with r have w: "wanted = []" "er_next r = jo_sequence j" by auto
    then have "[first_new after j ..< Suc ?s] = []" using wanted by simp
    then have "Suc ?s \<le> first_new after j" by (simp only: upt_eq_Nil_conv) auto
    then have "?s = 0 \<or> ?s \<le> unat after"
      using L unfolding first_new_def by (simp only: split: if_splits) linarith+
    then have "?s \<le> unat after" by auto
    with \<open>[first_new after j ..< Suc ?s] = []\<close> show ?thesis
      using True r(1,2) w after by (simp add: word_less_nat_alt word_le_nat_alt del: upt_Suc)
  next
    case False
    define m where "m = min (first_new after j + k) (Suc ?s)"
    have es: "map (unat \<circ> ev_sequence) es = [first_new after j ..< m]"
      unfolding es_def take_map [symmetric] wanted m_def by (simp add: take_upt min_def del: upt_Suc)
    then have lt: "first_new after j < m" using False by (metis list.map_disc_iff not_le_imp_less upt_conv_Nil)
    have "unat (ev_sequence (last es)) = last (map (unat \<circ> ev_sequence) es)" using False by (simp add: last_map)
    also have "\<dots> = m - 1" unfolding es using lt by (cases m) simp_all
    finally have pos: "unat (er_next r) = m - 1" using r(3) False by simp
    have "Suc (unat after) \<le> first_new after j" using start by linarith
    then have "unat after < unat (er_next r)" "unat (er_next r) \<le> ?s" using lt pos by (auto simp: m_def)
    moreover have "set es \<subseteq> set (jo_events j)" by (auto simp: es_def wanted_def dest: in_set_takeD)
    moreover have "Suc (unat (er_next r)) = m" using pos lt by simp
    ultimately show ?thesis using es r(1,2) by (simp add: word_less_nat_alt word_le_nat_alt del: upt_Suc)
  qed
qed

definition sample_journal :: journal where
  "sample_journal = \<lparr>jo_instance = ''d1'', jo_disk = \<lparr>active = None, archived = None\<rparr>, jo_sequence = 3,
     jo_events = [sample_notice 1, sample_notice 2, sample_notice 3],
     jo_labels = [], jo_label_order = [], jo_server_labels = [], jo_server_order = []\<rparr>"

theorem since_without_gaps_witness:
  "map (unat \<circ> ev_sequence) (er_events (since (\<lambda>_. Some 100) 1 sample_journal)) = [2, 3]"
proof -
  have ok: "journal_ok sample_journal"
    by (simp add: journal_ok_def catalog_ok_def sample_journal_def sample_notice_def RETAIN_EVENTS_def upt_rec)
  have r: "er_next (since (\<lambda>_. Some 100) 1 sample_journal) = 3" "\<not> er_resync (since (\<lambda>_. Some 100) 1 sample_journal)"
    by (simp_all add: since_def Let_def sample_journal_def sample_notice_def saturating_add_def checked_add_def)
  have "unat (jo_sequence sample_journal) + 1 < 2 ^ 64" by (simp add: sample_journal_def)
  from since_without_gaps [OF ok this refl r(2)] show ?thesis
    by (simp add: r(1) first_new_def upt_rec)
qed

end
