(* ===== verification/Daemon.thy ===== *)
theory Daemon
  imports Change Journal Codec
begin

text \<open>
  The application state of the daemon and its request handler,
  \<open>crates/fwm/src/daemon/state.rs\<close> and \<open>daemon/dispatch.rs\<close>. One request at a time holds the
  state; the SSH probes, which do not, are a parameter, as are JSON, the clock and the texts of
  warnings. \<open>None\<close> is a step that does not return: a panic or a loop.
\<close>

section \<open>State and replies\<close>

record mutation_reply =
  mr_revision :: u64
  mr_message :: string
  mr_config :: config
  mr_operation :: "operation_report option"

record status_snapshot =
  ss_instance :: string
  ss_revision :: u64
  ss_forwards :: "forward_status list"

datatype reply =
    Pong string
  | ConfigReply config
  | SnapshotReply status_snapshot
  | ViewReply config status_snapshot
  | EventsReply events_reply
  | MutationReply mutation_reply
  | ReportReply operation_report
  | ValidReply nat nat
  | ShutdownReply
  | ProbeReply string

record response =
  rs_version :: u32
  rs_id :: string
  rs_ok :: bool
  rs_data :: "reply option"
  rs_error :: "api_error option"

record daemon =
  ds_instance :: string
  ds_config :: config
  ds_store :: store
  ds_engine :: engine
  ds_journal :: journal
  ds_completed :: "(string \<times> string \<times> reply) list"
  ds_stop :: bool

text \<open>
  \<open>dv_json\<close> is the length of the encoded reply, \<open>dv_sign\<close> the JSON of a command with the
  expected revision, \<open>dv_finished\<close> whether the task of a number has ended.
\<close>

record daemon_env =
  dv_store :: store_env
  dv_route :: "server_profile \<Rightarrow> string"
  dv_finished :: "nat \<Rightarrow> bool"
  dv_iter :: "(string \<rightharpoonup> history_labels) \<Rightarrow> labels"
  dv_enc :: "history_entry \<Rightarrow> string option"
  dv_dec :: "string \<Rightarrow> history_entry option"
  dv_now :: u64
  dv_weigh :: "engine_event \<Rightarrow> nat option"
  dv_json :: "reply \<Rightarrow> nat option"
  dv_sign :: "command \<times> u64 option \<Rightarrow> string option"
  dv_probe :: "command \<Rightarrow> daemon \<Rightarrow> api_error + reply"
  dv_warning :: "store_warning list \<Rightarrow> string"
  dv_load_warning :: "load_warning \<Rightarrow> string"
  dv_failure :: "engine_error \<Rightarrow> string"

abbreviation dv_ua :: "daemon_env \<Rightarrow> nat \<Rightarrow> bool" where
  "dv_ua v \<equiv> v_ua (dv_store v)"

abbreviation dv_js :: "daemon_env \<Rightarrow> config \<Rightarrow> nat option" where
  "dv_js v \<equiv> v_js (dv_store v)"

type_synonym 'a step = "daemon \<Rightarrow> ((api_error + 'a) \<times> daemon) option"

definition dreturn :: "'a \<Rightarrow> 'a step" where
  "dreturn a s = Some (Inr a, s)"

definition dlift :: "api_error + 'a \<Rightarrow> 'a step" where
  "dlift m s = Some (m, s)"

definition dbind :: "'a step \<Rightarrow> ('a \<Rightarrow> 'b step) \<Rightarrow> 'b step" where
  "dbind m f s = (case m s of
       None \<Rightarrow> None
     | Some (Inl e, t) \<Rightarrow> Some (Inl e, t)
     | Some (Inr a, t) \<Rightarrow> f a t)"

definition dget :: "(daemon \<Rightarrow> 'a) \<Rightarrow> 'a step" where
  "dget f s = Some (Inr (f s), s)"

definition stored :: "(store_error \<Rightarrow> api_error) \<Rightarrow> 'a action \<Rightarrow> 'a step" where
  "stored g m s = (let (r, t) = m (ds_store s) in Some (map_err g r, s\<lparr>ds_store := t\<rparr>))"

definition engaged :: "(engine \<Rightarrow> (engine \<times> (engine_error + 'a)) option) \<Rightarrow> 'a step" where
  "engaged m s = map_option (\<lambda>(e, r). (map_err RuntimeFailed r, s\<lparr>ds_engine := e\<rparr>)) (m (ds_engine s))"

definition journaled :: "(journal \<Rightarrow> journal option) \<Rightarrow> unit step" where
  "journaled f s = map_option (\<lambda>j. (Inr (), s\<lparr>ds_journal := j\<rparr>)) (f (ds_journal s))"

section \<open>Committing a configuration\<close>

definition changed_keys :: "(config \<Rightarrow> 'a list) \<Rightarrow> ('a \<Rightarrow> string) \<Rightarrow> (config \<Rightarrow> string \<Rightarrow> 'a option) \<Rightarrow>
    config \<Rightarrow> config \<Rightarrow> string list" where
  "changed_keys items ident look old new =
     sort (remdups (map ident (filter (\<lambda>x. look old (ident x) \<noteq> look new (ident x)) (items old @ items new))))"

definition record_changes ::
    "daemon_env \<Rightarrow> string list \<Rightarrow> string list \<Rightarrow> string \<Rightarrow> journal \<Rightarrow> journal" where
  "record_changes v rules profiles details j =
     (let note = (\<lambda>fid j. record_event (dv_enc v) (dv_now v) fid details j);
          j1 = (if rules = [] \<and> profiles = [] then note None j
                else foldl (\<lambda>j i. note (Some i) j) j rules)
      in foldl (\<lambda>j i. Journal.record_server (dv_enc v) (dv_now v) i details j) j1 profiles)"

definition prepare_commit :: "daemon_env \<Rightarrow> config \<Rightarrow> daemon \<Rightarrow> api_error + config" where
  "prepare_commit v c s =
     rbind (ok_or (checked_add (revision (ds_config s)) 1) RevisionExhausted) (\<lambda>r.
     let c' = c\<lparr>revision := r\<rparr> in
     rbind (map_err ConfigRejected (validate (dv_ua v) (dv_js v) c')) (\<lambda>_. Inr c'))"

definition converge :: "daemon_env \<Rightarrow> config \<Rightarrow> string step" where
  "converge v c s =
     (let (e, r) = reconcile (dv_ua v) (dv_js v) (dv_route v) (dv_finished v) c (ds_engine s)
      in Some (Inr (case r of Inr _ \<Rightarrow> []
                    | Inl x \<Rightarrow> ''; saved, runtime reconciliation needs attention: '' @ dv_failure v x),
               s\<lparr>ds_engine := e\<rparr>))"

definition finish_commit ::
    "daemon_env \<Rightarrow> config \<Rightarrow> string \<Rightarrow> store_warning list \<Rightarrow> string list option \<Rightarrow> mutation_reply step" where
  "finish_commit v c msg ws selected s0 =
     (let old = ds_config s0;
          rules = (case selected of Some ids \<Rightarrow> ids | None \<Rightarrow> changed_keys forwards fs_id forward old c);
          profiles = changed_keys servers sp_id server old c;
          details = msg @ (if ws = [] then [] else ''; '' @ dv_warning v ws)
      in dbind (journaled (Journal.set_config (dv_iter v) old)) (\<lambda>_.
         dbind (\<lambda>s. Some (Inr (), s\<lparr>ds_config := c\<rparr>)) (\<lambda>_.
         dbind (journaled (Journal.set_config (dv_iter v) c)) (\<lambda>_.
         dbind (converge v c) (\<lambda>trouble.
         dbind (journaled (\<lambda>j. Some (record_changes v rules profiles (details @ trouble) j))) (\<lambda>_.
         dreturn \<lparr>mr_revision = revision c, mr_message = details @ trouble, mr_config = c,
                  mr_operation = None\<rparr>))))) s0)"

definition commit_reloaded :: "daemon_env \<Rightarrow> config \<Rightarrow> string \<Rightarrow> mutation_reply step" where
  "commit_reloaded v c msg =
     dbind (\<lambda>s. Some (prepare_commit v c s, s)) (\<lambda>c.
     dbind (stored StorageFailed (commit_reload (dv_store v) c)) (\<lambda>ws.
     finish_commit v c msg ws None))"

definition commit_change :: "daemon_env \<Rightarrow> config \<Rightarrow> string \<Rightarrow> mutation_reply step" where
  "commit_change v c msg s =
     (if c = ds_config s then
        Some (Inr \<lparr>mr_revision = revision c, mr_message = ''No changes.'', mr_config = c, mr_operation = None\<rparr>, s)
      else
        dbind (stored StorageFailed (sask (has_pending_edits (dv_store v)))) (\<lambda>pending.
        dbind (dlift (rguard pending DraftPending)) (\<lambda>_.
        commit_reloaded v c msg)) s)"

definition commit_controlled :: "daemon_env \<Rightarrow> config \<Rightarrow> string list \<Rightarrow> string \<Rightarrow> mutation_reply step" where
  "commit_controlled v c selected msg =
     dbind (\<lambda>s. Some (prepare_commit v c s, s)) (\<lambda>c.
     dbind (stored StorageFailed (commit_control_for (dv_store v) c selected)) (\<lambda>ws.
     finish_commit v c msg ws (Some selected)))"

definition select :: "selection \<Rightarrow> string list step" where
  "select sel s = Some (resolve_ids (ds_config s) sel, s)"

section \<open>Status within the frame limit\<close>

definition status_note :: string where
  "status_note = '' [truncated; query this rule alone for details]''"

definition shorten :: "nat \<Rightarrow> forward_status \<Rightarrow> forward_status" where
  "shorten limit r = (case st_last_error r of
       None \<Rightarrow> r
     | Some e \<Rightarrow> if limit < length e
                then r\<lparr>st_last_error := Some (take (floor_boundary e limit) e @ status_note)\<rparr> else r)"

definition status_reply :: "bool \<Rightarrow> config \<Rightarrow> status_snapshot \<Rightarrow> reply" where
  "status_reply include_config c snap = (if include_config then ViewReply c snap else SnapshotReply snap)"

definition BUDGET :: nat where
  "BUDGET = MAX_FRAME_BYTES - 2048"

function bounded_from ::
    "daemon_env \<Rightarrow> config \<Rightarrow> bool \<Rightarrow> nat \<Rightarrow> status_snapshot \<Rightarrow> api_error + reply" where
  "bounded_from v c include_config limit snap =
     (let r = status_reply include_config c snap in
      rbind (ok_or (dv_json v r) EncodingFailed) (\<lambda>n.
      if n \<le> BUDGET then Inr r
      else if limit < 64 then Inl ResponseTooLarge
      else bounded_from v c include_config (limit div 2)
             (snap\<lparr>ss_forwards := map (shorten limit) (ss_forwards snap)\<rparr>)))"
  by auto
termination by (relation "measure (\<lambda>(_, _, _, limit, _). limit)") auto

declare bounded_from.simps [simp del]

definition bounded_status :: "daemon_env \<Rightarrow> config \<Rightarrow> status_snapshot \<Rightarrow> bool \<Rightarrow> api_error + reply" where
  "bounded_status v c snap include_config = bounded_from v c include_config 4096 snap"

definition encode :: "daemon_env \<Rightarrow> reply \<Rightarrow> api_error + reply" where
  "encode v r = (if dv_json v r = None then Inl EncodingFailed else Inr r)"

section \<open>Requests\<close>

definition query_status :: "daemon_env \<Rightarrow> selection option \<Rightarrow> bool \<Rightarrow> reply step" where
  "query_status v sel include_config s =
     (let snap = \<lparr>ss_instance = ds_instance s, ss_revision = revision (ds_config s),
                  ss_forwards = Lifecycle.snapshot (ds_engine s)\<rparr>
      in Some
        (rbind (case sel of
             None \<Rightarrow> Inr snap
           | Some x \<Rightarrow> rbind (resolve_ids (ds_config s) x) (\<lambda>ids.
               Inr (snap\<lparr>ss_forwards := filter (\<lambda>r. st_id r \<in> set ids) (ss_forwards snap)\<rparr>)))
         (\<lambda>snap. bounded_status v (ds_config s) snap include_config), s))"

definition change_config :: "daemon_env \<Rightarrow> command \<Rightarrow> reply step" where
  "change_config v cmd =
     dbind (\<lambda>s. Some (prepare (dv_ua v) (dv_js v) (ds_config s) cmd, s)) (\<lambda>ch.
     dbind (case ch_selected ch of
         Some ids \<Rightarrow> commit_controlled v (ch_config ch) ids (ch_message ch)
       | None \<Rightarrow> commit_change v (ch_config ch) (ch_message ch)) (\<lambda>r.
     dlift (encode v (MutationReply r))))"

definition restart :: "daemon_env \<Rightarrow> selection \<Rightarrow> reply step" where
  "restart v sel =
     dbind (select sel) (\<lambda>ids.
     dbind (dget ds_config) (\<lambda>c.
     dbind (commit_controlled v (c\<lparr>forwards := map (set_state ids Running) (forwards c)\<rparr>) ids ''restart requested'') (\<lambda>r.
     dbind (dget ds_config) (\<lambda>c.
     dbind (engaged (case sel of
         SelServer x \<Rightarrow> reconnect_server (dv_ua v) (dv_js v) (dv_route v) (dv_finished v) c x
       | _ \<Rightarrow> restart_rules (dv_finished v) ids)) (\<lambda>report.
     dlift (encode v (MutationReply (r\<lparr>mr_operation := Some report\<rparr>))))))))"

definition reload :: "daemon_env \<Rightarrow> reply step" where
  "reload v =
     dbind (stored DraftRejected (read_candidate (dv_store v))) (\<lambda>candidate.
     dbind (commit_reloaded v candidate ''configuration reloaded'') (\<lambda>r s.
     let (e, x) = refresh_ssh_config (dv_ua v) (dv_js v) (dv_route v) (dv_finished v) (ds_config s) (ds_engine s);
         r' = (case x of
             Inr _ \<Rightarrow> r
           | Inl err \<Rightarrow> r\<lparr>mr_message := mr_message r @
               ''; configuration saved but refreshing SSH sessions needs attention: '' @ dv_failure v err\<rparr>)
     in Some (encode v (MutationReply r'), s\<lparr>ds_engine := e\<rparr>)))"

fun handle :: "daemon_env \<Rightarrow> command \<Rightarrow> reply step" where
  "handle v Ping = (\<lambda>s. Some (Inr (Pong (ds_instance s)), s))"
| "handle v GetConfig = (\<lambda>s. Some (encode v (ConfigReply (ds_config s)), s))"
| "handle v QueryStatus = query_status v None False"
| "handle v (StatusView sel) = query_status v sel True"
| "handle v (Events after) = (\<lambda>s. Some (encode v (EventsReply (since (dv_weigh v) after (ds_journal s))), s))"
| "handle v (RetryRules sel) =
     dbind (select sel) (\<lambda>ids.
     dbind (engaged (retry_rules (dv_finished v) ids)) (\<lambda>report. dlift (encode v (ReportReply report))))"
| "handle v (RestartRules sel) = restart v sel"
| "handle v Reload = reload v"
| "handle v ValidateDraft =
     dbind (stored DraftRejected (read_candidate (dv_store v))) (\<lambda>c.
     dreturn (ValidReply (length (servers c)) (length (forwards c))))"
| "handle v Shutdown = (\<lambda>s. Some (Inr ShutdownReply, s\<lparr>ds_stop := True\<rparr>))"
| "handle v (PutServer s) = change_config v (PutServer s)"
| "handle v (RemoveServer x) = change_config v (RemoveServer x)"
| "handle v (PutForward f) = change_config v (PutForward f)"
| "handle v (PutForwardWithServer f s t) = change_config v (PutForwardWithServer f s t)"
| "handle v (PutForwardsWithServer fs s t) = change_config v (PutForwardsWithServer fs s t)"
| "handle v (CreateForwards fs s t) = change_config v (CreateForwards fs s t)"
| "handle v (RemoveForward x) = change_config v (RemoveForward x)"
| "handle v (RemoveForwards sel) = change_config v (RemoveForwards sel)"
| "handle v (SetDesired sel st) = change_config v (SetDesired sel st)"
| "handle v _ = dlift (Inl UnexpectedRequest)"

definition apply_inner :: "daemon_env \<Rightarrow> request \<Rightarrow> reply step" where
  "apply_inner v rq s =
     (if mutates_config (rq_command rq) \<and>
         (case rq_expected rq of None \<Rightarrow> False | Some r \<Rightarrow> r \<noteq> revision (ds_config s))
      then Some (Inl (RevisionConflict (revision (ds_config s))), s)
      else handle v (rq_command rq) s)"

definition bad_id :: "string \<Rightarrow> bool" where
  "bad_id i = (i = [] \<or> 128 < length i)"

definition complete :: "string \<Rightarrow> string \<Rightarrow> reply \<Rightarrow> (string \<times> string \<times> reply) list \<Rightarrow>
    (string \<times> string \<times> reply) list" where
  "complete i signature r past = (let q = past @ [(i, signature, r)] in if 32 < length q then tl q else q)"

definition apply_request :: "daemon_env \<Rightarrow> request \<Rightarrow> reply step" where
  "apply_request v rq s =
     (if bad_id (rq_id rq) then Some (Inl BadRequestId, s)
      else if mutates_config (rq_command rq) then
        dbind (dlift (ok_or (dv_sign v (rq_command rq, rq_expected rq)) BadRequestId)) (\<lambda>signature s.
        case List.find (\<lambda>(i, _, _). i = rq_id rq) (ds_completed s) of
          Some (_, previous, r) \<Rightarrow> Some (if previous = signature then Inr r else Inl RequestIdReused, s)
        | None \<Rightarrow>
            dbind (apply_inner v rq) (\<lambda>r s.
            Some (Inr r, s\<lparr>ds_completed := complete (rq_id rq) signature r (ds_completed s)\<rparr>)) s) s
      else apply_inner v rq s)"

fun is_probe :: "command \<Rightarrow> bool" where
  "is_probe (InspectHost _) = True"
| "is_probe (TrustHost _ _) = True"
| "is_probe (Doctor _) = True"
| "is_probe (InspectHostProfile _) = True"
| "is_probe (InspectHopProfile _ _) = True"
| "is_probe (TrustHopProfile _ _ _) = True"
| "is_probe (TrustHostProfile _ _) = True"
| "is_probe (DoctorProfile _) = True"
| "is_probe _ = False"

definition success :: "string \<Rightarrow> reply \<Rightarrow> response" where
  "success i r = \<lparr>rs_version = API_VERSION, rs_id = i, rs_ok = True, rs_data = Some r, rs_error = None\<rparr>"

definition failure :: "string \<Rightarrow> api_error \<Rightarrow> response" where
  "failure i e = \<lparr>rs_version = API_VERSION, rs_id = i, rs_ok = False, rs_data = None, rs_error = Some e\<rparr>"

definition dispatch :: "daemon_env \<Rightarrow> request \<Rightarrow> daemon \<Rightarrow> (response \<times> daemon) option" where
  "dispatch v rq s =
     (if bad_id (rq_id rq) then Some (failure (rq_id rq) BadRequestId, s)
      else if rq_version rq \<noteq> API_VERSION then Some (failure (rq_id rq) VersionMismatch, s)
      else map_option (\<lambda>(r, t). (case r of Inr x \<Rightarrow> success (rq_id rq) x | Inl e \<Rightarrow> failure (rq_id rq) e, t))
        (if is_probe (rq_command rq) then Some (dv_probe v (rq_command rq) s, s) else apply_request v rq s))"

section \<open>Starting\<close>

definition new_state :: "daemon_env \<Rightarrow> view list \<Rightarrow> string \<Rightarrow> disk \<Rightarrow> store \<Rightarrow> (store_error + daemon) option" where
  "new_state v views inst d st =
     (case sbind (load (dv_store v)) (\<lambda>(c, w). sbind (initialize (dv_store v) c) (\<lambda>_. sreturn (c, w))) st of
        (Inl e, _) \<Rightarrow> Some (Inl e)
      | (Inr (c, w), st') \<Rightarrow>
          map_option (\<lambda>j. Inr \<lparr>ds_instance = inst, ds_config = c, ds_store = st', ds_engine = new_engine,
              ds_journal = (case w of None \<Rightarrow> j
                            | Some x \<Rightarrow> record_event (dv_enc v) (dv_now v) None (dv_load_warning v x) j),
              ds_completed = [], ds_stop = False\<rparr>)
            (Option.bind (new_journal (dv_dec v) views inst d) (Journal.set_config (dv_iter v) c)))"

end
