(* ===== verification/DaemonSafety.thy ===== *)
theory DaemonSafety
  imports Daemon Recovery
begin

text \<open>
  What the daemon promises its clients: a request is carried out at most once, a stale one not
  at all, the configuration in memory never runs ahead of the one on disk, and a status reply
  fits its frame.
\<close>

section \<open>Steps\<close>

named_theorems step_simps "results of the daemon's steps"

lemma dbind_Inr_iff [step_simps]:
  "dbind m f s = Some (Inr b, t) \<longleftrightarrow> (\<exists>a u. m s = Some (Inr a, u) \<and> f a u = Some (Inr b, t))"
  by (auto simp: dbind_def split: option.splits prod.splits sum.splits)

lemma dbind_iff:
  "dbind m f s = Some (r, t) \<longleftrightarrow>
     (\<exists>e. m s = Some (Inl e, t) \<and> r = Inl e) \<or> (\<exists>a u. m s = Some (Inr a, u) \<and> f a u = Some (r, t))"
  by (auto simp: dbind_def split: option.splits prod.splits sum.splits)

lemma dlift_iff [step_simps]: "dlift m s = Some (r, t) \<longleftrightarrow> m = r \<and> t = s"
  by (auto simp: dlift_def)

lemma dreturn_iff [step_simps]: "dreturn a s = Some (r, t) \<longleftrightarrow> r = Inr a \<and> t = s"
  by (auto simp: dreturn_def)

lemma dget_iff [step_simps]: "dget f s = Some (r, t) \<longleftrightarrow> r = Inr (f s) \<and> t = s"
  by (auto simp: dget_def)

lemma stored_iff [step_simps]:
  "stored g m s = Some (r, t) \<longleftrightarrow> (\<exists>x st. m (ds_store s) = (x, st) \<and> r = map_err g x \<and> t = s\<lparr>ds_store := st\<rparr>)"
  by (auto simp: stored_def split: prod.splits)

lemma engaged_iff [step_simps]:
  "engaged m s = Some (r, t) \<longleftrightarrow>
     (\<exists>e x. m (ds_engine s) = Some (e, x) \<and> r = map_err RuntimeFailed x \<and> t = s\<lparr>ds_engine := e\<rparr>)"
  by (auto simp: engaged_def)

lemma journaled_iff [step_simps]:
  "journaled f s = Some (r, t) \<longleftrightarrow> (\<exists>j. f (ds_journal s) = Some j \<and> r = Inr () \<and> t = s\<lparr>ds_journal := j\<rparr>)"
  by (auto simp: journaled_def)

lemma converge_iff [step_simps]:
  "converge v c s = Some (r, t) \<longleftrightarrow>
     (\<exists>e x. reconcile (dv_ua v) (dv_js v) (dv_route v) (dv_finished v) c (ds_engine s) = (e, x) \<and>
        r = Inr (case x of Inr _ \<Rightarrow> [] | Inl y \<Rightarrow> ''; saved, runtime reconciliation needs attention: '' @ dv_failure v y) \<and>
        t = s\<lparr>ds_engine := e\<rparr>)"
  by (auto simp: converge_def split: prod.splits)

section \<open>Committing\<close>

text \<open>The documents of a store hold a configuration when both its texts come from it.\<close>

definition durable :: "store_env \<Rightarrow> config \<Rightarrow> store \<Rightarrow> bool" where
  "durable v c st =
     (wf_config (v_ua v) (v_js v) c \<and>
      (\<exists>plain ov. v_text v c = Some plain \<and> length (snapshot_text v ov plain) \<le> MAX_CONFIG_BYTES \<and>
         (sf_snapshot st = Some (snapshot_text v ov plain) \<or>
          sf_snapshot st = Some plain \<and> sf_config st = Some plain)))"

definition same_files :: "store \<Rightarrow> store \<Rightarrow> bool" where
  "same_files s s' = (sf_snapshot s' = sf_snapshot s \<and> sf_config s' = sf_config s)"

lemma same_files_refl [simp]: "same_files s s"
  by (simp add: same_files_def)

lemma same_files_trans: "same_files s t \<Longrightarrow> same_files t u \<Longrightarrow> same_files s u"
  by (simp add: same_files_def)

lemma same_documents_files: "same_documents s t \<Longrightarrow> same_files s t"
  by (simp add: same_documents_def same_files_def)

lemma durable_files: "durable v c s \<Longrightarrow> same_files s t \<Longrightarrow> durable v c t"
  by (auto simp: durable_def same_files_def)

lemma committed_durable: "committed v c ov s t \<Longrightarrow> durable v c t"
  unfolding committed_def durable_def by blast

lemma commit_with_overrides_cases:
  assumes "commit_with_overrides v c ov candidate s = (r, t)"
  shows "case r of Inl _ \<Rightarrow> same_files s t | Inr _ \<Rightarrow> durable v c t"
  using commit_result [OF assms] by (auto simp: same_documents_files committed_durable split: sum.splits)

lemma read_candidate_files: "read_candidate v s = (r, t) \<Longrightarrow> same_files s t"
  by (auto simp: read_candidate_def sbind_def sask_def same_files_def split: sum.splits)

lemma load_files: "load v s = (r, t) \<Longrightarrow> same_files s t"
  by (auto simp: load_def sbind_def sask_def sreturn_def same_files_def
      dest: read_candidate_files [unfolded same_files_def] split: if_splits sum.splits prod.splits)

lemma commit_reload_cases:
  assumes "commit_reload v c s = (r, t)"
  shows "case r of Inl _ \<Rightarrow> same_files s t | Inr _ \<Rightarrow> durable v c t"
proof (cases r)
  case (Inl e)
  then have "commit_reload v c s = (Inl e, t)" using assms by simp
  then show ?thesis using Inl
    by (auto simp: commit_reload_def action_simps take_read_def same_files_def
        dest!: commit_with_overrides_cases split: option.splits)
next
  case (Inr ws)
  then have "commit_reload v c s = (Inr ws, t)" using assms by simp
  then show ?thesis using Inr
    by (auto simp: commit_reload_def action_simps dest!: commit_with_overrides_cases)
qed

lemma commit_control_cases:
  assumes "commit_control_for v c selected s = (r, t)"
  shows "case r of Inl _ \<Rightarrow> same_files s t | Inr _ \<Rightarrow> durable v c t"
proof (cases r)
  case (Inl e)
  then have "commit_control_for v c selected s = (Inl e, t)" using assms by simp
  then show ?thesis using Inl
    by (auto simp: commit_control_for_def action_simps
        dest!: commit_with_overrides_cases load_files intro: same_files_trans)
next
  case (Inr ws)
  then have "commit_control_for v c selected s = (Inr ws, t)" using assms by simp
  then show ?thesis using Inr
    by (auto simp: commit_control_for_def action_simps dest!: commit_with_overrides_cases)
qed

lemma prepare_commit_Inr:
  "prepare_commit v c s = Inr c' \<Longrightarrow>
     unat (revision c') = unat (revision (ds_config s)) + 1 \<and> c' = c\<lparr>revision := revision c'\<rparr>"
  by (auto simp: prepare_commit_def result_simps Let_def unat_checked_add)

definition same_session :: "daemon \<Rightarrow> daemon \<Rightarrow> bool" where
  "same_session s t = (ds_instance t = ds_instance s \<and> ds_completed t = ds_completed s)"

lemma same_session_refl [simp]: "same_session s s"
  by (simp add: same_session_def)

lemma same_session_trans: "same_session s t \<Longrightarrow> same_session t u \<Longrightarrow> same_session s u"
  by (simp add: same_session_def)

lemma finish_commit_result:
  assumes "finish_commit v c msg ws selected s = Some (r, t)"
  shows "ds_config t = c \<and> ds_store t = ds_store s \<and> same_session s t \<and>
    (\<exists>reply. r = Inr reply \<and> mr_config reply = c \<and> mr_revision reply = revision c)"
  using assms by (auto simp: finish_commit_def Let_def dbind_iff step_simps same_session_def)

section \<open>The contract of a step\<close>

text \<open>
  A relation between the states before and after a request that allows what a step may do: to
  leave configuration and documents alone, or to advance to the next revision once it is on
  disk.
\<close>

locale step_relation =
  fixes v :: daemon_env
    and R :: "daemon \<Rightarrow> daemon \<Rightarrow> bool"
  assumes quiet: "same_session s t \<Longrightarrow> ds_config t = ds_config s \<Longrightarrow> same_files (ds_store s) (ds_store t) \<Longrightarrow> R s t"
    and advance: "same_session s t \<Longrightarrow> unat (revision (ds_config t)) = unat (revision (ds_config s)) + 1 \<Longrightarrow>
      durable (dv_store v) (ds_config t) (ds_store t) \<Longrightarrow> R s t"
    and R_trans: "R s t \<Longrightarrow> R t u \<Longrightarrow> R s u"
begin

definition keeps :: "'a step \<Rightarrow> bool" where
  "keeps m = (\<forall>s r t. m s = Some (r, t) \<longrightarrow> R s t)"

lemma keepsD: "keeps m \<Longrightarrow> m s = Some (r, t) \<Longrightarrow> R s t"
  by (simp add: keeps_def)

lemma refl: "R s s"
  by (rule quiet) simp_all

lemma keeps_dbind: "keeps m \<Longrightarrow> (\<And>a. keeps (f a)) \<Longrightarrow> keeps (dbind m f)"
  unfolding keeps_def dbind_iff by (blast intro: R_trans)

lemma keeps_state: "(\<And>s. snd (the (m s)) = s \<or> m s = None) \<Longrightarrow> keeps m"
  unfolding keeps_def by (metis option.distinct(1) option.sel refl snd_conv)

lemma keeps_basic:
  "keeps (dlift m)" "keeps (dreturn a)" "keeps (dget f)" "keeps (\<lambda>s. Some (g s, s))"
  by (auto simp: keeps_def step_simps refl)

lemma keeps_engaged: "keeps (engaged m)"
  by (auto simp: keeps_def step_simps same_session_def intro!: quiet)

lemma keeps_stored: "(\<And>st r st'. m st = (r, st') \<Longrightarrow> same_files st st') \<Longrightarrow> keeps (stored g m)"
  by (auto simp: keeps_def step_simps same_session_def intro!: quiet)

lemma advance_commit:
  assumes "prepare_commit v c s = Inr c'" and "durable (dv_store v) c' st"
    and "finish_commit v c' msg ws selected (s\<lparr>ds_store := st\<rparr>) = Some (r, t)"
  shows "R s t"
proof (rule advance)
  note f = finish_commit_result [OF assms(3)]
  from f show "same_session s t" by (simp add: same_session_def)
  from f assms(2) show "durable (dv_store v) (ds_config t) (ds_store t)" by simp
  from f prepare_commit_Inr [OF assms(1)] show "unat (revision (ds_config t)) = unat (revision (ds_config s)) + 1"
    by simp
qed

lemma keeps_commit:
  assumes op: "\<And>c st r st'. op c st = (r, st') \<Longrightarrow>
      case r of Inl _ \<Rightarrow> same_files st st' | Inr _ \<Rightarrow> durable (dv_store v) c st'"
  shows "keeps (dbind (\<lambda>s. Some (prepare_commit v c s, s)) (\<lambda>c.
    dbind (stored StorageFailed (op c)) (\<lambda>ws. finish_commit v c msg ws selected)))"
  unfolding keeps_def
proof (intro allI impI)
  fix s r t
  assume run: "dbind (\<lambda>s. Some (prepare_commit v c s, s)) (\<lambda>c.
    dbind (stored StorageFailed (op c)) (\<lambda>ws. finish_commit v c msg ws selected)) s = Some (r, t)"
  show "R s t"
  proof (cases "prepare_commit v c s")
    case (Inl e)
    with run show ?thesis by (simp add: dbind_def refl)
  next
    case c': (Inr c')
    obtain x st where x: "op c' (ds_store s) = (x, st)" by (cases "op c' (ds_store s)")
    show ?thesis
    proof (cases x)
      case (Inl e)
      with run c' x have "t = s\<lparr>ds_store := st\<rparr>" by (simp add: dbind_def stored_def)
      with op [OF x] Inl show ?thesis by (auto simp: same_session_def intro!: quiet)
    next
      case (Inr ws)
      with run c' x have "finish_commit v c' msg ws selected (s\<lparr>ds_store := st\<rparr>) = Some (r, t)"
        by (simp add: dbind_def stored_def)
      moreover have "durable (dv_store v) c' st" using op [OF x] Inr by simp
      ultimately show ?thesis using c' by (blast intro: advance_commit)
    qed
  qed
qed

lemma keeps_commit_reloaded: "keeps (commit_reloaded v c msg)"
  unfolding commit_reloaded_def by (rule keeps_commit) (rule commit_reload_cases)

lemma keeps_commit_controlled: "keeps (commit_controlled v c selected msg)"
  unfolding commit_controlled_def by (rule keeps_commit) (rule commit_control_cases)

lemma keeps_commit_change: "keeps (commit_change v c msg)"
proof -
  have rest: "keeps (dbind (stored StorageFailed (sask (has_pending_edits (dv_store v)))) (\<lambda>pending.
      dbind (dlift (rguard pending DraftPending)) (\<lambda>_. commit_reloaded v c msg)))"
    by (intro keeps_dbind keeps_stored keeps_basic keeps_commit_reloaded) (simp add: sask_def)
  show ?thesis
    unfolding keeps_def commit_change_def using keepsD [OF rest] refl by (auto split: if_splits)
qed

lemma keeps_change_config: "keeps (change_config v cmd)"
  unfolding change_config_def
  by (intro keeps_dbind keeps_basic) (auto split: option.split intro: keeps_commit_controlled keeps_commit_change)

lemma keeps_restart: "keeps (restart v sel)"
  unfolding restart_def select_def
  by (intro keeps_dbind keeps_basic keeps_engaged keeps_commit_controlled)

lemma keeps_reload: "keeps (reload v)"
  unfolding reload_def
proof (intro keeps_dbind keeps_stored keeps_commit_reloaded)
  show "keeps (\<lambda>s. let (e, x) = refresh_ssh_config (dv_ua v) (dv_js v) (dv_route v) (dv_finished v) (ds_config s) (ds_engine s);
         r' = (case x of
             Inr _ \<Rightarrow> r
           | Inl err \<Rightarrow> r\<lparr>mr_message := mr_message r @
               ''; configuration saved but refreshing SSH sessions needs attention: '' @ dv_failure v err\<rparr>)
     in Some (encode v (MutationReply r'), s\<lparr>ds_engine := e\<rparr>))" for r
    by (auto simp: keeps_def Let_def same_session_def intro!: quiet split: prod.splits)
qed (rule read_candidate_files)

lemma keeps_handle: "keeps (handle v cmd)"
proof -
  have s: "keeps (query_status v sel b)" for sel b unfolding query_status_def Let_def by (rule keeps_basic)
  have t: "keeps (\<lambda>s. Some (Inr ShutdownReply, s\<lparr>ds_stop := True\<rparr>))"
    by (auto simp: keeps_def same_session_def intro!: quiet)
  have c: "keeps (dbind (stored DraftRejected (read_candidate (dv_store v))) (\<lambda>c.
      dreturn (ValidReply (length (servers c)) (length (forwards c)))))"
    by (intro keeps_dbind keeps_stored keeps_basic) (rule read_candidate_files)
  have r: "keeps (dbind (select sel) (\<lambda>ids. dbind (engaged (retry_rules (dv_finished v) ids))
      (\<lambda>report. dlift (encode v (ReportReply report)))))" for sel
    unfolding select_def by (intro keeps_dbind keeps_engaged keeps_basic)
  show ?thesis
    by (cases cmd) (simp_all add: keeps_basic keeps_change_config keeps_restart keeps_reload s t c r)
qed

lemma keeps_apply_inner: "keeps (apply_inner v rq)"
  unfolding keeps_def apply_inner_def using keepsD [OF keeps_handle] refl by (auto split: if_splits)

end

text \<open>
  Either nothing changed, or the daemon holds a later revision that is on disk.
\<close>

definition advanced :: "daemon_env \<Rightarrow> daemon \<Rightarrow> daemon \<Rightarrow> bool" where
  "advanced v s t =
     (ds_config t = ds_config s \<and> same_files (ds_store s) (ds_store t) \<or>
      unat (revision (ds_config s)) < unat (revision (ds_config t)) \<and>
      durable (dv_store v) (ds_config t) (ds_store t))"

interpretation session_step: step_relation v same_session for v
  by unfold_locales (auto intro: same_session_trans)

interpretation commit_step: step_relation v "advanced v" for v
proof
  fix s t u
  assume "advanced v s t" and "advanced v t u"
  then show "advanced v s u" by (auto simp: advanced_def intro: same_files_trans durable_files)
qed (auto simp: advanced_def)

section \<open>Completed requests\<close>

definition session_ok :: "daemon \<Rightarrow> bool" where
  "session_ok s = (distinct (map fst (ds_completed s)) \<and> length (ds_completed s) \<le> 32)"

definition known :: "daemon \<Rightarrow> string \<Rightarrow> bool" where
  "known s i \<longleftrightarrow> i \<in> fst ` set (ds_completed s)"

lemma find_known: "List.find (\<lambda>(j, _, _). j = i) xs = None \<longleftrightarrow> i \<notin> fst ` set xs"
  by (force simp: find_None_iff)

lemma find_entry:
  assumes "distinct (map fst xs)" and "(i, y) \<in> set xs"
  shows "List.find (\<lambda>(j, _, _). j = i) xs = Some (i, y)"
  using assms by (intro find_unique) (auto dest: eq_key_imp_eq_value)

lemma apply_request_cases:
  assumes "apply_request v rq s = Some (r, t)"
  obtains "ds_completed t = ds_completed s"
  | signature x where "mutates_config (rq_command rq)" "r = Inr x" "\<not> known s (rq_id rq)"
      "dv_sign v (rq_command rq, rq_expected rq) = Some signature"
      "ds_completed t = complete (rq_id rq) signature x (ds_completed s)"
proof (cases "bad_id (rq_id rq) \<or> \<not> mutates_config (rq_command rq)")
  case True
  with assms have "t = s \<or> apply_inner v rq s = Some (r, t)" by (auto simp: apply_request_def split: if_splits)
  then have "same_session s t" using session_step.keepsD [OF session_step.keeps_apply_inner] by auto
  then show ?thesis using that(1) by (simp add: same_session_def)
next
  case False
  show ?thesis
  proof (cases "dv_sign v (rq_command rq, rq_expected rq)")
    case None
    with assms False that(1) show ?thesis by (simp add: apply_request_def dbind_def dlift_def)
  next
    case (Some signature)
    show ?thesis
    proof (cases "List.find (\<lambda>(i, _, _). i = rq_id rq) (ds_completed s)")
      case None
      then have new: "\<not> known s (rq_id rq)" unfolding find_known known_def .
      from assms False Some None consider e where "apply_inner v rq s = Some (Inl e, t)"
        | x u where "apply_inner v rq s = Some (Inr x, u)" "r = Inr x"
            "t = u\<lparr>ds_completed := complete (rq_id rq) signature x (ds_completed u)\<rparr>"
        by (auto simp: apply_request_def dbind_def dlift_def split: option.splits prod.splits sum.splits)
      then show ?thesis
      proof cases
        case 1
        then have "same_session s t" using session_step.keepsD [OF session_step.keeps_apply_inner] by blast
        then show ?thesis using that(1) by (simp add: same_session_def)
      next
        case (2 x u)
        then have "same_session s u" using session_step.keepsD [OF session_step.keeps_apply_inner] by blast
        then show ?thesis using that(2) 2 new False Some by (simp add: same_session_def)
      qed
    next
      case (Some e)
      with assms False \<open>dv_sign v _ = Some signature\<close> that(1) show ?thesis
        by (auto simp: apply_request_def dbind_def dlift_def split: prod.splits)
    qed
  qed
qed

lemma dispatch_cases:
  assumes "dispatch v rq s = Some (resp, t)"
  obtains "t = s" | r where "apply_request v rq s = Some (r, t)"
    "resp = (case r of Inr x \<Rightarrow> success (rq_id rq) x | Inl e \<Rightarrow> failure (rq_id rq) e)"
  using assms by (auto simp: dispatch_def split: if_splits)

lemma complete_ok:
  assumes "distinct (map fst q)" and "length q \<le> 32" and "i \<notin> fst ` set q"
  shows "distinct (map fst (complete i sg x q)) \<and> length (complete i sg x q) \<le> 32"
proof -
  have "distinct (map fst (q @ [(i, sg, x)]))" using assms by simp
  then show ?thesis using assms(2) unfolding complete_def Let_def map_tl [symmetric]
    by (auto simp: distinct_tl map_tl simp del: map_append)
qed

lemma advanced_cong: "ds_config t = ds_config u \<Longrightarrow> ds_store t = ds_store u \<Longrightarrow> advanced v s t = advanced v s u"
  by (simp add: advanced_def)

lemma dispatch_outcome:
  assumes "dispatch v rq s = Some (resp, t)" and "session_ok s"
  shows "session_ok t \<and> advanced v s t"
  using assms(1)
proof (cases rule: dispatch_cases)
  case 1
  with assms(2) show ?thesis by (simp add: commit_step.refl)
next
  case (2 r)
  have "session_ok t" using 2(1)
  proof (cases rule: apply_request_cases)
    case 1
    with assms(2) show ?thesis by (simp add: session_ok_def)
  next
    case (2 signature x)
    with assms(2) complete_ok [of "ds_completed s" "rq_id rq" signature x] show ?thesis
      by (simp add: session_ok_def known_def)
  qed
  moreover have "t = s \<or> (\<exists>r u. apply_inner v rq s = Some (r, u) \<and> ds_config t = ds_config u \<and> ds_store t = ds_store u)"
    using 2(1) by (auto simp: apply_request_def dbind_def dlift_def split: if_splits option.splits prod.splits sum.splits)
  ultimately show ?thesis
    using commit_step.keepsD [OF commit_step.keeps_apply_inner] by (auto simp: commit_step.refl cong: advanced_cong)
qed

section \<open>Properties\<close>

text \<open>A configuration that is on disk is the one the next start loads.\<close>

lemma durable_loads:
  assumes d: "durable v c st" and f: "\<forall>ov. faithful v c ov" and "normalized v c = Inr c"
  shows "\<exists>w. load v st = (Inr (c, w), st)"
proof -
  from d obtain plain ov where p: "v_text v c = Some plain" "length (snapshot_text v ov plain) \<le> MAX_CONFIG_BYTES"
    "sf_snapshot st = Some (snapshot_text v ov plain) \<or> sf_snapshot st = Some plain \<and> sf_config st = Some plain"
    and wf: "wf_config (v_ua v) (v_js v) c"
    by (auto simp: durable_def)
  have "length plain \<le> MAX_CONFIG_BYTES" using p(2) snapshot_text_length [of plain v ov] by simp
  moreover have "faithful v c ov" using f by simp
  moreover have "checked v c = Inr c" using wf by (simp add: checked_Inr)
  ultimately have "Store.read_file v (sf_snapshot st) = Inr c"
    using p assms(3) parse_committed [of v c ov, OF _ wf p(1)] by (auto simp: Store.read_file_def read_text_def)
  then show ?thesis using p(3) by (intro load_snapshot) auto
qed


fun serve :: "daemon_env \<Rightarrow> request list \<Rightarrow> daemon \<Rightarrow> daemon option" where
  "serve v [] s = Some s"
| "serve v (rq # rqs) s = Option.bind (dispatch v rq s) (\<lambda>(_, t). serve v rqs t)"

definition changes :: "request list \<Rightarrow> nat" where
  "changes rqs = length (filter (\<lambda>rq. mutates_config (rq_command rq)) rqs)"

definition remembered :: "(string \<times> string \<times> reply) \<Rightarrow> nat \<Rightarrow> daemon \<Rightarrow> bool" where
  "remembered e k s = (session_ok s \<and> (\<exists>pre post. ds_completed s = pre @ e # post \<and> length post + k \<le> 31))"

lemma rememberedI:
  "session_ok s \<Longrightarrow> ds_completed s = pre @ e # post \<Longrightarrow> length post + k \<le> 31 \<Longrightarrow> remembered e k s"
  unfolding remembered_def by blast

lemma remembered_less: "remembered e m s \<Longrightarrow> k \<le> m \<Longrightarrow> remembered e k s"
  unfolding remembered_def by (meson add_le_mono le_refl le_trans)

lemma remembered_complete:
  assumes "q = pre @ e # post" and "length post + Suc k \<le> 31"
  shows "\<exists>pre post. complete i sg x q = pre @ e # post \<and> length post + k \<le> 31"
proof (cases "32 < length (q @ [(i, sg, x)])")
  case True
  with assms obtain p ps where "pre = p # ps" by (cases pre) auto
  with True assms have "complete i sg x q = ps @ e # (post @ [(i, sg, x)])" by (simp add: complete_def)
  with assms(2) show ?thesis by (intro exI [of _ ps] exI [of _ "post @ [(i, sg, x)]"]) simp
next
  case False
  then have "complete i sg x q = pre @ e # (post @ [(i, sg, x)])" by (simp add: complete_def assms(1))
  with assms(2) show ?thesis by (intro exI [of _ pre] exI [of _ "post @ [(i, sg, x)]"]) simp
qed

lemma remembered_step:
  assumes r: "remembered e (changes [rq] + k) s" and d: "dispatch v rq s = Some (resp, t)"
  shows "remembered e k t"
proof -
  from r obtain pre post where q: "ds_completed s = pre @ e # post" "length post + (changes [rq] + k) \<le> 31"
    and ok: "session_ok s" by (auto simp: remembered_def)
  have ok': "session_ok t" using dispatch_outcome [OF d ok] by simp
  have "ds_completed t = ds_completed s \<or> changes [rq] = 1 \<and>
      (\<exists>sg x. ds_completed t = complete (rq_id rq) sg x (ds_completed s))"
    using d
  proof (cases rule: dispatch_cases)
    case (2 r)
    from 2(1) show ?thesis by (cases rule: apply_request_cases) (auto simp: changes_def)
  qed simp
  then show ?thesis
  proof
    assume "ds_completed t = ds_completed s"
    with q ok' show ?thesis by (intro rememberedI [of t pre e post]) simp_all
  next
    assume c: "changes [rq] = 1 \<and> (\<exists>sg x. ds_completed t = complete (rq_id rq) sg x (ds_completed s))"
    then have "length post + Suc k \<le> 31" using q(2) by simp
    with c q(1) ok' remembered_complete show ?thesis unfolding remembered_def by metis
  qed
qed

lemma changes_Cons: "changes (rq # rqs) = changes [rq] + changes rqs"
  by (simp add: changes_def)

lemma remembered_serve:
  "remembered e (changes rqs) s \<Longrightarrow> serve v rqs s = Some u \<Longrightarrow> remembered e 0 u"
proof (induction rqs arbitrary: s)
  case Nil
  then show ?case by (simp add: changes_def)
next
  case (Cons rq rqs)
  then obtain resp t where d: "dispatch v rq s = Some (resp, t)" and u: "serve v rqs t = Some u"
    by (auto simp: bind_eq_Some_conv)
  have "remembered e (changes rqs) t"
    using Cons.prems(1) d unfolding changes_Cons [of rq rqs] by (rule remembered_step)
  then show ?case using u by (rule Cons.IH)
qed

lemma mutation_not_probe: "mutates_config c \<Longrightarrow> \<not> is_probe c"
  by (cases c) simp_all

lemma dispatch_mutation:
  "mutates_config (rq_command rq) \<Longrightarrow> \<not> bad_id (rq_id rq) \<Longrightarrow> rq_version rq = API_VERSION \<Longrightarrow>
     dispatch v rq s = map_option (\<lambda>(r, t). (case r of Inr x \<Rightarrow> success (rq_id rq) x | Inl e \<Rightarrow> failure (rq_id rq) e, t))
       (apply_request v rq s)"
  by (simp add: dispatch_def mutation_not_probe)

lemma apply_remembered:
  assumes "remembered (rq_id rq, sg, x) 0 s" and "mutates_config (rq_command rq)" and "\<not> bad_id (rq_id rq)"
    and "dv_sign v (rq_command rq, rq_expected rq) = Some sg'"
  shows "apply_request v rq s = Some (if sg = sg' then Inr x else Inl RequestIdReused, s)"
proof -
  have "(rq_id rq, sg, x) \<in> set (ds_completed s)" "distinct (map fst (ds_completed s))"
    using assms(1) by (auto simp: remembered_def session_ok_def)
  then have "List.find (\<lambda>(j, _, _). j = rq_id rq) (ds_completed s) = Some (rq_id rq, sg, x)"
    by (intro find_entry)
  with assms(2-) show ?thesis by (auto simp: apply_request_def dbind_def dlift_def)
qed

lemma fresh_remembered:
  assumes "session_ok s" and "dispatch v rq s = Some (resp, t)" and "mutates_config (rq_command rq)"
    and "rs_ok resp" and "\<not> known s (rq_id rq)"
  obtains sg x where "dv_sign v (rq_command rq, rq_expected rq) = Some sg" "resp = success (rq_id rq) x"
    "remembered (rq_id rq, sg, x) 31 t" "\<not> bad_id (rq_id rq)" "rq_version rq = API_VERSION"
proof -
  have front: "\<not> bad_id (rq_id rq)" "rq_version rq = API_VERSION"
    using assms(2,4) by (auto simp: dispatch_def failure_def split: if_splits)
  from assms(2,3) front obtain r where r: "apply_request v rq s = Some (r, t)"
    "resp = (case r of Inr x \<Rightarrow> success (rq_id rq) x | Inl e \<Rightarrow> failure (rq_id rq) e)"
    by (auto simp: dispatch_mutation)
  with assms(4) obtain x where x: "r = Inr x" by (cases r) (auto simp: failure_def)
  obtain sg where sg: "dv_sign v (rq_command rq, rq_expected rq) = Some sg"
    using r(1) x assms(3) front
    by (cases "dv_sign v (rq_command rq, rq_expected rq)") (auto simp: apply_request_def dbind_def dlift_def)
  have "List.find (\<lambda>(i, _, _). i = rq_id rq) (ds_completed s) = None"
    using assms(5) unfolding find_known known_def .
  with r(1) x sg assms(3) front obtain u where u: "apply_inner v rq s = Some (Inr x, u)"
    "ds_completed t = complete (rq_id rq) sg x (ds_completed u)"
    by (auto simp: apply_request_def dbind_Inr_iff dlift_iff)
  have "session_ok t" using dispatch_outcome [OF assms(2,1)] by simp
  moreover have "\<exists>pre. ds_completed t = pre @ [(rq_id rq, sg, x)]"
    unfolding u(2) complete_def Let_def by (cases "ds_completed u") auto
  ultimately have "remembered (rq_id rq, sg, x) 31 t" unfolding remembered_def by auto
  with that sg front r(2) x show ?thesis by simp
qed

text \<open>
  Property C3. A change is carried out at most once. If a request that changes the
  configuration succeeded, then sending it again gets the same answer and changes nothing, as
  long as fewer than 32 other changes came between; its id with other parameters is refused,
  also without effect.
\<close>

theorem requests_carried_out_once:
  assumes "session_ok s" and "dispatch v rq s = Some (resp, t)" and "mutates_config (rq_command rq)"
    and "rs_ok resp" and "\<not> known s (rq_id rq)"
    and "serve v rqs t = Some u" and "changes rqs < 32"
  shows "dispatch v rq u = Some (resp, u) \<and>
    (\<forall>rq'. rq_id rq' = rq_id rq \<and> mutates_config (rq_command rq') \<and> rq_version rq' = API_VERSION \<and>
       dv_sign v (rq_command rq', rq_expected rq') \<notin> {None, dv_sign v (rq_command rq, rq_expected rq)} \<longrightarrow>
       dispatch v rq' u = Some (failure (rq_id rq) RequestIdReused, u))"
proof -
  obtain sg x where sg: "dv_sign v (rq_command rq, rq_expected rq) = Some sg" and x: "resp = success (rq_id rq) x"
    and r: "remembered (rq_id rq, sg, x) 31 t" and front: "\<not> bad_id (rq_id rq)" "rq_version rq = API_VERSION"
    using fresh_remembered [OF assms(1-5)] by metis
  from r have "remembered (rq_id rq, sg, x) (changes rqs) t" by (rule remembered_less) (use assms(7) in simp)
  then have u: "remembered (rq_id rq, sg, x) 0 u" using assms(6) by (rule remembered_serve)
  have again: "dispatch v rq u = Some (resp, u)"
    using apply_remembered [OF u assms(3) front(1) sg] by (simp add: dispatch_mutation assms(3) front x)
  have other: "dispatch v rq' u = Some (failure (rq_id rq) RequestIdReused, u)"
    if "rq_id rq' = rq_id rq" "mutates_config (rq_command rq')" "rq_version rq' = API_VERSION"
      "dv_sign v (rq_command rq', rq_expected rq') = Some sg'" "sg' \<noteq> sg" for rq' sg'
    using apply_remembered [of rq' sg x u v sg'] that u front(1)
    by (simp add: dispatch_mutation)
  with again sg show ?thesis by auto
qed

text \<open>
  Property C36. A change based on an outdated revision is refused with the current one, and
  nothing at all changes.
\<close>

theorem stale_change_refused:
  assumes "mutates_config (rq_command rq)" and "\<not> bad_id (rq_id rq)" and "rq_version rq = API_VERSION"
    and "dv_sign v (rq_command rq, rq_expected rq) = Some sg" and "\<not> known s (rq_id rq)"
    and "rq_expected rq = Some r" and "r \<noteq> revision (ds_config s)"
  shows "dispatch v rq s = Some (failure (rq_id rq) (RevisionConflict (revision (ds_config s))), s)"
proof -
  have "List.find (\<lambda>(i, _, _). i = rq_id rq) (ds_completed s) = None"
    using assms(5) unfolding find_known known_def .
  with assms show ?thesis
    by (simp add: dispatch_mutation apply_request_def dbind_def dlift_def apply_inner_def)
qed

section \<open>A status reply fits its frame\<close>

text \<open>The same report, with at most its last error cut short.\<close>

definition shortened :: "forward_status \<Rightarrow> forward_status \<Rightarrow> bool" where
  "shortened a b = (b\<lparr>st_last_error := st_last_error a\<rparr> = a \<and> (st_last_error a = None \<longleftrightarrow> st_last_error b = None))"

lemma shortened_refl [simp]: "shortened a a"
  by (simp add: shortened_def)

lemma shortened_trans: "shortened a b \<Longrightarrow> shortened b c \<Longrightarrow> shortened a c"
proof -
  assume ab: "shortened a b" and bc: "shortened b c"
  have "c\<lparr>st_last_error := st_last_error a\<rparr> =
      c\<lparr>st_last_error := st_last_error b\<rparr>\<lparr>st_last_error := st_last_error a\<rparr>" by simp
  also have "\<dots> = a" using ab bc by (simp only: shortened_def)
  finally show "shortened a c" using ab bc by (simp add: shortened_def)
qed

lemma shortened_shorten: "shortened a (shorten n a)"
proof (cases "st_last_error a")
  case None
  then show ?thesis by (simp add: shorten_def)
next
  case (Some e)
  then have "a\<lparr>st_last_error := Some e\<rparr> = a" by (cases a) simp
  with Some show ?thesis by (simp add: shorten_def shortened_def)
qed

definition same_status :: "status_snapshot \<Rightarrow> status_snapshot \<Rightarrow> bool" where
  "same_status a b = (ss_instance b = ss_instance a \<and> ss_revision b = ss_revision a \<and>
     list_all2 shortened (ss_forwards a) (ss_forwards b))"

lemma shortened_all_trans:
  "list_all2 shortened xs ys \<Longrightarrow> list_all2 shortened ys zs \<Longrightarrow> list_all2 shortened xs zs"
  by (rule list_all2_trans [of shortened shortened shortened]) (rule shortened_trans)

lemma same_status_trans: "same_status a b \<Longrightarrow> same_status b c \<Longrightarrow> same_status a c"
  by (auto simp: same_status_def elim: shortened_all_trans)

lemma same_status_shorten: "same_status s (s\<lparr>ss_forwards := map (shorten n) (ss_forwards s)\<rparr>)"
  by (auto simp: same_status_def list_all2_map2 shortened_shorten intro: list_all2_refl)

lemma bounded_from_result:
  "bounded_from v c b limit snap = r \<Longrightarrow>
     (case r of
        Inr x \<Rightarrow> \<exists>snap' n. same_status snap snap' \<and> x = status_reply b c snap' \<and> dv_json v x = Some n \<and> n \<le> BUDGET
      | Inl e \<Rightarrow> e = EncodingFailed \<or> e = ResponseTooLarge)"
proof (induction v c b limit snap rule: bounded_from.induct)
  case (1 v c b limit snap)
  let ?r = "status_reply b c snap" and ?short = "snap\<lparr>ss_forwards := map (shorten limit) (ss_forwards snap)\<rparr>"
  have same: "same_status snap snap" by (simp add: same_status_def list_all2_refl)
  consider "dv_json v ?r = None" | n where "dv_json v ?r = Some n" "n \<le> BUDGET"
    | n where "dv_json v ?r = Some n" "\<not> n \<le> BUDGET" "limit < 64"
    | n where "dv_json v ?r = Some n" "\<not> n \<le> BUDGET" "\<not> limit < 64"
    by (cases "dv_json v ?r") auto
  then show ?case
  proof cases
    case (4 n)
    have r: "bounded_from v c b (limit div 2) ?short = r"
      using "1.prems" 4 by (subst (asm) bounded_from.simps) simp
    from "1.IH" [OF refl 4(2,3) r] same_status_shorten [of snap limit] show ?thesis
      by (auto split: sum.splits intro: same_status_trans)
  qed (use "1.prems" same in \<open>subst (asm) bounded_from.simps, auto\<close>)+
qed


section \<open>A sample daemon\<close>

text \<open>Its draft is the applied configuration with every rule stopped.\<close>

definition reload_store_env :: store_env where
  "reload_store_env = sample_env
     \<lparr>v_toml := (\<lambda>t. Some (if t = ''plain'' then sample_config else stopped 7 sample_config)),
      v_text := (\<lambda>_. Some ''draft'')\<rparr>"

definition sample_daemon_env :: daemon_env where
  "sample_daemon_env = \<lparr>dv_store = reload_store_env, dv_route = (\<lambda>_. ''route''), dv_finished = (\<lambda>_. False),
     dv_iter = (\<lambda>_. []), dv_enc = (\<lambda>_. None), dv_dec = (\<lambda>_. None), dv_now = 0, dv_weigh = (\<lambda>_. Some 1),
     dv_json = (\<lambda>_. Some 1), dv_sign = (\<lambda>(c, _). if c = Reload then Some ''reload'' else Some ''other''),
     dv_probe = (\<lambda>_ _. Inl UnexpectedRequest), dv_warning = (\<lambda>_. []), dv_load_warning = (\<lambda>_. []),
     dv_failure = (\<lambda>_. [])\<rparr>"

definition empty_journal :: journal where
  "empty_journal = \<lparr>jo_instance = ''d1'', jo_disk = \<lparr>active = None, archived = None\<rparr>, jo_sequence = 0,
     jo_events = [], jo_labels = [], jo_label_order = [], jo_server_labels = [], jo_server_order = []\<rparr>"

definition sample_daemon :: daemon where
  "sample_daemon = \<lparr>ds_instance = ''d1'', ds_config = sample_config, ds_store = sample_store,
     ds_engine = new_engine, ds_journal = empty_journal, ds_completed = [], ds_stop = False\<rparr>"

definition sample_request :: "string \<Rightarrow> u64 option \<Rightarrow> command \<Rightarrow> request" where
  "sample_request i r c = \<lparr>rq_version = API_VERSION, rq_id = i, rq_expected = r, rq_command = c\<rparr>"

lemma sample_stopped: "unat r < 2 ^ 63 \<Longrightarrow> checked reload_store_env (stopped r sample_config) = Inr (stopped r sample_config)"
  using wf_stopped [OF sample_wf, of r] by (simp add: checked_Inr reload_store_env_def small_json_def)

lemma sample_no_overrides: "read_overrides reload_store_env (sf_snapshot sample_store) = Inr []"
  by (simp add: sample_store_def read_overrides_def read_text_def MAX_CONFIG_BYTES_def str_lines_def PREFIX_def)

lemma sample_candidate_read:
  "read_candidate reload_store_env sample_store =
     (Inr (stopped 7 sample_config), sample_store\<lparr>sf_read := Some (Present ''draft'')\<rparr>)"
proof -
  have p: "parse_text reload_store_env ''draft'' = Inr (stopped 7 sample_config)"
    using sample_current by (simp add: parse_text_def reload_store_env_def migrate_current)
  have n: "normalized reload_store_env (stopped 7 sample_config) = Inr (stopped 7 sample_config)"
    using sample_normalized [of "stopped 7 sample_config"] by (simp add: reload_store_env_def normalized_def)
  have "List.map_filter (obey []) xs = xs" for xs by (induction xs) (simp_all add: List.map_filter_simps obey_def)
  then have "apply_overrides [] c = c" for c by (simp add: apply_overrides_def)
  then have "parse_candidate_version reload_store_env (Present ''draft'') sample_store = Inr (stopped 7 sample_config)"
    using sample_stopped [of 7] by (simp add: parse_candidate_version_def p n sample_no_overrides)
  then show ?thesis by (simp add: read_candidate_def sbind_def sask_def sample_candidate)
qed

lemma sample_reload_commits:
  "\<exists>ws t. commit_reload reload_store_env (stopped 8 sample_config)
     (sample_store\<lparr>sf_read := Some (Present ''draft'')\<rparr>) = (Inr ws, t)"
proof -
  have "sample_store\<lparr>sf_rescued := []\<rparr> = sample_store" "sample_store\<lparr>sf_read := None\<rparr> = sample_store"
    "sf_snapshot sample_store = Some ''plain''"
    by (simp_all add: sample_store_def)
  moreover have "\<exists>ws t. commit_with_overrides reload_store_env (stopped 8 sample_config) []
      (Some (Present ''draft'')) (sample_store\<lparr>sf_rescued := []\<rparr>) = (Inr ws, t)"
  proof (rule sample_commits)
    show "checked reload_store_env (stopped 8 sample_config) = Inr (stopped 8 sample_config)"
      by (rule sample_stopped) simp
  qed (simp_all add: reload_store_env_def snapshot_text_def MAX_CONFIG_BYTES_def)
  ultimately show ?thesis
    using sample_no_overrides
    by (simp add: commit_reload_def sbind_def sask_def require_snapshot_def take_read_def sreturn_def rebase_def)
qed

lemma finish_commit_total:
  assumes "journal_ok (ds_journal s)"
  shows "\<exists>reply t. finish_commit v c msg ws selected s = Some (Inr reply, t)"
proof -
  obtain j where j: "Journal.set_config (dv_iter v) (ds_config s) (ds_journal s) = Some j" "journal_ok j"
    using set_config_ok [OF assms] by blast
  obtain k where k: "Journal.set_config (dv_iter v) c j = Some k" using set_config_ok [OF j(2)] by blast
  show ?thesis
    by (simp add: finish_commit_def Let_def dbind_def journaled_def j k converge_def dreturn_def split: prod.split)
qed

lemma sample_journal_ok: "journal_ok empty_journal"
  by (simp add: journal_ok_def catalog_ok_def empty_journal_def)

lemma sample_reload:
  "\<exists>x t. dispatch sample_daemon_env (sample_request ''r1'' (Some 7) Reload) sample_daemon = Some (success ''r1'' x, t) \<and>
     ds_config t = stopped 8 sample_config"
proof -
  let ?v = sample_daemon_env
  obtain ws st where c: "commit_reload reload_store_env (stopped 8 sample_config)
      (sample_store\<lparr>sf_read := Some (Present ''draft'')\<rparr>) = (Inr ws, st)"
    using sample_reload_commits by blast
  define s1 where "s1 = sample_daemon\<lparr>ds_store := sample_store\<lparr>sf_read := Some (Present ''draft'')\<rparr>\<rparr>"
  define s2 where "s2 = s1\<lparr>ds_store := st\<rparr>"
  have v: "dv_store ?v = reload_store_env" "v_ua reload_store_env = no_ext" "v_js reload_store_env = small_json" "dv_json ?v r = Some 1" for r
    by (simp_all add: sample_daemon_env_def reload_store_env_def)
  have rev: "revision (ds_config s1) = 7" by (simp add: s1_def sample_daemon_def sample_config_def)
  have "validate no_ext small_json (stopped 8 sample_config) = Inr ()"
    using wf_stopped [OF sample_wf, of 8] by (simp add: validate_iff_wf small_json_def)
  then have ok: "validate no_ext small_json ((stopped 7 sample_config)\<lparr>revision := 8\<rparr>) = Inr ()"
    by (simp add: stopped_def)
  have "prepare_commit ?v (stopped 7 sample_config) s1 = Inr ((stopped 7 sample_config)\<lparr>revision := 8\<rparr>)"
    by (simp add: prepare_commit_def v rev ok checked_add_def Let_def)
  then have p: "prepare_commit ?v (stopped 7 sample_config) s1 = Inr (stopped 8 sample_config)"
    by (simp add: stopped_def)
  have journal: "journal_ok (ds_journal s2)" using sample_journal_ok by (simp add: s2_def s1_def sample_daemon_def)
  obtain reply t where f: "finish_commit ?v (stopped 8 sample_config) ''configuration reloaded'' ws None s2 = Some (Inr reply, t)"
    using finish_commit_total [of s2 ?v "stopped 8 sample_config" "''configuration reloaded''" ws None] journal by blast
  have t: "ds_config t = stopped 8 sample_config" using finish_commit_result [OF f] by simp
  have r: "commit_reloaded ?v (stopped 7 sample_config) ''configuration reloaded'' s1 = Some (Inr reply, t)"
    using f by (simp add: commit_reloaded_def dbind_def p stored_def v) (simp add: s1_def c s2_def)
  have "stored DraftRejected (read_candidate (dv_store ?v)) sample_daemon = Some (Inr (stopped 7 sample_config), s1)"
    by (simp add: stored_def v s1_def) (simp add: sample_daemon_def sample_candidate_read)
  then have "\<exists>x u. reload ?v sample_daemon = Some (Inr x, u) \<and> ds_config u = stopped 8 sample_config"
    using r t by (simp add: reload_def dbind_def encode_def v Let_def split: prod.split)
  then obtain x u where "reload ?v sample_daemon = Some (Inr x, u)" "ds_config u = stopped 8 sample_config" by blast
  moreover have "revision (ds_config sample_daemon) = 7" "ds_completed sample_daemon = []" "dv_sign ?v (Reload, r) = Some ''reload''" for r
    by (simp_all add: sample_daemon_def sample_config_def sample_daemon_env_def)
  ultimately show ?thesis
    by (simp add: dispatch_def bad_id_def sample_request_def apply_request_def dbind_def dlift_def apply_inner_def)
      blast
qed

lemma sample_session: "session_ok sample_daemon" "\<not> known sample_daemon i"
  by (simp_all add: session_ok_def known_def sample_daemon_def)


lemma requests_carried_out_once_witness:
  "\<exists>resp t. dispatch sample_daemon_env (sample_request ''r1'' (Some 7) Reload) sample_daemon = Some (resp, t) \<and>
     dispatch sample_daemon_env (sample_request ''r1'' (Some 7) Reload) t = Some (resp, t) \<and>
     dispatch sample_daemon_env (sample_request ''r1'' None (RemoveServer ''srv-a'')) t =
       Some (failure ''r1'' RequestIdReused, t)"
proof -
  obtain x t where d: "dispatch sample_daemon_env (sample_request ''r1'' (Some 7) Reload) sample_daemon =
      Some (success ''r1'' x, t)"
    using sample_reload by blast
  define p where "p = sample_request ''p1'' None Ping"
  have "dispatch sample_daemon_env p t = Some (success ''p1'' (Pong (ds_instance t)), t)"
    by (simp add: dispatch_def p_def sample_request_def bad_id_def apply_request_def apply_inner_def)
  then have "serve sample_daemon_env [p] t = Some t" by simp
  moreover have "changes [p] < 32" by (simp add: changes_def p_def sample_request_def)
  moreover have "mutates_config (rq_command (sample_request ''r1'' (Some 7) Reload))" "rs_ok (success ''r1'' x)"
    by (simp_all add: sample_request_def success_def)
  ultimately have "dispatch sample_daemon_env (sample_request ''r1'' (Some 7) Reload) t = Some (success ''r1'' x, t) \<and>
      dispatch sample_daemon_env (sample_request ''r1'' None (RemoveServer ''srv-a'')) t =
        Some (failure ''r1'' RequestIdReused, t)"
    using requests_carried_out_once [OF sample_session(1) d _ _ sample_session(2), of "[p]" t]
    by (auto simp: sample_request_def sample_daemon_env_def)
  with d show ?thesis by blast
qed

lemma stale_change_refused_witness:
  "dispatch sample_daemon_env (sample_request ''r2'' (Some 6) Reload) sample_daemon =
     Some (failure ''r2'' (RevisionConflict 7), sample_daemon)"
proof -
  have "revision (ds_config sample_daemon) = 7" by (simp add: sample_daemon_def sample_config_def)
  with stale_change_refused [of "sample_request ''r2'' (Some 6) Reload" sample_daemon_env "''reload''" sample_daemon 6]
    sample_session(2)
  show ?thesis by (simp add: sample_request_def bad_id_def sample_daemon_env_def)
qed

end
