(* ===== verification/Fencing.thy ===== *)
theory Fencing
  imports Store
begin

text \<open>
  Ownership of remote listeners across restarts, \<open>crates/fwm-core/src/cleanup/context.rs\<close> and
  \<open>cleanup/error.rs\<close>. A manager has one identity, and every attempt to own a listener takes the
  next generation of its rule; both are kept in \<open>recovery.json\<close>, which is read and replaced
  under a lock. JSON, the UUID check and the hash of rule ids are parameters in \<open>fence_env\<close>;
  every access takes its outcome from \<open>lg_faults\<close>.
\<close>

section \<open>Errors\<close>

datatype cleanup_error =
    CleanupState string | CleanupSsh string | CleanupTimeout string | CleanupRemote string string
  | CleanupProtocol string | CleanupIo string

fun cleanup_text :: "cleanup_error \<Rightarrow> string" where
  "cleanup_text (CleanupState e) = ''remote recovery state could not be saved: '' @ e"
| "cleanup_text (CleanupSsh e) = ''remote recovery SSH operation failed: '' @ e"
| "cleanup_text (CleanupTimeout operation) =
     ''remote recovery '' @ operation @ '' timed out; the remote result remains unconfirmed''"
| "cleanup_text (CleanupRemote c m) = ''remote recovery '' @ c @ '': '' @ m"
| "cleanup_text (CleanupProtocol e) = ''remote recovery helper protocol error: '' @ e"
| "cleanup_text (CleanupIo e) = ''remote recovery helper I/O error: '' @ e"

definition transient_codes :: "string list" where
  "transient_codes = [''busy'', ''temporarily_unavailable'', ''cleanup_pending'', ''unmanaged_conflict'',
     ''helper_disconnected'']"

fun needs_attention :: "cleanup_error \<Rightarrow> bool" where
  "needs_attention (CleanupSsh _) = False"
| "needs_attention (CleanupTimeout _) = False"
| "needs_attention (CleanupIo _) = False"
| "needs_attention (CleanupRemote c _) = (c \<notin> set transient_codes)"
| "needs_attention (CleanupState _) = True"
| "needs_attention (CleanupProtocol _) = True"

section \<open>The ledger\<close>

record recovery_state =
  rv_version :: u32
  rv_owner :: string
  rv_generations :: "(string \<times> u64) list"

record claim =
  cl_op :: string
  cl_owner_id :: string
  cl_rule_id :: string
  cl_generation :: u64
  cl_session_id :: string
  cl_listen_host :: string
  cl_listen_port :: u16

record fence_env =
  fe_decode :: "string \<Rightarrow> string + recovery_state"
  fe_encode :: "recovery_state \<Rightarrow> string + string"
  fe_uuid :: "string \<Rightarrow> bool"
  fe_rule_id :: "string \<Rightarrow> string"
  fe_os_error :: string
  fe_path :: string
  fe_lock_path :: string

record ledger =
  lg_lock_link :: bool
  lg_link :: bool
  lg_file :: "string option"
  lg_faults :: "io_outcome list"

type_synonym 'a fenced = "ledger \<Rightarrow> (cleanup_error + 'a) \<times> ledger"

definition fbind :: "'a fenced \<Rightarrow> ('a \<Rightarrow> 'b fenced) \<Rightarrow> 'b fenced" where
  "fbind m f l = (case m l of (Inl e, t) \<Rightarrow> (Inl e, t) | (Inr a, t) \<Rightarrow> f a t)"

definition flift :: "cleanup_error + 'a \<Rightarrow> 'a fenced" where
  "flift m l = (m, l)"

definition regular :: "string \<Rightarrow> bool \<Rightarrow> unit fenced" where
  "regular path link = flift (rguard link (CleanupState (''refusing symlink '' @ path)))"

definition access :: "io_outcome fenced" where
  "access l = (case lg_faults l of [] \<Rightarrow> (Inr Done, l) | f # fs \<Rightarrow> (Inr f, l\<lparr>lg_faults := fs\<rparr>))"

definition lock_file :: "fence_env \<Rightarrow> unit fenced" where
  "lock_file v l =
     fbind (regular (fe_lock_path v) (lg_lock_link l)) (\<lambda>_.
     fbind access (\<lambda>f.
     flift (rguard (f = Failed) (CleanupIo (fe_os_error v))))) l"

definition load_ledger :: "fence_env \<Rightarrow> recovery_state fenced" where
  "load_ledger v l =
     fbind (regular (fe_path v) (lg_link l)) (\<lambda>_.
     fbind (flift (ok_or (lg_file l) (CleanupIo (fe_os_error v)))) (\<lambda>bytes.
     fbind (flift (map_err CleanupState (fe_decode v bytes))) (\<lambda>st.
     fbind (flift (rguard (rv_version st \<noteq> 1 \<or> \<not> fe_uuid v (rv_owner st))
        (CleanupState ''invalid recovery state identity/version; refusing to recreate ownership''))) (\<lambda>_.
     flift (Inr st))))) l"

text \<open>A staged file replaces the ledger; the directory may fail to sync after that.\<close>

definition save_ledger :: "fence_env \<Rightarrow> recovery_state \<Rightarrow> unit fenced" where
  "save_ledger v st l =
     fbind (regular (fe_path v) (lg_link l)) (\<lambda>_.
     fbind (flift (map_err CleanupState (fe_encode v st))) (\<lambda>bytes.
     fbind access (\<lambda>f l.
     if f = Failed then (Inl (CleanupIo (fe_os_error v)), l)
     else (if f = Unsynced then Inl (CleanupIo (fe_os_error v)) else Inr (), l\<lparr>lg_file := Some bytes\<rparr>)))) l"

section \<open>Operations\<close>

text \<open>The identity of a context is the one on disk; only a missing ledger gets a new one.\<close>

definition open_context :: "fence_env \<Rightarrow> string \<Rightarrow> string fenced" where
  "open_context v new_owner =
     fbind (lock_file v) (\<lambda>_ l.
     fbind (if lg_file l \<noteq> None then load_ledger v
        else (let st = \<lparr>rv_version = 1, rv_owner = new_owner, rv_generations = []\<rparr>
              in fbind (save_ledger v st) (\<lambda>_. flift (Inr st)))) (\<lambda>st.
     flift (Inr (rv_owner st))) l)"

definition next_generation :: "string \<Rightarrow> recovery_state \<Rightarrow> cleanup_error + u64" where
  "next_generation rule_id st =
     ok_or (checked_add (case map_of (rv_generations st) rule_id of None \<Rightarrow> 0 | Some n \<Rightarrow> n) 1)
       (CleanupState ''recovery generation exhausted'')"

definition reserve :: "fence_env \<Rightarrow> string \<Rightarrow> string \<Rightarrow> forward_spec \<Rightarrow> claim fenced" where
  "reserve v owner session_id spec =
     fbind (lock_file v) (\<lambda>_.
     fbind (load_ledger v) (\<lambda>st.
     fbind (flift (rguard (rv_owner st \<noteq> owner) (CleanupState ''manager identity changed while running''))) (\<lambda>_.
     let rule_id = fe_rule_id v (fs_id spec) in
     fbind (flift (next_generation rule_id st)) (\<lambda>generation.
     fbind (save_ledger v (st\<lparr>rv_generations := btree_insert rule_id generation (rv_generations st)\<rparr>)) (\<lambda>_.
     flift (Inr \<lparr>cl_op = ''claim'', cl_owner_id = rv_owner st, cl_rule_id = rule_id, cl_generation = generation,
        cl_session_id = session_id, cl_listen_host = show_ip (sock_ip (listen (fs_tunnel spec))),
        cl_listen_port = sock_port (listen (fs_tunnel spec))\<rparr>))))))"

section \<open>Results of the operations\<close>

named_theorems fence_simps "results of ledger operations"

lemma fbind_Inr_iff [fence_simps]:
  "fbind m f l = (Inr b, t) \<longleftrightarrow> (\<exists>a u. m l = (Inr a, u) \<and> f a u = (Inr b, t))"
  by (auto simp: fbind_def split: prod.splits sum.splits)

lemma fbind_iff:
  "fbind m f l = (r, t) \<longleftrightarrow> (\<exists>e. m l = (Inl e, t) \<and> r = Inl e) \<or> (\<exists>a u. m l = (Inr a, u) \<and> f a u = (r, t))"
  by (auto simp: fbind_def split: prod.splits sum.splits)

lemma flift_iff [fence_simps]: "flift m l = (r, t) \<longleftrightarrow> m = r \<and> t = l"
  by (auto simp: flift_def)

text \<open>What a ledger says: its owner and the last generation given to each rule.\<close>

definition stored :: "fence_env \<Rightarrow> ledger \<Rightarrow> recovery_state option" where
  "stored v l = (case lg_file l of
       None \<Rightarrow> None
     | Some bytes \<Rightarrow> (case fe_decode v bytes of
           Inl _ \<Rightarrow> None
         | Inr st \<Rightarrow> if rv_version st = 1 \<and> fe_uuid v (rv_owner st) then Some st else None))"

definition given :: "fence_env \<Rightarrow> ledger \<Rightarrow> string \<Rightarrow> nat" where
  "given v l i = (case stored v l of
       None \<Rightarrow> 0
     | Some st \<Rightarrow> (case map_of (rv_generations st) i of None \<Rightarrow> 0 | Some n \<Rightarrow> unat n))"

lemma regular_iff: "regular path b l = (r, t) \<longleftrightarrow> t = l \<and> r = rguard b (CleanupState (''refusing symlink '' @ path))"
  by (auto simp: regular_def flift_def)

lemma lock_file_result: "lock_file v l = (r, t) \<Longrightarrow> lg_file t = lg_file l \<and> lg_link t = lg_link l"
  by (auto simp: lock_file_def fbind_iff regular_iff flift_iff access_def split: list.splits)

lemma load_ledger_result:
  "load_ledger v l = (r, t) \<Longrightarrow> t = l \<and> (\<forall>st. r = Inr st \<longrightarrow> stored v l = Some st)"
  by (auto simp: load_ledger_def fbind_iff regular_iff flift_iff stored_def ok_or_def map_err_def
      result_simps split: option.splits sum.splits)

definition json_faithful :: "fence_env \<Rightarrow> bool" where
  "json_faithful v = (\<forall>st b. fe_encode v st = Inr b \<longrightarrow> fe_decode v b = Inr st)"

lemma save_ledger_result:
  "save_ledger v st l = (r, t) \<Longrightarrow>
     (lg_file t = lg_file l \<and> r \<noteq> Inr ()) \<or> (\<exists>b. fe_encode v st = Inr b \<and> lg_file t = Some b)"
  by (auto simp: save_ledger_def fbind_iff regular_iff flift_iff access_def map_err_def rguard_def
      split: list.splits if_splits sum.splits)

lemma stored_cong: "lg_file t = lg_file l \<Longrightarrow> stored v t = stored v l"
  by (simp add: stored_def)

lemma given_cong: "lg_file t = lg_file l \<Longrightarrow> given v t = given v l"
  by (rule ext) (simp add: given_def stored_def)

lemma saved_stored:
  assumes "json_faithful v" and "fe_encode v st = Inr b" and "lg_file t = Some b"
    and "rv_version st = 1" and "fe_uuid v (rv_owner st)"
  shows "stored v t = Some st"
  using assms by (simp add: json_faithful_def stored_def)

lemma stored_valid: "stored v l = Some st \<Longrightarrow> rv_version st = 1 \<and> fe_uuid v (rv_owner st)"
  by (auto simp: stored_def split: option.splits sum.splits if_splits)

lemma next_generation_Inr:
  "next_generation i st = Inr n \<Longrightarrow>
     unat n = (case map_of (rv_generations st) i of None \<Rightarrow> 0 | Some m \<Rightarrow> unat m) + 1"
  by (auto simp: next_generation_def ok_or_def dest!: unat_checked_add split: option.splits)

section \<open>Fencing\<close>

text \<open>What may happen to a ledger: its owner stays, and no generation goes back.\<close>

definition later :: "fence_env \<Rightarrow> ledger \<Rightarrow> ledger \<Rightarrow> bool" where
  "later v l t =
     ((\<forall>i. given v l i \<le> given v t i) \<and>
      (\<forall>st. stored v l = Some st \<longrightarrow> (\<exists>st'. stored v t = Some st' \<and> rv_owner st' = rv_owner st)) \<and>
      (lg_file l \<noteq> None \<and> stored v l = None \<longrightarrow> lg_file t = lg_file l))"

lemma later_same: "lg_file t = lg_file l \<Longrightarrow> later v l t"
  using stored_cong [of t l v] given_cong [of t l v] by (simp add: later_def)

lemma later_trans: "later v l t \<Longrightarrow> later v t u \<Longrightarrow> later v l u"
proof -
  assume lt: "later v l t" and tu: "later v t u"
  have "given v l i \<le> given v u i" for i
    using lt tu order_trans by (simp add: later_def) blast
  moreover have "lg_file u = lg_file l" if "lg_file l \<noteq> None" "stored v l = None"
  proof -
    from lt that have "lg_file t = lg_file l" by (simp add: later_def)
    with that have "lg_file t \<noteq> None" "stored v t = None" using stored_cong [of t l v] by simp_all
    with tu \<open>lg_file t = lg_file l\<close> show ?thesis by (simp add: later_def)
  qed
  moreover have "\<exists>st'. stored v u = Some st' \<and> rv_owner st' = rv_owner st" if "stored v l = Some st" for st
  proof -
    from lt that obtain st' where "stored v t = Some st'" "rv_owner st' = rv_owner st"
      by (auto simp: later_def)
    with tu show ?thesis by (auto simp: later_def)
  qed
  ultimately show ?thesis by (simp add: later_def)
qed

lemma reserve_steps:
  assumes "reserve v owner sid spec l = (r, t)"
  shows "lg_file t = lg_file l \<and> \<not> is_ok r \<or>
    (\<exists>st n b. stored v l = Some st \<and> next_generation (fe_rule_id v (fs_id spec)) st = Inr n \<and>
       fe_encode v (st\<lparr>rv_generations := btree_insert (fe_rule_id v (fs_id spec)) n (rv_generations st)\<rparr>) = Inr b \<and>
       lg_file t = Some b \<and>
       (\<forall>c. r = Inr c \<longrightarrow> cl_rule_id c = fe_rule_id v (fs_id spec) \<and> cl_generation c = n \<and> cl_owner_id c = rv_owner st))"
proof -
  obtain m x where lock: "lock_file v l = (x, m)" by (cases "lock_file v l") simp
  obtain y where load: "load_ledger v m = (y, m)"
    by (cases "load_ledger v m") (auto dest: load_ledger_result)
  note unchanged = lock_file_result [OF lock]
  show ?thesis
  proof (cases "\<exists>st. x = Inr () \<and> y = Inr st")
    case False
    with assms unchanged lock load show ?thesis
      by (cases x; cases y) (auto simp: reserve_def fbind_def)
  next
    case True
    then obtain st where x: "x = Inr ()" and y: "y = Inr st" by blast
    have sl: "stored v l = Some st"
      using load_ledger_result [OF load] stored_cong [of m l v] unchanged y by simp
    show ?thesis
    proof (cases "rv_owner st = owner")
      case False
      with assms unchanged lock load x y show ?thesis
        by (auto simp: reserve_def fbind_def flift_def rguard_def Let_def)
    next
      case owner: True
      show ?thesis
      proof (cases "next_generation (fe_rule_id v (fs_id spec)) st")
        case (Inl e)
        with assms unchanged lock load x y owner show ?thesis
          by (auto simp: reserve_def fbind_def flift_def rguard_def Let_def)
      next
        case (Inr n)
        with assms lock load x y owner unchanged sl show ?thesis
          by (auto simp: reserve_def fbind_def flift_def rguard_def Let_def dest!: save_ledger_result
              split: prod.splits sum.splits)
      qed
    qed
  qed
qed

lemma reserved_generation:
  assumes "json_faithful v" and "reserve v owner sid spec l = (r, t)"
  shows "later v l t \<and>
    (\<forall>c. r = Inr c \<longrightarrow> given v l (cl_rule_id c) < unat (cl_generation c) \<and>
       unat (cl_generation c) = given v t (cl_rule_id c) \<and> cl_rule_id c = fe_rule_id v (fs_id spec) \<and>
       map_option rv_owner (stored v t) = Some (cl_owner_id c))"
proof -
  let ?i = "fe_rule_id v (fs_id spec)"
  from assms(2) consider (same) "lg_file t = lg_file l" "\<not> is_ok r"
    | (saved) st n b where "stored v l = Some st" "next_generation ?i st = Inr n"
        "fe_encode v (st\<lparr>rv_generations := btree_insert ?i n (rv_generations st)\<rparr>) = Inr b" "lg_file t = Some b"
        "\<forall>c. r = Inr c \<longrightarrow> cl_rule_id c = ?i \<and> cl_generation c = n \<and> cl_owner_id c = rv_owner st"
    using reserve_steps [OF assms(2)] by blast
  then show ?thesis
  proof cases
    case same
    then show ?thesis by (auto simp: later_same)
  next
    case saved
    let ?st = "st\<lparr>rv_generations := btree_insert ?i n (rv_generations st)\<rparr>"
    have t: "stored v t = Some ?st"
      using saved stored_valid [OF saved(1)] by (intro saved_stored [OF assms(1)]) auto
    have n: "unat n = given v l ?i + 1"
      using next_generation_Inr [OF saved(2)] saved(1) by (simp add: given_def)
    have g: "given v t j = (if j = ?i then unat n else given v l j)" for j
      by (simp add: given_def t saved(1))
    show ?thesis using saved t n by (auto simp: later_def g)
  qed
qed

lemma open_result:
  assumes "json_faithful v" and "fe_uuid v new_owner" and "open_context v new_owner l = (r, t)"
  shows "later v l t"
proof -
  obtain m x where lock: "lock_file v l = (x, m)" by (cases "lock_file v l") simp
  note m = lock_file_result [OF lock]
  consider (stays) "lg_file t = lg_file l"
    | (created) b where "lg_file l = None" "fe_encode v \<lparr>rv_version = 1, rv_owner = new_owner, rv_generations = []\<rparr> = Inr b"
        "lg_file t = Some b"
  proof (cases "\<exists>e. x = Inl e \<or> lg_file m \<noteq> None")
    case True
    then have "lg_file t = lg_file l"
      using assms(3) m lock by (auto simp: open_context_def fbind_iff flift_iff dest: load_ledger_result)
    then show ?thesis by (rule stays)
  next
    case False
    with assms(3) m lock have "lg_file t = lg_file l \<or> lg_file l = None \<and>
      (\<exists>b. fe_encode v \<lparr>rv_version = 1, rv_owner = new_owner, rv_generations = []\<rparr> = Inr b \<and> lg_file t = Some b)"
      by (cases x) (auto simp: open_context_def fbind_iff Let_def flift_iff dest!: save_ledger_result)
    then show ?thesis using stays created by blast
  qed
  then show ?thesis
  proof cases
    case stays
    then show ?thesis by (rule later_same)
  next
    case created
    then have "stored v l = None" by (simp add: stored_def)
    with created show ?thesis by (simp add: later_def given_def)
  qed
qed

text \<open>Any number of managers and restarts, one operation after the other, as the lock orders them.\<close>

datatype fence_op = OpenContext string | ReserveClaim string string forward_spec

fun fence_run :: "fence_env \<Rightarrow> fence_op list \<Rightarrow> ledger \<Rightarrow> claim list \<times> ledger" where
  "fence_run v [] l = ([], l)"
| "fence_run v (OpenContext i # ops) l = fence_run v ops (snd (open_context v i l))"
| "fence_run v (ReserveClaim o' s f # ops) l =
     (let (r, t) = reserve v o' s f l; (cs, u) = fence_run v ops t
      in (case r of Inr c \<Rightarrow> c # cs | Inl _ \<Rightarrow> cs, u))"

definition opens_with_uuids :: "fence_env \<Rightarrow> fence_op list \<Rightarrow> bool" where
  "opens_with_uuids v ops = list_all (\<lambda>x. case x of OpenContext i \<Rightarrow> fe_uuid v i | _ \<Rightarrow> True) ops"

definition fenced_before :: "claim \<Rightarrow> claim \<Rightarrow> bool" where
  "fenced_before a b =
     (cl_owner_id a = cl_owner_id b \<and> (cl_rule_id a = cl_rule_id b \<longrightarrow> cl_generation a < cl_generation b))"

lemma carry:
  assumes "later v l m"
    and "given v m (cl_rule_id c) < unat (cl_generation c) \<and>
       (\<forall>st. stored v m = Some st \<longrightarrow> cl_owner_id c = rv_owner st) \<and> (lg_file m = None \<or> stored v m \<noteq> None)"
  shows "given v l (cl_rule_id c) < unat (cl_generation c) \<and>
       (\<forall>st. stored v l = Some st \<longrightarrow> cl_owner_id c = rv_owner st) \<and> (lg_file l = None \<or> stored v l \<noteq> None)"
proof -
  have "given v l (cl_rule_id c) \<le> given v m (cl_rule_id c)" using assms(1) by (simp add: later_def)
  moreover have "lg_file l = None \<or> stored v l \<noteq> None"
    using assms stored_cong [of m l v] by (auto simp: later_def)
  moreover have "cl_owner_id c = rv_owner st" if "stored v l = Some st" for st
  proof -
    from assms(1) that obtain st' where "stored v m = Some st'" "rv_owner st' = rv_owner st"
      by (auto simp: later_def)
    with assms(2) show ?thesis by auto
  qed
  ultimately show ?thesis using assms(2) by auto
qed

lemma fence_run_fenced:
  assumes "json_faithful v" and "opens_with_uuids v ops" and "fence_run v ops l = (cs, t)"
  shows "later v l t \<and> sorted_wrt fenced_before cs \<and>
    (\<forall>c \<in> set cs. given v l (cl_rule_id c) < unat (cl_generation c) \<and>
       (\<forall>st. stored v l = Some st \<longrightarrow> cl_owner_id c = rv_owner st) \<and> (lg_file l = None \<or> stored v l \<noteq> None))"
  using assms(2,3)
proof (induction ops arbitrary: l cs)
  case Nil
  then show ?case by (simp add: later_same)
next
  case (Cons x ops)
  show ?case
  proof (cases x)
    case (OpenContext i)
    let ?m = "snd (open_context v i l)"
    have lm: "later v l ?m"
      using Cons.prems(1) OpenContext
      by (intro open_result [OF assms(1), of i l "fst (open_context v i l)"]) (simp_all add: opens_with_uuids_def)
    have ih: "later v ?m t \<and> sorted_wrt fenced_before cs \<and>
      (\<forall>c \<in> set cs. given v ?m (cl_rule_id c) < unat (cl_generation c) \<and>
       (\<forall>st. stored v ?m = Some st \<longrightarrow> cl_owner_id c = rv_owner st) \<and> (lg_file ?m = None \<or> stored v ?m \<noteq> None))"
      using Cons.prems OpenContext by (intro Cons.IH) (simp_all add: opens_with_uuids_def)
    then show ?thesis using carry [OF lm] later_trans [OF lm] by blast
  next
    case (ReserveClaim o' s f)
    obtain r m where r: "reserve v o' s f l = (r, m)" by (cases "reserve v o' s f l")
    obtain ds where ds: "fence_run v ops m = (ds, t)"
      and cs: "cs = (case r of Inr c \<Rightarrow> c # ds | Inl _ \<Rightarrow> ds)"
      using Cons.prems(2) ReserveClaim r by (auto simp: Let_def split: prod.splits)
    note res = reserved_generation [OF assms(1) r]
    then have lm: "later v l m" by blast
    have ih: "later v m t \<and> sorted_wrt fenced_before ds \<and>
      (\<forall>c \<in> set ds. given v m (cl_rule_id c) < unat (cl_generation c) \<and>
       (\<forall>st. stored v m = Some st \<longrightarrow> cl_owner_id c = rv_owner st) \<and> (lg_file m = None \<or> stored v m \<noteq> None))"
      using Cons.prems(1) ReserveClaim ds by (intro Cons.IH) (simp_all add: opens_with_uuids_def)
    have tail: "later v l t \<and> (\<forall>c \<in> set ds. given v l (cl_rule_id c) < unat (cl_generation c) \<and>
       (\<forall>st. stored v l = Some st \<longrightarrow> cl_owner_id c = rv_owner st) \<and> (lg_file l = None \<or> stored v l \<noteq> None))"
      using ih carry [OF lm] later_trans [OF lm] by blast
    show ?thesis
    proof (cases r)
      case (Inl e)
      with tail ih cs show ?thesis by simp
    next
      case (Inr c)
      have "fenced_before c d" if "d \<in> set ds" for d
        using res ih that Inr by (auto simp: fenced_before_def word_less_nat_alt)
      moreover have "(\<forall>st. stored v l = Some st \<longrightarrow> cl_owner_id c = rv_owner st) \<and> (lg_file l = None \<or> stored v l \<noteq> None)"
        using res lm Inr stored_cong [of m l v] by (auto simp: later_def)
      ultimately show ?thesis using tail ih cs res Inr by auto
    qed
  qed
qed


definition sample_ledger :: "u64 \<Rightarrow> recovery_state" where
  "sample_ledger n = \<lparr>rv_version = 1, rv_owner = ''me'', rv_generations = (if n = 0 then [] else [(''r'', n)])\<rparr>"

definition sample_fence :: fence_env where
  "sample_fence = \<lparr>
     fe_decode = (\<lambda>b. case b of ''0'' \<Rightarrow> Inr (sample_ledger 0) | ''1'' \<Rightarrow> Inr (sample_ledger 1)
                   | ''2'' \<Rightarrow> Inr (sample_ledger 2) | _ \<Rightarrow> Inl ''expected value''),
     fe_encode = (\<lambda>st. if st = sample_ledger 0 then Inr ''0'' else if st = sample_ledger 1 then Inr ''1''
                    else if st = sample_ledger 2 then Inr ''2'' else Inl ''full''),
     fe_uuid = (\<lambda>s. s \<noteq> []), fe_rule_id = (\<lambda>_. ''r''), fe_os_error = ''I/O error'',
     fe_path = ''recovery.json'', fe_lock_path = ''recovery.lock''\<rparr>"

lemma sample_fence_faithful: "json_faithful sample_fence"
  by (auto simp: json_faithful_def sample_fence_def split: if_splits)

definition ledger_with :: "string option \<Rightarrow> io_outcome list \<Rightarrow> ledger" where
  "ledger_with b fs = \<lparr>lg_lock_link = False, lg_link = False, lg_file = b, lg_faults = fs\<rparr>"

definition claim_for :: "string \<Rightarrow> u64 \<Rightarrow> forward_spec \<Rightarrow> claim" where
  "claim_for s n f = \<lparr>cl_op = ''claim'', cl_owner_id = ''me'', cl_rule_id = ''r'', cl_generation = n, cl_session_id = s,
     cl_listen_host = show_ip (sock_ip (listen (fs_tunnel f))), cl_listen_port = sock_port (listen (fs_tunnel f))\<rparr>"

lemmas fence_eval = fbind_def flift_def regular_def access_def rguard_def Let_def ok_or_def map_err_def ledger_with_def

lemma sample_lock:
  "lock_file sample_fence (ledger_with b []) = (Inr (), ledger_with b [])"
  "lock_file sample_fence (ledger_with b (Done # fs)) = (Inr (), ledger_with b fs)"
  by (simp_all add: lock_file_def fence_eval sample_fence_def)

lemma sample_ledger_loads:
  "load_ledger sample_fence (ledger_with (Some ''0'') fs) = (Inr (sample_ledger 0), ledger_with (Some ''0'') fs)"
  "load_ledger sample_fence (ledger_with (Some ''1'') fs) = (Inr (sample_ledger 1), ledger_with (Some ''1'') fs)"
  by (simp_all add: load_ledger_def fence_eval sample_fence_def sample_ledger_def)

lemma sample_save:
  "save_ledger sample_fence (sample_ledger 0) (ledger_with b fs) = (Inr (), ledger_with (Some ''0'') (tl fs))"
  "save_ledger sample_fence (sample_ledger 1) (ledger_with b fs) = (Inr (), ledger_with (Some ''1'') (tl fs))"
  "save_ledger sample_fence (sample_ledger 2) (ledger_with b fs) = (Inr (), ledger_with (Some ''2'') (tl fs))"
  if "fs = [] \<or> hd fs = Done"
  using that by (cases fs; simp add: save_ledger_def fence_eval sample_fence_def sample_ledger_def)+

lemma sample_next:
  "next_generation ''r'' (sample_ledger 0) = Inr 1"
  "next_generation ''r'' (sample_ledger 1) = Inr 2"
  by (simp_all add: next_generation_def sample_ledger_def checked_add_def fence_eval)

lemma sample_bump:
  "(sample_ledger 0)\<lparr>rv_generations := btree_insert ''r'' 1 (rv_generations (sample_ledger 0))\<rparr>
     = sample_ledger 1"
  "(sample_ledger 1)\<lparr>rv_generations := btree_insert ''r'' 2 (rv_generations (sample_ledger 1))\<rparr>
     = sample_ledger 2"
  "rv_owner (sample_ledger 0) = ''me''" "rv_owner (sample_ledger 1) = ''me''"
  "fe_rule_id sample_fence i = ''r''"
  by (simp_all add: sample_ledger_def sample_fence_def)

lemma sample_first_claim:
  "reserve sample_fence ''me'' s f (ledger_with (Some ''0'') []) = (Inr (claim_for s 1 f), ledger_with (Some ''1'') [])"
  by (simp add: reserve_def sample_lock sample_ledger_loads sample_save sample_next sample_bump claim_for_def
      fbind_def flift_def rguard_def Let_def)

lemma sample_second_claim:
  "reserve sample_fence ''me'' s f (ledger_with (Some ''1'') []) = (Inr (claim_for s 2 f), ledger_with (Some ''2'') [])"
  by (simp add: reserve_def sample_lock sample_ledger_loads sample_save sample_next sample_bump claim_for_def
      fbind_def flift_def rguard_def Let_def)

lemma sample_open:
  "open_context sample_fence ''me'' (ledger_with None [Done]) = (Inr ''me'', ledger_with (Some ''0'') [])"
  "open_context sample_fence i (ledger_with (Some ''1'') []) = (Inr ''me'', ledger_with (Some ''1'') [])"
proof -
  have first: "\<lparr>rv_version = 1, rv_owner = ''me'', rv_generations = []\<rparr> = sample_ledger 0"
    by (simp add: sample_ledger_def)
  show "open_context sample_fence ''me'' (ledger_with None [Done]) = (Inr ''me'', ledger_with (Some ''0'') [])"
    using sample_lock(2) [of None "[]"] sample_save(1) [of "[]" None] sample_bump(3)
    by (simp add: open_context_def first fbind_def flift_def Let_def) (simp add: ledger_with_def)
  show "open_context sample_fence i (ledger_with (Some ''1'') []) = (Inr ''me'', ledger_with (Some ''1'') [])"
    using sample_lock(1) [of "Some ''1''"] sample_ledger_loads(2) [of "[]"] sample_bump(4)
    by (simp add: open_context_def fbind_def flift_def) (simp add: ledger_with_def)
qed

definition sample_claims :: "fence_op list" where
  "sample_claims = [OpenContext ''me'', ReserveClaim ''me'' ''s1'' sample_remote,
     OpenContext ''other'', ReserveClaim ''me'' ''s2'' sample_remote]"

lemma sample_claims_run:
  "fence_run sample_fence sample_claims (ledger_with None [Done]) =
     ([claim_for ''s1'' 1 sample_remote, claim_for ''s2'' 2 sample_remote], ledger_with (Some ''2'') [])"
  by (simp add: sample_claims_def sample_open sample_first_claim sample_second_claim)


end
