(* ===== verification/Lease.thy ===== *)
theory Lease
  imports Fencing Bytes
begin

text \<open>
  The lease on a verified remote listener, \<open>crates/fwm-core/src/cleanup/lease.rs\<close>: the helper
  is uploaded and started over the dedicated SSH connection, and then answers one JSON line per
  request. What the server sends is an explicit list of arrivals, so every split of the bytes, a
  lost channel and a passed deadline can happen anywhere; JSON texts and the lossy decoding of
  output are parameters in \<open>lease_env\<close>.
\<close>

section \<open>JSON values\<close>

datatype json =
    JNull | JBool bool | JInt int | JReal string | JText string | JArray "json list"
  | JObject "(string \<times> json) list"

fun get_field :: "string \<Rightarrow> json \<Rightarrow> json option" where
  "get_field k (JObject fs) = map_of fs k"
| "get_field k _ = None"

fun as_str :: "json \<Rightarrow> string option" where
  "as_str (JText t) = Some t"
| "as_str _ = None"

fun as_bool :: "json \<Rightarrow> bool option" where
  "as_bool (JBool b) = Some b"
| "as_bool _ = None"

fun as_u64 :: "json \<Rightarrow> u64 option" where
  "as_u64 (JInt n) = (if 0 \<le> n \<and> n < 2 ^ 64 then Some (word_of_int n) else None)"
| "as_u64 _ = None"

definition field_str :: "string \<Rightarrow> json \<Rightarrow> string option" where
  "field_str k v = Option.bind (get_field k v) as_str"

definition field_bool :: "string \<Rightarrow> json \<Rightarrow> bool option" where
  "field_bool k v = Option.bind (get_field k v) as_bool"

definition field_u64 :: "string \<Rightarrow> json \<Rightarrow> u64 option" where
  "field_u64 k v = Option.bind (get_field k v) as_u64"

section \<open>Reading a reply\<close>

definition MAX_REPLY :: nat where
  "MAX_REPLY = 32 * 1024"

definition newline :: u8 where
  "newline = 10"

text \<open>What one wait for input gives; no bytes mean the end of the stream.\<close>

datatype arrival = Bytes "u8 list" | Broken string | Quiet

type_synonym arrivals = "arrival list"

definition helper_gone :: cleanup_error where
  "helper_gone = CleanupRemote ''helper_unavailable''
     ''native recovery helper ended without a result; verify command execution and native process-inspection permissions on the server''"

definition line_count :: "u8 list \<Rightarrow> nat" where
  "line_count available =
     (if newline \<in> set available then length (takeWhile (\<lambda>b. b \<noteq> newline) available) + 1 else length available)"

fun read_reply :: "string \<Rightarrow> u8 list \<Rightarrow> arrivals \<Rightarrow> (cleanup_error + u8 list) \<times> arrivals" where
  "read_reply op reply [] = (Inl (CleanupTimeout op), [])"
| "read_reply op reply (Quiet # r) = (Inl (CleanupTimeout op), r)"
| "read_reply op reply (Broken e # r) = (Inl (CleanupIo e), r)"
| "read_reply op reply (Bytes available # r) =
     (if available = [] then (Inl helper_gone, Bytes [] # r)
      else
        let count = line_count available in
        if MAX_REPLY < length reply + count
        then (Inl (CleanupProtocol ''helper response exceeds 32 KiB''), Bytes available # r)
        else
          let reply = reply @ take count available;
              rest = (if drop count available = [] then r else Bytes (drop count available) # r)
          in if last reply = newline then (Inr reply, rest) else read_reply op reply r)"

section \<open>Requests\<close>

record lease_env =
  ls_encode :: "json \<Rightarrow> u8 list"
  ls_decode :: "u8 list \<Rightarrow> string + json"
  ls_lossy :: "u8 list \<Rightarrow> string"
  ls_debug :: "string \<Rightarrow> string"

record helper =
  hp_in :: arrivals
  hp_out :: "u8 list list"
  hp_broken :: "string option"

type_synonym 'a helped = "helper \<Rightarrow> (cleanup_error + 'a) \<times> helper"

definition check_reply :: "string \<Rightarrow> json \<Rightarrow> cleanup_error + json" where
  "check_reply op v =
     (if field_u64 ''protocol'' v \<noteq> Some 1 \<or> field_str ''op'' v \<noteq> Some op
      then Inl (CleanupProtocol ''unexpected helper protocol/operation'')
      else if field_bool ''ok'' v \<noteq> Some True
      then Inl (CleanupRemote (case field_str ''code'' v of None \<Rightarrow> ''unknown'' | Some c \<Rightarrow> c)
                 (case field_str ''message'' v of None \<Rightarrow> ''helper rejected operation'' | Some m \<Rightarrow> m))
      else Inr v)"

definition ask :: "lease_env \<Rightarrow> json \<Rightarrow> string \<Rightarrow> json helped" where
  "ask v request op h =
     (case hp_broken h of
        Some e \<Rightarrow> (Inl (CleanupIo e), h)
      | None \<Rightarrow>
          (let h = h\<lparr>hp_out := hp_out h @ [ls_encode v request @ [newline]]\<rparr>;
               (r, rest) = read_reply op [] (hp_in h)
           in (rbind r (\<lambda>reply.
               rbind (map_err (\<lambda>e. CleanupProtocol (''invalid helper JSON: '' @ e)) (ls_decode v reply)) (\<lambda>value.
               check_reply op value)), h\<lparr>hp_in := rest\<rparr>)))"

section \<open>The lease\<close>

record lease =
  le_claim :: claim
  le_reclaimed :: bool
  le_session_pid :: u32
  le_released :: bool

definition claim_json :: "claim \<Rightarrow> json" where
  "claim_json c = JObject [(''op'', JText (cl_op c)), (''owner_id'', JText (cl_owner_id c)),
     (''rule_id'', JText (cl_rule_id c)), (''generation'', JInt (uint (cl_generation c))),
     (''session_id'', JText (cl_session_id c)), (''listen_host'', JText (cl_listen_host c)),
     (''listen_port'', JInt (uint (cl_listen_port c)))]"

definition command_json :: "lease \<Rightarrow> string \<Rightarrow> (string \<times> json) list \<Rightarrow> json" where
  "command_json le op extra = JObject ([(''op'', JText op), (''owner_id'', JText (cl_owner_id (le_claim le))),
     (''rule_id'', JText (cl_rule_id (le_claim le))), (''generation'', JInt (uint (cl_generation (le_claim le)))),
     (''session_id'', JText (cl_session_id (le_claim le)))] @ extra)"

definition accept_claim :: "claim \<Rightarrow> json \<Rightarrow> cleanup_error + lease" where
  "accept_claim c response =
     (if field_str ''session_id'' response \<noteq> Some (cl_session_id c) \<or>
         field_u64 ''generation'' response \<noteq> Some (cl_generation c)
      then Inl (CleanupProtocol ''claim response identity does not match this attempt'')
      else rbind (ok_or (Option.bind (field_u64 ''session_pid'' response)
                   (\<lambda>p. if unat p < 2 ^ 32 then Some (ucast p) else None))
                 (CleanupProtocol ''claim response omitted session PID'')) (\<lambda>pid.
        Inr \<lparr>le_claim = c,
             le_reclaimed = (case field_bool ''reclaimed'' response of None \<Rightarrow> False | Some b \<Rightarrow> b),
             le_session_pid = pid, le_released = False\<rparr>))"

definition confirm_lease :: "lease_env \<Rightarrow> lease \<Rightarrow> unit helped" where
  "confirm_lease v le h =
     (let (r, h) = ask v (command_json le ''confirm'' [(''forward_ack'', JBool True)]) ''confirm'' h
      in (rbind r (\<lambda>_. Inr ()), h))"

fun wait_closed :: "arrivals \<Rightarrow> cleanup_error option" where
  "wait_closed [] = None"
| "wait_closed (Quiet # r) = wait_closed r"
| "wait_closed (Broken e # r) = Some (CleanupIo e)"
| "wait_closed (Bytes b # r) = Some
     (if b = [] then CleanupRemote ''helper_disconnected'' ''registered recovery helper exited unexpectedly''
      else CleanupProtocol ''unexpected recovery helper output while idle'')"

definition release_lease :: "lease_env \<Rightarrow> lease \<times> helper \<Rightarrow> (cleanup_error + unit) \<times> lease \<times> helper" where
  "release_lease v lh =
     (let (le, h) = lh in
      if le_released le then (Inr (), le, h)
      else (case ask v (command_json le ''release'' []) ''release'' h of
              (Inl e, h) \<Rightarrow> (Inl e, le, h)
            | (Inr _, h) \<Rightarrow> (Inr (), le\<lparr>le_released := True\<rparr>, h)))"

section \<open>Starting the helper\<close>

definition shell_quote :: "string \<Rightarrow> string" where
  "shell_quote s = CHR 0x27 # concat (map (\<lambda>c. if c = CHR 0x27 then [CHR 0x27, CHR 0x22, CHR 0x27, CHR 0x22, CHR 0x27] else [c]) s) @ [CHR 0x27]"

datatype channel_msg =
    Data "u8 list" | ExtendedData "u8 list" | ExitStatus u32 | Success | Failure | ExitSignal | Eof | Close
  | OtherMsg | Deadline

record command_output =
  co_stdout :: "u8 list"
  co_stderr :: "u8 list"
  co_exit :: u32

text \<open>Output, errors and the exit status are collected until the channel closes.\<close>

fun command_result ::
    "string \<Rightarrow> u8 list \<Rightarrow> u8 list \<Rightarrow> u32 option \<Rightarrow> channel_msg list \<Rightarrow> cleanup_error + command_output" where
  "command_result op out err status (Data d # ms) =
     (if MAX_REPLY < length out + length err + length d
      then Inl (CleanupProtocol (op @ '' output exceeds 32 KiB''))
      else command_result op (out @ d) err status ms)"
| "command_result op out err status (ExtendedData d # ms) =
     (if MAX_REPLY < length out + length err + length d
      then Inl (CleanupProtocol (op @ '' output exceeds 32 KiB''))
      else command_result op out (err @ d) status ms)"
| "command_result op out err status (ExitStatus n # ms) = command_result op out err (Some n) ms"
| "command_result op out err status (Failure # ms) =
     Inl (CleanupRemote ''exec_denied'' (''SSH server rejected '' @ op))"
| "command_result op out err status (ExitSignal # ms) =
     Inl (CleanupRemote ''helper_unavailable'' (op @ '' was terminated by a signal''))"
| "command_result op out err status (Deadline # ms) = Inl (CleanupTimeout op)"
| "command_result op out err status (Close # ms) =
     rbind (ok_or status (CleanupProtocol (op @ '' closed without an exit status''))) (\<lambda>n.
     Inr \<lparr>co_stdout = out, co_stderr = err, co_exit = n\<rparr>)"
| "command_result op out err status [] =
     rbind (ok_or status (CleanupProtocol (op @ '' closed without an exit status''))) (\<lambda>n.
     Inr \<lparr>co_stdout = out, co_stderr = err, co_exit = n\<rparr>)"
| "command_result op out err status (_ # ms) = command_result op out err status ms"

datatype platform = Linux | Macos | Windows

record channel =
  ch_exec :: bool
  ch_data :: "string option"
  ch_messages :: "channel_msg list"

text \<open>The SSH connection: what opening the next channels gives, and the commands executed on it.\<close>

record connection =
  cn_channels :: "(cleanup_error + channel) list"
  cn_commands :: "string list"

type_synonym 'a remote = "connection \<Rightarrow> (cleanup_error + 'a) \<times> connection"

definition rmbind :: "'a remote \<Rightarrow> ('a \<Rightarrow> 'b remote) \<Rightarrow> 'b remote" where
  "rmbind m f s = (case m s of (Inl e, t) \<Rightarrow> (Inl e, t) | (Inr a, t) \<Rightarrow> f a t)"

definition rmlift :: "cleanup_error + 'a \<Rightarrow> 'a remote" where
  "rmlift m s = (m, s)"

definition open_session_raw :: "channel remote" where
  "open_session_raw s =
     (case cn_channels s of
        [] \<Rightarrow> (Inl (CleanupTimeout ''session channel open''), s)
      | c # cs \<Rightarrow> (c, s\<lparr>cn_channels := cs\<rparr>))"

definition exec :: "channel \<Rightarrow> string \<Rightarrow> string \<Rightarrow> unit remote" where
  "exec c command denied s =
     (if ch_exec c then (Inr (), s\<lparr>cn_commands := cn_commands s @ [command]\<rparr>)
      else (Inl (CleanupRemote ''exec_denied'' denied), s))"

definition probe_remote_command :: "lease_env \<Rightarrow> string \<Rightarrow> (bool \<times> string) remote" where
  "probe_remote_command v command =
     rmbind open_session_raw (\<lambda>c.
     rmbind (exec c command ''SSH server rejected remote platform detection'') (\<lambda>_.
     rmbind (rmlift (command_result ''remote platform detection'' [] [] None (ch_messages c))) (\<lambda>r.
     rmlift (Inr (co_exit r = 0, ls_lossy v (co_stdout r))))))"

definition ends_with :: "string \<Rightarrow> string \<Rightarrow> bool" where
  "ends_with p s = starts_with (rev p) (rev s)"

definition nth_word :: "nat \<Rightarrow> string \<Rightarrow> string option" where
  "nth_word n s = (let ws = split_whitespace (utf8_chunks s) in if n < length ws then Some (ws ! n) else None)"

definition detect_remote_platform :: "lease_env \<Rightarrow> platform remote" where
  "detect_remote_platform v =
     rmbind (probe_remote_command v ''uname -s -m'') (\<lambda>(ok, uname).
     let uname = trim uname in
     if ok \<and> starts_with ''Linux '' uname then
       rmlift (if nth_word 1 uname = Some ''x86_64'' then Inr Linux
               else Inl (CleanupRemote ''unsupported''
                      (''native recovery helper does not support remote Linux architecture: '' @ uname)))
     else if ok \<and> starts_with ''Darwin '' uname then rmlift (Inr Macos)
     else
       rmbind (probe_remote_command v ''echo %OS% %PROCESSOR_ARCHITECTURE%'') (\<lambda>(ok, windows).
       let windows = trim windows in
       rmlift (if ok \<and> starts_with ''Windows_NT '' windows \<and> ends_with ''AMD64'' windows then Inr Windows
               else Inl (CleanupRemote ''unsupported''
                 (''cannot identify a supported remote platform (uname='' @ ls_debug v uname @ '', platform='' @
                  ls_debug v windows @ '')'')))))"

definition helper_name :: "claim \<Rightarrow> string" where
  "helper_name c = ''fwm-remote-helper-'' @ cl_session_id c"

definition apostrophe :: string where
  "apostrophe = [CHR 0x27]"

definition quotation :: string where
  "quotation = [CHR 0x22]"

definition powershell :: "string \<Rightarrow> string" where
  "powershell script = ''powershell -NoProfile -NonInteractive -Command '' @ quotation @ script @ quotation"

fun upload_command :: "platform \<Rightarrow> claim \<Rightarrow> string" where
  "upload_command Windows c = powershell (''$p=Join-Path $env:TEMP '' @ apostrophe @ helper_name c @ ''.exe'' @ apostrophe @
     ''; $o=[IO.File]::Open($p,[IO.FileMode]::CreateNew,[IO.FileAccess]::Write,[IO.FileShare]::None); [Console]::OpenStandardInput().CopyTo($o); $o.Close()'')"
| "upload_command _ c = (let f = shell_quote (''/tmp/.'' @ helper_name c) in
     ''umask 077; set -C; cat > '' @ f @ '' && chmod 700 '' @ f)"

fun exec_command :: "platform \<Rightarrow> claim \<Rightarrow> string" where
  "exec_command Windows c = powershell (''& (Join-Path $env:TEMP '' @ apostrophe @ helper_name c @ ''.exe'' @ apostrophe @ '')'')"
| "exec_command _ c = ''exec '' @ shell_quote (''/tmp/.'' @ helper_name c)"

definition upload_denied :: string where
  "upload_denied = ''SSH server rejected the native helper upload command''"

fun await_upload :: "lease_env \<Rightarrow> u8 list \<Rightarrow> channel_msg list \<Rightarrow> cleanup_error + channel_msg list" where
  "await_upload v err (Success # ms) = Inr ms"
| "await_upload v err (Failure # ms) = Inl (CleanupRemote ''exec_denied'' upload_denied)"
| "await_upload v err (ExtendedData d # ms) =
     (if MAX_REPLY < length err + length d
      then Inl (CleanupProtocol ''helper upload startup output exceeds 32 KiB'')
      else await_upload v (err @ d) ms)"
| "await_upload v err (ExitStatus n # ms) = Inl (CleanupRemote ''helper_upload_failed''
     (''helper upload command exited with status '' @ show_word n @ '': '' @ trim (ls_lossy v err)))"
| "await_upload v err (Close # ms) = Inl (CleanupRemote ''helper_upload_failed''
     (''helper upload channel closed before exec confirmation: '' @ trim (ls_lossy v err)))"
| "await_upload v err [] = Inl (CleanupRemote ''helper_upload_failed''
     (''helper upload channel closed before exec confirmation: '' @ trim (ls_lossy v err)))"
| "await_upload v err (Deadline # ms) = Inl (CleanupTimeout ''helper startup'')"
| "await_upload v err (_ # ms) = await_upload v err ms"

fun await_start :: "lease_env \<Rightarrow> u8 list \<Rightarrow> channel_msg list \<Rightarrow> cleanup_error + channel_msg list" where
  "await_start v err (Success # ms) = Inr ms"
| "await_start v err (Failure # ms) = Inl (CleanupRemote ''exec_denied''
     ''SSH server rejected the native recovery helper; allow command execution for verified recovery'')"
| "await_start v err (ExtendedData d # ms) =
     (if MAX_REPLY < length err + length d
      then Inl (CleanupProtocol ''helper startup output exceeds 32 KiB'')
      else await_start v (err @ d) ms)"
| "await_start v err (ExitStatus n # ms) = Inl (CleanupRemote ''helper_unavailable''
     (''native recovery helper exited with status '' @ show_word n @ '': '' @ trim (ls_lossy v err)))"
| "await_start v err (Close # ms) = Inl (CleanupRemote ''helper_unavailable''
     (''native recovery helper channel closed before startup: '' @ trim (ls_lossy v err)))"
| "await_start v err [] = Inl (CleanupRemote ''helper_unavailable''
     (''native recovery helper channel closed before startup: '' @ trim (ls_lossy v err)))"
| "await_start v err (Deadline # ms) = Inl (CleanupTimeout ''helper startup'')"
| "await_start v err (_ # ms) = await_start v err ms"

definition check_upload :: "lease_env \<Rightarrow> command_output \<Rightarrow> cleanup_error + unit" where
  "check_upload v r = rguard (co_exit r \<noteq> 0) (CleanupRemote ''helper_upload_failed''
     (''native helper upload exited with status '' @ show_word (co_exit r) @ '': '' @ trim (ls_lossy v (co_stderr r))))"

definition open_session_unbounded :: "lease_env \<Rightarrow> claim \<Rightarrow> channel_msg list remote" where
  "open_session_unbounded v c =
     rmbind (detect_remote_platform v) (\<lambda>platform.
     rmbind open_session_raw (\<lambda>upload.
     rmbind (exec upload (upload_command platform c) upload_denied) (\<lambda>_.
     rmbind (rmlift (await_upload v [] (ch_messages upload))) (\<lambda>ms.
     rmbind (rmlift (case ch_data upload of None \<Rightarrow> Inr () | Some e \<Rightarrow> Inl (CleanupSsh e))) (\<lambda>_.
     rmbind (rmlift (command_result ''helper upload'' [] [] None ms)) (\<lambda>r.
     rmbind (rmlift (check_upload v r)) (\<lambda>_.
     rmbind open_session_raw (\<lambda>owned.
     rmbind (exec owned (exec_command platform c) ''SSH server rejected the native recovery helper'') (\<lambda>_.
     rmlift (await_start v [] (ch_messages owned)))))))))))"

text \<open>
  The deadline of the whole start was set before every other one of the same length, so when time
  has run out anywhere inside, it is this one that has.
\<close>

definition open_session :: "lease_env \<Rightarrow> claim \<Rightarrow> channel_msg list remote" where
  "open_session v c s =
     (case open_session_unbounded v c s of
        (Inl (CleanupTimeout _), t) \<Rightarrow> (Inl (CleanupTimeout ''helper startup''), t)
      | r \<Rightarrow> r)"

section \<open>Claiming\<close>

text \<open>
  \<open>RemoteLease::claim\<close>: the generation is reserved on disk before the helper is started.
  \<open>stream\<close> is russh's view of a channel as a byte stream.
\<close>

definition claim_lease ::
    "fence_env \<Rightarrow> lease_env \<Rightarrow> (channel_msg list \<Rightarrow> helper) \<Rightarrow> string \<Rightarrow> string \<Rightarrow> forward_spec \<Rightarrow>
       ledger \<times> connection \<Rightarrow> (cleanup_error + lease \<times> helper) \<times> ledger \<times> connection" where
  "claim_lease w v stream owner session_id spec ls =
     (case reserve w owner session_id spec (fst ls) of
        (Inl e, l) \<Rightarrow> (Inl e, l, snd ls)
      | (Inr c, l) \<Rightarrow>
          (case open_session v c (snd ls) of
             (Inl e, s) \<Rightarrow> (Inl e, l, s)
           | (Inr ms, s) \<Rightarrow>
               (case ask v (claim_json c) ''claim'' (stream ms) of
                  (Inl e, _) \<Rightarrow> (Inl e, l, s)
                | (Inr response, h) \<Rightarrow> (rbind (accept_claim c response) (\<lambda>le. Inr (le, h)), l, s))))"

section \<open>A reply does not depend on how its bytes arrive\<close>

fun unread :: "arrivals \<Rightarrow> u8 list" where
  "unread [] = []"
| "unread (Bytes b # r) = b @ unread r"
| "unread (_ # r) = unread r"

definition first_line :: "u8 list \<Rightarrow> u8 list" where
  "first_line s = take (line_count s) s"

lemma takeWhile_line: "newline \<notin> set a \<Longrightarrow> takeWhile (\<lambda>b. b \<noteq> newline) (a @ s) = a @ takeWhile (\<lambda>b. b \<noteq> newline) s"
  by (induction a) auto

lemma split_line:
  assumes "newline \<in> set s"
  obtains a b where "s = a @ newline # b" "line_count s = length a + 1" "first_line s = a @ [newline]"
proof -
  from assms obtain a b where s: "s = a @ newline # b" and a: "newline \<notin> set a" by (meson split_list_first)
  have "line_count s = length a + 1" by (simp add: line_count_def s takeWhile_line [OF a])
  then show thesis using that s by (simp add: first_line_def)
qed

lemma line_count_le: "line_count s \<le> length s"
  by (cases "newline \<in> set s") (auto elim: split_line simp: line_count_def)

lemma line_count_append: "newline \<notin> set a \<Longrightarrow> line_count (a @ b) = length a + line_count b"
  by (auto simp: line_count_def takeWhile_line)

lemma line_count_prefix: "newline \<in> set a \<Longrightarrow> line_count (a @ b) = line_count a"
  by (simp add: line_count_def)

lemma read_reply_bytes:
  assumes "[] \<notin> set bs" and "newline \<notin> set reply" and "length reply \<le> MAX_REPLY"
  shows "case read_reply op reply (map Bytes bs) of (r, rest) \<Rightarrow>
    r = (let s = reply @ concat bs in
         if newline \<in> set s \<and> line_count s \<le> MAX_REPLY then Inr (first_line s)
         else if MAX_REPLY < length s then Inl (CleanupProtocol ''helper response exceeds 32 KiB'')
         else Inl (CleanupTimeout op)) \<and>
    (\<forall>line. r = Inr line \<longrightarrow> line @ unread rest = reply @ concat bs)"
  using assms
proof (induction bs arbitrary: reply)
  case Nil
  then show ?case by (simp add: Let_def)
next
  case (Cons b bs)
  then have b: "b \<noteq> []" by auto
  show ?case
  proof (cases "newline \<in> set b")
    case True
    have count: "line_count (reply @ b @ concat bs) = length reply + line_count b"
      using Cons.prems(2) True by (simp add: line_count_append line_count_prefix)
    have line: "first_line (reply @ b @ concat bs) = reply @ first_line b"
      using count line_count_le [of b] by (simp add: first_line_def)
    have last: "last (reply @ first_line b) = newline"
      using True by (auto elim!: split_line)
    have unread_tail: "unread (map Bytes bs) = concat bs" by (induction bs) auto
    show ?thesis
      using count line last b True line_count_le [of b] unread_tail
      by (auto simp: Let_def first_line_def [symmetric]) (auto simp: first_line_def)
  next
    case False
    then have count: "line_count b = length b" by (simp add: line_count_def)
    show ?thesis
    proof (cases "MAX_REPLY < length reply + length b")
      case True
      have "\<not> (newline \<in> set (reply @ b @ concat bs) \<and> line_count (reply @ b @ concat bs) \<le> MAX_REPLY)"
        using True Cons.prems(2) False by (simp add: line_count_append)
      then show ?thesis using True b count by (auto simp: Let_def)
    next
      case small: False
      have "last (reply @ b) \<noteq> newline" using b False by (metis last_appendR last_in_set)
      moreover have "newline \<notin> set (reply @ b)" using Cons.prems(2) False by simp
      ultimately show ?thesis
        using Cons.IH [of "reply @ b"] Cons.prems small b count by (simp add: Let_def)
    qed
  qed
qed

text \<open>
  Cut into blocks in any way, what the helper sends gives the same reply: its first
  line, when that has at most 32 KiB; an error when more arrives without one; and a timeout
  otherwise. No byte after the line is lost.
\<close>

theorem reply_independent_of_blocks:
  assumes "[] \<notin> set bs"
  shows "case read_reply op [] (map Bytes bs) of (r, rest) \<Rightarrow>
    r = (let s = concat bs in
         if newline \<in> set s \<and> line_count s \<le> MAX_REPLY then Inr (first_line s)
         else if MAX_REPLY < length s then Inl (CleanupProtocol ''helper response exceeds 32 KiB'')
         else Inl (CleanupTimeout op)) \<and>
    (\<forall>line. r = Inr line \<longrightarrow> line @ unread rest = concat bs)"
  using read_reply_bytes [OF assms, of "[]" op] by simp

theorem reply_independent_of_blocks_witness:
  "fst (read_reply ''claim'' [] (map Bytes [[65], [66, 10, 67], [68]])) = Inr [65, 66, 10]"
proof -
  have "[] \<notin> set [[65], [66, 10, 67], [68 :: u8]]" by simp
  from reply_independent_of_blocks [OF this, of "''claim''"] show ?thesis
    by (auto simp: Let_def first_line_def line_count_def newline_def MAX_REPLY_def split: prod.splits)
qed

section \<open>Quoting for the shell\<close>

text \<open>
  How a POSIX shell reads one word that expands nothing: \<open>None\<close> outside quotes, else the open
  quote. A character the shell would act on gives no word.
\<close>

definition shell_active :: "char \<Rightarrow> bool" where
  "shell_active c = (is_whitespace (byte c) \<or> c \<in> set ''|&;<>()$`*?[]#~=%!{}'' \<or> c = CHR 0x5C)"

fun shell_word :: "char option \<Rightarrow> string \<Rightarrow> string option" where
  "shell_word None [] = Some []"
| "shell_word (Some q) [] = None"
| "shell_word None (c # s) =
     (if c = CHR 0x27 \<or> c = CHR 0x22 then shell_word (Some c) s
      else if shell_active c then None else map_option ((#) c) (shell_word None s))"
| "shell_word (Some q) (c # s) =
     (if c = q then shell_word None s
      else if q = CHR 0x22 \<and> (c \<in> set ''$`!'' \<or> c = CHR 0x5C) then None
      else map_option ((#) c) (shell_word (Some q) s))"

lemma shell_word_quoted:
  "shell_word (Some (CHR 0x27)) (concat (map (\<lambda>c. if c = CHR 0x27
      then [CHR 0x27, CHR 0x22, CHR 0x27, CHR 0x22, CHR 0x27] else [c]) s) @ [CHR 0x27]) = Some s"
  by (induction s) auto

text \<open>Whatever a text holds, the shell reads its quoted form as one word, the text itself.\<close>

theorem shell_quote_roundtrip: "shell_word None (shell_quote s) = Some s"
  by (simp add: shell_quote_def shell_word_quoted)

section \<open>What is executed on the server\<close>

lemma rmbind_Inr_iff [fence_simps]:
  "rmbind m f s = (Inr b, t) \<longleftrightarrow> (\<exists>a u. m s = (Inr a, u) \<and> f a u = (Inr b, t))"
  by (auto simp: rmbind_def split: prod.splits sum.splits)

lemma rmlift_iff [fence_simps]: "rmlift m s = (r, t) \<longleftrightarrow> m = r \<and> t = s"
  by (auto simp: rmlift_def)

lemma raw_Inr_iff [fence_simps]:
  "open_session_raw s = (Inr c, t) \<longleftrightarrow> (\<exists>cs. cn_channels s = Inr c # cs \<and> t = s\<lparr>cn_channels := cs\<rparr>)"
  by (auto simp: open_session_raw_def split: list.splits)

lemma exec_Inr_iff [fence_simps]:
  "exec c command denied s = (Inr x, t) \<longleftrightarrow> ch_exec c \<and> t = s\<lparr>cn_commands := cn_commands s @ [command]\<rparr>"
  by (auto simp: exec_def)

fun probes :: "platform \<Rightarrow> string list" where
  "probes Windows = [''uname -s -m'', ''echo %OS% %PROCESSOR_ARCHITECTURE%'']"
| "probes _ = [''uname -s -m'']"

lemma probe_commands:
  "probe_remote_command v command s = (Inr r, t) \<Longrightarrow> cn_commands t = cn_commands s @ [command]"
  by (auto simp: probe_remote_command_def fence_simps)

lemma detect_commands:
  "detect_remote_platform v s = (Inr p, t) \<Longrightarrow> cn_commands t = cn_commands s @ probes p"
  by (auto simp: detect_remote_platform_def fence_simps Let_def dest!: probe_commands split: if_splits)

lemma open_session_commands:
  assumes "open_session v c s = (Inr ms, t)"
  shows "\<exists>p. cn_commands t = cn_commands s @ probes p @ [upload_command p c, exec_command p c]"
proof -
  from assms have "open_session_unbounded v c s = (Inr ms, t)"
    by (auto simp: open_session_def split: prod.splits sum.splits cleanup_error.splits)
  then show ?thesis
    by (auto simp: open_session_unbounded_def fence_simps dest!: detect_commands)
qed

lemma accept_claim_Inr:
  "accept_claim c response = Inr le \<Longrightarrow> le_claim le = c \<and> \<not> le_released le \<and>
     field_str ''session_id'' response = Some (cl_session_id c) \<and>
     field_u64 ''generation'' response = Some (cl_generation c)"
  by (auto simp: accept_claim_def result_simps split: if_splits)


definition sample_answer :: json where
  "sample_answer = JObject [(''protocol'', JInt 1), (''op'', JText ''claim''), (''ok'', JBool True),
     (''session_id'', JText ''s1''), (''generation'', JInt 1), (''session_pid'', JInt 7)]"

definition sample_lease_env :: lease_env where
  "sample_lease_env = \<lparr>ls_encode = (\<lambda>_. []), ls_decode = (\<lambda>_. Inr sample_answer),
     ls_lossy = (\<lambda>_. ''Linux x86_64''), ls_debug = (\<lambda>t. t)\<rparr>"

definition sample_channel :: "channel_msg list \<Rightarrow> cleanup_error + channel" where
  "sample_channel ms = Inr \<lparr>ch_exec = True, ch_data = None, ch_messages = ms\<rparr>"

definition sample_connection :: connection where
  "sample_connection = \<lparr>cn_channels = [sample_channel [Data [76], Eof, ExitStatus 0, Close],
     sample_channel [Success, ExitStatus 0, Close], sample_channel [Success]], cn_commands = []\<rparr>"

definition sample_stream :: "channel_msg list \<Rightarrow> helper" where
  "sample_stream _ = \<lparr>hp_in = [Bytes [newline]], hp_out = [], hp_broken = None\<rparr>"

lemma sample_linux: "trim ''Linux x86_64'' = ''Linux x86_64''" "starts_with ''Linux '' ''Linux x86_64''"
  "nth_word (Suc 0) ''Linux x86_64'' = Some ''x86_64''"
proof -
  have ascii: "is_ascii ''Linux x86_64''" by (simp add: byte_def)
  show "trim ''Linux x86_64'' = ''Linux x86_64''"
    by (simp add: trim_def utf8_chunks_ascii [OF ascii] is_whitespace_def byte_def)
  show "nth_word (Suc 0) ''Linux x86_64'' = Some ''x86_64''"
    by (simp add: nth_word_def utf8_chunks_ascii [OF ascii] is_whitespace_def byte_def Let_def)
qed (simp add: starts_with_def)

lemma sample_detect:
  "detect_remote_platform sample_lease_env sample_connection = (Inr Linux,
     \<lparr>cn_channels = tl (cn_channels sample_connection), cn_commands = [''uname -s -m'']\<rparr>)"
  by (simp add: detect_remote_platform_def probe_remote_command_def rmbind_def rmlift_def open_session_raw_def exec_def
      sample_connection_def sample_channel_def sample_lease_env_def sample_linux MAX_REPLY_def ok_or_def result_simps Let_def)

lemma sample_started:
  "open_session sample_lease_env c sample_connection = (Inr [],
     \<lparr>cn_channels = [], cn_commands = [''uname -s -m'', upload_command Linux c, exec_command Linux c]\<rparr>)"
  unfolding open_session_def open_session_unbounded_def
    rmbind_def [of "detect_remote_platform sample_lease_env"] sample_detect
  by (simp del: upload_command.simps exec_command.simps
      add: rmbind_def rmlift_def open_session_raw_def exec_def
      sample_connection_def sample_channel_def check_upload_def rguard_def ok_or_def result_simps)

lemma sample_lease_claimed:
  "claim_lease sample_fence sample_lease_env sample_stream ''me'' ''s1'' f (ledger_with (Some ''0'') [], sample_connection) =
     (Inr (\<lparr>le_claim = claim_for ''s1'' 1 f, le_reclaimed = False, le_session_pid = 7, le_released = False\<rparr>,
       \<lparr>hp_in = [], hp_out = [[newline]], hp_broken = None\<rparr>), ledger_with (Some ''1'') [],
      \<lparr>cn_channels = [], cn_commands = [''uname -s -m'', upload_command Linux (claim_for ''s1'' 1 f),
         exec_command Linux (claim_for ''s1'' 1 f)]\<rparr>)"
proof -
  have asked: "ask sample_lease_env (claim_json c) ''claim'' (sample_stream []) =
    (Inr sample_answer, \<lparr>hp_in = [], hp_out = [[newline]], hp_broken = None\<rparr>)" for c
    by (simp add: ask_def sample_stream_def line_count_def MAX_REPLY_def sample_lease_env_def map_err_def result_simps
        check_reply_def sample_answer_def field_u64_def field_str_def field_bool_def Let_def)
  have accepted: "accept_claim (claim_for ''s1'' 1 f) sample_answer =
    Inr \<lparr>le_claim = claim_for ''s1'' 1 f, le_reclaimed = False, le_session_pid = 7, le_released = False\<rparr>"
    by (simp add: accept_claim_def sample_answer_def claim_for_def field_u64_def field_str_def field_bool_def ok_or_def result_simps)
  show ?thesis
    by (simp del: upload_command.simps exec_command.simps
        add: claim_lease_def sample_first_claim sample_started asked accepted result_simps)
qed


end
