(* ===== verification/AddressText.thy ===== *)
theory AddressText
  imports Net
begin

text \<open>
  The text of an address says which address it is: two listeners with the same text and port are
  the same listener, although IPv6 texts leave out the longest run of zeros and show IPv4-mapped
  addresses in another notation.
\<close>

section \<open>Numbers\<close>

definition hex_value :: "string \<Rightarrow> nat" where
  "hex_value s = foldl (\<lambda>v c. v * 16 + (if byte c < 58 then byte c - 48 else byte c - 87)) 0 s"

lemma byte_hex_char: "d < 16 \<Longrightarrow> byte (hex_char d) = (if d < 10 then 48 + d else 87 + d)"
  by (simp add: hex_char_def byte_char_of)

lemma hex_value_show: "hex_value (show_hex n) = n"
proof (induction n rule: show_hex.induct)
  case (1 n)
  show ?case
  proof (cases "n < 16")
    case True
    then show ?thesis by (subst show_hex.simps) (simp add: hex_value_def byte_hex_char)
  next
    case False
    with "1.IH" have "hex_value (show_hex (n div 16)) = n div 16" by simp
    with False show ?thesis by (subst show_hex.simps) (simp add: hex_value_def byte_hex_char)
  qed
qed

lemma show_hex_chars: "c \<in> set (show_hex n) \<Longrightarrow> c \<noteq> CHR '':'' \<and> c \<noteq> CHR ''.''"
proof (induction n rule: show_hex.induct)
  case (1 n)
  have "byte (hex_char d) \<noteq> 58 \<and> byte (hex_char d) \<noteq> 46" if "d < 16" for d
    using that by (simp add: byte_hex_char)
  moreover have "byte (CHR '':'') = 58" "byte (CHR ''.'') = 46" by (simp_all add: byte_def)
  ultimately have d: "hex_char d \<noteq> CHR '':'' \<and> hex_char d \<noteq> CHR ''.''" if "d < 16" for d
    using that by metis
  show ?case
  proof (cases "n < 16")
    case True
    with "1.prems" d [of n] show ?thesis by (subst (asm) show_hex.simps) simp
  next
    case False
    with "1.prems" have "c \<in> set (show_hex (n div 16)) \<or> c = hex_char (n mod 16)"
      by (subst (asm) show_hex.simps) auto
    with "1.IH" [OF False] d [of "n mod 16"] show ?thesis by auto
  qed
qed

lemma show_hex_nonempty [simp]: "show_hex n \<noteq> []"
  by (subst show_hex.simps) simp

lemma decimal_chars: "c \<in> set (show_word w) \<Longrightarrow> c \<noteq> CHR '':'' \<and> c \<noteq> CHR ''.''"
  by (drule show_word_chars) (auto simp: is_ascii_digit_def byte_def)

lemma show_word_inject [simp]: "show_word v = show_word w \<longleftrightarrow> v = w"
  by (metis digits_value_show_nat show_word_def word_unat_eq_iff)

section \<open>Joining and splitting\<close>

lemma split_on_join:
  "ps \<noteq> [] \<Longrightarrow> \<forall>p \<in> set ps. sep \<notin> set p \<Longrightarrow> split_on sep (join [sep] ps) = ps"
proof (induction ps rule: induct_list012)
  case (2 p)
  then show ?case by (simp add: split_on_no_sep)
next
  case (3 p q ps)
  then show ?case by (simp add: split_on_append)
qed simp

lemma split_on_join_append:
  "ps \<noteq> [] \<Longrightarrow> \<forall>p \<in> set ps. sep \<notin> set p \<Longrightarrow> split_on sep (join [sep] ps @ sep # t) = ps @ split_on sep t"
proof (induction ps rule: induct_list012)
  case (2 p)
  then show ?case by (simp add: split_on_append)
next
  case (3 p q ps)
  then show ?case by (simp add: split_on_append)
qed simp

lemma set_join: "set (join sep ps) \<subseteq> \<Union> (set ` set ps) \<union> set sep"
  by (induction ps rule: induct_list012) auto

section \<open>IPv4\<close>

lemma show_ipv4_inject [simp]: "show_ipv4 x = show_ipv4 y \<longleftrightarrow> x = y"
proof
  assume eq: "show_ipv4 x = show_ipv4 y"
  obtain a b c d a' b' c' d' where xy: "x = Ipv4 a b c d" "y = Ipv4 a' b' c' d'" by (cases x; cases y)
  have split: "split_on CHR ''.'' (join ''.'' (map show_word ws)) = map show_word ws" if "ws \<noteq> []" for ws :: "u8 list"
    using that decimal_chars by (intro split_on_join) auto
  have "split_on CHR ''.'' (show_ipv4 (Ipv4 a b c d)) = map show_word [a, b, c, d]" for a b c d
    unfolding show_ipv4.simps by (rule split) simp
  then have "map show_word [a, b, c, d] = map show_word [a', b', c', d']" using eq by (metis xy)
  then show "x = y" by (simp add: xy)
qed simp

lemma dot_in_ipv4: "CHR ''.'' \<in> set (show_ipv4 x)"
  by (cases x) simp

lemma colon_not_in_ipv4: "CHR '':'' \<notin> set (show_ipv4 x)"
proof
  assume "CHR '':'' \<in> set (show_ipv4 x)"
  moreover obtain a b c d where "x = Ipv4 a b c d" by (cases x)
  ultimately show False
    using set_join [of "''.''" "map show_word [a, b, c, d]"] decimal_chars [of "CHR '':''"] by auto
qed

section \<open>Runs of zeros\<close>

definition zero_run :: "u16 list \<Rightarrow> nat \<Rightarrow> nat \<times> nat \<Rightarrow> bool" where
  "zero_run xs n r = (fst r + snd r \<le> n \<and> (\<forall>j. fst r \<le> j \<and> j < fst r + snd r \<longrightarrow> xs ! j = 0))"

lemma zero_span_run:
  assumes "xs = p @ ss" and "length p = i" and "zero_run xs i longest" and "zero_run xs i cur"
    and "0 < snd cur \<longrightarrow> fst cur + snd cur = i"
  shows "zero_run xs (length xs) (zero_span i longest cur ss)"
  using assms
proof (induction ss arbitrary: p i longest cur)
  case Nil
  then show ?case by simp
next
  case (Cons s ss)
  obtain start len where cur: "cur = (start, len)" by (cases cur)
  have s: "xs ! i = s" using Cons.prems(1,2) by (simp add: nth_append)
  have longest: "zero_run xs (i + 1) longest" using Cons.prems(3) by (simp add: zero_run_def)
  show ?case
  proof (cases "s = 0")
    case False
    have "zero_run xs (length xs) (zero_span (i + 1) longest (0, 0) ss)"
      by (rule Cons.IH [of "p @ [s]"]) (use Cons.prems longest in \<open>simp_all add: zero_run_def\<close>)
    then show ?thesis using False by (simp add: cur)
  next
    case True
    let ?cur = "(if len = 0 then i else start, len + 1)"
    have run: "zero_run xs (i + 1) ?cur"
    proof -
      have "xs ! j = 0" if "fst ?cur \<le> j" "j < fst ?cur + snd ?cur" for j
        using that Cons.prems(4,5) s True by (cases "j = i") (auto simp: zero_run_def cur split: if_splits)
      then show ?thesis using Cons.prems(4,5) by (auto simp: zero_run_def cur)
    qed
    have "zero_run xs (length xs) (zero_span (i + 1) (if snd longest < snd ?cur then ?cur else longest) ?cur ss)"
      by (rule Cons.IH [of "p @ [s]"]) (use Cons.prems longest run in \<open>auto simp: cur\<close>)
    then show ?thesis using True by (simp only: cur zero_span.simps Let_def simp_thms if_True snd_conv)
  qed
qed

lemma zero_run_split:
  assumes "zero_run xs (length xs) (start, len)"
  shows "take start xs @ replicate len 0 @ drop (start + len) xs = xs"
proof (rule nth_equalityI)
  show "length (take start xs @ replicate len 0 @ drop (start + len) xs) = length xs"
    using assms by (simp add: zero_run_def)
next
  fix j assume "j < length (take start xs @ replicate len 0 @ drop (start + len) xs)"
  then show "(take start xs @ replicate len 0 @ drop (start + len) xs) ! j = xs ! j"
    using assms by (auto simp: zero_run_def nth_append)
qed

section \<open>IPv6\<close>

text \<open>What the pieces between colons of a text without IPv4 notation stand for.\<close>

definition pieces_value :: "string list \<Rightarrow> nat list" where
  "pieces_value ps =
     (if [] \<notin> set ps then map hex_value ps
      else let a = takeWhile (\<lambda>p. p \<noteq> []) ps; b = rev (takeWhile (\<lambda>p. p \<noteq> []) (rev ps))
           in map hex_value a @ replicate (8 - length a - length b) 0 @ map hex_value b)"

abbreviation hex_pieces :: "u16 list \<Rightarrow> string list" where
  "hex_pieces ss \<equiv> map (\<lambda>s. show_hex (unat s)) ss"

lemma hex_pieces_clean: "\<forall>p \<in> set (hex_pieces ss). CHR '':'' \<notin> set p" "[] \<notin> set (hex_pieces ss)"
  using show_hex_chars by (auto simp: eq_commute [of "[]"])

lemma hex_pieces_value [simp]: "map hex_value (hex_pieces ss) = map unat ss"
  by (simp add: hex_value_show)

lemma takeWhile_pieces: "takeWhile (\<lambda>p. p \<noteq> []) (hex_pieces ss @ [] # r) = hex_pieces ss"
  by (induction ss) auto

lemma split_segments: "split_on CHR '':'' (show_segments ss) = (if ss = [] then [[]] else hex_pieces ss)"
  by (simp add: show_segments_def split_on_join [OF _ hex_pieces_clean(1)])

lemma split_segments_append:
  "split_on CHR '':'' (show_segments ss @ CHR '':'' # t) = (if ss = [] then [[]] else hex_pieces ss) @ split_on CHR '':'' t"
  by (simp add: show_segments_def split_on_join_append [OF _ hex_pieces_clean(1)])

lemma compressed_value:
  assumes "length a + length b \<le> 8"
  shows "pieces_value (split_on CHR '':'' (show_segments a @ ''::'' @ show_segments b)) =
    map unat a @ replicate (8 - length a - length b) 0 @ map unat b"
proof -
  let ?ps = "(if a = [] then [[]] else hex_pieces a) @ [[]] @ (if b = [] then [[]] else hex_pieces b)"
  have ps: "split_on CHR '':'' (show_segments a @ ''::'' @ show_segments b) = ?ps"
    using split_segments_append [of a "CHR '':'' # show_segments b"] by (simp add: split_segments)
  have first: "takeWhile (\<lambda>p. p \<noteq> []) ?ps = hex_pieces a"
    using takeWhile_pieces [of a "[] # []"] takeWhile_pieces [of a "hex_pieces b"] by (cases "a = []"; cases "b = []") simp_all
  have second: "takeWhile (\<lambda>p. p \<noteq> []) (rev ?ps) = hex_pieces (rev b)"
    using takeWhile_pieces [of "rev b"] by (cases "b = []") (auto simp: rev_map)
  show ?thesis by (simp only: ps pieces_value_def first second Let_def) (simp add: rev_map [symmetric] hex_value_show)
qed

lemma ipv6_value:
  assumes "to_ipv4_mapped x = None"
  shows "pieces_value (split_on CHR '':'' (show_ipv6 x)) = map unat (segments x)"
proof -
  obtain start len where z: "zero_span 0 (0, 0) (0, 0) (segments x) = (start, len)" by fastforce
  have eight: "length (segments x) = 8" by (cases x) simp
  have "zero_run (segments x) (length (segments x)) (start, len)"
    using zero_span_run [of "segments x" "[]" "segments x" 0 "(0, 0)" "(0, 0)"] by (simp add: z zero_run_def)
  then have parts: "take start (segments x) @ replicate len 0 @ drop (start + len) (segments x) = segments x"
    and le: "start + len \<le> 8" by (simp_all only: zero_run_split) (simp add: zero_run_def eight)
  show ?thesis
  proof (cases "1 < len")
    case True
    have "pieces_value (split_on CHR '':'' (show_ipv6 x)) = map unat (take start (segments x)) @
      replicate (8 - length (take start (segments x)) - length (drop (start + len) (segments x))) 0 @
      map unat (drop (start + len) (segments x))"
      using compressed_value [of "take start (segments x)" "drop (start + len) (segments x)"] True le eight
      by (simp add: show_ipv6_def assms z Let_def)
    also have "\<dots> = map unat (take start (segments x) @ replicate len 0 @ drop (start + len) (segments x))"
      using le eight by simp
    finally show ?thesis by (simp only: parts)
  next
    case False
    have "segments x \<noteq> []" using eight by auto
    with False show ?thesis
      using hex_pieces_clean(2) [of "segments x"]
      by (simp add: show_ipv6_def assms z split_segments pieces_value_def hex_value_show comp_def)
  qed
qed

lemma dot_in_ipv6: "CHR ''.'' \<in> set (show_ipv6 x) \<longleftrightarrow> to_ipv4_mapped x \<noteq> None"
proof -
  have "CHR ''.'' \<notin> set (show_segments ss)" for ss
    using set_join [of "'':''" "hex_pieces ss"] show_hex_chars [of "CHR ''.''"] by (auto simp: show_segments_def)
  then show ?thesis
    by (cases "to_ipv4_mapped x") (auto simp: show_ipv6_def dot_in_ipv4 Let_def split: prod.splits)
qed

lemma mapped_inject:
  assumes "to_ipv4_mapped x = Some v" and "to_ipv4_mapped y = Some v"
  shows "x = y"
proof -
  have octets: "segment_of (high_octet s) (low_octet s) = s" for s
  proof -
    have "unat s < 65536" using unsigned_less [of s, where 'a = nat] by simp
    then have "unat (high_octet s) = unat s div 256" "unat (low_octet s) = unat s mod 256"
      by (simp_all add: high_octet_def low_octet_def unat_of_nat)
    then show ?thesis by (simp add: segment_of_def)
  qed
  have same: "g = g'" if "high_octet g = high_octet g'" "low_octet g = low_octet g'" for g g'
    using that octets by metis
  obtain a b c d e f g h a' b' c' d' e' f' g' h' where xy: "x = Ipv6 a b c d e f g h" "y = Ipv6 a' b' c' d' e' f' g' h'"
    by (cases x; cases y)
  from assms have "[a, b, c, d, e, f] = [a', b', c', d', e', f']"
      "high_octet g = high_octet g'" "low_octet g = low_octet g'" "high_octet h = high_octet h'" "low_octet h = low_octet h'"
    by (auto simp: xy split: if_splits)
  then show ?thesis using same [of g g'] same [of h h'] by (simp add: xy)
qed

lemma show_ipv6_inject [simp]: "show_ipv6 x = show_ipv6 y \<longleftrightarrow> x = y"
proof
  assume eq: "show_ipv6 x = show_ipv6 y"
  show "x = y"
  proof (cases "to_ipv4_mapped x")
    case None
    with eq have "to_ipv4_mapped y = None" using dot_in_ipv6 [of x] dot_in_ipv6 [of y] by simp
    with None eq have "map unat (segments x) = map unat (segments y)" by (metis ipv6_value)
    then have "segments x = segments y" by (metis list.inj_map_strong word_unat_eq_iff)
    then show ?thesis by (cases x; cases y) simp
  next
    case (Some v)
    with eq obtain v' where v': "to_ipv4_mapped y = Some v'" using dot_in_ipv6 [of x] dot_in_ipv6 [of y] by auto
    with Some eq have "v = v'" by (simp add: show_ipv6_def)
    with Some v' show ?thesis by (auto intro: mapped_inject)
  qed
qed simp

lemma colon_in_ipv6: "CHR '':'' \<in> set (show_ipv6 x)"
proof (cases "to_ipv4_mapped x")
  case None
  have "segments x \<noteq> []" by (cases x) simp
  obtain a b c d e f g h where x: "x = Ipv6 a b c d e f g h" by (cases x)
  have "CHR '':'' \<in> set (show_segments (segments x))" by (simp add: show_segments_def x)
  with None show ?thesis
    by (cases "zero_span 0 (0, 0) (0, 0) (segments x)") (auto simp: show_ipv6_def Let_def)
qed (simp add: show_ipv6_def)

lemma show_ip_inject [simp]: "show_ip x = show_ip y \<longleftrightarrow> x = y"
proof -
  have "show_ipv4 a \<noteq> show_ipv6 b" for a b using colon_not_in_ipv4 [of a] colon_in_ipv6 [of b] by auto
  moreover from this have "show_ipv6 b \<noteq> show_ipv4 a" for a b by metis
  ultimately show ?thesis by (cases x; cases y) simp_all
qed

end
