(* ===== verification/Remote.thy ===== *)
theory Remote
  imports Lease Status Retry
begin

text \<open>
  The task that owns one remote listener, \<open>crates/fwm-core/src/engine/remote.rs\<close>, with the
  part of \<open>engine/connection.rs\<close> and \<open>engine/forward.rs\<close> it shares with its SSH session. The
  code between two awaits is a function on the session and the worker; the await points are the
  constructors of \<open>point\<close>; \<open>worker_step\<close> says what can happen at each of them, in the order
  in which a biased \<open>select!\<close> looks at its branches. The server is modelled by the listeners it
  holds: it answers a request to open or to cancel one when it likes, and no answer is trusted
  once the transport has closed. Clock readings, random delays and error texts are arbitrary.
\<close>

section \<open>State\<close>

record session_failure =
  sf_message :: string
  sf_needs_attention :: bool

type_synonym route_key = "string \<times> u32"

record route =
  rt_rule :: rule
  rt_target :: "endpoint option"
  rt_cancelled :: bool
  rt_active :: nat
  rt_timeout :: u64

record session =
  sc_disconnected :: bool
  sc_closed :: bool
  sc_cleanup :: "string option"
  sc_failures :: "session_failure list"
  sc_blocked :: "session_failure option"
  sc_routes :: "(route_key \<times> route) list"
  sc_listeners :: "route_key list"
  sc_status :: shared

text \<open>What follows a release, and what a cancelled listener is followed by.\<close>

datatype continuation = Return | Attend string | Compensate cleanup_error

text \<open>
  Await points. The flags of a request say whether it has timed out and whether cancellation has
  been seen. \<open>Waiting\<close> is the end of \<open>attention\<close> and of \<open>cleanup_failure\<close>.
\<close>

datatype point =
    Begin | Claiming | Opening bool bool | BackingOff | Confirming | Serving
  | Cancelling continuation bool bool | CancelPause continuation | Releasing continuation | Waiting | Finished

record worker =
  wk_rule :: rule
  wk_listen :: socket_addr
  wk_target :: "endpoint option"
  wk_cancelled :: bool
  wk_point :: point
  wk_lease :: "lease option"
  wk_confirmed :: bool
  wk_failures :: u32
  wk_answer :: "(string + unit) option"

type_synonym world = "session \<times> worker"

definition listen_key :: "socket_addr \<Rightarrow> route_key" where
  "listen_key a = (show_ip (sock_ip a), ucast (sock_port a))"

definition new_worker :: "rule \<Rightarrow> socket_addr \<Rightarrow> endpoint option \<Rightarrow> worker" where
  "new_worker r a t = \<lparr>wk_rule = r, wk_listen = a, wk_target = t, wk_cancelled = False, wk_point = Begin,
     wk_lease = None, wk_confirmed = False, wk_failures = 0, wk_answer = None\<rparr>"

abbreviation verified :: "worker \<Rightarrow> bool" where
  "verified w \<equiv> fs_remote_cleanup (ru_spec (wk_rule w)) = Verified"

abbreviation own_key :: "worker \<Rightarrow> route_key" where
  "own_key w \<equiv> listen_key (wk_listen w)"

section \<open>What the worker does between awaits\<close>

definition goto :: "point \<Rightarrow> world \<Rightarrow> world" where
  "goto p sw = (fst sw, (snd sw)\<lparr>wk_point := p\<rparr>)"

definition report :: "u64 \<Rightarrow> runtime_state \<Rightarrow> string option \<Rightarrow> u32 \<Rightarrow> u64 option \<Rightarrow> world \<Rightarrow> world" where
  "report now st err n at sw =
     ((fst sw)\<lparr>sc_status := update now (wk_rule (snd sw)) st err n at (sc_status (fst sw))\<rparr>, snd sw)"

definition announce :: "u64 \<Rightarrow> string \<Rightarrow> world \<Rightarrow> world" where
  "announce now msg sw =
     ((fst sw)\<lparr>sc_status := emit now (wk_rule (snd sw)) msg (sc_status (fst sw))\<rparr>, snd sw)"

definition reconnect :: "string \<Rightarrow> world \<Rightarrow> world" where
  "reconnect msg sw = ((fst sw)\<lparr>sc_failures := sc_failures (fst sw) @ [\<lparr>sf_message = msg, sf_needs_attention = False\<rparr>]\<rparr>, snd sw)"

definition require_attention :: "string \<Rightarrow> world \<Rightarrow> world" where
  "require_attention msg sw = ((fst sw)\<lparr>sc_blocked := Some \<lparr>sf_message = msg, sf_needs_attention = True\<rparr>\<rparr>, snd sw)"

definition attention :: "u64 \<Rightarrow> string \<Rightarrow> world \<Rightarrow> world" where
  "attention now msg sw =
     goto Waiting (report now NeedsAttention (Some msg) 0 None (require_attention msg sw))"

definition cleanup_failure :: "u64 \<Rightarrow> cleanup_error \<Rightarrow> world \<Rightarrow> world" where
  "cleanup_failure now e sw =
     (if sc_disconnected (fst sw) then goto Finished sw
      else if needs_attention e then attention now (cleanup_text e) sw
      else (let msg = ''remote cleanup interrupted: '' @ cleanup_text e in
        goto Waiting (reconnect msg (report now Backoff (Some msg) 1 None sw))))"

text \<open>Only the route of this generation is removed.\<close>

definition remove_route :: "world \<Rightarrow> world" where
  "remove_route sw =
     (let (s, w) = sw in
      case map_of (sc_routes s) (own_key w) of
        Some r \<Rightarrow> if ru_generation (rt_rule r) = ru_generation (wk_rule w)
                  then (s\<lparr>sc_routes := filter (\<lambda>(k, _). k \<noteq> own_key w) (sc_routes s)\<rparr>, w) else (s, w)
      | None \<Rightarrow> (s, w))"

definition cancel_routes :: "worker \<Rightarrow> session \<Rightarrow> session" where
  "cancel_routes w s = s\<lparr>sc_routes := map (\<lambda>(k, r).
     (k, if k = own_key w \<and> ru_generation (rt_rule r) = ru_generation (wk_rule w) then r\<lparr>rt_cancelled := True\<rparr> else r))
     (sc_routes s)\<rparr>"

text \<open>\<open>traffic.cancel()\<close>: the token given to the worker's route.\<close>

definition cancel_traffic :: "world \<Rightarrow> world" where
  "cancel_traffic sw = (cancel_routes (snd sw) (fst sw), snd sw)"

definition after_release :: "u64 \<Rightarrow> continuation \<Rightarrow> world \<Rightarrow> world" where
  "after_release now k sw = (case k of
       Return \<Rightarrow> goto Finished sw
     | Attend msg \<Rightarrow> attention now msg sw
     | Compensate e \<Rightarrow> cleanup_failure now e sw)"

text \<open>\<open>release\<close>: nothing to do without a lease or with one that is gone already.\<close>

definition release :: "u64 \<Rightarrow> continuation \<Rightarrow> world \<Rightarrow> world" where
  "release now k sw =
     (if sc_disconnected (fst sw) then goto Finished sw
      else (case wk_lease (snd sw) of
          None \<Rightarrow> after_release now k sw
        | Some le \<Rightarrow> if le_released le then after_release now k sw else goto (Releasing k) sw))"

definition loop_top :: "u64 \<Rightarrow> world \<Rightarrow> world" where
  "loop_top now sw =
     (if sc_disconnected (fst sw) then goto Finished sw
      else if wk_cancelled (snd sw) then release now Return sw
      else goto (Opening False False) sw)"

definition start :: "u64 \<Rightarrow> world \<Rightarrow> world" where
  "start now sw =
     (if wk_cancelled (snd sw) \<or> sc_disconnected (fst sw) then goto Finished sw
      else if verified (snd sw) then
        (if sc_cleanup (fst sw) = None
         then attention now ''verified remote cleanup has no persistent manager identity'' sw
         else goto Claiming sw)
      else loop_top now sw)"

definition claimed :: "u64 \<Rightarrow> lease \<Rightarrow> world \<Rightarrow> world" where
  "claimed now le sw =
     (let sw1 = (if le_reclaimed le
                 then announce now (''verified recovery: reclaimed previous SSH session for remote listener '' @
                        show_socket_addr (wk_listen (snd sw))) sw else sw)
      in loop_top now (fst sw1, (snd sw1)\<lparr>wk_lease := Some le\<rparr>))"

definition VERIFIED_LISTEN_ATTEMPTS :: u32 where
  "VERIFIED_LISTEN_ATTEMPTS = 3"

definition refused_text :: "worker \<Rightarrow> string \<Rightarrow> string" where
  "refused_text w err = ''remote listener '' @ show_socket_addr (wk_listen w) @
     '' refused (port in use or forwarding prohibited): '' @ err"

definition back_off :: "retry_policy \<Rightarrow> (u64 \<Rightarrow> u64 \<Rightarrow> u64) \<Rightarrow> u64 \<Rightarrow> string \<Rightarrow> world \<Rightarrow> world" where
  "back_off policy rng now msg sw =
     goto BackingOff (report now Backoff (Some msg) (wk_failures (snd sw))
       (Some (now + delay rng (wk_failures (snd sw)) (max_delay_secs policy))) sw)"

definition open_refused ::
    "retry_policy \<Rightarrow> (u64 \<Rightarrow> u64 \<Rightarrow> u64) \<Rightarrow> u64 \<Rightarrow> string \<Rightarrow> world \<Rightarrow> world" where
  "open_refused policy rng now err sw =
     (let (s, w) = remove_route sw in
      if wk_cancelled w then release now Return (s, w)
      else
        let w = w\<lparr>wk_failures := saturating_add (wk_failures w) 1\<rparr>; msg = refused_text w err in
        if wk_lease w \<noteq> None \<and> VERIFIED_LISTEN_ATTEMPTS \<le> wk_failures w
        then release now (Attend msg) (s, w)
        else back_off policy rng now msg (s, w))"

definition tear_down :: "u64 \<Rightarrow> world \<Rightarrow> world" where
  "tear_down now sw =
     (let sw = remove_route (cancel_traffic sw) in
      if sc_disconnected (fst sw) then goto Finished sw
      else goto (Cancelling Return False False) (report now Stopping None 0 None sw))"

definition new_route :: "retry_policy \<Rightarrow> worker \<Rightarrow> route" where
  "new_route policy w = \<lparr>rt_rule = wk_rule w, rt_target = wk_target w, rt_cancelled = False, rt_active = 0,
     rt_timeout = connect_timeout_secs policy\<rparr>"

definition establish :: "retry_policy \<Rightarrow> u64 \<Rightarrow> world \<Rightarrow> world" where
  "establish policy now sw =
     (let (s, w) = sw in
      if \<not> wk_cancelled w \<and> \<not> sc_disconnected s
      then goto Serving (report now Established None 0 None
             (s\<lparr>sc_routes := AList.update (own_key w) (new_route policy w) (sc_routes s)\<rparr>, w))
      else tear_down now sw)"

definition opened :: "retry_policy \<Rightarrow> u64 \<Rightarrow> world \<Rightarrow> world" where
  "opened policy now sw =
     (if \<not> wk_cancelled (snd sw) \<and> wk_lease (snd sw) \<noteq> None then goto Confirming sw
      else establish policy now sw)"

definition confirm_failed :: "cleanup_error \<Rightarrow> world \<Rightarrow> world" where
  "confirm_failed e sw = goto (Cancelling (Compensate e) False False) (remove_route (cancel_traffic sw))"

definition lease_lost :: "u64 \<Rightarrow> cleanup_error \<Rightarrow> world \<Rightarrow> world" where
  "lease_lost now e sw = cleanup_failure now e (remove_route (cancel_traffic sw))"

text \<open>A listener whose cancellation is confirmed: the lease may go.\<close>

definition listener_closed :: "u64 \<Rightarrow> continuation \<Rightarrow> world \<Rightarrow> world" where
  "listener_closed now k sw = (case k of
       Compensate e \<Rightarrow> (case wk_lease (snd sw) of
           Some le \<Rightarrow> if le_released le then after_release now k sw else goto (Releasing k) sw
         | None \<Rightarrow> after_release now k sw)
     | _ \<Rightarrow> release now k sw)"

definition released :: "u64 \<Rightarrow> continuation \<Rightarrow> world \<Rightarrow> world" where
  "released now k sw =
     after_release now k (fst sw, (snd sw)\<lparr>wk_lease := map_option (\<lambda>le. le\<lparr>le_released := True\<rparr>) (wk_lease (snd sw))\<rparr>)"

definition release_failed :: "u64 \<Rightarrow> continuation \<Rightarrow> cleanup_error \<Rightarrow> world \<Rightarrow> world" where
  "release_failed now k e sw = (case k of
       Compensate original \<Rightarrow> cleanup_failure now original (announce now (''remote cleanup release failed: '' @ cleanup_text e) sw)
     | _ \<Rightarrow> cleanup_failure now e sw)"

section \<open>Requests that are never abandoned\<close>

definition OPENING :: string where
  "OPENING = ''opening remote listener''"

definition CANCELLING :: string where
  "CANCELLING = ''cancelling remote listener''"

definition note_cancellation :: "u64 \<Rightarrow> string \<Rightarrow> world \<Rightarrow> world" where
  "note_cancellation now operation = report now Stopping (Some (''waiting for protocol result: '' @ operation)) 0 None"

definition note_timeout :: "u64 \<Rightarrow> bool \<Rightarrow> string \<Rightarrow> world \<Rightarrow> world" where
  "note_timeout now seen operation = report now (if seen then Stopping else Unverified)
     (Some (''protocol response timed out: '' @ operation @ ''; retaining ownership until confirmed'')) 0 None"

definition answered :: "world \<Rightarrow> world" where
  "answered sw = (fst sw, (snd sw)\<lparr>wk_answer := None\<rparr>)"

section \<open>Steps\<close>

inductive worker_step :: "retry_policy \<Rightarrow> world \<Rightarrow> world \<Rightarrow> bool" for policy where
  begun:
    "wk_point w = Begin \<Longrightarrow> worker_step policy (s, w) (start now (s, w))"
| claim_abandoned:
    "wk_point w = Claiming \<Longrightarrow> wk_cancelled w \<or> sc_disconnected s \<Longrightarrow>
     worker_step policy (s, w) (goto Finished (s, w))"
| claim_granted:
    "wk_point w = Claiming \<Longrightarrow> \<not> wk_cancelled w \<Longrightarrow> \<not> sc_disconnected s \<Longrightarrow> \<not> le_released le \<Longrightarrow>
     worker_step policy (s, w) (claimed now le (s, w))"
| claim_failed:
    "wk_point w = Claiming \<Longrightarrow> \<not> wk_cancelled w \<Longrightarrow> \<not> sc_disconnected s \<Longrightarrow>
     worker_step policy (s, w) (cleanup_failure now e (s, w))"
| open_disconnected:
    "wk_point w = Opening t c \<Longrightarrow> sc_disconnected s \<Longrightarrow>
     worker_step policy (s, w) (goto Finished (remove_route (answered (s, w))))"
| open_accepted:
    "wk_point w = Opening t c \<Longrightarrow> \<not> sc_disconnected s \<Longrightarrow> wk_answer w = Some (Inr ()) \<Longrightarrow>
     worker_step policy (s, w) (opened policy now (answered (s, w)))"
| open_rejected:
    "wk_point w = Opening t c \<Longrightarrow> \<not> sc_disconnected s \<Longrightarrow> wk_answer w = Some (Inl err) \<Longrightarrow>
     worker_step policy (s, w) (open_refused policy rng now err (answered (s, w)))"
| open_cancelled:
    "wk_point w = Opening t False \<Longrightarrow> \<not> sc_disconnected s \<Longrightarrow> wk_answer w = None \<Longrightarrow> wk_cancelled w \<Longrightarrow>
     worker_step policy (s, w) (goto (Opening t True) (note_cancellation now OPENING (s, w)))"
| open_late:
    "wk_point w = Opening False c \<Longrightarrow> \<not> sc_disconnected s \<Longrightarrow> wk_answer w = None \<Longrightarrow> wk_cancelled w \<longrightarrow> c \<Longrightarrow>
     worker_step policy (s, w) (goto (Opening True c) (note_timeout now c OPENING (s, w)))"
| backoff_over:
    "wk_point w = BackingOff \<Longrightarrow> worker_step policy (s, w) (loop_top now (s, w))"
| backoff_cancelled:
    "wk_point w = BackingOff \<Longrightarrow> wk_cancelled w \<Longrightarrow> worker_step policy (s, w) (release now Return (s, w))"
| confirm_disconnected:
    "wk_point w = Confirming \<Longrightarrow> sc_disconnected s \<Longrightarrow>
     worker_step policy (s, w) (goto Finished (remove_route (cancel_traffic (s, w))))"
| confirmed:
    "wk_point w = Confirming \<Longrightarrow> \<not> sc_disconnected s \<Longrightarrow>
     worker_step policy (s, w) (establish policy now (s, w\<lparr>wk_confirmed := True\<rparr>))"
| confirm_refused:
    "wk_point w = Confirming \<Longrightarrow> \<not> sc_disconnected s \<Longrightarrow> worker_step policy (s, w) (confirm_failed e (s, w))"
| serving_ended:
    "wk_point w = Serving \<Longrightarrow> wk_cancelled w \<or> sc_disconnected s \<Longrightarrow>
     worker_step policy (s, w) (tear_down now (s, w))"
| helper_lost:
    "wk_point w = Serving \<Longrightarrow> \<not> wk_cancelled w \<Longrightarrow> \<not> sc_disconnected s \<Longrightarrow> wk_lease w \<noteq> None \<Longrightarrow>
     worker_step policy (s, w) (lease_lost now e (s, w))"
| cancel_disconnected:
    "wk_point w = Cancelling k t c \<Longrightarrow> sc_disconnected s \<Longrightarrow>
     worker_step policy (s, w) (goto Finished (answered (s, w)))"
| cancel_confirmed:
    "wk_point w = Cancelling k t c \<Longrightarrow> \<not> sc_disconnected s \<Longrightarrow> wk_answer w = Some (Inr ()) \<Longrightarrow>
     worker_step policy (s, w) (listener_closed now k (answered (s, w)))"
| cancel_failed:
    "wk_point w = Cancelling k t c \<Longrightarrow> \<not> sc_disconnected s \<Longrightarrow> wk_answer w = Some (Inl err) \<Longrightarrow>
     worker_step policy (s, w) (goto (CancelPause k)
       (report now Stopping (Some (''remote cancellation not confirmed: '' @ err)) 0 None (answered (s, w))))"
| cancel_cancelled:
    "wk_point w = Cancelling k t False \<Longrightarrow> \<not> sc_disconnected s \<Longrightarrow> wk_answer w = None \<Longrightarrow> wk_cancelled w \<Longrightarrow>
     worker_step policy (s, w) (goto (Cancelling k t True) (note_cancellation now CANCELLING (s, w)))"
| cancel_late:
    "wk_point w = Cancelling k False c \<Longrightarrow> \<not> sc_disconnected s \<Longrightarrow> wk_answer w = None \<Longrightarrow> wk_cancelled w \<longrightarrow> c \<Longrightarrow>
     worker_step policy (s, w) (goto (Cancelling k True c) (note_timeout now c CANCELLING (s, w)))"
| pause_disconnected:
    "wk_point w = CancelPause k \<Longrightarrow> sc_disconnected s \<Longrightarrow> worker_step policy (s, w) (goto Finished (s, w))"
| pause_over:
    "wk_point w = CancelPause k \<Longrightarrow> worker_step policy (s, w) (goto (Cancelling k False False) (s, w))"
| lease_released:
    "wk_point w = Releasing k \<Longrightarrow> worker_step policy (s, w) (released now k (s, w))"
| lease_kept:
    "wk_point w = Releasing k \<Longrightarrow> worker_step policy (s, w) (release_failed now k e (s, w))"
| dismissed:
    "wk_point w = Waiting \<Longrightarrow> wk_cancelled w \<or> sc_disconnected s \<Longrightarrow>
     worker_step policy (s, w) (goto Finished (s, w))"

text \<open>
  What happens around a worker: the server answers, or does what it likes once the transport has
  closed; the session cancels the worker or declares the connection gone.
\<close>

inductive server_step :: "world \<Rightarrow> world \<Rightarrow> bool" where
  server_opens:
    "wk_point w = Opening t c \<Longrightarrow> wk_answer w = None \<Longrightarrow> \<not> sc_closed s \<Longrightarrow> own_key w \<notin> set (sc_listeners s) \<Longrightarrow>
     server_step (s, w) (s\<lparr>sc_listeners := own_key w # sc_listeners s\<rparr>, w\<lparr>wk_answer := Some (Inr ())\<rparr>)"
| server_refuses:
    "wk_point w = Opening t c \<Longrightarrow> wk_answer w = None \<Longrightarrow>
     server_step (s, w) (s, w\<lparr>wk_answer := Some (Inl err)\<rparr>)"
| server_cancels:
    "wk_point w = Cancelling k t c \<Longrightarrow> wk_answer w = None \<Longrightarrow> \<not> sc_closed s \<Longrightarrow>
     server_step (s, w) (s\<lparr>sc_listeners := filter (\<lambda>k. k \<noteq> own_key w) (sc_listeners s)\<rparr>, w\<lparr>wk_answer := Some (Inr ())\<rparr>)"
| server_keeps:
    "wk_point w = Cancelling k t c \<Longrightarrow> wk_answer w = None \<Longrightarrow>
     server_step (s, w) (s, w\<lparr>wk_answer := Some (Inl err)\<rparr>)"
| server_gone:
    "sc_closed s \<Longrightarrow> server_step (s, w) (s\<lparr>sc_listeners := ls\<rparr>, w)"

definition cancel_worker :: "world \<Rightarrow> world" where
  "cancel_worker sw = (cancel_routes (snd sw) (fst sw), (snd sw)\<lparr>wk_cancelled := True\<rparr>)"

inductive around_step :: "world \<Rightarrow> world \<Rightarrow> bool" where
  served: "server_step a b \<Longrightarrow> around_step a b"
| cancelled: "around_step a (cancel_worker a)"
| disconnected: "around_step (s, w) (s\<lparr>sc_disconnected := True\<rparr>, w)"
| closed: "around_step (s, w) (s\<lparr>sc_closed := True\<rparr>, w)"

definition remote_step :: "retry_policy \<Rightarrow> world \<Rightarrow> world \<Rightarrow> bool" where
  "remote_step policy a b = (worker_step policy a b \<or> around_step a b)"

text \<open>
  A worker is spawned into a session that has no listener and no route for its address yet; a
  route is registered under the address of its rule.
\<close>

definition rule_listen :: "rule \<Rightarrow> socket_addr" where
  "rule_listen r = listen (fs_tunnel (ru_spec r))"

definition routes_ok :: "session \<Rightarrow> bool" where
  "routes_ok s = (distinct (map fst (sc_routes s)) \<and>
     (\<forall>(k, r) \<in> set (sc_routes s). k = listen_key (rule_listen (rt_rule r))))"

definition spawned :: "world \<Rightarrow> bool" where
  "spawned sw = (\<exists>s r t. sw = (s, new_worker r (rule_listen r) t) \<and> routes_ok s \<and>
     listen_key (rule_listen r) \<notin> set (sc_listeners s) \<and> map_of (sc_routes s) (listen_key (rule_listen r)) = None)"

inductive runs :: "retry_policy \<Rightarrow> world \<Rightarrow> bool" for policy where
  spawned: "spawned a \<Longrightarrow> runs policy a"
| stepped: "runs policy a \<Longrightarrow> remote_step policy a b \<Longrightarrow> runs policy b"

section \<open>Connections to a listener\<close>

text \<open>
  \<open>server_channel_open_forwarded_tcpip\<close>: a connection is served for the route of its listener,
  under the address the server was given or another spelling of it.
\<close>

datatype channel_reply = Prohibited | Shortage | Accepted route

definition canonical_ip :: "string \<Rightarrow> ip_addr option" where
  "canonical_ip t = map_option to_canonical (parse_ip t)"

definition find_route :: "string \<Rightarrow> u32 \<Rightarrow> (route_key \<times> route) list \<Rightarrow> (route_key \<times> route) option" where
  "find_route address port rs =
     (case map_of rs (address, port) of
        Some r \<Rightarrow> Some ((address, port), r)
      | None \<Rightarrow> (case canonical_ip address of
            None \<Rightarrow> None
          | Some ip \<Rightarrow> List.find (\<lambda>((registered, registered_port), _).
              registered_port = port \<and> canonical_ip registered = Some ip) rs))"

definition MAX_CONNECTIONS :: nat where
  "MAX_CONNECTIONS = 256"

definition open_forwarded :: "string \<Rightarrow> u32 \<Rightarrow> session \<Rightarrow> channel_reply \<times> session" where
  "open_forwarded address port s =
     (case find_route address port (sc_routes s) of
        None \<Rightarrow> (Prohibited, s)
      | Some (k, r) \<Rightarrow>
          if rt_cancelled r then (Prohibited, s)
          else if MAX_CONNECTIONS \<le> rt_active r then (Shortage, s)
          else (Accepted r, s\<lparr>sc_routes := map (\<lambda>(j, x). (j, if j = k then x\<lparr>rt_active := rt_active x + 1\<rparr> else x))
                  (sc_routes s)\<rparr>))"

section \<open>Invariant\<close>

definition live :: "session \<Rightarrow> bool" where
  "live s = (\<not> sc_disconnected s \<and> \<not> sc_closed s)"

definition retiring :: "session \<Rightarrow> bool" where
  "retiring s = (sc_blocked s \<noteq> None \<or> sc_failures s \<noteq> [])"

definition holds :: "world \<Rightarrow> bool" where
  "holds sw = (own_key (snd sw) \<in> set (sc_listeners (fst sw)))"

text \<open>Whether the server has the listener at each await point, while the connection stands.\<close>

fun listener_at :: "point \<Rightarrow> world \<Rightarrow> bool" where
  "listener_at (Opening _ _) sw = (holds sw \<longleftrightarrow> wk_answer (snd sw) = Some (Inr ()))"
| "listener_at (Cancelling _ _ _) sw = (holds sw \<longleftrightarrow> wk_answer (snd sw) \<noteq> Some (Inr ()))"
| "listener_at Confirming sw = holds sw"
| "listener_at Serving sw = holds sw"
| "listener_at (CancelPause _) sw = holds sw"
| "listener_at Waiting sw = (holds sw \<longrightarrow> verified (snd sw) \<and> retiring (fst sw))"
| "listener_at Finished sw = (holds sw \<longrightarrow> verified (snd sw) \<and> retiring (fst sw))"
| "listener_at _ sw = (\<not> holds sw)"

fun requesting :: "point \<Rightarrow> bool" where
  "requesting (Opening _ _) = True"
| "requesting (Cancelling _ _ _) = True"
| "requesting _ = False"

definition holds_lease :: "worker \<Rightarrow> bool" where
  "holds_lease w = (case wk_lease w of None \<Rightarrow> False | Some le \<Rightarrow> \<not> le_released le)"

fun lease_at :: "point \<Rightarrow> worker \<Rightarrow> bool" where
  "lease_at Begin w = (wk_lease w = None)"
| "lease_at Claiming w = (wk_lease w = None \<and> verified w)"
| "lease_at (Opening _ _) w = (holds_lease w = verified w)"
| "lease_at BackingOff w = (holds_lease w = verified w)"
| "lease_at Confirming w = (holds_lease w \<and> verified w)"
| "lease_at Serving w = (holds_lease w = verified w \<and> (verified w \<longrightarrow> wk_confirmed w))"
| "lease_at (Cancelling _ _ _) w = (holds_lease w = verified w)"
| "lease_at (CancelPause _) w = (holds_lease w = verified w)"
| "lease_at (Releasing _) w = (holds_lease w \<and> verified w)"
| "lease_at _ w = (wk_lease w \<noteq> None \<longrightarrow> verified w)"

fun attempts_at :: "point \<Rightarrow> worker \<Rightarrow> bool" where
  "attempts_at p w = (if p \<in> {Begin, Claiming, BackingOff} \<or> (\<exists>t c. p = Opening t c)
     then wk_failures w < VERIFIED_LISTEN_ATTEMPTS else wk_failures w \<le> VERIFIED_LISTEN_ATTEMPTS)"

definition own_route :: "world \<Rightarrow> route option" where
  "own_route sw = (case map_of (sc_routes (fst sw)) (own_key (snd sw)) of
       None \<Rightarrow> None
     | Some r \<Rightarrow> if ru_generation (rt_rule r) = ru_generation (wk_rule (snd sw)) then Some r else None)"

definition worker_ok :: "world \<Rightarrow> bool" where
  "worker_ok sw =
     ((live (fst sw) \<longrightarrow> listener_at (wk_point (snd sw)) sw) \<and>
      (wk_answer (snd sw) \<noteq> None \<longrightarrow> requesting (wk_point (snd sw))) \<and>
      lease_at (wk_point (snd sw)) (snd sw) \<and>
      (wk_lease (snd sw) \<noteq> None \<longrightarrow> verified (snd sw)) \<and>
      (live (fst sw) \<and> wk_lease (snd sw) \<noteq> None \<and> \<not> holds_lease (snd sw) \<longrightarrow> \<not> holds sw) \<and>
      (verified (snd sw) \<longrightarrow> attempts_at (wk_point (snd sw)) (snd sw)) \<and>
      (own_route sw \<noteq> None \<longrightarrow> wk_point (snd sw) = Serving) \<and>
      (\<forall>r. own_route sw = Some r \<longrightarrow> wk_cancelled (snd sw) \<longrightarrow> rt_cancelled r))"

end
