(* ===== verification/RemoteSafety.thy ===== *)
theory RemoteSafety
  imports Remote
begin

text \<open>
  What the owner of a remote listener guarantees, whatever the server, the session and the clock
  do: it never ends while the server still listens for it, it gives a lease up only after the
  listener has gone, and connections reach it only while it owns the listener.
\<close>

section \<open>Segments as updates\<close>

lemma world_simps [simp]:
  "goto p (s, w) = (s, w\<lparr>wk_point := p\<rparr>)"
  "report now st err n at (s, w) = (s\<lparr>sc_status := update now (wk_rule w) st err n at (sc_status s)\<rparr>, w)"
  "announce now msg (s, w) = (s\<lparr>sc_status := emit now (wk_rule w) msg (sc_status s)\<rparr>, w)"
  "reconnect msg (s, w) = (s\<lparr>sc_failures := sc_failures s @ [\<lparr>sf_message = msg, sf_needs_attention = False\<rparr>]\<rparr>, w)"
  "require_attention msg (s, w) = (s\<lparr>sc_blocked := Some \<lparr>sf_message = msg, sf_needs_attention = True\<rparr>\<rparr>, w)"
  "answered (s, w) = (s, w\<lparr>wk_answer := None\<rparr>)"
  "cancel_traffic (s, w) = (cancel_routes w s, w)"
  by (simp_all add: goto_def report_def announce_def reconnect_def require_attention_def answered_def cancel_traffic_def)

lemma cancel_routes_simps [simp]:
  "sc_disconnected (cancel_routes w s) = sc_disconnected s"
  "sc_closed (cancel_routes w s) = sc_closed s"
  "sc_listeners (cancel_routes w s) = sc_listeners s"
  "sc_blocked (cancel_routes w s) = sc_blocked s"
  "sc_failures (cancel_routes w s) = sc_failures s"
  by (simp_all add: cancel_routes_def)

lemma routed_cancel: "map_of (sc_routes (cancel_routes w s)) k = map_option (\<lambda>r.
    if k = own_key w \<and> ru_generation (rt_rule r) = ru_generation (wk_rule w) then r\<lparr>rt_cancelled := True\<rparr> else r)
    (map_of (sc_routes s) k)"
proof -
  have "map_of (map (\<lambda>(k, r). (k, f k r)) xs) k = map_option (f k) (map_of xs k)" for f and xs :: "(route_key \<times> route) list"
    by (induction xs) auto
  then show ?thesis by (simp add: cancel_routes_def)
qed

lemma routed_filter: "map_of (filter (\<lambda>(k, _). k \<noteq> a) xs) b = (if b = a then None else map_of xs b)"
  by (induction xs) auto

lemma own_route_simps [simp]:
  "own_route (s\<lparr>sc_status := st\<rparr>, w) = own_route (s, w)"
  "own_route (s\<lparr>sc_failures := fs\<rparr>, w) = own_route (s, w)"
  "own_route (s\<lparr>sc_blocked := b\<rparr>, w) = own_route (s, w)"
  "own_route (s\<lparr>sc_disconnected := d\<rparr>, w) = own_route (s, w)"
  "own_route (s\<lparr>sc_closed := d\<rparr>, w) = own_route (s, w)"
  "own_route (s\<lparr>sc_listeners := l\<rparr>, w) = own_route (s, w)"
  "own_route (s, w\<lparr>wk_point := p\<rparr>) = own_route (s, w)"
  "own_route (s, w\<lparr>wk_lease := le\<rparr>) = own_route (s, w)"
  "own_route (s, w\<lparr>wk_answer := a\<rparr>) = own_route (s, w)"
  "own_route (s, w\<lparr>wk_failures := n\<rparr>) = own_route (s, w)"
  "own_route (s, w\<lparr>wk_confirmed := c\<rparr>) = own_route (s, w)"
  "own_route (s, w\<lparr>wk_cancelled := d\<rparr>) = own_route (s, w)"
  by (simp_all add: own_route_def cong: option.case_cong)

lemma remove_route_pair:
  obtains rs where "remove_route (s, w) = (s\<lparr>sc_routes := rs\<rparr>, w)" "own_route (s\<lparr>sc_routes := rs\<rparr>, w) = None"
proof (cases "own_route (s, w)")
  case None
  then have "remove_route (s, w) = (s\<lparr>sc_routes := sc_routes s\<rparr>, w)"
    by (auto simp: remove_route_def own_route_def split: option.splits if_splits)
  with None show ?thesis by (intro that [of "sc_routes s"]) simp_all
next
  case (Some r)
  then have "remove_route (s, w) = (s\<lparr>sc_routes := filter (\<lambda>(k, _). k \<noteq> own_key w) (sc_routes s)\<rparr>, w)"
    by (auto simp: remove_route_def own_route_def split: option.splits if_splits)
  then show ?thesis by (rule that) (simp add: own_route_def routed_filter)
qed

section \<open>The invariant of a worker\<close>

text \<open>A worker between awaits, without a request or a route, and what it may then enter.\<close>

definition settled :: "session \<Rightarrow> worker \<Rightarrow> bool" where
  "settled s w = (wk_answer w = None \<and> own_route (s, w) = None \<and> (wk_lease w \<noteq> None \<longrightarrow> verified w) \<and>
     (verified w \<longrightarrow> wk_failures w \<le> VERIFIED_LISTEN_ATTEMPTS) \<and>
     (live s \<and> wk_lease w \<noteq> None \<and> \<not> holds_lease w \<longrightarrow> own_key w \<notin> set (sc_listeners s)))"

definition shut :: "session \<Rightarrow> worker \<Rightarrow> bool" where
  "shut s w = (live s \<longrightarrow> own_key w \<notin> set (sc_listeners s))"

lemmas ok_simps = worker_ok_def settled_def shut_def live_def holds_def retiring_def holds_lease_def

lemma ok_finished:
  "settled s w \<Longrightarrow> shut s w \<or> sc_disconnected s \<Longrightarrow> worker_ok (s, w\<lparr>wk_point := Finished\<rparr>)"
  by (auto simp: ok_simps)

lemma ok_attention:
  "settled s w \<Longrightarrow> shut s w \<or> verified w \<Longrightarrow> worker_ok (attention now msg (s, w))"
  by (auto simp: ok_simps attention_def split: option.splits)

lemma ok_cleanup_failure:
  "settled s w \<Longrightarrow> shut s w \<or> verified w \<Longrightarrow> worker_ok (cleanup_failure now e (s, w))"
  by (auto simp: cleanup_failure_def ok_finished ok_attention Let_def) (auto simp: ok_simps split: option.splits)

lemma ok_after_release:
  "settled s w \<Longrightarrow> shut s w \<Longrightarrow> worker_ok (after_release now k (s, w))"
  by (auto simp: after_release_def ok_finished ok_attention ok_cleanup_failure split: continuation.splits)

lemma ok_release:
  "settled s w \<Longrightarrow> shut s w \<Longrightarrow> worker_ok (release now k (s, w))"
  by (auto simp: release_def ok_finished ok_after_release split: option.splits) (auto simp: ok_simps)

lemma ok_loop_top:
  assumes "settled s w" "shut s w" "holds_lease w = verified w" "verified w \<longrightarrow> wk_failures w < VERIFIED_LISTEN_ATTEMPTS"
  shows "worker_ok (loop_top now (s, w))"
  using assms by (auto simp: loop_top_def ok_finished ok_release) (auto simp: ok_simps)


lemma ok_requesting:
  assumes "wk_answer w = None" "own_route (s, w) = None" "holds_lease w = verified w" "wk_lease w \<noteq> None \<longrightarrow> verified w"
    and "verified w \<longrightarrow> wk_failures w \<le> VERIFIED_LISTEN_ATTEMPTS" "live s \<longrightarrow> own_key w \<in> set (sc_listeners s)"
  shows "worker_ok (s, w\<lparr>wk_point := Cancelling k t c\<rparr>)"
  using assms by (auto simp: ok_simps split: option.splits)

lemma ok_tear_down:
  assumes "wk_answer w = None" "holds_lease w = verified w" "wk_lease w \<noteq> None \<longrightarrow> verified w"
    and "verified w \<longrightarrow> wk_failures w \<le> VERIFIED_LISTEN_ATTEMPTS" "live s \<longrightarrow> own_key w \<in> set (sc_listeners s)"
  shows "worker_ok (tear_down now (s, w))"
proof -
  obtain rs where r: "remove_route (cancel_routes w s, w) =
      (cancel_routes w s\<lparr>sc_routes := rs\<rparr>, w)"
    "own_route (cancel_routes w s\<lparr>sc_routes := rs\<rparr>, w) = None"
    by (rule remove_route_pair)
  have "worker_ok (cancel_routes w s\<lparr>sc_routes := rs\<rparr>, w\<lparr>wk_point := Finished\<rparr>)"
    if "sc_disconnected s"
    by (rule ok_finished) (use assms r that in \<open>auto simp: settled_def live_def\<close>)
  moreover have "worker_ok (cancel_routes w s\<lparr>sc_routes := rs, sc_status := st\<rparr>,
      w\<lparr>wk_point := Cancelling Return False False\<rparr>)" for st
    by (rule ok_requesting) (use assms r in \<open>auto simp: live_def\<close>)
  ultimately show ?thesis by (simp add: tear_down_def r Let_def)
qed

lemma ok_establish:
  assumes "wk_answer w = None" "holds_lease w = verified w" "wk_lease w \<noteq> None \<longrightarrow> verified w"
    and "verified w \<longrightarrow> wk_failures w \<le> VERIFIED_LISTEN_ATTEMPTS" "live s \<longrightarrow> own_key w \<in> set (sc_listeners s)"
    and "verified w \<and> \<not> wk_cancelled w \<longrightarrow> wk_confirmed w"
  shows "worker_ok (establish policy now (s, w))"
proof (cases "\<not> wk_cancelled w \<and> \<not> sc_disconnected s")
  case True
  with assms show ?thesis
    by (auto simp: establish_def ok_simps own_route_def update_conv' split: option.splits)
next
  case False
  then show ?thesis using ok_tear_down [OF assms(1-5)] by (auto simp: establish_def)
qed

lemma ok_claimed:
  assumes "settled s w" "shut s w" "verified w" "wk_failures w < VERIFIED_LISTEN_ATTEMPTS" "\<not> le_released le"
  shows "worker_ok (claimed now le (s, w))"
proof -
  have "settled (s\<lparr>sc_status := st\<rparr>) (w\<lparr>wk_lease := Some le\<rparr>)" "shut (s\<lparr>sc_status := st\<rparr>) (w\<lparr>wk_lease := Some le\<rparr>)" for st
    using assms by (auto simp: settled_def shut_def live_def holds_lease_def)
  from ok_loop_top [OF this] ok_loop_top [OF this [of "sc_status s"]] assms show ?thesis
    by (simp add: claimed_def Let_def holds_lease_def)
qed

lemma ok_opened:
  assumes "wk_answer w = None" "own_route (s, w) = None" "holds_lease w = verified w" "wk_lease w \<noteq> None \<longrightarrow> verified w"
    and "verified w \<longrightarrow> wk_failures w \<le> VERIFIED_LISTEN_ATTEMPTS" "live s \<longrightarrow> own_key w \<in> set (sc_listeners s)"
  shows "worker_ok (opened policy now (s, w))"
proof (cases "\<not> wk_cancelled w \<and> wk_lease w \<noteq> None")
  case True
  with assms show ?thesis by (auto simp: opened_def ok_simps split: option.splits)
next
  case False
  with assms have "verified w \<and> \<not> wk_cancelled w \<longrightarrow> wk_confirmed w" by (auto simp: holds_lease_def)
  with False ok_establish [OF assms(1) assms(3-6)] show ?thesis by (auto simp: opened_def)
qed

lemma at_least_failures:
  "wk_failures w < VERIFIED_LISTEN_ATTEMPTS \<Longrightarrow> saturating_add (wk_failures w) 1 \<le> VERIFIED_LISTEN_ATTEMPTS"
  by (simp add: VERIFIED_LISTEN_ATTEMPTS_def word_le_nat_alt word_less_nat_alt unat_saturating_add)

lemma ok_back_off:
  assumes "settled s w" "shut s w" "holds_lease w = verified w" "verified w \<longrightarrow> wk_failures w < VERIFIED_LISTEN_ATTEMPTS"
  shows "worker_ok (back_off policy rng now msg (s, w))"
  using assms by (auto simp: back_off_def ok_simps split: option.splits)

lemma ok_open_refused:
  assumes "settled s w" "shut s w" "holds_lease w = verified w" "verified w \<longrightarrow> wk_failures w < VERIFIED_LISTEN_ATTEMPTS"
  shows "worker_ok (open_refused policy rng now err (s, w))"
proof -
  obtain rs where r: "remove_route (s, w) = (s\<lparr>sc_routes := rs\<rparr>, w)" "own_route (s\<lparr>sc_routes := rs\<rparr>, w) = None"
    by (rule remove_route_pair)
  let ?s = "s\<lparr>sc_routes := rs\<rparr>" and ?w = "w\<lparr>wk_failures := saturating_add (wk_failures w) 1\<rparr>"
  have set: "settled ?s w" "shut ?s w" using assms r by (auto simp: settled_def shut_def live_def)
  have set': "settled ?s ?w" "shut ?s ?w" "holds_lease ?w = verified ?w"
    using assms r at_least_failures [of w] by (auto simp: settled_def shut_def live_def holds_lease_def)
  have less: "verified ?w \<longrightarrow> wk_failures ?w < VERIFIED_LISTEN_ATTEMPTS"
    if "wk_lease w = None \<or> \<not> VERIFIED_LISTEN_ATTEMPTS \<le> wk_failures ?w"
    using that set'(3) by (auto simp: holds_lease_def)
  show ?thesis
    using ok_release [OF set] ok_release [OF set'(1,2)] ok_back_off [OF set' less]
    by (auto simp: open_refused_def r Let_def)
qed

lemma ok_confirm_failed:
  assumes "wk_answer w = None" "holds_lease w = verified w" "wk_lease w \<noteq> None \<longrightarrow> verified w"
    and "verified w \<longrightarrow> wk_failures w \<le> VERIFIED_LISTEN_ATTEMPTS" "live s \<longrightarrow> own_key w \<in> set (sc_listeners s)"
  shows "worker_ok (confirm_failed e (s, w))"
proof -
  let ?s = "cancel_routes w s"
  obtain rs where r: "remove_route (?s, w) = (?s\<lparr>sc_routes := rs\<rparr>, w)" "own_route (?s\<lparr>sc_routes := rs\<rparr>, w) = None"
    by (rule remove_route_pair)
  have "worker_ok (?s\<lparr>sc_routes := rs\<rparr>, w\<lparr>wk_point := Cancelling (Compensate e) False False\<rparr>)"
    by (rule ok_requesting) (use assms r in \<open>auto simp: live_def\<close>)
  then show ?thesis by (simp add: confirm_failed_def r)
qed

lemma ok_lease_lost:
  assumes "wk_answer w = None" "holds_lease w" "wk_lease w \<noteq> None \<longrightarrow> verified w"
    and "verified w \<longrightarrow> wk_failures w \<le> VERIFIED_LISTEN_ATTEMPTS"
  shows "worker_ok (lease_lost now e (s, w))"
proof -
  let ?s = "cancel_routes w s"
  obtain rs where r: "remove_route (?s, w) = (?s\<lparr>sc_routes := rs\<rparr>, w)" "own_route (?s\<lparr>sc_routes := rs\<rparr>, w) = None"
    by (rule remove_route_pair)
  have "worker_ok (cleanup_failure now e (?s\<lparr>sc_routes := rs\<rparr>, w))"
    by (rule ok_cleanup_failure) (use assms r in \<open>auto simp: settled_def holds_lease_def split: option.splits\<close>)
  then show ?thesis by (simp add: lease_lost_def r)
qed

lemma ok_listener_closed:
  assumes "settled s w" "shut s w"
  shows "worker_ok (listener_closed now k (s, w))"
proof (cases k)
  case (Compensate e)
  then show ?thesis using assms ok_after_release [OF assms, of now k]
    by (auto simp: listener_closed_def split: option.splits) (auto simp: ok_simps)
qed (simp_all add: listener_closed_def ok_release assms)

lemma ok_released:
  assumes "settled s w" "shut s w"
  shows "worker_ok (released now k (s, w))"
proof -
  have "settled s (w\<lparr>wk_lease := l\<rparr>)" "shut s (w\<lparr>wk_lease := l\<rparr>)"
    if "l = map_option (\<lambda>le. le\<lparr>le_released := True\<rparr>) (wk_lease w)" for l
    using assms that by (auto simp: settled_def shut_def holds_lease_def)
  then show ?thesis by (simp add: released_def ok_after_release)
qed

lemma ok_release_failed:
  assumes "settled s w" "shut s w"
  shows "worker_ok (release_failed now k e (s, w))"
proof -
  have "settled (s\<lparr>sc_status := st\<rparr>) w" "shut (s\<lparr>sc_status := st\<rparr>) w" for st
    using assms by (auto simp: settled_def shut_def live_def)
  then show ?thesis using assms
    by (cases k) (auto simp: release_failed_def ok_cleanup_failure)
qed

text \<open>What the invariant says at a point without a request.\<close>

lemma ok_settled:
  assumes "worker_ok (s, w)" "\<not> requesting (wk_point w)" "wk_point w \<noteq> Serving"
  shows "settled s w"
  using assms by (cases "wk_point w") (auto simp: ok_simps split: if_splits)

lemma opening_facts:
  assumes "worker_ok (s, w)" "wk_point w = Opening t c"
  shows "own_route (s, w) = None \<and> holds_lease w = verified w \<and> (wk_lease w \<noteq> None \<longrightarrow> verified w) \<and>
    (verified w \<longrightarrow> wk_failures w < VERIFIED_LISTEN_ATTEMPTS) \<and>
    (live s \<longrightarrow> (own_key w \<in> set (sc_listeners s) \<longleftrightarrow> wk_answer w = Some (Inr ())))"
  using assms by (auto simp: ok_simps)

lemma cancelling_facts:
  assumes "worker_ok (s, w)" "wk_point w = Cancelling k t c"
  shows "own_route (s, w) = None \<and> holds_lease w = verified w \<and> (wk_lease w \<noteq> None \<longrightarrow> verified w) \<and>
    (verified w \<longrightarrow> wk_failures w \<le> VERIFIED_LISTEN_ATTEMPTS) \<and>
    (live s \<longrightarrow> (own_key w \<in> set (sc_listeners s) \<longleftrightarrow> wk_answer w \<noteq> Some (Inr ())))"
  using assms by (auto simp: ok_simps)

lemma idle_facts:
  assumes "worker_ok (s, w)"
  shows "wk_point w \<in> {Begin, Claiming, BackingOff} \<or> (\<exists>k. wk_point w = Releasing k) \<Longrightarrow> shut s w"
    and "wk_point w \<in> {Begin, Claiming, BackingOff} \<or> (\<exists>k. wk_point w = Releasing k) \<Longrightarrow> settled s w"
    and "wk_point w \<in> {Begin, Claiming, BackingOff} \<Longrightarrow> verified w \<Longrightarrow> wk_failures w < VERIFIED_LISTEN_ATTEMPTS"
    and "wk_point w = Begin \<Longrightarrow> wk_lease w = None"
    and "wk_point w = Claiming \<Longrightarrow> verified w"
    and "wk_point w = BackingOff \<Longrightarrow> holds_lease w = verified w"
  using assms ok_settled [OF assms]
  by (cases "wk_point w"; simp add: worker_ok_def shut_def holds_def)+

lemma held_facts:
  assumes "worker_ok (s, w)" "wk_point w \<in> {Confirming, Serving}"
  shows "wk_answer w = None \<and> holds_lease w = verified w \<and> (wk_lease w \<noteq> None \<longrightarrow> verified w) \<and>
    (verified w \<longrightarrow> wk_failures w \<le> VERIFIED_LISTEN_ATTEMPTS) \<and> (live s \<longrightarrow> own_key w \<in> set (sc_listeners s)) \<and>
    (wk_point w = Confirming \<longrightarrow> own_route (s, w) = None)"
proof -
  from assms(2) consider "wk_point w = Confirming" | "wk_point w = Serving" by auto
  then show ?thesis using assms(1) by cases (simp_all add: worker_ok_def holds_def)
qed

lemma begun_ok:
  assumes "worker_ok (s, w)" "wk_point w = Begin"
  shows "worker_ok (start now (s, w))"
proof -
  note facts = idle_facts [OF assms(1)] assms(2)
  have "worker_ok (s, w\<lparr>wk_point := Claiming\<rparr>)" if "verified w"
    using assms that by (auto simp: ok_simps)
  then show ?thesis using facts
    by (auto simp: start_def holds_lease_def ok_finished ok_attention intro!: ok_loop_top)
qed

lemma opening_ok:
  assumes "worker_ok (s, w)" "wk_point w = Opening t c"
  shows "sc_disconnected s \<Longrightarrow> worker_ok (goto Finished (remove_route (answered (s, w))))"
    and "wk_answer w = Some (Inr ()) \<Longrightarrow> worker_ok (opened policy now (answered (s, w)))"
    and "wk_answer w = Some (Inl err) \<Longrightarrow> worker_ok (open_refused policy rng now err (answered (s, w)))"
    and "wk_answer w = None \<Longrightarrow> worker_ok (s\<lparr>sc_status := st\<rparr>, w\<lparr>wk_point := Opening t' c'\<rparr>)"
proof -
  note facts = opening_facts [OF assms]
  let ?w = "w\<lparr>wk_answer := None\<rparr>"
  have w: "holds_lease ?w = holds_lease w" by (simp add: holds_lease_def)
  obtain rs where r: "remove_route (s, ?w) = (s\<lparr>sc_routes := rs\<rparr>, ?w)" "own_route (s\<lparr>sc_routes := rs\<rparr>, ?w) = None"
    by (rule remove_route_pair)
  show "worker_ok (goto Finished (remove_route (answered (s, w))))" if "sc_disconnected s"
  proof -
    have "worker_ok (s\<lparr>sc_routes := rs\<rparr>, ?w\<lparr>wk_point := Finished\<rparr>)"
      by (rule ok_finished) (use facts r that in \<open>auto simp: settled_def live_def\<close>)
    then show ?thesis by (simp add: r)
  qed
  show "worker_ok (opened policy now (answered (s, w)))" if "wk_answer w = Some (Inr ())"
    using facts that by (auto simp: w intro!: ok_opened)
  show "worker_ok (open_refused policy rng now err (answered (s, w)))" if "wk_answer w = Some (Inl err)"
    using facts that by (auto simp: w settled_def shut_def intro!: ok_open_refused)
  show "worker_ok (s\<lparr>sc_status := st\<rparr>, w\<lparr>wk_point := Opening t' c'\<rparr>)" if "wk_answer w = None"
    using assms that by (auto simp: ok_simps)
qed

lemma cancelling_ok:
  assumes "worker_ok (s, w)" "wk_point w = Cancelling k t c"
  shows "sc_disconnected s \<Longrightarrow> worker_ok (goto Finished (answered (s, w)))"
    and "wk_answer w = Some (Inr ()) \<Longrightarrow> worker_ok (listener_closed now k (answered (s, w)))"
    and "wk_answer w = Some (Inl err) \<Longrightarrow> worker_ok (s\<lparr>sc_status := st\<rparr>, w\<lparr>wk_answer := None, wk_point := CancelPause k\<rparr>)"
    and "wk_answer w = None \<Longrightarrow> worker_ok (s\<lparr>sc_status := st\<rparr>, w\<lparr>wk_point := Cancelling k t' c'\<rparr>)"
proof -
  note facts = cancelling_facts [OF assms]
  have w: "holds_lease (w\<lparr>wk_answer := None\<rparr>) = holds_lease w" by (simp add: holds_lease_def)
  show "worker_ok (goto Finished (answered (s, w)))" if "sc_disconnected s"
    using facts that by (auto simp: settled_def live_def intro!: ok_finished)
  show "worker_ok (listener_closed now k (answered (s, w)))" if "wk_answer w = Some (Inr ())"
    using facts that by (auto simp: w settled_def shut_def intro!: ok_listener_closed)
  show "worker_ok (s\<lparr>sc_status := st\<rparr>, w\<lparr>wk_answer := None, wk_point := CancelPause k\<rparr>)" if "wk_answer w = Some (Inl err)"
    using assms that by (auto simp: ok_simps)
  show "worker_ok (s\<lparr>sc_status := st\<rparr>, w\<lparr>wk_point := Cancelling k t' c'\<rparr>)" if "wk_answer w = None"
    using assms that by (auto simp: ok_simps)
qed

lemma holding_ok:
  assumes "worker_ok (s, w)"
  shows "wk_point w = Confirming \<Longrightarrow> sc_disconnected s \<Longrightarrow> worker_ok (goto Finished (remove_route (cancel_traffic (s, w))))"
    and "wk_point w = Confirming \<Longrightarrow> worker_ok (establish policy now (s, w\<lparr>wk_confirmed := True\<rparr>))"
    and "wk_point w = Confirming \<Longrightarrow> worker_ok (confirm_failed e (s, w))"
    and "wk_point w = Serving \<Longrightarrow> worker_ok (tear_down now (s, w))"
    and "wk_point w = Serving \<Longrightarrow> wk_lease w \<noteq> None \<Longrightarrow> worker_ok (lease_lost now e (s, w))"
proof -
  have w: "holds_lease (w\<lparr>wk_confirmed := True\<rparr>) = holds_lease w" by (simp add: holds_lease_def)
  let ?s = "cancel_routes w s"
  obtain rs where r: "remove_route (?s, w) = (?s\<lparr>sc_routes := rs\<rparr>, w)" "own_route (?s\<lparr>sc_routes := rs\<rparr>, w) = None"
    by (rule remove_route_pair)
  show "worker_ok (goto Finished (remove_route (cancel_traffic (s, w))))" if "wk_point w = Confirming" "sc_disconnected s"
  proof -
    have "worker_ok (?s\<lparr>sc_routes := rs\<rparr>, w\<lparr>wk_point := Finished\<rparr>)"
      by (rule ok_finished) (use held_facts [OF assms] r that in \<open>auto simp: settled_def live_def\<close>)
    then show ?thesis by (simp add: r)
  qed
  show "worker_ok (establish policy now (s, w\<lparr>wk_confirmed := True\<rparr>))" if "wk_point w = Confirming"
    using held_facts [OF assms] that by (auto simp: w intro!: ok_establish)
  show "worker_ok (confirm_failed e (s, w))" if "wk_point w = Confirming"
    using held_facts [OF assms] that by (auto intro!: ok_confirm_failed)
  show "worker_ok (tear_down now (s, w))" if "wk_point w = Serving"
    using held_facts [OF assms] that by (auto intro!: ok_tear_down)
  show "worker_ok (lease_lost now e (s, w))" if "wk_point w = Serving" "wk_lease w \<noteq> None"
    using held_facts [OF assms] that by (auto intro!: ok_lease_lost)
qed

lemma worker_step_ok:
  assumes "worker_step policy a b" and "worker_ok a"
  shows "worker_ok b"
  using assms
proof (induction rule: worker_step.induct)
  case (begun w s now)
  then show ?case by (simp add: begun_ok)
next
  case (claim_abandoned w s)
  then show ?case using idle_facts(1,2) [of s w] by (auto intro!: ok_finished)
next
  case (claim_granted w s le now)
  then show ?case using idle_facts [of s w] by (auto intro!: ok_claimed)
next
  case (claim_failed w s now e)
  then show ?case using idle_facts(1,2) [of s w] by (auto intro!: ok_cleanup_failure)
next
  case (backoff_over w s now)
  then show ?case using idle_facts [of s w] by (auto intro!: ok_loop_top)
next
  case (backoff_cancelled w s now)
  then show ?case using idle_facts(1,2) [of s w] by (auto intro!: ok_release)
next
  case (lease_released w k s now)
  then show ?case using idle_facts(1,2) [of s w] by (auto intro!: ok_released)
next
  case (lease_kept w k s now e)
  then show ?case using idle_facts(1,2) [of s w] by (auto intro!: ok_release_failed)
next
  case (pause_disconnected w k s)
  then show ?case by (auto simp: ok_simps)
next
  case (pause_over w k s)
  then show ?case by (auto simp: ok_simps)
next
  case (cancel_failed w k t c s err now)
  then show ?case by (simp add: cancelling_ok)
next
  case (dismissed w s)
  then show ?case by (auto simp: ok_simps)
qed (simp_all add: opening_ok cancelling_ok holding_ok note_cancellation_def note_timeout_def
    del: world_simps(6) world_simps(7))

lemma own_route_cancel:
  "own_route (cancel_routes w s, w') =
     map_option (\<lambda>r. r\<lparr>rt_cancelled := True\<rparr>) (own_route (s, w))"
  if "wk_listen w' = wk_listen w" "wk_rule w' = wk_rule w"
  using that by (auto simp: own_route_def routed_cancel split: option.splits)

lemma server_step_ok:
  assumes "server_step a b" and "worker_ok a"
  shows "worker_ok b"
  using assms
proof (induction rule: server_step.induct)
  case (server_gone s w ls)
  then show ?case by (auto simp: worker_ok_def live_def)
qed (auto simp: ok_simps)

lemma cancel_worker_ok: "worker_ok (s, w) \<Longrightarrow> worker_ok (cancel_worker (s, w))"
  by (cases "wk_point w") (auto simp: cancel_worker_def worker_ok_def own_route_cancel holds_def live_def
        retiring_def holds_lease_def cong: option.case_cong)

lemma around_step_ok:
  assumes "around_step a b" and "worker_ok a"
  shows "worker_ok b"
  using assms
proof (induction rule: around_step.induct)
  case (served a b)
  then show ?case by (rule server_step_ok)
next
  case (cancelled a)
  then show ?case by (cases a) (simp add: cancel_worker_ok)
qed (auto simp: worker_ok_def live_def)

lemma spawned_ok: "spawned a \<Longrightarrow> worker_ok a"
  by (auto simp: spawned_def new_worker_def worker_ok_def holds_def own_route_def holds_lease_def
      VERIFIED_LISTEN_ATTEMPTS_def dest: map_of_SomeD split: option.splits)

lemma runs_ok: "runs policy a \<Longrightarrow> worker_ok a"
proof (induction rule: runs.induct)
  case (spawned a)
  then show ?case by (rule spawned_ok)
next
  case (stepped a b)
  then show ?case by (auto simp: remote_step_def intro: worker_step_ok around_step_ok)
qed

section \<open>Routes of a session\<close>

text \<open>Every segment leaves the routes alone, drops or cancels some of them, or adds the worker's own.\<close>

inductive rerouted :: "rule \<Rightarrow> route_key \<Rightarrow> (route_key \<times> route) list \<Rightarrow> (route_key \<times> route) list \<Rightarrow> bool" for g k where
  same: "rerouted g k rs rs"
| dropped: "rerouted g k rs rs' \<Longrightarrow> rerouted g k rs (filter (\<lambda>(j, _). j \<noteq> k) rs')"
| marked: "rerouted g k rs rs' \<Longrightarrow> (\<And>j r. fst (f (j, r)) = j \<and> rt_rule (snd (f (j, r))) = rt_rule r \<and> (j \<noteq> k \<longrightarrow> snd (f (j, r)) = r)) \<Longrightarrow>
    rerouted g k rs (map f rs')"
| added: "rerouted g k rs rs' \<Longrightarrow> rt_rule r = g \<Longrightarrow> rerouted g k rs (AList.update k r rs')"

lemma in_update: "(j, r) \<in> set (AList.update k x rs) \<Longrightarrow> (j, r) = (k, x) \<or> (j, r) \<in> set rs"
  by (induction rs) (auto split: if_splits)

lemma rerouted_ok:
  assumes "rerouted g k rs rs'" "distinct (map fst rs)" "k = listen_key (rule_listen g)"
    and "\<forall>(j, r) \<in> set rs. j = listen_key (rule_listen (rt_rule r))"
  shows "distinct (map fst rs') \<and> (\<forall>(j, r) \<in> set rs'. j = listen_key (rule_listen (rt_rule r)))"
  using assms
proof (induction rule: rerouted.induct)
  case (same rs)
  then show ?case by simp
next
  case (dropped rs rs')
  then show ?case by (auto simp: distinct_map_filter)
next
  case (marked rs rs' f)
  have keys: "map fst (map f rs') = map fst rs'" using marked.hyps(2) by (auto simp: split_def)
  have "j = listen_key (rule_listen (rt_rule r))" if jr: "(j, r) \<in> set (map f rs')" for j r
  proof -
    from jr obtain i q where iq: "(i, q) \<in> set rs'" "(j, r) = f (i, q)" by auto
    from marked.hyps(2) [of i q] iq(2) have "j = i" "rt_rule r = rt_rule q" by (metis fst_conv, metis snd_conv)
    with marked iq(1) show ?thesis by auto
  qed
  then show ?case using marked.IH [OF marked.prems] unfolding keys by blast
next
  case (added rs rs' r)
  then show ?case by (auto simp: distinct_update dest!: in_update)
qed

text \<open>Other keys keep their routes.\<close>

lemma rerouted_other: "rerouted g k rs rs' \<Longrightarrow> j \<noteq> k \<Longrightarrow> map_of rs' j = map_of rs j"
proof (induction rule: rerouted.induct)
  case (dropped rs rs')
  then show ?case by (simp add: routed_filter)
next
  case (marked rs rs' f)
  have "map_of (map f xs) j = map_of xs j" for xs
  proof (induction xs)
    case (Cons x xs)
    then show ?case using marked.hyps(2) [of "fst x" "snd x"] marked.prems
      by (cases "f x"; cases x) auto
  qed simp
  with marked show ?case by simp
qed (simp_all add: update_conv')

definition reroutes :: "world \<Rightarrow> world \<Rightarrow> bool" where
  "reroutes a b = (wk_rule (snd b) = wk_rule (snd a) \<and> wk_listen (snd b) = wk_listen (snd a) \<and>
     rerouted (wk_rule (snd a)) (own_key (snd a)) (sc_routes (fst a)) (sc_routes (fst b)))"

lemma reroutes_ok: "reroutes a b \<Longrightarrow> wk_listen (snd a) = rule_listen (wk_rule (snd a)) \<Longrightarrow> routes_ok (fst a) \<Longrightarrow>
    routes_ok (fst b)"
  using rerouted_ok unfolding reroutes_def routes_ok_def by metis

lemma reroutes_trans: "reroutes a b \<Longrightarrow> reroutes b c \<Longrightarrow> reroutes a c"
proof -
  have "rerouted g k rs ts" if "rerouted g k qs ts" "rerouted g k rs qs" for g k rs qs ts
    using that by (induction rule: rerouted.induct) (auto intro: rerouted.intros)
  then show "reroutes a b \<Longrightarrow> reroutes b c \<Longrightarrow> reroutes a c" unfolding reroutes_def by metis
qed

lemma reroutes_same:
  "sc_routes (fst b) = sc_routes (fst a) \<Longrightarrow> wk_rule (snd b) = wk_rule (snd a) \<Longrightarrow> wk_listen (snd b) = wk_listen (snd a) \<Longrightarrow>
     reroutes a b"
  by (simp add: reroutes_def rerouted.same)

lemma reroutes_segments [intro!, simp]:
  "reroutes a a" "reroutes a (goto p a)" "reroutes a (report now st err n at a)" "reroutes a (announce now msg a)"
  "reroutes a (reconnect msg a)" "reroutes a (require_attention msg a)" "reroutes a (answered a)"
  by (cases a; simp add: reroutes_same)+

lemma reroutes_remove: "reroutes a (remove_route a)"
  by (cases a) (auto simp: remove_route_def reroutes_def split: option.splits intro: rerouted.intros)

lemma reroutes_cancel: "reroutes a (cancel_traffic a)"
  by (cases a) (auto simp: cancel_routes_def reroutes_def intro!: rerouted.intros split: prod.splits)

lemma reroutes_attention [simp]: "reroutes a (attention now msg a)"
  by (cases a) (simp add: attention_def reroutes_same)

lemma reroutes_failure [simp]: "reroutes a (cleanup_failure now e a)"
  by (cases a) (auto simp: cleanup_failure_def Let_def reroutes_same)

lemma reroutes_after [simp]: "reroutes a (after_release now k a)"
  by (auto simp: after_release_def split: continuation.splits)

lemma reroutes_release [simp]: "reroutes a (release now k a)"
  by (auto simp: release_def split: option.splits)

lemma reroutes_loop [simp]: "reroutes a (loop_top now a)"
  by (auto simp: loop_top_def)

lemma reroutes_start [simp]: "reroutes a (start now a)"
  by (auto simp: start_def)

lemma reroutes_worker: "wk_rule w' = wk_rule w \<Longrightarrow> wk_listen w' = wk_listen w \<Longrightarrow> reroutes (s, w') b \<Longrightarrow> reroutes (s, w) b"
  by (simp add: reroutes_def)

lemma reroutes_claimed [simp]: "reroutes a (claimed now le a)"
proof (cases a)
  case (Pair s w)
  have "reroutes (s, w) (loop_top now (s\<lparr>sc_status := st\<rparr>, w\<lparr>wk_lease := Some le\<rparr>))" for st
    by (rule reroutes_trans [OF reroutes_same reroutes_loop]) simp_all
  from this this [of "sc_status s"] Pair show ?thesis by (simp add: claimed_def Let_def)
qed

lemma reroutes_torn [simp]: "reroutes a (tear_down now a)"
proof -
  have "reroutes a (remove_route (cancel_traffic a))"
    by (rule reroutes_trans [OF reroutes_cancel reroutes_remove])
  then show ?thesis by (auto simp: tear_down_def Let_def intro: reroutes_trans)
qed

lemma reroutes_established [simp]: "reroutes a (establish policy now a)"
proof (cases a)
  case (Pair s w)
  have "reroutes (s, w) (s\<lparr>sc_routes := AList.update (own_key w) (new_route policy w) (sc_routes s)\<rparr>, w)"
    by (simp add: reroutes_def rerouted.intros new_route_def)
  then have "reroutes (s, w) (goto Serving (report now Established None 0 None
      (s\<lparr>sc_routes := AList.update (own_key w) (new_route policy w) (sc_routes s)\<rparr>, w)))"
    by (rule reroutes_trans) (rule reroutes_trans [OF reroutes_segments(3) reroutes_segments(2)])
  then show ?thesis by (simp del: world_simps add: establish_def Pair)
qed

lemma reroutes_opened [simp]: "reroutes a (opened policy now a)"
  by (simp add: opened_def)

lemma reroutes_refused [simp]: "reroutes a (open_refused policy rng now err a)"
proof (cases "remove_route a")
  case (Pair s w)
  have r: "reroutes a (s, w)" using reroutes_remove [of a] Pair by simp
  have "reroutes (s, w) (release now k (s, w\<lparr>wk_failures := n\<rparr>))" for k n
    by (rule reroutes_trans [OF reroutes_same reroutes_release]) simp_all
  moreover have "reroutes (s, w) (back_off policy rng now msg (s, w\<lparr>wk_failures := n\<rparr>))" for msg n
    by (simp add: back_off_def reroutes_same)
  ultimately show ?thesis by (auto simp: open_refused_def Pair Let_def intro: reroutes_trans [OF r])
qed

lemma reroutes_closed [simp]: "reroutes a (listener_closed now k a)"
  by (auto simp: listener_closed_def split: continuation.splits option.splits)

lemma reroutes_released [simp]: "reroutes a (released now k a)"
  unfolding released_def by (rule reroutes_trans [OF reroutes_same reroutes_after]) simp_all

lemmas reroutes_chain = reroutes_segments(2-7) [THEN reroutes_trans [rotated]]
  reroutes_remove [THEN reroutes_trans [rotated]] reroutes_cancel [THEN reroutes_trans [rotated]]
  reroutes_failure [THEN reroutes_trans [rotated]]

lemma reroutes_release_failed [simp]: "reroutes a (release_failed now k e a)"
  by (cases k; simp add: release_failed_def) (intro reroutes_chain reroutes_segments(1))

lemma reroutes_parts [simp]:
  "reroutes a (confirm_failed e a)" "reroutes a (lease_lost now e a)"
  "reroutes a (note_cancellation now operation a)" "reroutes a (note_timeout now seen operation a)"
  unfolding confirm_failed_def lease_lost_def note_cancellation_def note_timeout_def
  by (intro reroutes_chain reroutes_segments(1))+

lemma reroutes_answered:
  "reroutes a (opened policy now (answered a))" "reroutes a (open_refused policy rng now err (answered a))"
  "reroutes a (listener_closed now k (answered a))"
  by (rule reroutes_trans [OF reroutes_segments(7)], simp)+

lemma worker_step_reroutes: "worker_step policy a b \<Longrightarrow> reroutes a b"
proof (induction rule: worker_step.induct)
  case (confirmed w s now)
  show ?case by (rule reroutes_trans [OF reroutes_same reroutes_established]) simp_all
qed (simp_all only: reroutes_segments reroutes_start reroutes_claimed reroutes_failure reroutes_loop reroutes_release
    reroutes_torn reroutes_released reroutes_release_failed reroutes_parts reroutes_answered,
  (intro reroutes_chain reroutes_segments(1) reroutes_parts)+)

lemma server_step_reroutes: "server_step a b \<Longrightarrow> reroutes a b"
  by (induction rule: server_step.induct) (simp_all add: reroutes_same)

lemma cancel_worker_reroutes: "reroutes a (cancel_worker a)"
  using reroutes_cancel [of a] by (cases a) (simp add: cancel_worker_def reroutes_def)

lemma around_step_reroutes: "around_step a b \<Longrightarrow> reroutes a b"
  by (induction rule: around_step.induct) (simp_all add: reroutes_same server_step_reroutes cancel_worker_reroutes)

section \<open>What a worker guarantees\<close>

lemma runs_own: "runs policy a \<Longrightarrow> worker_step policy a b \<Longrightarrow> runs policy b"
  by (erule runs.stepped) (simp add: remote_step_def)

lemma runs_around: "runs policy a \<Longrightarrow> around_step a b \<Longrightarrow> runs policy b"
  by (erule runs.stepped) (simp add: remote_step_def)

lemma runs_routes_ok:
  assumes "runs policy a"
  shows "routes_ok (fst a) \<and> wk_listen (snd a) = rule_listen (wk_rule (snd a))"
  using assms
proof (induction rule: runs.induct)
  case (spawned a)
  then show ?case by (auto simp: spawned_def new_worker_def)
next
  case (stepped a b)
  then have "reroutes a b"
    by (auto simp: remote_step_def intro: worker_step_reroutes around_step_reroutes)
  with stepped show ?case using reroutes_ok [of a b] by (simp add: reroutes_def)
qed

text \<open>
  Property C10. A worker that has ended, on a connection that still stands, has left no route, and
  no listener on the server either; a verified worker may have left one, but then it has told its
  session to give the whole connection up.
\<close>

theorem no_listener_left_behind:
  assumes "runs policy (s, w)" and "wk_point w = Finished" and "live s"
  shows "own_route (s, w) = None \<and>
    (own_key w \<in> set (sc_listeners s) \<longrightarrow> verified w \<and> (sc_blocked s \<noteq> None \<or> sc_failures s \<noteq> []))"
  using runs_ok [OF assms(1)] assms(2,3) by (simp add: worker_ok_def holds_def retiring_def)

text \<open>
  Property C11. The record of ownership is asked to be released, and is released, only while the
  server does not have the listener; a listener is opened for a verified rule only under a lease.
\<close>

theorem lease_outlives_listener:
  assumes "runs policy (s, w)" and "live s"
  shows "((\<exists>le. wk_lease w = Some le \<and> le_released le) \<or> (\<exists>k. wk_point w = Releasing k) \<longrightarrow>
      own_key w \<notin> set (sc_listeners s)) \<and>
    (verified w \<and> wk_point w \<notin> {Waiting, Finished} \<and> own_key w \<in> set (sc_listeners s) \<longrightarrow>
      (\<exists>le. wk_lease w = Some le \<and> \<not> le_released le)) \<and>
    (verified w \<longrightarrow> wk_failures w \<le> 3)"
proof -
  note ok = runs_ok [OF assms(1)]
  have lease: "\<exists>le. wk_lease w = Some le \<and> \<not> le_released le" if "holds_lease w"
    using that by (auto simp: holds_lease_def split: option.splits)
  have "holds_lease w" if "verified w" "wk_point w \<notin> {Waiting, Finished}" "own_key w \<in> set (sc_listeners s)"
    using ok assms(2) that by (cases "wk_point w") (auto simp: worker_ok_def holds_def)
  moreover have "own_key w \<notin> set (sc_listeners s)" if "wk_lease w = Some le" "le_released le" for le
    using ok assms(2) that by (auto simp: worker_ok_def holds_def holds_lease_def)
  moreover have "own_key w \<notin> set (sc_listeners s)" if "wk_point w = Releasing k" for k
    using ok assms(2) that by (simp add: worker_ok_def holds_def)
  moreover have "wk_failures w \<le> 3" if "verified w"
    using ok that by (auto simp: worker_ok_def VERIFIED_LISTEN_ATTEMPTS_def split: if_splits)
  ultimately show ?thesis using lease by blast
qed

lemma find_route_Some:
  "find_route address port rs = Some (k, r) \<Longrightarrow> (k, r) \<in> set rs \<and> snd k = port \<and>
     (fst k = address \<or> canonical_ip (fst k) = canonical_ip address \<and> canonical_ip address \<noteq> None)"
  by (auto simp: find_route_def dest: map_of_SomeD find_SomeD split: option.splits prod.splits)

text \<open>
  A connection the server passes on reaches a rule only while the rule's worker is
  serving and not cancelled, holds the listener and, for a verified rule, a confirmed lease; and
  only for the worker's own port and an equivalent address.
\<close>

theorem forwarded_to_owner:
  assumes "runs policy (s, w)" and "open_forwarded address port s = (Accepted r, s')"
    and "rt_rule r = wk_rule w"
  shows "wk_point w = Serving \<and> \<not> wk_cancelled w \<and> (live s \<longrightarrow> own_key w \<in> set (sc_listeners s)) \<and>
    (verified w \<longrightarrow> wk_confirmed w \<and> (\<exists>le. wk_lease w = Some le \<and> \<not> le_released le)) \<and>
    port = ucast (sock_port (wk_listen w)) \<and> rt_active r < 256 \<and>
    (address = show_ip (sock_ip (wk_listen w)) \<or> canonical_ip address = canonical_ip (show_ip (sock_ip (wk_listen w))))"
proof -
  from assms(2) obtain k where f: "find_route address port (sc_routes s) = Some (k, r)" "\<not> rt_cancelled r" "rt_active r < 256"
    by (auto simp: open_forwarded_def MAX_CONNECTIONS_def split: option.splits if_splits)
  note found = find_route_Some [OF f(1)]
  from runs_routes_ok [OF assms(1)] found assms(3) have k: "k = own_key w" and d: "distinct (map fst (sc_routes s))"
    by (auto simp: routes_ok_def)
  then have "map_of (sc_routes s) (own_key w) = Some r" using found by (metis map_of_is_SomeI)
  then have own: "own_route (s, w) = Some r" using assms(3) by (simp add: own_route_def)
  have "wk_point w = Serving" "\<not> wk_cancelled w"
    using runs_ok [OF assms(1)] own f(2) by (auto simp: worker_ok_def)
  moreover from this have "(live s \<longrightarrow> own_key w \<in> set (sc_listeners s)) \<and> (verified w \<longrightarrow> wk_confirmed w \<and> holds_lease w)"
    using runs_ok [OF assms(1)] by (simp add: worker_ok_def holds_def)
  ultimately show ?thesis
    using found k f(3) by (auto simp: listen_key_def holds_lease_def split: option.splits)
qed

section \<open>Winding down\<close>

text \<open>Own steps of a worker among any number of steps around it.\<close>

inductive paced :: "retry_policy \<Rightarrow> nat \<Rightarrow> world \<Rightarrow> world \<Rightarrow> bool" for policy where
  none: "paced policy 0 a a"
| own: "paced policy n a b \<Longrightarrow> worker_step policy b c \<Longrightarrow> paced policy (Suc n) a c"
| around: "paced policy n a b \<Longrightarrow> around_step b c \<Longrightarrow> paced policy n a c"

fun steps_left :: "point \<Rightarrow> nat" where
  "steps_left Finished = 0"
| "steps_left Waiting = 1"
| "steps_left (CancelPause _) = 2"
| "steps_left (Releasing (Attend _)) = 2"
| "steps_left _ = 1"

lemma server_step_frame:
  "server_step a b \<Longrightarrow> wk_point (snd b) = wk_point (snd a) \<and> sc_disconnected (fst b) = sc_disconnected (fst a)"
  by (induction rule: server_step.induct) simp_all

lemma around_step_frame:
  "around_step a b \<Longrightarrow> wk_point (snd b) = wk_point (snd a) \<and> (sc_disconnected (fst a) \<longrightarrow> sc_disconnected (fst b))"
  by (induction rule: around_step.induct) (simp_all add: cancel_worker_def server_step_frame)

lemma remove_route_flags [simp]: "sc_disconnected (fst (remove_route sw)) = sc_disconnected (fst sw)"
  by (cases sw) (auto simp: remove_route_def split: option.splits)

lemma worker_step_left:
  assumes "worker_step policy a b" and "sc_disconnected (fst a)"
  shows "steps_left (wk_point (snd b)) < steps_left (wk_point (snd a)) \<and> sc_disconnected (fst b)"
  using assms
  by (induction rule: worker_step.induct)
     (auto simp del: world_simps(1) simp: goto_def start_def release_def loop_top_def cleanup_failure_def tear_down_def
       after_release_def released_def release_failed_def attention_def Let_def split: option.splits continuation.splits)

lemma worker_never_stuck:
  assumes "sc_disconnected s" and "wk_point w \<noteq> Finished"
  shows "\<exists>b. worker_step policy (s, w) b"
  using assms by (cases "wk_point w") (blast intro: worker_step.intros)+

lemma paced_left:
  assumes "paced policy n a b" and "sc_disconnected (fst a)"
  shows "n + steps_left (wk_point (snd b)) \<le> steps_left (wk_point (snd a)) \<and> sc_disconnected (fst b)"
  using assms
proof (induction rule: paced.induct)
  case (none a)
  then show ?case by simp
next
  case (own n a b c)
  then show ?case using worker_step_left [of policy b c] by auto
next
  case (around n a b c)
  then show ?case using around_step_frame [of b c] by auto
qed

lemma steps_left_bound: "steps_left p \<le> 2"
  by (induction p rule: steps_left.induct) auto

text \<open>
  Once the session has declared its connection gone, a worker ends after at most two
  steps of its own, whatever the server, the session or the clock do in between, and it is never
  left waiting for any of them.
\<close>

theorem worker_winds_down:
  assumes "sc_disconnected s" and "paced policy n (s, w) (t, x)"
  shows "n \<le> 2 \<and> (wk_point x = Finished \<or> (\<exists>b. worker_step policy (t, x) b)) \<and>
    (n = 2 \<longrightarrow> wk_point x = Finished)"
proof -
  have left: "n + steps_left (wk_point x) \<le> steps_left (wk_point w)" and d: "sc_disconnected t"
    using paced_left [OF assms(2)] assms(1) by simp_all
  moreover have "wk_point x = Finished" if "steps_left (wk_point x) = 0"
    using that by (cases "wk_point x" rule: steps_left.cases) auto
  ultimately show ?thesis
    using steps_left_bound [of "wk_point w"] worker_never_stuck [OF d, of x] by auto
qed

section \<open>A run\<close>

definition sample_rule :: rule where
  "sample_rule = \<lparr>ru_spec = sample_remote, ru_server_name = ''alpha'', ru_generation = 7\<rparr>"

definition sample_listen :: socket_addr where
  "sample_listen = loopback 8080"

definition session_with :: "shared \<Rightarrow> (route_key \<times> route) list \<Rightarrow> route_key list \<Rightarrow> session" where
  "session_with st rs ls = \<lparr>sc_disconnected = False, sc_closed = False, sc_cleanup = Some ''me'', sc_failures = [],
     sc_blocked = None, sc_routes = rs, sc_listeners = ls, sc_status = st\<rparr>"

definition worker_at :: "point \<Rightarrow> bool \<Rightarrow> lease option \<Rightarrow> bool \<Rightarrow> (string + unit) option \<Rightarrow> worker" where
  "worker_at p c le conf ans = (new_worker sample_rule sample_listen None)
     \<lparr>wk_cancelled := c, wk_point := p, wk_lease := le, wk_confirmed := conf, wk_answer := ans\<rparr>"

definition no_status :: shared where
  "no_status = \<lparr>entries = [], last_sequence = 0, published = []\<rparr>"

definition held_lease :: lease where
  "held_lease = \<lparr>le_claim = claim_for ''s1'' 1 sample_remote, le_reclaimed = False, le_session_pid = 7, le_released = False\<rparr>"

lemmas run_simps = session_with_def worker_at_def new_worker_def sample_rule_def held_lease_def

definition sample_policy :: retry_policy where
  "sample_policy = default_retry_policy"

abbreviation serving_route :: "bool \<Rightarrow> route_key \<times> route" where
  "serving_route c \<equiv> (listen_key sample_listen, (new_route sample_policy (new_worker sample_rule sample_listen None))\<lparr>rt_cancelled := c\<rparr>)"

lemma sample_verified [simp]: "fs_remote_cleanup sample_remote = Verified"
  by (simp add: sample_remote_def)

lemma sample_listens: "sample_listen = rule_listen \<lparr>ru_spec = sample_remote, ru_server_name = ''alpha'', ru_generation = 7\<rparr>"
  by (simp add: sample_listen_def rule_listen_def sample_remote_def)

lemma run_to_opening: "\<exists>st. runs sample_policy (session_with st [] [], worker_at (Opening False False) False (Some held_lease) False None)"
proof -
  let ?b = "worker_at Begin False None False None"
  have "runs sample_policy (session_with st [] [], ?b)" for st
    by (rule runs.spawned) (auto simp: spawned_def run_simps routes_ok_def sample_listens)
  moreover have "worker_step sample_policy (session_with st [] [], ?b) (session_with st [] [], worker_at Claiming False None False None)" for st
    using worker_step.begun [of ?b sample_policy "session_with st [] []" 0] by (simp add: run_simps start_def)
  moreover have "worker_step sample_policy (session_with st [] [], worker_at Claiming False None False None)
    (session_with st [] [], worker_at (Opening False False) False (Some held_lease) False None)" for st
    using worker_step.claim_granted [of "worker_at Claiming False None False None" "session_with st [] []" held_lease sample_policy 0]
    by (simp add: run_simps claimed_def loop_top_def)
  ultimately show ?thesis by (blast intro: runs_own)
qed

lemma run_to_serving:
  "\<exists>st. runs sample_policy (session_with st [serving_route False] [listen_key sample_listen],
     worker_at Serving False (Some held_lease) True None)"
proof -
  let ?k = "[listen_key sample_listen]"
  obtain st where st: "runs sample_policy (session_with st [] [], worker_at (Opening False False) False (Some held_lease) False None)"
    using run_to_opening by blast
  have "around_step (session_with st [] [], worker_at (Opening False False) False (Some held_lease) False None)
    (session_with st [] ?k, worker_at (Opening False False) False (Some held_lease) False (Some (Inr ())))"
    using around_step.served [OF server_step.server_opens, of "worker_at (Opening False False) False (Some held_lease) False None" False False "session_with st [] []"]
    by (simp add: run_simps)
  from runs_around [OF st this] have "runs sample_policy (session_with st [] ?k, worker_at Confirming False (Some held_lease) False None)"
    using worker_step.open_accepted [of "worker_at (Opening False False) False (Some held_lease) False (Some (Inr ()))" False False
      "session_with st [] ?k" sample_policy 0]
    by (auto simp: run_simps opened_def intro: runs_own)
  then obtain st' where "runs sample_policy (session_with st' [serving_route False] ?k, worker_at Serving False (Some held_lease) True None)"
    using worker_step.confirmed [of "worker_at Confirming False (Some held_lease) False None" "session_with st [] ?k" sample_policy 0]
    by (auto simp: run_simps establish_def new_route_def intro: runs_own)
  then show ?thesis by blast
qed

lemma run_to_finished:
  "\<exists>st. runs sample_policy (session_with st [] [],
     worker_at Finished True (Some (held_lease\<lparr>le_released := True\<rparr>)) True None)"
proof -
  let ?k = "[listen_key sample_listen]" and ?c = "Cancelling Return False False" and ?l = "Some held_lease"
  obtain st where st: "runs sample_policy (session_with st [serving_route False] ?k, worker_at Serving False ?l True None)"
    using run_to_serving by blast
  have "around_step (session_with st [serving_route False] ?k, worker_at Serving False ?l True None)
    (session_with st [serving_route True] ?k, worker_at Serving True ?l True None)"
    using around_step.cancelled [of "(session_with st [serving_route False] ?k, worker_at Serving False ?l True None)"]
    by (simp add: run_simps cancel_worker_def cancel_routes_def new_route_def)
  from runs_around [OF st this] obtain st' where "runs sample_policy (session_with st' [] ?k, worker_at ?c True ?l True None)"
    using worker_step.serving_ended [of "worker_at Serving True ?l True None" "session_with st [serving_route True] ?k" sample_policy 0]
    by (auto simp: run_simps tear_down_def remove_route_def cancel_routes_def new_route_def intro: runs_own)
  moreover have "around_step (session_with st' [] ?k, worker_at ?c True ?l True None) (session_with st' [] [], worker_at ?c True ?l True (Some (Inr ())))"
    using around_step.served [OF server_step.server_cancels, of "worker_at ?c True ?l True None" Return False False "session_with st' [] ?k"]
    by (simp add: run_simps)
  ultimately have "runs sample_policy (session_with st' [] [], worker_at ?c True ?l True (Some (Inr ())))"
    by (blast intro: runs_around)
  then have "runs sample_policy (session_with st' [] [], worker_at (Releasing Return) True ?l True None)"
    using worker_step.cancel_confirmed [of "worker_at ?c True ?l True (Some (Inr ()))" Return False False "session_with st' [] []" sample_policy 0]
    by (auto simp: run_simps listener_closed_def release_def intro: runs_own)
  then show ?thesis
    using worker_step.lease_released [of "worker_at (Releasing Return) True ?l True None" Return sample_policy "session_with st' [] []" 0]
    by (auto simp: run_simps released_def after_release_def intro: runs_own)
qed

theorem no_listener_left_behind_witness:
  "\<exists>st. own_route (session_with st [] [], worker_at Finished True (Some (held_lease\<lparr>le_released := True\<rparr>)) True None) = None"
proof -
  obtain st where "runs sample_policy (session_with st [] [], worker_at Finished True (Some (held_lease\<lparr>le_released := True\<rparr>)) True None)"
    using run_to_finished by blast
  from no_listener_left_behind [OF this] show ?thesis by (auto simp: run_simps live_def)
qed

theorem lease_outlives_listener_witness:
  "\<exists>st. own_key (worker_at Finished True (Some (held_lease\<lparr>le_released := True\<rparr>)) True None) \<notin> set (sc_listeners (session_with st [] []))"
proof -
  obtain st where "runs sample_policy (session_with st [] [], worker_at Finished True (Some (held_lease\<lparr>le_released := True\<rparr>)) True None)"
    using run_to_finished by blast
  from lease_outlives_listener [OF this] show ?thesis by (auto simp: run_simps live_def)
qed

theorem forwarded_to_owner_witness:
  "\<exists>st s'. open_forwarded (fst (listen_key sample_listen)) (snd (listen_key sample_listen))
      (session_with st [serving_route False] [listen_key sample_listen]) = (Accepted (snd (serving_route False)), s') \<and>
    wk_confirmed (worker_at Serving False (Some held_lease) True None)"
proof -
  obtain st where st: "runs sample_policy (session_with st [serving_route False] [listen_key sample_listen],
     worker_at Serving False (Some held_lease) True None)"
    using run_to_serving by blast
  obtain s' where s': "open_forwarded (fst (listen_key sample_listen)) (snd (listen_key sample_listen))
      (session_with st [serving_route False] [listen_key sample_listen]) = (Accepted (snd (serving_route False)), s')"
    by (simp add: open_forwarded_def find_route_def session_with_def new_route_def MAX_CONNECTIONS_def)
  from forwarded_to_owner [OF st s'] s' show ?thesis by (auto simp: run_simps new_route_def)
qed

theorem worker_winds_down_witness:
  "\<exists>b. worker_step sample_policy ((session_with no_status [] [])\<lparr>sc_disconnected := True\<rparr>, worker_at Begin False None False None) b"
  using worker_winds_down [OF _ paced.none, of "(session_with no_status [] [])\<lparr>sc_disconnected := True\<rparr>" "worker_at Begin False None False None" sample_policy]
  by (simp add: run_simps)

end
