(* ===== verification/Forward.thy ===== *)
theory Forward
  imports Remote Socks
begin

text \<open>
  Local and dynamic forwards, \<open>crates/fwm-core/src/engine/forward.rs\<close> with \<open>channels.rs\<close>: the
  task that binds the listener of a rule and accepts connections on it, and what serving one
  connection amounts to. The task is a machine like the one of a remote rule; a connection is
  described by how far its own task has come. A request for a channel keeps its place among the
  256 even when the connection that asked for it has ended, until the server has answered.
\<close>

section \<open>Serving one connection\<close>

text \<open>How a request to open a channel ends: \<open>Dropped\<close> when its task gave up with the transport.\<close>

datatype channel_answer = Channel | Refused string | Dropped string | Late string

fun open_status :: "channel_answer \<Rightarrow> u8" where
  "open_status Channel = 0"
| "open_status (Refused e) = 5"
| "open_status (Dropped e) = 4"
| "open_status (Late e) = 4"

fun answer_error :: "channel_answer \<Rightarrow> string option" where
  "answer_error Channel = None"
| "answer_error (Refused e) = Some e"
| "answer_error (Dropped e) = Some e"
| "answer_error (Late e) = Some e"

text \<open>
  The destination: the one of the rule, or the one a SOCKS5 client asks for; \<open>None\<close> is a handshake
  that timed out.
\<close>

definition destination :: "endpoint option \<Rightarrow> (string + endpoint) option \<Rightarrow> string + endpoint" where
  "destination fixed shaken = (case fixed of
       Some t \<Rightarrow> Inr t
     | None \<Rightarrow> (case shaken of None \<Rightarrow> Inl ''SOCKS5 handshake timed out'' | Some r \<Rightarrow> r))"

text \<open>The status bytes sent after the handshake, and how the connection ended.\<close>

definition serve_local ::
    "endpoint option \<Rightarrow> (string + endpoint) option \<Rightarrow> (endpoint \<Rightarrow> channel_answer) \<Rightarrow> string + unit \<Rightarrow>
       string + unit \<Rightarrow> u8 list \<times> (string + unit)" where
  "serve_local fixed shaken request written copied =
     (case destination fixed shaken of
        Inl e \<Rightarrow> ([], Inl e)
      | Inr t \<Rightarrow>
          let dynamic = (fixed = None); sent = (if dynamic then [open_status (request t)] else []) in
          (case answer_error (request t) of
             Some e \<Rightarrow> (sent, Inl e)
           | None \<Rightarrow> (sent, if dynamic then rbind written (\<lambda>_. copied) else copied)))"

datatype io_kind = PermissionDenied | NetworkUnreachable | HostUnreachable | ConnectionRefused | TimedOut | OtherKind

fun connect_status :: "io_kind \<Rightarrow> u8" where
  "connect_status PermissionDenied = 2"
| "connect_status NetworkUnreachable = 3"
| "connect_status HostUnreachable = 4"
| "connect_status ConnectionRefused = 5"
| "connect_status TimedOut = 6"
| "connect_status OtherKind = 1"

text \<open>\<open>None\<close> is a reply, or a connection attempt, that timed out.\<close>

definition connected_target :: "(io_kind \<times> string + unit) option \<Rightarrow> io_kind \<times> string + unit" where
  "connected_target r = (case r of None \<Rightarrow> Inl (TimedOut, ''local target connect timed out'') | Some x \<Rightarrow> x)"

definition serve_remote ::
    "endpoint option \<Rightarrow> (string + endpoint) option \<Rightarrow> (endpoint \<Rightarrow> (io_kind \<times> string + unit) option) \<Rightarrow>
       (string + unit) option \<Rightarrow> string + unit \<Rightarrow> u8 list \<times> (string + unit)" where
  "serve_remote fixed shaken reached written copied =
     (case destination fixed shaken of
        Inl e \<Rightarrow> ([], Inl e)
      | Inr t \<Rightarrow>
          let dynamic = (fixed = None) in
          (case connected_target (reached t) of
             Inl (error, e) \<Rightarrow> (if dynamic then [connect_status error] else [], Inl e)
           | Inr _ \<Rightarrow>
               if dynamic
               then ([0], rbind (case written of None \<Rightarrow> Inl ''SOCKS5 response timed out'' | Some r \<Rightarrow> r) (\<lambda>_. copied))
               else ([], copied)))"

section \<open>The listener of a local rule\<close>

text \<open>
  A connection's task: not yet polled, preparing its request, waiting for the channel, copying,
  telling its client that there is no channel, or over and not yet joined. Only the first four hold
  a permit: a refused request has given it back, and one that timed out keeps it to itself.
\<close>

datatype stream = Fresh | Preparing | Asking | Copying | Refusing | Over

datatype local_point = Begun | Binding | Retrying | Accepting | Pausing | Ended

record listener =
  lo_rule :: rule
  lo_listen :: socket_addr
  lo_target :: "endpoint option"
  lo_cancelled :: bool
  lo_point :: local_point
  lo_failures :: u32
  lo_streams :: "stream list"
  lo_orphans :: nat

type_synonym serving = "shared \<times> listener"

text \<open>The loop of \<open>local\<close>, from its top to the \<open>bind\<close>.\<close>

definition local_top :: "listener \<Rightarrow> listener" where
  "local_top l = l\<lparr>lo_point := if lo_cancelled l then Ended else Binding\<rparr>"

definition new_listener :: "rule \<Rightarrow> socket_addr \<Rightarrow> endpoint option \<Rightarrow> listener" where
  "new_listener r a t = \<lparr>lo_rule = r, lo_listen = a, lo_target = t, lo_cancelled = False, lo_point = Begun,
     lo_failures = 0, lo_streams = [], lo_orphans = 0\<rparr>"

definition bound :: "u64 \<Rightarrow> serving \<Rightarrow> serving" where
  "bound now sl =
     (update now (lo_rule (snd sl)) Established None 0 None (fst sl), (snd sl)\<lparr>lo_point := Accepting\<rparr>)"

definition bind_refused ::
    "retry_policy \<Rightarrow> (u64 \<Rightarrow> u64 \<Rightarrow> u64) \<Rightarrow> u64 \<Rightarrow> string \<Rightarrow> serving \<Rightarrow> serving" where
  "bind_refused policy rng now err sl =
     (let (s, l) = sl; n = saturating_add (lo_failures l) 1 in
      (update now (lo_rule l) Backoff (Some (''cannot bind '' @ show_socket_addr (lo_listen l) @ '': '' @ err)) n
         (Some (now + delay rng n (max_delay_secs policy))) s,
       l\<lparr>lo_failures := n, lo_point := Retrying\<rparr>))"

text \<open>Permits in use: those of the connections and those of requests that outlived theirs.\<close>

definition permitted :: "stream \<Rightarrow> bool" where
  "permitted x = (x \<in> {Fresh, Preparing, Asking, Copying})"

definition permits :: "listener \<Rightarrow> nat" where
  "permits l = length (filter permitted (lo_streams l)) + lo_orphans l"

definition accept_stream :: "serving \<Rightarrow> serving" where
  "accept_stream sl =
     (if permits (snd sl) < MAX_CONNECTIONS
      then (fst sl, (snd sl)\<lparr>lo_streams := lo_streams (snd sl) @ [Fresh]\<rparr>) else sl)"

definition accept_failed :: "u64 \<Rightarrow> string \<Rightarrow> serving \<Rightarrow> serving" where
  "accept_failed now err sl =
     (connection_error now (lo_rule (snd sl)) (''listener accept failed: '' @ err) (fst sl),
      (snd sl)\<lparr>lo_point := Pausing\<rparr>)"

text \<open>Connections that hold the guard of \<open>connection_opened\<close>.\<close>

definition counted :: "stream \<Rightarrow> bool" where
  "counted x = (x \<in> {Preparing, Asking, Copying, Refusing})"

definition drop_guard :: "stream \<Rightarrow> rule \<Rightarrow> shared \<Rightarrow> shared" where
  "drop_guard x r s = (if counted x then connection_closed r s else s)"

text \<open>\<open>abort_all\<close> and the joins after it.\<close>

definition abort_streams :: "serving \<Rightarrow> serving" where
  "abort_streams sl =
     (foldl (\<lambda>s x. drop_guard x (lo_rule (snd sl)) s) (fst sl) (lo_streams (snd sl)),
      (snd sl)\<lparr>lo_streams := [], lo_orphans := lo_orphans (snd sl) + count_list (lo_streams (snd sl)) Asking,
        lo_point := Ended\<rparr>)"

text \<open>A connection whose task ends by itself, by an error or with the cancellation of the rule.\<close>

definition orphaned :: "stream \<Rightarrow> nat" where
  "orphaned x = (if x = Asking then 1 else 0)"

definition end_stream :: "nat \<Rightarrow> shared \<Rightarrow> listener \<Rightarrow> serving" where
  "end_stream i s l =
     (drop_guard (lo_streams l ! i) (lo_rule l) s,
      l\<lparr>lo_streams := (lo_streams l)[i := Over], lo_orphans := lo_orphans l + orphaned (lo_streams l ! i)\<rparr>)"

text \<open>The request was refused, or the connection has waited long enough for it.\<close>

definition give_up :: "nat \<Rightarrow> bool \<Rightarrow> listener \<Rightarrow> listener" where
  "give_up i told l = l\<lparr>lo_streams := (lo_streams l)[i := Refusing], lo_orphans := lo_orphans l + (if told then 0 else 1)\<rparr>"

definition set_stream :: "nat \<Rightarrow> stream \<Rightarrow> listener \<Rightarrow> listener" where
  "set_stream i x l = l\<lparr>lo_streams := (lo_streams l)[i := x]\<rparr>"

definition report_failure :: "u64 \<Rightarrow> (string + unit) \<Rightarrow> rule \<Rightarrow> shared \<Rightarrow> shared" where
  "report_failure now r g s = (case r of Inl e \<Rightarrow> connection_error now g e s | Inr _ \<Rightarrow> s)"

inductive local_step :: "retry_policy \<Rightarrow> serving \<Rightarrow> serving \<Rightarrow> bool" for policy where
  begun: "lo_point l = Begun \<Longrightarrow> local_step policy (s, l) (s, local_top l)"
| bind_ok: "lo_point l = Binding \<Longrightarrow> local_step policy (s, l) (bound now (s, l))"
| bind_error: "lo_point l = Binding \<Longrightarrow> local_step policy (s, l) (bind_refused policy rng now err (s, l))"
| retry_cancelled:
    "lo_point l = Retrying \<Longrightarrow> lo_cancelled l \<Longrightarrow> local_step policy (s, l) (s, l\<lparr>lo_point := Ended\<rparr>)"
| retry_over: "lo_point l = Retrying \<Longrightarrow> local_step policy (s, l) (s, local_top l)"
| stopped: "lo_point l = Accepting \<Longrightarrow> lo_cancelled l \<Longrightarrow> local_step policy (s, l) (abort_streams (s, l))"
| joined:
    "lo_point l = Accepting \<Longrightarrow> \<not> lo_cancelled l \<Longrightarrow> Over \<in> set (lo_streams l) \<Longrightarrow>
     local_step policy (s, l) (s, l\<lparr>lo_streams := remove1 Over (lo_streams l)\<rparr>)"
| accepted: "lo_point l = Accepting \<Longrightarrow> \<not> lo_cancelled l \<Longrightarrow> local_step policy (s, l) (accept_stream (s, l))"
| accept_error:
    "lo_point l = Accepting \<Longrightarrow> \<not> lo_cancelled l \<Longrightarrow> local_step policy (s, l) (accept_failed now err (s, l))"
| pause_cancelled:
    "lo_point l = Pausing \<Longrightarrow> lo_cancelled l \<Longrightarrow> local_step policy (s, l) (s, l\<lparr>lo_point := Ended\<rparr>)"
| pause_over: "lo_point l = Pausing \<Longrightarrow> local_step policy (s, l) (s, l\<lparr>lo_point := Accepting\<rparr>)"
| stream_polled:
    "i < length (lo_streams l) \<Longrightarrow> lo_streams l ! i = Fresh \<Longrightarrow>
     local_step policy (s, l) (connection_opened (lo_rule l) s, set_stream i Preparing l)"
| stream_asked:
    "i < length (lo_streams l) \<Longrightarrow> lo_streams l ! i = Preparing \<Longrightarrow> local_step policy (s, l) (s, set_stream i Asking l)"
| stream_opened:
    "i < length (lo_streams l) \<Longrightarrow> lo_streams l ! i = Asking \<Longrightarrow> local_step policy (s, l) (s, set_stream i Copying l)"
| stream_refused:
    "i < length (lo_streams l) \<Longrightarrow> lo_streams l ! i = Asking \<Longrightarrow> local_step policy (s, l) (s, give_up i told l)"
| stream_ended:
    "i < length (lo_streams l) \<Longrightarrow> lo_streams l ! i \<in> {Preparing, Copying, Refusing} \<Longrightarrow>
     local_step policy (s, l) (end_stream i (report_failure now r (lo_rule l) s) l)"
| stream_cancelled:
    "i < length (lo_streams l) \<Longrightarrow> lo_cancelled l \<Longrightarrow> counted (lo_streams l ! i) \<Longrightarrow>
     local_step policy (s, l) (end_stream i s l)"
| stream_dropped:
    "i < length (lo_streams l) \<Longrightarrow> lo_point l = Ended \<Longrightarrow> local_step policy (s, l) (end_stream i s l)"
| orphan_answered: "0 < lo_orphans l \<Longrightarrow> local_step policy (s, l) (s, l\<lparr>lo_orphans := lo_orphans l - 1\<rparr>)"

text \<open>
  What happens around it: the rule is cancelled, and other tasks report and the engine edits the
  entries. The count of this generation is changed by nobody else, and a generation that has been
  replaced does not come back. Memory holds fewer than \<open>2 ^ 64\<close> tasks.
\<close>

definition own_count :: "rule \<Rightarrow> shared \<Rightarrow> u64 option" where
  "own_count r s = map_option (st_active_connections \<circ> se_status) (current_entry r s)"

inductive aside_step :: "serving \<Rightarrow> serving \<Rightarrow> bool" where
  cancelled: "aside_step (s, l) (s, l\<lparr>lo_cancelled := True\<rparr>)"
| reported: "own_count (lo_rule l) s' \<in> {own_count (lo_rule l) s, None} \<Longrightarrow> aside_step (s, l) (s', l)"

inductive serves :: "retry_policy \<Rightarrow> serving \<Rightarrow> bool" for policy where
  spawned: "own_count r s \<in> {Some 0, None} \<Longrightarrow> serves policy (s, new_listener r a t)"
| stepped: "serves policy a \<Longrightarrow> local_step policy a b \<or> aside_step a b \<Longrightarrow> length (lo_streams (snd b)) < 2 ^ 64 \<Longrightarrow>
     serves policy b"

section \<open>Connections are bounded and counted\<close>

lemma own_count_simps [simp]:
  "own_count r (connection_error now g e s) = own_count r s"
  "own_count r (emit now g msg s) = own_count r s"
  by (simp_all add: own_count_def current_entry_def)

lemma own_count_update [simp]: "own_count r (update now g st err n t s) = own_count r s"
proof (cases "current_entry g s")
  case (Some e)
  then show ?thesis
    by (auto simp: own_count_def current_entry_def entry_of_update split: option.splits if_splits)
qed (simp add: own_count_def current_entry_def entry_of_update)

lemma own_count_counted: "own_count r (count_connections f r s) = map_option f (own_count r s)"
  by (auto simp: own_count_def current_entry_def entry_of_count split: option.splits)

lemma own_count_report [simp]: "own_count r (report_failure now x g s) = own_count r s"
  by (simp add: report_failure_def split: sum.splits)

definition active :: "listener \<Rightarrow> nat" where
  "active l = length (filter counted (lo_streams l))"

definition tally :: "nat \<Rightarrow> rule \<Rightarrow> shared \<Rightarrow> bool" where
  "tally n r s = (own_count r s \<in> {None, Some (of_nat n)})"

lemma tally_same: "own_count r s' \<in> {own_count r s, None} \<Longrightarrow> tally n r s \<Longrightarrow> tally n r s'"
  by (auto simp: tally_def)

lemma tally_opened: "tally n r s \<Longrightarrow> tally (Suc n) r (connection_opened r s)"
  by (auto simp: tally_def connection_opened_def own_count_counted)

lemma minus_one_count: "0 < n \<Longrightarrow> n < 2 ^ 64 \<Longrightarrow> saturating_sub (of_nat n :: u64) 1 = of_nat (n - 1)"
proof -
  assume n: "0 < n" "n < 2 ^ 64"
  have m: "unat (of_nat m :: u64) = m" if "m < 2 ^ 64" for m
    using that by (simp add: unat_of_nat take_bit_nat_eq_self)
  have "unat (of_nat (n - 1) :: u64) = n - 1" "unat (of_nat n :: u64) = n" by (rule m; use n in simp)+
  then show ?thesis by (simp only: word_unat_eq_iff unat_saturating_sub) simp
qed

lemma tally_closed: "tally (Suc n) r s \<Longrightarrow> Suc n < 2 ^ 64 \<Longrightarrow> tally n r (connection_closed r s)"
  using minus_one_count [of "Suc n"] by (auto simp: tally_def connection_closed_def own_count_counted)

lemma tally_dropped:
  "tally (n + of_bool (counted x)) r s \<Longrightarrow> n + of_bool (counted x) < 2 ^ 64 \<Longrightarrow> tally n r (drop_guard x r s)"
  by (cases "counted x") (simp_all add: drop_guard_def tally_closed)

lemma tally_aborted:
  "tally (length (filter counted xs)) r s \<Longrightarrow> length (filter counted xs) < 2 ^ 64 \<Longrightarrow>
     tally 0 r (foldl (\<lambda>s x. drop_guard x r s) s xs)"
proof (induction xs arbitrary: s)
  case (Cons x xs)
  have "tally (length (filter counted xs)) r (drop_guard x r s)"
    by (rule tally_dropped) (use Cons.prems in \<open>auto split: if_splits\<close>)
  then show ?case using Cons.prems Cons.IH [of "drop_guard x r s"] by (auto split: if_splits)
qed simp

lemma filter_update: "i < length xs \<Longrightarrow>
    length (filter P (xs[i := x])) + of_bool (P (xs ! i)) = length (filter P xs) + of_bool (P x)"
proof (induction xs arbitrary: i)
  case (Cons y xs)
  then show ?case using Cons.IH [of "i - 1"] by (cases i) auto
qed simp

lemma asking_permit: "count_list xs Asking \<le> length (filter permitted xs)"
  by (induction xs) (auto simp: permitted_def)

lemma filter_joined: "length (filter P (remove1 Over xs)) \<le> length (filter P xs)"
    "\<not> P Over \<Longrightarrow> filter P (remove1 Over xs) = filter P xs"
  by (induction xs) auto

definition serving_ok :: "serving \<Rightarrow> bool" where
  "serving_ok sl = (permits (snd sl) \<le> MAX_CONNECTIONS \<and> tally (active (snd sl)) (lo_rule (snd sl)) (fst sl))"

lemma serving_ok_pair: "serving_ok (s, l) = (permits l \<le> MAX_CONNECTIONS \<and> tally (active l) (lo_rule l) s)"
  by (simp add: serving_ok_def)

lemma active_le: "active l \<le> length (lo_streams l)"
  by (simp add: active_def)

lemma ended_ok:
  assumes "serving_ok (s, l)" and "i < length (lo_streams l)" and "length (lo_streams l) < 2 ^ 64"
  shows "serving_ok (end_stream i s l)"
proof -
  let ?x = "lo_streams l ! i"
  have f: "length (filter counted ((lo_streams l)[i := Over])) + of_bool (counted ?x) = length (filter counted (lo_streams l))"
    using filter_update [OF assms(2), of counted Over] by (simp add: counted_def)
  have p: "length (filter permitted ((lo_streams l)[i := Over])) + of_bool (permitted ?x) =
      length (filter permitted (lo_streams l))"
    using filter_update [OF assms(2), of permitted Over] by (simp add: permitted_def)
  have "length (filter counted (lo_streams l)) < 2 ^ 64"
    using order.strict_trans1 [OF active_le assms(3)] by (simp add: active_def)
  then have "tally (length (filter counted ((lo_streams l)[i := Over]))) (lo_rule l) (drop_guard ?x (lo_rule l) s)"
    by (intro tally_dropped) (use assms(1) f in \<open>simp_all add: serving_ok_pair active_def\<close>)
  moreover have "permits (snd (end_stream i s l)) \<le> permits l"
    using p by (cases "?x = Asking") (auto simp: end_stream_def permits_def permitted_def orphaned_def split: if_splits)
  ultimately show ?thesis using assms(1) by (simp add: end_stream_def serving_ok_def active_def)
qed

lemma set_stream_ok:
  assumes "serving_ok (s, l)" "i < length (lo_streams l)" "permitted (lo_streams l ! i)" "permitted x"
    and "tally (active l + of_bool (counted x) - of_bool (counted (lo_streams l ! i))) (lo_rule l) t"
  shows "serving_ok (t, set_stream i x l)"
proof -
  have "active (set_stream i x l) = active l + of_bool (counted x) - of_bool (counted (lo_streams l ! i))"
    using filter_update [OF assms(2), of counted x] by (simp add: active_def set_stream_def)
  moreover have "permits (set_stream i x l) = permits l"
    using filter_update [OF assms(2), of permitted x] assms(3,4) by (simp add: permits_def set_stream_def)
  moreover have "lo_rule (set_stream i x l) = lo_rule l" by (simp add: set_stream_def)
  ultimately show ?thesis using assms(1,5) by (simp only: serving_ok_pair)
qed

lemma given_up_ok:
  assumes "serving_ok (s, l)" "i < length (lo_streams l)" "lo_streams l ! i = Asking"
  shows "serving_ok (s, give_up i told l)"
proof -
  have "active (give_up i told l) = active l"
    using filter_update [OF assms(2), of counted Refusing] assms(3) by (simp add: active_def give_up_def counted_def)
  moreover have "permits (give_up i told l) \<le> permits l"
    using filter_update [OF assms(2), of permitted Refusing] assms(3) by (simp add: permits_def give_up_def permitted_def)
  moreover have "lo_rule (give_up i told l) = lo_rule l" by (simp add: give_up_def)
  ultimately show ?thesis using assms(1) by (simp add: serving_ok_pair)
qed

lemma unchanged_ok:
  "serving_ok (s, l) \<Longrightarrow> lo_streams l' = lo_streams l \<Longrightarrow> lo_orphans l' \<le> lo_orphans l \<Longrightarrow> lo_rule l' = lo_rule l \<Longrightarrow>
     own_count (lo_rule l) t \<in> {own_count (lo_rule l) s, None} \<Longrightarrow> serving_ok (t, l')"
  by (auto simp: serving_ok_pair permits_def active_def tally_def)

lemma local_step_ok:
  assumes "local_step policy a b" and "serving_ok a" and "length (lo_streams (snd a)) < 2 ^ 64"
  shows "serving_ok b"
  using assms
proof (induction rule: local_step.induct)
  case (stopped l s)
  then have "permits (snd (abort_streams (s, l))) \<le> permits l"
    using asking_permit [of "lo_streams l"] by (simp add: abort_streams_def permits_def)
  moreover have "tally 0 (lo_rule l) (fst (abort_streams (s, l)))"
    using stopped order.strict_trans1 [OF active_le, of l "2 ^ 64"]
    by (auto simp: abort_streams_def serving_ok_pair active_def intro!: tally_aborted)
  ultimately show ?case using stopped by (simp add: serving_ok_def) (simp add: abort_streams_def active_def)
next
  case (joined l s)
  then show ?case
    using filter_joined [of permitted "lo_streams l"] filter_joined [of counted "lo_streams l"]
    by (simp add: serving_ok_pair permits_def active_def counted_def)
next
  case (accepted l s)
  then show ?case by (auto simp: accept_stream_def serving_ok_pair permits_def active_def counted_def permitted_def)
next
  case (stream_polled i l s)
  then show ?case using tally_opened [of "active l" "lo_rule l" s]
    by (intro set_stream_ok [of s]) (auto simp: counted_def permitted_def serving_ok_pair)
next
  case (stream_asked i l s)
  then show ?case by (intro set_stream_ok [of s]) (auto simp: counted_def permitted_def serving_ok_pair)
next
  case (stream_opened i l s)
  then show ?case by (intro set_stream_ok [of s]) (auto simp: counted_def permitted_def serving_ok_pair)
next
  case (stream_refused i l s told)
  then show ?case by (intro given_up_ok)
next
  case (stream_ended i l s now r)
  then show ?case by (auto intro!: ended_ok elim!: unchanged_ok)
next
  case (stream_cancelled i l s)
  then show ?case by (auto intro!: ended_ok)
next
  case (stream_dropped i l s)
  then show ?case by (auto intro!: ended_ok)
qed (auto simp: local_top_def bound_def bind_refused_def accept_failed_def Let_def elim!: unchanged_ok)

lemma serves_bounded: "serves policy a \<Longrightarrow> length (lo_streams (snd a)) < 2 ^ 64"
  by (induction rule: serves.induct) (simp_all add: new_listener_def)

lemma serves_ok: "serves policy a \<Longrightarrow> serving_ok a"
proof (induction rule: serves.induct)
  case (spawned r s a t)
  then show ?case by (auto simp: new_listener_def serving_ok_pair permits_def active_def tally_def)
next
  case (stepped a b)
  then show ?case
  proof (elim disjE)
    assume "aside_step a b"
    then show ?thesis using stepped.IH by cases (auto elim!: unchanged_ok)
  qed (auto intro: local_step_ok serves_bounded)
qed

text \<open>
  Property C25. However connections come, fail, time out and are cancelled, a local listener never
  has more than 256 permits out to connections and to requests that outlived theirs, and as long as
  its generation is the current one the status counts exactly the connections that are being
  served; when they are gone, the count is back at zero.
\<close>

theorem connections_bounded_and_counted:
  assumes "serves policy (s, l)"
  shows "permits l \<le> 256 \<and>
    (\<forall>n. own_count (lo_rule l) s = Some n \<longrightarrow> unat n = length (filter counted (lo_streams l))) \<and>
    (lo_streams l = [] \<longrightarrow> own_count (lo_rule l) s \<in> {None, Some 0})"
proof -
  note ok = serves_ok [OF assms]
  then have p: "permits l \<le> 256" by (simp add: serving_ok_pair MAX_CONNECTIONS_def)
  moreover have "unat n = active l" if "own_count (lo_rule l) s = Some n" for n
  proof -
    have "n = of_nat (active l)" using ok that by (auto simp: serving_ok_pair tally_def)
    moreover have "active l < 2 ^ 64" using order.strict_trans1 [OF active_le, of l "2 ^ 64"] serves_bounded [OF assms] by simp
    ultimately show ?thesis by (simp add: unat_of_nat take_bit_nat_eq_self)
  qed
  moreover have "lo_streams l = [] \<Longrightarrow> own_count (lo_rule l) s \<in> {None, Some 0}"
    using ok by (auto simp: serving_ok_pair tally_def active_def)
  ultimately show ?thesis by (simp add: active_def)
qed

definition local_rule :: rule where
  "local_rule = \<lparr>ru_spec = sample_local, ru_server_name = ''alpha'', ru_generation = 1\<rparr>"

definition local_status :: shared where
  "local_status = \<lparr>entries = [(fs_id sample_local, \<lparr>se_generation = 1,
       se_key = GroupKey sample_server_a default_retry_policy None ''route'', se_spec = sample_local,
       se_status = \<lparr>st_id = ''f1'', st_name = ''web'', st_group = None, st_server = ''alpha'', st_target_server = None,
         st_kind = ''local'', st_listen = ''127.0.0.1:8080'', st_target = None, st_desired_state = Running,
         st_state = Starting, st_retry_count = 0, st_next_retry_unix_ms = None, st_last_error = None,
         st_active_connections = 0\<rparr>\<rparr>)], last_sequence = 0, published = []\<rparr>"

definition local_listener :: "local_point \<Rightarrow> stream list \<Rightarrow> listener" where
  "local_listener p xs = (new_listener local_rule (listen (fs_tunnel sample_local)) None)\<lparr>lo_point := p, lo_streams := xs\<rparr>"

lemma serves_local:
  assumes "serves policy (s, local_listener p xs)" "local_step policy (s, local_listener p xs) (t, local_listener q ys)"
    and "length ys < 2"
  shows "serves policy (t, local_listener q ys)"
  by (rule serves.stepped [OF assms(1)]) (use assms(2,3) in \<open>auto simp: local_listener_def\<close>)

lemma local_run:
  "\<exists>s. serves default_retry_policy (s, local_listener Accepting [Preparing]) \<and> own_count local_rule s = Some 1"
proof -
  let ?p = default_retry_policy and ?s = local_status
  let ?t = "update 0 local_rule Established None 0 None ?s"
  have c: "own_count local_rule ?s = Some 0"
    by (simp add: own_count_def current_entry_def entry_of_def local_rule_def local_status_def)
  have a: "serves ?p (?s, local_listener Begun [])"
    using serves.spawned [of local_rule ?s ?p] c by (simp add: local_listener_def new_listener_def)
  have "local_step ?p (?s, local_listener Begun []) (?s, local_listener Binding [])"
    using local_step.begun [of "local_listener Begun []" ?p ?s]
    by (simp add: local_listener_def new_listener_def local_top_def)
  moreover have "local_step ?p (?s, local_listener Binding []) (?t, local_listener Accepting [])"
    using local_step.bind_ok [of "local_listener Binding []" ?p ?s 0]
    by (simp add: local_listener_def new_listener_def bound_def)
  moreover have "local_step ?p (?t, local_listener Accepting []) (?t, local_listener Accepting [Fresh])"
    using local_step.accepted [of "local_listener Accepting []" ?p ?t]
    by (simp add: local_listener_def new_listener_def accept_stream_def permits_def MAX_CONNECTIONS_def)
  moreover have "local_step ?p (?t, local_listener Accepting [Fresh]) (connection_opened local_rule ?t, local_listener Accepting [Preparing])"
    using local_step.stream_polled [of 0 "local_listener Accepting [Fresh]" ?p ?t]
    by (simp add: local_listener_def new_listener_def set_stream_def)
  ultimately have "serves ?p (connection_opened local_rule ?t, local_listener Accepting [Preparing])"
    using serves_local [OF serves_local [OF serves_local [OF serves_local [OF a]]]] by simp
  moreover have "own_count local_rule (connection_opened local_rule ?t) = Some 1"
    using c by (simp add: connection_opened_def own_count_counted)
  ultimately show ?thesis by blast
qed

theorem connections_bounded_and_counted_witness:
  "\<exists>s. own_count local_rule s = Some 1 \<and> unat (1 :: u64) = length (filter counted [Preparing]) \<and>
     permits (local_listener Accepting [Preparing]) \<le> 256"
proof -
  obtain s where s: "serves default_retry_policy (s, local_listener Accepting [Preparing])" "own_count local_rule s = Some 1"
    using local_run by blast
  from connections_bounded_and_counted [OF s(1)] s(2) show ?thesis
    by (auto simp: local_listener_def new_listener_def)
qed

end
