(* ===== verification/Session.thy ===== *)
theory Session
  imports RemoteSafety AddressText Forward
begin

text \<open>
  One SSH connection and the rules it serves: \<open>connected\<close> of
  \<open>crates/fwm-core/src/engine/connection.rs\<close>. The loop joins what has ended, cancels what is
  outdated, spawns what is missing, looks whether the connection still stands, and waits; leaving
  it withdraws every route and gives the tasks three seconds to end. Between the awaits of the
  loop the tasks, the server and the engine move on their own. The map of workers is a list in its
  iteration order. A failure sent by a worker stays in the list of the session: the loop receives
  one at most, since it leaves with it.
\<close>

section \<open>State\<close>

datatype task = Listening listener | Forwarding worker

record slot =
  sl_id :: string
  sl_generation :: u64
  sl_remote_listen :: "socket_addr option"
  sl_verified :: bool
  sl_task :: task

text \<open>Where the loop is: at its top, past the spawning, in its \<open>select!\<close>, or on its way out.\<close>

datatype phase =
    Looping | Checking | Selecting | Draining "session_failure option" | Left "session_failure option"

record link =
  lk_session :: session
  lk_slots :: "slot list"
  lk_desired :: "rule list"
  lk_cancelled :: bool
  lk_retired :: bool
  lk_failure :: "session_failure option"
  lk_phase :: phase

definition new_link :: "session \<Rightarrow> rule list \<Rightarrow> bool \<Rightarrow> link" where
  "new_link s rules c = \<lparr>lk_session = s, lk_slots = [], lk_desired = rules, lk_cancelled = c, lk_retired = False,
     lk_failure = None, lk_phase = Looping\<rparr>"

section \<open>Tasks\<close>

fun task_ended :: "task \<Rightarrow> bool" where
  "task_ended (Listening l) = (lo_point l = Ended)"
| "task_ended (Forwarding w) = (wk_point w = Finished)"

text \<open>\<open>forward::run\<close>: relay rules have a coordinator of their own and never come here.\<close>

fun spawn_task :: "rule \<Rightarrow> tunnel \<Rightarrow> task option" where
  "spawn_task r (Local a t) = Some (Listening (new_listener r a (Some t)))"
| "spawn_task r (Dynamic a) = Some (Listening (new_listener r a None))"
| "spawn_task r (Remote a t) = Some (Forwarding (new_worker r a (Some t)))"
| "spawn_task r (RemoteDynamic a) = Some (Forwarding (new_worker r a None))"
| "spawn_task r _ = None"

fun cancel_task :: "task \<Rightarrow> session \<Rightarrow> session \<times> task" where
  "cancel_task (Listening l) s = (s, Listening (l\<lparr>lo_cancelled := True\<rparr>))"
| "cancel_task (Forwarding w) s = (case cancel_worker (s, w) of (s', w') \<Rightarrow> (s', Forwarding w'))"

definition cancel_slot :: "(slot \<Rightarrow> bool) \<Rightarrow> slot \<Rightarrow> session \<Rightarrow> session \<times> slot" where
  "cancel_slot P x s = (if P x then (case cancel_task (sl_task x) s of (s', t) \<Rightarrow> (s', x\<lparr>sl_task := t\<rparr>)) else (s, x))"

fun cancel_slots :: "(slot \<Rightarrow> bool) \<Rightarrow> slot list \<Rightarrow> session \<Rightarrow> session \<times> slot list" where
  "cancel_slots P [] s = (s, [])"
| "cancel_slots P (x # xs) s =
     (case cancel_slot P x s of (s', x') \<Rightarrow> (case cancel_slots P xs s' of (s'', xs') \<Rightarrow> (s'', x' # xs')))"

section \<open>One turn of the loop\<close>

definition join_finished :: "link \<Rightarrow> link" where
  "join_finished l = l\<lparr>
     lk_retired := (\<exists>x \<in> set (lk_slots l). task_ended (sl_task x) \<and> sl_verified x),
     lk_slots := filter (\<lambda>x. \<not> task_ended (sl_task x)) (lk_slots l)\<rparr>"

definition wanted :: "rule list \<Rightarrow> slot \<Rightarrow> rule option" where
  "wanted rules x = List.find (\<lambda>r. fs_id (ru_spec r) = sl_id x) rules"

definition outdated :: "rule list \<Rightarrow> slot \<Rightarrow> bool" where
  "outdated rules x = (case wanted rules x of
       None \<Rightarrow> True
     | Some r \<Rightarrow> ru_generation r \<noteq> sl_generation x \<or> fs_desired_state (ru_spec r) = Stopped)"

definition tell :: "u64 \<Rightarrow> rule \<Rightarrow> runtime_state \<Rightarrow> string option \<Rightarrow> session \<Rightarrow> session" where
  "tell now r st err s = s\<lparr>sc_status := update now r st err 0 None (sc_status s)\<rparr>"

text \<open>Cancelling outdated workers: the reports are those of the rules that wait for them.\<close>

definition cancel_outdated :: "u64 \<Rightarrow> rule list \<Rightarrow> link \<Rightarrow> link" where
  "cancel_outdated now rules l =
     (case cancel_slots (outdated rules) (lk_slots l) (lk_session l) of (s, xs) \<Rightarrow>
        l\<lparr>lk_session := foldl (\<lambda>s x. if outdated rules x
             then (case wanted rules x of
                     Some r \<Rightarrow> tell now r Stopping (Some ''waiting for previous listener to close'') s
                   | None \<Rightarrow> s) else s) s (lk_slots l),
          lk_slots := xs\<rparr>)"

definition remote_listen :: "rule \<Rightarrow> socket_addr option" where
  "remote_listen r = (if is_remote (fs_tunnel (ru_spec r)) then Some (rule_listen r) else None)"

definition contended :: "socket_addr option \<Rightarrow> slot list \<Rightarrow> bool" where
  "contended a xs = (case a of None \<Rightarrow> False
     | Some new \<Rightarrow> \<exists>x \<in> set xs. (case sl_remote_listen x of None \<Rightarrow> False | Some old \<Rightarrow> overlaps old new))"

definition new_slot :: "rule \<Rightarrow> task \<Rightarrow> slot" where
  "new_slot r t = \<lparr>sl_id = fs_id (ru_spec r), sl_generation = ru_generation r, sl_remote_listen = remote_listen r,
     sl_verified = (fs_remote_cleanup (ru_spec r) = Verified), sl_task = t\<rparr>"

definition spawn_rule :: "u64 \<Rightarrow> rule \<Rightarrow> link \<Rightarrow> link" where
  "spawn_rule now r l =
     (if \<exists>x \<in> set (lk_slots l). sl_id x = fs_id (ru_spec r) then l
      else if fs_desired_state (ru_spec r) = Stopped
      then l\<lparr>lk_session := tell now r RStopped None (lk_session l)\<rparr>
      else if contended (remote_listen r) (lk_slots l)
      then l\<lparr>lk_session := tell now r Stopping
             (Some ''waiting for previous owner of remote port to finish cancellation'') (lk_session l)\<rparr>
      else (case spawn_task r (fs_tunnel (ru_spec r)) of
          None \<Rightarrow> l
        | Some t \<Rightarrow> l\<lparr>lk_slots := lk_slots l @ [new_slot r t]\<rparr>))"

definition leave :: "session_failure option \<Rightarrow> link \<Rightarrow> link" where
  "leave r l =
     (let s = lk_session l; s = s\<lparr>sc_routes := []\<rparr>;
          s = (if r \<noteq> None \<or> sc_closed s then s\<lparr>sc_disconnected := True\<rparr> else s)
      in case cancel_slots (\<lambda>_. True) (lk_slots l) s of (s, xs) \<Rightarrow>
           l\<lparr>lk_session := s, lk_slots := xs, lk_phase := Draining r\<rparr>)"

text \<open>From the top of the loop to the look at the connection.\<close>

definition tick :: "u64 \<Rightarrow> link \<Rightarrow> link" where
  "tick now l =
     (if lk_cancelled l then leave None l
      else
        let l = join_finished l in
        if lk_retired l then leave None l
        else (foldl (\<lambda>l r. spawn_rule now r l) (cancel_outdated now (lk_desired l) l) (lk_desired l))\<lparr>lk_phase := Checking\<rparr>)"

definition closing_failure :: "link \<Rightarrow> session_failure" where
  "closing_failure l = (case sc_blocked (lk_session l) of
       Some f \<Rightarrow> f
     | None \<Rightarrow> (case lk_failure l of
           Some f \<Rightarrow> f
         | None \<Rightarrow> \<lparr>sf_message = ''SSH transport closed'', sf_needs_attention = False\<rparr>))"

definition check :: "link \<Rightarrow> link" where
  "check l =
     (if lk_cancelled l then leave None l
      else if sc_closed (lk_session l) then leave (Some (closing_failure l)) l
      else if lk_slots l = [] then leave None l
      else l\<lparr>lk_phase := Selecting\<rparr>)"

text \<open>All tasks have ended in time, or three seconds are over and the rest is aborted.\<close>

definition finish :: "link \<Rightarrow> link" where
  "finish l = (case lk_phase l of
       Draining r \<Rightarrow> l\<lparr>lk_session := (lk_session l)\<lparr>sc_disconnected := True\<rparr>, lk_slots := [], lk_phase := Left r\<rparr>
     | _ \<Rightarrow> l)"

section \<open>Steps\<close>

definition set_task :: "nat \<Rightarrow> task \<Rightarrow> link \<Rightarrow> link" where
  "set_task i t l = l\<lparr>lk_slots := (lk_slots l)[i := (lk_slots l ! i)\<lparr>sl_task := t\<rparr>]\<rparr>"

definition cancel_link :: "link \<Rightarrow> link" where
  "cancel_link l = (case cancel_slots (\<lambda>_. True) (lk_slots l) (lk_session l) of
       (s, xs) \<Rightarrow> l\<lparr>lk_session := s, lk_slots := xs, lk_cancelled := True\<rparr>)"

abbreviation in_loop :: "link \<Rightarrow> bool" where
  "in_loop l \<equiv> lk_phase l \<in> {Looping, Checking, Selecting}"

inductive link_step :: "retry_policy \<Rightarrow> link \<Rightarrow> link \<Rightarrow> bool" for policy where
  ticked: "lk_phase l = Looping \<Longrightarrow> link_step policy l (tick now l)"
| checked: "lk_phase l = Checking \<Longrightarrow> link_step policy l (check l)"
| select_cancelled: "lk_phase l = Selecting \<Longrightarrow> lk_cancelled l \<Longrightarrow> link_step policy l (leave None l)"
| select_failure:
    "lk_phase l = Selecting \<Longrightarrow> sc_failures (lk_session l) = f # fs \<Longrightarrow> link_step policy l (leave (Some f) l)"
| select_again: "lk_phase l = Selecting \<Longrightarrow> link_step policy l (l\<lparr>lk_phase := Looping\<rparr>)"
| select_abandoned: "lk_phase l = Selecting \<Longrightarrow> link_step policy l (leave None l)"
| drained: "lk_phase l = Draining r \<Longrightarrow> link_step policy l (finish l)"
| wished: "link_step policy l (l\<lparr>lk_desired := rules\<rparr>)"
| withdrawn: "link_step policy l (cancel_link l)"
| broken: "\<not> sc_closed (lk_session l) \<Longrightarrow> link_step policy l (l\<lparr>lk_session := (lk_session l)\<lparr>sc_closed := True\<rparr>, lk_failure := failure\<rparr>)"
| worker_moves:
    "i < length (lk_slots l) \<Longrightarrow> sl_task (lk_slots l ! i) = Forwarding w \<Longrightarrow>
     worker_step policy (lk_session l, w) (s, w') \<or> server_step (lk_session l, w) (s, w') \<Longrightarrow>
     link_step policy l (set_task i (Forwarding w') (l\<lparr>lk_session := s\<rparr>))"
| listener_moves:
    "i < length (lk_slots l) \<Longrightarrow> sl_task (lk_slots l ! i) = Listening x \<Longrightarrow>
     local_step policy (sc_status (lk_session l), x) (st, x') \<Longrightarrow>
     link_step policy l (set_task i (Listening x') (l\<lparr>lk_session := (lk_session l)\<lparr>sc_status := st\<rparr>\<rparr>))"
| connection_forwarded:
    "link_step policy l (l\<lparr>lk_session := snd (open_forwarded address port (lk_session l))\<rparr>)"

text \<open>The server dropping listeners of its own accord once the transport has closed is \<open>server_gone\<close>.\<close>

inductive linked :: "retry_policy \<Rightarrow> link \<Rightarrow> bool" for policy where
  opened: "sc_routes s = [] \<Longrightarrow> sc_listeners s = [] \<Longrightarrow> sc_failures s = [] \<Longrightarrow> sc_blocked s = None \<Longrightarrow>
     \<not> sc_disconnected s \<Longrightarrow> linked policy (new_link s rules c)"
| moved: "linked policy a \<Longrightarrow> link_step policy a b \<Longrightarrow> linked policy b"

end
