(* ===== verification/SessionInvariant.thy ===== *)
theory SessionInvariant
  imports Session
begin

text \<open>
  The invariant of a connection: every worker keeps its own guarantee while the others move, no two
  of them contend for a port, and routes and listeners belong to workers in the table.
\<close>

section \<open>Keys of listeners\<close>

lemma listen_key_inject: "listen_key a = listen_key b \<longleftrightarrow> sock_ip a = sock_ip b \<and> sock_port a = sock_port b"
proof -
  have "x = y" if "ucast x = (ucast y :: u32)" for x y :: u16
  proof -
    have "unat (ucast z :: u32) = unat z" for z :: u16
    proof -
      have "unat z < 2 ^ 32" by (rule order.strict_trans2 [OF unsigned_less]) simp
      then show ?thesis by (simp add: unsigned_ucast_eq take_bit_nat_eq_self)
    qed
    then show ?thesis using that by (metis word_unat_eq_iff)
  qed
  then show ?thesis by (auto simp: listen_key_def)
qed

lemma same_key_overlaps: "listen_key a = listen_key b \<Longrightarrow> overlaps a b"
  using overlaps_refl [of b] by (simp add: listen_key_inject overlaps_def)

section \<open>Sessions seen from one worker\<close>

text \<open>A session in which only listeners, routes and reports of the key \<open>k\<close> have changed.\<close>

definition beside :: "route_key \<Rightarrow> session \<Rightarrow> session \<Rightarrow> bool" where
  "beside k s t = (sc_disconnected t = sc_disconnected s \<and> sc_closed t = sc_closed s \<and>
     (retiring s \<longrightarrow> retiring t) \<and>
     (live s \<longrightarrow> (\<forall>j. j \<noteq> k \<longrightarrow> (j \<in> set (sc_listeners t) \<longleftrightarrow> j \<in> set (sc_listeners s)))) \<and>
     (\<forall>j. j \<noteq> k \<longrightarrow> map_of (sc_routes t) j = map_of (sc_routes s) j))"

lemma beside_ok:
  assumes "beside k s t" and "own_key w \<noteq> k" and "worker_ok (s, w)"
  shows "worker_ok (t, w)"
proof -
  have "map_of (sc_routes t) (own_key w) = map_of (sc_routes s) (own_key w)"
    using assms(1,2) unfolding beside_def by blast
  then have "own_route (t, w) = own_route (s, w)" by (simp add: own_route_def split: option.splits)
  moreover have "live t = live s" using assms(1) by (simp add: beside_def live_def)
  moreover have "holds (t, w) = holds (s, w)" if "live s"
    using assms(1,2) that unfolding beside_def holds_def fst_conv snd_conv by blast
  ultimately show ?thesis using assms(1,3)
    by (cases "wk_point w") (auto simp: worker_ok_def beside_def cong: option.case_cong)
qed

text \<open>A segment of a worker touches neither the flags nor the listeners.\<close>

definition steady :: "session \<Rightarrow> session \<Rightarrow> bool" where
  "steady s t = (sc_disconnected t = sc_disconnected s \<and> sc_closed t = sc_closed s \<and>
     (retiring s \<longrightarrow> retiring t) \<and> sc_listeners t = sc_listeners s \<and> sc_cleanup t = sc_cleanup s)"

lemma steady_refl [simp]: "steady s s"
  by (simp add: steady_def)

lemma steady_trans: "steady r s \<Longrightarrow> steady s t \<Longrightarrow> steady r t"
  by (simp add: steady_def)

lemma steady_simps [simp]:
  "steady s (t\<lparr>sc_status := st\<rparr>) = steady s t" "steady s (t\<lparr>sc_routes := rs\<rparr>) = steady s t"
  "steady s (cancel_routes w t) = steady s t"
  by (simp_all add: steady_def retiring_def cancel_routes_def)

lemma steady_segments [simp]:
  assumes "steady r s"
  shows "steady r (fst (remove_route (s, w)))" "steady r (fst (attention now msg (s, w)))"
    "steady r (fst (cleanup_failure now e (s, w)))"
    "steady r (fst (note_cancellation now x (s, w)))" "steady r (fst (note_timeout now b x (s, w)))"
  using assms
  by (auto simp: steady_def retiring_def remove_route_def attention_def cleanup_failure_def Let_def
      note_cancellation_def note_timeout_def split: option.splits)

lemma steady_removed: "remove_route (s, w) = (t, v) \<Longrightarrow> steady r s \<Longrightarrow> steady r t"
  using steady_segments(1) [of r s w] by simp

lemma steady_traffic [simp]:
  assumes "steady r s"
  shows "steady r (fst (remove_route (cancel_routes w s, v)))"
    "steady r (fst (confirm_failed e (s, w)))" "steady r (fst (lease_lost now e (s, w)))"
    "steady r (fst (tear_down now (s, w)))"
proof -
  obtain t u where u: "remove_route (cancel_routes w s, w) = (t, u)" by fastforce
  from steady_removed [OF u, of r] assms have "steady r t" by simp
  with u assms show "steady r (fst (remove_route (cancel_routes w s, v)))"
    "steady r (fst (confirm_failed e (s, w)))" "steady r (fst (lease_lost now e (s, w)))"
    "steady r (fst (tear_down now (s, w)))"
    by (simp_all add: confirm_failed_def lease_lost_def tear_down_def Let_def)
qed

lemma steady_after [simp]: "steady r s \<Longrightarrow> steady r (fst (after_release now k (s, w)))"
  by (simp add: after_release_def split: continuation.splits)

lemma steady_release [simp]: "steady r s \<Longrightarrow> steady r (fst (release now k (s, w)))"
  by (simp add: release_def split: option.splits)

lemma steady_loop [simp]: "steady r s \<Longrightarrow> steady r (fst (loop_top now (s, w)))"
  by (simp add: loop_top_def)

lemma steady_begin [simp]:
  assumes "steady r s"
  shows "steady r (fst (start now (s, w)))" "steady r (fst (claimed now le (s, w)))"
  using assms by (simp_all add: start_def claimed_def Let_def)

lemma steady_refused [simp]: "steady r s \<Longrightarrow> steady r (fst (open_refused policy rng now err (s, w)))"
  by (cases "remove_route (s, w)")
    (auto simp: open_refused_def back_off_def Let_def dest: steady_removed)

lemma steady_opened [simp]:
  assumes "steady r s"
  shows "steady r (fst (establish policy now (s, w)))" "steady r (fst (opened policy now (s, w)))"
  using assms by (simp_all add: establish_def opened_def)

lemma steady_released [simp]:
  assumes "steady r s"
  shows "steady r (fst (listener_closed now k (s, w)))" "steady r (fst (released now k (s, w)))"
    "steady r (fst (release_failed now k e (s, w)))"
  using assms
  by (auto simp: listener_closed_def released_def release_failed_def split: continuation.splits option.splits)

lemma steady_goto [simp]: "steady s (fst (goto p a)) = steady s (fst a)"
  by (simp add: goto_def)

lemma worker_step_steady: "worker_step policy a b \<Longrightarrow> steady (fst a) (fst b)"
  by (induction rule: worker_step.induct) (simp_all del: world_simps(1))

lemma worker_step_beside: "worker_step policy (s, w) (t, w') \<Longrightarrow> beside (own_key w) s t"
  using worker_step_steady [of policy "(s, w)" "(t, w')"] worker_step_reroutes [of policy "(s, w)" "(t, w')"]
  by (auto simp: steady_def beside_def reroutes_def rerouted_other)

lemma server_step_beside: "server_step (s, w) (t, w') \<Longrightarrow> beside (own_key w) s t"
  by (cases rule: server_step.cases) (auto simp: beside_def retiring_def live_def)

section \<open>The invariant of a connection\<close>

fun forwards_rule :: "task \<Rightarrow> rule option" where
  "forwards_rule (Listening x) = None"
| "forwards_rule (Forwarding w) = Some (wk_rule w)"

fun task_cancelled :: "task \<Rightarrow> bool" where
  "task_cancelled (Listening x) = lo_cancelled x"
| "task_cancelled (Forwarding w) = wk_cancelled w"

fun task_ok :: "session \<Rightarrow> task \<Rightarrow> bool" where
  "task_ok s (Listening x) = True"
| "task_ok s (Forwarding w) = (worker_ok (s, w) \<and> wk_listen w = rule_listen (wk_rule w))"

text \<open>What does not change about a slot as long as it is in the table.\<close>

definition badge :: "slot \<Rightarrow> string \<times> u64 \<times> socket_addr option \<times> bool \<times> rule option" where
  "badge x = (sl_id x, sl_generation x, sl_remote_listen x, sl_verified x, forwards_rule (sl_task x))"

fun badge_ok :: "string \<times> u64 \<times> socket_addr option \<times> bool \<times> rule option \<Rightarrow> bool" where
  "badge_ok (i, g, a, v, None) = True"
| "badge_ok (i, g, a, v, Some r) = (i = fs_id (ru_spec r) \<and> g = ru_generation r \<and> a = Some (rule_listen r) \<and>
     v = (fs_remote_cleanup (ru_spec r) = Verified))"

type_synonym table = "(string \<times> u64 \<times> socket_addr option \<times> bool \<times> rule option) list"

fun uncontended ::
    "string \<times> u64 \<times> socket_addr option \<times> bool \<times> rule option \<Rightarrow> string \<times> u64 \<times> socket_addr option \<times> bool \<times> rule option \<Rightarrow> bool" where
  "uncontended (i, g, Some a, v, r) (j, g', Some b, v', r') = (i \<noteq> j \<longrightarrow> \<not> overlaps a b)"
| "uncontended _ _ = True"

definition badges_ok :: "table \<Rightarrow> bool" where
  "badges_ok bs = (distinct (map fst bs) \<and> (\<forall>b \<in> set bs. badge_ok b) \<and>
     (\<forall>b \<in> set bs. \<forall>c \<in> set bs. uncontended b c))"

definition keeper :: "table \<Rightarrow> route_key \<Rightarrow> rule \<Rightarrow> bool" where
  "keeper bs k r = (\<exists>i g a v. (i, g, a, v, Some r) \<in> set bs \<and> k = listen_key (rule_listen r))"

definition routes_kept :: "table \<Rightarrow> (route_key \<times> route) list \<Rightarrow> bool" where
  "routes_kept bs rs = (distinct (map fst rs) \<and> (\<forall>(k, r) \<in> set rs. keeper bs k (rt_rule r)))"

definition listeners_kept :: "table \<Rightarrow> route_key list \<Rightarrow> bool" where
  "listeners_kept bs ks = (\<forall>k \<in> set ks. \<exists>r. keeper bs k r)"

abbreviation table_of :: "link \<Rightarrow> table" where
  "table_of l \<equiv> map badge (lk_slots l)"

definition link_ok :: "link \<Rightarrow> bool" where
  "link_ok l =
     (badges_ok (table_of l) \<and>
      (\<forall>x \<in> set (lk_slots l). task_ok (lk_session l) (sl_task x)) \<and>
      (live (lk_session l) \<and> \<not> lk_retired l \<longrightarrow> listeners_kept (table_of l) (sc_listeners (lk_session l))) \<and>
      (lk_cancelled l \<longrightarrow> (\<forall>x \<in> set (lk_slots l). task_cancelled (sl_task x))) \<and>
      (case lk_phase l of
         Left r \<Rightarrow> lk_slots l = [] \<and> sc_disconnected (lk_session l) \<and> (\<forall>(k, r) \<in> set (sc_routes (lk_session l)). rt_cancelled r)
       | Draining r \<Rightarrow> routes_kept (table_of l) (sc_routes (lk_session l)) \<and>
           (r \<noteq> None \<longrightarrow> sc_disconnected (lk_session l)) \<and> (\<forall>x \<in> set (lk_slots l). task_cancelled (sl_task x))
       | _ \<Rightarrow> routes_kept (table_of l) (sc_routes (lk_session l)) \<and> \<not> sc_disconnected (lk_session l) \<and> \<not> lk_retired l))"

lemma keeper_unique:
  assumes "badges_ok bs" "keeper bs k r" "keeper bs k r'"
  shows "r = r'"
proof -
  from assms(2,3) obtain i g a v i' g' a' v' where
    b: "(i, g, a, v, Some r) \<in> set bs" "(i', g', a', v', Some r') \<in> set bs"
    "listen_key (rule_listen r) = listen_key (rule_listen r')"
    by (auto simp: keeper_def)
  then have "badge_ok (i, g, a, v, Some r)" "badge_ok (i', g', a', v', Some r')"
    using assms(1) unfolding badges_ok_def by blast+
  moreover have "uncontended (i, g, a, v, Some r) (i', g', a', v', Some r')"
    using b assms(1) unfolding badges_ok_def by blast
  ultimately have "i = i'" using same_key_overlaps [OF b(3)] by (cases a; cases a') auto
  then show ?thesis using b(1,2) assms(1) unfolding badges_ok_def by (auto dest: eq_key_imp_eq_value)
qed

section \<open>Cancelling\<close>

fun cancelled_task :: "task \<Rightarrow> task" where
  "cancelled_task (Listening x) = Listening (x\<lparr>lo_cancelled := True\<rparr>)"
| "cancelled_task (Forwarding w) = Forwarding (w\<lparr>wk_cancelled := True\<rparr>)"

lemma badge_cancelled [simp]: "badge (x\<lparr>sl_task := cancelled_task (sl_task x)\<rparr>) = badge x"
  by (cases "sl_task x") (simp_all add: badge_def)

lemma task_cancelled_cancelled [simp]: "task_cancelled (cancelled_task t)"
  by (cases t) simp_all

text \<open>What cancelling does to the session: routes may be marked, nothing else.\<close>

definition marks :: "session \<Rightarrow> session \<Rightarrow> bool" where
  "marks s t = (\<exists>rs. t = s\<lparr>sc_routes := rs\<rparr> \<and> map fst rs = map fst (sc_routes s) \<and>
     (\<forall>k r. (k, r) \<in> set rs \<longrightarrow> (\<exists>q. (k, q) \<in> set (sc_routes s) \<and> rt_rule r = rt_rule q)) \<and>
     (\<forall>w. worker_ok (s, w) \<longrightarrow> worker_ok (t, w)))"

lemma marks_refl [simp]: "marks s s"
  unfolding marks_def by (intro exI [of _ "sc_routes s"]) auto

lemma marks_trans: "marks r s \<Longrightarrow> marks s t \<Longrightarrow> marks r t"
  unfolding marks_def by (elim exE conjE, intro exI conjI) (assumption | simp | metis)+

lemma own_route_marked: "own_route (cancel_routes v s, w) = map_option (\<lambda>r.
    if own_key w = own_key v \<and> ru_generation (rt_rule r) = ru_generation (wk_rule v) then r\<lparr>rt_cancelled := True\<rparr> else r)
    (own_route (s, w))"
  by (auto simp: own_route_def routed_cancel split: option.splits)

lemma worker_ok_marked: "worker_ok (s, w) \<Longrightarrow> worker_ok (cancel_routes v s, w)"
  by (cases "wk_point w") (auto simp: worker_ok_def own_route_marked holds_def live_def retiring_def cong: option.case_cong)

lemma marks_cancel [simp]: "marks s (cancel_routes v s)"
proof -
  have "worker_ok (s, w) \<Longrightarrow> worker_ok (cancel_routes v s, w)" for w by (rule worker_ok_marked)
  then show ?thesis unfolding marks_def
    by (intro exI [of _ "sc_routes (cancel_routes v s)"]) (auto simp: cancel_routes_def)
qed

lemma cancel_task_parts:
  assumes "cancel_task t s = (s', t')"
  shows "t' = cancelled_task t \<and> marks s s' \<and> (task_ok s t \<longrightarrow> task_ok s' t')"
proof (cases t)
  case (Forwarding w)
  then show ?thesis using assms cancel_worker_ok [of s w] by (auto simp: cancel_worker_def)
qed (use assms in auto)

lemma task_ok_marks: "marks s t \<Longrightarrow> task_ok s x \<Longrightarrow> task_ok t x"
  by (cases x) (auto simp: marks_def)

lemma cancel_slots_parts:
  assumes "cancel_slots P xs s = (s', xs')"
  shows "xs' = map (\<lambda>x. if P x then x\<lparr>sl_task := cancelled_task (sl_task x)\<rparr> else x) xs \<and> marks s s' \<and>
    ((\<forall>x \<in> set xs. task_ok s (sl_task x)) \<longrightarrow> (\<forall>x \<in> set xs'. task_ok s' (sl_task x)))"
  using assms
proof (induction xs arbitrary: s s' xs')
  case (Cons x xs)
  obtain t y where t: "cancel_slot P x s = (t, y)" by fastforce
  obtain u ys where u: "cancel_slots P xs t = (u, ys)" by fastforce
  from Cons.prems t u have eq: "s' = u" "xs' = y # ys" by auto
  note IH = Cons.IH [OF u]
  have y: "y = (if P x then x\<lparr>sl_task := cancelled_task (sl_task x)\<rparr> else x)" "marks s t"
    "task_ok s (sl_task x) \<Longrightarrow> task_ok t (sl_task y)"
    using t cancel_task_parts [of "sl_task x" s] by (auto simp: cancel_slot_def split: if_splits prod.splits)
  from y IH eq show ?case by (auto intro: marks_trans task_ok_marks)
qed simp

lemma marks_flags:
  assumes "marks s t"
  shows "sc_disconnected t = sc_disconnected s" "live t = live s" "sc_listeners t = sc_listeners s"
    "sc_closed t = sc_closed s" "sc_blocked t = sc_blocked s" "sc_failures t = sc_failures s"
  using assms by (auto simp: marks_def live_def)

lemma marks_unrouted: "marks s t \<Longrightarrow> sc_routes s = [] \<Longrightarrow> sc_routes t = []"
  by (auto simp: marks_def)

lemma routes_kept_marks: "marks s t \<Longrightarrow> routes_kept bs (sc_routes s) \<Longrightarrow> routes_kept bs (sc_routes t)"
  by (auto simp: marks_def routes_kept_def) (metis case_prodD)

lemma badges_marked [simp]:
  "map badge (map (\<lambda>x. if P x then x\<lparr>sl_task := cancelled_task (sl_task x)\<rparr> else x) xs) = map badge xs"
  by (induction xs) auto

lemma task_ok_frame [simp]:
  "task_ok (s\<lparr>sc_status := st\<rparr>) t = task_ok s t"
  "task_ok s t \<Longrightarrow> task_ok (s\<lparr>sc_disconnected := True\<rparr>) t"
  "task_ok s t \<Longrightarrow> task_ok (s\<lparr>sc_closed := True\<rparr>) t"
proof -
  show "task_ok (s\<lparr>sc_status := st\<rparr>) t = task_ok s t"
  proof (cases t)
    case (Forwarding w)
    obtain k where k: "own_key w \<noteq> k" by (metis prod.inject list.distinct(1) surj_pair)
    have b: "beside k s (s\<lparr>sc_status := st\<rparr>)" "beside k (s\<lparr>sc_status := st\<rparr>) s"
      by (simp_all add: beside_def retiring_def live_def)
    show ?thesis using Forwarding beside_ok [OF b(1) k] beside_ok [OF b(2) k] by auto
  qed simp
  show "task_ok s t \<Longrightarrow> task_ok (s\<lparr>sc_disconnected := True\<rparr>) t"
    by (cases t) (auto simp: intro: around_step_ok [OF around_step.disconnected])
  show "task_ok s t \<Longrightarrow> task_ok (s\<lparr>sc_closed := True\<rparr>) t"
    by (cases t) (auto intro: around_step_ok [OF around_step.closed])
qed

lemma task_ok_unrouted:
  assumes "task_ok s t"
  shows "task_ok (s\<lparr>sc_routes := []\<rparr>) t"
proof (cases t)
  case (Forwarding w)
  with assms show ?thesis
    by (cases "wk_point w") (auto simp: worker_ok_def live_def retiring_def holds_def own_route_def)
qed simp

section \<open>Leaving the loop\<close>

lemma leave_parts:
  assumes "leave r l = m"
  shows "lk_phase m = Draining r" "table_of m = table_of l" "lk_retired m = lk_retired l"
    "lk_cancelled m = lk_cancelled l" "\<forall>x \<in> set (lk_slots m). task_cancelled (sl_task x)"
    "sc_listeners (lk_session m) = sc_listeners (lk_session l)" "sc_routes (lk_session m) = []"
    "sc_closed (lk_session m) = sc_closed (lk_session l)"
    "sc_disconnected (lk_session m) = (sc_disconnected (lk_session l) \<or> r \<noteq> None \<or> sc_closed (lk_session l))"
    "(\<forall>x \<in> set (lk_slots l). task_ok (lk_session l) (sl_task x)) \<Longrightarrow>
       (\<forall>x \<in> set (lk_slots m). task_ok (lk_session m) (sl_task x))"
proof -
  define s where "s = (if r \<noteq> None \<or> sc_closed (lk_session l)
    then (lk_session l)\<lparr>sc_routes := [], sc_disconnected := True\<rparr> else (lk_session l)\<lparr>sc_routes := []\<rparr>)"
  obtain t xs where c: "cancel_slots (\<lambda>_. True) (lk_slots l) s = (t, xs)" by fastforce
  have m: "m = l\<lparr>lk_session := t, lk_slots := xs, lk_phase := Draining r\<rparr>"
    using assms c by (auto simp: leave_def Let_def s_def)
  note p = cancel_slots_parts [OF c]
  then have ms: "marks s t" by simp
  from m p show "lk_phase m = Draining r" "lk_retired m = lk_retired l" "lk_cancelled m = lk_cancelled l"
    "\<forall>x \<in> set (lk_slots m). task_cancelled (sl_task x)" by auto
  from m p badges_marked [of "\<lambda>_. True" "lk_slots l"] show "table_of m = table_of l" by simp
  from m marks_flags [OF ms] show "sc_listeners (lk_session m) = sc_listeners (lk_session l)"
    "sc_closed (lk_session m) = sc_closed (lk_session l)"
    "sc_disconnected (lk_session m) = (sc_disconnected (lk_session l) \<or> r \<noteq> None \<or> sc_closed (lk_session l))"
    by (auto simp: s_def)
  from m ms show "sc_routes (lk_session m) = []" by (simp add: marks_unrouted s_def)
  show "\<forall>x \<in> set (lk_slots m). task_ok (lk_session m) (sl_task x)"
    if "\<forall>x \<in> set (lk_slots l). task_ok (lk_session l) (sl_task x)"
  proof -
    have "\<forall>x \<in> set (lk_slots l). task_ok s (sl_task x)"
      using that task_ok_unrouted task_ok_frame(2) unfolding s_def by force
    then show ?thesis using p m by simp
  qed
qed

text \<open>The part of the invariant that does not depend on where the loop is.\<close>

definition core_ok :: "link \<Rightarrow> bool" where
  "core_ok l =
     (badges_ok (table_of l) \<and>
      (\<forall>x \<in> set (lk_slots l). task_ok (lk_session l) (sl_task x)) \<and>
      (live (lk_session l) \<and> \<not> lk_retired l \<longrightarrow> listeners_kept (table_of l) (sc_listeners (lk_session l))))"

definition turning :: "link \<Rightarrow> bool" where
  "turning l = (core_ok l \<and> routes_kept (table_of l) (sc_routes (lk_session l)) \<and>
     \<not> sc_disconnected (lk_session l) \<and> (lk_cancelled l \<longrightarrow> (\<forall>x \<in> set (lk_slots l). task_cancelled (sl_task x))))"

lemma link_ok_loop: "in_loop l \<Longrightarrow> link_ok l \<longleftrightarrow> turning l \<and> \<not> lk_retired l"
  by (auto simp: link_ok_def turning_def core_ok_def)

lemma leave_ok:
  assumes "core_ok l"
  shows "link_ok (leave r l)"
proof -
  note p = leave_parts [OF refl [of "leave r l"]]
  have "live (lk_session (leave r l)) \<Longrightarrow> live (lk_session l)" using p by (simp add: live_def)
  with assms p show ?thesis
    unfolding link_ok_def core_ok_def by (simp add: routes_kept_def)
qed

section \<open>One turn\<close>

lemma badges_ok_filter: "badges_ok (map badge xs) \<Longrightarrow> badges_ok (map badge (filter P xs))"
proof -
  have "set (map badge (filter P xs)) \<subseteq> set (map badge xs)" by auto
  moreover assume "badges_ok (map badge xs)"
  ultimately show ?thesis
    unfolding badges_ok_def by (auto simp: distinct_map_filter comp_def)
qed

lemma keeper_slot:
  "keeper (map badge xs) k r \<longleftrightarrow>
     (\<exists>x w. x \<in> set xs \<and> sl_task x = Forwarding w \<and> wk_rule w = r \<and> k = listen_key (rule_listen r))"
proof -
  have "forwards_rule t = Some r \<longleftrightarrow> (\<exists>w. t = Forwarding w \<and> wk_rule w = r)" for t
    by (cases t) auto
  moreover have "(\<exists>i g a v. (i, g, a, v, Some r) \<in> badge ` set xs) \<longleftrightarrow> (\<exists>x \<in> set xs. forwards_rule (sl_task x) = Some r)"
    by (auto simp: badge_def image_iff) (metis)
  moreover have "keeper (map badge xs) k r \<longleftrightarrow>
      (\<exists>i g a v. (i, g, a, v, Some r) \<in> badge ` set xs) \<and> k = listen_key (rule_listen r)"
    by (simp add: keeper_def)
  ultimately show ?thesis by metis
qed

text \<open>The slot that keeps a route or a listener has not ended, unless its rule is a verified one.\<close>

lemma route_in_use:
  assumes "task_ok s (Forwarding w)" "(own_key w, r) \<in> set (sc_routes s)" "distinct (map fst (sc_routes s))"
    and "rt_rule r = wk_rule w"
  shows "wk_point w = Serving" and "wk_cancelled w \<longrightarrow> rt_cancelled r" and "own_route (s, w) = Some r"
proof -
  from assms(2,3) have "map_of (sc_routes s) (own_key w) = Some r" by simp
  with assms(4) show o: "own_route (s, w) = Some r" by (simp add: own_route_def)
  from assms(1) o show "wk_point w = Serving" "wk_cancelled w \<longrightarrow> rt_cancelled r"
    by (auto simp: worker_ok_def)
qed

lemma join_ok:
  assumes "turning l" and fresh: "\<not> lk_retired l"
  shows "core_ok (join_finished l)" and "\<not> lk_retired (join_finished l) \<Longrightarrow> turning (join_finished l)"
proof -
  let ?m = "join_finished l" and ?s = "lk_session l"
  have m: "lk_session ?m = ?s" "lk_slots ?m = filter (\<lambda>x. \<not> task_ended (sl_task x)) (lk_slots l)"
    "lk_cancelled ?m = lk_cancelled l"
    "lk_retired ?m = (\<exists>x \<in> set (lk_slots l). task_ended (sl_task x) \<and> sl_verified x)"
    by (simp_all add: join_finished_def)
  have b: "badges_ok (table_of l)" and tasks: "\<And>x. x \<in> set (lk_slots l) \<Longrightarrow> task_ok ?s (sl_task x)"
    and routes: "routes_kept (table_of l) (sc_routes ?s)"
    using assms by (auto simp: turning_def core_ok_def)
  have stays: "keeper (table_of ?m) k g"
    if k: "keeper (table_of l) k g" and run: "\<And>x w. x \<in> set (lk_slots l) \<Longrightarrow> sl_task x = Forwarding w \<Longrightarrow>
      wk_rule w = g \<Longrightarrow> own_key w = k \<Longrightarrow> wk_point w \<noteq> Finished" for k g
  proof -
    from k obtain x w where x: "x \<in> set (lk_slots l)" "sl_task x = Forwarding w" "wk_rule w = g" "k = listen_key (rule_listen g)"
      by (auto simp: keeper_slot)
    with tasks [OF x(1)] run [OF x(1-3)] m show ?thesis by (auto simp: keeper_slot)
  qed
  have listeners: "listeners_kept (table_of ?m) (sc_listeners ?s)" if "live ?s" "\<not> lk_retired ?m"
  proof -
    have "\<exists>g. keeper (table_of ?m) k g" if k: "k \<in> set (sc_listeners ?s)" for k
    proof -
      from assms k \<open>live ?s\<close> obtain g where g: "keeper (table_of l) k g"
        by (auto simp: turning_def core_ok_def listeners_kept_def)
      have "wk_point w \<noteq> Finished"
        if x: "x \<in> set (lk_slots l)" "sl_task x = Forwarding w" "own_key w = k" for x w
      proof
        assume "wk_point w = Finished"
        with tasks [OF x(1)] x(2,3) k \<open>live ?s\<close> have "verified w" by (auto simp: worker_ok_def holds_def)
        moreover have "badge_ok (badge x)" using b x(1) by (auto simp: badges_ok_def)
        ultimately show False using x(1,2) \<open>wk_point w = Finished\<close> \<open>\<not> lk_retired ?m\<close>
          by (auto simp: badge_def m)
      qed
      then show ?thesis using stays [OF g] by blast
    qed
    then show ?thesis by (simp add: listeners_kept_def)
  qed
  show c: "core_ok ?m"
    using b badges_ok_filter [of "lk_slots l"] tasks listeners by (simp add: core_ok_def m)
  show "turning ?m" if "\<not> lk_retired ?m"
  proof -
    have "keeper (table_of ?m) k (rt_rule r)" if r: "(k, r) \<in> set (sc_routes ?s)" for k r
    proof (rule stays)
      show "keeper (table_of l) k (rt_rule r)" using routes r by (auto simp: routes_kept_def)
      show "wk_point w \<noteq> Finished"
        if "x \<in> set (lk_slots l)" "sl_task x = Forwarding w" "wk_rule w = rt_rule r" "own_key w = k" for x w
      proof -
        have t: "task_ok ?s (Forwarding w)" using tasks [OF that(1)] that(2) by simp
        have d: "distinct (map fst (sc_routes ?s))" using routes by (simp add: routes_kept_def)
        have i: "(own_key w, r) \<in> set (sc_routes ?s)" using r that(4) by simp
        show ?thesis using route_in_use(1) [OF t i d that(3) [symmetric]] by simp
      qed
    qed
    moreover have "distinct (map fst (sc_routes ?s))" using routes by (simp add: routes_kept_def)
    ultimately have "routes_kept (table_of ?m) (sc_routes ?s)" unfolding routes_kept_def by blast
    then show ?thesis using c assms(1) unfolding turning_def by (simp add: m)
  qed
qed

section \<open>Cancelling and spawning\<close>

lemma cancel_outdated_parts:
  fixes now rules l
  defines "m \<equiv> cancel_outdated now rules l"
  shows "\<exists>s st. lk_session m = s\<lparr>sc_status := st\<rparr> \<and> marks (lk_session l) s"
    and "lk_slots m = map (\<lambda>x. if outdated rules x then x\<lparr>sl_task := cancelled_task (sl_task x)\<rparr> else x) (lk_slots l)"
    and "lk_cancelled m = lk_cancelled l" and "lk_retired m = lk_retired l" and "lk_desired m = lk_desired l"
    and "lk_phase m = lk_phase l"
    and "(\<forall>x \<in> set (lk_slots l). task_ok (lk_session l) (sl_task x)) \<Longrightarrow> (\<forall>x \<in> set (lk_slots m). task_ok (lk_session m) (sl_task x))"
proof -
  obtain s xs where c: "cancel_slots (outdated rules) (lk_slots l) (lk_session l) = (s, xs)" by fastforce
  have tells: "\<exists>st. foldl (\<lambda>s x. if outdated rules x then (case wanted rules x of
      Some r \<Rightarrow> tell now r Stopping (Some err) s | None \<Rightarrow> s) else s) t ys = t\<lparr>sc_status := st\<rparr>" for t ys err
  proof (induction ys arbitrary: t)
    case Nil
    show ?case by (auto intro: exI [of _ "sc_status t"])
  next
    case (Cons y ys)
    obtain st where "(if outdated rules y then (case wanted rules y of
        Some r \<Rightarrow> tell now r Stopping (Some err) t | None \<Rightarrow> t) else t) = t\<lparr>sc_status := st\<rparr>"
      using that [of "sc_status t"] by (cases "wanted rules y"; cases "outdated rules y") (auto simp: tell_def intro: that)
    with Cons.IH [of "t\<lparr>sc_status := st\<rparr>"] show ?case by auto
  qed
  define ws where "ws = ''waiting for previous listener to close''"
  from tells [of ws s "lk_slots l"] obtain st where e: "foldl (\<lambda>s x. if outdated rules x then (case wanted rules x of
      Some r \<Rightarrow> tell now r Stopping (Some ws) s | None \<Rightarrow> s) else s) s (lk_slots l) = s\<lparr>sc_status := st\<rparr>"
    by (elim exE)
  have "m = l\<lparr>lk_session := s\<lparr>sc_status := st\<rparr>, lk_slots := xs\<rparr>"
    unfolding m_def cancel_outdated_def ws_def [symmetric] c prod.case e ..
  then have st: "lk_session m = s\<lparr>sc_status := st\<rparr>" "lk_slots m = xs" "lk_cancelled m = lk_cancelled l"
    "lk_retired m = lk_retired l" "lk_desired m = lk_desired l" "lk_phase m = lk_phase l"
    by simp_all
  note p = cancel_slots_parts [OF c]
  have ex: "\<exists>u v. lk_session m = u\<lparr>sc_status := v\<rparr> \<and> marks (lk_session l) u" using st(1) p by blast
  have tasks: "(\<forall>x \<in> set (lk_slots l). task_ok (lk_session l) (sl_task x)) \<Longrightarrow> (\<forall>x \<in> set (lk_slots m). task_ok (lk_session m) (sl_task x))"
    using st(1,2) p by simp
  show "\<exists>s st. lk_session m = s\<lparr>sc_status := st\<rparr> \<and> marks (lk_session l) s" by (rule ex)
  show "lk_slots m = map (\<lambda>x. if outdated rules x then x\<lparr>sl_task := cancelled_task (sl_task x)\<rparr> else x) (lk_slots l)"
    using st(2) p by blast
  show "(\<forall>x \<in> set (lk_slots l). task_ok (lk_session l) (sl_task x)) \<Longrightarrow> (\<forall>x \<in> set (lk_slots m). task_ok (lk_session m) (sl_task x))"
    by (rule tasks)
  from st show "lk_cancelled m = lk_cancelled l" "lk_retired m = lk_retired l" "lk_desired m = lk_desired l"
    "lk_phase m = lk_phase l" by simp_all
qed

lemma turning_marks:
  assumes "turning l" "lk_session m = s\<lparr>sc_status := st\<rparr>" "marks (lk_session l) s" "table_of m = table_of l"
    and "lk_cancelled m = lk_cancelled l" "lk_retired m = lk_retired l"
    and "\<forall>x \<in> set (lk_slots m). task_ok (lk_session m) (sl_task x)"
    and "lk_cancelled l \<longrightarrow> (\<forall>x \<in> set (lk_slots m). task_cancelled (sl_task x))"
  shows "turning m"
proof -
  have "live (lk_session m) = live (lk_session l)" "sc_listeners (lk_session m) = sc_listeners (lk_session l)"
    "sc_disconnected (lk_session m) = sc_disconnected (lk_session l)"
    using assms(2) marks_flags [OF assms(3)] by (simp_all add: live_def)
  moreover have "routes_kept (table_of m) (sc_routes (lk_session m))"
    using assms(1,2,4) routes_kept_marks [OF assms(3)] by (simp add: turning_def)
  ultimately show ?thesis using assms unfolding turning_def core_ok_def by simp
qed

lemma cancel_outdated_ok:
  assumes "turning l" "\<not> lk_retired l" "\<not> lk_cancelled l"
  shows "turning (cancel_outdated now rules l)"
proof -
  note p = cancel_outdated_parts [where now = now and rules = rules and l = l]
  from p(1) obtain s st where s: "lk_session (cancel_outdated now rules l) = s\<lparr>sc_status := st\<rparr>" "marks (lk_session l) s"
    by blast
  show ?thesis
  proof (rule turning_marks [OF assms(1) s _ p(3,4)])
    show "table_of (cancel_outdated now rules l) = table_of l" by (simp only: p(2) badges_marked)
    show "\<forall>x \<in> set (lk_slots (cancel_outdated now rules l)). task_ok (lk_session (cancel_outdated now rules l)) (sl_task x)"
      by (rule p(7)) (use assms(1) in \<open>simp add: turning_def core_ok_def\<close>)
  qed (use assms(3) in simp)
qed

lemma spawned_badge:
  "spawn_task r (fs_tunnel (ru_spec r)) = Some t \<Longrightarrow> badge_ok (badge (new_slot r t)) \<and>
     (case t of Listening x \<Rightarrow> True | Forwarding w \<Rightarrow> wk_rule w = r \<and> wk_listen w = rule_listen r \<and>
        w = new_worker r (rule_listen r) (wk_target w))"
  by (cases "fs_tunnel (ru_spec r)")
    (auto simp: badge_def new_slot_def new_worker_def new_listener_def remote_listen_def rule_listen_def)

lemma fresh_worker_ok:
  assumes "live s \<Longrightarrow> own_key w \<notin> set (sc_listeners s)" "own_route (s, w) = None" "w = new_worker r a t"
  shows "worker_ok (s, w)"
proof -
  have "own_key w = listen_key a" using assms(3) by (simp add: new_worker_def)
  with assms show ?thesis
    by (auto simp: worker_ok_def holds_def new_worker_def holds_lease_def VERIFIED_LISTEN_ATTEMPTS_def)
qed

lemma uncontested_key:
  assumes "badges_ok bs" "bs = map badge xs" "\<not> contended (Some a) xs" "keeper bs k g"
  shows "listen_key a \<noteq> k"
proof
  assume k: "listen_key a = k"
  from assms(4) obtain i c v b where m: "(i, c, b, v, Some g) \<in> set bs" "k = listen_key (rule_listen g)"
    by (auto simp: keeper_def)
  have "badge_ok (i, c, b, v, Some g)" using assms(1) m(1) unfolding badges_ok_def by blast
  then have b: "b = Some (rule_listen g)" by simp
  from m(1) assms(2) obtain x where x: "x \<in> set xs" "badge x = (i, c, b, v, Some g)" by auto
  then have "sl_remote_listen x = Some (rule_listen g)" using b by (simp add: badge_def)
  moreover have "overlaps (rule_listen g) a" using same_key_overlaps k m(2) by simp
  ultimately show False using assms(3) x(1) by (auto simp: contended_def split: option.splits)
qed

lemma badges_ok_new:
  assumes "badges_ok (map badge xs)" "\<forall>x \<in> set xs. sl_id x \<noteq> sl_id y" "\<not> contended (sl_remote_listen y) xs"
    and "badge_ok (badge y)"
  shows "badges_ok (map badge (xs @ [y]))"
proof -
  have u: "uncontended (badge x) (badge y)" "uncontended (badge y) (badge x)" if x: "x \<in> set xs" for x
    using assms(3) x overlaps_sym
    by (cases "sl_remote_listen x"; cases "sl_remote_listen y"; force simp: contended_def badge_def)+
  have "uncontended (badge y) (badge y)"
    by (cases "sl_remote_listen y") (simp_all add: badge_def)
  with u assms(1,2,4) show ?thesis unfolding badges_ok_def by (auto simp: badge_def)
qed

lemma turning_told:
  "turning l \<Longrightarrow> turning (l\<lparr>lk_session := tell now r st err (lk_session l)\<rparr>)"
  by (rule turning_marks [where s = "lk_session l" and st = "update now r st err 0 None (sc_status (lk_session l))"])
    (auto simp: tell_def turning_def core_ok_def)

lemma spawn_rule_ok:
  assumes "turning l" and "\<not> lk_retired l" and "\<not> lk_cancelled l"
  shows "turning (spawn_rule now r l) \<and> \<not> lk_retired (spawn_rule now r l) \<and> \<not> lk_cancelled (spawn_rule now r l)"
proof (cases "(\<exists>x \<in> set (lk_slots l). sl_id x = fs_id (ru_spec r)) \<or> fs_desired_state (ru_spec r) = Stopped \<or>
    contended (remote_listen r) (lk_slots l) \<or> spawn_task r (fs_tunnel (ru_spec r)) = None")
  case True
  then show ?thesis using assms turning_told by (auto simp: spawn_rule_def)
next
  case False
  then obtain t where t: "spawn_task r (fs_tunnel (ru_spec r)) = Some t" by auto
  let ?y = "new_slot r t" and ?s = "lk_session l"
  have m: "spawn_rule now r l = l\<lparr>lk_slots := lk_slots l @ [?y]\<rparr>"
    using False t by (auto simp: spawn_rule_def)
  have b: "badges_ok (table_of l)" using assms(1) by (simp add: turning_def core_ok_def)
  have y: "badge_ok (badge ?y)" using spawned_badge [OF t] by simp
  have free: "\<not> contended (sl_remote_listen ?y) (lk_slots l)" using False by (simp add: new_slot_def)
  have b': "badges_ok (map badge (lk_slots l @ [?y]))"
    using badges_ok_new [OF b _ free y] False by (simp add: new_slot_def)
  have grow: "keeper (table_of l) k g \<Longrightarrow> keeper (map badge (lk_slots l @ [?y])) k g" for k g
    unfolding keeper_def by (metis Un_iff map_append set_append)
  have task: "task_ok ?s t"
  proof (cases t)
    case (Forwarding w)
    with spawned_badge [OF t] have w: "wk_listen w = rule_listen r" "wk_rule w = r" "w = new_worker r (rule_listen r) (wk_target w)"
      by auto
    have "sl_remote_listen ?y = Some (rule_listen r)"
      using y Forwarding w by (simp add: badge_def new_slot_def)
    with free have other: "own_key w \<noteq> k" if "keeper (table_of l) k g" for k g
      using uncontested_key [OF b refl _ that] w(1) by simp
    have "own_key w \<notin> set (sc_listeners ?s)" if "live ?s"
      using assms(1,2) that other unfolding turning_def core_ok_def listeners_kept_def by blast
    moreover have "map_of (sc_routes ?s) (own_key w) = None"
      using assms(1) other by (force simp: turning_def routes_kept_def map_of_eq_None_iff)
    then have "own_route (?s, w) = None" by (simp add: own_route_def)
    ultimately show ?thesis using fresh_worker_ok [of ?s w r "rule_listen r" "wk_target w"] w Forwarding by simp
  qed simp
  have "routes_kept (map badge (lk_slots l @ [?y])) (sc_routes ?s)"
    using assms(1) grow unfolding turning_def routes_kept_def by blast
  moreover have "live ?s \<longrightarrow> listeners_kept (map badge (lk_slots l @ [?y])) (sc_listeners ?s)"
    using assms(1,2) grow unfolding turning_def core_ok_def listeners_kept_def by blast
  ultimately show ?thesis
    using assms b' task unfolding turning_def core_ok_def by (auto simp: m new_slot_def)
qed

lemma spawn_rules_ok:
  assumes "turning l" and "\<not> lk_retired l" and "\<not> lk_cancelled l"
  shows "turning (foldl (\<lambda>l r. spawn_rule now r l) l rs) \<and> \<not> lk_retired (foldl (\<lambda>l r. spawn_rule now r l) l rs)"
  using assms
proof (induction rs arbitrary: l)
  case (Cons r rs)
  then show ?case using spawn_rule_ok [OF Cons.prems, of now r] by simp
qed simp

lemma turning_phase [simp]: "turning (l\<lparr>lk_phase := p\<rparr>) = turning l"
  by (simp add: turning_def core_ok_def)

lemma tick_ok:
  assumes "link_ok l" and "lk_phase l = Looping"
  shows "link_ok (tick now l)"
proof -
  from assms have t: "turning l" "\<not> lk_retired l" by (simp_all add: link_ok_loop)
  let ?j = "join_finished l"
  have "core_ok l" using t by (simp add: turning_def)
  moreover note join_ok [OF t]
  moreover have "turning (foldl (\<lambda>l r. spawn_rule now r l) (cancel_outdated now (lk_desired ?j) ?j) (lk_desired ?j)) \<and>
      \<not> lk_retired (foldl (\<lambda>l r. spawn_rule now r l) (cancel_outdated now (lk_desired ?j) ?j) (lk_desired ?j))"
    if "\<not> lk_cancelled l" "\<not> lk_retired ?j"
  proof (rule spawn_rules_ok)
    have c: "\<not> lk_cancelled ?j" using that by (simp add: join_finished_def)
    show "turning (cancel_outdated now (lk_desired ?j) ?j)"
      using cancel_outdated_ok [OF join_ok(2) [OF t that(2)] that(2) c] .
  qed (use that cancel_outdated_parts(3,4) in \<open>simp_all add: join_finished_def\<close>)
  ultimately show ?thesis
    by (auto simp: tick_def Let_def link_ok_loop intro: leave_ok)
qed

lemma check_ok:
  assumes "link_ok l" and "lk_phase l = Checking"
  shows "link_ok (check l)"
proof -
  from assms have t: "turning l" "\<not> lk_retired l" by (simp_all add: link_ok_loop)
  then have "core_ok l" by (simp add: turning_def)
  with t show ?thesis by (auto simp: check_def link_ok_loop intro: leave_ok)
qed

section \<open>Tasks that move\<close>

lemma worker_step_cancelled: "worker_step policy a b \<Longrightarrow> wk_cancelled (snd b) = wk_cancelled (snd a)"
proof -
  have r: "snd (remove_route a) = snd a" for a
    by (cases a) (auto simp: remove_route_def split: option.splits)
  have r': "remove_route a = (x, y) \<Longrightarrow> y = snd a" for a x y
    using r [of a] by simp
  assume "worker_step policy a b"
  then show ?thesis
    by (induction rule: worker_step.induct)
      (auto simp: start_def attention_def loop_top_def release_def after_release_def cleanup_failure_def claimed_def
        opened_def establish_def open_refused_def back_off_def tear_down_def confirm_failed_def lease_lost_def
        listener_closed_def released_def release_failed_def note_cancellation_def note_timeout_def Let_def r
        goto_def report_def announce_def reconnect_def require_attention_def answered_def cancel_traffic_def
        split: option.splits continuation.splits prod.splits dest: r')
qed

lemma rerouted_kept:
  assumes "rerouted g k rs rs'" "routes_kept bs rs" "keeper bs k g"
  shows "routes_kept bs rs'"
  using assms
proof (induction rule: rerouted.induct)
  case (dropped rs rs')
  then show ?case by (auto simp: routes_kept_def distinct_map_filter)
next
  case (marked rs rs' f)
  have "fst (f p) = fst p" "rt_rule (snd (f p)) = rt_rule (snd p)" for p
    using marked.hyps(2) [of "fst p" "snd p"] by simp_all
  moreover have "routes_kept bs rs'" using marked by simp
  ultimately show ?case
    by (auto simp: routes_kept_def comp_def) (metis case_prodD fst_conv prod.collapse snd_conv)
next
  case (added rs rs' r)
  then have "routes_kept bs rs'" by simp
  with added show ?case by (auto simp: routes_kept_def distinct_update dest!: in_update)
qed simp

lemma server_step_cancelled: "server_step a b \<Longrightarrow> wk_cancelled (snd b) = wk_cancelled (snd a)"
  by (induction rule: server_step.induct) simp_all

text \<open>
  What a session asks of whatever moves one of its workers: the worker's own guarantee is kept, and
  nothing of the other workers is touched.
\<close>

locale tenant =
  fixes move :: "world \<Rightarrow> world \<Rightarrow> bool"
  assumes keeps_guarantee: "move a b \<Longrightarrow> worker_ok a \<Longrightarrow> worker_ok b"
    and keeps_to_itself: "move (s, w) (t, v) \<Longrightarrow> beside (own_key w) s t"
    and reroutes_own: "move a b \<Longrightarrow> reroutes a b"
    and keeps_cancellation: "move a b \<Longrightarrow> wk_cancelled (snd b) = wk_cancelled (snd a)"
begin

lemma moved:
  assumes "move (s, w) (t, v)"
  shows "wk_rule v = wk_rule w" "wk_listen v = wk_listen w" "wk_cancelled v = wk_cancelled w"
    "rerouted (wk_rule w) (own_key w) (sc_routes s) (sc_routes t)"
  using reroutes_own [OF assms] keeps_cancellation [OF assms] by (simp_all add: reroutes_def)

lemma neighbour_unharmed:
  "move (s, w) (t, v) \<Longrightarrow> own_key u \<noteq> own_key w \<Longrightarrow> worker_ok (s, u) \<Longrightarrow> worker_ok (t, u)"
  by (rule beside_ok [OF keeps_to_itself])

lemma routes_stay_kept:
  "move (s, w) (t, v) \<Longrightarrow> routes_kept bs (sc_routes s) \<Longrightarrow> keeper bs (own_key w) (wk_rule w) \<Longrightarrow> routes_kept bs (sc_routes t)"
  by (rule rerouted_kept [OF moved(4)])

end

interpretation own: tenant "worker_step policy" for policy
  by unfold_locales ((rule worker_step_ok worker_step_beside worker_step_reroutes worker_step_cancelled; assumption)+)

interpretation served: tenant server_step
  by unfold_locales ((rule server_step_ok server_step_beside server_step_reroutes server_step_cancelled; assumption)+)

definition moves :: "retry_policy \<Rightarrow> world \<Rightarrow> world \<Rightarrow> bool" where
  "moves policy a b = (worker_step policy a b \<or> server_step a b)"

interpretation either: tenant "moves policy" for policy
  by unfold_locales
    (auto simp: moves_def intro: own.keeps_guarantee served.keeps_guarantee own.reroutes_own served.reroutes_own
      own.keeps_to_itself served.keeps_to_itself dest: own.keeps_cancellation served.keeps_cancellation)

lemma badge_moved:
  assumes "i < length xs" "forwards_rule t = forwards_rule (sl_task (xs ! i))"
  shows "map badge (xs[i := (xs ! i)\<lparr>sl_task := t\<rparr>]) = map badge xs"
proof -
  have "badge ((xs ! i)\<lparr>sl_task := t\<rparr>) = badge (xs ! i)" using assms(2) by (simp add: badge_def)
  then show ?thesis using assms(1) by (simp add: map_update list_update_same_conv)
qed

lemma other_key:
  assumes "badges_ok (map badge xs)" "i < length xs" "j < length xs" "i \<noteq> j"
    and "sl_task (xs ! i) = Forwarding w" "sl_task (xs ! j) = Forwarding v"
    and "wk_listen w = rule_listen (wk_rule w)" "wk_listen v = rule_listen (wk_rule v)"
  shows "own_key v \<noteq> own_key w"
proof
  assume k: "own_key v = own_key w"
  have "badge (xs ! i) \<in> set (map badge xs)" "badge (xs ! j) \<in> set (map badge xs)"
    using assms(2,3) by auto
  with assms(1) have "badge_ok (badge (xs ! i))" "badge_ok (badge (xs ! j))" "uncontended (badge (xs ! i)) (badge (xs ! j))"
    unfolding badges_ok_def by blast+
  then have "sl_id (xs ! i) = sl_id (xs ! j)"
    using assms(5-8) same_key_overlaps [OF k [symmetric]] by (auto simp: badge_def)
  moreover have "distinct (map sl_id xs)" using assms(1) by (simp add: badges_ok_def badge_def comp_def)
  ultimately show False using assms(2-4) by (auto simp: distinct_conv_nth)
qed

lemma link_ok_session:
  assumes ok: "link_ok l" and m: "lk_session m = s" "table_of m = table_of l" "lk_retired m = lk_retired l"
      "lk_cancelled m = lk_cancelled l" "lk_phase m = lk_phase l" "lk_slots m = [] \<longleftrightarrow> lk_slots l = []"
    and s: "sc_disconnected s = sc_disconnected (lk_session l)" "live s \<longrightarrow> live (lk_session l)"
      "live s \<Longrightarrow> listeners_kept (table_of l) (sc_listeners (lk_session l)) \<Longrightarrow> listeners_kept (table_of l) (sc_listeners s)"
      "routes_kept (table_of l) (sc_routes (lk_session l)) \<Longrightarrow> routes_kept (table_of l) (sc_routes s)"
      "lk_slots l = [] \<Longrightarrow> \<forall>(k, r) \<in> set (sc_routes (lk_session l)). rt_cancelled r \<Longrightarrow>
         \<forall>(k, r) \<in> set (sc_routes s). rt_cancelled r"
    and tasks: "\<forall>x \<in> set (lk_slots m). task_ok s (sl_task x)"
    and cancelled: "\<forall>x \<in> set (lk_slots l). task_cancelled (sl_task x) \<Longrightarrow> \<forall>x \<in> set (lk_slots m). task_cancelled (sl_task x)"
  shows "link_ok m"
  using ok s cancelled m(6) unfolding link_ok_def m(1-5) by (auto simp: tasks split: phase.splits)

lemma worker_moves_ok:
  assumes ok: "link_ok l" and i: "i < length (lk_slots l)" "sl_task (lk_slots l ! i) = Forwarding w"
    and step: "worker_step policy (lk_session l, w) (s, w') \<or> server_step (lk_session l, w) (s, w')"
  shows "link_ok (set_task i (Forwarding w') (l\<lparr>lk_session := s\<rparr>))"
proof -
  let ?s = "lk_session l" and ?m = "set_task i (Forwarding w') (l\<lparr>lk_session := s\<rparr>)"
  have b: "badges_ok (table_of l)" and tasks: "\<And>x. x \<in> set (lk_slots l) \<Longrightarrow> task_ok ?s (sl_task x)"
    using ok by (simp_all add: link_ok_def)
  have w: "worker_ok (?s, w)" "wk_listen w = rule_listen (wk_rule w)"
    using tasks [of "lk_slots l ! i"] i by simp_all
  from step have mv: "moves policy (?s, w) (s, w')" by (simp add: moves_def)
  note p = either.keeps_guarantee [OF mv w(1)] either.moved(1-3) [OF mv] either.keeps_to_itself [OF mv]
  have m: "lk_session ?m = s" "lk_slots ?m = (lk_slots l)[i := (lk_slots l ! i)\<lparr>sl_task := Forwarding w'\<rparr>]"
    "lk_cancelled ?m = lk_cancelled l" "lk_retired ?m = lk_retired l" "lk_phase ?m = lk_phase l"
    by (simp_all add: set_task_def)
  have t: "table_of ?m = table_of l"
    using badge_moved [OF i(1), of "Forwarding w'"] i(2) p(2) by (simp add: m)
  have flags: "sc_disconnected s = sc_disconnected ?s" "live s = live ?s"
    using p(5) by (auto simp: beside_def live_def)
  have key: "keeper (table_of l) (own_key w) (wk_rule w)"
    unfolding keeper_slot using i w(2) nth_mem [OF i(1)] by metis
  have tasks': "\<forall>x \<in> set (lk_slots ?m). task_ok s (sl_task x)"
  proof
    fix x assume "x \<in> set (lk_slots ?m)"
    then obtain j where j: "j < length (lk_slots l)" "x = lk_slots ?m ! j"
      by (auto simp: m in_set_conv_nth)
    show "task_ok s (sl_task x)"
    proof (cases "j = i")
      case True
      then show ?thesis using j p(1-3) w(2) by (simp add: m)
    next
      case False
      then have x: "x = lk_slots l ! j" using j by (simp add: m)
      show ?thesis
      proof (cases "sl_task x")
        case (Forwarding v)
        with tasks [of x] x j have v: "worker_ok (?s, v)" "wk_listen v = rule_listen (wk_rule v)" by auto
        have "own_key v \<noteq> own_key w"
          using other_key [OF b i(1) j(1) _ i(2) _ w(2) v(2)] False Forwarding x by simp
        then show ?thesis using either.neighbour_unharmed [OF mv] v Forwarding by simp
      qed simp
    qed
  qed
  have cancelled: "\<forall>x \<in> set (lk_slots ?m). task_cancelled (sl_task x)"
    if "\<forall>x \<in> set (lk_slots l). task_cancelled (sl_task x)"
    using that i p(4) nth_mem [OF i(1)] by (fastforce simp: m dest!: set_update_subset_insert [THEN subsetD])
  have routes: "routes_kept (table_of l) (sc_routes s)" if "routes_kept (table_of l) (sc_routes ?s)"
    by (rule either.routes_stay_kept [OF mv that key])
  have listeners: "listeners_kept (table_of l) (sc_listeners s)"
    if "live ?s" "listeners_kept (table_of l) (sc_listeners ?s)"
    unfolding listeners_kept_def
  proof
    fix k assume k: "k \<in> set (sc_listeners s)"
    show "\<exists>r. keeper (table_of l) k r"
    proof (cases "k = own_key w")
      case False
      with k p(5) that(1) have "k \<in> set (sc_listeners ?s)" unfolding beside_def by blast
      with that(2) show ?thesis unfolding listeners_kept_def by blast
    qed (use key in blast)
  qed
  show ?thesis
  proof (rule link_ok_session [OF ok m(1) t m(4,3,5) _ flags(1)])
    show "(lk_slots ?m = []) = (lk_slots l = [])" by (simp add: m(2))
    show "live s \<longrightarrow> live ?s" by (simp add: flags(2))
    show "listeners_kept (table_of l) (sc_listeners s)" if "live s" "listeners_kept (table_of l) (sc_listeners ?s)"
      using listeners that by (simp add: flags(2))
    show "routes_kept (table_of l) (sc_routes s)" if "routes_kept (table_of l) (sc_routes ?s)"
      by (rule routes [OF that])
    show "\<forall>(k, r) \<in> set (sc_routes s). rt_cancelled r" if "lk_slots l = []" using that i(1) by simp
    show "\<forall>x \<in> set (lk_slots ?m). task_cancelled (sl_task x)" if "\<forall>x \<in> set (lk_slots l). task_cancelled (sl_task x)"
      by (rule cancelled [OF that])
  qed (rule tasks')
qed

lemma listener_moves_ok:
  assumes ok: "link_ok l" and i: "i < length (lk_slots l)" "sl_task (lk_slots l ! i) = Listening x"
    and step: "local_step policy (sc_status (lk_session l), x) (st, y)"
  shows "link_ok (set_task i (Listening y) (l\<lparr>lk_session := (lk_session l)\<lparr>sc_status := st\<rparr>\<rparr>))"
proof (rule link_ok_session [OF ok])
  let ?m = "set_task i (Listening y) (l\<lparr>lk_session := (lk_session l)\<lparr>sc_status := st\<rparr>\<rparr>)"
  show "table_of ?m = table_of l" using badge_moved [OF i(1), of "Listening y"] i(2) by (simp add: set_task_def)
  show "\<forall>z \<in> set (lk_slots ?m). task_ok ((lk_session l)\<lparr>sc_status := st\<rparr>) (sl_task z)"
    using ok i by (auto simp: set_task_def link_ok_def dest!: set_update_subset_insert [THEN subsetD])
  have "lo_cancelled y = lo_cancelled x"
    using step by cases (auto simp: local_top_def bound_def bind_refused_def accept_stream_def accept_failed_def
      abort_streams_def end_stream_def set_stream_def give_up_def Let_def split: if_splits)
  then show "\<forall>z \<in> set (lk_slots ?m). task_cancelled (sl_task z)" if "\<forall>z \<in> set (lk_slots l). task_cancelled (sl_task z)"
    using that i nth_mem [OF i(1)] by (fastforce simp: set_task_def dest!: set_update_subset_insert [THEN subsetD])
qed (simp_all add: set_task_def live_def)

lemma marks_counted:
  "marks s (s\<lparr>sc_routes := map (\<lambda>(j, x). (j, if j = k then x\<lparr>rt_active := rt_active x + 1\<rparr> else x)) (sc_routes s)\<rparr>)"
proof -
  let ?f = "\<lambda>j x. if j = k then x\<lparr>rt_active := rt_active x + 1\<rparr> else x"
  have m: "map_of (map (\<lambda>(j, x). (j, ?f j x)) rs) j = map_option (?f j) (map_of rs j)" for rs j
    by (induction rs) auto
  have "own_route (s\<lparr>sc_routes := map (\<lambda>(j, x). (j, ?f j x)) (sc_routes s)\<rparr>, w) = map_option (?f (own_key w)) (own_route (s, w))" for w
    using m [of "sc_routes s" "own_key w"]
    by (cases "map_of (sc_routes s) (own_key w)") (simp_all add: own_route_def)
  then have "worker_ok (s\<lparr>sc_routes := map (\<lambda>(j, x). (j, ?f j x)) (sc_routes s)\<rparr>, w)" if "worker_ok (s, w)" for w
    using that by (cases "wk_point w") (auto simp: worker_ok_def holds_def live_def retiring_def cong: option.case_cong)
  then show ?thesis unfolding marks_def
    by (intro exI [of _ "map (\<lambda>(j, x). (j, ?f j x)) (sc_routes s)"]) (auto simp: o_def)
qed

lemma marks_forwarded: "marks s (snd (open_forwarded address port s))"
proof (cases "find_route address port (sc_routes s)")
  case (Some p)
  obtain k r where "p = (k, r)" by (cases p)
  with Some show ?thesis by (simp add: open_forwarded_def marks_counted)
qed (simp add: open_forwarded_def)

lemma link_ok_marks:
  assumes "link_ok l" "marks (lk_session l) s"
    and "\<forall>(k, r) \<in> set (sc_routes (lk_session l)). rt_cancelled r \<Longrightarrow> \<forall>(k, r) \<in> set (sc_routes s). rt_cancelled r"
  shows "link_ok (l\<lparr>lk_session := s\<rparr>)"
  by (rule link_ok_session [OF assms(1), where s = s])
    (use assms marks_flags [OF assms(2)] routes_kept_marks [OF assms(2)] task_ok_marks [OF assms(2)] in \<open>simp_all add: link_ok_def\<close>)

lemma cancelled_forwarded:
  "\<forall>(k, r) \<in> set (sc_routes s). rt_cancelled r \<Longrightarrow>
     \<forall>(k, r) \<in> set (sc_routes (snd (open_forwarded address port s))). rt_cancelled r"
  by (auto simp: open_forwarded_def split: option.splits if_splits)

lemma cancel_link_ok:
  assumes "link_ok l"
  shows "link_ok (cancel_link l)"
proof -
  obtain s xs where c: "cancel_slots (\<lambda>_. True) (lk_slots l) (lk_session l) = (s, xs)" by fastforce
  note p = cancel_slots_parts [OF c]
  then have ms: "marks (lk_session l) s" by simp
  have m: "cancel_link l = l\<lparr>lk_session := s, lk_slots := xs, lk_cancelled := True\<rparr>"
    by (simp add: cancel_link_def c)
  have "map badge xs = table_of l" using p badges_marked [of "\<lambda>_. True" "lk_slots l"] by simp
  moreover have "\<forall>x \<in> set xs. task_cancelled (sl_task x)" "xs = [] \<longleftrightarrow> lk_slots l = []" using p by auto
  moreover have "\<forall>x \<in> set xs. task_ok s (sl_task x)" using p assms by (simp add: link_ok_def)
  moreover have "lk_slots l = [] \<Longrightarrow> s = lk_session l" using c by simp
  ultimately show ?thesis
    using assms marks_flags [OF ms] routes_kept_marks [OF ms] unfolding m link_ok_def
    by (auto split: phase.splits)
qed

lemma finish_ok:
  assumes "link_ok l" and "lk_phase l = Draining r"
  shows "link_ok (finish l)"
proof -
  have "rt_cancelled q" if q: "(k, q) \<in> set (sc_routes (lk_session l))" for k q
  proof -
    have kept: "routes_kept (table_of l) (sc_routes (lk_session l))" using assms by (simp add: link_ok_def)
    then obtain x w where x: "x \<in> set (lk_slots l)" "sl_task x = Forwarding w" "wk_rule w = rt_rule q"
      "k = listen_key (rule_listen (rt_rule q))"
      using q by (auto simp: routes_kept_def keeper_slot)
    with assms have t: "task_ok (lk_session l) (Forwarding w)" "task_cancelled (Forwarding w)"
      by (auto simp: link_ok_def simp del: task_ok.simps task_cancelled.simps)
    with x q have "(own_key w, q) \<in> set (sc_routes (lk_session l))" by simp
    from route_in_use(2) [OF t(1) this _ x(3) [symmetric]] kept t(2) show ?thesis by (simp add: routes_kept_def)
  qed
  then show ?thesis using assms by (auto simp: finish_def link_ok_def live_def badges_ok_def)
qed

lemma link_step_ok:
  assumes "link_step policy a b" and "link_ok a"
  shows "link_ok b"
  using assms
proof (induction rule: link_step.induct)
  case (ticked l now)
  then show ?case by (simp add: tick_ok)
next
  case (checked l)
  then show ?case by (simp add: check_ok)
next
  case (select_cancelled l)
  then show ?case by (simp add: link_ok_loop turning_def leave_ok)
next
  case (select_failure l f fs)
  then show ?case by (simp add: link_ok_loop turning_def leave_ok)
next
  case (select_again l)
  then show ?case by (simp add: link_ok_loop)
next
  case (select_abandoned l)
  then show ?case by (simp add: link_ok_loop turning_def leave_ok)
next
  case (drained l r)
  then show ?case by (simp add: finish_ok)
next
  case (wished l rules)
  then show ?case by (cases "lk_phase l") (auto simp: link_ok_def)
next
  case (withdrawn l)
  then show ?case by (rule cancel_link_ok)
next
  case (broken l failure)
  then show ?case by (cases "lk_phase l") (auto simp: link_ok_def live_def)
next
  case (worker_moves i l w s w')
  then show ?case by (intro worker_moves_ok)
next
  case (listener_moves i l x st x')
  then show ?case by (intro listener_moves_ok)
next
  case (connection_forwarded l address port)
  show ?case
  proof (rule link_ok_marks)
    show "link_ok l" by fact
    show "marks (lk_session l) (snd (open_forwarded address port (lk_session l)))" by (rule marks_forwarded)
  qed (erule cancelled_forwarded)
qed

lemma linked_ok: "linked policy l \<Longrightarrow> link_ok l"
proof (induction rule: linked.induct)
  case (opened s rules c)
  then show ?case
    by (simp add: new_link_def link_ok_def badges_ok_def routes_kept_def listeners_kept_def)
next
  case (moved a b)
  then show ?case by (blast intro: link_step_ok)
qed

end
