(* ===== verification/SessionSafety.thy ===== *)
theory SessionSafety
  imports SessionInvariant
begin

text \<open>
  What a connection guarantees to its rules: no two of them contend for a port of the server, every
  listener and every route belongs to one worker, a turn of the loop brings the workers up to date
  with the rules, and a connection that is wound up in time leaves nothing behind.
\<close>

section \<open>Properties of a connection\<close>

text \<open>
  Property C8. On one connection no two workers of remote rules contend for a port, whatever was
  edited, cancelled or retried and in whatever order; while the connection stands, every route and
  every listener on the server belongs to the worker of exactly one rule.
\<close>

theorem one_owner_per_port:
  assumes "linked policy l"
  shows "(\<forall>i < length (lk_slots l). \<forall>j < length (lk_slots l). \<forall>a b. i \<noteq> j \<and>
      sl_remote_listen (lk_slots l ! i) = Some a \<and> sl_remote_listen (lk_slots l ! j) = Some b \<longrightarrow> \<not> overlaps a b) \<and>
    (in_loop l \<longrightarrow>
      (\<forall>(k, r) \<in> set (sc_routes (lk_session l)). \<exists>!x. x \<in> set (lk_slots l) \<and>
         (\<exists>w. sl_task x = Forwarding w \<and> own_key w = k \<and> wk_rule w = rt_rule r)) \<and>
      (\<not> sc_closed (lk_session l) \<longrightarrow> (\<forall>k \<in> set (sc_listeners (lk_session l)). \<exists>!x. x \<in> set (lk_slots l) \<and>
         (\<exists>w. sl_task x = Forwarding w \<and> own_key w = k))))"
proof -
  note ok = linked_ok [OF assms]
  have b: "badges_ok (table_of l)" using ok by (simp add: link_ok_def)
  have d: "distinct (map sl_id (lk_slots l))" using b by (simp add: badges_ok_def badge_def comp_def)
  have apart: "\<not> overlaps u v" if "i < length (lk_slots l)" "j < length (lk_slots l)" "i \<noteq> j"
    "sl_remote_listen (lk_slots l ! i) = Some u" "sl_remote_listen (lk_slots l ! j) = Some v" for i j u v
  proof -
    have "uncontended (badge (lk_slots l ! i)) (badge (lk_slots l ! j))"
      using b that(1,2) unfolding badges_ok_def by simp
    moreover have "sl_id (lk_slots l ! i) \<noteq> sl_id (lk_slots l ! j)"
      using d that(1-3) by (auto simp: distinct_conv_nth)
    ultimately show ?thesis using that(4,5) by (simp add: badge_def)
  qed
  have tasks: "wk_listen w = rule_listen (wk_rule w)" if "x \<in> set (lk_slots l)" "sl_task x = Forwarding w" for x w
    using ok that by (auto simp: link_ok_def)
  have alone: "x = y" if "x \<in> set (lk_slots l)" "sl_task x = Forwarding w" "y \<in> set (lk_slots l)" "sl_task y = Forwarding v"
    "own_key w = own_key v" for x y w v
    using that other_key [OF b] tasks by (metis in_set_conv_nth)
  have owner: "\<exists>!x. x \<in> set (lk_slots l) \<and> (\<exists>w. sl_task x = Forwarding w \<and> own_key w = k \<and> (P w))"
    if "keeper (table_of l) k g" "\<And>w. wk_rule w = g \<Longrightarrow> P w" for k g P
  proof -
    from that(1) obtain x w where x: "x \<in> set (lk_slots l)" "sl_task x = Forwarding w" "wk_rule w = g" "k = listen_key (rule_listen g)"
      by (auto simp: keeper_slot)
    with tasks have "own_key w = k" by simp
    with x that(2) alone show ?thesis by metis
  qed
  have routes: "routes_kept (table_of l) (sc_routes (lk_session l))" if "in_loop l"
    using ok that by (auto simp: link_ok_loop turning_def)
  have listeners: "listeners_kept (table_of l) (sc_listeners (lk_session l))" if "in_loop l" "\<not> sc_closed (lk_session l)"
    using ok that by (auto simp: link_ok_loop turning_def core_ok_def live_def)
  have "\<exists>!x. x \<in> set (lk_slots l) \<and> (\<exists>w. sl_task x = Forwarding w \<and> own_key w = k \<and> wk_rule w = rt_rule r)"
    if "in_loop l" "(k, r) \<in> set (sc_routes (lk_session l))" for k r
    by (rule owner [of k "rt_rule r"]) (use routes [OF that(1)] that(2) in \<open>auto simp: routes_kept_def\<close>)
  moreover have "\<exists>!x. x \<in> set (lk_slots l) \<and> (\<exists>w. sl_task x = Forwarding w \<and> own_key w = k)"
    if "in_loop l" "\<not> sc_closed (lk_session l)" "k \<in> set (sc_listeners (lk_session l))" for k
  proof -
    from listeners [OF that(1,2)] that(3) obtain g where "keeper (table_of l) k g" by (auto simp: listeners_kept_def)
    from owner [OF this, of "\<lambda>_. True"] show ?thesis by simp
  qed
  ultimately show ?thesis using apart by blast
qed

text \<open>
  Property C9. A connection that the server passes on is served only for the rule whose worker
  holds that listener: one that is serving, not cancelled, with its listener still on the server
  and, for a verified rule, a confirmed lease, and that listens on the address the server names.
\<close>

theorem connection_reaches_owner:
  assumes "linked policy l" and "open_forwarded address port (lk_session l) = (Accepted r, s)"
  shows "\<exists>i w. i < length (lk_slots l) \<and> sl_task (lk_slots l ! i) = Forwarding w \<and> wk_rule w = rt_rule r \<and>
    wk_point w = Serving \<and> \<not> wk_cancelled w \<and> in_loop l \<and>
    (\<not> sc_closed (lk_session l) \<longrightarrow> own_key w \<in> set (sc_listeners (lk_session l))) \<and>
    (verified w \<longrightarrow> wk_confirmed w \<and> holds_lease w) \<and> port = ucast (sock_port (wk_listen w)) \<and>
    canonical_ip address = canonical_ip (show_ip (sock_ip (wk_listen w))) \<and> rt_active r < 256"
proof -
  note ok = linked_ok [OF assms(1)]
  from assms(2) obtain k where f: "find_route address port (sc_routes (lk_session l)) = Some (k, r)" "\<not> rt_cancelled r" "rt_active r < 256"
    by (auto simp: open_forwarded_def MAX_CONNECTIONS_def split: option.splits if_splits)
  note found = find_route_Some [OF f(1)]
  have "\<not> (\<exists>q. lk_phase l = Left q)" using ok found f(2) by (auto simp: link_ok_def)
  then have kept: "routes_kept (table_of l) (sc_routes (lk_session l))"
    using ok by (cases "lk_phase l") (auto simp: link_ok_def)
  with found obtain x w where x: "x \<in> set (lk_slots l)" "sl_task x = Forwarding w" "wk_rule w = rt_rule r"
    "k = listen_key (rule_listen (rt_rule r))"
    by (auto simp: routes_kept_def keeper_slot)
  from ok x have t: "task_ok (lk_session l) (Forwarding w)"
    by (auto simp: link_ok_def simp del: task_ok.simps)
  with x have own: "own_key w = k" by simp
  have d: "distinct (map fst (sc_routes (lk_session l)))" using kept by (simp add: routes_kept_def)
  have i: "(own_key w, r) \<in> set (sc_routes (lk_session l))" using found own by simp
  note use = route_in_use [OF t i d x(3) [symmetric]]
  have run: "\<not> wk_cancelled w" using use(2) f(2) by blast
  then have loop: "in_loop l"
    using ok x \<open>\<not> (\<exists>q. lk_phase l = Left q)\<close> by (cases "lk_phase l") (force simp: link_ok_def)+
  have "\<not> sc_disconnected (lk_session l)" using ok loop by (auto simp: link_ok_loop turning_def)
  then have "\<not> sc_closed (lk_session l) \<longrightarrow> own_key w \<in> set (sc_listeners (lk_session l))"
    "verified w \<longrightarrow> wk_confirmed w \<and> holds_lease w"
    using t use(1) by (auto simp: worker_ok_def holds_def live_def)
  moreover obtain j where "j < length (lk_slots l)" "lk_slots l ! j = x" using x(1) by (auto simp: in_set_conv_nth)
  moreover have "port = ucast (sock_port (wk_listen w)) \<and> canonical_ip address = canonical_ip (show_ip (sock_ip (wk_listen w)))"
    using found own by (auto simp: listen_key_def)
  ultimately show ?thesis using x use(1) run loop f(3) by blast
qed


section \<open>A turn brings the workers up to date\<close>

lemma spawn_slots:
  "\<exists>xs. lk_slots (spawn_rule now r l) = lk_slots l @ xs \<and>
     (\<forall>x \<in> set xs. \<exists>t. x = new_slot r t \<and> fs_desired_state (ru_spec r) \<noteq> Stopped) \<and>
     (fs_desired_state (ru_spec r) \<noteq> Stopped \<and> spawn_task r (fs_tunnel (ru_spec r)) \<noteq> None \<longrightarrow>
        (\<exists>x \<in> set (lk_slots l @ xs). sl_id x = fs_id (ru_spec r)) \<or> contended (remote_listen r) (lk_slots l @ xs))"
proof (cases "(\<exists>x \<in> set (lk_slots l). sl_id x = fs_id (ru_spec r)) \<or> fs_desired_state (ru_spec r) = Stopped \<or>
    contended (remote_listen r) (lk_slots l) \<or> spawn_task r (fs_tunnel (ru_spec r)) = None")
  case True
  then show ?thesis by (intro exI [of _ "[]"]) (auto simp: spawn_rule_def)
next
  case False
  then obtain t where t: "spawn_task r (fs_tunnel (ru_spec r)) = Some t" by auto
  then have "lk_slots (spawn_rule now r l) = lk_slots l @ [new_slot r t]" using False by (auto simp: spawn_rule_def)
  with False t show ?thesis by (intro exI [of _ "[new_slot r t]"]) (auto simp: new_slot_def)
qed

lemma contended_more: "contended a xs \<Longrightarrow> contended a (xs @ ys)"
  by (auto simp: contended_def split: option.splits)

lemma spawned_slots:
  "\<exists>xs. lk_slots (foldl (\<lambda>l r. spawn_rule now r l) l rs) = lk_slots l @ xs \<and>
     (\<forall>x \<in> set xs. \<exists>r \<in> set rs. \<exists>t. x = new_slot r t \<and> fs_desired_state (ru_spec r) \<noteq> Stopped) \<and>
     (\<forall>r \<in> set rs. fs_desired_state (ru_spec r) \<noteq> Stopped \<and> spawn_task r (fs_tunnel (ru_spec r)) \<noteq> None \<longrightarrow>
        (\<exists>x \<in> set (lk_slots l @ xs). sl_id x = fs_id (ru_spec r)) \<or> contended (remote_listen r) (lk_slots l @ xs))"
proof (induction rs arbitrary: l)
  case (Cons r rs)
  obtain xs where xs: "lk_slots (spawn_rule now r l) = lk_slots l @ xs"
    "\<forall>x \<in> set xs. \<exists>t. x = new_slot r t \<and> fs_desired_state (ru_spec r) \<noteq> Stopped"
    "fs_desired_state (ru_spec r) \<noteq> Stopped \<and> spawn_task r (fs_tunnel (ru_spec r)) \<noteq> None \<longrightarrow>
        (\<exists>x \<in> set (lk_slots l @ xs). sl_id x = fs_id (ru_spec r)) \<or> contended (remote_listen r) (lk_slots l @ xs)"
    using spawn_slots [of now r l] by blast
  obtain ys where ys: "lk_slots (foldl (\<lambda>l r. spawn_rule now r l) (spawn_rule now r l) rs) = (lk_slots l @ xs) @ ys"
    "\<forall>x \<in> set ys. \<exists>r \<in> set rs. \<exists>t. x = new_slot r t \<and> fs_desired_state (ru_spec r) \<noteq> Stopped"
    "\<forall>q \<in> set rs. fs_desired_state (ru_spec q) \<noteq> Stopped \<and> spawn_task q (fs_tunnel (ru_spec q)) \<noteq> None \<longrightarrow>
        (\<exists>x \<in> set ((lk_slots l @ xs) @ ys). sl_id x = fs_id (ru_spec q)) \<or> contended (remote_listen q) ((lk_slots l @ xs) @ ys)"
    using Cons.IH [of "spawn_rule now r l"] unfolding xs(1) by blast
  show ?case
    by (intro exI [of _ "xs @ ys"] conjI) (use xs(2,3) ys contended_more [of _ "lk_slots l @ xs" ys] in auto)
qed simp


section \<open>A run\<close>

text \<open>A connection with the sample rule alone, spawned by the first turn of the loop.\<close>

definition sample_link :: "phase \<Rightarrow> session \<Rightarrow> worker \<Rightarrow> link" where
  "sample_link p s w = (new_link s [sample_rule] False)\<lparr>
     lk_slots := [(new_slot sample_rule (Forwarding w))], lk_phase := p\<rparr>"

definition aimed :: "worker \<Rightarrow> worker" where
  "aimed w = w\<lparr>wk_target := Some sample_target\<rparr>"

lemma sample_turn:
  "tick 0 (new_link (session_with st [] []) [sample_rule] False) =
     sample_link Checking (session_with st [] []) (aimed (worker_at Begin False None False None))"
  by (simp add: tick_def new_link_def join_finished_def cancel_outdated_def spawn_rule_def contended_def
      remote_listen_def sample_link_def sample_rule_def sample_remote_def rule_listen_def sample_listen_def
      aimed_def worker_at_def new_worker_def)

lemma sample_moves:
  assumes "linked policy (sample_link p s w)" and "worker_step policy (s, w) (t, v) \<or> server_step (s, w) (t, v)"
  shows "linked policy (sample_link p t v)"
proof -
  have "link_step policy (sample_link p s w) (set_task 0 (Forwarding v) ((sample_link p s w)\<lparr>lk_session := t\<rparr>))"
    by (rule link_step.worker_moves [where w = w]) (use assms(2) in \<open>simp_all add: sample_link_def new_slot_def new_link_def\<close>)
  moreover have "set_task 0 (Forwarding v) ((sample_link p s w)\<lparr>lk_session := t\<rparr>) = sample_link p t v"
    by (simp add: set_task_def sample_link_def new_slot_def new_link_def)
  ultimately show ?thesis using assms(1) by (metis linked.moved)
qed

lemma linked_opening:
  "linked sample_policy (sample_link Checking (session_with st [] []) (aimed (worker_at (Opening False False) False (Some held_lease) False None)))"
proof -
  let ?s = "session_with st [] []" and ?at = "\<lambda>p le. aimed (worker_at p False le False None)"
  have "linked sample_policy (new_link ?s [sample_rule] False)"
    by (rule linked.opened) (simp_all add: session_with_def)
  then have "linked sample_policy (tick 0 (new_link ?s [sample_rule] False))"
    by (rule linked.moved) (rule link_step.ticked, simp add: new_link_def)
  then have a: "linked sample_policy (sample_link Checking ?s (?at Begin None))" by (simp add: sample_turn)
  have b: "worker_step sample_policy (?s, ?at Begin None) (?s, ?at Claiming None)"
    using worker_step.begun [of "?at Begin None" sample_policy ?s 0] by (simp add: run_simps aimed_def start_def)
  have c: "worker_step sample_policy (?s, ?at Claiming None) (?s, ?at (Opening False False) (Some held_lease))"
    using worker_step.claim_granted [of "?at Claiming None" ?s held_lease sample_policy 0]
    by (simp add: run_simps aimed_def claimed_def loop_top_def)
  from a b c show ?thesis by (blast intro: sample_moves)
qed

definition aimed_route :: route where
  "aimed_route = new_route sample_policy (aimed (new_worker sample_rule sample_listen None))"

lemma linked_serving:
  "\<exists>st. linked sample_policy (sample_link Checking (session_with st [(listen_key sample_listen, aimed_route)] [listen_key sample_listen])
     (aimed (worker_at Serving False (Some held_lease) True None)))"
proof -
  let ?k = "[listen_key sample_listen]" and ?l = "Some held_lease" and ?st = no_status
  let ?at = "\<lambda>p conf ans. aimed (worker_at p False ?l conf ans)"
  have a: "server_step (session_with ?st [] [], ?at (Opening False False) False None)
      (session_with ?st [] ?k, ?at (Opening False False) False (Some (Inr ())))"
    using server_step.server_opens [of "?at (Opening False False) False None" False False "session_with ?st [] []"]
    by (simp add: run_simps aimed_def)
  have b: "worker_step sample_policy (session_with ?st [] ?k, ?at (Opening False False) False (Some (Inr ())))
      (session_with ?st [] ?k, ?at Confirming False None)"
    using worker_step.open_accepted [of "?at (Opening False False) False (Some (Inr ()))" False False
      "session_with ?st [] ?k" sample_policy 0]
    by (simp add: run_simps aimed_def opened_def)
  have c: "\<exists>st. worker_step sample_policy (session_with ?st [] ?k, ?at Confirming False None)
      (session_with st [(listen_key sample_listen, aimed_route)] ?k, ?at Serving True None)"
    using worker_step.confirmed [of "?at Confirming False None" "session_with ?st [] ?k" sample_policy 0]
    by (auto simp: run_simps aimed_def establish_def new_route_def aimed_route_def)
  from a b c linked_opening [of ?st] show ?thesis by (blast intro: sample_moves)
qed

theorem one_owner_per_port_witness:
  "\<exists>st. \<exists>!x. x \<in> {new_slot sample_rule (Forwarding (aimed (worker_at Serving False (Some held_lease) True None)))} \<and>
     (\<exists>w. sl_task x = Forwarding w \<and> own_key w = listen_key sample_listen)"
proof -
  let ?w = "aimed (worker_at Serving False (Some held_lease) True None)" and ?k = "listen_key sample_listen"
  obtain st where "linked sample_policy (sample_link Checking (session_with st [(?k, aimed_route)] [?k]) ?w)"
    using linked_serving by blast
  from one_owner_per_port [OF this] show ?thesis by (simp add: sample_link_def session_with_def new_link_def)
qed

theorem connection_reaches_owner_witness:
  "\<exists>s. open_forwarded (fst (listen_key sample_listen)) (snd (listen_key sample_listen))
      (session_with s [(listen_key sample_listen, aimed_route)] [listen_key sample_listen]) =
        (Accepted aimed_route, session_with s [(listen_key sample_listen, aimed_route\<lparr>rt_active := 1\<rparr>)] [listen_key sample_listen]) \<and>
    rt_rule aimed_route = sample_rule \<and> rt_active aimed_route < 256"
proof -
  let ?w = "aimed (worker_at Serving False (Some held_lease) True None)" and ?k = "listen_key sample_listen"
  obtain st where l: "linked sample_policy (sample_link Checking (session_with st [(?k, aimed_route)] [?k]) ?w)"
    using linked_serving by blast
  have o: "open_forwarded (fst ?k) (snd ?k) (session_with st [(?k, aimed_route)] [?k]) =
      (Accepted aimed_route, session_with st [(?k, aimed_route\<lparr>rt_active := 1\<rparr>)] [?k])"
    by (simp add: open_forwarded_def find_route_def session_with_def MAX_CONNECTIONS_def aimed_route_def new_route_def)
  then have "open_forwarded (fst ?k) (snd ?k) (lk_session (sample_link Checking (session_with st [(?k, aimed_route)] [?k]) ?w)) =
      (Accepted aimed_route, session_with st [(?k, aimed_route\<lparr>rt_active := 1\<rparr>)] [?k])"
    by (simp add: sample_link_def new_link_def)
  from connection_reaches_owner [OF l this] o show ?thesis
    by (auto simp: aimed_route_def new_route_def aimed_def new_worker_def)
qed


lemma linked_leaving:
  "linked sample_policy (leave None (new_link (session_with no_status [] []) [sample_rule] True))"
proof -
  let ?l = "new_link (session_with no_status [] []) [sample_rule] True"
  have "linked sample_policy ?l" by (rule linked.opened) (simp_all add: session_with_def)
  then have "linked sample_policy (tick 0 ?l)"
    by (rule linked.moved) (rule link_step.ticked, simp add: new_link_def)
  then show ?thesis by (simp add: tick_def new_link_def)
qed


end
