(* ===== verification/Supervisor.thy ===== *)
theory Supervisor
  imports SessionInvariant
begin

text \<open>
  The task that keeps one SSH connection for the rules of a group: \<open>supervise\<close> of
  \<open>crates/fwm-core/src/engine/connection.rs\<close>. It waits for a rule that wants to run, asks for one
  of the engine's connection permits, connects, hands over to the loop of \<open>Session\<close>, and decides
  what its end means: waiting for the user, or another attempt after a delay. The \<open>watch\<close> channel
  of desired rules is the current list, a flag for a value not looked at yet, and a flag for a
  sender that is gone. Resolving and connecting are one step with any outcome. The table of status
  entries belongs to the session while one is up; reports of other tasks are left out, since
  nothing here reads it.
\<close>

section \<open>State\<close>

datatype supervisor_point =
    Top | Idle | Unidentified | Queued | Connecting | Attached link | Blocked | Sleeping u64 | Gone

record supervisor =
  su_profile :: server_profile
  su_cleanup :: "string option"
  su_desired :: "rule list"
  su_unseen :: bool
  su_dropped :: bool
  su_cancelled :: bool
  su_failures :: u32
  su_status :: shared
  su_point :: supervisor_point

definition new_supervisor ::
    "server_profile \<Rightarrow> string option \<Rightarrow> rule list \<Rightarrow> shared \<Rightarrow> supervisor" where
  "new_supervisor p cleanup rules st = \<lparr>su_profile = p, su_cleanup = cleanup, su_desired = rules, su_unseen = False,
     su_dropped = False, su_cancelled = False, su_failures = 0, su_status = st, su_point = Top\<rparr>"

abbreviation running :: "rule \<Rightarrow> bool" where
  "running r \<equiv> fs_desired_state (ru_spec r) = Running"

section \<open>Between the awaits\<close>

definition report_stopped :: "u64 \<Rightarrow> rule list \<Rightarrow> shared \<Rightarrow> shared" where
  "report_stopped now rules s = foldl (\<lambda>s r. if running r then s else update now r RStopped None 0 None s) s rules"

definition set_running ::
    "u64 \<Rightarrow> rule list \<Rightarrow> runtime_state \<Rightarrow> string option \<Rightarrow> u32 \<Rightarrow> u64 option \<Rightarrow> shared \<Rightarrow> shared" where
  "set_running now rules st err failures at s =
     foldl (\<lambda>s r. if running r then update now r st err failures at s else s) s rules"

definition look :: "u64 \<Rightarrow> supervisor \<Rightarrow> supervisor" where
  "look now v = v\<lparr>su_unseen := False, su_status := report_stopped now (su_desired v) (su_status v)\<rparr>"

definition NO_IDENTITY :: string where
  "NO_IDENTITY = ''verified remote cleanup requires a persistent manager identity; start the engine with a CleanupContext''"

definition announce_running :: "u64 \<Rightarrow> runtime_state \<Rightarrow> string option \<Rightarrow> u64 option \<Rightarrow> supervisor \<Rightarrow> supervisor" where
  "announce_running now st err at v =
     v\<lparr>su_status := set_running now (su_desired v) st err (su_failures v) at (su_status v)\<rparr>"

definition top :: "u64 \<Rightarrow> supervisor \<Rightarrow> supervisor" where
  "top now v =
     (let v = look now v in
      if su_cancelled v then v\<lparr>su_point := Gone\<rparr>
      else if \<not> (\<exists>r \<in> set (su_desired v). running r) then v\<lparr>su_point := Idle\<rparr>
      else if su_cleanup v = None \<and>
        (\<exists>r \<in> set (su_desired v). running r \<and> fs_remote_cleanup (ru_spec r) = Verified)
      then (announce_running now NeedsAttention (Some NO_IDENTITY) None v)\<lparr>su_point := Unidentified\<rparr>
      else (announce_running now Starting None None v)\<lparr>su_point := Queued\<rparr>)"

definition new_session :: "string option \<Rightarrow> shared \<Rightarrow> session" where
  "new_session cleanup st = \<lparr>sc_disconnected = False, sc_closed = False, sc_cleanup = cleanup, sc_failures = [],
     sc_blocked = None, sc_routes = [], sc_listeners = [], sc_status = st\<rparr>"

definition attach :: "u64 \<Rightarrow> supervisor \<Rightarrow> supervisor" where
  "attach now v = v\<lparr>su_point := Attached (new_link
       (new_session (su_cleanup v) (emit_server now (su_profile v) ''SSH connection established'' (su_status v)))
       (su_desired v) (su_cancelled v))\<rparr>"

definition after_failure ::
    "retry_policy \<Rightarrow> (u64 \<Rightarrow> u64 \<Rightarrow> u64) \<Rightarrow> u64 \<Rightarrow> session_failure \<Rightarrow> supervisor \<Rightarrow> supervisor" where
  "after_failure policy rng now f v =
     (let v = look now v in
      if \<not> (\<exists>r \<in> set (su_desired v). running r) then v\<lparr>su_point := Top\<rparr>
      else if sf_needs_attention f
      then (announce_running now NeedsAttention (Some (sf_message f)) None v)\<lparr>su_point := Blocked\<rparr>
      else
        let v = v\<lparr>su_failures := saturating_add (su_failures v) 1\<rparr>;
            at = now + delay rng (su_failures v) (max_delay_secs policy)
        in (announce_running now Backoff (Some (sf_message f)) (Some at) v)\<lparr>su_point := Sleeping at\<rparr>)"

text \<open>\<open>lasted\<close>: the connection has lasted \<open>stable_reset_secs\<close>.\<close>

definition detach ::
    "retry_policy \<Rightarrow> (u64 \<Rightarrow> u64 \<Rightarrow> u64) \<Rightarrow> u64 \<Rightarrow> bool \<Rightarrow> link \<Rightarrow> session_failure option \<Rightarrow> supervisor \<Rightarrow> supervisor" where
  "detach policy rng now lasted l ending v =
     (let v = v\<lparr>su_status := sc_status (lk_session l)\<rparr> in
      if su_cancelled v then v\<lparr>su_point := Gone\<rparr>
      else
        let v = (if lasted then v\<lparr>su_failures := 0\<rparr> else v) in
        case ending of
          Some f \<Rightarrow> after_failure policy rng now f v
        | None \<Rightarrow> v\<lparr>su_failures := 0, su_point := Top\<rparr>)"

section \<open>Steps\<close>

abbreviation waiting :: "supervisor_point \<Rightarrow> bool" where
  "waiting p \<equiv> p \<in> {Idle, Unidentified, Blocked} \<or> (\<exists>at. p = Sleeping at)"

abbreviation seeking :: "supervisor_point \<Rightarrow> bool" where
  "seeking p \<equiv> p \<in> {Queued, Connecting}"

inductive supervisor_step :: "retry_policy \<Rightarrow> supervisor \<Rightarrow> supervisor \<Rightarrow> bool" for policy where
  turned: "su_point v = Top \<Longrightarrow> supervisor_step policy v (top now v)"
| wait_cancelled: "waiting (su_point v) \<Longrightarrow> su_cancelled v \<Longrightarrow> supervisor_step policy v (v\<lparr>su_point := Gone\<rparr>)"
| wait_changed:
    "waiting (su_point v) \<Longrightarrow> su_unseen v \<Longrightarrow> supervisor_step policy v (v\<lparr>su_unseen := False, su_point := Top\<rparr>)"
| wait_dropped:
    "waiting (su_point v) \<Longrightarrow> \<not> su_unseen v \<Longrightarrow> su_dropped v \<Longrightarrow> supervisor_step policy v (v\<lparr>su_point := Gone\<rparr>)"
| slept: "su_point v = Sleeping at \<Longrightarrow> at \<le> now \<Longrightarrow> supervisor_step policy v (v\<lparr>su_point := Top\<rparr>)"
| seek_cancelled: "seeking (su_point v) \<Longrightarrow> su_cancelled v \<Longrightarrow> supervisor_step policy v (v\<lparr>su_point := Gone\<rparr>)"
| seek_changed:
    "seeking (su_point v) \<Longrightarrow> \<not> su_cancelled v \<Longrightarrow> su_unseen v \<Longrightarrow>
     supervisor_step policy v (v\<lparr>su_unseen := False, su_point := Top\<rparr>)"
| seek_dropped:
    "seeking (su_point v) \<Longrightarrow> \<not> su_cancelled v \<Longrightarrow> \<not> su_unseen v \<Longrightarrow> su_dropped v \<Longrightarrow>
     supervisor_step policy v (v\<lparr>su_point := Gone\<rparr>)"
| admitted:
    "su_point v = Queued \<Longrightarrow> \<not> su_cancelled v \<Longrightarrow> \<not> su_unseen v \<Longrightarrow> \<not> su_dropped v \<Longrightarrow>
     supervisor_step policy v (v\<lparr>su_point := Connecting\<rparr>)"
| not_admitted:
    "su_point v = Queued \<Longrightarrow> \<not> su_cancelled v \<Longrightarrow> \<not> su_unseen v \<Longrightarrow> \<not> su_dropped v \<Longrightarrow>
     supervisor_step policy v (v\<lparr>su_point := Gone\<rparr>)"
| attached:
    "su_point v = Connecting \<Longrightarrow> \<not> su_cancelled v \<Longrightarrow> \<not> su_unseen v \<Longrightarrow> \<not> su_dropped v \<Longrightarrow>
     supervisor_step policy v (attach now v)"
| not_attached:
    "su_point v = Connecting \<Longrightarrow> \<not> su_cancelled v \<Longrightarrow> \<not> su_unseen v \<Longrightarrow> \<not> su_dropped v \<Longrightarrow>
     supervisor_step policy v (after_failure policy rng now f v)"
| served:
    "su_point v = Attached l \<Longrightarrow> link_step policy l m \<Longrightarrow> lk_desired m = lk_desired l \<Longrightarrow> lk_cancelled m = lk_cancelled l \<Longrightarrow>
     supervisor_step policy v (v\<lparr>su_point := Attached m\<rparr>)"
| detached:
    "su_point v = Attached l \<Longrightarrow> lk_phase l = Left r \<Longrightarrow>
     supervisor_step policy v (detach policy rng now lasted l r v)"

text \<open>What the engine does: another list of rules, the end of the group, and its own end.\<close>

definition wish :: "rule list \<Rightarrow> supervisor \<Rightarrow> supervisor" where
  "wish rules v = v\<lparr>su_desired := rules, su_unseen := True,
     su_point := (case su_point v of Attached l \<Rightarrow> Attached (l\<lparr>lk_desired := rules\<rparr>) | p \<Rightarrow> p)\<rparr>"

definition withdraw :: "supervisor \<Rightarrow> supervisor" where
  "withdraw v = v\<lparr>su_cancelled := True,
     su_point := (case su_point v of Attached l \<Rightarrow> Attached (cancel_link l) | p \<Rightarrow> p)\<rparr>"

text \<open>
  Runs, with the number of attempts to connect and the number of lists sent on the way. The loop of
  a session looks at the channel as well, so that \<open>unseen\<close> says nothing while one is attached; when
  it ends, the value is looked at again before it matters.
\<close>

inductive supervised :: "retry_policy \<Rightarrow> nat \<Rightarrow> nat \<Rightarrow> supervisor \<Rightarrow> supervisor \<Rightarrow> bool" for policy where
  start: "supervised policy 0 0 v v"
| own: "supervised policy n k a b \<Longrightarrow> supervisor_step policy b c \<Longrightarrow>
    supervised policy (n + of_bool (su_point c = Connecting)) k a c"
| wished: "supervised policy n k a b \<Longrightarrow> supervised policy n (Suc k) a (wish rules b)"
| withdrawn: "supervised policy n k a b \<Longrightarrow> supervised policy n k a (withdraw b)"
| abandoned: "supervised policy n k a b \<Longrightarrow> supervised policy n k a (b\<lparr>su_dropped := True\<rparr>)"

section \<open>Lemmas\<close>

lemma look_fields [simp]:
  "su_point (look now v) = su_point v" "su_cancelled (look now v) = su_cancelled v"
  "su_desired (look now v) = su_desired v" "su_cleanup (look now v) = su_cleanup v"
  "su_unseen (look now v) = False" "su_failures (look now v) = su_failures v"
  by (simp_all add: look_def)

lemma announce_fields [simp]:
  "su_cancelled (announce_running now st err at v) = su_cancelled v"
  "su_desired (announce_running now st err at v) = su_desired v"
  "su_cleanup (announce_running now st err at v) = su_cleanup v"
  "su_unseen (announce_running now st err at v) = su_unseen v"
  by (simp_all add: announce_running_def)

text \<open>A rule worth a connection: one that runs, and an identity if a verified one does.\<close>

definition worthwhile :: "supervisor \<Rightarrow> bool" where
  "worthwhile v = ((\<exists>r \<in> set (su_desired v). running r) \<and>
     (\<forall>r \<in> set (su_desired v). running r \<and> fs_remote_cleanup (ru_spec r) = Verified \<longrightarrow> su_cleanup v \<noteq> None))"

definition supervisor_ok :: "retry_policy \<Rightarrow> supervisor \<Rightarrow> bool" where
  "supervisor_ok policy v =
     ((seeking (su_point v) \<and> \<not> su_unseen v \<longrightarrow> worthwhile v) \<and>
      (\<forall>l. su_point v = Attached l \<longrightarrow> linked policy l \<and> lk_desired l = su_desired v \<and> lk_cancelled l = su_cancelled v))"

lemma top_ok: "supervisor_ok policy (top now v)"
  by (auto simp: top_def Let_def supervisor_ok_def worthwhile_def)

lemma failure_ok: "supervisor_ok policy (after_failure policy rng now f v)"
  by (auto simp: after_failure_def Let_def supervisor_ok_def)

lemma supervisor_step_ok:
  assumes "supervisor_step policy a b" and "supervisor_ok policy a"
  shows "supervisor_ok policy b"
  using assms
proof (induction rule: supervisor_step.induct)
  case (attached v now)
  have "linked policy (new_link (new_session c st) rules x)" for c st rules x
    by (rule linked.opened) (simp_all add: new_session_def)
  then show ?case by (auto simp: attach_def supervisor_ok_def new_link_def)
next
  case (served v l m)
  then show ?case by (auto simp: supervisor_ok_def intro: linked.moved)
next
  case (detached v l r rng now lasted)
  then show ?case using failure_ok by (auto simp: detach_def Let_def supervisor_ok_def split: option.splits)
qed (auto simp: top_ok failure_ok, auto simp: supervisor_ok_def worthwhile_def)

lemma wish_ok: "supervisor_ok policy v \<Longrightarrow> supervisor_ok policy (wish rules v)"
  by (auto simp: wish_def supervisor_ok_def intro: linked.moved link_step.wished split: supervisor_point.splits)

lemma withdraw_ok: "supervisor_ok policy v \<Longrightarrow> supervisor_ok policy (withdraw v)"
proof -
  have "lk_cancelled (cancel_link l)" "lk_desired (cancel_link l) = lk_desired l" for l
    by (simp_all add: cancel_link_def split: prod.splits)
  then show "supervisor_ok policy v \<Longrightarrow> supervisor_ok policy (withdraw v)"
    by (auto simp: withdraw_def supervisor_ok_def worthwhile_def intro: linked.moved link_step.withdrawn
        split: supervisor_point.splits)
qed

lemma dropped_ok: "supervisor_ok policy v \<Longrightarrow> supervisor_ok policy (v\<lparr>su_dropped := True\<rparr>)"
  unfolding supervisor_ok_def worthwhile_def by simp

lemma supervised_ok: "supervised policy n k a b \<Longrightarrow> supervisor_ok policy a \<Longrightarrow> supervisor_ok policy b"
proof (induction rule: supervised.induct)
  case (abandoned n k a b)
  then show ?case by (blast intro: dropped_ok)
qed (blast intro: supervisor_step_ok wish_ok withdraw_ok)+

text \<open>Once cancelled, a supervisor moves towards its end without connecting again.\<close>

lemma point_cases [simp]:
  "su_point (after_failure policy rng now f v) \<noteq> Connecting" "su_point (top now v) \<noteq> Connecting"
  "su_point (detach policy rng now lasted l r v) \<noteq> Connecting" "su_point (attach now v) \<noteq> Connecting"
  by (auto simp: after_failure_def top_def detach_def attach_def Let_def split: option.splits)

lemma step_cancelled:
  "supervisor_step policy a b \<Longrightarrow> su_cancelled b = su_cancelled a"
  by (induction rule: supervisor_step.induct)
    (auto simp: after_failure_def top_def detach_def attach_def Let_def look_def announce_running_def split: option.splits)

lemma step_attempt:
  "supervisor_step policy a b \<Longrightarrow> su_point b = Connecting \<Longrightarrow> su_point a = Queued \<and> \<not> su_cancelled a"
  by (induction rule: supervisor_step.induct) auto

lemma cancelled_attempts: "supervised policy n k a b \<Longrightarrow> su_cancelled a \<Longrightarrow> n = 0 \<and> su_cancelled b"
proof (induction rule: supervised.induct)
  case (own n k a b c)
  then show ?case using step_attempt [of policy b c] step_cancelled [of policy b c] by auto
qed (simp_all add: wish_def withdraw_def)

text \<open>Without news, a supervisor waiting for the user stays where it is.\<close>

lemma blocked_step:
  "supervisor_step policy a b \<Longrightarrow> su_point a \<in> {Blocked, Gone} \<Longrightarrow> \<not> su_unseen a \<Longrightarrow> su_point b \<in> {Blocked, Gone} \<and> \<not> su_unseen b"
  by (induction rule: supervisor_step.induct) auto

lemma blocked_attempts:
  "supervised policy n k a b \<Longrightarrow> k = 0 \<Longrightarrow> su_point a = Blocked \<Longrightarrow> \<not> su_unseen a \<Longrightarrow>
     n = 0 \<and> su_point b \<in> {Blocked, Gone} \<and> \<not> su_unseen b"
proof (induction rule: supervised.induct)
  case (own n k a b c)
  then show ?case using blocked_step [of policy b c] step_attempt [of policy b c] by auto
next
  case (withdrawn n k a b)
  then show ?case by (auto simp: withdraw_def)
qed auto

text \<open>
  A supervisor connects only while some rule wants to run, and a verified one only
  with an identity to claim under; never once it has been cancelled; and after a failure that needs
  attention never again until the rules change.
\<close>

theorem connects_with_cause:
  assumes "supervised policy m j (new_supervisor p cleanup rules st) a" and "supervised policy n k a b"
  shows "(su_cancelled a \<longrightarrow> n = 0) \<and>
    (su_point a = Blocked \<and> \<not> su_unseen a \<and> k = 0 \<longrightarrow> n = 0 \<and> su_point b \<in> {Blocked, Gone}) \<and>
    (su_point a = Connecting \<and> \<not> su_unseen a \<longrightarrow> (\<exists>r \<in> set (su_desired a). running r) \<and>
       (\<forall>r \<in> set (su_desired a). running r \<and> fs_remote_cleanup (ru_spec r) = Verified \<longrightarrow> su_cleanup a \<noteq> None))"
proof -
  have "supervisor_ok policy (new_supervisor p cleanup rules st)"
    by (simp add: supervisor_ok_def new_supervisor_def)
  from supervised_ok [OF assms(1) this] have "seeking (su_point a) \<and> \<not> su_unseen a \<longrightarrow> worthwhile a"
    by (simp add: supervisor_ok_def)
  then show ?thesis
    using cancelled_attempts [OF assms(2)] blocked_attempts [OF assms(2)] by (auto simp: worthwhile_def)
qed

text \<open>Every session that a supervisor serves is one that the loop of \<open>Session\<close> can reach.\<close>

lemma supervised_linked:
  assumes "supervised policy n k (new_supervisor p cleanup rules st) a" and "su_point a = Attached l"
  shows "linked policy l \<and> lk_desired l = su_desired a \<and> lk_cancelled l = su_cancelled a"
proof -
  have "supervisor_ok policy (new_supervisor p cleanup rules st)"
    by (simp add: supervisor_ok_def new_supervisor_def)
  from supervised_ok [OF assms(1) this] assms(2) show ?thesis by (simp add: supervisor_ok_def)
qed

definition first_supervisor :: supervisor where
  "first_supervisor = new_supervisor sample_server_a (Some ''me'') [sample_rule] no_status"

lemma first_connecting:
  "supervised sample_policy 1 0 first_supervisor ((top 0 first_supervisor)\<lparr>su_point := Connecting\<rparr>)"
proof -
  let ?t = "top 0 first_supervisor"
  have t: "su_point ?t = Queued" "\<not> su_cancelled ?t" "\<not> su_unseen ?t" "\<not> su_dropped ?t"
    by (simp_all add: top_def first_supervisor_def new_supervisor_def look_def announce_running_def sample_rule_def sample_remote_def)
  have "supervisor_step sample_policy first_supervisor ?t"
    by (rule supervisor_step.turned) (simp add: first_supervisor_def new_supervisor_def)
  from supervised.own [OF supervised.start this] t have "supervised sample_policy 0 0 first_supervisor ?t" by simp
  from supervised.own [OF this supervisor_step.admitted [OF t]] show ?thesis by simp
qed

theorem connects_with_cause_witness:
  "\<exists>r \<in> set (su_desired ((top 0 first_supervisor)\<lparr>su_point := Connecting\<rparr>)). running r"
proof -
  let ?a = "(top 0 first_supervisor)\<lparr>su_point := Connecting\<rparr>"
  have a: "supervised sample_policy 1 0 (new_supervisor sample_server_a (Some ''me'') [sample_rule] no_status) ?a"
    using first_connecting by (simp add: first_supervisor_def)
  have "\<not> su_unseen ?a"
    by (simp add: top_def first_supervisor_def new_supervisor_def look_def announce_running_def sample_rule_def sample_remote_def)
  with connects_with_cause [OF a supervised.start] show ?thesis by simp
qed

end
