(* ===== verification/Relay.thy ===== *)
theory Relay
  imports Forward
begin

text \<open>
  The bridge of a relay rule, \<open>crates/fwm-core/src/engine/relay.rs\<close>: two SSH connections of its
  own, a listener on the source server, and a channel on the target server for every connection to
  it. \<open>established\<close> is a machine with a constructor of \<open>relay_point\<close> for each of its awaits; what
  lies between two of them is a function. The routes of a source connection have one entry at most,
  the rule's own. A closed transport answers every request with an error, as the SSH library does.
\<close>

section \<open>State\<close>

datatype relay_outcome = DesiredChanged | Retrying_on string | Attention_for string

record relay_route =
  rr_rule :: rule
  rr_target :: endpoint
  rr_cancelled :: bool
  rr_active :: nat
  rr_timeout :: u64

text \<open>
  What follows the release of a lease: an outcome whether it succeeds or not, or only if it
  succeeds; and the flag whether both transports are closed first.
\<close>

datatype ending = Then bool relay_outcome | Unless relay_outcome

datatype relay_point =
    Starting_up | Claiming_lease | Opening_source bool bool | Waiting_to_retry | Confirming_lease | Bridging
  | Cancelling_source bool relay_outcome bool bool | Pausing_cancel bool relay_outcome | Releasing_lease ending
  | Returned relay_outcome

record bridge =
  br_rule :: rule
  br_target :: endpoint
  br_cleanup :: "string option"
  br_desired :: rule
  br_unseen :: bool
  br_dropped :: bool
  br_cancelled :: bool
  br_source_closed :: bool
  br_target_closed :: bool
  br_gone :: bool
  br_listening :: bool
  br_route :: "relay_route option"
  br_lease :: "lease option"
  br_confirmed :: bool
  br_failures :: u32
  br_answer :: "(string + unit) option"
  br_status :: shared
  br_point :: relay_point

definition new_bridge :: "rule \<Rightarrow> endpoint \<Rightarrow> string option \<Rightarrow> bool \<Rightarrow> shared \<Rightarrow> bridge" where
  "new_bridge r t cleanup c st = \<lparr>br_rule = r, br_target = t, br_cleanup = cleanup, br_desired = r, br_unseen = False,
     br_dropped = False, br_cancelled = c, br_source_closed = False, br_target_closed = False, br_gone = False,
     br_listening = False, br_route = None, br_lease = None, br_confirmed = False, br_failures = 0,
     br_answer = None, br_status = st, br_point = Starting_up\<rparr>"

abbreviation owned :: "bridge \<Rightarrow> bool" where
  "owned b \<equiv> fs_remote_cleanup (ru_spec (br_rule b)) = Verified"

abbreviation source_listen :: "bridge \<Rightarrow> socket_addr" where
  "source_listen b \<equiv> rule_listen (br_rule b)"

section \<open>Between the awaits\<close>

definition go :: "relay_point \<Rightarrow> bridge \<Rightarrow> bridge" where
  "go p b = b\<lparr>br_point := p\<rparr>"

definition notify :: "u64 \<Rightarrow> runtime_state \<Rightarrow> string option \<Rightarrow> u32 \<Rightarrow> u64 option \<Rightarrow> bridge \<Rightarrow> bridge" where
  "notify now st err n at b = b\<lparr>br_status := update now (br_rule b) st err n at (br_status b)\<rparr>"

definition mention :: "u64 \<Rightarrow> string \<Rightarrow> bridge \<Rightarrow> bridge" where
  "mention now msg b = b\<lparr>br_status := emit now (br_rule b) msg (br_status b)\<rparr>"

definition rule_changed :: "rule \<Rightarrow> rule \<Rightarrow> bool" where
  "rule_changed current latest = (ru_generation latest \<noteq> ru_generation current \<or> ru_spec latest \<noteq> ru_spec current)"

definition transport_lost :: "string \<Rightarrow> relay_outcome" where
  "transport_lost side = Retrying_on (side @ '' SSH transport closed'')"

definition cleanup_outcome :: "cleanup_error \<Rightarrow> relay_outcome" where
  "cleanup_outcome e = (if needs_attention e then Attention_for (cleanup_text e)
     else Retrying_on (''remote cleanup interrupted: '' @ cleanup_text e))"

definition drop_route :: "bridge \<Rightarrow> bridge" where
  "drop_route b = (case br_route b of
       Some r \<Rightarrow> if ru_generation (rr_rule r) = ru_generation (br_rule b) then b\<lparr>br_route := None\<rparr> else b
     | None \<Rightarrow> b)"

text \<open>\<open>traffic_teardown\<close> also cancels the connections of the route, which goes with it.\<close>

definition release_then :: "ending \<Rightarrow> bridge \<Rightarrow> bridge" where
  "release_then k b = (case br_lease b of
       Some le \<Rightarrow> go (Releasing_lease k) b
     | None \<Rightarrow> (case k of
           Then closing r \<Rightarrow> go (Returned r) (if closing then b\<lparr>br_source_closed := True, br_target_closed := True\<rparr> else b)
         | Unless r \<Rightarrow> go (Returned r) b))"

definition step_down :: "bridge \<Rightarrow> bridge" where
  "step_down b = release_then (Unless DesiredChanged) (drop_route b)"

definition source_lost :: "bridge \<Rightarrow> bridge" where
  "source_lost b = go (Returned (transport_lost ''source'')) (drop_route (b\<lparr>br_gone := True\<rparr>))"

definition target_lost :: "bridge \<Rightarrow> bridge" where
  "target_lost b = go (Returned (transport_lost ''target'')) (drop_route b)"

definition opening_turn :: "bridge \<Rightarrow> bridge" where
  "opening_turn b =
     (if br_cancelled b then step_down b
      else if br_source_closed b then source_lost b
      else if br_target_closed b then target_lost b
      else go (Opening_source False False) b)"

definition start_relay :: "bridge \<Rightarrow> bridge" where
  "start_relay b =
     (if owned b then
        (if br_cleanup b = None
         then go (Returned (Attention_for ''verified remote cleanup has no persistent manager identity'')) b
         else go Claiming_lease b)
      else opening_turn b)"

definition lease_claimed :: "u64 \<Rightarrow> lease \<Rightarrow> bridge \<Rightarrow> bridge" where
  "lease_claimed now le b =
     opening_turn ((if le_reclaimed le
       then mention now (''verified recovery: reclaimed previous SSH session for relay listener '' @
              show_socket_addr (source_listen b)) b else b)\<lparr>br_lease := Some le\<rparr>)"

definition source_refused ::
    "retry_policy \<Rightarrow> (u64 \<Rightarrow> u64 \<Rightarrow> u64) \<Rightarrow> u64 \<Rightarrow> string \<Rightarrow> bridge \<Rightarrow> bridge" where
  "source_refused policy rng now err b =
     (let n = saturating_add (br_failures b) 1; b = b\<lparr>br_failures := n, br_answer := None\<rparr>;
          msg = ''source listener '' @ show_socket_addr (source_listen b) @
                '' refused (port in use or forwarding prohibited): '' @ err
      in if br_lease b \<noteq> None \<and> VERIFIED_LISTEN_ATTEMPTS \<le> n
         then release_then (Unless (Attention_for msg)) (drop_route b)
         else go Waiting_to_retry
           (notify now Backoff (Some msg) n (Some (now + delay rng n (max_delay_secs policy))) b))"

definition bridge_up :: "retry_policy \<Rightarrow> u64 \<Rightarrow> bridge \<Rightarrow> bridge" where
  "bridge_up policy now b = go Bridging (notify now Established None 0 None
     (b\<lparr>br_route := Some \<lparr>rr_rule = br_rule b, rr_target = br_target b, rr_cancelled = False, rr_active = 0,
        rr_timeout = connect_timeout_secs policy\<rparr>\<rparr>))"

definition source_opened :: "retry_policy \<Rightarrow> u64 \<Rightarrow> bridge \<Rightarrow> bridge" where
  "source_opened policy now b =
     (let b = b\<lparr>br_answer := None\<rparr> in if owned b then go Confirming_lease b else bridge_up policy now b)"

text \<open>
  After the confirmation: cancellation first, then the transport, then the answer. \<open>None\<close> is a
  confirmation that cancellation has cut short; its lease is dropped.
\<close>

definition lease_confirmed :: "retry_policy \<Rightarrow> u64 \<Rightarrow> (cleanup_error + unit) option \<Rightarrow> bridge \<Rightarrow> bridge" where
  "lease_confirmed policy now answer b =
     (if br_cancelled b then go (Returned DesiredChanged) ((drop_route b)\<lparr>br_lease := None\<rparr>)
      else if br_source_closed b then go (Returned (transport_lost ''source'')) (drop_route b)
      else case answer of
        Some (Inl e) \<Rightarrow> go (Cancelling_source False (cleanup_outcome e) False False) (drop_route b)
      | _ \<Rightarrow> bridge_up policy now (b\<lparr>br_confirmed := True\<rparr>))"

definition close_both :: "bridge \<Rightarrow> bridge" where
  "close_both b = b\<lparr>br_source_closed := True, br_target_closed := True\<rparr>"

definition bridge_down :: "u64 \<Rightarrow> relay_outcome \<Rightarrow> bridge \<Rightarrow> bridge" where
  "bridge_down now r b =
     (let b = drop_route b in
      if br_source_closed b then go (Returned r) (close_both b)
      else go (Cancelling_source True r False False) (notify now Stopping None 0 None b))"

definition not_cancelled :: "bool \<Rightarrow> relay_outcome \<Rightarrow> bridge \<Rightarrow> bridge" where
  "not_cancelled closing r b = go (Returned r) (if closing then close_both b else b)"

definition cancel_refused :: "u64 \<Rightarrow> bool \<Rightarrow> relay_outcome \<Rightarrow> string \<Rightarrow> bridge \<Rightarrow> bridge" where
  "cancel_refused now closing r err b =
     go (Pausing_cancel closing r) (notify now Stopping (Some (''source listener cancellation not confirmed: '' @ err)) 0 None
       (b\<lparr>br_answer := None\<rparr>))"

definition lease_released :: "ending \<Rightarrow> bridge \<Rightarrow> bridge" where
  "lease_released k b =
     (let b = b\<lparr>br_lease := map_option (\<lambda>le. le\<lparr>le_released := True\<rparr>) (br_lease b)\<rparr> in
      case k of
        Then closing r \<Rightarrow> go (Returned r) (if closing then close_both b else b)
      | Unless r \<Rightarrow> go (Returned r) b)"

definition lease_not_released :: "ending \<Rightarrow> cleanup_error \<Rightarrow> bridge \<Rightarrow> bridge" where
  "lease_not_released k e b = (case k of
       Then closing r \<Rightarrow> go (Returned r) (if closing then close_both b else b)
     | Unless r \<Rightarrow> go (Returned (cleanup_outcome e)) b)"

text \<open>\<open>protocol_request\<close>: a cancellation is reported once, and so is a late answer.\<close>

definition OPENING_SOURCE :: string where
  "OPENING_SOURCE = ''opening source listener''"

definition CANCELLING_SOURCE :: string where
  "CANCELLING_SOURCE = ''cancelling source listener''"

definition mind_cancel :: "u64 \<Rightarrow> string \<Rightarrow> bridge \<Rightarrow> bridge" where
  "mind_cancel now operation = notify now Stopping (Some (''waiting for protocol result: '' @ operation)) 0 None"

definition mind_timeout :: "u64 \<Rightarrow> bool \<Rightarrow> string \<Rightarrow> bridge \<Rightarrow> bridge" where
  "mind_timeout now seen operation = notify now (if seen then Stopping else Unverified)
     (Some (''protocol response timed out: '' @ operation @ ''; retaining ownership until confirmed'')) 0 None"

section \<open>Connections to the source listener\<close>

text \<open>\<open>SourceHandler\<close>: its routes have one key, that of the rule.\<close>

datatype relay_reply = Refuse | Busy | Accept relay_route

definition source_route :: "string \<Rightarrow> u32 \<Rightarrow> bridge \<Rightarrow> relay_route option" where
  "source_route address port b = (case br_route b of
       None \<Rightarrow> None
     | Some r \<Rightarrow>
         let (registered, registered_port) = listen_key (source_listen b) in
         if registered = address \<and> registered_port = port then Some r
         else case canonical_ip address of
             None \<Rightarrow> None
           | Some ip \<Rightarrow> if registered_port = port \<and> canonical_ip registered = Some ip then Some r else None)"

definition source_accepts :: "string \<Rightarrow> u32 \<Rightarrow> bridge \<Rightarrow> relay_reply \<times> bridge" where
  "source_accepts address port b = (case source_route address port b of
       None \<Rightarrow> (Refuse, b)
     | Some r \<Rightarrow>
         if rr_cancelled r then (Refuse, b)
         else if MAX_CONNECTIONS \<le> rr_active r then (Busy, b)
         else (Accept r, b\<lparr>br_route := Some (r\<lparr>rr_active := rr_active r + 1\<rparr>)\<rparr>))"

text \<open>The address handed on to the target server; it is never used for anything else.\<close>

definition originator :: "string \<Rightarrow> u32 \<Rightarrow> ip_addr \<times> u16" where
  "originator address port = (case parse_ip address of
       Some ip \<Rightarrow> (ip, if port < 65536 then ucast port else 0)
     | None \<Rightarrow> (V4 (Ipv4 127 0 0 1), 0))"

section \<open>Steps\<close>

text \<open>News from the watch channel: another rule, or the end of the channel.\<close>

definition news :: "bridge \<Rightarrow> bool" where
  "news b = (br_dropped b \<and> \<not> br_unseen b \<or> br_unseen b \<and> rule_changed (br_rule b) (br_desired b))"

inductive relay_step :: "retry_policy \<Rightarrow> bridge \<Rightarrow> bridge \<Rightarrow> bool" for policy where
  started: "br_point b = Starting_up \<Longrightarrow> relay_step policy b (start_relay b)"
| claim_cancelled:
    "br_point b = Claiming_lease \<Longrightarrow> br_cancelled b \<Longrightarrow> relay_step policy b (go (Returned DesiredChanged) b)"
| claim_ok:
    "br_point b = Claiming_lease \<Longrightarrow> \<not> br_cancelled b \<Longrightarrow> \<not> le_released le \<Longrightarrow> relay_step policy b (lease_claimed now le b)"
| claim_error:
    "br_point b = Claiming_lease \<Longrightarrow> \<not> br_cancelled b \<Longrightarrow> relay_step policy b (go (Returned (cleanup_outcome e)) b)"
| open_gone:
    "br_point b = Opening_source t c \<Longrightarrow> br_gone b \<Longrightarrow>
     relay_step policy b (go (Returned (transport_lost ''source'')) (drop_route (b\<lparr>br_answer := None\<rparr>)))"
| open_ok:
    "br_point b = Opening_source t c \<Longrightarrow> \<not> br_gone b \<Longrightarrow> br_answer b = Some (Inr ()) \<Longrightarrow>
     relay_step policy b (source_opened policy now b)"
| open_error:
    "br_point b = Opening_source t c \<Longrightarrow> \<not> br_gone b \<Longrightarrow> br_answer b = Some (Inl err) \<Longrightarrow>
     relay_step policy b (source_refused policy rng now err b)"
| open_cancelled:
    "br_point b = Opening_source t False \<Longrightarrow> \<not> br_gone b \<Longrightarrow> br_answer b = None \<Longrightarrow> br_cancelled b \<Longrightarrow>
     relay_step policy b (go (Opening_source t True) (mind_cancel now OPENING_SOURCE b))"
| open_late:
    "br_point b = Opening_source False c \<Longrightarrow> \<not> br_gone b \<Longrightarrow> br_answer b = None \<Longrightarrow> br_cancelled b \<longrightarrow> c \<Longrightarrow>
     relay_step policy b (go (Opening_source True c) (mind_timeout now c OPENING_SOURCE b))"
| retry_cancelled: "br_point b = Waiting_to_retry \<Longrightarrow> br_cancelled b \<Longrightarrow> relay_step policy b (step_down b)"
| retry_changed:
    "br_point b = Waiting_to_retry \<Longrightarrow> \<not> br_cancelled b \<Longrightarrow> news b \<Longrightarrow> relay_step policy b (step_down (b\<lparr>br_unseen := False\<rparr>))"
| retry_source_lost:
    "br_point b = Waiting_to_retry \<Longrightarrow> \<not> br_cancelled b \<Longrightarrow> br_source_closed b \<Longrightarrow> relay_step policy b (source_lost b)"
| retry_target_lost:
    "br_point b = Waiting_to_retry \<Longrightarrow> \<not> br_cancelled b \<Longrightarrow> \<not> br_source_closed b \<Longrightarrow> br_target_closed b \<Longrightarrow>
     relay_step policy b (target_lost b)"
| retry_due: "br_point b = Waiting_to_retry \<Longrightarrow> \<not> br_cancelled b \<Longrightarrow> relay_step policy b (opening_turn b)"
| confirm_done:
    "br_point b = Confirming_lease \<Longrightarrow> answer = None \<longrightarrow> br_cancelled b \<Longrightarrow>
     relay_step policy b (lease_confirmed policy now answer b)"
| bridge_cancelled: "br_point b = Bridging \<Longrightarrow> br_cancelled b \<Longrightarrow> relay_step policy b (bridge_down now DesiredChanged b)"
| bridge_source_lost:
    "br_point b = Bridging \<Longrightarrow> \<not> br_cancelled b \<Longrightarrow> br_source_closed b \<Longrightarrow>
     relay_step policy b (bridge_down now (transport_lost ''source'') (b\<lparr>br_gone := True\<rparr>))"
| bridge_target_lost:
    "br_point b = Bridging \<Longrightarrow> \<not> br_cancelled b \<Longrightarrow> \<not> br_source_closed b \<Longrightarrow> br_target_closed b \<Longrightarrow>
     relay_step policy b (bridge_down now (transport_lost ''target'') b)"
| bridge_changed:
    "br_point b = Bridging \<Longrightarrow> \<not> br_cancelled b \<Longrightarrow> news b \<Longrightarrow>
     relay_step policy b (bridge_down now DesiredChanged (b\<lparr>br_unseen := False\<rparr>))"
| unchanged:
    "br_point b \<in> {Waiting_to_retry, Bridging} \<Longrightarrow> \<not> br_cancelled b \<Longrightarrow> br_unseen b \<Longrightarrow>
     \<not> rule_changed (br_rule b) (br_desired b) \<Longrightarrow> relay_step policy b (b\<lparr>br_unseen := False\<rparr>)"
| lease_closed:
    "br_point b = Bridging \<Longrightarrow> \<not> br_cancelled b \<Longrightarrow> br_lease b \<noteq> None \<Longrightarrow>
     msg = ''remote cleanup interrupted: '' @ cleanup_text e \<Longrightarrow>
     relay_step policy b (bridge_down now (Retrying_on msg) (mention now (''relay '' @ msg) b))"
| cancel_gone:
    "br_point b = Cancelling_source closing r t c \<Longrightarrow> br_gone b \<Longrightarrow>
     relay_step policy b (not_cancelled closing r (b\<lparr>br_answer := None\<rparr>))"
| cancel_ok:
    "br_point b = Cancelling_source closing r t c \<Longrightarrow> \<not> br_gone b \<Longrightarrow> br_answer b = Some (Inr ()) \<Longrightarrow>
     relay_step policy b (release_then (Then closing r) (b\<lparr>br_answer := None\<rparr>))"
| cancel_error:
    "br_point b = Cancelling_source closing r t c \<Longrightarrow> \<not> br_gone b \<Longrightarrow> br_answer b = Some (Inl err) \<Longrightarrow>
     relay_step policy b (cancel_refused now closing r err b)"
| cancel_cancelled:
    "br_point b = Cancelling_source closing r t False \<Longrightarrow> \<not> br_gone b \<Longrightarrow> br_answer b = None \<Longrightarrow> br_cancelled b \<Longrightarrow>
     relay_step policy b (go (Cancelling_source closing r t True) (mind_cancel now CANCELLING_SOURCE b))"
| cancel_late:
    "br_point b = Cancelling_source closing r False c \<Longrightarrow> \<not> br_gone b \<Longrightarrow> br_answer b = None \<Longrightarrow> br_cancelled b \<longrightarrow> c \<Longrightarrow>
     relay_step policy b (go (Cancelling_source closing r True c) (mind_timeout now c CANCELLING_SOURCE b))"
| pause_gone: "br_point b = Pausing_cancel closing r \<Longrightarrow> br_gone b \<Longrightarrow> relay_step policy b (not_cancelled closing r b)"
| pause_over:
    "br_point b = Pausing_cancel closing r \<Longrightarrow> relay_step policy b (go (Cancelling_source closing r False False) b)"
| release_ok: "br_point b = Releasing_lease k \<Longrightarrow> relay_step policy b (lease_released k b)"
| release_error: "br_point b = Releasing_lease k \<Longrightarrow> relay_step policy b (lease_not_released k e b)"

text \<open>
  Around it: the source server answers; a transport closes, after which it answers only with
  errors and the server drops the listener when it likes; the engine cancels, sends another rule,
  or drops its end of the channel.
\<close>

inductive relay_around :: "bridge \<Rightarrow> bridge \<Rightarrow> bool" where
  opens:
    "br_point b = Opening_source t c \<Longrightarrow> br_answer b = None \<Longrightarrow> \<not> br_source_closed b \<Longrightarrow> \<not> br_listening b \<Longrightarrow>
     relay_around b (b\<lparr>br_listening := True, br_answer := Some (Inr ())\<rparr>)"
| refuses: "br_point b = Opening_source t c \<Longrightarrow> br_answer b = None \<Longrightarrow> relay_around b (b\<lparr>br_answer := Some (Inl err)\<rparr>)"
| closes:
    "br_point b = Cancelling_source closing r t c \<Longrightarrow> br_answer b = None \<Longrightarrow> \<not> br_source_closed b \<Longrightarrow>
     relay_around b (b\<lparr>br_listening := False, br_answer := Some (Inr ())\<rparr>)"
| keeps:
    "br_point b = Cancelling_source closing r t c \<Longrightarrow> br_answer b = None \<Longrightarrow> relay_around b (b\<lparr>br_answer := Some (Inl err)\<rparr>)"
| source_breaks: "relay_around b (b\<lparr>br_source_closed := True\<rparr>)"
| forgets: "br_source_closed b \<Longrightarrow> relay_around b (b\<lparr>br_listening := False\<rparr>)"
| target_breaks: "relay_around b (b\<lparr>br_target_closed := True\<rparr>)"
| forwarded: "relay_around b (snd (source_accepts address port b))"
| cancelled: "relay_around b (b\<lparr>br_cancelled := True\<rparr>)"
| wished: "relay_around b (b\<lparr>br_desired := r, br_unseen := True\<rparr>)"
| abandoned: "relay_around b (b\<lparr>br_dropped := True\<rparr>)"

inductive relayed :: "retry_policy \<Rightarrow> bridge \<Rightarrow> bool" for policy where
  fresh: "relayed policy (new_bridge r t cleanup c st)"
| own: "relayed policy a \<Longrightarrow> relay_step policy a b \<Longrightarrow> relayed policy b"
| around: "relayed policy a \<Longrightarrow> relay_around a b \<Longrightarrow> relayed policy b"

section \<open>The verdict on two connections\<close>

text \<open>
  \<open>connect_outcome\<close>: the error of a side, or else what its handler noted when it was disconnected.
\<close>

definition side_failure :: "string \<Rightarrow> string \<Rightarrow> session_failure option \<Rightarrow> session_failure option \<Rightarrow> (string \<times> bool) option" where
  "side_failure side name err noted =
     map_option (\<lambda>f. (side @ '' server '' @ name @ '': '' @ sf_message f, sf_needs_attention f))
       (case err of Some f \<Rightarrow> Some f | None \<Rightarrow> noted)"

definition connect_outcome ::
    "server_profile \<Rightarrow> server_profile \<Rightarrow> session_failure option \<Rightarrow> session_failure option \<Rightarrow>
       session_failure option \<Rightarrow> session_failure option \<Rightarrow> relay_outcome" where
  "connect_outcome src tgt source_noted source_error target_noted target_error =
     (let (msg, needs) = (case (side_failure ''source'' (sp_name src) source_error source_noted,
                                side_failure ''target'' (sp_name tgt) target_error target_noted) of
            (Some (a, x), Some (b, y)) \<Rightarrow> (a @ ''; '' @ b, x \<or> y)
          | (Some f, None) \<Rightarrow> f
          | (None, Some f) \<Rightarrow> f
          | (None, None) \<Rightarrow> (''relay connection to '' @ sp_name src @ '' and '' @ sp_name tgt @ '' failed'', False))
      in if needs then Attention_for msg else Retrying_on msg)"

end
