(* ===== verification/RelaySafety.thy ===== *)
theory RelaySafety
  imports Relay Engine
begin

text \<open>
  What the bridge of a relay rule guarantees: where its listener and its lease stand at every await,
  and what a connection to the listener can reach. And what it does not: the request that closes the
  listener is repeated for ever once the source connection is lost, and any edit takes the bridge
  down.
\<close>

section \<open>Invariant\<close>

fun listens_at :: "relay_point \<Rightarrow> bridge \<Rightarrow> bool" where
  "listens_at (Opening_source _ _) b = (br_listening b \<longleftrightarrow> br_answer b = Some (Inr ()))"
| "listens_at (Cancelling_source _ _ _ _) b = (br_listening b \<longleftrightarrow> br_answer b \<noteq> Some (Inr ()))"
| "listens_at Confirming_lease b = br_listening b"
| "listens_at Bridging b = br_listening b"
| "listens_at (Pausing_cancel _ _) b = br_listening b"
| "listens_at (Returned _) b = True"
| "listens_at _ b = (\<not> br_listening b)"

fun asking :: "relay_point \<Rightarrow> bool" where
  "asking (Opening_source _ _) = True"
| "asking (Cancelling_source _ _ _ _) = True"
| "asking _ = False"

definition has_lease :: "bridge \<Rightarrow> bool" where
  "has_lease b = (case br_lease b of None \<Rightarrow> False | Some le \<Rightarrow> \<not> le_released le)"

fun leased_at :: "relay_point \<Rightarrow> bridge \<Rightarrow> bool" where
  "leased_at Starting_up b = (br_lease b = None)"
| "leased_at Claiming_lease b = (br_lease b = None \<and> owned b)"
| "leased_at Bridging b = (has_lease b = owned b \<and> (owned b \<longrightarrow> br_confirmed b))"
| "leased_at (Returned _) b = True"
| "leased_at _ b = (has_lease b = owned b)"

definition relay_ok :: "bridge \<Rightarrow> bool" where
  "relay_ok b =
     ((\<not> br_source_closed b \<longrightarrow> listens_at (br_point b) b) \<and>
      (br_answer b \<noteq> None \<longrightarrow> asking (br_point b)) \<and>
      leased_at (br_point b) b \<and>
      (br_lease b \<noteq> None \<and> \<not> has_lease b \<longrightarrow> \<not> br_source_closed b \<longrightarrow> \<not> br_listening b) \<and>
      (br_lease b \<noteq> None \<longrightarrow> owned b) \<and>
      (\<forall>r. br_route b = Some r \<longrightarrow> br_point b = Bridging \<and> rr_rule r = br_rule b \<and> rr_target r = br_target b \<and>
         \<not> rr_cancelled r \<and> rr_active r \<le> MAX_CONNECTIONS))"

lemma go_simps [simp]:
  "br_point (go p b) = p" "br_rule (go p b) = br_rule b" "br_route (go p b) = br_route b"
  by (simp_all add: go_def)

text \<open>A bridge between requests, with no route; and one whose listener is not open.\<close>

definition calm :: "bridge \<Rightarrow> bool" where
  "calm b = (br_answer b = None \<and> br_route b = None \<and> (br_lease b \<noteq> None \<longrightarrow> owned b) \<and>
     (br_lease b \<noteq> None \<and> \<not> has_lease b \<longrightarrow> \<not> br_source_closed b \<longrightarrow> \<not> br_listening b))"

definition unheard :: "bridge \<Rightarrow> bool" where
  "unheard b = (\<not> br_source_closed b \<longrightarrow> \<not> br_listening b)"

lemmas calm_defs = calm_def unheard_def relay_ok_def has_lease_def

lemma drop_route_none [simp]: "br_route b = None \<Longrightarrow> drop_route b = b"
  by (simp add: drop_route_def)

lemma calm_point [simp]:
  "calm (b\<lparr>br_point := p\<rparr>) = calm b" "unheard (b\<lparr>br_point := p\<rparr>) = unheard b"
  "has_lease (b\<lparr>br_point := p\<rparr>) = has_lease b"
  "calm (b\<lparr>br_status := st\<rparr>) = calm b" "unheard (b\<lparr>br_status := st\<rparr>) = unheard b"
  "has_lease (b\<lparr>br_status := st\<rparr>) = has_lease b"
  "calm (b\<lparr>br_gone := g\<rparr>) = calm b" "calm (b\<lparr>br_unseen := g\<rparr>) = calm b" "calm (b\<lparr>br_failures := n\<rparr>) = calm b"
  "has_lease (b\<lparr>br_gone := g\<rparr>) = has_lease b" "has_lease (b\<lparr>br_unseen := g\<rparr>) = has_lease b"
  "has_lease (b\<lparr>br_failures := n\<rparr>) = has_lease b" "has_lease (b\<lparr>br_answer := a\<rparr>) = has_lease b"
  "unheard (b\<lparr>br_unseen := g\<rparr>) = unheard b" "unheard (b\<lparr>br_failures := n\<rparr>) = unheard b"
  "unheard (b\<lparr>br_answer := a\<rparr>) = unheard b"
  by (simp_all add: calm_def unheard_def has_lease_def)

lemma calm_route [simp]: "calm b \<Longrightarrow> br_route b = None"
  by (simp add: calm_def)

lemma returned_ok: "calm b \<Longrightarrow> relay_ok (go (Returned r) b)"
  by (auto simp: calm_defs go_def split: option.splits)

lemma closed_ok: "calm b \<Longrightarrow> relay_ok (go (Returned r) (close_both b))"
  by (auto simp: calm_defs go_def close_both_def split: option.splits)

lemma release_ok:
  assumes "calm b" "unheard b" "has_lease b = owned b"
  shows "relay_ok (release_then k b)"
proof (cases "br_lease b")
  case None
  with assms(1) show ?thesis
    by (cases k) (auto simp: release_then_def returned_ok closed_ok [unfolded close_both_def])
next
  case (Some le)
  with assms show ?thesis by (auto simp: release_then_def calm_defs go_def split: option.splits)
qed

lemma step_down_ok: "calm b \<Longrightarrow> unheard b \<Longrightarrow> has_lease b = owned b \<Longrightarrow> relay_ok (step_down b)"
  by (simp add: step_down_def release_ok)

lemma lost_ok: "calm b \<Longrightarrow> relay_ok (source_lost b)" "calm b \<Longrightarrow> relay_ok (target_lost b)"
  by (simp_all add: source_lost_def target_lost_def returned_ok)

lemma relay_opening_ok: "calm b \<Longrightarrow> unheard b \<Longrightarrow> has_lease b = owned b \<Longrightarrow> relay_ok (opening_turn b)"
  by (simp add: opening_turn_def step_down_ok lost_ok) (auto simp: calm_defs go_def split: option.splits)

lemma refused_ok:
  assumes "calm (b\<lparr>br_answer := None\<rparr>)" "unheard b" "has_lease b = owned b"
  shows "relay_ok (source_refused policy rng now err b)"
proof -
  define c where "c = b\<lparr>br_failures := saturating_add (br_failures b) 1, br_answer := None\<rparr>"
  have c: "calm c" "unheard c" "has_lease c = owned c" "br_lease c = br_lease b"
    using assms by (simp_all add: c_def calm_def unheard_def has_lease_def)
  have "relay_ok (go Waiting_to_retry (c\<lparr>br_status := st\<rparr>))" for st
    using c(1-3) by (simp add: relay_ok_def calm_def unheard_def go_def has_lease_def)
  moreover have "relay_ok (release_then k c)" for k using c by (simp add: release_ok)
  ultimately show ?thesis
    using c(1) by (simp add: source_refused_def Let_def notify_def flip: c_def)
qed

text \<open>With the listener open.\<close>

definition heard :: "bridge \<Rightarrow> bool" where
  "heard b = (br_answer b = None \<and> has_lease b = owned b \<and> (br_lease b \<noteq> None \<longrightarrow> owned b) \<and>
     (\<not> br_source_closed b \<longrightarrow> br_listening b))"

lemma up_ok: "heard b \<Longrightarrow> owned b \<longrightarrow> br_confirmed b \<Longrightarrow> relay_ok (bridge_up policy now b)"
  by (auto simp: bridge_up_def heard_def relay_ok_def has_lease_def go_def notify_def MAX_CONNECTIONS_def split: option.splits)

lemma relay_cancelling_ok: "heard b \<Longrightarrow> br_route b = None \<Longrightarrow> relay_ok (go (Cancelling_source closing r t c) b)"
  by (auto simp: heard_def relay_ok_def has_lease_def go_def split: option.splits)

lemma heard_frame [simp]:
  "heard (b\<lparr>br_status := st\<rparr>) = heard b" "heard (b\<lparr>br_gone := g\<rparr>) = heard b" "heard (b\<lparr>br_unseen := g\<rparr>) = heard b"
  "heard (b\<lparr>br_route := x\<rparr>) = heard b" "heard (b\<lparr>br_confirmed := y\<rparr>) = heard b" "heard (b\<lparr>br_point := p\<rparr>) = heard b"
  by (simp_all add: heard_def has_lease_def)

lemma heard_calm: "heard b \<Longrightarrow> br_route b = None \<Longrightarrow> calm b"
  by (auto simp: heard_def calm_def)

lemma down_ok:
  assumes "heard b" "\<And>r. br_route b = Some r \<Longrightarrow> rr_rule r = br_rule b"
  shows "relay_ok (bridge_down now r b)"
proof -
  have d: "drop_route b = b\<lparr>br_route := None\<rparr>" using assms(2) by (cases "br_route b") (auto simp: drop_route_def)
  show ?thesis using assms(1) heard_calm [of "b\<lparr>br_route := None\<rparr>"]
    by (simp add: bridge_down_def d closed_ok notify_def relay_cancelling_ok Let_def)
qed

lemma opened_ok:
  assumes "heard (b\<lparr>br_answer := None\<rparr>)" "br_route b = None"
  shows "relay_ok (source_opened policy now b)"
  using assms up_ok [of "b\<lparr>br_answer := None\<rparr>" policy now]
  by (auto simp: source_opened_def Let_def) (auto simp: heard_def relay_ok_def has_lease_def go_def split: option.splits)

lemma confirmed_ok:
  assumes "heard b" "br_route b = None"
  shows "relay_ok (lease_confirmed policy now answer b)"
proof -
  have "calm (b\<lparr>br_lease := None\<rparr>)" using assms by (simp add: heard_def calm_def)
  with assms heard_calm [OF assms] show ?thesis
    by (auto simp: lease_confirmed_def returned_ok relay_cancelling_ok up_ok split: option.splits sum.splits)
qed

lemma calm_at:
  assumes "relay_ok b" "\<not> asking (br_point b)" "br_point b \<noteq> Bridging"
  shows "calm b"
  using assms by (auto simp: relay_ok_def calm_def)

lemma idle_at:
  assumes "relay_ok b" "br_point b \<in> {Waiting_to_retry} \<or> (\<exists>k. br_point b = Releasing_lease k)"
  shows "calm b" "unheard b" "has_lease b = owned b"
proof -
  from assms(2) consider "br_point b = Waiting_to_retry" | k where "br_point b = Releasing_lease k" by auto
  then have "calm b \<and> unheard b \<and> has_lease b = owned b"
    using assms(1) by cases (simp_all add: relay_ok_def calm_def unheard_def)
  then show "calm b" "unheard b" "has_lease b = owned b" by simp_all
qed

lemma route_at: "relay_ok b \<Longrightarrow> br_route b = Some r \<Longrightarrow> rr_rule r = br_rule b"
  by (simp add: relay_ok_def)

lemma heard_at:
  assumes "relay_ok b" "br_point b \<in> {Confirming_lease, Bridging} \<or> (\<exists>closing r. br_point b = Pausing_cancel closing r)"
  shows "heard b"
  using assms by (auto simp: relay_ok_def heard_def)

lemma cancelling_at:
  assumes "relay_ok b" "br_point b = Cancelling_source closing r t c"
  shows "calm (b\<lparr>br_answer := None\<rparr>)" "has_lease b = owned b"
    "\<not> br_source_closed b \<Longrightarrow> br_listening b \<longleftrightarrow> br_answer b \<noteq> Some (Inr ())" "br_lease b \<noteq> None \<longrightarrow> owned b"
  using assms by (auto simp: relay_ok_def calm_def has_lease_def)

lemma opening_at:
  assumes "relay_ok b" "br_point b = Opening_source t c"
  shows "calm (b\<lparr>br_answer := None\<rparr>)" "has_lease b = owned b"
    "\<not> br_source_closed b \<Longrightarrow> br_listening b \<longleftrightarrow> br_answer b = Some (Inr ())" "br_lease b \<noteq> None \<longrightarrow> owned b"
  using assms by (auto simp: relay_ok_def calm_def has_lease_def)

lemma release_done_ok:
  assumes "calm b" "unheard b"
  shows "relay_ok (lease_released k b)" "relay_ok (lease_not_released k e b)"
proof -
  have "calm (b\<lparr>br_lease := map_option (\<lambda>le. le\<lparr>le_released := True\<rparr>) (br_lease b)\<rparr>)"
    using assms by (auto simp: calm_def unheard_def)
  with assms(1) show "relay_ok (lease_released k b)" "relay_ok (lease_not_released k e b)"
    by (cases k; simp add: lease_released_def lease_not_released_def Let_def returned_ok closed_ok)+
qed

lemma has_lease_frame [simp]:
  "has_lease (b\<lparr>br_route := r\<rparr>) = has_lease b" "has_lease (b\<lparr>br_listening := x\<rparr>) = has_lease b"
  "has_lease (b\<lparr>br_source_closed := x\<rparr>) = has_lease b"
  by (simp_all add: has_lease_def)

lemma relay_ok_frame:
  assumes "relay_ok b" "br_point c = br_point b" "br_source_closed c = br_source_closed b" "br_listening c = br_listening b"
    "br_answer c = br_answer b" "br_lease c = br_lease b" "br_confirmed c = br_confirmed b" "br_rule c = br_rule b"
    "br_target c = br_target b" "br_route c = br_route b"
  shows "relay_ok c"
proof -
  have h: "has_lease c = has_lease b" using assms(6) by (simp add: has_lease_def)
  have "listens_at p c = listens_at p b" for p using assms(4,5) by (cases p) simp_all
  moreover have "leased_at p c = leased_at p b" for p using h assms(6-8) by (cases p) simp_all
  ultimately show ?thesis using assms(1) unfolding relay_ok_def by (simp only: assms(2-) h) blast
qed

lemma relay_step_ok:
  assumes "relay_step policy a b" and "relay_ok a"
  shows "relay_ok b"
  using assms
proof (induction rule: relay_step.induct)
  case (started b)
  then have c: "calm b" "unheard b" "br_lease b = None" by (auto simp: relay_ok_def calm_def unheard_def)
  have "relay_ok (go Claiming_lease b)" if "owned b" using c that by (auto simp: calm_defs go_def)
  moreover have "has_lease b = owned b" if "\<not> owned b" using c that by (simp add: has_lease_def)
  ultimately show ?case using c by (simp add: start_relay_def returned_ok relay_opening_ok)
next
  case (claim_cancelled b)
  then show ?case by (simp add: returned_ok calm_at)
next
  case (claim_ok b le now)
  then have "calm b" "unheard b" "owned b" by (auto simp: relay_ok_def calm_def unheard_def)
  with claim_ok(3) have "calm (b\<lparr>br_lease := Some le\<rparr>)" "unheard (b\<lparr>br_lease := Some le\<rparr>)" "has_lease (b\<lparr>br_lease := Some le\<rparr>)"
    by (auto simp: calm_defs)
  then have "calm (b\<lparr>br_status := st, br_lease := Some le\<rparr>)" "unheard (b\<lparr>br_status := st, br_lease := Some le\<rparr>)"
    "has_lease (b\<lparr>br_status := st, br_lease := Some le\<rparr>)" for st
    by (simp_all add: calm_defs)
  then have "relay_ok (opening_turn (b\<lparr>br_status := st, br_lease := Some le\<rparr>))" for st
    using \<open>owned b\<close> by (simp add: relay_opening_ok)
  from this this [of "br_status b"] show ?case by (simp add: lease_claimed_def mention_def)
next
  case (claim_error b e)
  then show ?case by (simp add: returned_ok calm_at)
next
  case (open_gone b t c)
  note o = opening_at [OF open_gone(3,1)]
  from o(1) have "drop_route (b\<lparr>br_answer := None\<rparr>) = b\<lparr>br_answer := None\<rparr>" by simp
  with o(1) show ?case by (simp add: returned_ok)
next
  case (open_ok b t c now)
  note o = opening_at [OF open_ok(4,1)]
  have "heard (b\<lparr>br_answer := None\<rparr>)" using o open_ok(3) by (auto simp: heard_def)
  with o(1) show ?case by (intro opened_ok) (auto simp: calm_def)
next
  case (open_error b t c err rng now)
  note o = opening_at [OF open_error(4,1)]
  then show ?case using open_error(3) by (intro refused_ok) (auto simp: unheard_def)
next
  case (open_cancelled b t now)
  then show ?case by (auto simp: relay_ok_def go_def mind_cancel_def notify_def has_lease_def split: option.splits)
next
  case (open_late b c now)
  then show ?case by (auto simp: relay_ok_def go_def mind_timeout_def notify_def has_lease_def split: option.splits)
next
  case (retry_cancelled b)
  then show ?case using idle_at [of b] by (simp add: step_down_ok)
next
  case (retry_changed b)
  then show ?case using idle_at [of b] by (simp add: step_down_ok)
next
  case (retry_source_lost b)
  then show ?case using idle_at [of b] by (simp add: lost_ok)
next
  case (retry_target_lost b)
  then show ?case using idle_at [of b] by (simp add: lost_ok)
next
  case (retry_due b)
  then show ?case using idle_at [of b] by (simp add: relay_opening_ok)
next
  case (confirm_done b answer now)
  then show ?case using heard_at [of b] calm_at [of b] by (simp add: confirmed_ok)
next
  case (bridge_cancelled b now)
  then show ?case by (intro down_ok) (simp_all add: heard_at route_at)
next
  case (bridge_source_lost b now)
  then show ?case by (intro down_ok) (simp_all add: heard_at route_at)
next
  case (bridge_target_lost b now)
  then show ?case by (intro down_ok) (simp_all add: heard_at route_at)
next
  case (bridge_changed b now)
  then show ?case by (intro down_ok) (simp_all add: heard_at route_at)
next
  case (unchanged b)
  show ?case by (rule relay_ok_frame [OF unchanged(5)]) simp_all
next
  case (lease_closed b msg e now)
  then show ?case by (intro down_ok) (simp_all add: mention_def heard_at route_at)
next
  case (cancel_gone b closing r t c)
  note o = cancelling_at [OF cancel_gone(3,1)]
  then show ?case by (simp add: not_cancelled_def returned_ok closed_ok)
next
  case (cancel_ok b closing r t c)
  note o = cancelling_at [OF cancel_ok(4,1)]
  then show ?case using cancel_ok(3) by (intro release_ok) (auto simp: unheard_def)
next
  case (cancel_error b closing r t c err now)
  note o = cancelling_at [OF cancel_error(4,1)]
  then show ?case using cancel_error(3)
    by (auto simp: cancel_refused_def go_def notify_def relay_ok_def calm_def has_lease_def split: option.splits)
next
  case (cancel_cancelled b closing r t now)
  then show ?case by (auto simp: relay_ok_def go_def mind_cancel_def notify_def has_lease_def split: option.splits)
next
  case (cancel_late b closing r c now)
  then show ?case by (auto simp: relay_ok_def go_def mind_timeout_def notify_def has_lease_def split: option.splits)
next
  case (pause_gone b closing r)
  then show ?case using calm_at [of b] by (simp add: not_cancelled_def returned_ok closed_ok)
next
  case (pause_over b closing r)
  then show ?case using heard_at [of b] calm_at [of b] by (simp add: relay_cancelling_ok)
next
  case (release_ok b k)
  then show ?case using idle_at [of b] by (auto intro: release_done_ok)
next
  case (release_error b k e)
  then show ?case using idle_at [of b] by (auto intro: release_done_ok)
qed

lemma accepts_route:
  "snd (source_accepts address port b) = b \<or>
     (\<exists>r. br_route b = Some r \<and> \<not> MAX_CONNECTIONS \<le> rr_active r \<and>
        snd (source_accepts address port b) = b\<lparr>br_route := Some (r\<lparr>rr_active := rr_active r + 1\<rparr>)\<rparr>)"
  by (auto simp: source_accepts_def source_route_def Let_def split: option.splits prod.splits)

lemma counted_route_ok:
  assumes "relay_ok b" "br_route b = Some r" "rr_active r < MAX_CONNECTIONS"
  shows "relay_ok (b\<lparr>br_route := Some (r\<lparr>rr_active := rr_active r + 1\<rparr>)\<rparr>)"
proof -
  have "br_point b = Bridging" using assms(1,2) by (simp add: relay_ok_def)
  with assms show ?thesis by (auto simp: relay_ok_def)
qed

lemma relay_around_ok:
  assumes "relay_around a b" and "relay_ok a"
  shows "relay_ok b"
  using assms
proof (induction rule: relay_around.induct)
  case (opens b t c)
  then show ?case by (auto simp: relay_ok_def)
next
  case (refuses b t c err)
  then show ?case by (auto simp: relay_ok_def)
next
  case (closes b closing r t c)
  then show ?case by (auto simp: relay_ok_def)
next
  case (keeps b closing r t c err)
  then show ?case by (auto simp: relay_ok_def)
next
  case (source_breaks b)
  then show ?case by (cases "br_point b") (auto simp: relay_ok_def)
next
  case (forgets b)
  then show ?case by (cases "br_point b") (auto simp: relay_ok_def)
next
  case (forwarded b address port)
  from accepts_route [of address port b] show ?case
  proof (elim disjE exE conjE)
    fix r assume r: "br_route b = Some r" "\<not> MAX_CONNECTIONS \<le> rr_active r"
      and eq: "snd (source_accepts address port b) = b\<lparr>br_route := Some (r\<lparr>rr_active := rr_active r + 1\<rparr>)\<rparr>"
    show ?case unfolding eq by (rule counted_route_ok [OF forwarded r(1)]) (use r(2) in simp)
  qed (use forwarded in simp)
qed (rule relay_ok_frame; simp)+

lemma relayed_ok: "relayed policy b \<Longrightarrow> relay_ok b"
proof (induction rule: relayed.induct)
  case (fresh r t cleanup c st)
  then show ?case by (simp add: relay_ok_def new_bridge_def)
qed (blast intro: relay_step_ok relay_around_ok)+

section \<open>What a relay guarantees\<close>

text \<open>A run of a verified relay, up to the bridge.\<close>

definition quiet_status :: shared where
  "quiet_status = \<lparr>entries = [], last_sequence = 0, published = []\<rparr>"

definition relay_rule :: rule where
  "relay_rule = \<lparr>ru_spec = sample_relay, ru_server_name = ''alpha'', ru_generation = 9\<rparr>"

definition relay_lease :: lease where
  "relay_lease = \<lparr>le_claim = claim_for ''s1'' 1 sample_relay, le_reclaimed = False, le_session_pid = 7, le_released = False\<rparr>"

definition relay_opening :: bridge where
  "relay_opening = lease_claimed 1 relay_lease
     (start_relay (new_bridge relay_rule sample_target (Some ''me'') False quiet_status))"

definition relay_confirming :: bridge where
  "relay_confirming = source_opened default_retry_policy 2
     (relay_opening\<lparr>br_listening := True, br_answer := Some (Inr ())\<rparr>)"

definition relay_up :: bridge where
  "relay_up = lease_confirmed default_retry_policy 3 (Some (Inr ())) relay_confirming"

lemmas relay_run_simps = relay_opening_def relay_confirming_def relay_up_def lease_claimed_def start_relay_def
  new_bridge_def relay_rule_def relay_lease_def sample_relay_def opening_turn_def go_def source_opened_def
  lease_confirmed_def bridge_up_def notify_def

lemma relay_opening_reached:
  "relayed default_retry_policy relay_opening"
  "br_point relay_opening = Opening_source False False" "br_answer relay_opening = None"
  "\<not> br_source_closed relay_opening" "\<not> br_listening relay_opening" "\<not> br_gone relay_opening"
  "br_route relay_opening = None"
proof -
  let ?b = "new_bridge relay_rule sample_target (Some ''me'') False quiet_status"
  have "relay_step default_retry_policy ?b (start_relay ?b)"
    by (rule relay_step.started) (simp add: new_bridge_def)
  moreover have "relay_step default_retry_policy (start_relay ?b) relay_opening"
    unfolding relay_opening_def by (rule relay_step.claim_ok) (simp_all add: relay_run_simps)
  ultimately show "relayed default_retry_policy relay_opening"
    by (blast intro: relayed.fresh relayed.own)
qed (simp_all add: relay_run_simps)

lemma relay_confirming_reached:
  "relayed default_retry_policy relay_confirming" "br_point relay_confirming = Confirming_lease"
proof -
  let ?b = "relay_opening\<lparr>br_listening := True, br_answer := Some (Inr ())\<rparr>"
  have "relay_around relay_opening ?b"
    using relay_around.opens [OF relay_opening_reached(2,3,4,5)] .
  moreover have "relay_step default_retry_policy ?b relay_confirming"
    unfolding relay_confirming_def by (rule relay_step.open_ok [of _ False False]) (simp_all add: relay_opening_reached)
  ultimately show "relayed default_retry_policy relay_confirming"
    using relay_opening_reached(1) by (blast intro: relayed.own relayed.around)
qed (simp add: relay_run_simps)

lemma relay_up_reached: "relayed default_retry_policy relay_up"
proof -
  have "relay_step default_retry_policy relay_confirming relay_up"
    unfolding relay_up_def by (rule relay_step.confirm_done) (simp_all add: relay_confirming_reached)
  with relay_confirming_reached(1) show ?thesis by (rule relayed.own)
qed

lemma relay_up_at:
  "br_point relay_up = Bridging" "br_rule relay_up = relay_rule" "\<not> br_source_closed relay_up"
  "\<exists>r. br_route relay_up = Some r" "owned relay_up" "\<not> br_gone relay_up" "br_answer relay_up = None"
  by (simp_all add: relay_run_simps)

text \<open>
  Property C23. The bridge is visible to the source server only while the listener is open there,
  confirmed for a verified rule and held under its lease; a lease is given back only when the
  listener is closed or the connection lost; and a relay that has stepped down has no route left.
\<close>

theorem bridge_only_when_ready:
  assumes "relayed policy b"
  shows "(\<forall>r. br_route b = Some r \<longrightarrow> br_point b = Bridging \<and> rr_rule r = br_rule b \<and> rr_active r \<le> 256 \<and>
      (\<not> br_source_closed b \<longrightarrow> br_listening b) \<and>
      (owned b \<longrightarrow> br_confirmed b \<and> (\<exists>le. br_lease b = Some le \<and> \<not> le_released le))) \<and>
    (\<forall>le. br_lease b = Some le \<and> le_released le \<longrightarrow> br_source_closed b \<or> \<not> br_listening b) \<and>
    (\<forall>r. br_point b = Returned r \<longrightarrow> br_route b = None)"
proof -
  note ok = relayed_ok [OF assms, unfolded relay_ok_def]
  have live: "\<exists>le. br_lease b = Some le \<and> \<not> le_released le" if "has_lease b"
    using that by (auto simp: has_lease_def split: option.splits)
  have "br_point b = Bridging \<and> rr_rule r = br_rule b \<and> rr_active r \<le> 256 \<and> (\<not> br_source_closed b \<longrightarrow> br_listening b) \<and>
      (owned b \<longrightarrow> br_confirmed b \<and> (\<exists>le. br_lease b = Some le \<and> \<not> le_released le))" if "br_route b = Some r" for r
  proof -
    from ok that have p: "br_point b = Bridging" "rr_rule r = br_rule b" "rr_active r \<le> 256"
      by (simp_all add: MAX_CONNECTIONS_def)
    with ok have "\<not> br_source_closed b \<longrightarrow> br_listening b" "has_lease b = owned b" "owned b \<longrightarrow> br_confirmed b" by simp_all
    with p live show ?thesis by simp
  qed
  moreover have "br_source_closed b \<or> \<not> br_listening b" if "br_lease b = Some le" "le_released le" for le
  proof -
    from that have "\<not> has_lease b" by (simp add: has_lease_def)
    with ok that(1) show ?thesis by blast
  qed
  moreover have "br_route b = None" if "br_point b = Returned r" for r
    using ok that by (cases "br_route b") simp_all
  ultimately show ?thesis by blast
qed

theorem bridge_only_when_ready_witness:
  "br_listening relay_up \<and> br_confirmed relay_up \<and> (\<exists>le. br_lease relay_up = Some le \<and> \<not> le_released le)"
  using bridge_only_when_ready [OF relay_up_reached] relay_up_at by auto

section \<open>What it does not\<close>

text \<open>
  A request to close the listener, or the pause after one that failed, when the source connection
  has been lost since: nothing has cancelled the token that would end the loop, and nothing does.
\<close>

definition wedged :: "bridge \<Rightarrow> bool" where
  "wedged b = (br_source_closed b \<and> \<not> br_gone b \<and> br_answer b \<noteq> Some (Inr ()) \<and>
     ((\<exists>closing r t c. br_point b = Cancelling_source closing r t c) \<or> (\<exists>closing r. br_point b = Pausing_cancel closing r)))"

lemma wedged_step: "relay_step policy a b \<Longrightarrow> wedged a \<Longrightarrow> wedged b"
  by (induction rule: relay_step.induct)
    (auto simp: wedged_def cancel_refused_def go_def notify_def mind_cancel_def mind_timeout_def)

lemma wedged_accepts: "wedged b \<Longrightarrow> wedged (snd (source_accepts address port b))"
  using accepts_route [of address port b] by (auto simp: wedged_def)

lemma wedged_around: "relay_around a b \<Longrightarrow> wedged a \<Longrightarrow> wedged b"
proof (induction rule: relay_around.induct)
  case (forwarded b address port)
  then show ?case by (rule wedged_accepts)
qed (auto simp: wedged_def)

definition relay_moves :: "retry_policy \<Rightarrow> bridge \<Rightarrow> bridge \<Rightarrow> bool" where
  "relay_moves policy a b = (relay_step policy a b \<or> relay_around a b)"

text \<open>
  Property C24. When the source connection is lost while the relay waits for its listener to be
  closed, the relay never returns: whatever happens, cancellation and edits included, it repeats
  the request. It is then neither retried nor stopped until the engine aborts its task.
\<close>

theorem lost_cancellation_never_returns:
  assumes "br_source_closed b" and "\<not> br_gone b" and "br_answer b = None"
    and "br_point b = Cancelling_source closing r t c" and "(relay_moves policy)\<^sup>*\<^sup>* b d"
  shows "\<nexists>q. br_point d = Returned q"
proof -
  have "wedged b" using assms(1-4) by (auto simp: wedged_def)
  with assms(5) have "wedged d"
    by (induction rule: rtranclp_induct) (auto simp: relay_moves_def intro: wedged_step wedged_around)
  then show ?thesis by (auto simp: wedged_def)
qed

text \<open>The bridge above steps down because the target connection is lost; then the source connection is lost too.\<close>

definition relay_stuck :: bridge where
  "relay_stuck = (bridge_down 4 (transport_lost ''target'') (relay_up\<lparr>br_target_closed := True\<rparr>))\<lparr>br_source_closed := True\<rparr>"

lemma relay_stuck_reached: "relayed default_retry_policy relay_stuck"
proof -
  let ?b = "relay_up\<lparr>br_target_closed := True\<rparr>"
  have "relay_step default_retry_policy ?b (bridge_down 4 (transport_lost ''target'') ?b)"
    by (rule relay_step.bridge_target_lost) (simp_all add: relay_run_simps)
  then show ?thesis using relay_up_reached unfolding relay_stuck_def
    by (blast intro: relayed.own relayed.around relay_around.target_breaks relay_around.source_breaks)
qed

theorem lost_cancellation_never_returns_witness:
  "relayed default_retry_policy relay_stuck \<and>
   {d. (relay_moves default_retry_policy)\<^sup>*\<^sup>* relay_stuck d \<and> (\<exists>q. br_point d = Returned q)} = {}"
proof -
  have at: "br_source_closed relay_stuck" "\<not> br_gone relay_stuck" "br_answer relay_stuck = None"
    "br_point relay_stuck = Cancelling_source True (transport_lost ''target'') False False"
    by (simp_all add: relay_stuck_def bridge_down_def drop_route_def relay_run_simps)
  show ?thesis using relay_stuck_reached lost_cancellation_never_returns [OF at] by blast
qed

text \<open>
  An established bridge does not outlive an edit of its labels: with a rule waiting
  that differs in its name or group alone, every step the relay can take ends the bridge.
\<close>

theorem label_edit_ends_bridge:
  assumes "br_point b = Bridging" and "br_unseen b" and "br_desired b = (br_rule b)\<lparr>ru_spec := labelled\<rparr>"
    and "labelled = (ru_spec (br_rule b))\<lparr>fs_name := name, fs_group := grp\<rparr>" and "labelled \<noteq> ru_spec (br_rule b)"
    and "relay_step policy b d"
  shows "br_point d \<noteq> Bridging \<and> runtime_equal labelled (ru_spec (br_rule b)) \<and>
    ru_generation (br_desired b) = ru_generation (br_rule b)"
proof -
  have "rule_changed (br_rule b) (br_desired b)" using assms(3,5) by (simp add: rule_changed_def)
  with assms(6,1,2) have "br_point d \<noteq> Bridging"
    by cases (auto simp: bridge_down_def go_def Let_def)
  then show ?thesis using assms(3,4) by (simp add: runtime_equal_def)
qed

theorem label_edit_ends_bridge_witness:
  "\<exists>d. relay_step default_retry_policy
     (relay_up\<lparr>br_desired := relay_rule\<lparr>ru_spec := sample_relay\<lparr>fs_name := ''renamed''\<rparr>\<rparr>, br_unseen := True\<rparr>) d \<and>
     br_point d \<noteq> Bridging"
proof -
  let ?f = "sample_relay\<lparr>fs_name := ''renamed''\<rparr>"
  let ?b = "relay_up\<lparr>br_desired := relay_rule\<lparr>ru_spec := ?f\<rparr>, br_unseen := True\<rparr>"
  have b: "br_point ?b = Bridging" "br_unseen ?b" "br_desired ?b = (br_rule ?b)\<lparr>ru_spec := ?f\<rparr>"
    "?f = (ru_spec (br_rule ?b))\<lparr>fs_name := ''renamed'', fs_group := Some ''infra''\<rparr>" "?f \<noteq> ru_spec (br_rule ?b)"
    by (simp_all add: relay_run_simps)
  have "relay_step default_retry_policy ?b (bridge_down 5 DesiredChanged (?b\<lparr>br_unseen := False\<rparr>))"
    by (rule relay_step.bridge_changed) (simp_all add: news_def rule_changed_def relay_run_simps)
  from label_edit_ends_bridge [OF b this] this show ?thesis by blast
qed

end
