(* ===== verification/RelaySupervisor.thy ===== *)
theory RelaySupervisor
  imports RelaySafety Supervisor
begin

text \<open>
  The task of a relay rule, \<open>supervise\<close> of \<open>crates/fwm-core/src/engine/relay.rs\<close>: it takes two of
  the engine's connection permits at once, connects to both servers, hands over to the bridge of
  \<open>Relay\<close>, and decides what its end means. Connecting is one step with any outcome of either side.
  While a bridge is up it owns the end of the channel and the table of status entries.
\<close>

section \<open>State\<close>

datatype keeper_point =
    Turning | Stopped_waiting | Lacking_identity | Queueing | Dialling | Bridged bridge | Alerting | Delaying u64 | Ended

record keeper =
  kp_source :: server_profile
  kp_target :: server_profile
  kp_cleanup :: "string option"
  kp_rule :: rule
  kp_desired :: rule
  kp_unseen :: bool
  kp_dropped :: bool
  kp_cancelled :: bool
  kp_failures :: u32
  kp_status :: shared
  kp_point :: keeper_point

definition new_keeper :: "server_profile \<Rightarrow> server_profile \<Rightarrow> string option \<Rightarrow> rule \<Rightarrow> shared \<Rightarrow> keeper" where
  "new_keeper src tgt cleanup r st = \<lparr>kp_source = src, kp_target = tgt, kp_cleanup = cleanup, kp_rule = r,
     kp_desired = r, kp_unseen = False, kp_dropped = False, kp_cancelled = False, kp_failures = 0,
     kp_status = st, kp_point = Turning\<rparr>"

section \<open>Between the awaits\<close>

definition tell :: "u64 \<Rightarrow> runtime_state \<Rightarrow> string option \<Rightarrow> u32 \<Rightarrow> u64 option \<Rightarrow> keeper \<Rightarrow> keeper" where
  "tell now st err n at k = k\<lparr>kp_status := update now (kp_rule k) st err n at (kp_status k)\<rparr>"

definition keeper_turn :: "u64 \<Rightarrow> keeper \<Rightarrow> keeper" where
  "keeper_turn now k =
     (let k = k\<lparr>kp_rule := kp_desired k, kp_unseen := False\<rparr>;
          k = (if \<not> running (kp_rule k) then tell now RStopped None 0 None k else k)
      in if kp_cancelled k then k\<lparr>kp_point := Ended\<rparr>
         else if \<not> running (kp_rule k) then k\<lparr>kp_point := Stopped_waiting\<rparr>
         else if kp_cleanup k = None \<and> fs_remote_cleanup (ru_spec (kp_rule k)) = Verified
         then (tell now NeedsAttention (Some NO_IDENTITY) 0 None k)\<lparr>kp_point := Lacking_identity\<rparr>
         else (tell now Starting None (kp_failures k) None k)\<lparr>kp_point := Queueing\<rparr>)"

text \<open>A relay rule has a target; a task started for any other ends in a panic.\<close>

definition serve_both :: "u64 \<Rightarrow> keeper \<Rightarrow> keeper" where
  "serve_both now k =
     (let st = emit_server now (kp_target k) ''relay target SSH connection established''
                 (emit_server now (kp_source k) ''relay source SSH connection established'' (kp_status k))
      in case target (fs_tunnel (ru_spec (kp_rule k))) of
           Some t \<Rightarrow> k\<lparr>kp_status := st, kp_point := Bridged (new_bridge (kp_rule k) t (kp_cleanup k) (kp_cancelled k) st)\<rparr>
         | None \<Rightarrow> k\<lparr>kp_status := st, kp_point := Ended\<rparr>)"

definition keeper_verdict ::
    "retry_policy \<Rightarrow> (u64 \<Rightarrow> u64 \<Rightarrow> u64) \<Rightarrow> u64 \<Rightarrow> relay_outcome \<Rightarrow> keeper \<Rightarrow> keeper" where
  "keeper_verdict policy rng now q k =
     (if kp_cancelled k then k\<lparr>kp_point := Ended\<rparr>
      else case q of
        DesiredChanged \<Rightarrow> k\<lparr>kp_failures := 0, kp_point := Turning\<rparr>
      | Retrying_on msg \<Rightarrow>
          let n = saturating_add (kp_failures k) 1; at = now + delay rng n (max_delay_secs policy)
          in (tell now Backoff (Some msg) n (Some at) (k\<lparr>kp_failures := n\<rparr>))\<lparr>kp_point := Delaying at\<rparr>
      | Attention_for msg \<Rightarrow> (tell now NeedsAttention (Some msg) 0 None k)\<lparr>kp_point := Alerting\<rparr>)"

text \<open>\<open>lasted\<close>: the bridge has lasted \<open>stable_reset_secs\<close>.\<close>

definition serve_over ::
    "retry_policy \<Rightarrow> (u64 \<Rightarrow> u64 \<Rightarrow> u64) \<Rightarrow> u64 \<Rightarrow> bool \<Rightarrow> bridge \<Rightarrow> relay_outcome \<Rightarrow> keeper \<Rightarrow> keeper" where
  "serve_over policy rng now lasted b q k =
     keeper_verdict policy rng now q
       (k\<lparr>kp_status := br_status b, kp_unseen := br_unseen b, kp_failures := if lasted then 0 else kp_failures k\<rparr>)"

section \<open>Steps\<close>

abbreviation resting :: "keeper_point \<Rightarrow> bool" where
  "resting p \<equiv> p \<in> {Stopped_waiting, Lacking_identity, Alerting}"

abbreviation reaching :: "keeper_point \<Rightarrow> bool" where
  "reaching p \<equiv> p \<in> {Queueing, Dialling}"

inductive keeper_step :: "retry_policy \<Rightarrow> keeper \<Rightarrow> keeper \<Rightarrow> bool" for policy where
  turned: "kp_point k = Turning \<Longrightarrow> keeper_step policy k (keeper_turn now k)"
| rest_cancelled: "resting (kp_point k) \<Longrightarrow> kp_cancelled k \<Longrightarrow> keeper_step policy k (k\<lparr>kp_point := Ended\<rparr>)"
| rest_changed: "resting (kp_point k) \<Longrightarrow> kp_unseen k \<Longrightarrow> keeper_step policy k (k\<lparr>kp_unseen := False, kp_point := Turning\<rparr>)"
| rest_dropped:
    "resting (kp_point k) \<Longrightarrow> \<not> kp_unseen k \<Longrightarrow> kp_dropped k \<Longrightarrow> keeper_step policy k (k\<lparr>kp_point := Ended\<rparr>)"
| reach_cancelled: "reaching (kp_point k) \<Longrightarrow> kp_cancelled k \<Longrightarrow> keeper_step policy k (k\<lparr>kp_point := Ended\<rparr>)"
| reach_changed:
    "reaching (kp_point k) \<Longrightarrow> \<not> kp_cancelled k \<Longrightarrow> kp_unseen k \<Longrightarrow>
     keeper_step policy k (k\<lparr>kp_unseen := False, kp_point := Turning\<rparr>)"
| reach_dropped:
    "reaching (kp_point k) \<Longrightarrow> \<not> kp_cancelled k \<Longrightarrow> \<not> kp_unseen k \<Longrightarrow> kp_dropped k \<Longrightarrow>
     keeper_step policy k (k\<lparr>kp_point := Ended\<rparr>)"
| two_permits:
    "kp_point k = Queueing \<Longrightarrow> \<not> kp_cancelled k \<Longrightarrow> \<not> kp_unseen k \<Longrightarrow> \<not> kp_dropped k \<Longrightarrow>
     keeper_step policy k (k\<lparr>kp_point := Dialling\<rparr>)"
| no_permits:
    "kp_point k = Queueing \<Longrightarrow> \<not> kp_cancelled k \<Longrightarrow> \<not> kp_unseen k \<Longrightarrow> \<not> kp_dropped k \<Longrightarrow>
     keeper_step policy k (k\<lparr>kp_point := Ended\<rparr>)"
| both_reached:
    "kp_point k = Dialling \<Longrightarrow> \<not> kp_cancelled k \<Longrightarrow> \<not> kp_unseen k \<Longrightarrow> \<not> kp_dropped k \<Longrightarrow>
     keeper_step policy k (serve_both now k)"
| not_reached:
    "kp_point k = Dialling \<Longrightarrow> \<not> kp_cancelled k \<Longrightarrow> \<not> kp_unseen k \<Longrightarrow> \<not> kp_dropped k \<Longrightarrow>
     source_error \<noteq> None \<or> target_error \<noteq> None \<Longrightarrow>
     keeper_step policy k (keeper_verdict policy rng now
       (connect_outcome (kp_source k) (kp_target k) source_noted source_error target_noted target_error) k)"
| bridged: "kp_point k = Bridged b \<Longrightarrow> relay_step policy b c \<Longrightarrow> keeper_step policy k (k\<lparr>kp_point := Bridged c\<rparr>)"
| bridge_over:
    "kp_point k = Bridged b \<Longrightarrow> br_point b = Returned q \<Longrightarrow>
     keeper_step policy k (serve_over policy rng now lasted b q k)"
| delay_cancelled: "kp_point k = Delaying at \<Longrightarrow> kp_cancelled k \<Longrightarrow> keeper_step policy k (k\<lparr>kp_point := Ended\<rparr>)"
| delay_over: "kp_point k = Delaying at \<Longrightarrow> at \<le> now \<Longrightarrow> keeper_step policy k (k\<lparr>kp_point := Turning\<rparr>)"

text \<open>What the engine does, and what happens to the two transports.\<close>

definition send_rule :: "rule \<Rightarrow> keeper \<Rightarrow> keeper" where
  "send_rule r k = k\<lparr>kp_desired := r, kp_unseen := True,
     kp_point := (case kp_point k of Bridged b \<Rightarrow> Bridged (b\<lparr>br_desired := r, br_unseen := True\<rparr>) | p \<Rightarrow> p)\<rparr>"

definition cancel_keeper :: "keeper \<Rightarrow> keeper" where
  "cancel_keeper k = k\<lparr>kp_cancelled := True,
     kp_point := (case kp_point k of Bridged b \<Rightarrow> Bridged (b\<lparr>br_cancelled := True\<rparr>) | p \<Rightarrow> p)\<rparr>"

definition drop_sender :: "keeper \<Rightarrow> keeper" where
  "drop_sender k = k\<lparr>kp_dropped := True,
     kp_point := (case kp_point k of Bridged b \<Rightarrow> Bridged (b\<lparr>br_dropped := True\<rparr>) | p \<Rightarrow> p)\<rparr>"

text \<open>Runs, with the number of times the task has dialled and of rules sent on the way.\<close>

inductive kept :: "retry_policy \<Rightarrow> nat \<Rightarrow> nat \<Rightarrow> keeper \<Rightarrow> keeper \<Rightarrow> bool" for policy where
  start: "kept policy 0 0 a a"
| own: "kept policy n m a b \<Longrightarrow> keeper_step policy b c \<Longrightarrow> kept policy (n + of_bool (kp_point c = Dialling)) m a c"
| carried:
    "kept policy n m a b \<Longrightarrow> kp_point b = Bridged x \<Longrightarrow> relay_around x y \<Longrightarrow> br_desired y = br_desired x \<Longrightarrow>
     br_cancelled y = br_cancelled x \<Longrightarrow> br_dropped y = br_dropped x \<Longrightarrow> br_unseen y = br_unseen x \<Longrightarrow>
     kept policy n m a (b\<lparr>kp_point := Bridged y\<rparr>)"
| sent: "kept policy n m a b \<Longrightarrow> kept policy n (Suc m) a (send_rule r b)"
| cancelled: "kept policy n m a b \<Longrightarrow> kept policy n m a (cancel_keeper b)"
| abandoned: "kept policy n m a b \<Longrightarrow> kept policy n m a (drop_sender b)"

section \<open>What the task guarantees\<close>

definition rule_ready :: "string option \<Rightarrow> rule \<Rightarrow> bool" where
  "rule_ready cleanup r = (running r \<and> (fs_remote_cleanup (ru_spec r) = Verified \<longrightarrow> cleanup \<noteq> None))"

definition keeper_ok :: "retry_policy \<Rightarrow> keeper \<Rightarrow> bool" where
  "keeper_ok policy k =
     ((reaching (kp_point k) \<longrightarrow> rule_ready (kp_cleanup k) (kp_rule k)) \<and>
      (\<forall>b. kp_point k = Bridged b \<longrightarrow> relayed policy b \<and> br_rule b = kp_rule k \<and> br_cleanup b = kp_cleanup k \<and>
         br_cancelled b = kp_cancelled k \<and> rule_ready (kp_cleanup k) (kp_rule k)))"

lemma tell_fields [simp]:
  "kp_cancelled (tell now st err n at k) = kp_cancelled k" "kp_unseen (tell now st err n at k) = kp_unseen k"
  "kp_rule (tell now st err n at k) = kp_rule k" "kp_cleanup (tell now st err n at k) = kp_cleanup k"
  "kp_failures (tell now st err n at k) = kp_failures k" "kp_point (tell now st err n at k) = kp_point k"
  by (simp_all add: tell_def)

lemma turn_ok: "keeper_ok policy (keeper_turn now k)"
  by (auto simp: keeper_turn_def Let_def keeper_ok_def rule_ready_def)

lemma verdict_point:
  "\<not> reaching (kp_point (keeper_verdict policy rng now q k))" "kp_point (keeper_verdict policy rng now q k) \<noteq> Bridged b"
  by (cases q; simp add: keeper_verdict_def Let_def)+

lemma verdict_ok: "keeper_ok policy (keeper_verdict policy rng now q k)"
  using verdict_point [of policy rng now q k] by (simp add: keeper_ok_def)

lemma serve_ok:
  assumes "rule_ready (kp_cleanup k) (kp_rule k)"
  shows "keeper_ok policy (serve_both now k)"
  using assms by (auto simp: serve_both_def Let_def keeper_ok_def intro: relayed.fresh split: option.splits)
    (simp_all add: new_bridge_def)

text \<open>A bridge keeps its rule and its identity, and only the engine cancels it.\<close>

definition same_identity :: "bridge \<Rightarrow> bridge \<Rightarrow> bool" where
  "same_identity b c = (br_rule c = br_rule b \<and> br_cleanup c = br_cleanup b \<and> br_cancelled c = br_cancelled b)"

lemma same_drop [simp]: "same_identity b (drop_route c) = same_identity b c"
  by (simp add: same_identity_def drop_route_def split: option.splits)

lemma same_go [simp]: "same_identity b (go p c) = same_identity b c" "same_identity b (notify now st err n at c) = same_identity b c"
  "same_identity b (mention now msg c) = same_identity b c" "same_identity b (close_both c) = same_identity b c"
  by (simp_all add: same_identity_def go_def notify_def mention_def close_both_def)

lemma same_updates [simp]: "same_identity b b" "same_identity b (c\<lparr>br_answer := x\<rparr>) = same_identity b c"
  "same_identity b (c\<lparr>br_gone := y\<rparr>) = same_identity b c" "same_identity b (c\<lparr>br_unseen := y\<rparr>) = same_identity b c"
  "same_identity b (c\<lparr>br_lease := l\<rparr>) = same_identity b c" "same_identity b (c\<lparr>br_failures := n\<rparr>) = same_identity b c"
  "same_identity b (c\<lparr>br_confirmed := y\<rparr>) = same_identity b c" "same_identity b (c\<lparr>br_route := r\<rparr>) = same_identity b c"
  "same_identity b (c\<lparr>br_source_closed := y, br_target_closed := z\<rparr>) = same_identity b c"
  by (simp_all add: same_identity_def)

lemma same_release [simp]: "same_identity b (release_then k c) = same_identity b c"
  by (simp add: release_then_def split: option.splits ending.splits)

lemma same_turn [simp]: "same_identity b (opening_turn c) = same_identity b c" "same_identity b (step_down c) = same_identity b c"
  "same_identity b (source_lost c) = same_identity b c" "same_identity b (target_lost c) = same_identity b c"
  by (simp_all add: opening_turn_def step_down_def source_lost_def target_lost_def)

lemma same_parts [simp]:
  "same_identity b (start_relay c) = same_identity b c" "same_identity b (lease_claimed now le c) = same_identity b c"
  "same_identity b (source_refused policy rng now err c) = same_identity b c"
  "same_identity b (bridge_up policy now c) = same_identity b c" "same_identity b (source_opened policy now c) = same_identity b c"
  "same_identity b (bridge_down now q c) = same_identity b c" "same_identity b (not_cancelled closing q c) = same_identity b c"
  "same_identity b (cancel_refused now closing q err c) = same_identity b c"
  "same_identity b (mind_cancel now op c) = same_identity b c" "same_identity b (mind_timeout now seen op c) = same_identity b c"
  by (simp_all add: start_relay_def lease_claimed_def source_refused_def bridge_up_def source_opened_def bridge_down_def
      not_cancelled_def cancel_refused_def mind_cancel_def mind_timeout_def Let_def)

lemma same_confirmed [simp]: "same_identity b (lease_confirmed policy now answer c) = same_identity b c"
  by (simp add: lease_confirmed_def split: option.splits sum.splits)

lemma same_released [simp]:
  "same_identity b (lease_released k c) = same_identity b c" "same_identity b (lease_not_released k e c) = same_identity b c"
  by (cases k; simp add: lease_released_def lease_not_released_def Let_def)+

lemma machine_keeps: "relay_step policy b c \<Longrightarrow> same_identity b c"
  by (induction rule: relay_step.induct) simp_all

lemma around_keeps: "relay_around b c \<Longrightarrow> br_rule c = br_rule b \<and> br_cleanup c = br_cleanup b"
proof (induction rule: relay_around.induct)
  case (forwarded b address port)
  then show ?case using accepts_route [of address port b] by auto
qed auto

lemma keeper_step_ok:
  assumes "keeper_step policy a b" and "keeper_ok policy a"
  shows "keeper_ok policy b"
  using assms
proof (induction rule: keeper_step.induct)
  case (bridged k b c)
  then have "relayed policy b" by (simp add: keeper_ok_def)
  from relayed.own [OF this bridged(2)] machine_keeps [OF bridged(2)] bridged(1,3) show ?case
    by (simp add: keeper_ok_def same_identity_def)
next
  case (both_reached k now)
  then show ?case by (intro serve_ok) (simp add: keeper_ok_def)
qed (simp_all only: turn_ok verdict_ok serve_over_def, simp_all add: keeper_ok_def)

lemma engine_ok:
  assumes "keeper_ok policy k"
  shows "keeper_ok policy (send_rule r k)" "keeper_ok policy (cancel_keeper k)" "keeper_ok policy (drop_sender k)"
proof -
  have "relayed policy (b\<lparr>br_desired := r, br_unseen := True\<rparr>)" "relayed policy (b\<lparr>br_cancelled := True\<rparr>)"
    "relayed policy (b\<lparr>br_dropped := True\<rparr>)" if "kp_point k = Bridged b" for b
    using assms that relayed.around relay_around.wished relay_around.cancelled relay_around.abandoned
    unfolding keeper_ok_def by blast+
  with assms show "keeper_ok policy (send_rule r k)" "keeper_ok policy (cancel_keeper k)" "keeper_ok policy (drop_sender k)"
    by (cases "kp_point k"; simp add: send_rule_def cancel_keeper_def drop_sender_def keeper_ok_def)+
qed

lemma kept_ok: "kept policy n m a b \<Longrightarrow> keeper_ok policy a \<Longrightarrow> keeper_ok policy b"
proof (induction rule: kept.induct)
  case (own n m a b c)
  then show ?case by (blast intro: keeper_step_ok)
next
  case (carried n m a b x y)
  then have "keeper_ok policy b" by blast
  moreover from this have "relayed policy y"
    using carried(2,3) relayed.around unfolding keeper_ok_def by blast
  ultimately show ?case using around_keeps [OF carried(3)] carried by (simp add: keeper_ok_def)
qed (simp_all add: engine_ok)

lemma dial_step: "keeper_step policy a b \<Longrightarrow> kp_point b = Dialling \<Longrightarrow> kp_point a = Queueing \<and> \<not> kp_cancelled a"
proof (induction rule: keeper_step.induct)
  case (turned k now)
  then show ?case by (simp add: keeper_turn_def Let_def split: if_splits)
next
  case (both_reached k now)
  then show ?case by (simp add: serve_both_def Let_def split: option.splits)
qed (use verdict_point(1) in \<open>auto simp: serve_over_def\<close>)

lemma verdict_cancelled [simp]: "kp_cancelled (keeper_verdict policy rng now q k) = kp_cancelled k"
  by (cases q) (simp_all add: keeper_verdict_def Let_def)

lemma keeper_step_cancelled: "keeper_step policy a b \<Longrightarrow> kp_cancelled b = kp_cancelled a"
  by (induction rule: keeper_step.induct) (auto simp: keeper_turn_def serve_both_def serve_over_def Let_def split: option.splits)

lemma cancelled_dials: "kept policy n m a b \<Longrightarrow> kp_cancelled a \<Longrightarrow> n = 0 \<and> kp_cancelled b"
proof (induction rule: kept.induct)
  case (own n m a b c)
  then show ?case using dial_step [of policy b c] keeper_step_cancelled [of policy b c] by auto
qed (simp_all add: send_rule_def cancel_keeper_def drop_sender_def)

lemma alerting_step:
  "keeper_step policy a b \<Longrightarrow> kp_point a \<in> {Alerting, Ended} \<Longrightarrow> \<not> kp_unseen a \<Longrightarrow> kp_point b \<in> {Alerting, Ended} \<and> \<not> kp_unseen b"
  by (induction rule: keeper_step.induct) auto

lemma alerting_dials:
  "kept policy n m a b \<Longrightarrow> m = 0 \<Longrightarrow> kp_point a = Alerting \<Longrightarrow> \<not> kp_unseen a \<Longrightarrow>
     n = 0 \<and> kp_point b \<in> {Alerting, Ended} \<and> \<not> kp_unseen b"
proof (induction rule: kept.induct)
  case (own n m a b c)
  then show ?case using alerting_step [of policy b c] dial_step [of policy b c] by auto
qed (auto simp: cancel_keeper_def drop_sender_def)

text \<open>
  The task of a relay rule dials only for a rule that runs, and for a verified one only
  with an identity, so that no bridge starts without one; never once it is cancelled; and after a
  failure that needs attention not until a rule is sent.
\<close>

theorem relay_dials_with_cause:
  assumes "kept policy i j (new_keeper src tgt cleanup r st) a" and "kept policy n m a b"
  shows "(kp_cancelled a \<longrightarrow> n = 0) \<and>
    (kp_point a = Alerting \<and> \<not> kp_unseen a \<and> m = 0 \<longrightarrow> n = 0 \<and> kp_point b \<in> {Alerting, Ended}) \<and>
    (\<forall>x. kp_point a = Dialling \<or> kp_point a = Bridged x \<longrightarrow>
       running (kp_rule a) \<and> (fs_remote_cleanup (ru_spec (kp_rule a)) = Verified \<longrightarrow> kp_cleanup a \<noteq> None)) \<and>
    (\<forall>x. kp_point a = Bridged x \<longrightarrow> relayed policy x \<and> br_rule x = kp_rule a \<and> br_cleanup x = kp_cleanup a)"
proof -
  have "keeper_ok policy (new_keeper src tgt cleanup r st)" by (simp add: keeper_ok_def new_keeper_def)
  from kept_ok [OF assms(1) this] have ok: "keeper_ok policy a" .
  have "rule_ready (kp_cleanup a) (kp_rule a)" if "kp_point a = Dialling \<or> kp_point a = Bridged x" for x
    using ok that by (auto simp: keeper_ok_def)
  moreover have "relayed policy x \<and> br_rule x = kp_rule a \<and> br_cleanup x = kp_cleanup a" if "kp_point a = Bridged x" for x
    using ok that by (simp add: keeper_ok_def)
  ultimately show ?thesis
    using cancelled_dials [OF assms(2)] alerting_dials [OF assms(2)] unfolding rule_ready_def by blast
qed

definition first_keeper :: keeper where
  "first_keeper = new_keeper sample_server_a sample_server_b (Some ''me'') relay_rule quiet_status"

definition serving_keeper :: keeper where
  "serving_keeper = serve_both 1 ((keeper_turn 0 first_keeper)\<lparr>kp_point := Dialling\<rparr>)"

lemmas keeper_run_simps = first_keeper_def new_keeper_def keeper_turn_def tell_def relay_rule_def sample_relay_def

lemma serving_reached: "kept default_retry_policy 1 0 first_keeper serving_keeper"
proof -
  let ?t = "keeper_turn 0 first_keeper"
  let ?d = "?t\<lparr>kp_point := Dialling\<rparr>"
  have t: "kp_point ?t = Queueing" "\<not> kp_cancelled ?t" "\<not> kp_unseen ?t" "\<not> kp_dropped ?t"
    by (simp_all add: keeper_run_simps)
  have "keeper_step default_retry_policy first_keeper ?t"
    by (rule keeper_step.turned) (simp add: keeper_run_simps)
  from kept.own [OF kept.start this] t have "kept default_retry_policy 0 0 first_keeper ?t" by simp
  from kept.own [OF this keeper_step.two_permits [OF t]] have "kept default_retry_policy 1 0 first_keeper ?d" by simp
  moreover have "keeper_step default_retry_policy ?d serving_keeper"
    unfolding serving_keeper_def by (rule keeper_step.both_reached) (simp_all add: keeper_run_simps)
  moreover have "kp_point serving_keeper \<noteq> Dialling"
    by (simp add: serving_keeper_def serve_both_def keeper_run_simps Let_def)
  ultimately show ?thesis by (auto dest: kept.own)
qed

theorem relay_dials_with_cause_witness:
  "\<exists>x. kp_point serving_keeper = Bridged x \<and> relayed default_retry_policy x \<and> br_rule x = relay_rule \<and> br_cleanup x = Some ''me''"
proof -
  have a: "kept default_retry_policy 1 0
      (new_keeper sample_server_a sample_server_b (Some ''me'') relay_rule quiet_status) serving_keeper"
    using serving_reached by (simp add: first_keeper_def)
  have p: "\<exists>x. kp_point serving_keeper = Bridged x" "kp_rule serving_keeper = relay_rule" "kp_cleanup serving_keeper = Some ''me''"
    by (simp_all add: serving_keeper_def serve_both_def keeper_run_simps Let_def)
  with relay_dials_with_cause [OF a kept.start] show ?thesis by auto
qed

end
