(* ===== verification/Offline.thy ===== *)
theory Offline
  imports DaemonSafety
begin

text \<open>
  Changes while the daemon is stopped, \<open>crates/fwm/src/offline.rs\<close> with \<open>offline/history.rs\<close>:
  with the daemon's lock held, the configuration is loaded, changed as the daemon would change it,
  committed, and the change recorded in the history. The lock, the presence of a daemon and the
  request forwarded to a running one are left out; JSON, the clock and the texts of warnings and
  errors are parameters.
\<close>

section \<open>Recording the change\<close>

record offline_env =
  ov_store :: store_env
  ov_instance :: string
  ov_now :: u64
  ov_encode :: "history_entry \<Rightarrow> string option"
  ov_encodes :: "mutation_reply \<Rightarrow> bool"
  ov_warning :: "store_warning list \<Rightarrow> string"
  ov_log_error :: "log_error \<Rightarrow> string"

definition offline_event :: "offline_env \<Rightarrow> history_entry list \<Rightarrow> string option \<Rightarrow> string option \<Rightarrow> string \<Rightarrow> engine_event" where
  "offline_event v noted fid sid msg = \<lparr>ev_context = None, ev_server_id = sid,
     ev_sequence = of_nat (length noted) + 1, ev_timestamp_ms = ov_now v, ev_forward_id = fid, ev_message = msg\<rparr>"

definition rule_entry ::
    "offline_env \<Rightarrow> config \<Rightarrow> config \<Rightarrow> string \<Rightarrow> history_entry list \<Rightarrow> string \<Rightarrow> history_entry list" where
  "rule_entry v before after msg noted i =
     (case or_else (forward after i) (forward before i) of
        None \<Rightarrow> noted
      | Some f \<Rightarrow>
          (case or_else (server after (fs_server_id f)) (server before (fs_server_id f)) of
             None \<Rightarrow> noted
           | Some s \<Rightarrow> noted @ [for_rule (ov_instance v) (offline_event v noted (Some i) (Some (sp_id s)) msg) f s]))"

definition server_entry ::
    "offline_env \<Rightarrow> config \<Rightarrow> config \<Rightarrow> string \<Rightarrow> history_entry list \<Rightarrow> string \<Rightarrow> history_entry list" where
  "server_entry v before after msg noted i =
     (case or_else (server after i) (server before i) of
        None \<Rightarrow> noted
      | Some s \<Rightarrow> noted @ [for_server (ov_instance v) (offline_event v noted None (Some i) msg) s])"

definition history_entries ::
    "offline_env \<Rightarrow> config \<Rightarrow> config \<Rightarrow> string list option \<Rightarrow> string \<Rightarrow> history_entry list" where
  "history_entries v before after selected msg =
     (let ids = (case selected of Some ids \<Rightarrow> ids | None \<Rightarrow> changed_keys forwards fs_id forward before after);
          rules = foldl (rule_entry v before after msg) [] ids;
          noted = foldl (server_entry v before after msg) rules (changed_keys servers sp_id server before after)
      in if noted = [] then [new_entry (ov_instance v) (offline_event v [] None None msg)] else noted)"

text \<open>The first entry that cannot be written ends it, and is mentioned in the message.\<close>

fun write_entries :: "offline_env \<Rightarrow> history_entry list \<Rightarrow> string \<Rightarrow> disk \<Rightarrow> string \<times> disk" where
  "write_entries v [] msg d = (msg, d)"
| "write_entries v (e # es) msg d = (case append_history (ov_encode v) d e of
       Inr d' \<Rightarrow> write_entries v es msg d'
     | Inl err \<Rightarrow> (msg @ '' Event log write failed: '' @ ov_log_error v err @ ''.'', d))"

definition record_offline ::
    "offline_env \<Rightarrow> config \<Rightarrow> config \<Rightarrow> string list option \<Rightarrow> string \<Rightarrow> disk \<Rightarrow> string \<times> disk" where
  "record_offline v before after selected msg d =
     write_entries v (history_entries v before after selected msg) msg d"

section \<open>The change\<close>

text \<open>Errors: those with a code of the interface, and those of the store.\<close>

datatype offline_error = Refused api_error | Broken store_error | Exhausted_revision | Not_encoded

definition next_revision :: "config \<Rightarrow> offline_error + u64" where
  "next_revision before = ok_or (checked_add (revision before) 1) Exhausted_revision"

definition read_change ::
    "offline_env \<Rightarrow> config \<Rightarrow> command \<Rightarrow> store \<Rightarrow> (offline_error + change) \<times> store" where
  "read_change v before cmd st =
     (if cmd = Reload then
        (case read_candidate (ov_store v) st of
           (Inl e, st') \<Rightarrow> (Inl (Broken e), st')
         | (Inr c, st') \<Rightarrow> (Inr \<lparr>ch_config = c, ch_selected = None, ch_message = ''configuration reloaded''\<rparr>, st'))
      else (map_err Refused (prepare (v_ua (ov_store v)) (v_js (ov_store v)) before cmd), st))"

definition offline_job :: "offline_env \<Rightarrow> bool \<Rightarrow> change \<Rightarrow> config \<Rightarrow> store_warning list action" where
  "offline_job v reloading ch c =
     (if reloading then commit_reload (ov_store v) c
      else case ch_selected ch of
          Some ids \<Rightarrow> commit_control_for (ov_store v) c ids
        | None \<Rightarrow> commit (ov_store v) c)"

definition offline_commit ::
    "offline_env \<Rightarrow> config \<Rightarrow> bool \<Rightarrow> change \<Rightarrow> store \<Rightarrow> (offline_error + config \<times> store_warning list) \<times> store" where
  "offline_commit v before reloading ch st =
     (case rbind (if \<not> reloading \<and> ch_selected ch = None
                  then rbind (map_err Broken (has_pending_edits (ov_store v) st)) (\<lambda>p. rguard p (Refused DraftPending))
                  else Inr ()) (\<lambda>_. next_revision before) of
        Inl e \<Rightarrow> (Inl e, st)
      | Inr r \<Rightarrow>
          let c = (ch_config ch)\<lparr>revision := r\<rparr>;
              (answer, st') = sbind (initialize (ov_store v) before) (\<lambda>_. offline_job v reloading ch c) st
          in (map_err Broken (rbind answer (\<lambda>ws. Inr (c, ws))), st'))"

definition apply_locked ::
    "offline_env \<Rightarrow> command \<Rightarrow> u64 option \<Rightarrow> store \<Rightarrow> disk \<Rightarrow> (offline_error + mutation_reply) \<times> store \<times> disk" where
  "apply_locked v cmd expected st d =
     (case load (ov_store v) st of
        (Inl e, st) \<Rightarrow> (Inl (Broken e), st, d)
      | (Inr (before, _), st) \<Rightarrow>
          if (case expected of None \<Rightarrow> False | Some r \<Rightarrow> r \<noteq> revision before)
          then (Inl (Refused (RevisionConflict (revision before))), st, d)
          else case read_change v before cmd st of
            (Inl e, st) \<Rightarrow> (Inl e, st, d)
          | (Inr ch, st) \<Rightarrow>
              let answer = (\<lambda>c msg. \<lparr>mr_revision = revision c, mr_message = msg, mr_config = c, mr_operation = None\<rparr>);
                  finish = (\<lambda>r. if ov_encodes v r then Inr r else Inl Not_encoded)
              in if cmd \<noteq> Reload \<and> ch_selected ch = None \<and> ch_config ch = before
                 then (finish (answer (ch_config ch) ''No changes; daemon remains stopped.''), st, d)
                 else case offline_commit v before (cmd = Reload) ch st of
                   (Inl e, st) \<Rightarrow> (Inl e, st, d)
                 | (Inr (c, ws), st) \<Rightarrow>
                     let msg = ch_message ch @ ''; daemon remains stopped.'' @ (if ws = [] then [] else '' '' @ ov_warning v ws);
                         (msg, d) = record_offline v before c (ch_selected ch) msg d
                     in (finish (answer c msg), st, d))"

section \<open>The history stays bounded\<close>

lemma write_entries_bounded: "log_bounded d \<Longrightarrow> log_bounded (snd (write_entries v es msg d))"
  by (induction es arbitrary: d msg) (auto split: sum.splits dest: append_keeps_bound)

lemma record_bounded: "log_bounded d \<Longrightarrow> record_offline v before after sel msg d = (msg', d') \<Longrightarrow> log_bounded d'"
  by (metis record_offline_def write_entries_bounded snd_conv)

section \<open>What is on disk\<close>

lemma back_up_files: "back_up n t st = (r, u) \<Longrightarrow> same_files st u"
  by (auto simp: back_up_def sbind_def sreturn_def publish_def next_outcome_def same_files_def Let_def
      split: if_splits list.splits prod.splits sum.splits)

lemma reserve_files: "reserve_revision n st = (r, u) \<Longrightarrow> same_files st u"
  by (auto simp: reserve_revision_def sbind_def sask_def sreturn_def slift_def publish_def next_outcome_def same_files_def Let_def
      split: if_splits list.splits prod.splits sum.splits option.splits)

lemma commit_cases:
  assumes "commit v c st = (r, u)"
  shows "case r of Inl _ \<Rightarrow> same_files st u | Inr _ \<Rightarrow> durable v c u"
proof (cases r)
  case (Inl e)
  then show ?thesis using assms
    by (auto simp: commit_def action_simps dest!: commit_with_overrides_cases)
next
  case (Inr ws)
  then show ?thesis using assms
    by (auto simp: commit_def action_simps dest!: commit_with_overrides_cases)
qed

lemma committed_or_same:
  assumes "sbind (commit_with_overrides v c ov candidate) (\<lambda>_. sreturn ()) st = (r, u)"
  shows "same_files st u \<or> durable v c u"
proof -
  obtain x where "commit_with_overrides v c ov candidate st = (x, u)"
    using assms by (auto simp: sbind_def sreturn_def split: prod.splits sum.splits)
  from commit_with_overrides_cases [OF this] show ?thesis by (auto split: sum.splits)
qed

lemma upgrade_cases:
  assumes "upgrade_snapshot v c t st = (r, u)"
  shows "same_files st u \<or> durable v c u"
proof (cases "\<exists>n. v_schema v t = Some (Some n) \<and> 1 \<le> n \<and> n < uint SCHEMA_VERSION")
  case False
  then have "u = st" using assms
    by (auto simp: upgrade_snapshot_def sbind_def slift_def sreturn_def ok_or_def split: option.splits if_splits sum.splits)
  then show ?thesis by simp
next
  case True
  then obtain n where n: "v_schema v t = Some (Some n)" "1 \<le> n" "n < uint SCHEMA_VERSION" by blast
  obtain x w where b: "back_up n t st = (x, w)" by fastforce
  have st: "same_files st w" using back_up_files [OF b] .
  show ?thesis
  proof (cases "\<exists>ov. x = Inr () \<and> read_overrides v (sf_snapshot w) = Inr ov")
    case False
    then have "u = w" using assms n b
      by (cases x) (auto simp: upgrade_snapshot_def sbind_def slift_def sask_def split: sum.splits)
    with st show ?thesis by simp
  next
    case True
    then obtain ov where "x = Inr ()" "read_overrides v (sf_snapshot w) = Inr ov" by blast
    with assms n b obtain candidate where
      "sbind (commit_with_overrides v c ov candidate) (\<lambda>_. sreturn ()) w = (r, u)"
      by (auto simp: upgrade_snapshot_def action_simps) (auto simp: sbind_def slift_def sask_def)
    from committed_or_same [OF this] st show ?thesis by (auto intro: same_files_trans)
  qed
qed

lemma initialize_cases:
  assumes "initialize v c st = (r, u)"
  shows "same_files st u \<or> durable v c u"
proof (cases "(\<exists>x. checked v c = Inr x) \<and> require_snapshot st = Inr ()")
  case False
  then have "u = st" using assms
    by (auto simp: initialize_def sbind_def slift_def sask_def split: sum.splits)
  then show ?thesis by simp
next
  case True
  show ?thesis
  proof (cases "sf_snapshot st")
    case None
    with True assms have "u = st \<or> (\<exists>x. sbind (commit_with_overrides v c [] x) (\<lambda>_. sreturn ()) st = (r, u))"
      by (simp add: initialize_def sbind_def [where m = "slift _"] sbind_def [where m = "sask _"] slift_def sask_def,
          cases "sf_read st"; cases "candidate_version st") (auto simp: sbind_def sreturn_def sask_def)
    then show ?thesis by (auto dest: committed_or_same)
  next
    case (Some t)
    obtain x w where w: "upgrade_snapshot v c t st = (x, w)" by fastforce
    from upgrade_cases [OF w] have st: "same_files st w \<or> durable v c w" .
    then have snap: "sf_snapshot w \<noteq> None" using Some by (auto simp: same_files_def durable_def)
    have "u = w \<or> reserve_revision (revision c) w = (r, u)" using True assms Some w snap
      by (cases x) (auto simp: initialize_def sbind_def slift_def sask_def)
    with st show ?thesis by (auto dest!: reserve_files intro: same_files_trans durable_files)
  qed
qed

lemma offline_commit_cases:
  assumes "offline_commit v before reloading ch st = (r, u)"
  shows "case r of
      Inl _ \<Rightarrow> same_files st u \<or> durable (ov_store v) before u
    | Inr (c, _) \<Rightarrow> unat (revision c) = unat (revision before) + 1 \<and> c = (ch_config ch)\<lparr>revision := revision c\<rparr> \<and>
        durable (ov_store v) c u"
proof (cases "rbind (if \<not> reloading \<and> ch_selected ch = None
    then rbind (map_err Broken (has_pending_edits (ov_store v) st)) (\<lambda>p. rguard p (Refused DraftPending))
    else Inr ()) (\<lambda>_. next_revision before)")
  case (Inl e)
  with assms show ?thesis by (auto simp: offline_commit_def)
next
  case (Inr n)
  then have n: "unat n = unat (revision before) + 1"
    by (auto simp: next_revision_def result_simps unat_checked_add split: if_splits)
  define c where "c = (ch_config ch)\<lparr>revision := n\<rparr>"
  have job: "case x of Inl _ \<Rightarrow> same_files y z | Inr _ \<Rightarrow> durable (ov_store v) c z" if "offline_job v reloading ch c y = (x, z)" for x y z
    using that commit_reload_cases [of "ov_store v" c y x z] commit_control_cases [of "ov_store v" c _ y x z]
      commit_cases [of "ov_store v" c y x z]
    by (auto simp: offline_job_def split: if_splits option.splits)
  obtain answer where a: "sbind (initialize (ov_store v) before) (\<lambda>_. offline_job v reloading ch c) st = (answer, u)"
    and r: "r = map_err Broken (rbind answer (\<lambda>ws. Inr (c, ws)))"
    using assms Inr by (auto simp: offline_commit_def Let_def c_def split: prod.splits)
  show ?thesis
  proof (cases answer)
    case (Inl e)
    then show ?thesis using a r initialize_cases [of "ov_store v" before st] job
      by (auto simp: action_simps intro: same_files_trans durable_files dest!: job)
  next
    case (Inr ws)
    then obtain w where "offline_job v reloading ch c w = (Inr ws, u)" using a by (auto simp: action_simps)
    from job [OF this] show ?thesis using Inr r n by (simp add: c_def)
  qed
qed

lemma read_change_files: "read_change v before cmd st = (r, u) \<Longrightarrow> same_files st u"
  by (auto simp: read_change_def split: if_splits sum.splits prod.splits dest: read_candidate_files)

lemma apply_locked_outcome:
  assumes "apply_locked v cmd expected st d = (r, u, d')" and "load (ov_store v) st = (Inr (before, w), st0)" and "log_bounded d"
  shows "log_bounded d' \<and> (case r of
      Inl e \<Rightarrow> e \<noteq> Not_encoded \<longrightarrow> same_files st u \<or> durable (ov_store v) before u
    | Inr m \<Rightarrow> mr_config m = before \<and> mr_revision m = revision before \<and> same_files st u \<or>
        unat (mr_revision m) = unat (revision before) + 1 \<and> revision (mr_config m) = mr_revision m \<and>
          durable (ov_store v) (mr_config m) u)"
proof -
  note st0 = load_files [OF assms(2)]
  obtain x st1 where x: "read_change v before cmd st0 = (x, st1)" by fastforce
  have st1: "same_files st st1" using read_change_files [OF x] st0 by (rule same_files_trans [rotated])
  show ?thesis
  proof (cases "case expected of None \<Rightarrow> False | Some n \<Rightarrow> n \<noteq> revision before")
    case True
    with assms st0 show ?thesis by (auto simp: apply_locked_def)
  next
    case False
    show ?thesis
    proof (cases x)
      case (Inl e)
      with False assms st1 x show ?thesis by (auto simp: apply_locked_def)
    next
      case (Inr ch)
      show ?thesis
      proof (cases "cmd \<noteq> Reload \<and> ch_selected ch = None \<and> ch_config ch = before")
        case True
        with False Inr assms st1 x show ?thesis by (auto simp: apply_locked_def Let_def)
      next
        case change: False
        obtain y st2 where y: "offline_commit v before (cmd = Reload) ch st1 = (y, st2)" by fastforce
        note after = offline_commit_cases [OF y]
        show ?thesis
        proof (cases y)
          case (Inl e)
          with after have "same_files st st2 \<or> durable (ov_store v) before st2"
            using st1 by (auto intro: same_files_trans)
          with False Inr change assms x y Inl show ?thesis by (auto simp: apply_locked_def Let_def)
        next
          case (Inr cw)
          obtain c ws where cw: "cw = (c, ws)" by fastforce
          obtain msg e where rec: "record_offline v before c (ch_selected ch)
              (ch_message ch @ ''; daemon remains stopped.'' @ (if ws = [] then [] else '' '' @ ov_warning v ws)) d = (msg, e)"
            by fastforce
          have e: "log_bounded e" using record_bounded [OF assms(3) rec] .
          from False \<open>x = Inr ch\<close> change assms(1,2) x y Inr cw rec have "u = st2" "d' = e"
            "r = (let m = \<lparr>mr_revision = revision c, mr_message = msg, mr_config = c, mr_operation = None\<rparr>
                  in if ov_encodes v m then Inr m else Inl Not_encoded)"
            by (auto simp: apply_locked_def Let_def)
          with e after Inr cw show ?thesis by (simp add: Let_def)
        qed
      qed
    qed
  qed
qed


section \<open>With and without a daemon\<close>

text \<open>Whether a commit succeeds does not depend on which draft it means to replace.\<close>

lemma reserve_read:
  "reserve_revision n (st\<lparr>sf_read := z\<rparr>) = (let (r, u) = reserve_revision n st in (r, u\<lparr>sf_read := z\<rparr>))"
  by (cases "sf_faults st")
    (auto simp: reserve_revision_def sbind_def sask_def saved_revision_def sreturn_def slift_def publish_def next_outcome_def Let_def
      split: sum.splits option.splits prod.splits)

lemma write_read:
  "write_snapshot t (st\<lparr>sf_read := z\<rparr>) = (let (r, u) = write_snapshot t st in (r, u\<lparr>sf_read := z\<rparr>))"
  by (cases "sf_faults st") (auto simp: write_snapshot_def publish_def next_outcome_def Let_def)

lemma commit_polarity:
  "is_ok (fst (commit_with_overrides v c ov x (st\<lparr>sf_read := z\<rparr>))) = is_ok (fst (commit_with_overrides v c ov y st))"
proof (cases "reserve_revision (revision c) st")
  case (Pair r u)
  then have z: "reserve_revision (revision c) (st\<lparr>sf_read := z\<rparr>) = (r, u\<lparr>sf_read := z\<rparr>)"
    by (simp add: reserve_read)
  define q w where "q = (\<lambda>t. fst (write_snapshot t u))" and "w = (\<lambda>t. snd (write_snapshot t u))"
  then have q: "write_snapshot t u = (q t, w t)" for t by simp
  then have q': "write_snapshot t (u\<lparr>sf_read := z\<rparr>) = (q t, (w t)\<lparr>sf_read := z\<rparr>)" for t by (simp add: write_read)
  show ?thesis
    by (cases r) (auto simp: commit_with_overrides_def sbind_def slift_def Pair z q q' split: sum.splits prod.splits)
qed

lemma commit_like_reload:
  assumes "has_pending_edits v st = Inr False" and "sf_snapshot st \<noteq> None"
  shows "is_ok (fst (commit v c st)) = is_ok (fst (commit_reload v c st))"
proof -
  from assms have "\<exists>a. Store.read_file v (sf_config st) = Inr a"
    by (auto simp: has_pending_edits_def result_simps)
  then obtain t where "sf_config st = Some t" "read_text (Some t) = Inr t"
    by (auto simp: Store.read_file_def read_text_def result_simps split: option.splits if_splits)
  then have version: "candidate_version st = Inr (Present t)" by (simp add: candidate_version_def)
  have "require_snapshot st = Inr ()" using assms(2) by (auto simp: require_snapshot_def)
  with assms(1) version have c: "commit v c st = (case read_overrides v (sf_snapshot st) of
      Inl e \<Rightarrow> (Inl e, st) | Inr ov \<Rightarrow> commit_with_overrides v c (rebase ov c) (Some (Present t)) st)"
    by (simp add: commit_def sbind_def sask_def slift_def split: sum.splits)
  have "candidate_version (st\<lparr>sf_read := None\<rparr>) = Inr (Present t)" using version by (simp add: candidate_version_def)
  with \<open>require_snapshot st = Inr ()\<close> have r: "commit_reload v c st = (case read_overrides v (sf_snapshot st) of
      Inl e \<Rightarrow> (Inl e, st)
    | Inr ov \<Rightarrow> commit_with_overrides v c (rebase ov c) (Some (case sf_read st of None \<Rightarrow> Present t | Some w \<Rightarrow> w)) (st\<lparr>sf_read := None\<rparr>))"
    by (simp add: commit_reload_def sbind_def sask_def take_read_def sreturn_def split: sum.splits option.splits)
  show ?thesis unfolding c r by (cases "read_overrides v (sf_snapshot st)") (simp, simp, rule commit_polarity [symmetric])
qed

text \<open>
  A store that a daemon has been started on: its snapshot is of the current schema and the revision
  reserved. Initializing it again does nothing.
\<close>

definition settled :: "store_env \<Rightarrow> config \<Rightarrow> store \<Rightarrow> bool" where
  "settled v c st = (checked v c = Inr c \<and>
     (case sf_snapshot st of
        None \<Rightarrow> False
      | Some t \<Rightarrow> (case v_schema v t of
            None \<Rightarrow> False
          | Some None \<Rightarrow> True
          | Some (Some n) \<Rightarrow> \<not> (1 \<le> n \<and> n < uint SCHEMA_VERSION))) \<and>
     (case saved_revision st of Inr (Some n) \<Rightarrow> revision c \<le> n | _ \<Rightarrow> False))"

lemma settled_initialize:
  assumes "settled v c st"
  shows "initialize v c (st\<lparr>sf_read := z\<rparr>) = (Inr (), st\<lparr>sf_read := z\<rparr>)"
proof -
  obtain t where t: "sf_snapshot st = Some t" using assms by (auto simp: settled_def split: option.splits)
  have "upgrade_snapshot v c t (st\<lparr>sf_read := z\<rparr>) = (Inr (), st\<lparr>sf_read := z\<rparr>)"
    using assms t by (auto simp: settled_def upgrade_snapshot_def sbind_def slift_def sreturn_def split: option.splits)
  moreover have "reserve_revision (revision c) (st\<lparr>sf_read := z\<rparr>) = (Inr (), st\<lparr>sf_read := z\<rparr>)"
    using assms
    by (auto simp: settled_def reserve_revision_def sbind_def sask_def sreturn_def saved_revision_def split: sum.splits option.splits)
  moreover have "require_snapshot (st\<lparr>sf_read := z\<rparr>) = Inr ()" "checked v c = Inr c" using assms t
    by (simp_all add: require_snapshot_def settled_def)
  ultimately show ?thesis using t by (simp add: initialize_def sbind_def slift_def sask_def)
qed

lemma offline_commit_settled:
  assumes "settled (ov_store v) before st" and "st' = st\<lparr>sf_read := z\<rparr>"
  shows "is_ok (fst (offline_commit v before reloading ch st')) =
    ((reloading \<or> ch_selected ch \<noteq> None \<or> has_pending_edits (ov_store v) st' = Inr False) \<and>
     (\<exists>n. checked_add (revision before) 1 = Some n \<and>
        is_ok (fst (offline_job v reloading ch ((ch_config ch)\<lparr>revision := n\<rparr>) st'))))"
proof -
  have i: "initialize (ov_store v) before st' = (Inr (), st')"
    unfolding assms(2) by (rule settled_initialize [OF assms(1)])
  have s: "sbind (initialize (ov_store v) before) f st' = f () st'" for f :: "unit \<Rightarrow> 'a action"
    by (simp add: sbind_def i)
  have m: "is_ok (map_err Broken (rbind a (\<lambda>ws. Inr (c, ws)))) = is_ok a" for a :: "store_error + store_warning list" and c :: config
    by (cases a) (simp_all add: is_ok_def)
  show ?thesis
    by (cases "checked_add (revision before) 1"; cases "has_pending_edits (ov_store v) st'")
      (auto simp: offline_commit_def next_revision_def s m Let_def rguard_def split: prod.splits)
qed

lemma offline_job_valid:
  assumes "is_ok (fst (offline_job v reloading ch c st))"
  shows "validate (v_ua (ov_store v)) (v_js (ov_store v)) c = Inr ()"
proof -
  obtain ws u where u: "offline_job v reloading ch c st = (Inr ws, u)"
    using assms by (cases "offline_job v reloading ch c st") (auto simp: is_ok_def split: sum.splits)
  then have "durable (ov_store v) c u"
    using commit_reload_cases [of "ov_store v" c st "Inr ws" u] commit_control_cases [of "ov_store v" c _ st "Inr ws" u]
      commit_cases [of "ov_store v" c st "Inr ws" u]
    by (auto simp: offline_job_def split: if_splits option.splits)
  then show ?thesis by (simp add: durable_def validate_iff_wf)
qed

text \<open>The same steps in the daemon, around a commit of its store.\<close>

lemma prepared_commit:
  assumes "journal_ok (ds_journal s)"
  shows "\<exists>rd t. dbind (\<lambda>s. Some (prepare_commit v c s, s)) (\<lambda>c. dbind (stored g (job c)) (\<lambda>ws. finish_commit v c msg ws sel)) s =
        Some (rd, t) \<and>
      is_ok rd = (\<exists>c'. prepare_commit v c s = Inr c' \<and> is_ok (fst (job c' (ds_store s)))) \<and>
      (\<forall>m. rd = Inr m \<longrightarrow> prepare_commit v c s = Inr (mr_config m) \<and> mr_revision m = revision (mr_config m))"
proof (cases "prepare_commit v c s")
  case (Inl e)
  then show ?thesis by (simp add: dbind_def is_ok_def)
next
  case (Inr c')
  obtain r st where r: "job c' (ds_store s) = (r, st)" by fastforce
  show ?thesis
  proof (cases r)
    case (Inl e)
    with Inr r show ?thesis by (simp add: dbind_def stored_def is_ok_def)
  next
    case ws: (Inr ws)
    have "journal_ok (ds_journal (s\<lparr>ds_store := st\<rparr>))" using assms by simp
    then obtain reply t where f: "finish_commit v c' msg ws sel (s\<lparr>ds_store := st\<rparr>) = Some (Inr reply, t)"
      using finish_commit_total by blast
    with finish_commit_result [OF f] Inr r ws show ?thesis by (simp add: dbind_def stored_def is_ok_def)
  qed
qed

lemma prepare_commit_iff:
  "prepare_commit v c s = Inr c' \<longleftrightarrow>
     (\<exists>n. checked_add (revision (ds_config s)) 1 = Some n \<and> c' = c\<lparr>revision := n\<rparr> \<and> validate (dv_ua v) (dv_js v) c' = Inr ())"
  by (auto simp: prepare_commit_def result_simps Let_def)

text \<open>Both sides of an accepted change, and of one that changes nothing.\<close>

definition unchanged :: "config \<Rightarrow> bool \<Rightarrow> change \<Rightarrow> bool" where
  "unchanged before reloading ch = (\<not> reloading \<and> ch_selected ch = None \<and> ch_config ch = before)"

definition agreed :: "config \<Rightarrow> bool \<Rightarrow> change \<Rightarrow> mutation_reply \<Rightarrow> bool" where
  "agreed before reloading ch m = (mr_revision m = revision (mr_config m) \<and>
     (if unchanged before reloading ch then mr_config m = before
      else \<exists>n. checked_add (revision before) 1 = Some n \<and> mr_config m = (ch_config ch)\<lparr>revision := n\<rparr>))"

lemma agreed_same:
  "agreed before reloading ch m \<Longrightarrow> agreed before reloading ch m' \<Longrightarrow> mr_config m' = mr_config m \<and> mr_revision m' = mr_revision m"
  by (auto simp: agreed_def split: if_splits)

lemma offline_side:
  assumes "load (ov_store v) st = (Inr (before, w), st)" and "\<not> (case expected of None \<Rightarrow> False | Some n \<Rightarrow> n \<noteq> revision before)"
    and "read_change v before cmd st = (Inr ch, st')" and "\<And>r. ov_encodes v r"
    and r: "fst (apply_locked v cmd expected st d) = r"
  shows "is_ok r = (unchanged before (cmd = Reload) ch \<or> is_ok (fst (offline_commit v before (cmd = Reload) ch st')))"
    and "r = Inr m \<Longrightarrow> agreed before (cmd = Reload) ch m"
proof -
  obtain y u where y: "offline_commit v before (cmd = Reload) ch st' = (y, u)" by fastforce
  have "is_ok r = (unchanged before (cmd = Reload) ch \<or> is_ok y) \<and> (r = Inr m \<longrightarrow> agreed before (cmd = Reload) ch m)"
  proof (cases "unchanged before (cmd = Reload) ch")
    case True
    then show ?thesis using assms(1-4) r by (auto simp: apply_locked_def unchanged_def Let_def agreed_def)
  next
    case changed: False
    show ?thesis
    proof (cases y)
      case (Inl e)
      then show ?thesis using assms(1-4) r y changed by (auto simp: apply_locked_def unchanged_def Let_def)
    next
      case (Inr cw)
      obtain c ws where cw: "cw = (c, ws)" by fastforce
      from y Inr cw obtain n where n: "checked_add (revision before) 1 = Some n" "c = (ch_config ch)\<lparr>revision := n\<rparr>"
        by (auto simp: offline_commit_def next_revision_def Let_def result_simps split: sum.splits prod.splits)
      obtain msg e where "record_offline v before c (ch_selected ch)
          (ch_message ch @ ''; daemon remains stopped.'' @ (if ws = [] then [] else '' '' @ ov_warning v ws)) d = (msg, e)"
        by fastforce
      with assms(1-4) r y changed Inr cw have "r = Inr \<lparr>mr_revision = revision c, mr_message = msg, mr_config = c, mr_operation = None\<rparr>"
        by (auto simp: apply_locked_def unchanged_def Let_def)
      then show ?thesis using Inr n changed by (auto simp: agreed_def)
    qed
  qed
  then show "is_ok r = (unchanged before (cmd = Reload) ch \<or> is_ok (fst (offline_commit v before (cmd = Reload) ch st')))"
    "r = Inr m \<Longrightarrow> agreed before (cmd = Reload) ch m" by (simp_all add: y)
qed

lemma offline_refuses:
  assumes "load (ov_store v) st = (Inr (before, w), st)"
    and "(case expected of None \<Rightarrow> False | Some n \<Rightarrow> n \<noteq> revision before) \<or> read_change v before cmd st = (Inl e, st')"
  shows "\<not> is_ok (fst (apply_locked v cmd expected st d))"
  using assms by (auto simp: apply_locked_def)

text \<open>The daemon's side of a change, of the configuration or the draft.\<close>

lemma job_polarity:
  assumes "ch_selected ch = None" and "has_pending_edits (ov_store v) st = Inr False" and "sf_snapshot st \<noteq> None"
  shows "is_ok (fst (offline_job v False ch c st)) = is_ok (fst (commit_reload (ov_store v) c st))"
  using assms by (simp add: offline_job_def commit_like_reload)

lemma daemon_commits:
  assumes "journal_ok (ds_journal s)" and "dv_store dv = ov_store v"
    and "\<And>c. is_ok (fst (job c (ds_store s))) = is_ok (fst (offline_job v reloading ch c (ds_store s)))"
    and "\<not> unchanged (ds_config s) reloading ch"
  shows "\<exists>rd t. dbind (\<lambda>s. Some (prepare_commit dv (ch_config ch) s, s))
        (\<lambda>c. dbind (stored g (job c)) (\<lambda>ws. finish_commit dv c msg ws sel)) s = Some (rd, t) \<and>
      is_ok rd = (\<exists>n. checked_add (revision (ds_config s)) 1 = Some n \<and>
         is_ok (fst (offline_job v reloading ch ((ch_config ch)\<lparr>revision := n\<rparr>) (ds_store s)))) \<and>
      (\<forall>m. rd = Inr m \<longrightarrow> agreed (ds_config s) reloading ch m)"
proof -
  note valid = offline_job_valid [of v reloading ch _ "ds_store s"]
  from prepared_commit [OF assms(1), of dv "ch_config ch" g job msg sel] obtain rd t where
    d: "dbind (\<lambda>s. Some (prepare_commit dv (ch_config ch) s, s))
        (\<lambda>c. dbind (stored g (job c)) (\<lambda>ws. finish_commit dv c msg ws sel)) s = Some (rd, t)"
      "is_ok rd = (\<exists>c'. prepare_commit dv (ch_config ch) s = Inr c' \<and> is_ok (fst (job c' (ds_store s))))"
      "\<And>m. rd = Inr m \<Longrightarrow> prepare_commit dv (ch_config ch) s = Inr (mr_config m) \<and> mr_revision m = revision (mr_config m)"
    by blast
  have "is_ok rd = (\<exists>n. checked_add (revision (ds_config s)) 1 = Some n \<and>
      is_ok (fst (offline_job v reloading ch ((ch_config ch)\<lparr>revision := n\<rparr>) (ds_store s))))"
    using d(2) valid assms(2,3) by (auto simp: prepare_commit_iff)
  moreover have "agreed (ds_config s) reloading ch m" if "rd = Inr m" for m
    using d(3) [OF that] assms(4) by (auto simp: agreed_def prepare_commit_iff)
  ultimately show ?thesis using d(1) by blast
qed

lemma daemon_change:
  assumes "prepare (dv_ua dv) (dv_js dv) (ds_config s) cmd = Inr ch" and "settled (ov_store v) (ds_config s) (ds_store s)"
    and "journal_ok (ds_journal s)" and "dv_store dv = ov_store v" and "\<And>r. dv_json dv r \<noteq> None"
  shows "\<exists>rd t. change_config dv cmd s = Some (rd, t) \<and>
      is_ok rd = (unchanged (ds_config s) False ch \<or> is_ok (fst (offline_commit v (ds_config s) False ch (ds_store s)))) \<and>
      (\<forall>x. rd = Inr x \<longrightarrow> (\<exists>m. x = MutationReply m \<and> agreed (ds_config s) False ch m))"
proof -
  have snap: "sf_snapshot (ds_store s) \<noteq> None" using assms(2) by (auto simp: settled_def split: option.splits)
  have off: "is_ok (fst (offline_commit v (ds_config s) False ch (ds_store s))) =
      ((ch_selected ch \<noteq> None \<or> has_pending_edits (ov_store v) (ds_store s) = Inr False) \<and>
       (\<exists>n. checked_add (revision (ds_config s)) 1 = Some n \<and>
          is_ok (fst (offline_job v False ch ((ch_config ch)\<lparr>revision := n\<rparr>) (ds_store s)))))"
    using offline_commit_settled [OF assms(2), of "ds_store s" "sf_read (ds_store s)" False ch] by simp
  have enc: "encode dv x = Inr x" for x using assms(5) by (simp add: encode_def)
  have wrap: ?thesis
    if "(case ch_selected ch of Some ids \<Rightarrow> commit_controlled dv (ch_config ch) ids (ch_message ch)
       | None \<Rightarrow> commit_change dv (ch_config ch) (ch_message ch)) s = Some (rd, t)"
      "is_ok rd = (unchanged (ds_config s) False ch \<or> is_ok (fst (offline_commit v (ds_config s) False ch (ds_store s))))"
      "\<And>m. rd = Inr m \<Longrightarrow> agreed (ds_config s) False ch m" for rd t
    using that assms(1) by (cases rd) (auto simp: change_config_def dbind_def dlift_def enc)
  show ?thesis
  proof (cases "ch_selected ch")
    case (Some ids)
    then have "\<not> unchanged (ds_config s) False ch" by (simp add: unchanged_def)
    from daemon_commits [OF assms(3,4) _ this, where job = "\<lambda>c. commit_control_for (dv_store dv) c ids" and g = StorageFailed and
        msg = "ch_message ch" and sel = "Some ids"] Some assms(4)
    obtain rd t where "commit_controlled dv (ch_config ch) ids (ch_message ch) s = Some (rd, t)"
      "is_ok rd = (\<exists>n. checked_add (revision (ds_config s)) 1 = Some n \<and>
         is_ok (fst (offline_job v False ch ((ch_config ch)\<lparr>revision := n\<rparr>) (ds_store s))))"
      "\<And>m. rd = Inr m \<Longrightarrow> agreed (ds_config s) False ch m"
      by (auto simp: commit_controlled_def offline_job_def)
    then show ?thesis by (intro wrap [of rd t]) (simp_all add: Some off unchanged_def)
  next
    case None
    show ?thesis
    proof (cases "ch_config ch = ds_config s")
      case True
      then show ?thesis using None
        by (intro wrap [of "Inr \<lparr>mr_revision = revision (ds_config s), mr_message = ''No changes.'', mr_config = ds_config s,
              mr_operation = None\<rparr>" s]) (auto simp: commit_change_def unchanged_def agreed_def)
    next
      case False
      show ?thesis
      proof (cases "has_pending_edits (ov_store v) (ds_store s) = Inr False")
        case True
        from False None have "\<not> unchanged (ds_config s) False ch" by (simp add: unchanged_def)
        from daemon_commits [OF assms(3,4) _ this, where job = "\<lambda>c. commit_reload (dv_store dv) c" and g = StorageFailed and
            msg = "ch_message ch" and sel = None] job_polarity [OF None True snap] assms(4)
        obtain rd t where "commit_reloaded dv (ch_config ch) (ch_message ch) s = Some (rd, t)"
          "is_ok rd = (\<exists>n. checked_add (revision (ds_config s)) 1 = Some n \<and>
             is_ok (fst (offline_job v False ch ((ch_config ch)\<lparr>revision := n\<rparr>) (ds_store s))))"
          "\<And>m. rd = Inr m \<Longrightarrow> agreed (ds_config s) False ch m"
          by (auto simp: commit_reloaded_def)
        with False None True assms(4) show ?thesis
          by (intro wrap [of rd t]) (simp_all add: off unchanged_def commit_change_def dbind_def stored_def sask_def dlift_def)
      next
        case pending: False
        have "\<exists>e. commit_change dv (ch_config ch) (ch_message ch) s = Some (Inl e, s)"
          using False pending assms(4)
          by (cases "has_pending_edits (ov_store v) (ds_store s)")
            (auto simp: commit_change_def dbind_def stored_def sask_def dlift_def rguard_def)
        then obtain e where "commit_change dv (ch_config ch) (ch_message ch) s = Some (Inl e, s)" ..
        with None False pending show ?thesis by (intro wrap [of "Inl e" s]) (simp_all add: off unchanged_def)
      qed
    qed
  qed
qed

lemma daemon_reload:
  assumes "read_candidate (ov_store v) (ds_store s) = (Inr c, st)" and "settled (ov_store v) (ds_config s) (ds_store s)"
    and "journal_ok (ds_journal s)" and "dv_store dv = ov_store v" and "\<And>r. dv_json dv r \<noteq> None"
    and ch: "ch = \<lparr>ch_config = c, ch_selected = None, ch_message = ''configuration reloaded''\<rparr>"
  shows "\<exists>rd t. reload dv s = Some (rd, t) \<and>
      is_ok rd = is_ok (fst (offline_commit v (ds_config s) True ch st)) \<and>
      (\<forall>x. rd = Inr x \<longrightarrow> (\<exists>m. x = MutationReply m \<and> agreed (ds_config s) True ch m))"
proof -
  let ?s = "s\<lparr>ds_store := st\<rparr>"
  obtain z where z: "st = (ds_store s)\<lparr>sf_read := z\<rparr>"
    using assms(1) by (auto simp: read_candidate_def sbind_def sask_def split: sum.splits)
  have off: "is_ok (fst (offline_commit v (ds_config s) True ch st)) =
       (\<exists>n. checked_add (revision (ds_config s)) 1 = Some n \<and> is_ok (fst (offline_job v True ch (c\<lparr>revision := n\<rparr>) st)))"
    using offline_commit_settled [OF assms(2) z, of True ch] by (simp add: ch)
  have enc: "encode dv x = Inr x" for x using assms(5) by (simp add: encode_def)
  have "journal_ok (ds_journal ?s)" "\<not> unchanged (ds_config ?s) True ch" using assms(3) by (simp_all add: unchanged_def)
  from daemon_commits [OF this(1) assms(4) _ this(2), where job = "\<lambda>c. commit_reload (dv_store dv) c" and g = StorageFailed and
      msg = "''configuration reloaded''" and sel = None] assms(4)
  obtain rd t where d: "commit_reloaded dv c ''configuration reloaded'' ?s = Some (rd, t)"
    "is_ok rd = is_ok (fst (offline_commit v (ds_config s) True ch st))"
    "\<And>m. rd = Inr m \<Longrightarrow> agreed (ds_config s) True ch m"
    by (auto simp: commit_reloaded_def offline_job_def off [unfolded ch] ch)
  have r: "stored DraftRejected (read_candidate (dv_store dv)) s = Some (Inr c, ?s)"
    by (simp add: stored_def assms(1,4))
  show ?thesis
  proof (cases rd)
    case (Inl e)
    with d r show ?thesis by (simp add: reload_def dbind_def)
  next
    case (Inr m)
    have "agreed (ds_config s) True ch (m\<lparr>mr_message := x\<rparr>)" for x using d(3) [OF Inr] by (simp add: agreed_def)
    with d(3) [OF Inr] d(1,2) r Inr show ?thesis by (auto simp: reload_def dbind_def enc Let_def split: prod.split sum.split)
  qed
qed


section \<open>A sample\<close>

definition settled_store :: store where
  "settled_store = sample_store\<lparr>sf_revision := Some ''7''\<rparr>"

definition sample_offline :: offline_env where
  "sample_offline = \<lparr>ov_store = reload_store_env, ov_instance = ''offline-1'', ov_now = 0, ov_encode = (\<lambda>_. None),
     ov_encodes = (\<lambda>_. True), ov_warning = (\<lambda>_. []), ov_log_error = (\<lambda>_. [])\<rparr>"

definition empty_disk :: disk where
  "empty_disk = \<lparr>active = None, archived = None\<rparr>"

lemma settled_loads: "\<exists>w. load reload_store_env settled_store = (Inr (sample_config, w), settled_store)"
proof -
  have "parse_text reload_store_env ''plain'' = Inr sample_config"
    using sample_current by (simp add: parse_text_def reload_store_env_def migrate_current)
  moreover have "normalized reload_store_env sample_config = Inr sample_config"
    using sample_normalized [OF refl] by (simp add: reload_store_env_def normalized_def)
  moreover have "checked reload_store_env sample_config = Inr sample_config"
    using sample_wf by (simp add: checked_Inr reload_store_env_def)
  ultimately have "Store.read_file reload_store_env (Some ''plain'') = Inr sample_config"
    by (simp add: Store.read_file_def read_text_def MAX_CONFIG_BYTES_def)
  then show ?thesis by (simp add: load_def settled_store_def sample_store_def)
qed

lemma settled_settled: "settled reload_store_env sample_config settled_store"
proof -
  have "saved_revision settled_store = Inr (Some 7)"
    by (simp add: saved_revision_def settled_store_def read_text_def MAX_CONFIG_BYTES_def trim_def parse_uint_def digits_value_def
        is_ascii_digit_def is_whitespace_def byte_def)
  moreover have "checked reload_store_env sample_config = Inr sample_config"
    using sample_wf by (simp add: checked_Inr reload_store_env_def)
  moreover have "revision sample_config = 7" by (simp add: sample_config_def)
  ultimately show ?thesis by (simp add: settled_def settled_store_def sample_store_def reload_store_env_def sample_env_def)
qed


lemma sample_no_change:
  "apply_locked sample_offline (PutServer sample_server_a) (Some 7) settled_store empty_disk =
     (Inr \<lparr>mr_revision = 7, mr_message = ''No changes; daemon remains stopped.'', mr_config = sample_config, mr_operation = None\<rparr>,
      settled_store, empty_disk)"
proof -
  obtain w where w: "load reload_store_env settled_store = (Inr (sample_config, w), settled_store)" using settled_loads by blast
  have "sample_config\<lparr>servers := put sp_id sample_server_a (servers sample_config)\<rparr> = sample_config"
    by (simp add: put_def sample_config_def)
  moreover have "validate no_ext small_json sample_config = Inr ()" using sample_wf by (simp add: validate_iff_wf)
  moreover have "revision sample_config = 7" by (simp add: sample_config_def)
  ultimately show ?thesis using w
    by (simp add: apply_locked_def read_change_def sample_offline_def prepare_def reload_store_env_def [THEN arg_cong, of v_ua]
        reload_store_env_def [THEN arg_cong, of v_js])
qed


end
