(* ===== verification/HostTrust.thy ===== *)
theory HostTrust
  imports SshResolve Patterns
begin

text \<open>
  Host keys, \<open>crates/fwm-core/src/ssh/trust.rs\<close>: whether a server's key is known, and adding one the
  user has approved. A key is its key data, of any type; reading, writing and fingerprinting keys,
  HMAC and base64 are parameters. Files are texts; one that cannot be read is a case of its own.
\<close>

section \<open>Data\<close>

record 'k key_env =
  ke_parse :: "string \<Rightarrow> 'k option"
  ke_show :: "'k \<Rightarrow> string option"
  ke_algorithm :: "'k \<Rightarrow> string"
  ke_fingerprint :: "'k \<Rightarrow> string"
  ke_hmac :: "string \<Rightarrow> string \<Rightarrow> string"
  ke_base64 :: "string \<Rightarrow> string option"

datatype known_file = Absent | Unreadable | Holding string

datatype trust_status = Unknown_key | Trusted_key | Changed_key | Revoked_key

datatype trust_error =
    InvalidEntry nat | BadMarker string nat | CannotRead string | HostCertificate | UnknownHostKey string string
  | HostKeyChanged string string | RevokedHostKey string | BadKeyText | NotApproved | BadIdentity | NotWritten

datatype 'k offered_key = Plain_key 'k | Certificate

record host_key_info =
  hk_host :: string
  hk_port :: u16
  hk_algorithm :: string
  hk_fingerprint :: string
  hk_public_key :: string
  hk_known_hosts :: string
  hk_global :: "string list"
  hk_status :: trust_status

section \<open>Matching hosts\<close>

definition host_token :: "string \<Rightarrow> u16 \<Rightarrow> string" where
  "host_token host port = (if port = 22 then host else ''['' @ host @ '']:'' @ show_word port)"

definition hashed_matches :: "'k key_env \<Rightarrow> string \<Rightarrow> string \<Rightarrow> bool" where
  "hashed_matches v hashed host = (case split_once CHR ''|'' hashed of
       None \<Rightarrow> False
     | Some (salt, hash) \<Rightarrow> (case (ke_base64 v salt, ke_base64 v hash) of
           (Some s, Some h) \<Rightarrow> ke_hmac v s host = h
         | _ \<Rightarrow> False))"

definition entry_matches :: "'k key_env \<Rightarrow> string \<Rightarrow> string \<Rightarrow> bool" where
  "entry_matches v entry host = (case strip_prefix ''|1|'' entry of
       Some hashed \<Rightarrow> hashed_matches v hashed host
     | None \<Rightarrow> wildcard_match entry host = Some True)"

fun host_loop :: "'k key_env \<Rightarrow> string \<Rightarrow> string list \<Rightarrow> bool \<Rightarrow> bool" where
  "host_loop v host [] matched = matched"
| "host_loop v host (entry # entries) matched =
     (case strip_prefix ''!'' entry of
        Some rest \<Rightarrow> if entry_matches v rest host then False else host_loop v host entries matched
      | None \<Rightarrow> host_loop v host entries (matched \<or> entry_matches v entry host))"

definition host_matches :: "'k key_env \<Rightarrow> string \<Rightarrow> string \<Rightarrow> bool" where
  "host_matches v patterns host = host_loop v host (split_on CHR '','' patterns) False"

section \<open>Reading known hosts\<close>

definition merge :: "trust_status \<Rightarrow> trust_status \<Rightarrow> trust_status" where
  "merge a b =
     (if a = Revoked_key \<or> b = Revoked_key then Revoked_key
      else if a = Trusted_key \<or> b = Trusted_key then Trusted_key
      else if a = Changed_key \<or> b = Changed_key then Changed_key
      else Unknown_key)"

text \<open>The words of a line: an optional marker, the hosts, and the rest.\<close>

definition line_words :: "string \<Rightarrow> string list" where
  "line_words line = split_whitespace (utf8_chunks line)"

definition marked :: "string list \<Rightarrow> string option \<times> string \<times> string list" where
  "marked ws = (case ws of
       [] \<Rightarrow> (None, [], [])
     | w # rest \<Rightarrow>
         if starts_with ''@'' w
         then (Some w, (case rest of [] \<Rightarrow> [] | h # _ \<Rightarrow> h), (case rest of [] \<Rightarrow> [] | _ # ks \<Rightarrow> ks))
         else (None, w, rest))"

definition stored_key :: "'k key_env \<Rightarrow> nat \<Rightarrow> string list \<Rightarrow> trust_error + 'k" where
  "stored_key v n ws = (case ws of
       algorithm # encoded # _ \<Rightarrow> ok_or (ke_parse v (algorithm @ '' '' @ encoded)) (InvalidEntry n)
     | _ \<Rightarrow> Inl (InvalidEntry n))"

definition judge ::
    "'k key_env \<Rightarrow> 'k \<Rightarrow> nat \<Rightarrow> string option \<Rightarrow> 'k \<Rightarrow> trust_status \<Rightarrow> trust_error + trust_status" where
  "judge v k n marker stored st = (case marker of
       Some m \<Rightarrow>
         if m = ''@revoked'' then Inr (if stored = k then Revoked_key else st)
         else if m = ''@cert-authority'' then Inr st
         else Inl (BadMarker m n)
     | None \<Rightarrow>
         if stored = k then Inr (merge st Trusted_key)
         else if ke_algorithm v stored = ke_algorithm v k then Inr (merge st Changed_key)
         else Inr st)"

definition skipped :: "string \<Rightarrow> bool" where
  "skipped line = (line = [] \<or> starts_with ''#'' line)"

definition check_line ::
    "'k key_env \<Rightarrow> string \<Rightarrow> 'k \<Rightarrow> nat \<Rightarrow> string \<Rightarrow> trust_status \<Rightarrow> trust_error + trust_status" where
  "check_line v token k n raw st =
     (let line = trim raw; (marker, hosts, rest) = marked (line_words line)
      in if skipped line \<or> \<not> host_matches v hosts token then Inr st
         else rbind (stored_key v n rest) (\<lambda>stored. judge v k n marker stored st))"

fun check_lines ::
    "'k key_env \<Rightarrow> string \<Rightarrow> 'k \<Rightarrow> nat \<Rightarrow> string list \<Rightarrow> trust_status \<Rightarrow> trust_error + trust_status" where
  "check_lines v token k n [] st = Inr st"
| "check_lines v token k n (line # ls) st =
     rbind (check_line v token k n line st) (check_lines v token k (n + 1) ls)"

definition check_contents :: "'k key_env \<Rightarrow> string \<Rightarrow> string \<Rightarrow> u16 \<Rightarrow> 'k \<Rightarrow> trust_error + trust_status" where
  "check_contents v contents host port k =
     check_lines v (host_token host port) k 1 (str_lines contents) Unknown_key"

type_synonym known_files = "string \<Rightarrow> known_file"

definition read_status ::
    "'k key_env \<Rightarrow> known_files \<Rightarrow> string \<Rightarrow> string \<Rightarrow> u16 \<Rightarrow> 'k \<Rightarrow> trust_error + trust_status" where
  "read_status v files path host port k = (case files path of
       Absent \<Rightarrow> Inr Unknown_key
     | Unreadable \<Rightarrow> Inl (CannotRead path)
     | Holding contents \<Rightarrow> check_contents v contents host port k)"

fun check_files ::
    "'k key_env \<Rightarrow> known_files \<Rightarrow> string \<Rightarrow> u16 \<Rightarrow> 'k \<Rightarrow> string list \<Rightarrow> trust_status \<Rightarrow> trust_error + trust_status" where
  "check_files v files host port k [] st = Inr st"
| "check_files v files host port k (path # paths) st =
     rbind (read_status v files path host port k) (\<lambda>s. check_files v files host port k paths (merge st s))"

section \<open>Verifying a key\<close>

definition validate_status :: "'k key_env \<Rightarrow> trust_status \<Rightarrow> string \<Rightarrow> 'k \<Rightarrow> trust_error + unit" where
  "validate_status v st host k = (case st of
       Trusted_key \<Rightarrow> Inr ()
     | Unknown_key \<Rightarrow> Inl (UnknownHostKey host (ke_fingerprint v k))
     | Changed_key \<Rightarrow> Inl (HostKeyChanged host (ke_fingerprint v k))
     | Revoked_key \<Rightarrow> Inl (RevokedHostKey host))"

abbreviation trust_files :: "resolved_server \<Rightarrow> string list" where
  "trust_files s \<equiv> rs_known_hosts s # rs_global_known_hosts s"

definition verify_host_key :: "'k key_env \<Rightarrow> known_files \<Rightarrow> resolved_server \<Rightarrow> 'k offered_key \<Rightarrow> trust_error + bool" where
  "verify_host_key v files s offered = (case offered of
       Certificate \<Rightarrow> Inl HostCertificate
     | Plain_key k \<Rightarrow>
         rbind (check_files v files (trust_host s) (rs_port s) k (trust_files s) Unknown_key) (\<lambda>st.
         rbind (validate_status v st (trust_host s) k) (\<lambda>_. Inr True)))"

definition from_key :: "'k key_env \<Rightarrow> known_files \<Rightarrow> resolved_server \<Rightarrow> 'k \<Rightarrow> trust_error + host_key_info" where
  "from_key v files s k =
     rbind (check_files v files (trust_host s) (rs_port s) k (trust_files s) Unknown_key) (\<lambda>st.
     rbind (ok_or (ke_show v k) BadKeyText) (\<lambda>text.
     Inr \<lparr>hk_host = trust_host s, hk_port = rs_port s, hk_algorithm = ke_algorithm v k, hk_fingerprint = ke_fingerprint v k,
          hk_public_key = text, hk_known_hosts = rs_known_hosts s, hk_global = rs_global_known_hosts s, hk_status = st\<rparr>))"

section \<open>Trusting a key\<close>

definition bad_identity :: "string \<Rightarrow> u16 \<Rightarrow> bool" where
  "bad_identity host port =
     (host = [] \<or> (\<exists>c \<in> set host. c \<in> {CHR '' '', CHR 0x09, CHR 0x0D, CHR 0x0A, CHR '','', CHR 0x00}) \<or> port = 0)"

definition missing_newline :: "string \<Rightarrow> string" where
  "missing_newline contents = (if contents \<noteq> [] \<and> last contents \<noteq> CHR 0x0A then [CHR 0x0A] else [])"

text \<open>The text read from a file once it is open.\<close>

fun file_text :: "known_file \<Rightarrow> string" where
  "file_text (Holding c) = c"
| "file_text _ = []"

text \<open>
  The entry at the end of the text: a newline if the last line has none, then the line. \<open>written\<close> is
  \<open>None\<close> when everything is written and synced, or the number of bytes that reach the file before an
  error.
\<close>

definition append_entry ::
    "'k key_env \<Rightarrow> string \<Rightarrow> u16 \<Rightarrow> 'k \<Rightarrow> nat option \<Rightarrow> string \<Rightarrow> (trust_error + unit) \<times> string" where
  "append_entry v host port k written contents =
     (let newline = missing_newline contents
      in if newline \<noteq> [] \<and> written = Some 0 then (Inl NotWritten, contents)
         else case ke_show v k of
           None \<Rightarrow> (Inl BadKeyText, contents @ newline)
         | Some text \<Rightarrow>
             let entry = newline @ host_token host port @ '' '' @ text @ [CHR 0x0A]
             in case written of
                  None \<Rightarrow> (Inr (), contents @ entry)
                | Some n \<Rightarrow> (Inl NotWritten, contents @ take n entry))"

definition trust_host_key ::
    "'k key_env \<Rightarrow> host_key_info \<Rightarrow> string \<Rightarrow> nat option \<Rightarrow> known_files \<Rightarrow> (trust_error + unit) \<times> known_files" where
  "trust_host_key v info expected written files =
     (case ke_parse v (hk_public_key info) of
        None \<Rightarrow> (Inl BadKeyText, files)
      | Some k \<Rightarrow>
          if expected \<noteq> ke_fingerprint v k \<or> expected \<noteq> hk_fingerprint info then (Inl NotApproved, files)
          else if bad_identity (hk_host info) (hk_port info) then (Inl BadIdentity, files)
          else if files (hk_known_hosts info) = Unreadable then (Inl (CannotRead (hk_known_hosts info)), files)
          else
            let contents = file_text (files (hk_known_hosts info));
                keep = files(hk_known_hosts info := Holding contents)
            in case rbind (check_contents v contents (hk_host info) (hk_port info) k)
                      (check_files v keep (hk_host info) (hk_port info) k (hk_global info)) of
                 Inl e \<Rightarrow> (Inl e, keep)
               | Inr st \<Rightarrow>
                   if st = Trusted_key then (Inr (), keep)
                   else if st \<noteq> Unknown_key then (validate_status v st (hk_host info) k, keep)
                   else let (r, text) = append_entry v (hk_host info) (hk_port info) k written contents
                        in (r, files(hk_known_hosts info := Holding text)))"

section \<open>What is decided\<close>

text \<open>The entries of a text for a host: their markers and keys, if all of them can be read.\<close>

fun host_entries :: "'k key_env \<Rightarrow> string \<Rightarrow> string list \<Rightarrow> (string option \<times> 'k) list option" where
  "host_entries v token [] = Some []"
| "host_entries v token (raw # ls) =
     (let line = trim raw; (marker, hosts, rest) = marked (line_words line)
      in if skipped line \<or> \<not> host_matches v hosts token then host_entries v token ls
         else case (stored_key v 0 rest, host_entries v token ls) of
           (Inr stored, Some es) \<Rightarrow> if marker \<in> {None, Some ''@revoked'', Some ''@cert-authority''} then Some ((marker, stored) # es) else None
         | _ \<Rightarrow> None)"

text \<open>What entries say of a key.\<close>

definition verdict :: "'k key_env \<Rightarrow> 'k \<Rightarrow> (string option \<times> 'k) list \<Rightarrow> trust_status" where
  "verdict v k es =
     (if (Some ''@revoked'', k) \<in> set es then Revoked_key
      else if (None, k) \<in> set es then Trusted_key
      else if (\<exists>(m, j) \<in> set es. m = None \<and> ke_algorithm v j = ke_algorithm v k) then Changed_key
      else Unknown_key)"

fun file_entries :: "'k key_env \<Rightarrow> string \<Rightarrow> known_file \<Rightarrow> (string option \<times> 'k) list option" where
  "file_entries v token Absent = Some []"
| "file_entries v token Unreadable = None"
| "file_entries v token (Holding contents) = host_entries v token (str_lines contents)"

definition all_entries :: "'k key_env \<Rightarrow> known_files \<Rightarrow> string list \<Rightarrow> string \<Rightarrow> (string option \<times> 'k) list option" where
  "all_entries v files paths token =
     (if None \<in> set (map (\<lambda>p. file_entries v token (files p)) paths) then None
      else Some (concat (map (\<lambda>p. the (file_entries v token (files p))) paths)))"

lemma merge_simps [simp]:
  "merge Unknown_key s = s" "merge s Unknown_key = s" "merge s s = s" "merge Revoked_key s = Revoked_key" "merge s Revoked_key = Revoked_key"
  by (cases s; simp add: merge_def)+

lemma merge_assoc: "merge (merge a b) c = merge a (merge b c)"
  by (auto simp: merge_def)

lemma verdict_append: "verdict v k (xs @ ys) = merge (verdict v k xs) (verdict v k ys)"
  by (auto simp: verdict_def merge_def)

lemma verdict_Nil [simp]: "verdict v k [] = Unknown_key"
  by (simp add: verdict_def)

lemma judge_verdict:
  assumes "marker \<in> {None, Some ''@revoked'', Some ''@cert-authority''}"
  shows "judge v k n marker stored st = Inr (merge st (verdict v k [(marker, stored)]))"
  using assms by (auto simp: judge_def verdict_def)

lemma stored_key_line: "stored_key v n ws = (case stored_key v 0 ws of Inr x \<Rightarrow> Inr x | Inl _ \<Rightarrow> Inl (InvalidEntry n))"
  by (auto simp: stored_key_def ok_or_def split: list.splits option.splits)

lemma check_lines_entries:
  "(case host_entries v token ls of
      None \<Rightarrow> \<exists>e. check_lines v token k n ls st = Inl e
    | Some es \<Rightarrow> check_lines v token k n ls st = Inr (merge st (verdict v k es)))"
proof (induction ls arbitrary: n st)
  case Nil
  then show ?case by simp
next
  case (Cons raw ls)
  obtain marker hosts rest where m: "marked (line_words (trim raw)) = (marker, hosts, rest)" by (metis prod_cases3)
  note IH = Cons.IH [of "n + 1"]
  show ?case
  proof (cases "skipped (trim raw) \<or> \<not> host_matches v hosts token")
    case True
    with m have c: "check_lines v token k n (raw # ls) st = check_lines v token k (n + 1) ls st"
      and h: "host_entries v token (raw # ls) = host_entries v token ls" by (auto simp: check_line_def)
    show ?thesis unfolding c h by (rule IH)
  next
    case False
    show ?thesis
    proof (cases "stored_key v 0 rest")
      case (Inl e)
      with False m show ?thesis by (simp add: check_line_def stored_key_line [of v n])
    next
      case (Inr stored)
      show ?thesis
      proof (cases "marker \<in> {None, Some ''@revoked'', Some ''@cert-authority''}")
        case True
        define d where "d = verdict v k [(marker, stored)]"
        have vd: "verdict v k ((marker, stored) # es) = merge d (verdict v k es)" for es
          using verdict_append [of v k "[(marker, stored)]" es] by (simp add: d_def)
        have c: "check_lines v token k n (raw # ls) st = check_lines v token k (n + 1) ls (merge st d)"
          using False m Inr by (simp add: check_line_def stored_key_line [of v n] judge_verdict [OF True] d_def)
        have h: "host_entries v token (raw # ls) = map_option (Cons (marker, stored)) (host_entries v token ls)"
          using False m Inr True by (simp split: option.split)
        show ?thesis unfolding c h using IH [of "merge st d"]
          by (cases "host_entries v token ls") (simp_all add: merge_assoc vd)
      next
        case bad: False
        then have "\<exists>e. judge v k n marker stored st = Inl e" by (auto simp: judge_def split: option.splits)
        with False m Inr bad show ?thesis
          by (auto simp: check_line_def stored_key_line [of v n] simp del: insert_iff split: option.splits)
      qed
    qed
  qed
qed

lemma read_status_entries:
  "(case file_entries v (host_token host port) (files path) of
      None \<Rightarrow> \<exists>e. read_status v files path host port k = Inl e
    | Some es \<Rightarrow> read_status v files path host port k = Inr (verdict v k es))"
proof (cases "files path")
  case (Holding c)
  with check_lines_entries [where v = v and token = "host_token host port" and ls = "str_lines c" and k = k and n = 1 and
      st = Unknown_key]
  show ?thesis by (cases "host_entries v (host_token host port) (str_lines c)") (simp_all add: Holding read_status_def check_contents_def)
qed (simp_all add: read_status_def)

lemma check_files_entries:
  "(case all_entries v files paths (host_token host port) of
      None \<Rightarrow> \<exists>e. check_files v files host port k paths st = Inl e
    | Some es \<Rightarrow> check_files v files host port k paths st = Inr (merge st (verdict v k es)))"
proof (induction paths arbitrary: st)
  case Nil
  then show ?case by (simp add: all_entries_def)
next
  case (Cons p paths)
  show ?case
  proof (cases "file_entries v (host_token host port) (files p)")
    case None
    with read_status_entries [where v = v and host = host and port = port and files = files and path = p and k = k] show ?thesis by (auto simp: all_entries_def)
  next
    case (Some es)
    with read_status_entries [where v = v and host = host and port = port and files = files and path = p and k = k]
    have "read_status v files p host port k = Inr (verdict v k es)" by simp
    with Some Cons.IH [of "merge st (verdict v k es)"] show ?thesis
      by (auto simp: all_entries_def verdict_append merge_assoc split: if_splits)
  qed
qed

lemma verify_entries:
  "(case all_entries v files (trust_files s) (host_token (trust_host s) (rs_port s)) of
      None \<Rightarrow> \<exists>e. verify_host_key v files s (Plain_key k) = Inl e
    | Some xs \<Rightarrow> verify_host_key v files s (Plain_key k) =
        rbind (validate_status v (verdict v k xs) (trust_host s) k) (\<lambda>_. Inr True))"
  using check_files_entries [where v = v and files = files and paths = "trust_files s" and host = "trust_host s" and port = "rs_port s"
      and k = k and st = Unknown_key]
  by (auto simp: verify_host_key_def split: option.splits)

text \<open>
  Property C16. A connection is let through exactly when the server offers a plain key, every entry
  for the server in every file can be read, none of them revokes the key and some entry without a
  marker has it. A key other than the recorded one of its algorithm is reported as changed, not as
  unknown.
\<close>

theorem host_key_decided:
  "(\<exists>b. verify_host_key v files s offered = Inr b) =
     (\<exists>k xs. offered = Plain_key k \<and> all_entries v files (trust_files s) (host_token (trust_host s) (rs_port s)) = Some xs \<and>
        (Some ''@revoked'', k) \<notin> set xs \<and> (None, k) \<in> set xs) \<and>
   (\<forall>k xs j. offered = Plain_key k \<and> all_entries v files (trust_files s) (host_token (trust_host s) (rs_port s)) = Some xs \<and>
        (\<forall>m. (m, k) \<notin> set xs) \<and> (None, j) \<in> set xs \<and> ke_algorithm v j = ke_algorithm v k \<longrightarrow>
      verify_host_key v files s offered = Inl (HostKeyChanged (trust_host s) (ke_fingerprint v k)))"
proof (cases offered)
  case Certificate
  then show ?thesis by (simp add: verify_host_key_def)
next
  case (Plain_key k)
  note * = verify_entries [of v files s k]
  show ?thesis
  proof (cases "all_entries v files (trust_files s) (host_token (trust_host s) (rs_port s))")
    case None
    with * Plain_key show ?thesis by auto
  next
    case (Some xs)
    with * have v: "verify_host_key v files s (Plain_key k) =
        rbind (validate_status v (verdict v k xs) (trust_host s) k) (\<lambda>_. Inr True)" by simp
    show ?thesis unfolding Plain_key v Some by (auto simp: verdict_def validate_status_def)
  qed
qed

section \<open>Trusting\<close>

lemma split_on_append_any: "split_on sep (a @ sep # b) = split_on sep a @ split_on sep b"
  by (induction a) (auto split: list.splits)

lemma split_on_last:
  "last (split_on sep s) = [] \<longleftrightarrow> s = [] \<or> last s = sep"
  "last (split_on sep s) \<noteq> [] \<Longrightarrow> last (last (split_on sep s)) = last s"
proof -
  have ne: "split_on sep (a @ [c]) = butlast (split_on sep a) @ [last (split_on sep a) @ [c]]" if "c \<noteq> sep" for a c
    using that by (induction a) (auto split: list.splits)
  have snoc: "last (split_on sep (a @ [c])) = (if c = sep then [] else last (split_on sep a) @ [c])" for a c
    using split_on_append_any [of sep a "[]"] by (simp add: ne)
  show "last (split_on sep s) = [] \<longleftrightarrow> s = [] \<or> last s = sep"
    by (cases s rule: rev_cases) (simp_all add: snoc)
  show "last (split_on sep s) \<noteq> [] \<Longrightarrow> last (last (split_on sep s)) = last s"
    by (cases s rule: rev_cases) (simp_all add: snoc split: if_splits)
qed

text \<open>Appending a line to a text, whether its last line is terminated or not.\<close>

lemma append_line:
  assumes "CHR 0x0A \<notin> set line" and "line \<noteq> []" and "last line \<noteq> CHR 0x0D" and "c = [] \<or> last c \<noteq> CHR 0x0D"
  shows "str_lines (c @ missing_newline c @ line @ [CHR 0x0A]) = str_lines c @ [line]"
proof (cases "c = [] \<or> last c = CHR 0x0A")
  case True
  note line = split_on_append_any [of "CHR 0x0A" line "[]"] split_on_no_sep [OF assms(1)]
  from True show ?thesis
  proof
    assume "c = []"
    then show ?thesis using assms line by (simp add: str_lines_def missing_newline_def Let_def)
  next
    assume "last c = CHR 0x0A"
    show ?thesis
    proof (cases "c = []")
      case False
      then obtain d where d: "c = d @ [CHR 0x0A]" using \<open>last c = _\<close> by (metis append_butlast_last_id)
      have "split_on CHR 0x0A (d @ CHR 0x0A # line @ [CHR 0x0A]) = split_on CHR 0x0A d @ [line, []]"
        using line by (simp add: split_on_append_any)
      with d assms show ?thesis by (simp add: str_lines_def missing_newline_def Let_def split_on_append_any butlast_append)
    qed (use assms line in \<open>simp add: str_lines_def missing_newline_def Let_def\<close>)
  qed
next
  case False
  define ls where "ls = split_on CHR 0x0A c"
  have l: "last ls \<noteq> []" "last (last ls) \<noteq> CHR 0x0D"
    using False assms(4) split_on_last [of "CHR 0x0A" c] by (simp_all add: ls_def)
  have ls: "ls \<noteq> []" by (simp add: ls_def)
  have "split_on CHR 0x0A (c @ CHR 0x0A # line @ [CHR 0x0A]) = ls @ [line, []]"
    using split_on_append_any [of "CHR 0x0A" c "line @ [CHR 0x0A]"] split_on_append_any [of "CHR 0x0A" line "[]"]
      split_on_no_sep [OF assms(1)] by (simp add: ls_def)
  then have "str_lines (c @ missing_newline c @ line @ [CHR 0x0A]) =
      map (\<lambda>l. if l \<noteq> [] \<and> last l = CHR 0x0D then butlast l else l) (butlast ls @ [last ls]) @ [line]"
    using False assms ls by (simp add: str_lines_def missing_newline_def Let_def butlast_append)
  also have "map (\<lambda>l. if l \<noteq> [] \<and> last l = CHR 0x0D then butlast l else l) (butlast ls @ [last ls]) = str_lines c"
    unfolding map_append using l by (simp add: str_lines_def Let_def ls_def)
  finally show ?thesis .
qed

lemma host_entries_append:
  "host_entries v token (ls @ [line]) = (case (host_entries v token ls, host_entries v token [line]) of
     (Some es, Some fs) \<Rightarrow> Some (es @ fs) | _ \<Rightarrow> None)"
  by (induction ls) (auto simp: Let_def split: option.splits sum.splits prod.splits)

text \<open>A host that stands for itself in an entry, and the text of a key.\<close>

definition plain_char :: "char \<Rightarrow> bool" where
  "plain_char c = (byte c < 128 \<and> \<not> is_whitespace (byte c) \<and> c \<notin> {CHR ''*'', CHR ''?'', CHR '',''})"

definition plain_host :: "string \<Rightarrow> bool" where
  "plain_host host = (host \<noteq> [] \<and> list_all plain_char host \<and> hd host \<notin> {CHR ''!'', CHR ''|'', CHR ''@'', CHR ''#''})"

definition key_text :: "'k key_env \<Rightarrow> 'k \<Rightarrow> bool" where
  "key_text v k = (case ke_show v k of
       None \<Rightarrow> True
     | Some text \<Rightarrow> (case split_once CHR '' '' text of
           None \<Rightarrow> False
         | Some (algorithm, encoded) \<Rightarrow> algorithm \<noteq> [] \<and> encoded \<noteq> [] \<and> list_all plain_char algorithm \<and>
             list_all plain_char encoded \<and> ke_parse v text = Some k))"

lemma plain_digit: "is_ascii_digit c \<Longrightarrow> plain_char c"
  by (auto simp: plain_char_def is_ascii_digit_def is_whitespace_def byte_def)

lemma plain_token: "plain_host host \<Longrightarrow> plain_host (host_token host port)"
proof -
  have "list_all plain_char (show_word port)" using show_word_chars plain_digit by (auto simp: list_all_iff)
  moreover have "plain_char CHR ''[''" "plain_char CHR '']''" "plain_char CHR '':''" by (simp_all add: plain_char_def is_whitespace_def byte_def)
  ultimately show "plain_host host \<Longrightarrow> plain_host (host_token host port)" by (simp add: plain_host_def host_token_def)
qed

lemma glob_plain:
  assumes "list_all plain_char p"
  shows "glob True p t \<longleftrightarrow> eq_ignore_ascii_case p t"
  using assms by (induction p arbitrary: t)
    (auto simp: plain_char_def byte_matches_def eq_ignore_ascii_case_def to_ascii_lowercase_def split: list.splits)

lemma token_matches:
  assumes "plain_host token" and "CHR ''*'' \<notin> set t"
  shows "host_matches v token t \<longleftrightarrow> eq_ignore_ascii_case token t"
proof -
  have c: "CHR '','' \<notin> set token" using assms(1) by (auto simp: plain_host_def plain_char_def list_all_iff)
  have "strip_prefix ''!'' token = None" "strip_prefix ''|1|'' token = None"
    using assms(1) by (cases token; auto simp: plain_host_def)+
  then show ?thesis
    using assms wildcard_glob [OF assms(2), of token True] glob_plain [of token t]
    by (simp add: host_matches_def split_on_no_sep [OF c] entry_matches_def wildcard_match_def plain_host_def)
qed

lemma words_plain:
  assumes "list_all plain_char w" and "w \<noteq> []"
  shows "split_whitespace (map (\<lambda>c. (byte c, [c])) w) = [w]"
    and "split_whitespace (map (\<lambda>c. (byte c, [c])) (w @ CHR '' '' # r)) = w # split_whitespace (map (\<lambda>c. (byte c, [c])) r)"
proof -
  have space: "is_whitespace (byte CHR '' '')" by (simp add: is_whitespace_def byte_def)
  show "split_whitespace (map (\<lambda>c. (byte c, [c])) w) = [w]"
    using assms
  proof (induction w)
    case (Cons a w)
    then show ?case by (cases w) (simp_all add: plain_char_def)
  qed simp
  show "split_whitespace (map (\<lambda>c. (byte c, [c])) (w @ CHR '' '' # r)) = w # split_whitespace (map (\<lambda>c. (byte c, [c])) r)"
    using assms
  proof (induction w)
    case (Cons a w)
    then show ?case using space by (cases w) (simp_all add: plain_char_def)
  qed simp
qed

text \<open>The line that is written, and what it is read as.\<close>

definition key_line :: "'k key_env \<Rightarrow> string \<Rightarrow> string \<Rightarrow> string" where
  "key_line v token text = token @ '' '' @ text"

lemma key_line_shape:
  assumes "plain_host token" and "key_text v k" and "ke_show v k = Some text"
  obtains algorithm encoded where "key_line v token text = token @ CHR '' '' # algorithm @ CHR '' '' # encoded"
    "text = algorithm @ '' '' @ encoded" "list_all plain_char token" "list_all plain_char algorithm" "list_all plain_char encoded"
    "token \<noteq> []" "algorithm \<noteq> []" "encoded \<noteq> []" "ke_parse v text = Some k"
  using assms by (auto simp: key_text_def plain_host_def key_line_def split_once_Some split: option.splits prod.splits)

lemma plain_ends: "list_all plain_char w \<Longrightarrow> w \<noteq> [] \<Longrightarrow> plain_char (hd w) \<and> plain_char (last w)"
  by (simp add: list_all_iff)

lemma trim_plain:
  assumes "is_ascii s" and "s \<noteq> []" and "\<not> is_whitespace (byte (hd s))" and "\<not> is_whitespace (byte (last s))"
  shows "trim s = s"
proof -
  have u: "utf8_chunks s = map (\<lambda>c. (byte c, [c])) s" using assms(1) by (rule utf8_chunks_ascii)
  have "dropWhile (\<lambda>c. is_whitespace (fst c)) (utf8_chunks s) = utf8_chunks s"
    using assms(2,3) unfolding u by (cases s) simp_all
  moreover have "dropWhile (\<lambda>c. is_whitespace (fst c)) (rev (utf8_chunks s)) = rev (utf8_chunks s)"
    using assms(2,4) unfolding u by (cases s rule: rev_cases) simp_all
  ultimately show ?thesis by (simp add: trim_def concat_utf8_chunks)
qed

lemma line_read:
  assumes "plain_host token" and "key_text v k" and "ke_show v k = Some text" and "CHR ''*'' \<notin> set t"
  shows "host_entries v t [key_line v token text] = (if eq_ignore_ascii_case token t then Some [(None, k)] else Some [])"
proof -
  from key_line_shape [OF assms(1-3)] obtain algorithm encoded where l:
    "key_line v token text = token @ CHR '' '' # algorithm @ CHR '' '' # encoded" "text = algorithm @ '' '' @ encoded"
    "list_all plain_char token" "list_all plain_char algorithm" "list_all plain_char encoded"
    "token \<noteq> []" "algorithm \<noteq> []" "encoded \<noteq> []" "ke_parse v text = Some k" .
  let ?l = "key_line v token text"
  have ascii: "is_ascii ?l" using l(1,3-5) by (auto simp: is_ascii_def plain_char_def list_all_iff byte_def)
  have "trim ?l = ?l"
    using plain_ends [OF l(3,6)] plain_ends [OF l(5,8)] l(6,8) by (intro trim_plain [OF ascii]) (simp_all add: l(1) plain_char_def)
  moreover have "line_words ?l = [token, algorithm, encoded]"
    unfolding line_words_def l(1) utf8_chunks_ascii [OF ascii [unfolded l(1)]]
    by (simp only: words_plain(2) [OF l(3,6)] words_plain(2) [OF l(4,7)] words_plain(1) [OF l(5,8)])
  moreover have "\<not> starts_with ''@'' token" "\<not> starts_with ''#'' (token @ x)" for x
    using assms(1) l(6) by (cases token; auto simp: plain_host_def starts_with_iff)+
  ultimately show ?thesis
    using token_matches [where v = v, OF assms(1,4)] l(1,2,6,9) by (simp add: marked_def skipped_def stored_key_def)
qed

text \<open>What approving a key goes by, and what it does.\<close>

definition info_key :: "'k key_env \<Rightarrow> host_key_info \<Rightarrow> 'k option" where
  "info_key v info = ke_parse v (hk_public_key info)"

definition current_status :: "'k key_env \<Rightarrow> known_files \<Rightarrow> host_key_info \<Rightarrow> 'k \<Rightarrow> trust_error + trust_status" where
  "current_status v files info k =
     check_files v files (hk_host info) (hk_port info) k (hk_known_hosts info # hk_global info) Unknown_key"

abbreviation opened_files :: "known_files \<Rightarrow> host_key_info \<Rightarrow> known_files" where
  "opened_files files info \<equiv> files(hk_known_hosts info := Holding (file_text (files (hk_known_hosts info))))"

lemma trust_checks:
  "rbind (check_contents v c (hk_host info) (hk_port info) k)
     (check_files v (files(hk_known_hosts info := Holding c)) (hk_host info) (hk_port info) k (hk_global info)) =
   current_status v (files(hk_known_hosts info := Holding c)) info k"
  by (simp add: current_status_def read_status_def)

lemma append_grows:
  assumes "append_entry v host port k written c = (r, c')"
  obtains extra where "c' = c @ extra"
    "r = Inr () \<Longrightarrow> \<exists>text. ke_show v k = Some text \<and> extra = missing_newline c @ key_line v (host_token host port) text @ [CHR 0x0A]"
  using assms by (auto simp: append_entry_def key_line_def Let_def split: if_splits option.splits)

lemma trust_cases:
  assumes "trust_host_key v info expected written files = (r, files')"
  obtains (refused) e where "r = Inl e" "files' = files"
  | (kept) k where "files' = opened_files files info" "r = Inr () \<Longrightarrow> current_status v files' info k = Inr Trusted_key"
      "info_key v info = Some k" "files (hk_known_hosts info) \<noteq> Unreadable"
  | (added) k extra where "info_key v info = Some k" "expected = ke_fingerprint v k" "expected = hk_fingerprint info"
      "current_status v (opened_files files info) info k = Inr Unknown_key" "files (hk_known_hosts info) \<noteq> Unreadable"
      "files' = files(hk_known_hosts info := Holding (file_text (files (hk_known_hosts info)) @ extra))"
      "r = Inr () \<Longrightarrow> \<exists>text. ke_show v k = Some text \<and> extra = missing_newline (file_text (files (hk_known_hosts info))) @
         key_line v (host_token (hk_host info) (hk_port info)) text @ [CHR 0x0A]"
proof (cases "\<exists>e. (r, files') = (Inl e, files)")
  case True
  with refused show ?thesis by auto
next
  case changed: False
  with assms obtain k where k: "info_key v info = Some k" "expected = ke_fingerprint v k" "expected = hk_fingerprint info"
    and readable: "files (hk_known_hosts info) \<noteq> Unreadable"
    by (auto simp: trust_host_key_def info_key_def split: option.splits if_splits)
  note t = assms [unfolded trust_host_key_def Let_def trust_checks k(1) [unfolded info_key_def] option.case]
  show ?thesis
  proof (cases "current_status v (opened_files files info) info k")
    case (Inl e)
    with t changed k readable kept show ?thesis by (auto split: if_splits)
  next
    case (Inr st)
    show ?thesis
    proof (cases "st = Unknown_key")
      case False
      with t changed False Inr k readable kept [of k] show ?thesis by (cases st) (auto simp: validate_status_def split: if_splits)
    next
      case True
      obtain q c where q: "append_entry v (hk_host info) (hk_port info) k written (file_text (files (hk_known_hosts info))) = (q, c)"
        by fastforce
      from append_grows [OF q] obtain extra where "c = file_text (files (hk_known_hosts info)) @ extra"
        "q = Inr () \<Longrightarrow> \<exists>text. ke_show v k = Some text \<and> extra = missing_newline (file_text (files (hk_known_hosts info))) @
           key_line v (host_token (hk_host info) (hk_port info)) text @ [CHR 0x0A]"
        by blast
      with t changed Inr True q k readable added [of k extra] show ?thesis by (auto split: if_splits)
    qed
  qed
qed

text \<open>
  Property C17. Approving a key never overwrites anything: no other file changes, the file of known
  hosts only ever grows at its end, and it grows only when the fingerprint given is the key's and the
  one shown, and the key was neither known, revoked nor another than the recorded one.
\<close>

theorem trust_never_overwrites:
  assumes "trust_host_key v info expected written files = (r, files')"
  shows "(\<forall>p. p \<noteq> hk_known_hosts info \<longrightarrow> files' p = files p) \<and>
    (\<exists>extra. file_text (files' (hk_known_hosts info)) = file_text (files (hk_known_hosts info)) @ extra \<and>
       (extra \<noteq> [] \<longrightarrow> (\<exists>k. ke_parse v (hk_public_key info) = Some k \<and> expected = ke_fingerprint v k \<and>
          expected = hk_fingerprint info \<and> current_status v (opened_files files info) info k = Inr Unknown_key)))"
  using assms
proof (cases rule: trust_cases)
  case (added k extra)
  then show ?thesis by (auto simp: info_key_def)
qed auto

lemma current_verifies:
  assumes "trust_host s = hk_host info" and "rs_port s = hk_port info" and "trust_files s = hk_known_hosts info # hk_global info"
  shows "verify_host_key v files s (Plain_key k) =
    rbind (current_status v files info k) (\<lambda>st. rbind (validate_status v st (hk_host info) k) (\<lambda>_. Inr True))"
  by (simp only: verify_host_key_def current_status_def assms offered_key.case)

lemma added_entries:
  assumes "info_key v info = Some k" and "key_text v k" and "ke_show v k = Some text" and "plain_host token" and "CHR ''*'' \<notin> set t"
    and "c = [] \<or> last c \<noteq> CHR 0x0D"
  shows "file_entries v t (Holding (c @ missing_newline c @ key_line v token text @ [CHR 0x0A])) =
    map_option (\<lambda>es. es @ (if eq_ignore_ascii_case token t then [(None, k)] else [])) (file_entries v t (Holding c))"
proof -
  from key_line_shape [OF assms(4,2,3)] obtain algorithm encoded where l:
    "key_line v token text = token @ CHR '' '' # algorithm @ CHR '' '' # encoded" "text = algorithm @ '' '' @ encoded"
    "list_all plain_char token" "list_all plain_char algorithm" "list_all plain_char encoded"
    "token \<noteq> []" "algorithm \<noteq> []" "encoded \<noteq> []" "ke_parse v text = Some k" .
  have n: "\<not> plain_char CHR 0x0A" "\<not> plain_char CHR 0x0D" by (simp_all add: plain_char_def is_whitespace_def byte_def)
  have "CHR 0x0A \<notin> set (key_line v token text)" using n l(3-5) by (auto simp: l(1) list_all_iff)
  moreover have "last (key_line v token text) \<noteq> CHR 0x0D" using n plain_ends [OF l(5,8)] l(8) by (auto simp: l(1))
  ultimately show ?thesis
    using append_line [of "key_line v token text" c] assms(6) l(6) line_read [OF assms(4,2,3,5)]
    by (simp add: host_entries_append l(1) split: option.splits)
qed

text \<open>An entry added to one of the files is an entry of them all.\<close>

lemma added_everywhere:
  assumes "file_entries v token (files' path) =
      map_option (\<lambda>es. es @ (if b then [e] else [])) (file_entries v token (files path))"
    and "\<And>p. p \<noteq> path \<Longrightarrow> files' p = files p" and "all_entries v files (path # paths) token = Some xs"
  shows "\<exists>ys. all_entries v files' (path # paths) token = Some ys \<and> set ys = (if b then insert e (set xs) else set xs)"
proof -
  have some: "\<exists>es. file_entries v token (files p) = Some es" if "p \<in> set (path # paths)" for p
  proof (rule ccontr)
    assume "\<nexists>es. file_entries v token (files p) = Some es"
    then have "None \<in> set (map (\<lambda>p. file_entries v token (files p)) (path # paths))" using that by (force simp: image_iff)
    with assms(3) show False by (simp only: all_entries_def if_True option.simps)
  qed
  have each: "file_entries v token (files' p) =
      Some (the (file_entries v token (files p)) @ (if b \<and> p = path then [e] else []))" if "p \<in> set (path # paths)" for p
    using some [OF that] assms(1) assms(2) [of p] by (cases "p = path") auto
  then have "None \<notin> set (map (\<lambda>p. file_entries v token (files' p)) (path # paths))" by fastforce
  moreover have xs: "set xs = (\<Union>p \<in> set (path # paths). set (the (file_entries v token (files p))))"
    using assms(3) by (auto simp: all_entries_def split: if_splits)
  moreover have "(\<Union>p \<in> set (path # paths). set (the (file_entries v token (files' p)))) =
      (\<Union>p \<in> set (path # paths). set (the (file_entries v token (files p)))) \<union> (if b then {e} else {})"
    using each by (auto split: if_splits)
  ultimately show ?thesis by (auto simp: all_entries_def)
qed

lemma file_entries_text: "f \<noteq> Unreadable \<Longrightarrow> file_entries v t (Holding (file_text f)) = file_entries v t f"
  by (cases f) (simp_all add: str_lines_def)

text \<open>
  Property C18. Once a key has been approved, a connection to that server that offers it is let through,
  whatever else the files hold; and what the file says of any other host is unchanged.
\<close>

theorem trusted_host_accepted:
  assumes "trust_host_key v info expected written files = (Inr (), files')" and "info_key v info = Some k" and "key_text v k"
    and "plain_host (hk_host info)"
    and "trust_host s = hk_host info \<and> rs_port s = hk_port info \<and> trust_files s = hk_known_hosts info # hk_global info"
    and "file_text (files (hk_known_hosts info)) = [] \<or> last (file_text (files (hk_known_hosts info))) \<noteq> CHR 0x0D"
  shows "verify_host_key v files' s (Plain_key k) = Inr True \<and>
    (\<forall>t. CHR ''*'' \<notin> set t \<and> \<not> eq_ignore_ascii_case (host_token (hk_host info) (hk_port info)) t \<longrightarrow>
       file_entries v t (files' (hk_known_hosts info)) = file_entries v t (files (hk_known_hosts info)))"
  using assms(1)
proof (cases rule: trust_cases)
  case (kept j)
  then have "j = k" using assms(2) by simp
  with kept show ?thesis
    using current_verifies [where v = v and files = files' and k = k, OF _ _ conjunct2 [OF conjunct2 [OF assms(5)]]] assms(5)
      file_entries_text [OF kept(4), of v]
    by (simp add: validate_status_def)
next
  case (added j extra)
  define c where "c = file_text (files (hk_known_hosts info))"
  define token where "token = host_token (hk_host info) (hk_port info)"
  have j: "j = k" using added(1) assms(2) by simp
  have token: "plain_host token" unfolding token_def using assms(4) by (rule plain_token)
  then have star: "CHR ''*'' \<notin> set token" by (auto simp: plain_host_def plain_char_def list_all_iff)
  from added(7) j obtain printed where shown: "ke_show v k = Some printed"
    and extra: "extra = missing_newline c @ key_line v token printed @ [CHR 0x0A]" by (auto simp: c_def token_def)
  let ?files = "opened_files files info" and ?paths = "hk_known_hosts info # hk_global info"
  have now: "file_entries v t (files' (hk_known_hosts info)) =
      map_option (\<lambda>es. es @ (if eq_ignore_ascii_case token t then [(None, k)] else [])) (file_entries v t (?files (hk_known_hosts info)))"
    if "CHR ''*'' \<notin> set t" for t
    using added_entries [OF assms(2,3) shown token that, of c] assms(6) by (simp add: added(6) c_def extra [unfolded c_def])
  have elsewhere: "p \<noteq> hk_known_hosts info \<Longrightarrow> files' p = ?files p" for p by (simp add: added(6))
  have before: "file_entries v t (?files (hk_known_hosts info)) = file_entries v t (files (hk_known_hosts info))" for t
    using file_entries_text [OF added(5), of v] by simp
  from check_files_entries [where v = v and files = ?files and paths = ?paths and host = "hk_host info" and port = "hk_port info" and k = k and st = Unknown_key] added(4) j
  obtain xs where xs: "all_entries v ?files ?paths token = Some xs" "verdict v k xs = Unknown_key"
    by (auto simp: current_status_def token_def split: option.splits)
  have revoked: "(Some ''@revoked'', k) \<notin> set xs" using xs(2) by (auto simp: verdict_def split: if_splits)
  have "eq_ignore_ascii_case token token" by (simp add: eq_ignore_ascii_case_def)
  then obtain ys where ys: "all_entries v files' ?paths token = Some ys" "set ys = insert (None, k) (set xs)"
    using added_everywhere [OF now [OF star] elsewhere xs(1)] by auto
  have "verdict v k ys = Trusted_key" using ys(2) revoked by (simp add: verdict_def)
  then have "current_status v files' info k = Inr Trusted_key"
    using check_files_entries [where v = v and files = files' and paths = ?paths and host = "hk_host info" and port = "hk_port info" and k = k and st = Unknown_key] ys(1)
    by (simp add: current_status_def token_def)
  then show ?thesis
    using current_verifies [where v = v and files = files' and k = k, OF _ _ conjunct2 [OF conjunct2 [OF assms(5)]]] assms(5) now before
    by (simp add: validate_status_def token_def option.map_ident)
qed simp


section \<open>Samples\<close>

text \<open>Keys that are their own text, a server, and what is shown of its key.\<close>

definition sample_keys :: "string key_env" where
  "sample_keys = \<lparr>ke_parse = (\<lambda>s. if split_once CHR '' '' s = None then None else Some s), ke_show = Some,
     ke_algorithm = takeWhile (\<lambda>c. c \<noteq> CHR '' ''), ke_fingerprint = (\<lambda>k. ''SHA256:'' @ k), ke_hmac = (\<lambda>s t. s @ t), ke_base64 = Some\<rparr>"

definition sample_server :: resolved_server where
  "sample_server = \<lparr>rs_alias = ''db'', rs_host = ''db.example'', rs_user = ''me'', rs_port = 22, rs_identity_files = [],
     rs_explicit_identity_files = False, rs_known_hosts = ''/k'', rs_global_known_hosts = [''/g''], rs_proxy_jump = [],
     rs_identity_agent = None, rs_identities_only = False, rs_host_key_alias = None, rs_ssh_config = ''/c''\<rparr>"

definition sample_info :: host_key_info where
  "sample_info = \<lparr>hk_host = ''db.example'', hk_port = 22, hk_algorithm = ''ed'', hk_fingerprint = ''SHA256:ed B'', hk_public_key = ''ed B'',
     hk_known_hosts = ''/k'', hk_global = [''/g''], hk_status = Unknown_key\<rparr>"

definition sample_files :: known_files where
  "sample_files = (\<lambda>p. if p = ''/k'' then Holding ''other ed C'' else Absent)"

definition recorded_files :: known_files where
  "recorded_files = (\<lambda>p. if p = ''/k'' then Holding ''db.example ed A'' else Absent)"

lemma sample_read:
  "host_entries sample_keys ''db.example'' [''db.example ed A''] = Some [(None, ''ed A'')]"
  "host_entries sample_keys ''db.example'' [''other ed C''] = Some []"
proof -
  have "plain_host ''db.example''" "plain_host ''other''" "key_text sample_keys ''ed A''" "key_text sample_keys ''ed C''"
    "ke_show sample_keys ''ed A'' = Some ''ed A''" "ke_show sample_keys ''ed C'' = Some ''ed C''"
    "eq_ignore_ascii_case ''db.example'' ''db.example''" "\<not> eq_ignore_ascii_case ''other'' ''db.example''"
    by (simp_all add: plain_host_def plain_char_def key_text_def sample_keys_def is_whitespace_def byte_def eq_ignore_ascii_case_def
        to_ascii_lowercase_def)
  note * = this
  show "host_entries sample_keys ''db.example'' [''db.example ed A''] = Some [(None, ''ed A'')]"
    using line_read [OF *(1,3,5), of "''db.example''"] *(7) by (simp add: key_line_def)
  show "host_entries sample_keys ''db.example'' [''other ed C''] = Some []"
    using line_read [OF *(2,4,6), of "''db.example''"] *(8) by (simp add: key_line_def)
qed

lemma sample_server_simps [simp]:
  "trust_host sample_server = ''db.example''" "rs_port sample_server = 22" "rs_known_hosts sample_server = ''/k''"
  "rs_global_known_hosts sample_server = [''/g'']"
  by (simp_all add: sample_server_def trust_host_def)

lemma sample_info_simps [simp]:
  "hk_host sample_info = ''db.example''" "hk_port sample_info = 22" "hk_fingerprint sample_info = ''SHA256:ed B''"
  "hk_public_key sample_info = ''ed B''" "hk_known_hosts sample_info = ''/k''" "hk_global sample_info = [''/g'']"
  by (simp_all add: sample_info_def)

lemma sample_token [simp]: "host_token ''db.example'' 22 = ''db.example''"
  by (simp add: host_token_def)

lemma host_sample_lines: "str_lines ''db.example ed A'' = [''db.example ed A'']" "str_lines ''other ed C'' = [''other ed C'']"
  by code_simp+

lemma host_sample_recorded:
  "all_entries sample_keys recorded_files (trust_files sample_server) (host_token (trust_host sample_server) (rs_port sample_server)) =
     Some [(None, ''ed A'')]"
  by (simp add: all_entries_def recorded_files_def host_sample_lines sample_read del: host_entries.simps)

lemma sample_status:
  "current_status sample_keys (sample_files(''/k'' := Holding ''other ed C'')) sample_info ''ed B'' = Inr Unknown_key"
  using check_files_entries [where v = sample_keys and files = "sample_files(''/k'' := Holding ''other ed C'')" and paths = "[''/k'', ''/g'']"
      and host = "''db.example''" and port = 22 and k = "''ed B''" and st = Unknown_key]
  by (simp add: all_entries_def sample_files_def host_sample_lines sample_read current_status_def sample_info_def del: host_entries.simps check_files.simps)

lemma sample_trusted:
  "trust_host_key sample_keys sample_info ''SHA256:ed B'' None sample_files =
     (Inr (), sample_files(''/k'' := Holding (''other ed C'' @ [CHR 0x0A] @ ''db.example ed B'' @ [CHR 0x0A])))"
proof -
  have keys: "ke_parse sample_keys ''ed B'' = Some ''ed B''" "ke_fingerprint sample_keys ''ed B'' = ''SHA256:ed B''"
    "ke_show sample_keys ''ed B'' = Some ''ed B''" "\<not> bad_identity ''db.example'' 22"
    by (simp_all add: sample_keys_def bad_identity_def)
  have mine: "sample_files ''/k'' = Holding ''other ed C''" by (simp add: sample_files_def)
  have "append_entry sample_keys ''db.example'' 22 ''ed B'' None ''other ed C'' =
      (Inr (), ''other ed C'' @ [CHR 0x0A] @ ''db.example ed B'' @ [CHR 0x0A])"
    using keys by (simp add: append_entry_def missing_newline_def)
  with keys sample_status trust_checks [of sample_keys "''other ed C''" sample_info "''ed B''" sample_files] show ?thesis
    by (simp add: trust_host_key_def mine Let_def)
qed

section \<open>Witnesses\<close>

theorem host_key_decided_witness:
  "(\<exists>b. verify_host_key sample_keys recorded_files sample_server (Plain_key ''ed A'') = Inr b) \<and>
   verify_host_key sample_keys recorded_files sample_server (Plain_key ''ed B'') = Inl (HostKeyChanged ''db.example'' ''SHA256:ed B'')"
proof -
  have "ke_algorithm sample_keys ''ed A'' = ke_algorithm sample_keys ''ed B''" "ke_fingerprint sample_keys ''ed B'' = ''SHA256:ed B''"
    by (simp_all add: sample_keys_def)
  with host_key_decided [of sample_keys recorded_files sample_server "Plain_key ''ed A''"]
    host_key_decided [of sample_keys recorded_files sample_server "Plain_key ''ed B''"] host_sample_recorded
  show ?thesis by simp
qed

theorem trust_never_overwrites_witness:
  "\<exists>k extra. ke_parse sample_keys (hk_public_key sample_info) = Some k \<and> current_status sample_keys (opened_files sample_files sample_info) sample_info k =
     Inr Unknown_key \<and> extra \<noteq> [] \<and>
     file_text ((sample_files(''/k'' := Holding (''other ed C'' @ [CHR 0x0A] @ ''db.example ed B'' @ [CHR 0x0A]))) ''/k'') =
       file_text (sample_files ''/k'') @ extra"
  using trust_never_overwrites [OF sample_trusted] by (auto simp: sample_files_def)

theorem trusted_host_accepted_witness:
  "verify_host_key sample_keys (sample_files(''/k'' := Holding (''other ed C'' @ [CHR 0x0A] @ ''db.example ed B'' @ [CHR 0x0A])))
     sample_server (Plain_key ''ed B'') = Inr True"
proof -
  have "info_key sample_keys sample_info = Some ''ed B''" by (simp add: info_key_def sample_keys_def)
  moreover have "key_text sample_keys ''ed B''" "plain_host (hk_host sample_info)"
    by (simp_all add: plain_host_def plain_char_def key_text_def sample_keys_def is_whitespace_def byte_def)
  moreover have "last (file_text (sample_files (hk_known_hosts sample_info))) \<noteq> CHR 0x0D" by (simp add: sample_files_def)
  ultimately show ?thesis using trusted_host_accepted [OF sample_trusted, of "''ed B''" sample_server] by simp
qed

end
