(* ===== verification/Hops.thy ===== *)
theory Hops
  imports SshTrust
begin

text \<open>
  The route to a server through its jump hosts, \<open>expand_hops\<close>, \<open>parse_jump\<close>, \<open>select_hop\<close> and
  \<open>resolved_route\<close> of \<open>crates/fwm-core/src/ssh/connection.rs\<close>. Every jump host is resolved against the
  SSH configuration like a server and may itself need jump hosts.
\<close>

section \<open>Resolving\<close>

record resolver =
  rv_ssh :: ssh_files
  rv_user :: user_env
  rv_home :: "string option"
  rv_new_id :: string

datatype route_error =
    NoHomeDirectory | BadSettings ssh_error | ChainRefused | BadJump | UnterminatedJump | BadJumpPort | JumpNeedsBrackets
  | UnknownHop string | AmbiguousHop string

definition resolve_profile :: "resolver \<Rightarrow> server_profile \<Rightarrow> route_error + resolved_server" where
  "resolve_profile v p =
     rbind (ok_or (rv_home v) NoHomeDirectory) (\<lambda>home. map_err BadSettings (resolve_with_home (rv_ssh v) (rv_user v) p home))"

section \<open>Jump entries\<close>

definition jump_user :: "string \<Rightarrow> string option \<times> string" where
  "jump_user s = (case rsplit_once CHR ''@'' s of Some (user, address) \<Rightarrow> (Some user, address) | None \<Rightarrow> (None, s))"

definition bracketed_jump :: "string \<Rightarrow> route_error + string \<times> u16 option" where
  "bracketed_jump s =
     rbind (ok_or (split_once CHR '']'' s) UnterminatedJump) (\<lambda>(host, suffix).
     if suffix = [] then Inr (host, None)
     else rbind (ok_or (strip_prefix '':'' suffix) BadJumpPort) (\<lambda>digits.
          rbind (ok_or (parse_u16 digits) BadJumpPort) (\<lambda>port. Inr (host, Some port))))"

definition jump_address :: "string \<Rightarrow> route_error + string \<times> u16 option" where
  "jump_address address = (case strip_prefix ''['' address of
       Some inner \<Rightarrow> bracketed_jump inner
     | None \<Rightarrow> (case rsplit_once CHR '':'' address of
           Some (host, digits) \<Rightarrow>
             if CHR '':'' \<in> set host then Inl JumpNeedsBrackets
             else rbind (ok_or (parse_u16 digits) BadJumpPort) (\<lambda>port. Inr (host, Some port))
         | None \<Rightarrow> Inr (address, None)))"

definition parse_jump :: "string \<Rightarrow> string \<Rightarrow> route_error + server_profile" where
  "parse_jump new_id value =
     (if value = [] \<or> (\<exists>c \<in> set value. c \<in> {CHR '' '', CHR 0x09, CHR 0x0A, CHR 0x0D}) then Inl BadJump
      else
        let (user, address) = jump_user value
        in rbind (jump_address address) (\<lambda>(alias, port).
           Inr ((new_profile new_id value)\<lparr>sp_ssh_alias := Some alias, sp_user := user, sp_port := port\<rparr>)))"

section \<open>The route\<close>

definition hop_identity :: "resolved_server \<Rightarrow> string" where
  "hop_identity s = rs_user s @ ''@'' @ rs_host s @ '':'' @ show_word (rs_port s)"

definition jump_server :: "resolver \<Rightarrow> server_profile \<Rightarrow> string \<Rightarrow> route_error + server_profile \<times> resolved_server" where
  "jump_server v p jump =
     rbind (parse_jump (rv_new_id v) jump) (\<lambda>parsed.
     let jp = parsed\<lparr>sp_ssh_config := sp_ssh_config p, sp_known_hosts := sp_known_hosts p\<rparr>
     in rbind (resolve_profile v jp) (\<lambda>s. Inr (jp, s)))"

lemma rbind_cong [fundef_cong]:
  "m = m' \<Longrightarrow> (\<And>a. m' = Inr a \<Longrightarrow> f a = g a) \<Longrightarrow> rbind m f = rbind m' g"
  by (cases m') simp_all

function expand_hops :: "resolver \<Rightarrow> server_profile \<Rightarrow> resolved_server \<Rightarrow> string list \<Rightarrow> resolved_server list \<Rightarrow> route_error + resolved_server list"
  and expand_jumps :: "resolver \<Rightarrow> server_profile \<Rightarrow> string list \<Rightarrow> string list \<Rightarrow> resolved_server list \<Rightarrow> route_error + resolved_server list"
where
  "expand_hops v p dest ancestors out =
     (if hop_identity dest \<in> set ancestors \<or> 16 \<le> length ancestors \<or> 16 \<le> length out then Inl ChainRefused
      else expand_jumps v p (rs_proxy_jump dest) (ancestors @ [hop_identity dest]) out)"
| "expand_jumps v p [] ancestors out = Inr out"
| "expand_jumps v p (jump # jumps) ancestors out =
     rbind (jump_server v p jump) (\<lambda>js.
     rbind (expand_hops v (fst js) (snd js) ancestors out) (\<lambda>hops.
     expand_jumps v p jumps ancestors (hops @ [snd js])))"
  by pat_completeness auto
termination
  by (relation "measures [case_sum (\<lambda>(v, p, t, anc, out). 17 - length anc) (\<lambda>(v, p, js, anc, out). 17 - length anc),
        case_sum (\<lambda>_. 0) (\<lambda>(v, p, js, anc, out). Suc (length js))]") auto

definition route_hops :: "resolver \<Rightarrow> server_profile \<Rightarrow> resolved_server \<Rightarrow> route_error + resolved_server list" where
  "route_hops v p dest = expand_hops v p dest [] []"

definition resolved_route :: "resolver \<Rightarrow> server_profile \<Rightarrow> route_error + resolved_server list" where
  "resolved_route v p =
     rbind (resolve_profile v p) (\<lambda>dest.
     rbind (route_hops v p dest) (\<lambda>hops. Inr (hops @ [dest])))"

definition hop_number :: "nat \<Rightarrow> string \<Rightarrow> nat option" where
  "hop_number count selector = (case parse_uint (2 ^ 64) selector of
       Some n \<Rightarrow> if 0 < n \<and> n \<le> count then Some (n - 1) else None
     | None \<Rightarrow> None)"

definition select_hop :: "resolved_server list \<Rightarrow> string \<Rightarrow> route_error + nat" where
  "select_hop hops selector = (case hop_number (length hops) selector of
       Some i \<Rightarrow> Inr i
     | None \<Rightarrow> (case filter (\<lambda>i. rs_alias (hops ! i) = selector) [0..<length hops] of
           [i] \<Rightarrow> Inr i
         | [] \<Rightarrow> Inl (UnknownHop selector)
         | _ \<Rightarrow> Inl (AmbiguousHop selector)))"

section \<open>The route a configuration asks for\<close>

text \<open>
  The hosts to pass on the way to some jump entries, in order: each host after the hosts its own settings
  name, none of them on the way to itself.
\<close>

inductive passes :: "resolver \<Rightarrow> server_profile \<Rightarrow> string list \<Rightarrow> string list \<Rightarrow> resolved_server list \<Rightarrow> bool" for v where
  passes_Nil: "passes v p [] anc []"
| passes_Cons: "jump_server v p jump = Inr (jp, s) \<Longrightarrow> hop_identity s \<notin> set anc \<Longrightarrow>
    passes v jp (rs_proxy_jump s) (anc @ [hop_identity s]) inner \<Longrightarrow> passes v p jumps anc rest \<Longrightarrow>
    passes v p (jump # jumps) anc (inner @ s # rest)"

inductive_cases passes_NilE: "passes v p [] anc hops"
inductive_cases passes_ConsE: "passes v p (jump # jumps) anc hops"

lemma expansion_passes:
  "expand_hops v p dest anc out = Inr hops \<Longrightarrow>
     \<exists>new. hops = out @ new \<and> hop_identity dest \<notin> set anc \<and> length anc < 16 \<and> length out < 16 \<and>
       passes v p (rs_proxy_jump dest) (anc @ [hop_identity dest]) new"
  "expand_jumps v p jumps anc out = Inr hops \<Longrightarrow> \<exists>new. hops = out @ new \<and> passes v p jumps anc new"
proof (induction v p dest anc out and v p jumps anc out arbitrary: hops and hops rule: expand_hops_expand_jumps.induct)
  case (1 v p dest anc out)
  then show ?case by (auto split: if_splits simp del: expand_jumps.simps)
next
  case (2 v p anc out)
  then show ?case by (auto intro: passes_Nil)
next
  case (3 v p jump jumps anc out)
  from "3.prems" obtain jp s inner where s: "jump_server v p jump = Inr (jp, s)"
    "expand_hops v jp s anc out = Inr inner" "expand_jumps v p jumps anc (inner @ [s]) = Inr hops"
    by (auto simp: result_simps simp del: expand_hops.simps)
  from "3.IH"(1) [OF s(1), of inner] s(2) obtain new1 where 1: "inner = out @ new1" "hop_identity s \<notin> set anc"
    "passes v jp (rs_proxy_jump s) (anc @ [hop_identity s]) new1" by auto
  from "3.IH"(2) [OF s(1), of inner] s obtain new2 where "hops = inner @ [s] @ new2" "passes v p jumps anc new2" by auto
  with 1 s(1) show ?case by (intro exI [of _ "new1 @ s # new2"]) (simp add: passes_Cons)
qed

lemma passes_expansion:
  assumes "passes v p jumps anc new" and "length anc + length new \<le> 16" and "length out + length new \<le> 16"
  shows "expand_jumps v p jumps anc out = Inr (out @ new)"
  using assms
proof (induction arbitrary: out)
  case (passes_Cons p jump jp s anc inner jumps rest)
  from passes_Cons.prems have "expand_jumps v jp (rs_proxy_jump s) (anc @ [hop_identity s]) out = Inr (out @ inner)"
    by (intro passes_Cons.IH) simp_all
  moreover have "expand_jumps v p jumps anc ((out @ inner) @ [s]) = Inr (((out @ inner) @ [s]) @ rest)"
    using passes_Cons.prems by (intro passes_Cons.IH) simp_all
  ultimately show ?case using passes_Cons by simp
qed simp

text \<open>
  The length of a route: the test of the number of hosts found so far is made on the way in only, so
  that a host that is entered with fifteen before it may bring as many again.
\<close>

lemma expansion_bounded:
  "expand_hops v p dest anc out = Inr hops \<Longrightarrow> length hops \<le> 30 - length anc"
  "expand_jumps v p jumps anc out = Inr hops \<Longrightarrow> length hops \<le> max (length out) (31 - length anc)"
proof (induction v p dest anc out and v p jumps anc out arbitrary: hops and hops rule: expand_hops_expand_jumps.induct)
  case (1 v p dest anc out)
  then show ?case by (fastforce split: if_splits simp del: expand_jumps.simps)
next
  case (2 v p anc out)
  then show ?case by simp
next
  case (3 v p jump jumps anc out)
  from "3.prems" obtain jp s inner where s: "jump_server v p jump = Inr (jp, s)"
    "expand_hops v jp s anc out = Inr inner" "expand_jumps v p jumps anc (inner @ [s]) = Inr hops"
    by (auto simp: result_simps simp del: expand_hops.simps)
  from s(2) have "length anc < 16" by (auto split: if_splits)
  moreover have "length inner \<le> 30 - length anc" using "3.IH"(1) [OF s(1)] s(2) by simp
  moreover have "length hops \<le> max (Suc (length inner)) (31 - length anc)" using "3.IH"(2) [OF s(1)] s(2,3) by simp
  ultimately show ?case by linarith
qed


section \<open>Choosing a hop\<close>

text \<open>
  A number counts the hops from one; any other text, and a number no hop has, is the alias of exactly
  one hop.
\<close>

lemma distinct_singleton_set: "set xs = {i} \<Longrightarrow> distinct xs \<Longrightarrow> xs = [i]"
  by (cases xs; cases "tl xs") auto

lemma filter_upt_single: "filter P [0..<n] = [i] \<longleftrightarrow> i < n \<and> P i \<and> (\<forall>j < n. P j \<longrightarrow> j = i)"
proof
  assume f: "filter P [0..<n] = [i]"
  then have "set (filter P [0..<n]) = {i}" by simp
  then show "i < n \<and> P i \<and> (\<forall>j < n. P j \<longrightarrow> j = i)" by auto
next
  assume a: "i < n \<and> P i \<and> (\<forall>j < n. P j \<longrightarrow> j = i)"
  then have "set (filter P [0..<n]) = {i}" "distinct (filter P [0..<n])" by auto
  then show "filter P [0..<n] = [i]" by (rule distinct_singleton_set)
qed

lemma select_hop_exact:
  "select_hop hops selector = Inr i \<longleftrightarrow>
     (case hop_number (length hops) selector of
        Some n \<Rightarrow> i = n
      | None \<Rightarrow> i < length hops \<and> rs_alias (hops ! i) = selector \<and>
          (\<forall>j < length hops. rs_alias (hops ! j) = selector \<longrightarrow> j = i))"
  unfolding filter_upt_single [of "\<lambda>j. rs_alias (hops ! j) = selector", symmetric]
  by (auto simp: select_hop_def split: option.split list.split)

section \<open>Samples\<close>

definition sample_resolver :: resolver where
  "sample_resolver = \<lparr>rv_ssh = sample_files, rv_user = \<lparr>env_user = None, env_username = None, env_auth_sock = None\<rparr>,
     rv_home = Some ''/home/me'', rv_new_id = ''i''\<rparr>"

definition routed_profile :: server_profile where
  "routed_profile = sample_profile\<lparr>sp_identity_files := [], sp_proxy_jump := [''me@gate:22'']\<rparr>"

definition resolved_as :: "string \<Rightarrow> u16 \<Rightarrow> string list \<Rightarrow> resolved_server" where
  "resolved_as host port jumps = sample_resolved\<lparr>rs_alias := host, rs_host := host, rs_port := port, rs_proxy_jump := jumps,
     rs_identity_files := [''/home/me/.ssh/id_ed25519'', ''/home/me/.ssh/id_ecdsa'', ''/home/me/.ssh/id_rsa''],
     rs_explicit_identity_files := False\<rparr>"

definition gate_profile :: server_profile where
  "gate_profile = (new_profile ''i'' ''me@gate:22'')\<lparr>sp_ssh_alias := Some ''gate'', sp_user := Some ''me'', sp_port := Some 22\<rparr>"

lemma sample_jump:
  "parse_jump ''i'' ''me@gate:22'' = Inr gate_profile"
  by (simp add: gate_profile_def parse_jump_def jump_user_def rsplit_once_def jump_address_def parse_u16_def parse_uint_def digits_value_def is_ascii_digit_def
      byte_def)

lemma sample_route_profiles:
  "resolve_profile sample_resolver routed_profile = Inr (resolved_as ''dev.example'' 2222 [''me@gate:22''])"
  "jump_server sample_resolver routed_profile ''me@gate:22'' =
     Inr (gate_profile, resolved_as ''gate'' 22 [])"
proof -
  have usable: "usable_destination ''dev.example'' ''me'' 2222" "usable_destination ''gate'' ''me'' 22"
    by (simp_all add: usable_destination_def trim_def byte_def is_whitespace_def)
  have none: "\<not> eq_ignore_ascii_case ''me@gate:22'' ''none''" by code_simp
  have one: "one no_values k = None" for k by (simp add: one_def no_values_def)
  have gate: "expand_tokens \<lparr>tk_alias = ''gate'', tk_host = h, tk_user = u, tk_port = n, tk_home = home\<rparr> ''gate'' = Inr ''gate''" for h u n home
    by (simp add: expand_tokens_def expand_home_def byte_def starts_with_def path_join_def is_absolute_def)
  have valid: "validate_connection_options routed_profile = Inr ()"
    "validate_connection_options gate_profile = Inr ()"
    by (simp_all add: gate_profile_def validate_connection_options_def routed_profile_def sample_profile_def new_profile_def option_list_def plain_word_def
        plain_path_def plain_jump_def chars_def byte_def is_control_def is_whitespace_def none)
  note defs = resolve_profile_def resolve_with_home_def finish_server_def
  note simps = sample_profile_def sample_files_def sample_resolved_def read_settings_def settle_host_def
    transpose_option_def profile_port_def identity_paths_def known_hosts_path_def path_join_def default_identities_def
    is_absolute_def starts_with_def global_known_hosts_paths_def identity_agent_def effective_proxy_jump_def
    sample_expansions usable none one gate
  show "resolve_profile sample_resolver routed_profile = Inr (resolved_as ''dev.example'' 2222 [''me@gate:22''])"
    unfolding defs valid
    by (simp add: routed_profile_def resolved_as_def sample_resolver_def simps) (simp add: no_values_def path_join_def is_absolute_def starts_with_def default_identities_def)
  have "resolve_profile sample_resolver gate_profile = Inr (resolved_as ''gate'' 22 [])"
    unfolding defs valid
    by (simp add: gate_profile_def new_profile_def resolved_as_def sample_resolver_def simps)
      (simp add: no_values_def path_join_def is_absolute_def starts_with_def default_identities_def)
  then show "jump_server sample_resolver routed_profile ''me@gate:22'' = Inr (gate_profile, resolved_as ''gate'' 22 [])"
    using sample_jump by (simp add: jump_server_def sample_resolver_def routed_profile_def sample_profile_def gate_profile_def new_profile_def)
qed


end
