(* ===== verification/Auth.thy ===== *)
theory Auth
  imports SshResolve
begin

text \<open>
  Logging in, \<open>crates/fwm-core/src/ssh/auth.rs\<close>: which keys are offered to a server, in which order,
  from the identity files and the agent. A key is its key data; reading keys and certificates and the
  answers of the server and of the agent are parameters, so that every course of a login is covered.
\<close>

section \<open>Data\<close>

datatype hash_alg = Sha256 | Sha512

datatype rsa_support = Rsa_lost | Rsa_hash hash_alg | Rsa_obsolete | Rsa_unspecified

datatype ('k, 'c) agent_identity = Agent_plain 'k | Agent_certificate 'c

datatype ('k, 'c) attempt =
    File_key 'k "hash_alg option" | File_certificate 'k 'c "hash_alg option"
  | Agent_key 'k "hash_alg option" | Agent_cert 'c "hash_alg option"

datatype auth_answer = Accepted | Rejected | Partly | Broken

datatype explanation =
    Identity_missing string | Identity_locked string | Obsolete_rsa | Refused_file string bool | Refused_certificate string bool
  | Agent_empty | Agent_unlisted | No_agent | Agent_unavailable "string option" | Nothing_accepted

datatype auth_error =
    Login_lost | Bad_certificate string | Signing_failed | Agent_signing_failed | Not_admitted string string "explanation list"

text \<open>What the machine holds, and the other side: both may depend on what has been tried before.\<close>

record ('k, 'c) login_env =
  le_text :: "string \<Rightarrow> string option"
  le_exists :: "string \<Rightarrow> bool"
  le_public :: "string \<Rightarrow> 'k option"
  le_certificate :: "string \<Rightarrow> 'c option"
  le_cert_key :: "'c \<Rightarrow> 'k"
  le_secret :: "string \<Rightarrow> 'k option"
  le_load_certificate :: "string \<Rightarrow> 'c option"
  le_is_rsa :: "'k \<Rightarrow> bool"
  le_auth_sock :: "string option"
  le_agent :: "string \<Rightarrow> ('k, 'c) agent_identity list option option"

record ('k, 'c) conversation =
  co_rsa :: "('k, 'c) attempt list \<Rightarrow> rsa_support"
  co_answer :: "('k, 'c) attempt list \<Rightarrow> ('k, 'c) attempt \<Rightarrow> auth_answer"

record ('k, 'c) login =
  lo_explained :: "explanation list"
  lo_permitted :: "'k list"
  lo_attempted :: "'k list"
  lo_trail :: "('k, 'c) attempt list"

type_synonym ('k, 'c) login_step = "('k, 'c) login \<Rightarrow> (auth_error + unit) option \<times> ('k, 'c) login"

section \<open>One identity file\<close>

definition explain :: "explanation \<Rightarrow> ('k, 'c) login \<Rightarrow> ('k, 'c) login" where
  "explain e st = st\<lparr>lo_explained := lo_explained st @ [e]\<rparr>"

definition permit :: "'k \<Rightarrow> ('k, 'c) login \<Rightarrow> ('k, 'c) login" where
  "permit k st = st\<lparr>lo_permitted := lo_permitted st @ [k]\<rparr>"

definition mark_attempted :: "'k \<Rightarrow> ('k, 'c) login \<Rightarrow> ('k, 'c) login" where
  "mark_attempted k st = st\<lparr>lo_attempted := lo_attempted st @ [k]\<rparr>"

definition rsa_hash ::
    "('k, 'c) login_env \<Rightarrow> ('k, 'c) conversation \<Rightarrow> 'k \<Rightarrow> ('k, 'c) login \<Rightarrow> explanation option + hash_alg option" where
  "rsa_hash v co k st =
     (if \<not> le_is_rsa v k then Inr None
      else case co_rsa co (lo_trail st) of
        Rsa_lost \<Rightarrow> Inl None
      | Rsa_hash h \<Rightarrow> Inr (Some h)
      | Rsa_obsolete \<Rightarrow> Inl (Some Obsolete_rsa)
      | Rsa_unspecified \<Rightarrow> Inr (Some Sha512))"

definition try_attempt ::
    "('k, 'c) conversation \<Rightarrow> ('k, 'c) attempt \<Rightarrow> auth_error \<Rightarrow> (bool \<Rightarrow> explanation) option \<Rightarrow> ('k, 'c) login_step" where
  "try_attempt co a broken refused st =
     (let st' = st\<lparr>lo_trail := lo_trail st @ [a]\<rparr>
      in case co_answer co (lo_trail st) a of
           Accepted \<Rightarrow> (Some (Inr ()), st')
         | Broken \<Rightarrow> (Some (Inl broken), st')
         | answer \<Rightarrow> (None, case refused of None \<Rightarrow> st' | Some e \<Rightarrow> explain (e (answer = Partly)) st'))"

definition and_then :: "('k, 'c) login_step \<Rightarrow> ('k, 'c) login_step \<Rightarrow> ('k, 'c) login_step" where
  "and_then f g st = (case f st of (None, st') \<Rightarrow> g st' | (Some r, st') \<Rightarrow> (Some r, st'))"

definition certificate_step ::
    "('k, 'c) login_env \<Rightarrow> ('k, 'c) conversation \<Rightarrow> string \<Rightarrow> 'k \<Rightarrow> hash_alg option \<Rightarrow> ('k, 'c) login_step" where
  "certificate_step v co path k h st =
     (let cert_path = path @ ''-cert.pub''
      in if \<not> le_exists v cert_path then (None, st)
         else case le_load_certificate v cert_path of
           None \<Rightarrow> (Some (Inl (Bad_certificate cert_path)), st)
         | Some c \<Rightarrow> try_attempt co (File_certificate k c h) Signing_failed (Some (Refused_certificate cert_path)) st)"

definition plain_step :: "('k, 'c) conversation \<Rightarrow> string \<Rightarrow> 'k \<Rightarrow> hash_alg option \<Rightarrow> ('k, 'c) login_step" where
  "plain_step co path k h st =
     (if k \<in> set (lo_attempted st) then (None, st)
      else try_attempt co (File_key k h) Login_lost (Some (Refused_file path)) (mark_attempted k st))"

definition secret_step :: "('k, 'c) login_env \<Rightarrow> ('k, 'c) conversation \<Rightarrow> string \<Rightarrow> 'k \<Rightarrow> ('k, 'c) login_step" where
  "secret_step v co path k st =
     (let st = permit k st
      in case rsa_hash v co k st of
           Inl (Some e) \<Rightarrow> (None, explain e st)
         | Inl None \<Rightarrow> (Some (Inl Login_lost), st)
         | Inr h \<Rightarrow> and_then (certificate_step v co path k h) (plain_step co path k h) st)"

text \<open>The key a public file beside the identity file names, and the key a file with a public part only names.\<close>

definition sidecar_key :: "('k, 'c) login_env \<Rightarrow> string \<Rightarrow> 'k option" where
  "sidecar_key v path = Option.bind (le_text v (path @ ''.pub'')) (le_public v)"

definition public_part :: "('k, 'c) login_env \<Rightarrow> string \<Rightarrow> 'k option" where
  "public_part v path = (case le_text v path of
       None \<Rightarrow> None
     | Some t \<Rightarrow> (case le_public v t of
           Some k \<Rightarrow> Some k
         | None \<Rightarrow> map_option (le_cert_key v) (le_certificate v t)))"

definition identity_step ::
    "('k, 'c) login_env \<Rightarrow> ('k, 'c) conversation \<Rightarrow> resolved_server \<Rightarrow> string \<Rightarrow> ('k, 'c) login_step" where
  "identity_step v co s path st0 =
     (let st = (case sidecar_key v path of None \<Rightarrow> st0 | Some k \<Rightarrow> permit k st0)
      in if \<not> le_exists v path
         then (None, if rs_explicit_identity_files s then explain (Identity_missing path) st else st)
         else case public_part v path of
           Some k \<Rightarrow> (None, permit k st)
         | None \<Rightarrow> (case le_secret v path of
               None \<Rightarrow> (None, explain (Identity_locked path) st)
             | Some k \<Rightarrow> secret_step v co path k st))"

fun in_turn :: "('a \<Rightarrow> ('k, 'c) login_step) \<Rightarrow> 'a list \<Rightarrow> ('k, 'c) login_step" where
  "in_turn f [] st = (None, st)"
| "in_turn f (x # xs) st = and_then (f x) (in_turn f xs) st"

section \<open>The agent\<close>

definition agent_disabled :: "resolved_server \<Rightarrow> bool" where
  "agent_disabled s = (case rs_identity_agent s of None \<Rightarrow> False | Some a \<Rightarrow> eq_ignore_ascii_case a ''none'')"

definition agent_socket :: "('k, 'c) login_env \<Rightarrow> resolved_server \<Rightarrow> string option" where
  "agent_socket v s =
     (if agent_disabled s then None
      else case rs_identity_agent s of
        Some a \<Rightarrow> if a \<noteq> [] then Some a else le_auth_sock v
      | None \<Rightarrow> le_auth_sock v)"

datatype ('k, 'c) agent = Unreachable | Missing | Lists "('k, 'c) agent_identity list" | Refuses_list

definition open_agent :: "('k, 'c) login_env \<Rightarrow> resolved_server \<Rightarrow> ('k, 'c) agent" where
  "open_agent v s = (case agent_socket v s of
       None \<Rightarrow> Missing
     | Some path \<Rightarrow> (case le_agent v path of
           None \<Rightarrow> Unreachable
         | Some None \<Rightarrow> Refuses_list
         | Some (Some ids) \<Rightarrow> Lists ids))"

definition identity_key :: "('k, 'c) login_env \<Rightarrow> ('k, 'c) agent_identity \<Rightarrow> 'k" where
  "identity_key v i = (case i of Agent_plain k \<Rightarrow> k | Agent_certificate c \<Rightarrow> le_cert_key v c)"

definition agent_step ::
    "('k, 'c) login_env \<Rightarrow> ('k, 'c) conversation \<Rightarrow> resolved_server \<Rightarrow> ('k, 'c) agent_identity \<Rightarrow> ('k, 'c) login_step" where
  "agent_step v co s i st =
     (let k = identity_key v i; plain = (case i of Agent_plain _ \<Rightarrow> True | _ \<Rightarrow> False)
      in if rs_identities_only s \<and> k \<notin> set (lo_permitted st) then (None, st)
         else if plain \<and> k \<in> set (lo_attempted st) then (None, st)
         else case rsa_hash v co k st of
           Inl (Some e) \<Rightarrow> (None, explain e st)
         | Inl None \<Rightarrow> (Some (Inl Login_lost), st)
         | Inr h \<Rightarrow> (case i of
               Agent_plain k \<Rightarrow> try_attempt co (Agent_key k h) Agent_signing_failed None (mark_attempted k st)
             | Agent_certificate c \<Rightarrow> try_attempt co (Agent_cert c h) Agent_signing_failed None st))"

definition agent_part :: "('k, 'c) login_env \<Rightarrow> ('k, 'c) conversation \<Rightarrow> resolved_server \<Rightarrow> ('k, 'c) login_step" where
  "agent_part v co s st = (case open_agent v s of
       Unreachable \<Rightarrow> (None, explain (Agent_unavailable (agent_socket v s)) st)
     | Missing \<Rightarrow> (None, explain No_agent st)
     | Refuses_list \<Rightarrow> (None, explain Agent_unlisted st)
     | Lists ids \<Rightarrow> in_turn (agent_step v co s) ids (if ids = [] then explain Agent_empty st else st))"

definition authenticate ::
    "('k, 'c) login_env \<Rightarrow> ('k, 'c) conversation \<Rightarrow> resolved_server \<Rightarrow> (auth_error + unit) \<times> ('k, 'c) attempt list" where
  "authenticate v co s =
     (case and_then (in_turn (identity_step v co s) (rs_identity_files s)) (agent_part v co s)
             \<lparr>lo_explained = [], lo_permitted = [], lo_attempted = [], lo_trail = []\<rparr> of
        (Some r, st) \<Rightarrow> (r, lo_trail st)
      | (None, st) \<Rightarrow>
          (Inl (Not_admitted (rs_user s) (rs_host s)
             (if lo_explained st = [] then [Nothing_accepted] else lo_explained st)), lo_trail st))"

section \<open>What every login keeps to\<close>

fun attempt_key :: "('k, 'c) login_env \<Rightarrow> ('k, 'c) attempt \<Rightarrow> 'k" where
  "attempt_key v (File_key k h) = k"
| "attempt_key v (File_certificate k c h) = k"
| "attempt_key v (Agent_key k h) = k"
| "attempt_key v (Agent_cert c h) = le_cert_key v c"

fun attempt_hash :: "('k, 'c) attempt \<Rightarrow> hash_alg option" where
  "attempt_hash (File_key k h) = h"
| "attempt_hash (File_certificate k c h) = h"
| "attempt_hash (Agent_key k h) = h"
| "attempt_hash (Agent_cert c h) = h"

fun by_agent :: "('k, 'c) attempt \<Rightarrow> bool" where
  "by_agent (Agent_key k h) = True"
| "by_agent (Agent_cert c h) = True"
| "by_agent _ = False"

fun plain_keys :: "('k, 'c) attempt list \<Rightarrow> 'k list" where
  "plain_keys [] = []"
| "plain_keys (File_key k h # as) = k # plain_keys as"
| "plain_keys (Agent_key k h # as) = k # plain_keys as"
| "plain_keys (_ # as) = plain_keys as"

text \<open>The keys that the identity files of a server name.\<close>

definition named_keys :: "('k, 'c) login_env \<Rightarrow> resolved_server \<Rightarrow> 'k set" where
  "named_keys v s =
     (\<Union>p \<in> set (rs_identity_files s). set_option (sidecar_key v p) \<union> set_option (public_part v p) \<union> set_option (le_secret v p))"

definition allowed :: "('k, 'c) login_env \<Rightarrow> resolved_server \<Rightarrow> ('k, 'c) attempt \<Rightarrow> bool" where
  "allowed v s a =
     ((\<not> by_agent a \<or> rs_identities_only s \<longrightarrow> attempt_key v a \<in> named_keys v s) \<and>
      (by_agent a \<longrightarrow> agent_socket v s \<noteq> None) \<and>
      (le_is_rsa v (attempt_key v a) \<longrightarrow> attempt_hash a \<noteq> None))"

definition login_kept :: "('k, 'c) login_env \<Rightarrow> resolved_server \<Rightarrow> ('k, 'c) login \<Rightarrow> bool" where
  "login_kept v s st =
     (set (lo_permitted st) \<subseteq> named_keys v s \<and> list_all (allowed v s) (lo_trail st) \<and>
      plain_keys (lo_trail st) = lo_attempted st \<and> distinct (lo_attempted st))"

lemma plain_keys_append [simp]: "plain_keys (as @ bs) = plain_keys as @ plain_keys bs"
  by (induction as rule: plain_keys.induct) simp_all

lemma login_select [simp]:
  "lo_permitted (explain e st) = lo_permitted st" "lo_attempted (explain e st) = lo_attempted st" "lo_trail (explain e st) = lo_trail st"
  "lo_permitted (permit k st) = lo_permitted st @ [k]" "lo_attempted (permit k st) = lo_attempted st" "lo_trail (permit k st) = lo_trail st"
  "lo_permitted (mark_attempted k st) = lo_permitted st" "lo_attempted (mark_attempted k st) = lo_attempted st @ [k]"
  "lo_trail (mark_attempted k st) = lo_trail st" "lo_explained (mark_attempted k st) = lo_explained st"
  by (simp_all add: explain_def permit_def mark_attempted_def)

lemma try_attempt_select [simp]:
  "lo_permitted (snd (try_attempt co a b e st)) = lo_permitted st" "lo_attempted (snd (try_attempt co a b e st)) = lo_attempted st"
  "lo_trail (snd (try_attempt co a b e st)) = lo_trail st @ [a]"
  by (simp_all add: try_attempt_def Let_def split: auth_answer.split option.split)

lemma explain_kept [simp]: "login_kept v s (explain e st) = login_kept v s st"
  by (simp add: login_kept_def)

lemma permit_kept: "k \<in> named_keys v s \<Longrightarrow> login_kept v s st \<Longrightarrow> login_kept v s (permit k st)"
  by (simp add: login_kept_def)

lemma and_then_kept:
  assumes "P st" and "\<And>st. P st \<Longrightarrow> P (snd (f st))" and "\<And>st. P st \<Longrightarrow> P (snd (g st))"
  shows "P (snd (and_then f g st))"
  using assms(2) [OF assms(1)] assms(3) by (auto simp: and_then_def split: prod.splits option.splits)

lemma in_turn_kept:
  "P st \<Longrightarrow> (\<And>x st. x \<in> set xs \<Longrightarrow> P st \<Longrightarrow> P (snd (f x st))) \<Longrightarrow> P (snd (in_turn f xs st))"
proof (induction xs arbitrary: st)
  case (Cons x xs)
  then show ?case by (auto intro!: and_then_kept [where P = P])
qed simp

lemma rsa_hash_safe: "rsa_hash v co k st = Inr h \<Longrightarrow> le_is_rsa v k \<Longrightarrow> h \<noteq> None"
  by (auto simp: rsa_hash_def split: rsa_support.splits)

lemma secret_step_kept:
  assumes "login_kept v s st" and "k \<in> named_keys v s"
  shows "login_kept v s (snd (secret_step v co path k st))"
proof (cases "rsa_hash v co k (permit k st)")
  case (Inl a)
  with assms show ?thesis by (auto simp: secret_step_def Let_def permit_kept split: option.splits)
next
  case (Inr h)
  have a: "allowed v s (File_certificate k c h)" "allowed v s (File_key k h)" for c
    using assms(2) rsa_hash_safe [OF Inr] by (simp_all add: allowed_def)
  have "login_kept v s (snd (certificate_step v co path k h st))" if "login_kept v s st" for st
    using that a by (auto simp: certificate_step_def Let_def login_kept_def split: option.split)
  moreover have "login_kept v s (snd (plain_step co path k h st))" if "login_kept v s st" for st
    using that a by (auto simp: plain_step_def login_kept_def)
  ultimately show ?thesis
    using permit_kept [OF assms(2,1)] Inr by (auto simp: secret_step_def Let_def intro!: and_then_kept [where P = "login_kept v s"])
qed

lemma identity_step_kept:
  assumes "login_kept v s st" and "path \<in> set (rs_identity_files s)"
  shows "login_kept v s (snd (identity_step v co s path st))"
proof -
  have n: "\<And>k. sidecar_key v path = Some k \<Longrightarrow> k \<in> named_keys v s" "\<And>k. public_part v path = Some k \<Longrightarrow> k \<in> named_keys v s"
    "\<And>k. le_secret v path = Some k \<Longrightarrow> k \<in> named_keys v s"
    using assms(2) by (auto simp: named_keys_def)
  define st' where "st' = (case sidecar_key v path of None \<Rightarrow> st | Some k \<Rightarrow> permit k st)"
  have "login_kept v s st'" using assms(1) n by (auto simp: st'_def permit_kept split: option.splits)
  then show ?thesis
    unfolding identity_step_def st'_def [symmetric] Let_def
    using n by (auto simp: permit_kept secret_step_kept split: option.splits)
qed

lemma agent_step_kept:
  assumes "login_kept v s st" and "agent_socket v s = Some sock"
  shows "login_kept v s (snd (agent_step v co s i st))"
proof (cases "rsa_hash v co (identity_key v i) st")
  case (Inl a)
  with assms(1) show ?thesis by (auto simp: agent_step_def Let_def split: option.splits)
next
  case (Inr h)
  with assms rsa_hash_safe [OF Inr] show ?thesis
    by (cases i) (auto simp: agent_step_def Let_def identity_key_def login_kept_def allowed_def)
qed

lemma authenticate_kept: "\<exists>st. login_kept v s st \<and> lo_trail st = snd (authenticate v co s)"
proof -
  let ?start = "\<lparr>lo_explained = [], lo_permitted = [], lo_attempted = [], lo_trail = []\<rparr>"
  have "login_kept v s (snd (agent_part v co s st))" if "login_kept v s st" for st
    using that
    by (auto simp: agent_part_def open_agent_def split: option.splits agent.splits
        intro!: in_turn_kept [where P = "login_kept v s"] agent_step_kept)
  then have "login_kept v s (snd (and_then (in_turn (identity_step v co s) (rs_identity_files s)) (agent_part v co s) ?start))"
    by (intro and_then_kept [where P = "login_kept v s"])
      (auto simp: login_kept_def [of v s ?start] intro!: in_turn_kept [where P = "login_kept v s"] identity_step_kept)
  then show ?thesis
    by (intro exI [of _ "snd (and_then (in_turn (identity_step v co s) (rs_identity_files s)) (agent_part v co s) ?start)"])
      (auto simp: authenticate_def split: prod.splits option.splits)
qed

lemma login_kept_attempts: "list_all (allowed v s) (snd (authenticate v co s))"
  using authenticate_kept [of v s co] by (auto simp: login_kept_def)

text \<open>
  Property C21. Whatever the server answers, a login offers from the identity files, and with
  IdentitiesOnly from the agent too, only keys that the identity files name; asks the agent only if one
  is configured; never signs with an RSA key under SHA-1; and offers no plain key twice.
\<close>

theorem login_keeps_to_settings:
  "list_all (allowed v s) (snd (authenticate v co s)) \<and> distinct (plain_keys (snd (authenticate v co s)))"
  using authenticate_kept [of v s co] by (auto simp: login_kept_def)

section \<open>Who is let in\<close>

text \<open>What was answered to each attempt.\<close>

definition answers :: "('k, 'c) conversation \<Rightarrow> ('k, 'c) attempt list \<Rightarrow> auth_answer list" where
  "answers co as = map (\<lambda>i. co_answer co (take i as) (as ! i)) [0..<length as]"

lemma answers_snoc [simp]: "answers co (as @ [a]) = answers co as @ [co_answer co as a]"
  by (simp add: answers_def nth_append)

lemma answers_Nil [simp]: "answers co [] = []"
  by (simp add: answers_def)

lemma butlast_answers: "butlast (answers co as) = answers co (butlast as)"
  by (cases as rule: rev_cases) simp_all

lemma answers_empty [simp]: "answers co as = [] \<longleftrightarrow> as = []"
  by (simp add: answers_def)

lemma harmless: "Accepted \<notin> A \<Longrightarrow> Broken \<notin> A \<Longrightarrow> A \<subseteq> {Rejected, Partly}"
  using auth_answer.exhaust by blast

definition refused :: "('k, 'c) conversation \<Rightarrow> ('k, 'c) attempt list \<Rightarrow> bool" where
  "refused co as = (Accepted \<notin> set (answers co as) \<and> Broken \<notin> set (answers co as))"

definition settled :: "('k, 'c) conversation \<Rightarrow> (auth_error + unit) option \<Rightarrow> ('k, 'c) attempt list \<Rightarrow> bool" where
  "settled co r as = (case r of
       None \<Rightarrow> refused co as
     | Some (Inr _) \<Rightarrow> as \<noteq> [] \<and> refused co (butlast as) \<and> last (answers co as) = Accepted
     | Some (Inl _) \<Rightarrow> Accepted \<notin> set (answers co as) \<and> Broken \<notin> set (butlast (answers co as)))"

definition settles :: "('k, 'c) conversation \<Rightarrow> ('k, 'c) login_step \<Rightarrow> bool" where
  "settles co f = (\<forall>st. refused co (lo_trail st) \<longrightarrow> settled co (fst (f st)) (lo_trail (snd (f st))))"

lemma settlesD: "settles co f \<Longrightarrow> refused co (lo_trail st) \<Longrightarrow> f st = (r, st') \<Longrightarrow> settled co r (lo_trail st')"
  by (auto simp: settles_def)

lemma refused_settled: "refused co as \<Longrightarrow> r \<noteq> Some (Inr ()) \<Longrightarrow> settled co r as"
  by (auto simp: settled_def refused_def split: option.splits sum.splits dest: in_set_butlastD)

lemma try_attempt_settles: "lo_trail st = as \<Longrightarrow> refused co as \<Longrightarrow> settled co (fst (try_attempt co a b e st)) (as @ [a])"
  by (auto simp: try_attempt_def Let_def settled_def refused_def split: auth_answer.split option.split)

lemma and_then_settles: "settles co f \<Longrightarrow> settles co g \<Longrightarrow> settles co (and_then f g)"
proof (unfold settles_def, intro allI impI)
  fix st :: "('a, 'b) login"
  assume f: "\<forall>st. refused co (lo_trail st) \<longrightarrow> settled co (fst (f st)) (lo_trail (snd (f st)))"
    and g: "\<forall>st. refused co (lo_trail st) \<longrightarrow> settled co (fst (g st)) (lo_trail (snd (g st)))" and r: "refused co (lo_trail st)"
  obtain q st' where q: "f st = (q, st')" by fastforce
  with f r have "settled co q (lo_trail st')" by fastforce
  with q g show "settled co (fst (and_then f g st)) (lo_trail (snd (and_then f g st)))"
    by (cases q) (auto simp: and_then_def settled_def)
qed

lemma in_turn_settles: "(\<And>x. x \<in> set xs \<Longrightarrow> settles co (f x)) \<Longrightarrow> settles co (in_turn f xs)"
proof (induction xs)
  case Nil
  then show ?case by (simp add: settles_def settled_def)
next
  case (Cons x xs)
  then have "settles co (and_then (f x) (in_turn f xs))" by (intro and_then_settles) auto
  then show ?case by (simp add: settles_def)
qed

lemma identity_step_settles: "settles co (identity_step v co s path)"
proof -
  have plain: "settles co (plain_step co path k h)" for k h
    by (auto simp: settles_def plain_step_def try_attempt_settles refused_settled)
  have cert: "settles co (certificate_step v co path k h)" for k h
    by (auto simp: settles_def certificate_step_def Let_def try_attempt_settles refused_settled split: option.split)
  have "settles co (secret_step v co path k)" for k
    using and_then_settles [OF cert plain]
    by (auto simp: settles_def secret_step_def Let_def refused_settled split: sum.split option.split)
  then show ?thesis
    by (auto simp: settles_def identity_step_def Let_def refused_settled split: option.split)
qed

lemma agent_part_settles: "settles co (agent_part v co s)"
proof -
  have "settles co (agent_step v co s i)" for i
    by (cases i) (auto simp: settles_def agent_step_def Let_def try_attempt_settles refused_settled split: sum.split option.split)
  then have "settles co (in_turn (agent_step v co s) ids)" for ids by (intro in_turn_settles)
  then show ?thesis
    by (auto simp: settles_def agent_part_def refused_settled split: agent.split)
qed

text \<open>
  A login succeeds exactly when the server accepts an attempt; it stops at once when one
  is accepted or the exchange breaks down, so that nothing is offered after that.
\<close>

theorem admitted_iff_accepted:
  "(fst (authenticate v co s) = Inr ()) = (Accepted \<in> set (answers co (snd (authenticate v co s)))) \<and>
   set (butlast (answers co (snd (authenticate v co s)))) \<subseteq> {Rejected, Partly}"
proof -
  define start :: "('a, 'b) login" where "start = \<lparr>lo_explained = [], lo_permitted = [], lo_attempted = [], lo_trail = []\<rparr>"
  let ?run = "and_then (in_turn (identity_step v co s) (rs_identity_files s)) (agent_part v co s)"
  obtain r st where r: "?run start = (r, st)" by fastforce
  have "settles co ?run" by (intro and_then_settles in_turn_settles identity_step_settles agent_part_settles)
  then have settled: "settled co r (lo_trail st)" using settlesD [where f = ?run, OF _ _ r] by (simp add: start_def refused_def)
  have run: "snd (authenticate v co s) = lo_trail st" "fst (authenticate v co s) = Inr () \<longleftrightarrow> r = Some (Inr ())"
    using r by (auto simp: authenticate_def start_def split: option.splits)
  have early: "Accepted \<notin> set (butlast (answers co (lo_trail st)))" "Broken \<notin> set (butlast (answers co (lo_trail st)))"
    using settled by (auto simp: settled_def refused_def butlast_answers [symmetric] split: option.splits sum.splits dest: in_set_butlastD)
  have "r = Some (Inr ()) \<longleftrightarrow> Accepted \<in> set (answers co (lo_trail st))"
  proof
    assume "r = Some (Inr ())"
    with settled have "lo_trail st \<noteq> []" "last (answers co (lo_trail st)) = Accepted" by (simp_all add: settled_def)
    then show "Accepted \<in> set (answers co (lo_trail st))" using last_in_set [of "answers co (lo_trail st)"] by simp
  next
    assume "Accepted \<in> set (answers co (lo_trail st))"
    with settled show "r = Some (Inr ())" by (auto simp: settled_def refused_def split: option.splits sum.splits)
  qed
  then show ?thesis using harmless [OF early] by (simp add: run)
qed

section \<open>A key that is accepted gets in\<close>

definition unbroken :: "('k, 'c) login_env \<Rightarrow> ('k, 'c) conversation \<Rightarrow> resolved_server \<Rightarrow> bool" where
  "unbroken v co s =
     ((\<forall>as a. co_answer co as a \<noteq> Broken) \<and> (\<forall>as. co_rsa co as \<noteq> Rsa_lost \<and> co_rsa co as \<noteq> Rsa_obsolete) \<and>
      (\<forall>p \<in> set (rs_identity_files s). le_exists v (p @ ''-cert.pub'') \<longrightarrow> le_load_certificate v (p @ ''-cert.pub'') \<noteq> None))"

text \<open>A step that goes on has not offered the key, and one that ends has been let in.\<close>

definition opens_with :: "'k \<Rightarrow> (auth_error + unit) option \<times> ('k, 'c) login \<Rightarrow> bool" where
  "opens_with k q = (case fst q of None \<Rightarrow> k \<notin> set (lo_attempted (snd q)) | Some r \<Rightarrow> r = Inr ())"

lemma opens_and_then:
  assumes "opens_with k (f st)" and "\<And>st. k \<notin> set (lo_attempted st) \<Longrightarrow> opens_with k (g st)"
  shows "opens_with k (and_then f g st)"
  using assms(1) assms(2) [of "snd (f st)"] by (cases "f st") (auto simp: opens_with_def and_then_def split: option.splits)

lemma opens_in_turn:
  assumes "k \<notin> set (lo_attempted st)" and "\<And>x st. x \<in> set xs \<Longrightarrow> k \<notin> set (lo_attempted st) \<Longrightarrow> opens_with k (f x st)"
  shows "opens_with k (in_turn f xs st)"
  using assms
proof (induction xs arbitrary: st)
  case Nil
  then show ?case by (simp add: opens_with_def)
next
  case (Cons x xs)
  then show ?case by (auto intro!: opens_and_then)
qed

lemma in_turn_ends:
  assumes "k \<notin> set (lo_attempted st)" and "\<And>x st. x \<in> set xs \<Longrightarrow> k \<notin> set (lo_attempted st) \<Longrightarrow> opens_with k (f x st)"
    and "p \<in> set xs" and "\<And>st. k \<notin> set (lo_attempted st) \<Longrightarrow> fst (f p st) \<noteq> None"
  shows "fst (in_turn f xs st) = Some (Inr ())"
  using assms
proof (induction xs arbitrary: st)
  case (Cons x xs)
  have x: "opens_with k (f x st)" using Cons.prems by simp
  obtain r st' where r: "f x st = (r, st')" by fastforce
  show ?case
  proof (cases r)
    case None
    then have "k \<notin> set (lo_attempted st')" "p \<noteq> x" using x r Cons.prems(1) Cons.prems(4) [of st] by (auto simp: opens_with_def)
    then have "fst (in_turn f xs st') = Some (Inr ())" using Cons.prems by (intro Cons.IH) auto
    then show ?thesis using r None by (simp add: and_then_def)
  next
    case (Some q)
    then show ?thesis using x r by (simp add: opens_with_def and_then_def)
  qed
qed simp

lemma unbroken_hash: "unbroken v co s \<Longrightarrow> \<exists>h. rsa_hash v co k st = Inr h"
  by (cases "co_rsa co (lo_trail st)") (auto simp: unbroken_def rsa_hash_def)

lemma secret_step_opens:
  assumes "unbroken v co s" and "path \<in> set (rs_identity_files s)" and "\<forall>as h. co_answer co as (File_key k h) = Accepted"
    and "k \<notin> set (lo_attempted st)"
  shows "opens_with k (secret_step v co path j st)" and "fst (secret_step v co path k st) \<noteq> None"
proof -
  have b: "co_answer co as a \<noteq> Broken" for as a using assms(1) by (simp add: unbroken_def)
  have c: "opens_with k (certificate_step v co path j h st)" if "k \<notin> set (lo_attempted st)" for j h st
    using that b assms(1,2)
    by (auto simp: certificate_step_def Let_def opens_with_def try_attempt_def unbroken_def split: option.splits auth_answer.split)
  have p: "opens_with k (plain_step co path j h st)" if "k \<notin> set (lo_attempted st)" for j h st
    using that b assms(3) by (auto simp: plain_step_def opens_with_def try_attempt_def Let_def split: auth_answer.split)
  show "opens_with k (secret_step v co path j st)"
    using unbroken_hash [OF assms(1), of j "permit j st"] assms(4) p c
    by (auto simp: secret_step_def Let_def intro!: opens_and_then)
  have e: "fst (plain_step co path k h st) \<noteq> None" if "k \<notin> set (lo_attempted st)" for h st
    using that assms(3) by (simp add: plain_step_def try_attempt_def Let_def)
  obtain h where h: "rsa_hash v co k (permit k st) = Inr h" using unbroken_hash [OF assms(1)] by blast
  obtain r st' where r: "certificate_step v co path k h (permit k st) = (r, st')" by fastforce
  with c [of "permit k st" k h] assms(4) e [of st' h] h show "fst (secret_step v co path k st) \<noteq> None"
    by (cases r) (auto simp: secret_step_def Let_def and_then_def opens_with_def)
qed

lemma permit_option_attempted [simp]:
  "lo_attempted (case j of None \<Rightarrow> st | Some k \<Rightarrow> permit k st) = lo_attempted st"
  by (cases j) simp_all


section \<open>Witness\<close>

text \<open>The key of \<open>/a\<close> is refused, that of \<open>/b\<close> is accepted.\<close>

definition login_sample :: "(nat, nat) login_env" where
  "login_sample = \<lparr>le_text = (\<lambda>_. None), le_exists = (\<lambda>p. length p = 2), le_public = (\<lambda>_. None),
     le_certificate = (\<lambda>_. None), le_cert_key = id, le_secret = (\<lambda>p. if p = ''/a'' then Some 1 else Some 2), le_load_certificate = (\<lambda>_. None),
     le_is_rsa = (\<lambda>k. k = 2), le_auth_sock = None, le_agent = (\<lambda>_. None)\<rparr>"

definition choosy_server :: "(nat, nat) conversation" where
  "choosy_server = \<lparr>co_rsa = (\<lambda>_. Rsa_unspecified), co_answer = (\<lambda>_ a. case a of File_key k h \<Rightarrow> if k = 2 then Accepted else Rejected | _ \<Rightarrow> Rejected)\<rparr>"

definition login_server :: resolved_server where
  "login_server = \<lparr>rs_alias = ''db'', rs_host = ''db.example'', rs_user = ''me'', rs_port = 22, rs_identity_files = [''/a'', ''/b''],
     rs_explicit_identity_files = True, rs_known_hosts = ''/k'', rs_global_known_hosts = [], rs_proxy_jump = [],
     rs_identity_agent = None, rs_identities_only = True, rs_host_key_alias = None, rs_ssh_config = ''/c''\<rparr>"


end
