(* ===== verification/Dial.thy ===== *)
theory Dial
  imports Hops Auth HostTrust
begin

text \<open>
  Reaching a server, \<open>crates/fwm-core/src/ssh/connection.rs\<close>: through its jump hosts, each of them checked
  and logged in to before the next is dialled, then the server itself. What the network and the servers
  answer is a parameter, and so is the moment a timeout strikes. A run is its result and the events of
  the connections, numbered along the route.
\<close>

section \<open>Data\<close>

datatype dial_error =
    Hop_failed nat resolved_server dial_error | Bad_route route_error | Untrusted trust_error | Login_failed auth_error
  | Connection_failed | Protocol_failed | Timed_out u64 | Login_timed_out u64

datatype ('k, 'c) dial_event =
    Dials string u16 | Checks nat "'k offered_key" | Authenticating bool | Attempts nat "('k, 'c) attempt" | Opens nat string u16
  | Leaves nat

record ('k, 'c) network =
  nt_connects :: "string \<Rightarrow> u16 \<Rightarrow> bool"
  nt_offers :: "nat \<Rightarrow> 'k offered_key option"
  nt_completes :: "nat \<Rightarrow> bool"
  nt_talk :: "nat \<Rightarrow> ('k, 'c) conversation"
  nt_opens :: "nat \<Rightarrow> string \<Rightarrow> u16 \<Rightarrow> bool"

record ('k, 'c) dialer =
  dl_resolver :: resolver
  dl_login :: "('k, 'c) login_env"
  dl_keys :: "'k key_env"
  dl_files :: known_files
  dl_network :: "('k, 'c) network"

type_synonym ('k, 'c, 'a) run = "(dial_error + 'a) \<times> ('k, 'c) dial_event list"

definition run_bind :: "('k, 'c, 'a) run \<Rightarrow> ('a \<Rightarrow> ('k, 'c, 'b) run) \<Rightarrow> ('k, 'c, 'b) run" where
  "run_bind m f = (case fst m of
       Inl e \<Rightarrow> (Inl e, snd m)
     | Inr a \<Rightarrow> (fst (f a), snd m @ snd (f a)))"

definition run_error :: "(dial_error \<Rightarrow> dial_error) \<Rightarrow> ('k, 'c, 'a) run \<Rightarrow> ('k, 'c, 'a) run" where
  "run_error g m = (map_err g (fst m), snd m)"

section \<open>Errors\<close>

text \<open>Whether an error is one that retrying does not mend.\<close>

fun login_needs_attention :: "auth_error \<Rightarrow> bool" where
  "login_needs_attention Login_lost = False"
| "login_needs_attention _ = True"

fun needs_attention :: "dial_error \<Rightarrow> bool" where
  "needs_attention (Hop_failed i s e) = needs_attention e"
| "needs_attention (Bad_route e) = True"
| "needs_attention (Untrusted e) = True"
| "needs_attention (Login_failed e) = login_needs_attention e"
| "needs_attention (Login_timed_out n) = True"
| "needs_attention _ = False"

definition timeout_error :: "u64 \<Rightarrow> bool \<Rightarrow> dial_error" where
  "timeout_error seconds authenticating = (if authenticating then Login_timed_out seconds else Timed_out seconds)"

text \<open>What the flag \<open>authenticating\<close> holds after some events.\<close>

definition authenticating_after :: "('k, 'c) dial_event list \<Rightarrow> bool" where
  "authenticating_after t = foldl (\<lambda>b e. case e of Authenticating b' \<Rightarrow> b' | _ \<Rightarrow> b) False t"

definition within_time :: "u64 \<Rightarrow> nat option \<Rightarrow> ('k, 'c, 'a) run \<Rightarrow> ('k, 'c, 'a) run" where
  "within_time seconds expires m = (case expires of
       None \<Rightarrow> m
     | Some n \<Rightarrow> (Inl (timeout_error seconds (authenticating_after (take n (snd m)))), take n (snd m)))"

section \<open>One connection\<close>

definition dial_tcp :: "('k, 'c) dialer \<Rightarrow> string \<Rightarrow> u16 \<Rightarrow> ('k, 'c, unit) run" where
  "dial_tcp d host port = (if nt_connects (dl_network d) host port then Inr () else Inl Connection_failed, [Dials host port])"

text \<open>The key exchange, in which the handler decides on the server's key.\<close>

definition connect_stream ::
    "('k, 'c) dialer \<Rightarrow> nat \<Rightarrow> ('k offered_key \<Rightarrow> trust_error + bool) \<Rightarrow> ('k, 'c, 'k offered_key) run" where
  "connect_stream d i check = (case nt_offers (dl_network d) i of
       None \<Rightarrow> (Inl Protocol_failed, [])
     | Some k \<Rightarrow> (case check k of
           Inl e \<Rightarrow> (Inl (Untrusted e), [Checks i k])
         | Inr True \<Rightarrow> (if nt_completes (dl_network d) i then Inr k else Inl Protocol_failed, [Checks i k])
         | Inr False \<Rightarrow> (Inl Protocol_failed, [Checks i k])))"

definition log_in :: "('k, 'c) dialer \<Rightarrow> nat \<Rightarrow> resolved_server \<Rightarrow> ('k, 'c, unit) run" where
  "log_in d i s =
     (let (r, trail) = authenticate (dl_login d) (nt_talk (dl_network d) i) s
      in (map_err Login_failed r, map (Attempts i) trail))"

definition set_authenticating :: "bool \<Rightarrow> ('k, 'c, unit) run" where
  "set_authenticating b = (Inr (), [Authenticating b])"

definition open_direct :: "('k, 'c) dialer \<Rightarrow> nat \<Rightarrow> resolved_server \<Rightarrow> ('k, 'c, unit) run" where
  "open_direct d i next_server =
     (if nt_opens (dl_network d) i (rs_host next_server) (rs_port next_server) then Inr () else Inl Protocol_failed,
      [Opens i (rs_host next_server) (rs_port next_server)])"

definition jump_handler :: "('k, 'c) dialer \<Rightarrow> resolved_server \<Rightarrow> 'k offered_key \<Rightarrow> trust_error + bool" where
  "jump_handler d s = verify_host_key (dl_keys d) (dl_files d) s"

section \<open>Through the jump hosts\<close>

definition pass_hop :: "('k, 'c) dialer \<Rightarrow> nat \<Rightarrow> resolved_server \<Rightarrow> resolved_server \<Rightarrow> ('k, 'c, unit) run" where
  "pass_hop d i hop next_server =
     run_error (Hop_failed i hop)
       (run_bind (connect_stream d i (jump_handler d hop)) (\<lambda>_.
        run_bind (set_authenticating True) (\<lambda>_.
        run_bind (log_in d i hop) (\<lambda>_.
        run_bind (set_authenticating False) (\<lambda>_.
        open_direct d i next_server)))))"

fun pass_hops :: "('k, 'c) dialer \<Rightarrow> nat \<Rightarrow> resolved_server list \<Rightarrow> resolved_server \<Rightarrow> ('k, 'c, unit) run" where
  "pass_hops d i [] dest = (Inr (), [])"
| "pass_hops d i (hop # hops) dest =
     run_bind (pass_hop d i hop (case hops of [] \<Rightarrow> dest | h # _ \<Rightarrow> h)) (\<lambda>_. pass_hops d (Suc i) hops dest)"

definition transport_through :: "('k, 'c) dialer \<Rightarrow> resolved_server list \<Rightarrow> resolved_server \<Rightarrow> ('k, 'c, unit) run" where
  "transport_through d hops dest = (case hops of
       [] \<Rightarrow> dial_tcp d (rs_host dest) (rs_port dest)
     | hop # _ \<Rightarrow> run_bind (run_error (Hop_failed 0 hop) (dial_tcp d (rs_host hop) (rs_port hop))) (\<lambda>_. pass_hops d 0 hops dest))"

definition run_result :: "route_error + 'a \<Rightarrow> ('k, 'c, 'a) run" where
  "run_result r = (map_err Bad_route r, [])"

definition leave_on_error :: "nat \<Rightarrow> ('k, 'c, unit) run \<Rightarrow> ('k, 'c, unit) run" where
  "leave_on_error i m = (fst m, snd m @ (if is_ok (fst m) then [] else [Leaves i]))"

definition connect ::
    "('k, 'c) dialer \<Rightarrow> server_profile \<Rightarrow> retry_policy \<Rightarrow> ('k offered_key \<Rightarrow> trust_error + bool) \<Rightarrow> nat option \<Rightarrow> ('k, 'c, unit) run" where
  "connect d p policy check expires =
     run_bind (run_result (resolve_profile (dl_resolver d) p)) (\<lambda>server.
     within_time (max (connect_timeout_secs policy) 1) expires
       (run_bind (run_result (route_hops (dl_resolver d) p server)) (\<lambda>hops.
        run_bind (transport_through d hops server) (\<lambda>_.
        run_bind (connect_stream d (length hops) check) (\<lambda>_.
        run_bind (set_authenticating True) (\<lambda>_.
        leave_on_error (length hops) (log_in d (length hops) server)))))))"

definition check_connection :: "('k, 'c) dialer \<Rightarrow> server_profile \<Rightarrow> retry_policy \<Rightarrow> nat option \<Rightarrow> ('k, 'c, unit) run" where
  "check_connection d p policy expires =
     run_bind (run_result (resolve_profile (dl_resolver d) p)) (\<lambda>server. connect d p policy (jump_handler d server) expires)"

section \<open>Inspecting a key\<close>

text \<open>The server a key is asked from, and the hosts on the way to it.\<close>

definition inspected :: "('k, 'c) dialer \<Rightarrow> server_profile \<Rightarrow> string option \<Rightarrow> route_error + resolved_server list \<times> resolved_server" where
  "inspected d p hop =
     rbind (resolve_profile (dl_resolver d) p) (\<lambda>server.
     rbind (route_hops (dl_resolver d) p server) (\<lambda>hops.
     case hop of
       None \<Rightarrow> Inr (hops, server)
     | Some selector \<Rightarrow> rbind (select_hop hops selector) (\<lambda>i. Inr (take i hops, hops ! i))))"

definition inspect_handler :: "('k, 'c) dialer \<Rightarrow> resolved_server \<Rightarrow> 'k offered_key \<Rightarrow> trust_error + host_key_info" where
  "inspect_handler d s offered = (case offered of
       Certificate \<Rightarrow> Inl HostCertificate
     | Plain_key k \<Rightarrow> from_key (dl_keys d) (dl_files d) s k)"

definition inspect_key_at ::
    "('k, 'c) dialer \<Rightarrow> server_profile \<Rightarrow> retry_policy \<Rightarrow> string option \<Rightarrow> nat option \<Rightarrow> ('k, 'c, host_key_info) run" where
  "inspect_key_at d p policy hop expires =
     run_bind (run_result (inspected d p hop)) (\<lambda>(hops, server).
     within_time (max (connect_timeout_secs policy) 1) expires
       (run_bind (transport_through d hops server) (\<lambda>_.
        run_bind (connect_stream d (length hops) (\<lambda>k. rbind (inspect_handler d server k) (\<lambda>_. Inr True))) (\<lambda>k.
        (map_err Untrusted (inspect_handler d server k), [Leaves (length hops)])))))"

section \<open>Credentials and trust\<close>

text \<open>
  The connections whose key was let through in some events, and traces in which a login is attempted on
  such connections only, with what the server's settings allow.
\<close>

definition trusted_in :: "(nat \<Rightarrow> 'k offered_key \<Rightarrow> trust_error + bool) \<Rightarrow> ('k, 'c) dial_event list \<Rightarrow> nat set" where
  "trusted_in chk t = {i. \<exists>k. Checks i k \<in> set t \<and> chk i k = Inr True}"

definition guarded ::
    "(nat \<Rightarrow> 'k offered_key \<Rightarrow> trust_error + bool) \<Rightarrow> (nat \<Rightarrow> ('k, 'c) attempt \<Rightarrow> bool) \<Rightarrow> nat set \<Rightarrow> ('k, 'c) dial_event list \<Rightarrow> bool" where
  "guarded chk ok T t = (\<forall>pre i a post. t = pre @ Attempts i a # post \<longrightarrow> i \<in> T \<union> trusted_in chk pre \<and> ok i a)"

lemma trusted_in_append: "trusted_in chk (s @ t) = trusted_in chk s \<union> trusted_in chk t"
  by (auto simp: trusted_in_def)

lemma guarded_set:
  assumes "\<And>i a. Attempts i a \<in> set t \<Longrightarrow> i \<in> T \<and> ok i a"
  shows "guarded chk ok T t"
  unfolding guarded_def
proof (intro allI impI)
  fix pre i a post
  assume "t = pre @ Attempts i a # post"
  then have "Attempts i a \<in> set t" by simp
  with assms show "i \<in> T \<union> trusted_in chk pre \<and> ok i a" by blast
qed

lemma guarded_none: "\<forall>i a. Attempts i a \<notin> set t \<Longrightarrow> guarded chk ok T t"
  by (rule guarded_set) blast

lemma guarded_append:
  assumes "guarded chk ok T s" and "guarded chk ok (T \<union> trusted_in chk s) t"
  shows "guarded chk ok T (s @ t)"
  unfolding guarded_def
proof (intro allI impI)
  fix pre i a post
  assume "s @ t = pre @ Attempts i a # post"
  then consider r where "s = pre @ Attempts i a # r" | r where "pre = s @ r" "t = r @ Attempts i a # post"
    by (auto simp: append_eq_append_conv2 append_eq_Cons_conv)
  then show "i \<in> T \<union> trusted_in chk pre \<and> ok i a"
  proof cases
    case 1
    with assms(1) show ?thesis by (auto simp: guarded_def)
  next
    case 2
    with assms(2) show ?thesis by (force simp: guarded_def trusted_in_append)
  qed
qed

lemma guarded_prefix: "guarded chk ok T t \<Longrightarrow> guarded chk ok T (take n t)"
  unfolding guarded_def by (metis append_take_drop_id append.assoc append_Cons)

lemma guarded_bind:
  assumes "guarded chk ok T (snd m)" and "\<And>a. fst m = Inr a \<Longrightarrow> guarded chk ok (T \<union> trusted_in chk (snd m)) (snd (f a))"
  shows "guarded chk ok T (snd (run_bind m f))"
  using assms by (auto simp: run_bind_def intro: guarded_append split: sum.split)

lemma run_select [simp]:
  "snd (run_error g m) = snd m" "snd (run_result r) = []" "fst (set_authenticating b) = Inr ()" "snd (set_authenticating b) = [Authenticating b]"
  by (simp_all add: run_error_def run_result_def set_authenticating_def)

lemma guarded_time: "guarded chk ok T (snd m) \<Longrightarrow> guarded chk ok T (snd (within_time n e m))"
  by (auto simp: within_time_def guarded_prefix split: option.split)

lemma connect_stream_guarded: "guarded chk ok T (snd (connect_stream d i check))"
  by (rule guarded_none) (auto simp: connect_stream_def split: option.split sum.split bool.split)

lemma connect_stream_trusts: "fst (connect_stream d i check) = Inr k \<Longrightarrow> Checks i k \<in> set (snd (connect_stream d i check)) \<and> check k = Inr True"
  by (auto simp: connect_stream_def split: option.splits sum.splits bool.splits if_splits)

lemma log_in_guarded:
  assumes "i \<in> T" and "\<And>a. allowed (dl_login d) s a \<Longrightarrow> ok i a"
  shows "guarded chk ok T (snd (log_in d i s))"
proof -
  have "list_all (allowed (dl_login d) s) (snd (authenticate (dl_login d) (nt_talk (dl_network d) i) s))"
    using login_kept_attempts by blast
  then have "j \<in> T \<and> ok j a" if "Attempts j a \<in> set (snd (log_in d i s))" for j a
    using that assms by (auto simp: log_in_def Let_def list_all_iff split: prod.splits)
  then show ?thesis by (rule guarded_set)
qed

lemma pass_hop_guarded:
  assumes "\<And>k. jump_handler d hop k = Inr True \<Longrightarrow> chk i k = Inr True" and "\<And>a. allowed (dl_login d) hop a \<Longrightarrow> ok i a"
  shows "guarded chk ok T (snd (pass_hop d i hop next_server))"
proof -
  have login: "guarded chk ok T' (snd (run_bind (log_in d i hop) (\<lambda>_. run_bind (set_authenticating False) (\<lambda>_. open_direct d i next_server))))"
    if "i \<in> T'" for T'
    using that assms(2)
    by (intro guarded_bind log_in_guarded) (auto intro!: guarded_none simp: open_direct_def)
  have "i \<in> trusted_in chk (snd (connect_stream d i (jump_handler d hop)))" if "fst (connect_stream d i (jump_handler d hop)) = Inr k" for k
    using connect_stream_trusts [OF that] assms(1) by (auto simp: trusted_in_def)
  then show ?thesis
    unfolding pass_hop_def run_select
    by (intro guarded_bind connect_stream_guarded login) (auto intro!: guarded_none)
qed

lemma pass_hops_guarded:
  assumes "\<And>j k. j < length hops \<Longrightarrow> jump_handler d (hops ! j) k = Inr True \<Longrightarrow> chk (i + j) k = Inr True"
    and "\<And>j a. j < length hops \<Longrightarrow> allowed (dl_login d) (hops ! j) a \<Longrightarrow> ok (i + j) a"
  shows "guarded chk ok T (snd (pass_hops d i hops dest))"
  using assms
proof (induction hops arbitrary: i T)
  case Nil
  then show ?case by (simp add: guarded_none)
next
  case (Cons hop hops)
  have "guarded chk ok T (snd (pass_hop d i hop next_server))" for T next_server
    using Cons.prems [of 0] by (intro pass_hop_guarded) simp_all
  moreover have "guarded chk ok T (snd (pass_hops d (Suc i) hops dest))" for T
    using Cons.prems [of "Suc _"] by (intro Cons.IH) simp_all
  ultimately show ?case by (simp add: guarded_bind)
qed

lemma transport_guarded:
  assumes "\<And>j k. j < length hops \<Longrightarrow> jump_handler d (hops ! j) k = Inr True \<Longrightarrow> chk j k = Inr True"
    and "\<And>j a. j < length hops \<Longrightarrow> allowed (dl_login d) (hops ! j) a \<Longrightarrow> ok j a"
  shows "guarded chk ok T (snd (transport_through d hops dest))"
proof -
  have tcp: "guarded chk ok T (snd (dial_tcp d host port))" for T host port by (rule guarded_none) (simp add: dial_tcp_def)
  have hops: "guarded chk ok T (snd (pass_hops d 0 hops dest))" for T using assms by (intro pass_hops_guarded) simp_all
  show ?thesis
  proof (cases "hops = []")
    case True
    then show ?thesis by (simp add: transport_through_def tcp)
  next
    case False
    have "guarded chk ok T (snd (run_bind (run_error (Hop_failed 0 (hd hops)) (dial_tcp d (rs_host (hd hops)) (rs_port (hd hops))))
        (\<lambda>_. pass_hops d 0 hops dest)))"
      by (rule guarded_bind) (simp_all only: run_select tcp hops)
    with False show ?thesis by (cases hops) (simp_all add: transport_through_def del: pass_hops.simps)
  qed
qed

text \<open>The route of a connection, and who decides on the key of each of its servers.\<close>

definition route_check ::
    "('k, 'c) dialer \<Rightarrow> resolved_server list \<Rightarrow> ('k offered_key \<Rightarrow> trust_error + bool) \<Rightarrow> nat \<Rightarrow> 'k offered_key \<Rightarrow> trust_error + bool" where
  "route_check d hops check i = (if i < length hops then jump_handler d (hops ! i) else check)"

lemma connect_guarded:
  assumes "resolve_profile (dl_resolver d) p = Inr server" and "route_hops (dl_resolver d) p server = Inr hops"
  shows "guarded (route_check d hops check) (\<lambda>i a. i \<le> length hops \<and> allowed (dl_login d) ((hops @ [server]) ! i) a) {}
    (snd (connect d p policy check expires))"
proof -
  let ?chk = "route_check d hops check" and ?ok = "\<lambda>i a. i \<le> length hops \<and> allowed (dl_login d) ((hops @ [server]) ! i) a"
  have login: "guarded ?chk ?ok T (snd (leave_on_error (length hops) (log_in d (length hops) server)))" if "length hops \<in> T" for T
    using that unfolding leave_on_error_def snd_conv
    by (intro guarded_append log_in_guarded) (auto intro: guarded_none)
  have trusted: "length hops \<in> trusted_in ?chk (snd (connect_stream d (length hops) check))"
    if "fst (connect_stream d (length hops) check) = Inr k" for k
    using connect_stream_trusts [OF that] by (auto simp: trusted_in_def route_check_def)
  let ?login = "run_bind (set_authenticating True) (\<lambda>_. leave_on_error (length hops) (log_in d (length hops) server))"
  have inner: "guarded ?chk ?ok T (snd ?login)" if "length hops \<in> T" for T
    by (rule guarded_bind) (use login that in \<open>auto intro: guarded_none\<close>)
  have mid: "guarded ?chk ?ok T (snd (run_bind (connect_stream d (length hops) check) (\<lambda>_. ?login)))" for T
    by (rule guarded_bind [OF connect_stream_guarded inner]) (use trusted in blast)
  have "guarded ?chk ?ok {} (snd (transport_through d hops server))"
    by (rule transport_guarded) (simp_all add: route_check_def nth_append)
  then have "guarded ?chk ?ok {} (snd (run_bind (transport_through d hops server) (\<lambda>_.
        run_bind (connect_stream d (length hops) check) (\<lambda>_. ?login))))"
    by (rule guarded_bind [OF _ mid])
  then show ?thesis
    unfolding connect_def using assms
    by (auto simp: run_bind_def run_result_def intro!: guarded_time)
qed

lemma guardedD: "guarded chk ok {} (pre @ Attempts i a # post) \<Longrightarrow> i \<in> trusted_in chk pre \<and> ok i a"
  by (auto simp: guarded_def)

lemma resolved_route_hops:
  "resolved_route v p = Inr route \<longleftrightarrow>
     (\<exists>hops server. resolve_profile v p = Inr server \<and> route_hops v p server = Inr hops \<and> route = hops @ [server])"
  by (auto simp: resolved_route_def result_simps)

lemma connect_empty:
  assumes "resolve_profile (dl_resolver d) p = Inl e \<or> (\<exists>server. resolve_profile (dl_resolver d) p = Inr server \<and> route_hops (dl_resolver d) p server = Inl e)"
  shows "snd (connect d p policy check expires) = []"
  using assms by (auto simp: connect_def run_bind_def run_result_def within_time_def split: option.split)

text \<open>
  Property C19. No credentials before trust: whenever a login is attempted on a connection of the route,
  the key of that very connection has been let through before, for a jump host by what is known of its
  host and for the server by the caller's check; and only what the settings of that host allow is
  offered. This holds however the servers answer and whenever a timeout strikes.
\<close>

theorem credentials_only_to_trusted:
  assumes "snd (connect d p policy check expires) = pre @ Attempts i a # post"
  shows "\<exists>route k. resolved_route (dl_resolver d) p = Inr route \<and> i < length route \<and> Checks i k \<in> set pre \<and>
    (if Suc i = length route then check k else verify_host_key (dl_keys d) (dl_files d) (route ! i) k) = Inr True \<and>
    allowed (dl_login d) (route ! i) a"
proof -
  obtain server where server: "resolve_profile (dl_resolver d) p = Inr server"
    using connect_empty [of d p _ policy check expires] assms by (cases "resolve_profile (dl_resolver d) p") auto
  obtain hops where hops: "route_hops (dl_resolver d) p server = Inr hops"
    using connect_empty [of d p _ policy check expires] assms server by (cases "route_hops (dl_resolver d) p server") auto
  from connect_guarded [OF server hops, of check policy expires] assms
  have "i \<in> trusted_in (route_check d hops check) pre" "i \<le> length hops" "allowed (dl_login d) ((hops @ [server]) ! i) a"
    by (auto dest: guardedD)
  moreover from this(1) obtain k where "Checks i k \<in> set pre" "route_check d hops check i k = Inr True"
    by (auto simp: trusted_in_def)
  ultimately show ?thesis
    using server hops
    by (intro exI [of _ "hops @ [server]"] exI [of _ k])
      (auto simp: resolved_route_hops route_check_def jump_handler_def nth_append split: if_splits)
qed

lemma inspect_guarded:
  assumes "inspected d p hop = Inr (hops, server)"
  shows "guarded (route_check d hops check) (\<lambda>i a. i < length hops \<and> allowed (dl_login d) (hops ! i) a) {}
    (snd (inspect_key_at d p policy hop expires))"
proof -
  let ?chk = "route_check d hops check" and ?ok = "\<lambda>i a. i < length hops \<and> allowed (dl_login d) (hops ! i) a"
  let ?look = "\<lambda>k. rbind (inspect_handler d server k) (\<lambda>_. Inr True)"
  have mid: "guarded ?chk ?ok T (snd (run_bind (connect_stream d (length hops) ?look)
      (\<lambda>k. (map_err Untrusted (inspect_handler d server k), [Leaves (length hops)]))))" for T
    by (rule guarded_bind [OF connect_stream_guarded]) (simp add: guarded_none)
  have "guarded ?chk ?ok {} (snd (transport_through d hops server))"
    by (rule transport_guarded) (simp_all add: route_check_def)
  then have "guarded ?chk ?ok {} (snd (run_bind (transport_through d hops server) (\<lambda>_.
      run_bind (connect_stream d (length hops) ?look)
      (\<lambda>k. (map_err Untrusted (inspect_handler d server k), [Leaves (length hops)])))))"
    by (rule guarded_bind [OF _ mid])
  then show ?thesis
    unfolding inspect_key_at_def using assms by (auto simp: run_bind_def run_result_def intro!: guarded_time)
qed

text \<open>
  Asking for a server's key sends it no credentials: a login is only ever attempted on
  the jump hosts before it, each after its own key has been let through; and the key that is reported
  is the one the server offered, with what the files of known hosts say of it.
\<close>

theorem inspection_sends_no_credentials:
  assumes "inspected d p hop = Inr (hops, server)" and "inspect_key_at d p policy hop expires = (r, t)"
  shows "{i. \<exists>a. Attempts i a \<in> set t} \<subseteq>
      {i. i < length hops \<and> (\<exists>k. Checks i k \<in> set t \<and> verify_host_key (dl_keys d) (dl_files d) (hops ! i) k = Inr True)} \<and>
    (\<forall>info. r = Inr info \<longrightarrow> (\<exists>k. nt_offers (dl_network d) (length hops) = Some (Plain_key k) \<and>
       from_key (dl_keys d) (dl_files d) server k = Inr info))"
proof
  show "{i. \<exists>a. Attempts i a \<in> set t} \<subseteq>
      {i. i < length hops \<and> (\<exists>k. Checks i k \<in> set t \<and> verify_host_key (dl_keys d) (dl_files d) (hops ! i) k = Inr True)}"
  proof clarify
    fix i a
    assume "Attempts i a \<in> set t"
    then obtain pre post where t: "t = pre @ Attempts i a # post" by (metis in_set_conv_decomp)
    with inspect_guarded [OF assms(1), of "\<lambda>_. Inr False" policy expires] assms(2)
    have "i \<in> trusted_in (route_check d hops (\<lambda>_. Inr False)) pre" "i < length hops" by (auto dest: guardedD)
    then show "i < length hops \<and> (\<exists>k. Checks i k \<in> set t \<and> verify_host_key (dl_keys d) (dl_files d) (hops ! i) k = Inr True)"
      using t by (auto simp: trusted_in_def route_check_def jump_handler_def)
  qed
  show "\<forall>info. r = Inr info \<longrightarrow> (\<exists>k. nt_offers (dl_network d) (length hops) = Some (Plain_key k) \<and>
      from_key (dl_keys d) (dl_files d) server k = Inr info)"
  proof (intro allI impI)
    fix info
    assume "r = Inr info"
    with assms have "\<exists>k. fst (connect_stream d (length hops) (\<lambda>k. rbind (inspect_handler d server k) (\<lambda>_. Inr True))) = Inr k \<and>
        inspect_handler d server k = Inr info"
      by (auto simp: inspect_key_at_def run_bind_def run_result_def within_time_def map_err_Inr_iff split: sum.splits option.splits)
    then show "\<exists>k. nt_offers (dl_network d) (length hops) = Some (Plain_key k) \<and> from_key (dl_keys d) (dl_files d) server k = Inr info"
      by (auto simp: connect_stream_def inspect_handler_def split: option.splits sum.splits bool.splits offered_key.splits if_splits)
  qed
qed

section \<open>Samples\<close>

definition gate_login :: "(string, string) login_env" where
  "gate_login = \<lparr>le_text = (\<lambda>_. None), le_exists = (\<lambda>p. p = ''/home/me/.ssh/id_ed25519''), le_public = (\<lambda>_. None),
     le_certificate = (\<lambda>_. None), le_cert_key = id, le_secret = (\<lambda>_. Some ''mine''), le_load_certificate = (\<lambda>_. None),
     le_is_rsa = (\<lambda>_. False), le_auth_sock = None, le_agent = (\<lambda>_. None)\<rparr>"

definition gate_dialer :: "auth_answer \<Rightarrow> (string, string) dialer" where
  "gate_dialer answer = \<lparr>dl_resolver = sample_resolver, dl_login = gate_login, dl_keys = sample_keys,
     dl_files = (\<lambda>p. if p = ''/home/me/.ssh/known_hosts'' then Holding ''gate ed A'' else Absent),
     dl_network = \<lparr>nt_connects = (\<lambda>_ _. True), nt_offers = (\<lambda>_. Some (Plain_key ''ed A'')), nt_completes = (\<lambda>_. True),
       nt_talk = (\<lambda>_. \<lparr>co_rsa = (\<lambda>_. Rsa_unspecified), co_answer = (\<lambda>_ _. answer)\<rparr>), nt_opens = (\<lambda>_ _ _. True)\<rparr>\<rparr>"

abbreviation sample_gate :: resolved_server where
  "sample_gate \<equiv> resolved_as ''gate'' 22 []"

abbreviation sample_dest :: resolved_server where
  "sample_dest \<equiv> resolved_as ''dev.example'' 2222 [''me@gate:22'']"

lemma resolved_as_select [simp]:
  "rs_host (resolved_as h n js) = h" "rs_port (resolved_as h n js) = n" "rs_proxy_jump (resolved_as h n js) = js"
  "rs_known_hosts (resolved_as h n js) = ''/home/me/.ssh/known_hosts''" "trust_host (resolved_as h n js) = h"
  "rs_global_known_hosts (resolved_as h n js) = [''/etc/ssh/ssh_known_hosts'', ''/etc/ssh/ssh_known_hosts2'']"
  "rs_identity_files (resolved_as h n js) = [''/home/me/.ssh/id_ed25519'', ''/home/me/.ssh/id_ecdsa'', ''/home/me/.ssh/id_rsa'']"
  by (simp_all add: resolved_as_def sample_resolved_def trust_host_def)

lemma gate_dialer_select [simp]:
  "dl_resolver (gate_dialer a) = sample_resolver" "dl_login (gate_dialer a) = gate_login" "dl_keys (gate_dialer a) = sample_keys"
  "nt_connects (dl_network (gate_dialer a)) h n" "nt_offers (dl_network (gate_dialer a)) i = Some (Plain_key ''ed A'')"
  "nt_completes (dl_network (gate_dialer a)) i" "nt_opens (dl_network (gate_dialer a)) i h n"
  by (simp_all add: gate_dialer_def)

lemma sample_route: "route_hops sample_resolver routed_profile sample_dest = Inr [sample_gate]"
  using sample_route_profiles
  by (simp add: route_hops_def hop_identity_def resolved_as_def [of "''gate''"] resolved_as_def [of "''dev.example''"] sample_resolved_def)

lemma gate_entries:
  "all_entries sample_keys (dl_files (gate_dialer a)) 
     [''/home/me/.ssh/known_hosts'', ''/etc/ssh/ssh_known_hosts'', ''/etc/ssh/ssh_known_hosts2''] t = host_entries sample_keys t [''gate ed A'']"
proof -
  have "str_lines ''gate ed A'' = [''gate ed A'']" by code_simp
  then show ?thesis
    by (cases "host_entries sample_keys t [''gate ed A'']") (simp_all add: all_entries_def gate_dialer_def del: host_entries.simps)
qed

lemma gate_line:
  "host_entries sample_keys ''gate'' [''gate ed A''] = Some [(None, ''ed A'')]"
  "host_entries sample_keys ''[dev.example]:2222'' [''gate ed A''] = Some []"
proof -
  have *: "plain_host ''gate''" "key_text sample_keys ''ed A''" "ke_show sample_keys ''ed A'' = Some ''ed A''"
    "eq_ignore_ascii_case ''gate'' ''gate''" "\<not> eq_ignore_ascii_case ''gate'' ''[dev.example]:2222''"
    by (simp_all add: plain_host_def plain_char_def key_text_def sample_keys_def is_whitespace_def byte_def eq_ignore_ascii_case_def
        to_ascii_lowercase_def)
  show "host_entries sample_keys ''gate'' [''gate ed A''] = Some [(None, ''ed A'')]"
    using line_read [OF *(1,2,3), of "''gate''"] *(4) by (simp add: key_line_def)
  show "host_entries sample_keys ''[dev.example]:2222'' [''gate ed A''] = Some []"
    using line_read [OF *(1,2,3), of "''[dev.example]:2222''"] *(5) by (simp add: key_line_def)
qed

lemma gate_trusted: "jump_handler (gate_dialer a) sample_gate (Plain_key ''ed A'') = Inr True"
  using verify_entries [of sample_keys "dl_files (gate_dialer a)" sample_gate "''ed A''"]
  by (simp add: jump_handler_def gate_entries host_token_def gate_line verdict_def validate_status_def del: host_entries.simps)

lemma gate_authenticates:
  "authenticate gate_login (nt_talk (dl_network (gate_dialer Accepted)) i) (resolved_as h n js) = (Inr (), [File_key ''mine'' None])"
  "authenticate gate_login (nt_talk (dl_network (gate_dialer Broken)) i) (resolved_as h n js) = (Inl Login_lost, [File_key ''mine'' None])"
  by (simp_all add: authenticate_def and_then_def identity_step_def gate_login_def sidecar_key_def public_part_def secret_step_def rsa_hash_def
      certificate_step_def plain_step_def try_attempt_def gate_dialer_def)

section \<open>Witnesses\<close>

lemma gate_route: "resolved_route sample_resolver routed_profile = Inr [sample_gate, sample_dest]"
  using sample_route sample_route_profiles(1) by (simp add: resolved_route_def)

lemma gate_connects:
  "snd (connect (gate_dialer Broken) routed_profile default_retry_policy (\<lambda>_. Inr False) None) =
     [Dials ''gate'' 22, Checks 0 (Plain_key ''ed A''), Authenticating True] @ Attempts 0 (File_key ''mine'' None) # []"
  using sample_route_profiles(1) sample_route gate_trusted [of Broken] gate_authenticates(2)
  by (simp add: connect_def run_bind_def run_result_def within_time_def transport_through_def dial_tcp_def run_error_def pass_hop_def
      connect_stream_def set_authenticating_def log_in_def)

theorem credentials_only_to_trusted_witness:
  "verify_host_key sample_keys (dl_files (gate_dialer Broken)) sample_gate (Plain_key ''ed A'') = Inr True \<and>
   allowed gate_login sample_gate (File_key ''mine'' None)"
  using credentials_only_to_trusted [OF gate_connects] gate_route by simp

lemma gate_inspects:
  "inspected (gate_dialer Accepted) routed_profile None = Inr ([sample_gate], sample_dest)"
  "inspect_key_at (gate_dialer Accepted) routed_profile default_retry_policy None None =
     (Inr \<lparr>hk_host = ''dev.example'', hk_port = 2222, hk_algorithm = ''ed'', hk_fingerprint = ''SHA256:ed A'', hk_public_key = ''ed A'',
        hk_known_hosts = ''/home/me/.ssh/known_hosts'', hk_global = [''/etc/ssh/ssh_known_hosts'', ''/etc/ssh/ssh_known_hosts2''],
        hk_status = Unknown_key\<rparr>,
      [Dials ''gate'' 22, Checks 0 (Plain_key ''ed A''), Authenticating True, Attempts 0 (File_key ''mine'' None), Authenticating False,
       Opens 0 ''dev.example'' 2222, Checks 1 (Plain_key ''ed A''), Leaves 1])"
proof -
  show i: "inspected (gate_dialer Accepted) routed_profile None = Inr ([sample_gate], sample_dest)"
    using sample_route sample_route_profiles(1) by (simp add: inspected_def)
  have token: "host_token ''dev.example'' 2222 = ''[dev.example]:2222''" by code_simp
  have status: "check_files sample_keys (dl_files (gate_dialer Accepted)) ''dev.example'' 2222 ''ed A''
      [''/home/me/.ssh/known_hosts'', ''/etc/ssh/ssh_known_hosts'', ''/etc/ssh/ssh_known_hosts2''] Unknown_key = Inr Unknown_key"
    using check_files_entries [where v = sample_keys and files = "dl_files (gate_dialer Accepted)"
        and paths = "[''/home/me/.ssh/known_hosts'', ''/etc/ssh/ssh_known_hosts'', ''/etc/ssh/ssh_known_hosts2'']"
        and host = "''dev.example''" and port = 2222 and k = "''ed A''" and st = Unknown_key]
    by (simp only: token gate_entries gate_line option.case verdict_Nil merge_simps)
  have keys: "ke_show sample_keys ''ed A'' = Some ''ed A''" "ke_algorithm sample_keys ''ed A'' = ''ed''"
    "ke_fingerprint sample_keys ''ed A'' = ''SHA256:ed A''"
    by (simp_all add: sample_keys_def)
  have "from_key sample_keys (dl_files (gate_dialer Accepted)) sample_dest ''ed A'' =
     Inr \<lparr>hk_host = ''dev.example'', hk_port = 2222, hk_algorithm = ''ed'', hk_fingerprint = ''SHA256:ed A'', hk_public_key = ''ed A'',
        hk_known_hosts = ''/home/me/.ssh/known_hosts'', hk_global = [''/etc/ssh/ssh_known_hosts'', ''/etc/ssh/ssh_known_hosts2''],
        hk_status = Unknown_key\<rparr>"
    using status by (simp add: from_key_def keys del: check_files.simps)
  then show "inspect_key_at (gate_dialer Accepted) routed_profile default_retry_policy None None =
     (Inr \<lparr>hk_host = ''dev.example'', hk_port = 2222, hk_algorithm = ''ed'', hk_fingerprint = ''SHA256:ed A'', hk_public_key = ''ed A'',
        hk_known_hosts = ''/home/me/.ssh/known_hosts'', hk_global = [''/etc/ssh/ssh_known_hosts'', ''/etc/ssh/ssh_known_hosts2''],
        hk_status = Unknown_key\<rparr>,
      [Dials ''gate'' 22, Checks 0 (Plain_key ''ed A''), Authenticating True, Attempts 0 (File_key ''mine'' None), Authenticating False,
       Opens 0 ''dev.example'' 2222, Checks 1 (Plain_key ''ed A''), Leaves 1])"
    using i gate_trusted [of Accepted] gate_authenticates(1)
    by (simp add: inspect_key_at_def run_bind_def run_result_def within_time_def transport_through_def dial_tcp_def run_error_def pass_hop_def
        connect_stream_def set_authenticating_def log_in_def open_direct_def inspect_handler_def)
qed

theorem inspection_sends_no_credentials_witness:
  "(\<exists>k. verify_host_key sample_keys (dl_files (gate_dialer Accepted)) sample_gate k = Inr True) \<and>
   (\<exists>k info. from_key sample_keys (dl_files (gate_dialer Accepted)) sample_dest k = Inr info \<and> hk_status info = Unknown_key)"
  using inspection_sends_no_credentials [OF gate_inspects] by fastforce

end
