(* ===== verification/Signer.thy ===== *)
theory Signer
  imports Auth Bytes
begin

text \<open>
  Signing with a local key for a certificate, \<open>crates/fwm-core/src/ssh/auth_signer.rs\<close>. The signature
  itself is a parameter: its algorithm and its bytes for a key, a hash and a message.
\<close>

definition ssh_string :: "u8 list \<Rightarrow> u8 list" where
  "ssh_string bytes = be_u32 (length bytes) @ bytes"

definition auth_sign ::
    "('k \<Rightarrow> bool) \<Rightarrow> ('k \<Rightarrow> hash_alg option \<Rightarrow> u8 list \<Rightarrow> (u8 list \<times> u8 list) option) \<Rightarrow>
     'k \<Rightarrow> 'k \<Rightarrow> hash_alg option \<Rightarrow> u8 list \<Rightarrow> u8 list option" where
  "auth_sign is_rsa sign k ident h message =
     (if ident \<noteq> k then None
      else if is_rsa k \<and> h = None then None
      else case sign k (if is_rsa k then h else None) message of
        None \<Rightarrow> None
      | Some (algorithm, bytes) \<Rightarrow> Some (message @ ssh_string (ssh_string algorithm @ ssh_string bytes)))"

text \<open>Reading a string as the other side does.\<close>

definition read_ssh_string :: "u8 list \<Rightarrow> (u8 list \<times> u8 list) option" where
  "read_ssh_string input =
     Option.bind (read_exact 4 input) (\<lambda>(size, rest). read_exact (nat_of_be size) rest)"

lemma read_ssh_string_append: "length bytes < 2 ^ 32 \<Longrightarrow> read_ssh_string (ssh_string bytes @ rest) = Some (bytes, rest)"
  by (simp add: read_ssh_string_def ssh_string_def read_exact_append nat_of_be_u32)

text \<open>
  What is sent is the message and one string, which holds the algorithm and the signature of that very
  message by the key of the certificate; with an RSA key it is never made without a hash.
\<close>

lemma signature_read_back:
  assumes "auth_sign is_rsa sign k ident h message = Some out"
  obtains algorithm bytes where "ident = k" "is_rsa k \<Longrightarrow> h \<noteq> None"
    "sign k (if is_rsa k then h else None) message = Some (algorithm, bytes)"
    "length algorithm + length bytes + 8 < 2 ^ 32 \<Longrightarrow>
       take (length message) out = message \<and>
       Option.bind (read_ssh_string (drop (length message) out)) (\<lambda>(blob, _). read_ssh_string blob) = Some (algorithm, ssh_string bytes)"
proof -
  from assms obtain algorithm bytes where s: "ident = k" "is_rsa k \<Longrightarrow> h \<noteq> None"
    "sign k (if is_rsa k then h else None) message = Some (algorithm, bytes)"
    "out = message @ ssh_string (ssh_string algorithm @ ssh_string bytes)"
    by (auto simp: auth_sign_def split: if_splits option.splits)
  have l: "length (ssh_string x) = 4 + length x" for x by (simp add: ssh_string_def length_be_u32)
  show ?thesis
  proof (rule that [OF s(1-3)])
    assume "length algorithm + length bytes + 8 < 2 ^ 32"
    then show "take (length message) out = message \<and>
        Option.bind (read_ssh_string (drop (length message) out)) (\<lambda>(blob, _). read_ssh_string blob) = Some (algorithm, ssh_string bytes)"
      using read_ssh_string_append [of "ssh_string algorithm @ ssh_string bytes" "[]"] read_ssh_string_append [of algorithm "ssh_string bytes"]
      by (simp add: s(4) l)
  qed
qed

end
