(* ===== verification/CliSpec.thy ===== *)
theory CliSpec
  imports Ports Model
begin

text \<open>
  Forwarding specifications of the command line, \<open>crates/fwm/src/cli/parse.rs\<close>: directions with their
  ports and addresses for new rules, for edits of a rule and for relays. \<open>parse_socket\<close> is the
  \<open>FromStr\<close> of the standard library's \<open>SocketAddr\<close>.
\<close>

section \<open>Socket addresses\<close>

definition read_given :: "char \<Rightarrow> string \<Rightarrow> string option" where
  "read_given c s = (case s of [] \<Rightarrow> None | d # r \<Rightarrow> if c = d then Some r else None)"

definition read_any_number :: "nat \<Rightarrow> nat reader" where
  "read_any_number limit s = read_number 10 (length s) True limit s"

definition read_port :: "u16 reader" where
  "read_port s =
     Option.bind (read_given CHR '':'' s) (\<lambda>s. map_option (\<lambda>(n, t). (of_nat n, t)) (read_any_number 65536 s))"

definition read_scope :: "string \<Rightarrow> u32 \<times> string" where
  "read_scope s = (case Option.bind (read_given CHR ''%'' s) (read_any_number (2 ^ 32)) of
       Some (n, t) \<Rightarrow> (of_nat n, t)
     | None \<Rightarrow> (0, s))"

definition read_socket_v4 :: "socket_addr reader" where
  "read_socket_v4 s =
     Option.bind (read_ipv4 s) (\<lambda>(a, s). map_option (\<lambda>(p, t). (SockV4 a p, t)) (read_port s))"

definition read_socket_v6 :: "socket_addr reader" where
  "read_socket_v6 s =
     Option.bind (read_given CHR ''['' s) (\<lambda>s.
     Option.bind (read_ipv6 s) (\<lambda>(a, s).
     let (scope, s) = read_scope s
     in Option.bind (read_given CHR '']'' s) (\<lambda>s. map_option (\<lambda>(p, t). (SockV6 a p 0 scope, t)) (read_port s))))"

definition parse_socket :: "string \<Rightarrow> socket_addr option" where
  "parse_socket = complete (\<lambda>s. case read_socket_v4 s of Some r \<Rightarrow> Some r | None \<Rightarrow> read_socket_v6 s)"

definition socket_at :: "ip_addr \<Rightarrow> u16 \<Rightarrow> socket_addr" where
  "socket_at ip p = (case ip of V4 a \<Rightarrow> SockV4 a p | V6 a \<Rightarrow> SockV6 a p 0 0)"

fun set_port :: "socket_addr \<Rightarrow> u16 \<Rightarrow> socket_addr" where
  "set_port (SockV4 a p) q = SockV4 a q"
| "set_port (SockV6 a p flow scope) q = SockV6 a q flow scope"

fun set_ip :: "socket_addr \<Rightarrow> ip_addr \<Rightarrow> socket_addr" where
  "set_ip (SockV4 a p) (V4 b) = SockV4 b p"
| "set_ip (SockV6 a p flow scope) (V6 b) = SockV6 b p flow scope"
| "set_ip s ip = socket_at ip (sock_port s)"

definition LOCALHOST :: ip_addr where
  "LOCALHOST = V4 (Ipv4 127 0 0 1)"

lemma set_port_simps [simp]: "sock_port (set_port s q) = q" "sock_ip (set_port s q) = sock_ip s"
  by (cases s; simp)+

lemma socket_at_simps [simp]: "sock_port (socket_at ip p) = p" "sock_ip (socket_at ip p) = ip"
  by (simp_all add: socket_at_def split: ip_addr.split)

lemma set_ip_simps [simp]: "sock_port (set_ip s ip) = sock_port s" "sock_ip (set_ip s ip) = ip"
  by (cases s; cases ip; simp)+

section \<open>Parts of a specification\<close>

datatype spec_error =
    ManyDirections | PortWithSrcTgt | SrcWithoutTgt | PortsUnsupported | BothDirections | DirectionMissing | ValueWithPorts
  | NeedsFixedTarget | SocksNeedsTarget | NothingGiven | Unbalanced | BadListenPort | BadListenAddress | ListenPortZero
  | BadForwarding | BadTarget endpoint_error | BadPorts port_error | BadTgt | BadTgtHost | BadSrc | RelayIncomplete | Unvalidated

record port_options =
  po_port :: "string option"
  po_src :: "string option"
  po_tgt :: "string option"

fun split_scan :: "bool \<Rightarrow> string \<Rightarrow> string \<Rightarrow> spec_error + string list" where
  "split_scan inside part [] = (if inside then Inl Unbalanced else Inr [part])"
| "split_scan inside part (c # s) =
     (if c = CHR ''['' \<and> \<not> inside then split_scan True (part @ [c]) s
      else if c = CHR '']'' \<and> inside then split_scan False (part @ [c]) s
      else if c = CHR ''['' \<or> c = CHR '']'' then Inl Unbalanced
      else if c = CHR '':'' \<and> \<not> inside then rbind (split_scan inside [] s) (\<lambda>parts. Inr (part # parts))
      else split_scan inside (part @ [c]) s)"

definition split_brackets :: "string \<Rightarrow> spec_error + string list" where
  "split_brackets value = split_scan False [] value"

definition listening :: "string \<Rightarrow> spec_error + socket_addr" where
  "listening value =
     rbind (if CHR '':'' \<notin> set value then map_err (\<lambda>_. BadListenPort) (ok_or (map_option (socket_at LOCALHOST) (parse_u16 value)) ())
            else ok_or (parse_socket value) BadListenAddress) (\<lambda>address.
     if sock_port address = 0 then Inl ListenPortZero else Inr address)"

definition forwarding :: "string \<Rightarrow> spec_error + socket_addr \<times> endpoint" where
  "forwarding value =
     rbind (split_brackets value) (\<lambda>parts.
     rbind (case parts of
              [port, host, target_port] \<Rightarrow> rbind (listening port) (\<lambda>l. Inr (l, host @ '':'' @ target_port))
            | [address, port, host, target_port] \<Rightarrow>
                rbind (listening (address @ '':'' @ port)) (\<lambda>l. Inr (l, host @ '':'' @ target_port))
            | _ \<Rightarrow> Inl BadForwarding) (\<lambda>(l, text).
     rbind (map_err BadTarget (endpoint_from_str text)) (\<lambda>e. Inr (l, e))))"

definition unbracketed :: "string \<Rightarrow> string" where
  "unbracketed value =
     (if starts_with ''['' value \<and> tl value \<noteq> [] \<and> last value = CHR '']'' then butlast (tl value) else value)"

definition target_host :: "string \<Rightarrow> spec_error + string" where
  "target_host value =
     (if value = [] \<or> (\<exists>c \<in> set (chars value). is_whitespace c \<or> is_control c) then Inl BadTgtHost
      else
        let host = unbracketed value
        in if CHR '':'' \<in> set host \<and> parse_ipv6 host = None then Inl BadTgtHost else Inr host)"

definition single_port :: "string \<Rightarrow> spec_error + u16" where
  "single_port value = map_err BadPorts (single value)"

definition target_parts :: "string \<Rightarrow> spec_error + string option \<times> u16" where
  "target_parts value =
     rbind (split_brackets (trim value)) (\<lambda>parts. case parts of
         [port] \<Rightarrow> rbind (single_port port) (\<lambda>p. Inr (None, p))
       | [host, port] \<Rightarrow> rbind (target_host host) (\<lambda>h. rbind (single_port port) (\<lambda>p. Inr (Some h, p)))
       | _ \<Rightarrow> Inl BadTgt)"

definition source_parts :: "string \<Rightarrow> spec_error + ip_addr option \<times> string" where
  "source_parts value =
     rbind (split_brackets (trim value)) (\<lambda>parts. case parts of
         [ports] \<Rightarrow> Inr (None, ports)
       | [address, ports] \<Rightarrow> rbind (listening (trim address @ '':1'')) (\<lambda>l. Inr (Some (sock_ip l), ports))
       | _ \<Rightarrow> Inl BadSrc)"

definition directed :: "bool \<Rightarrow> socket_addr \<Rightarrow> endpoint \<Rightarrow> tunnel" where
  "directed remote l e = (if remote then Remote l e else Local l e)"

definition localhost_text :: string where
  "localhost_text = ''localhost''"

section \<open>Rules\<close>

definition has_ports :: "port_options \<Rightarrow> bool" where
  "has_ports po = (po_port po \<noteq> None \<or> po_src po \<noteq> None \<or> po_tgt po \<noteq> None)"

definition direction ::
    "string option \<Rightarrow> string option \<Rightarrow> bool \<Rightarrow> tunnel option \<Rightarrow> spec_error + (string \<times> bool) option" where
  "direction local remote ports existing = (case (local, remote) of
       (Some value, None) \<Rightarrow> Inr (Some (value, False))
     | (None, Some value) \<Rightarrow> Inr (Some (value, True))
     | (Some _, Some _) \<Rightarrow> Inl BothDirections
     | (None, None) \<Rightarrow>
         if \<not> ports then Inr None
         else (case existing of
             Some (Local _ _) \<Rightarrow> Inr (Some ([], False))
           | Some (Remote _ _) \<Rightarrow> Inr (Some ([], True))
           | _ \<Rightarrow> Inl DirectionMissing))"

text \<open>A value with colons, \<open>[bind_address:]port:host:port\<close>.\<close>

definition spelled_out :: "string \<Rightarrow> bool \<Rightarrow> tunnel option \<Rightarrow> spec_error + tunnel list" where
  "spelled_out value remote existing =
     rbind (if remote then rbind (split_brackets value) (\<lambda>parts. rguard (length parts = 2) NeedsFixedTarget) else Inr ()) (\<lambda>_.
     rbind (forwarding value) (\<lambda>(l, e).
     case existing of
       None \<Rightarrow> Inr [directed remote l e]
     | Some previous \<Rightarrow>
         rbind (split_brackets value) (\<lambda>parts.
         Inr [directed remote (if length parts = 3 then set_port (listen previous) (sock_port l) else l) e])))"

definition previous_host :: "tunnel \<Rightarrow> string" where
  "previous_host previous = (case target previous of None \<Rightarrow> localhost_text | Some e \<Rightarrow> ep_host e)"

text \<open>The same port on both sides of an edited rule.\<close>

definition same_port :: "bool \<Rightarrow> tunnel \<Rightarrow> string \<Rightarrow> spec_error + tunnel list" where
  "same_port remote previous port =
     rbind (single_port port) (\<lambda>p.
     Inr [directed remote (set_port (listen previous) p) \<lparr>ep_host = previous_host previous, ep_port = p\<rparr>])"

definition patched_source :: "socket_addr \<Rightarrow> string option \<Rightarrow> spec_error + socket_addr" where
  "patched_source l src = (case src of
       None \<Rightarrow> Inr l
     | Some source \<Rightarrow>
         rbind (source_parts source) (\<lambda>(address, port).
         rbind (single_port port) (\<lambda>p.
         Inr (case address of None \<Rightarrow> set_port l p | Some ip \<Rightarrow> set_ip (set_port l p) ip))))"

definition patched_target :: "tunnel \<Rightarrow> string option \<Rightarrow> spec_error + endpoint" where
  "patched_target previous tgt = (case tgt of
       Some value \<Rightarrow>
         rbind (target_parts value) (\<lambda>(host, port).
         Inr \<lparr>ep_host = (case host of Some h \<Rightarrow> h | None \<Rightarrow> previous_host previous), ep_port = port\<rparr>)
     | None \<Rightarrow> ok_or (target previous) SocksNeedsTarget)"

definition patched :: "bool \<Rightarrow> tunnel \<Rightarrow> port_options \<Rightarrow> spec_error + tunnel list" where
  "patched remote previous po =
     rbind (patched_source (listen previous) (po_src po)) (\<lambda>l.
     rbind (patched_target previous (po_tgt po)) (\<lambda>e. Inr [directed remote l e]))"

definition expand_ports :: "string \<Rightarrow> spec_error + u16 list" where
  "expand_ports value = map_err BadPorts (expand value)"

text \<open>The listening ports as they are written, and the target if it is the same for all of them.\<close>

definition fresh_parts :: "string \<Rightarrow> port_options \<Rightarrow> spec_error + string \<times> endpoint option" where
  "fresh_parts value po = (case po_src po of
       Some source \<Rightarrow>
         rbind (ok_or (po_tgt po) Unvalidated) (\<lambda>tgt.
         rbind (target_parts tgt) (\<lambda>(host, port).
         Inr (source, Some \<lparr>ep_host = (case host of Some h \<Rightarrow> h | None \<Rightarrow> localhost_text), ep_port = port\<rparr>)))
     | None \<Rightarrow> Inr (case po_port po of Some p \<Rightarrow> p | None \<Rightarrow> value, None))"

definition fresh_rule :: "bool \<Rightarrow> ip_addr option \<Rightarrow> endpoint option \<Rightarrow> u16 \<Rightarrow> tunnel" where
  "fresh_rule remote address dest p =
     directed remote (socket_at (case address of Some ip \<Rightarrow> ip | None \<Rightarrow> LOCALHOST) p)
       (case dest of Some e \<Rightarrow> e | None \<Rightarrow> \<lparr>ep_host = localhost_text, ep_port = p\<rparr>)"

definition fresh_rules :: "string \<Rightarrow> bool \<Rightarrow> port_options \<Rightarrow> spec_error + tunnel list" where
  "fresh_rules value remote po =
     rbind (fresh_parts value po) (\<lambda>(sources, dest).
     if sources = [] then Inl NothingGiven
     else
       rbind (if po_src po \<noteq> None then source_parts sources else Inr (None, sources)) (\<lambda>(address, sources).
       rbind (expand_ports sources) (\<lambda>ps.
       Inr (map (fresh_rule remote address dest) ps))))"

definition with_direction :: "string \<Rightarrow> bool \<Rightarrow> port_options \<Rightarrow> tunnel option \<Rightarrow> spec_error + tunnel list" where
  "with_direction value remote po existing =
     (if value \<noteq> [] \<and> has_ports po then Inl ValueWithPorts
      else if CHR '':'' \<in> set value then spelled_out value remote existing
      else case existing of
        None \<Rightarrow> fresh_rules value remote po
      | Some previous \<Rightarrow> (case (case po_port po of Some p \<Rightarrow> Some p | None \<Rightarrow> if value \<noteq> [] then Some value else None) of
            Some port \<Rightarrow> same_port remote previous port
          | None \<Rightarrow> patched remote previous po))"

definition tunnels ::
    "string option \<Rightarrow> string option \<Rightarrow> string option \<Rightarrow> string option \<Rightarrow> port_options \<Rightarrow> tunnel option \<Rightarrow> spec_error + tunnel list" where
  "tunnels local remote dynamic remote_dynamic po existing =
     rbind (rguard (1 < length (filter (\<lambda>d. d \<noteq> None) [local, remote, dynamic, remote_dynamic])) ManyDirections) (\<lambda>_.
     rbind (rguard (po_port po \<noteq> None \<and> (po_src po \<noteq> None \<or> po_tgt po \<noteq> None)) PortWithSrcTgt) (\<lambda>_.
     rbind (rguard (existing = None \<and> (po_src po \<noteq> None) \<noteq> (po_tgt po \<noteq> None)) SrcWithoutTgt) (\<lambda>_.
     case or_else dynamic remote_dynamic of
       Some value \<Rightarrow>
         if has_ports po then Inl PortsUnsupported
         else rbind (listening value) (\<lambda>l. Inr [if remote_dynamic \<noteq> None then RemoteDynamic l else Dynamic l])
     | None \<Rightarrow>
         rbind (direction local remote (has_ports po) existing) (\<lambda>d. case d of
             None \<Rightarrow> Inr []
           | Some (value, is_rem) \<Rightarrow> with_direction value is_rem po existing))))"

section \<open>Relays\<close>

definition relays :: "string option \<Rightarrow> string option \<Rightarrow> string option \<Rightarrow> spec_error + (socket_addr \<times> endpoint) list" where
  "relays src tgt port = (case port of
       Some ports \<Rightarrow>
         if src \<noteq> None \<or> tgt \<noteq> None then Inl PortWithSrcTgt
         else rbind (expand_ports ports) (\<lambda>ps. Inr (map (\<lambda>p. (socket_at LOCALHOST p, \<lparr>ep_host = localhost_text, ep_port = p\<rparr>)) ps))
     | None \<Rightarrow> (case (src, tgt) of
           (Some source, Some dest) \<Rightarrow>
             rbind (target_parts dest) (\<lambda>(host, port).
             rbind (source_parts source) (\<lambda>(address, sources).
             rbind (expand_ports sources) (\<lambda>ps.
             Inr (map (\<lambda>p. (socket_at (case address of Some ip \<Rightarrow> ip | None \<Rightarrow> LOCALHOST) p,
                    \<lparr>ep_host = (case host of Some h \<Rightarrow> h | None \<Rightarrow> localhost_text), ep_port = port\<rparr>)) ps))))
         | _ \<Rightarrow> Inl RelayIncomplete))"

section \<open>What comes out\<close>

lemma expand_ports_result:
  assumes "expand_ports value = Inr ps"
  shows "0 \<notin> set ps \<and> sorted ps \<and> distinct ps \<and> length ps \<le> MAX_PORTS"
proof -
  from assms obtain ivs where ivs: "collect_results port_item (split_on CHR '','' value) = Inr ivs"
    "card (interval_union ivs) \<le> MAX_PORTS" "ps = sorted_list_of_set (interval_union ivs)"
    using expand_items_iff [of "{}" "split_on CHR '','' value" ps] by (auto simp: expand_ports_def expand_def result_simps)
  have "\<forall>(a, b) \<in> set ivs. 0 < a"
  proof clarify
    fix a b
    assume "(a, b) \<in> set ivs"
    with ivs(1) obtain x where "port_item x = Inr (a, b)" by (auto simp: result_simps list_all2_conv_all_nth in_set_conv_nth)
    then show "0 < a" by (auto dest: port_item_Inr)
  qed
  then have "0 \<notin> interval_union ivs" by (auto simp: interval_union_def)
  then show ?thesis using ivs(2,3) by (simp add: length_sorted_list_of_set)
qed

lemma one_or_two:
  "(case ps of [a] \<Rightarrow> f a | [a, b] \<Rightarrow> g a b | _ \<Rightarrow> Inl e) = Inr r \<longleftrightarrow>
     (\<exists>a. ps = [a] \<and> f a = Inr r) \<or> (\<exists>a b. ps = [a, b] \<and> g a b = Inr r)"
  by (cases ps; cases "tl ps"; cases "tl (tl ps)") auto

lemma three_or_four:
  "(case ps of [a, b, c] \<Rightarrow> f a b c | [a, b, c, d] \<Rightarrow> g a b c d | _ \<Rightarrow> Inl e) = Inr r \<longleftrightarrow>
     (\<exists>a b c. ps = [a, b, c] \<and> f a b c = Inr r) \<or> (\<exists>a b c d. ps = [a, b, c, d] \<and> g a b c d = Inr r)"
  by (cases ps; cases "tl ps"; cases "tl (tl ps)"; cases "tl (tl (tl ps))"; cases "tl (tl (tl (tl ps)))") auto

lemma listening_port: "listening value = Inr l \<Longrightarrow> sock_port l \<noteq> 0"
  by (auto simp: listening_def result_simps split: if_splits)

lemma single_port_result: "single_port value = Inr p \<Longrightarrow> p \<noteq> 0"
  by (auto simp: single_port_def result_simps dest: single_Inr)

lemma target_parts_port: "target_parts value = Inr (host, p) \<Longrightarrow> p \<noteq> 0"
  by (auto simp: target_parts_def result_simps one_or_two dest: single_port_result)

lemma endpoint_port: "endpoint_from_str text = Inr e \<Longrightarrow> ep_port e \<noteq> 0"
  by (auto simp: endpoint_from_str_def result_simps)

lemma forwarding_ports: "forwarding value = Inr (l, e) \<Longrightarrow> sock_port l \<noteq> 0 \<and> ep_port e \<noteq> 0"
  by (auto simp: forwarding_def result_simps three_or_four dest!: listening_port endpoint_port)

text \<open>A rule as the configuration can hold it: both ports are real ports, and it is no relay.\<close>

definition real_ports :: "tunnel \<Rightarrow> bool" where
  "real_ports t = (sock_port (listen t) \<noteq> 0 \<and> (case target t of None \<Rightarrow> True | Some e \<Rightarrow> ep_port e \<noteq> 0))"

definition has_shape :: "bool \<Rightarrow> tunnel \<Rightarrow> bool" where
  "has_shape remote t = (real_ports t \<and> kind t = (if remote then ''remote'' else ''local''))"

lemma directed_shape [simp]:
  "has_shape remote (directed remote l e) \<longleftrightarrow> sock_port l \<noteq> 0 \<and> ep_port e \<noteq> 0" "listen (directed remote l e) = l"
  "target (directed remote l e) = Some e"
  by (simp_all add: has_shape_def real_ports_def directed_def)

lemma spelled_out_shape: "spelled_out value remote existing = Inr ts \<Longrightarrow> \<exists>t. ts = [t] \<and> has_shape remote t"
  by (auto simp: spelled_out_def result_simps dest!: forwarding_ports split: option.splits if_splits)

lemma same_port_shape: "same_port remote previous port = Inr ts \<Longrightarrow> \<exists>t. ts = [t] \<and> has_shape remote t"
  by (auto simp: same_port_def result_simps dest!: single_port_result)

lemma patched_shape:
  assumes "patched remote previous po = Inr ts" and "real_ports previous"
  shows "\<exists>t. ts = [t] \<and> has_shape remote t"
  using assms
  by (auto simp: patched_def patched_source_def patched_target_def real_ports_def result_simps
      dest!: single_port_result target_parts_port split: option.splits)

lemma fresh_rules_shape:
  assumes "fresh_rules value remote po = Inr ts"
  shows "(\<forall>t \<in> set ts. has_shape remote t) \<and> sorted (map (sock_port \<circ> listen) ts) \<and> distinct (map (sock_port \<circ> listen) ts) \<and>
    length ts \<le> MAX_PORTS"
proof -
  from assms obtain source dest address sources ps where parts: "fresh_parts value po = Inr (source, dest)" and
    ps: "expand_ports sources = Inr ps" and
    ts: "ts = map (fresh_rule remote address dest) ps"
    unfolding fresh_rules_def rbind_Inr_iff by (auto simp: result_simps split: if_splits) blast+
  from parts have d: "\<forall>e. dest = Some e \<longrightarrow> ep_port e \<noteq> 0"
    by (auto simp: fresh_parts_def result_simps dest!: target_parts_port split: option.splits)
  from expand_ports_result [OF ps] have "p \<noteq> 0" if "p \<in> set ps" for p using that by metis
  with d have "\<forall>t \<in> set ts. has_shape remote t" by (auto simp: ts fresh_rule_def split: option.splits)
  moreover have "map (sock_port \<circ> listen) ts = ps" by (simp add: ts o_def fresh_rule_def)
  ultimately show ?thesis using expand_ports_result [OF ps] by (simp add: ts)
qed

lemma with_direction_shape:
  assumes "with_direction value remote po existing = Inr ts" and "\<forall>previous. existing = Some previous \<longrightarrow> real_ports previous"
  shows "(\<forall>t \<in> set ts. has_shape remote t) \<and> sorted (map (sock_port \<circ> listen) ts) \<and> distinct (map (sock_port \<circ> listen) ts) \<and>
    length ts \<le> MAX_PORTS \<and> (existing \<noteq> None \<longrightarrow> length ts = 1)"
proof -
  consider "spelled_out value remote existing = Inr ts" | previous port where "existing = Some previous" "same_port remote previous port = Inr ts"
    | previous where "existing = Some previous" "patched remote previous po = Inr ts" | "existing = None" "fresh_rules value remote po = Inr ts"
    using assms(1) by (auto simp: with_direction_def split: if_splits option.splits)
  then show ?thesis
  proof cases
    case 1
    from spelled_out_shape [OF 1] show ?thesis by (auto simp: MAX_PORTS_def)
  next
    case 2
    from same_port_shape [OF 2(2)] show ?thesis by (auto simp: MAX_PORTS_def)
  next
    case 3
    with assms(2) patched_shape [OF 3(2)] show ?thesis by (auto simp: MAX_PORTS_def)
  next
    case 4
    from fresh_rules_shape [OF 4(2)] 4(1) show ?thesis by simp
  qed
qed

text \<open>The kind of rule the directions ask for; without one an edit keeps the kind.\<close>

definition requested_kind ::
    "string option \<Rightarrow> string option \<Rightarrow> string option \<Rightarrow> string option \<Rightarrow> tunnel option \<Rightarrow> string option" where
  "requested_kind local remote dynamic remote_dynamic existing =
     (if dynamic \<noteq> None then Some ''dynamic''
      else if remote_dynamic \<noteq> None then Some ''remote_dynamic''
      else if local \<noteq> None then Some ''local''
      else if remote \<noteq> None then Some ''remote''
      else map_option kind existing)"

lemma direction_kind:
  assumes "direction local remote ports existing = Inr (Some (value, r))"
  shows "requested_kind local remote None None existing = Some (if r then ''remote'' else ''local'')"
  using assms by (auto simp: direction_def requested_kind_def split: option.splits if_splits tunnel.splits)

text \<open>
  Property C32. What the command line is turned into is well formed: every rule is of the kind the flags
  ask for and has real ports, no two of them listen on the same port, there are at most 512, and an edit
  gives at most one.
\<close>

theorem rules_well_formed:
  assumes "tunnels local remote dynamic remote_dynamic po existing = Inr ts"
    and "\<forall>previous. existing = Some previous \<longrightarrow> real_ports previous"
  shows "(\<forall>t \<in> set ts. real_ports t \<and> Some (kind t) = requested_kind local remote dynamic remote_dynamic existing) \<and>
    distinct (map (sock_port \<circ> listen) ts) \<and> length ts \<le> MAX_PORTS \<and> (existing \<noteq> None \<longrightarrow> length ts \<le> 1)"
proof (cases "or_else dynamic remote_dynamic")
  case (Some given)
  with assms(1) obtain l where "listening given = Inr l" "ts = [if remote_dynamic \<noteq> None then RemoteDynamic l else Dynamic l]"
    and one: "\<not> 1 < length (filter (\<lambda>d. d \<noteq> None) [local, remote, dynamic, remote_dynamic])"
    by (auto simp: tunnels_def result_simps split: if_splits)
  with Some listening_port [of given l] show ?thesis
    by (auto simp: real_ports_def requested_kind_def or_else_def MAX_PORTS_def split: option.splits if_splits)
next
  case None
  then have dynamic: "dynamic = None" "remote_dynamic = None" by (simp_all add: or_else_def split: option.splits)
  from assms(1) None have "ts = [] \<or> (\<exists>value r. direction local remote (has_ports po) existing = Inr (Some (value, r)) \<and>
      with_direction value r po existing = Inr ts)"
    by (auto simp: tunnels_def result_simps split: option.splits)
  then show ?thesis
  proof
    assume "ts = []"
    then show ?thesis by simp
  next
    assume "\<exists>value r. direction local remote (has_ports po) existing = Inr (Some (value, r)) \<and> with_direction value r po existing = Inr ts"
    then obtain given r where d: "direction local remote (has_ports po) existing = Inr (Some (given, r))"
      "with_direction given r po existing = Inr ts" by blast
    from with_direction_shape [OF d(2) assms(2)] direction_kind [OF d(1)] dynamic show ?thesis
      by (auto simp: has_shape_def)
  qed
qed


section \<open>What was checked before\<close>

text \<open>The ports of new rules are only looked at once a source is known to come with a target.\<close>

definition checked_run :: "spec_error + 'a \<Rightarrow> bool" where
  "checked_run m = (m \<noteq> Inl Unvalidated)"

lemma checked_simps [simp]:
  "checked_run (Inr a)" "checked_run (Inl e) = (e \<noteq> Unvalidated)" "checked_run (ok_or x e) = (x = None \<longrightarrow> e \<noteq> Unvalidated)"
  "checked_run (rguard b e) = (b \<longrightarrow> e \<noteq> Unvalidated)" "checked_run (map_err (\<lambda>x. BadPorts x) p)" "checked_run (map_err (\<lambda>x. BadTarget x) t)"
  "checked_run (map_err (\<lambda>_. BadListenPort) q)"
  by (cases x; cases p; cases t; cases q; simp add: checked_run_def rguard_def)+

lemma checked_bind: "checked_run m \<Longrightarrow> (\<And>a. m = Inr a \<Longrightarrow> checked_run (f a)) \<Longrightarrow> checked_run (rbind m f)"
  by (cases m) (simp_all add: checked_run_def)

lemma checked_parts [simp]:
  "checked_run (split_scan b part s)" "checked_run (split_brackets s)" "checked_run (listening s)" "checked_run (forwarding s)"
  "checked_run (target_host s)" "checked_run (target_parts s)" "checked_run (source_parts s)"
proof -
  show split: "checked_run (split_scan b part s)" for b part s
    by (induction b part s rule: split_scan.induct) (auto intro: checked_bind)
  then show brackets: "checked_run (split_brackets s)" for s by (simp add: split_brackets_def)
  show listen: "checked_run (listening s)" for s by (auto simp: listening_def intro!: checked_bind)
  show host: "checked_run (target_host s)" for s by (simp add: target_host_def Let_def)
  show "checked_run (forwarding s)"
    by (auto simp: forwarding_def brackets listen intro!: checked_bind split: list.split)
  show "checked_run (target_parts s)" "checked_run (source_parts s)"
    by (auto simp: target_parts_def source_parts_def single_port_def brackets listen host intro!: checked_bind split: list.split)
qed

lemma tunnels_checked: "checked_run (tunnels local remote dynamic remote_dynamic po existing)"
proof -
  have fresh: "checked_run (fresh_rules given r po)" if "po_src po = None \<or> po_tgt po \<noteq> None" for given r
    using that by (auto simp: fresh_rules_def fresh_parts_def expand_ports_def intro!: checked_bind split: option.split)
  have direct: "checked_run (with_direction given r po existing)" if "existing = None \<Longrightarrow> po_src po = None \<or> po_tgt po \<noteq> None" for given r
    using that fresh
    by (auto simp: with_direction_def spelled_out_def same_port_def patched_def patched_source_def patched_target_def single_port_def
        intro!: checked_bind split: option.split)
  have "checked_run (direction local remote b existing)" for b
    by (auto simp: direction_def split: option.split tunnel.split)
  then show ?thesis
    using direct by (auto simp: tunnels_def result_simps intro!: checked_bind split: option.split)
qed

section \<open>Reading what is printed\<close>

lemma to_digit_ten: "to_digit 10 c = (if is_ascii_digit c then Some (byte c - 48) else None)"
  by (auto simp: to_digit_def hex_digit_def is_ascii_digit_def)

lemma show_nat_hd: "0 < n \<Longrightarrow> hd (show_nat n) \<noteq> CHR ''0''"
proof (induction n rule: show_nat.induct)
  case (1 n)
  show ?case
  proof (cases "n < 10")
    case True
    have "byte (digit_char n) \<noteq> byte CHR ''0''" using True "1.prems" by (simp add: byte_digit_char) (simp add: byte_def)
    then show ?thesis using True by (subst show_nat.simps) auto
  next
    case False
    then show ?thesis using "1.IH" by (subst show_nat.simps) simp
  qed
qed

lemma read_shown:
  assumes "n < limit" and "length (show_nat n) \<le> maxd" and "rest = [] \<or> \<not> is_ascii_digit (hd rest)"
  shows "read_number 10 maxd zeros limit (show_nat n @ rest) = Some (n, rest)"
proof -
  let ?p = "\<lambda>c. to_digit 10 c \<noteq> None"
  have digits: "\<forall>c \<in> set (show_nat n). is_ascii_digit c" using show_nat_digits [of n] by (simp add: list_all_iff)
  then have t: "takeWhile ?p (show_nat n @ rest) = show_nat n"
    using assms(3) by (cases rest) (auto simp: takeWhile_append to_digit_ten)
  have "foldl (\<lambda>v c. v * 10 + the (to_digit 10 c)) 0 (show_nat n) = digits_value (show_nat n)"
    unfolding digits_value_def using digits by (intro foldl_cong) (simp_all add: to_digit_ten)
  moreover have "\<not> (hd (show_nat n) = CHR ''0'' \<and> 1 < length (show_nat n))"
  proof
    assume zero: "hd (show_nat n) = CHR ''0'' \<and> 1 < length (show_nat n)"
    then have "n = 0" using show_nat_hd by blast
    with zero show False by (subst (asm) show_nat.simps) simp
  qed
  ultimately show ?thesis
    using assms(1,2) unfolding read_number_def Let_def t by (simp add: digits_value_show_nat)
qed

lemma show_octet_length: "length (show_word (w :: u8)) \<le> 3"
proof -
  have "unat w < 1000" using unsigned_less [of w, where 'a = nat] by simp
  then show ?thesis by (simp add: show_word_def show_nat.simps [of "unat w"] show_nat.simps [of "unat w div 10"] show_nat.simps [of "unat w div 10 div 10"])
qed

lemma read_octet_shown:
  fixes w :: u8
  assumes "rest = [] \<or> \<not> is_ascii_digit (hd rest)"
  shows "read_octet 0 (show_word w @ rest) = Some (w, rest)" "0 < i \<Longrightarrow> read_octet i (CHR ''.'' # show_word w @ rest) = Some (w, rest)"
proof -
  have "unat w < 256" using unsigned_less [of w, where 'a = nat] by simp
  then have "read_number 10 3 False 256 (show_word w @ rest) = Some (unat w, rest)"
    using read_shown [of "unat w" 256 3 rest False] show_octet_length [of w] assms by (simp add: show_word_def)
  then show "read_octet 0 (show_word w @ rest) = Some (w, rest)" "0 < i \<Longrightarrow> read_octet i (CHR ''.'' # show_word w @ rest) = Some (w, rest)"
    by (simp_all add: read_octet_def read_separator_def)
qed

lemma read_ipv4_shown:
  assumes "rest = [] \<or> \<not> is_ascii_digit (hd rest)"
  shows "read_ipv4 (show_ipv4 a @ rest) = Some (a, rest)"
proof -
  obtain x y z w where a: "a = Ipv4 x y z w" by (cases a)
  have d: "\<not> is_ascii_digit CHR ''.''" by (simp add: is_ascii_digit_def byte_def)
  show ?thesis using assms d by (simp add: a read_ipv4_def read_octet_shown)
qed

lemma read_port_shown: "read_port (CHR '':'' # show_word (p :: u16)) = Some (p, [])"
proof -
  have "unat p < 65536" using unsigned_less [of p, where 'a = nat] by simp
  then show ?thesis
    using read_shown [of "unat p" 65536 "length (show_word p)" "[]" True]
    by (simp add: read_port_def read_given_def read_any_number_def show_word_def)
qed

lemma parse_shown_v4: "parse_socket (show_socket_addr (SockV4 a p)) = Some (SockV4 a p)"
proof -
  have "\<not> is_ascii_digit CHR '':''" by (simp add: is_ascii_digit_def byte_def)
  then show ?thesis
    using read_ipv4_shown [of "CHR '':'' # show_word p" a] read_port_shown [of p]
    by (simp add: parse_socket_def complete_def read_socket_v4_def)
qed

definition part_char :: "char \<Rightarrow> bool" where
  "part_char c = (c \<noteq> CHR ''['' \<and> c \<noteq> CHR '']'' \<and> c \<noteq> CHR '':'')"

lemma split_scan_part:
  assumes "list_all part_char w"
  shows "split_scan False part w = Inr [part @ w]"
    and "split_scan False part (w @ CHR '':'' # s) = rbind (split_scan False [] s) (\<lambda>parts. Inr ((part @ w) # parts))"
  using assms by (induction w arbitrary: part) (auto simp: part_char_def)

lemma split_scan_bracketed:
  assumes "CHR ''['' \<notin> set w" and "CHR '']'' \<notin> set w"
  shows "split_scan True part (w @ CHR '']'' # s) = split_scan False (part @ w @ '']'') s"
  using assms by (induction w arbitrary: part) auto

lemma word_parts: "list_all part_char (show_word w)"
proof -
  have "\<not> is_ascii_digit CHR ''[''" "\<not> is_ascii_digit CHR '']''" "\<not> is_ascii_digit CHR '':''" by (simp_all add: is_ascii_digit_def byte_def)
  then show ?thesis using show_word_chars [of _ w] unfolding list_all_iff part_char_def by metis
qed

lemma ipv4_parts: "list_all part_char (show_ipv4 a)"
proof -
  have "part_char CHR ''.''" by (simp add: part_char_def)
  then show ?thesis by (cases a) (simp add: word_parts)
qed

lemma split_endpoint:
  assumes "CHR ''['' \<notin> set (ep_host e)" and "CHR '']'' \<notin> set (ep_host e)"
  shows "split_scan False [] (endpoint_to_string e) = Inr [written_host (ep_host e), show_word (ep_port e)]"
proof (cases "CHR '':'' \<in> set (ep_host e)")
  case True
  then show ?thesis
    using split_scan_bracketed [OF assms, of "''[''" "CHR '':'' # show_word (ep_port e)"] word_parts
    by (simp add: endpoint_to_string_def written_host_def split_scan_part(1) [OF word_parts])
next
  case False
  then have "list_all part_char (ep_host e)" using assms by (auto simp: list_all_iff part_char_def)
  with False show ?thesis
    by (simp add: endpoint_to_string_def written_host_def split_scan_part(2) split_scan_part(1) [OF word_parts])
qed

text \<open>
  Property C39. A local or remote rule on an IPv4 address, written the way the program prints its
  listening address and its target, is read back as that rule.
\<close>

theorem spec_roundtrip:
  assumes "endpoint_ok e" and "set (ep_host e) \<inter> {CHR ''['', CHR '']''} = {}" and "p \<noteq> 0"
  shows "tunnels (Some (show_socket_addr (SockV4 a p) @ '':'' @ endpoint_to_string e)) None None None \<lparr>po_port = None, po_src = None, po_tgt = None\<rparr> None =
      Inr [Local (SockV4 a p) e] \<and>
    tunnels None (Some (show_socket_addr (SockV4 a p) @ '':'' @ endpoint_to_string e)) None None \<lparr>po_port = None, po_src = None, po_tgt = None\<rparr> None =
      Inr [Remote (SockV4 a p) e]"
proof -
  let ?text = "show_socket_addr (SockV4 a p) @ '':'' @ endpoint_to_string e"
  have split: "split_brackets ?text = Inr [show_ipv4 a, show_word p, written_host (ep_host e), show_word (ep_port e)]"
    using split_endpoint [of e] assms(2) by (simp add: split_brackets_def split_scan_part(2) ipv4_parts word_parts)
  have "listening (show_ipv4 a @ '':'' @ show_word p) = Inr (SockV4 a p)"
    using parse_shown_v4 [of a p] assms(3) by (simp add: listening_def)
  moreover have "written_host (ep_host e) @ '':'' @ show_word (ep_port e) = endpoint_to_string e"
    by (simp add: written_host_def endpoint_to_string_def)
  ultimately have "forwarding ?text = Inr (SockV4 a p, e)"
    using assms(1) endpoint_from_string [of e e] unfolding forwarding_def split by simp
  moreover have "CHR '':'' \<in> set ?text" "?text \<noteq> []" by simp_all
  ultimately show ?thesis
    using split by (simp add: tunnels_def or_else_def direction_def has_ports_def with_direction_def spelled_out_def directed_def)
qed

section \<open>Witnesses\<close>

definition no_port_options :: port_options where
  "no_port_options = \<lparr>po_port = None, po_src = None, po_tgt = None\<rparr>"

definition edited_rule :: tunnel where
  "edited_rule = Local (SockV4 (Ipv4 127 0 0 1) 8080) \<lparr>ep_host = ''db'', ep_port = 5432\<rparr>"

lemma sample_source: "split_brackets (trim ''90'') = Inr [''90'']" "single_port ''90'' = Inr 90"
  by (simp_all add: split_brackets_def single_port_def single_def trim_def is_whitespace_def byte_def is_ascii_digit_def parse_u16_def parse_uint_def
      digits_value_def)

lemma sample_edits:
  "tunnels None (Some []) None None \<lparr>po_port = None, po_src = Some ''90'', po_tgt = None\<rparr> (Some edited_rule) =
     Inr [Remote (SockV4 (Ipv4 127 0 0 1) 90) \<lparr>ep_host = ''db'', ep_port = 5432\<rparr>]"
  by (simp add: tunnels_def or_else_def direction_def has_ports_def with_direction_def patched_def patched_source_def patched_target_def
      source_parts_def sample_source edited_rule_def directed_def)

theorem rules_well_formed_witness:
  "real_ports (Remote (SockV4 (Ipv4 127 0 0 1) 90) \<lparr>ep_host = ''db'', ep_port = 5432\<rparr>)"
  using rules_well_formed [OF sample_edits] by (simp add: edited_rule_def real_ports_def [of "Local _ _"])


theorem spec_roundtrip_witness:
  "tunnels (Some (show_socket_addr (SockV4 (Ipv4 10 0 0 1) 80) @ '':'' @ endpoint_to_string \<lparr>ep_host = ''fe80::1%eth0'', ep_port = 5432\<rparr>))
     None None None \<lparr>po_port = None, po_src = None, po_tgt = None\<rparr> None =
   Inr [Local (SockV4 (Ipv4 10 0 0 1) 80) \<lparr>ep_host = ''fe80::1%eth0'', ep_port = 5432\<rparr>]"
proof -
  have "endpoint_ok \<lparr>ep_host = ''fe80::1%eth0'', ep_port = 5432\<rparr>" by (rule endpoint_from_str_ok [OF sample_endpoint_read])
  from spec_roundtrip [OF this, of 80 "Ipv4 10 0 0 1"] show ?thesis by simp
qed

end
