(* ===== verification/CliPlan.thy ===== *)
theory CliPlan
  imports CliSpec Change RandomNames SshLine
begin

text \<open>
  What \<open>fwm add\<close> and \<open>fwm edit\<close> make of their arguments: \<open>crates/fwm/src/cli/add.rs\<close>, \<open>forwards.rs\<close>,
  \<open>cleanup.rs\<close>, \<open>server_selection.rs\<close> and \<open>equivalent_paths\<close> of
  \<open>crates/fwm-core/src/ssh/path_options.rs\<close>. Both work on a copy of the configuration and send the
  daemon one command.
\<close>

section \<open>The environment\<close>

record cli_env =
  ce_alphanumeric :: "nat \<Rightarrow> bool"
  ce_json_size :: "config \<Rightarrow> nat option"
  ce_canon :: "string \<Rightarrow> canonical"
  ce_base :: string
  ce_home :: "string option"
  ce_new_id :: "nat \<Rightarrow> string"
  ce_names :: "string option \<Rightarrow> string list"

datatype cli_error =
    BadName config_error | SpecFailed spec_error | DifferentSshConfig string | PathTrouble path_error | NoHome
  | ServerRequired | RelayShared | NoDirection | NamesExhausted | NameIsGroup string | NameTaken string
  | VerifiedNeedsRemote | PlanRejected config_error | Unpaired
  | NotSelected select_error | RenameWithGroup | GroupTaken string | TargetServerNeedsRelay | NotOneRule | RelayConversion
  | RuleVanished

section \<open>Servers\<close>

definition expanded_path :: "cli_env \<Rightarrow> string \<Rightarrow> cli_error + string" where
  "expanded_path v p =
     rbind (if p = ''~'' \<or> starts_with ''~/'' p
            then rbind (ok_or (ce_home v) NoHome) (\<lambda>home.
                 Inr (path_join home (case strip_prefix ''~/'' p of Some r \<Rightarrow> r | None \<Rightarrow> [])))
            else Inr p) (\<lambda>q.
     map_err PathTrouble (absolute_normalized (ce_canon v) q (ce_base v)))"

definition equivalent_paths :: "cli_env \<Rightarrow> string \<Rightarrow> string \<Rightarrow> cli_error + bool" where
  "equivalent_paths v a b = rbind (expanded_path v a) (\<lambda>x. rbind (expanded_path v b) (\<lambda>y. Inr (x = y)))"

record selected_server =
  sv_profile :: server_profile
  sv_is_new :: bool

definition select :: "cli_env \<Rightarrow> string \<Rightarrow> config \<Rightarrow> string \<Rightarrow> string option \<Rightarrow> cli_error + selected_server" where
  "select v new_id c selector ssh_config = (case server c selector of
       Some s \<Rightarrow>
         rbind (case ssh_config of
                  None \<Rightarrow> Inr ()
                | Some path \<Rightarrow>
                    rbind (equivalent_paths v (case sp_ssh_config s of Some q \<Rightarrow> q | None \<Rightarrow> ''~/.ssh/config'') path) (\<lambda>same.
                    rguard (\<not> same) (DifferentSshConfig (sp_name s)))) (\<lambda>_.
         Inr \<lparr>sv_profile = s, sv_is_new = False\<rparr>)
     | None \<Rightarrow>
         rbind (map_err BadName (validate_name (ce_alphanumeric v) selector)) (\<lambda>_.
         rbind (map_err PathTrouble (normalize_profile_paths (ce_canon v) (ce_base v) (ce_base v)
                  ((new_profile new_id selector)\<lparr>sp_ssh_alias := Some selector, sp_ssh_config := ssh_config\<rparr>))) (\<lambda>s.
         Inr \<lparr>sv_profile = s, sv_is_new = True\<rparr>)))"

definition new_server :: "selected_server \<Rightarrow> server_profile option" where
  "new_server s = (if sv_is_new s then Some (sv_profile s) else None)"

section \<open>Cleanup and connection\<close>

definition effective_cleanup ::
    "tunnel \<Rightarrow> forward_spec option \<Rightarrow> remote_cleanup option \<Rightarrow> cli_error + remote_cleanup" where
  "effective_cleanup t existing requested = (case requested of
       Some Verified \<Rightarrow> if \<not> is_remote t then Inl VerifiedNeedsRemote else Inr Verified
     | Some Off \<Rightarrow> Inr Off
     | None \<Rightarrow>
         Inr (if \<not> is_remote t then Off
              else case existing of
                Some f \<Rightarrow> if is_remote (fs_tunnel f) then fs_remote_cleanup f else Verified
              | None \<Rightarrow> Verified))"

definition effective ::
    "tunnel \<Rightarrow> forward_spec option \<Rightarrow> connection_mode option \<Rightarrow> remote_cleanup option \<Rightarrow>
     cli_error + connection_mode \<times> remote_cleanup" where
  "effective t existing mode requested =
     rbind (effective_cleanup t existing requested) (\<lambda>cleanup.
     Inr (if cleanup = Verified then Dedicated
          else case mode of
            Some m \<Rightarrow> m
          | None \<Rightarrow> (case existing of None \<Rightarrow> Shared | Some f \<Rightarrow> fs_connection_mode f), cleanup))"

section \<open>Adding\<close>

record add_args =
  ad_explicit_name :: "string option"
  ad_name :: "string option"
  ad_group :: "string option"
  ad_server :: "string option"
  ad_src_server :: "string option"
  ad_tgt_server :: "string option"
  ad_ssh_config :: "string option"
  ad_disabled :: bool
  ad_mode :: "connection_mode option"
  ad_cleanup :: "remote_cleanup option"

record add_plan =
  ap_forwards :: "forward_spec list"
  ap_server :: "server_profile option"
  ap_target_server :: "server_profile option"

definition check_names :: "cli_env \<Rightarrow> string option \<Rightarrow> cli_error + unit" where
  "check_names v name = (case name of
       None \<Rightarrow> Inr ()
     | Some n \<Rightarrow> map_err BadName (validate_name (ce_alphanumeric v) n))"

definition draw_name :: "string list \<Rightarrow> cli_error + string \<times> string list" where
  "draw_name names = map_err (\<lambda>_. NamesExhausted) (take_name names)"

definition rule_name :: "string option \<Rightarrow> bool \<Rightarrow> tunnel \<Rightarrow> string list \<Rightarrow> cli_error + string \<times> string list" where
  "rule_name explicit multiple t names = (case explicit of
       Some n \<Rightarrow> Inr (if multiple then n @ ''-'' @ show_word (sock_port (listen t)) else n, names)
     | None \<Rightarrow> draw_name names)"

definition with_target_server :: "string option \<Rightarrow> tunnel \<Rightarrow> cli_error + tunnel" where
  "with_target_server target_id t = (case t of
       Relay l e _ \<Rightarrow> rbind (ok_or target_id Unpaired) (\<lambda>i. Inr (Relay l e i))
     | _ \<Rightarrow> Inr t)"

definition plan_rule ::
    "cli_env \<Rightarrow> config \<Rightarrow> add_args \<Rightarrow> string option \<Rightarrow> string \<Rightarrow> string option \<Rightarrow> string \<Rightarrow> string \<Rightarrow> tunnel \<Rightarrow> cli_error + forward_spec" where
  "plan_rule v c args grp server_id target_id new_id name t =
     rbind (map_err BadName (validate_name (ce_alphanumeric v) name)) (\<lambda>_.
     rbind (rguard (\<exists>f \<in> set (forwards c). fs_group f = Some name) (NameIsGroup name)) (\<lambda>_.
     rbind (rguard (forward c name \<noteq> None) (NameTaken name)) (\<lambda>_.
     rbind (effective t None (ad_mode args) (ad_cleanup args)) (\<lambda>(mode, cleanup).
     rbind (with_target_server target_id t) (\<lambda>t.
     Inr \<lparr>fs_id = new_id, fs_name = name, fs_group = grp, fs_server_id = server_id, fs_tunnel = t,
          fs_desired_state = (if ad_disabled args then Stopped else Running), fs_connection_mode = mode, fs_remote_cleanup = cleanup\<rparr>)))))"

fun plan_rules ::
    "cli_env \<Rightarrow> config \<Rightarrow> add_args \<Rightarrow> bool \<Rightarrow> string option \<Rightarrow> string \<Rightarrow> string option \<Rightarrow> nat \<Rightarrow> string list \<Rightarrow> tunnel list \<Rightarrow>
     cli_error + forward_spec list" where
  "plan_rules v c args multiple grp server_id target_id i names [] = Inr []"
| "plan_rules v c args multiple grp server_id target_id i names (t # ts) =
     rbind (rule_name (or_else (ad_explicit_name args) (ad_name args)) multiple t names) (\<lambda>(name, names).
     rbind (plan_rule v c args grp server_id target_id (ce_new_id v i) name t) (\<lambda>f.
     rbind (plan_rules v c args multiple grp server_id target_id (Suc i) names ts) (\<lambda>fs. Inr (f # fs))))"

definition plan_servers :: "cli_env \<Rightarrow> config \<Rightarrow> add_args \<Rightarrow> cli_error + selected_server \<times> selected_server option" where
  "plan_servers v c args = (case ad_src_server args of
       Some source \<Rightarrow>
         rbind (select v (ce_new_id v 0) c source (ad_ssh_config args)) (\<lambda>s.
         rbind (ok_or (ad_tgt_server args) Unpaired) (\<lambda>dest.
         rbind (select v (ce_new_id v 1) c dest (ad_ssh_config args)) (\<lambda>t. Inr (s, Some t))))
     | None \<Rightarrow>
         rbind (ok_or (ad_server args) ServerRequired) (\<lambda>selector.
         rbind (select v (ce_new_id v 0) c selector (ad_ssh_config args)) (\<lambda>s. Inr (s, None))))"

definition plan_group :: "cli_env \<Rightarrow> add_args \<Rightarrow> bool \<Rightarrow> cli_error + string option \<times> string list" where
  "plan_group v args multiple =
     (let names = ce_names v (ad_group args) in
      case ad_group args of
        Some g \<Rightarrow> Inr (Some g, names)
      | None \<Rightarrow>
          if \<not> multiple then Inr (None, names)
          else (case or_else (ad_explicit_name args) (ad_name args) of
              Some n \<Rightarrow> Inr (Some n, names)
            | None \<Rightarrow> rbind (draw_name names) (\<lambda>(n, names). Inr (Some n, names))))"

definition plan ::
    "cli_env \<Rightarrow> config \<Rightarrow> add_args \<Rightarrow> tunnel list \<Rightarrow> (socket_addr \<times> endpoint) list \<Rightarrow> cli_error + add_plan" where
  "plan v c args ts relay_specs =
     rbind (check_names v (or_else (ad_explicit_name args) (ad_name args))) (\<lambda>_.
     rbind (check_names v (ad_group args)) (\<lambda>_.
     let relay = (ad_src_server args \<noteq> None);
         batch = (if relay then map (\<lambda>(l, e). Relay l e []) relay_specs else ts);
         multiple = (1 < length batch) in
     rbind (rguard (\<not> relay \<and> ad_server args = None) ServerRequired) (\<lambda>_.
     rbind (rguard (relay \<and> ad_mode args = Some Shared) CliPlan.RelayShared) (\<lambda>_.
     rbind (rguard (batch = []) NoDirection) (\<lambda>_.
     rbind (plan_servers v c args) (\<lambda>(s, t).
     rbind (plan_group v args multiple) (\<lambda>(grp, names).
     rbind (plan_rules v c args multiple grp (sp_id (sv_profile s)) (map_option (sp_id \<circ> sv_profile) t) 2 names batch) (\<lambda>fs.
     let server = new_server s; target_server = Option.bind t new_server in
     rbind (map_err PlanRejected (validate (ce_alphanumeric v) (ce_json_size v)
              (c\<lparr>servers := servers c @ option_list server @ option_list target_server, forwards := forwards c @ fs\<rparr>))) (\<lambda>_.
     Inr \<lparr>ap_forwards = fs, ap_server = server, ap_target_server = target_server\<rparr>)))))))))"

section \<open>Editing\<close>

record edit_args =
  ed_name :: string
  ed_server :: "string option"
  ed_tgt_server :: "string option"
  ed_ssh_config :: "string option"
  ed_local :: "string option"
  ed_remote :: "string option"
  ed_dynamic :: "string option"
  ed_remote_dynamic :: "string option"
  ed_ports :: port_options
  ed_rename :: "string option"
  ed_group :: "string option"
  ed_ungroup :: bool
  ed_mode :: "connection_mode option"
  ed_cleanup :: "remote_cleanup option"

definition edit_relay_fields :: "socket_addr \<Rightarrow> endpoint \<Rightarrow> edit_args \<Rightarrow> cli_error + socket_addr \<times> endpoint" where
  "edit_relay_fields l e args =
     rbind (rguard (\<exists>d \<in> {ed_local args, ed_remote args, ed_dynamic args, ed_remote_dynamic args}. d \<noteq> None) RelayConversion) (\<lambda>_.
     map_err SpecFailed (
       rbind (case po_port (ed_ports args) of
                None \<Rightarrow> Inr (l, e)
              | Some port \<Rightarrow> rbind (single_port port) (\<lambda>p. Inr (set_port l p, e\<lparr>ep_port := p\<rparr>))) (\<lambda>(l, e).
       rbind (patched_source l (po_src (ed_ports args))) (\<lambda>l.
       case po_tgt (ed_ports args) of
         None \<Rightarrow> Inr (l, e)
       | Some dest \<Rightarrow>
           rbind (target_parts dest) (\<lambda>(host, p).
           Inr (l, \<lparr>ep_host = (case host of Some h \<Rightarrow> h | None \<Rightarrow> ep_host e), ep_port = p\<rparr>))))))"

definition edit_tunnel :: "tunnel \<Rightarrow> edit_args \<Rightarrow> cli_error + tunnel" where
  "edit_tunnel t args = (case t of
       Relay l e i \<Rightarrow> rbind (edit_relay_fields l e args) (\<lambda>(l, e). Inr (Relay l e i))
     | _ \<Rightarrow>
         rbind (rguard (ed_tgt_server args \<noteq> None) TargetServerNeedsRelay) (\<lambda>_.
         rbind (map_err SpecFailed (tunnels (ed_local args) (ed_remote args) (ed_dynamic args) (ed_remote_dynamic args) (ed_ports args) (Some t))) (\<lambda>ts.
         case ts of
           [] \<Rightarrow> Inr t
         | [t'] \<Rightarrow> Inr t'
         | _ \<Rightarrow> Inl NotOneRule)))"

definition edit_fields :: "forward_spec \<Rightarrow> edit_args \<Rightarrow> cli_error + forward_spec" where
  "edit_fields existing args =
     rbind (edit_tunnel (fs_tunnel existing) args) (\<lambda>t.
     let name = (case ed_rename args of Some n \<Rightarrow> n | None \<Rightarrow> fs_name existing);
         grp = (case ed_group args of
                  Some g \<Rightarrow> Some g
                | None \<Rightarrow> if ed_ungroup args then None else fs_group existing) in
     rbind (effective t (Some existing) (ed_mode args) (ed_cleanup args)) (\<lambda>(mode, cleanup).
     rbind (rguard (is_relay t \<and> ed_mode args = Some Shared) CliPlan.RelayShared) (\<lambda>_.
     Inr (existing\<lparr>fs_tunnel := t, fs_name := name, fs_group := grp, fs_connection_mode := mode, fs_remote_cleanup := cleanup\<rparr>))))"

definition edit_relay_target :: "string \<Rightarrow> forward_spec \<Rightarrow> cli_error + forward_spec" where
  "edit_relay_target target_id f = (case fs_tunnel f of
       Relay l e _ \<Rightarrow> Inr (f\<lparr>fs_tunnel := Relay l e target_id\<rparr>)
     | _ \<Rightarrow> Inl TargetServerNeedsRelay)"

definition edit_rule ::
    "config \<Rightarrow> edit_args \<Rightarrow> selected_server option \<Rightarrow> selected_server option \<Rightarrow> bool \<Rightarrow> string \<Rightarrow> cli_error + forward_spec" where
  "edit_rule c args s t group_edit i =
     rbind (ok_or (forward c i) RuleVanished) (\<lambda>existing.
     rbind (edit_fields existing args) (\<lambda>f.
     let f = (case s of None \<Rightarrow> f | Some s \<Rightarrow> f\<lparr>fs_server_id := sp_id (sv_profile s)\<rparr>) in
     rbind (case t of None \<Rightarrow> Inr f | Some t \<Rightarrow> edit_relay_target (sp_id (sv_profile t)) f) (\<lambda>f.
     Inr (case ed_rename args of
            Some n \<Rightarrow> if group_edit then f\<lparr>fs_name := fs_name existing, fs_group := Some n\<rparr> else f
          | None \<Rightarrow> f))))"

definition select_option :: "cli_env \<Rightarrow> string \<Rightarrow> config \<Rightarrow> string option \<Rightarrow> string option \<Rightarrow> cli_error + selected_server option" where
  "select_option v new_id c selector ssh_config = (case selector of
       None \<Rightarrow> Inr None
     | Some name \<Rightarrow> rbind (select v new_id c name ssh_config) (\<lambda>s. Inr (Some s)))"

definition plan_edit :: "cli_env \<Rightarrow> config \<Rightarrow> edit_args \<Rightarrow> cli_error + add_plan" where
  "plan_edit v c args =
     rbind (map_err NotSelected (select_forwards c (ed_name args))) (\<lambda>ids.
     rbind (select_option v (ce_new_id v 0) c (ed_server args) (ed_ssh_config args)) (\<lambda>s.
     rbind (select_option v (ce_new_id v 1) c (ed_tgt_server args) (ed_ssh_config args)) (\<lambda>t.
     let group_edit = (forward c (ed_name args) = None) in
     rbind (rguard (group_edit \<and> ed_rename args \<noteq> None \<and> (ed_group args \<noteq> None \<or> ed_ungroup args)) RenameWithGroup) (\<lambda>_.
     rbind (case ed_rename args of
              None \<Rightarrow> Inr ()
            | Some n \<Rightarrow> rguard (group_edit \<and> n \<noteq> ed_name args \<and> (\<exists>f \<in> set (forwards c). fs_group f = Some n)) (GroupTaken n)) (\<lambda>_.
     rbind (collect_results (edit_rule c args s t group_edit) ids) (\<lambda>fs.
     let server = Option.bind s new_server; target_server = Option.bind t new_server;
         candidate = foldl replace_rule (c\<lparr>servers := servers c @ option_list server @ option_list target_server\<rparr>) fs in
     rbind (map_err PlanRejected (validate (ce_alphanumeric v) (ce_json_size v) candidate)) (\<lambda>_.
     Inr \<lparr>ap_forwards = fs, ap_server = server, ap_target_server = target_server\<rparr>)))))))"

section \<open>Planned commands are accepted\<close>

lemma effective_result:
  "effective t existing mode requested = Inr (m, cleanup) \<Longrightarrow> cleanup = Verified \<Longrightarrow> is_remote t \<and> m = Dedicated \<or> requested = None \<and> is_remote t \<and> m = Dedicated"
  by (auto simp: effective_def effective_cleanup_def result_simps split: option.splits remote_cleanup.splits if_splits)

lemma plan_rule_result:
  assumes "plan_rule v c args grp server_id target_id new_id name t = Inr f"
  shows "fs_server_id f = server_id \<and> fs_id f = new_id \<and> fs_name f = name \<and> fs_group f = grp \<and> listen (fs_tunnel f) = listen t \<and>
    (is_relay t \<longrightarrow> target_server_id (fs_tunnel f) = target_id \<and> target_id \<noteq> None)"
  using assms by (cases t) (auto simp: plan_rule_def with_target_server_def result_simps)

lemma plan_rules_result:
  assumes "plan_rules v c args multiple grp server_id target_id i names ts = Inr fs"
  shows "list_all2 (\<lambda>t f. fs_server_id f = server_id \<and> fs_group f = grp \<and> listen (fs_tunnel f) = listen t \<and>
    (is_relay t \<longrightarrow> target_server_id (fs_tunnel f) = target_id \<and> target_id \<noteq> None)) ts fs"
  using assms
proof (induction ts arbitrary: i names fs)
  case (Cons t ts)
  then show ?case by (auto simp: result_simps dest!: plan_rule_result)
qed simp

lemma wf_unambiguous_servers: "wf_config ua js c \<Longrightarrow> unambiguous sp_id sp_name (servers c)"
  by (simp add: wf_config_def)

lemma fresh_servers:
  assumes "unambiguous sp_id sp_name (servers c @ ss)" and "\<forall>s \<in> set ss. \<exists>f \<in> set fs. references_server f (sp_id s)"
  shows "servers_fresh c fs ss"
  using unambiguousD(1) [OF assms(1)] unambiguousD(2) [OF assms(1)] assms(2) by (simp add: servers_fresh_def Int_commute)

lemma fresh_rules_ids:
  assumes "wf_config ua js (c\<lparr>servers := ss, forwards := forwards c @ fs\<rparr>)"
  shows "fs_id ` set fs \<inter> fs_id ` set (forwards c) = {}" and "fs_name ` set fs \<inter> fs_name ` set (forwards c) = {}"
proof -
  have "unambiguous fs_id fs_name (forwards c @ fs)" using assms by (simp add: wf_config_def)
  from unambiguousD(1) [OF this] unambiguousD(2) [OF this]
  show "fs_id ` set fs \<inter> fs_id ` set (forwards c) = {}" and "fs_name ` set fs \<inter> fs_name ` set (forwards c) = {}"
    by (simp_all add: Int_commute)
qed

text \<open>
  Property C31. Whatever \<open>fwm add\<close> plans, the daemon accepts: on the configuration the plan was made for, the
  command that is sent adds exactly the planned rules and servers. The rules listen where the arguments
  say, belong to the chosen server and are all in one group or in none.
\<close>

theorem add_is_accepted:
  assumes "plan v c args ts relay_specs = Inr p"
  shows "prepare (ce_alphanumeric v) (ce_json_size v) c (CreateForwards (ap_forwards p) (ap_server p) (ap_target_server p)) =
      Inr \<lparr>ch_config = c\<lparr>servers := servers c @ option_list (ap_server p) @ option_list (ap_target_server p),
                        forwards := forwards c @ ap_forwards p\<rparr>,
           ch_selected = None, ch_message = saved_message (ap_forwards p)\<rparr> \<and>
    map (listen \<circ> fs_tunnel) (ap_forwards p) = (if ad_src_server args = None then map listen ts else map fst relay_specs) \<and>
    card (fs_group ` set (ap_forwards p)) = 1 \<and> card (fs_server_id ` set (ap_forwards p)) = 1"
proof -
  define batch where "batch = (if ad_src_server args \<noteq> None then map (\<lambda>(l, e). Relay l e []) relay_specs else ts)"
  from assms obtain s t grp names fs where
    batch: "batch \<noteq> []" and servers: "plan_servers v c args = Inr (s, t)" and
    fs: "plan_rules v c args (1 < length batch) grp (sp_id (sv_profile s)) (map_option (sp_id \<circ> sv_profile) t) 2 names batch = Inr fs" and
    valid: "wf_config (ce_alphanumeric v) (ce_json_size v)
      (c\<lparr>servers := servers c @ option_list (new_server s) @ option_list (Option.bind t new_server), forwards := forwards c @ fs\<rparr>)" and
    p: "p = \<lparr>ap_forwards = fs, ap_server = new_server s, ap_target_server = Option.bind t new_server\<rparr>"
    unfolding plan_def Let_def batch_def [symmetric] by (auto simp: result_simps validate_iff_wf)
  note shape = plan_rules_result [OF fs]
  have length: "length fs = length batch" using shape by (simp add: list_all2_lengthD)
  have each: "fs_server_id f = sp_id (sv_profile s) \<and> fs_group f = grp" if "f \<in> set fs" for f
    using shape that by (auto simp: list_all2_conv_all_nth in_set_conv_nth)
  have relays: "target_server_id (fs_tunnel f) = map_option (sp_id \<circ> sv_profile) t" if "f \<in> set fs" "ad_src_server args \<noteq> None" for f
  proof -
    from that(1) obtain i where i: "i < length fs" "f = fs ! i" by (auto simp: in_set_conv_nth)
    then have "is_relay (batch ! i)" using that(2) length by (simp add: batch_def case_prod_unfold)
    with shape i show ?thesis by (simp add: list_all2_conv_all_nth)
  qed
  have t: "t \<noteq> None \<Longrightarrow> ad_src_server args \<noteq> None" using servers by (auto simp: plan_servers_def result_simps split: option.splits)
  obtain f where f: "f \<in> set fs" using batch length by (cases fs) auto
  have "servers_fresh c fs (option_list (new_server s) @ option_list (Option.bind t new_server))"
  proof (rule fresh_servers [OF wf_unambiguous_servers [OF valid, simplified]], intro ballI bexI [OF _ f])
    fix x
    assume "x \<in> set (option_list (new_server s) @ option_list (Option.bind t new_server))"
    then consider "x = sv_profile s" | y where "t = Some y" "x = sv_profile y"
      by (auto simp: new_server_def split: if_splits option.splits bind_splits)
    then show "references_server f (sp_id x)"
    proof cases
      case 1
      with each [OF f] show ?thesis by (simp add: references_server_def referenced_server_ids_def)
    next
      case 2
      with relays [OF f] t show ?thesis by (simp add: references_server_def referenced_server_ids_def option_list_def)
    qed
  qed
  moreover note fresh_rules_ids [OF valid]
  moreover have "map (listen \<circ> fs_tunnel) fs = map listen batch"
    using shape by (intro nth_equalityI) (simp_all add: list_all2_conv_all_nth)
  moreover have "fs_group ` set fs = {grp}" "fs_server_id ` set fs = {sp_id (sv_profile s)}" using each f by auto
  ultimately show ?thesis
    using valid f by (auto simp: p prepare_def append_new_Inr result_simps validate_iff_wf batch_def comp_def case_prod_unfold)
qed

lemma edit_fields_id: "edit_fields existing args = Inr f \<Longrightarrow> fs_id f = fs_id existing"
  by (auto simp: edit_fields_def Let_def result_simps)

lemma edit_relay_target_result:
  "edit_relay_target i f = Inr g \<Longrightarrow>
     fs_id g = fs_id f \<and> fs_name g = fs_name f \<and> fs_server_id g = fs_server_id f \<and> target_server_id (fs_tunnel g) = Some i"
  by (auto simp: edit_relay_target_def split: tunnel.splits)

lemma edit_rule_result:
  assumes "edit_rule c args s t g i = Inr f" and "i \<in> fs_id ` set (forwards c)"
  shows "fs_id f = i \<and> (\<forall>x. s = Some x \<longrightarrow> fs_server_id f = sp_id (sv_profile x)) \<and>
    (\<forall>x. t = Some x \<longrightarrow> target_server_id (fs_tunnel f) = Some (sp_id (sv_profile x)))"
proof -
  from assms(1) obtain existing f1 f2 where e: "forward c i = Some existing" "edit_fields existing args = Inr f1"
    "(case t of None \<Rightarrow> Inr (case s of None \<Rightarrow> f1 | Some s \<Rightarrow> f1\<lparr>fs_server_id := sp_id (sv_profile s)\<rparr>)
      | Some t \<Rightarrow> edit_relay_target (sp_id (sv_profile t)) (case s of None \<Rightarrow> f1 | Some s \<Rightarrow> f1\<lparr>fs_server_id := sp_id (sv_profile s)\<rparr>)) = Inr f2"
    and f: "f = (case ed_rename args of
            Some n \<Rightarrow> if g then f2\<lparr>fs_name := fs_name existing, fs_group := Some n\<rparr> else f2
          | None \<Rightarrow> f2)"
    by (auto simp: edit_rule_def Let_def result_simps)
  have "List.find (\<lambda>x. fs_id x = i) (forwards c) \<noteq> None" using assms(2) by (auto simp: find_None_iff)
  then have "fs_id existing = i" using e(1) by (auto simp: forward_def lookup_by_def or_else_def split: option.splits dest: find_SomeD)
  then have id1: "fs_id f1 = i" using edit_fields_id [OF e(2)] by simp
  show ?thesis
    using e(3) id1 by (auto simp: f split: option.splits dest!: edit_relay_target_result)
qed

lemma select_forwards_ids:
  assumes "select_forwards c sel = Inr ids" and "distinct (map fs_id (forwards c))"
  shows "ids \<noteq> [] \<and> set ids \<subseteq> fs_id ` set (forwards c) \<and> distinct ids"
proof (cases "forward c sel")
  case (Some f)
  then have "f \<in> set (forwards c)" by (auto simp: forward_def lookup_by_def or_else_def split: option.splits dest: find_SomeD)
  with assms(1) Some show ?thesis by (auto simp: select_forwards_def)
next
  case None
  with assms show ?thesis
    by (auto simp: select_forwards_def select_group_forwards_def Let_def result_simps distinct_map_filter split: if_splits)
qed

text \<open>
  Whatever \<open>fwm edit\<close> plans for a valid configuration, the daemon accepts: the command replaces
  the selected rules, each under its own identity, by the edited ones and changes no other rule.
\<close>

theorem edit_is_accepted:
  assumes "wf_config (ce_alphanumeric v) (ce_json_size v) c" and "plan_edit v c args = Inr p"
  shows "(\<exists>ch. prepare (ce_alphanumeric v) (ce_json_size v) c (PutForwardsWithServer (ap_forwards p) (ap_server p) (ap_target_server p)) = Inr ch \<and>
       ch_config ch = foldl replace_rule (c\<lparr>servers := servers c @ option_list (ap_server p) @ option_list (ap_target_server p)\<rparr>) (ap_forwards p)) \<and>
    select_forwards c (ed_name args) = Inr (map fs_id (ap_forwards p))"
proof -
  from assms(2) obtain ids s t where ids: "select_forwards c (ed_name args) = Inr ids" and
    fs: "list_all2 (\<lambda>i f. edit_rule c args s t (forward c (ed_name args) = None) i = Inr f) ids (ap_forwards p)" and
    servers: "ap_server p = Option.bind s new_server" "ap_target_server p = Option.bind t new_server" and
    valid: "wf_config (ce_alphanumeric v) (ce_json_size v)
      (foldl replace_rule (c\<lparr>servers := servers c @ option_list (ap_server p) @ option_list (ap_target_server p)\<rparr>) (ap_forwards p))"
    unfolding plan_edit_def Let_def by (auto simp: result_simps validate_iff_wf)
  have "unambiguous fs_id fs_name (forwards c)" using assms(1) by (simp add: wf_config_def)
  note sel = select_forwards_ids [OF ids unambiguousD(1) [OF this]]
  have each: "fs_id f = i \<and> (\<forall>x. s = Some x \<longrightarrow> fs_server_id f = sp_id (sv_profile x)) \<and>
      (\<forall>x. t = Some x \<longrightarrow> target_server_id (fs_tunnel f) = Some (sp_id (sv_profile x)))"
    if "(i, f) \<in> set (zip ids (ap_forwards p))" for i f
  proof -
    from that have "i \<in> set ids" by (rule set_zip_leftD)
    then have "i \<in> fs_id ` set (forwards c)" using sel by blast
    with that fs show ?thesis by (auto simp: list_all2_iff intro!: edit_rule_result)
  qed
  have len: "length (ap_forwards p) = length ids" using fs by (simp add: list_all2_lengthD)
  have map_ids: "map fs_id (ap_forwards p) = ids"
  proof (rule nth_equalityI)
    fix i
    assume i: "i < length (map fs_id (ap_forwards p))"
    then have "(ids ! i, ap_forwards p ! i) \<in> set (zip ids (ap_forwards p))" using len by (auto simp: set_zip)
    from each [OF this] i show "map fs_id (ap_forwards p) ! i = ids ! i" by simp
  qed (simp add: len)
  have refs: "(\<forall>x. s = Some x \<longrightarrow> fs_server_id f = sp_id (sv_profile x)) \<and>
      (\<forall>x. t = Some x \<longrightarrow> target_server_id (fs_tunnel f) = Some (sp_id (sv_profile x)))" if "f \<in> set (ap_forwards p)" for f
    using each that len by (metis in_set_impl_in_set_zip2)
  obtain f where f: "f \<in> set (ap_forwards p)" using sel len by (cases "ap_forwards p") auto
  let ?ss = "option_list (ap_server p) @ option_list (ap_target_server p)"
  have kept: "servers (foldl replace_rule c' fs') = servers c'" for c' fs'
    by (induction fs' arbitrary: c') (simp_all add: replace_rule_def)
  have unique: "unambiguous sp_id sp_name (servers c @ ?ss)" using valid by (simp add: wf_config_def kept)
  have "references_server f (sp_id x)" if "x \<in> set ?ss" for x
  proof -
    from that consider y where "s = Some y" "x = sv_profile y" | y where "t = Some y" "x = sv_profile y"
      by (auto simp: servers new_server_def split: if_splits bind_splits)
    then show ?thesis using refs [OF f] by cases (simp_all add: references_server_iff)
  qed
  then have "\<forall>x \<in> set ?ss. \<exists>f \<in> set (ap_forwards p). references_server f (sp_id x)" using f by blast
  with unique have "servers_fresh c (ap_forwards p) ?ss" by (rule fresh_servers)
  moreover have "check_edit c {} (ap_forwards p) = Inr ()"
    using sel map_ids by (auto simp: check_edit_Inr) (metis image_eqI image_set subsetD)
  moreover have "ap_forwards p \<noteq> []" using f by auto
  ultimately have "replace_batch (ce_alphanumeric v) (ce_json_size v) c (ap_forwards p) ?ss =
      Inr (foldl replace_rule (c\<lparr>servers := servers c @ ?ss\<rparr>) (ap_forwards p))"
    using valid by (simp add: replace_batch_def result_simps insert_servers_Inr validate_iff_wf Let_def)
  then show ?thesis
    using valid ids map_ids by (simp add: prepare_def result_simps validate_iff_wf)
qed

section \<open>Witnesses\<close>

definition sample_cli :: cli_env where
  "sample_cli = \<lparr>ce_alphanumeric = no_ext, ce_json_size = small_json, ce_canon = Canonical, ce_base = ''/'', ce_home = None,
     ce_new_id = (\<lambda>n. if n = 2 then ''f4'' else ''x''), ce_names = (\<lambda>_. [])\<rparr>"

definition smaller_config :: config where
  "smaller_config = sample_config\<lparr>forwards := [sample_local, sample_local2, sample_remote]\<rparr>"

definition bridge_args :: add_args where
  "bridge_args = \<lparr>ad_explicit_name = Some ''bridge'', ad_name = None, ad_group = Some ''infra'', ad_server = None,
     ad_src_server = Some ''alpha'', ad_tgt_server = Some ''beta'', ad_ssh_config = None, ad_disabled = False, ad_mode = None, ad_cleanup = None\<rparr>"

definition regroup_args :: edit_args where
  "regroup_args = \<lparr>ed_name = ''bridge'', ed_server = Some ''alpha'', ed_tgt_server = Some ''srv-b'', ed_ssh_config = None, ed_local = None,
     ed_remote = None, ed_dynamic = None, ed_remote_dynamic = None, ed_ports = \<lparr>po_port = None, po_src = Some ''9000'', po_tgt = None\<rparr>,
     ed_rename = None, ed_group = Some ''infra'', ed_ungroup = False, ed_mode = None, ed_cleanup = None\<rparr>"

lemma sample_plan:
  "plan sample_cli smaller_config bridge_args [] [(loopback 9000, sample_target)] =
     Inr \<lparr>ap_forwards = [sample_relay], ap_server = None, ap_target_server = None\<rparr>"
proof -
  have names: "validate_name no_ext ''bridge'' = Inr ()" "validate_name no_ext ''infra'' = Inr ()"
    by (simp_all add: validate_name_Inr text_eval)
  have "smaller_config\<lparr>servers := servers smaller_config, forwards := forwards smaller_config @ [sample_relay]\<rparr> = sample_config"
    by (simp add: smaller_config_def sample_config_def)
  then have "validate no_ext small_json (smaller_config\<lparr>servers := servers smaller_config, forwards := forwards smaller_config @ [sample_relay]\<rparr>) = Inr ()"
    by (simp only: validate_iff_wf sample_wf)
  moreover have "select sample_cli i smaller_config ''alpha'' None = Inr \<lparr>sv_profile = sample_server_a, sv_is_new = False\<rparr>"
    "select sample_cli i smaller_config ''beta'' None = Inr \<lparr>sv_profile = sample_server_b, sv_is_new = False\<rparr>" for i
    by (simp_all add: select_def server_def lookup_by_def or_else_def smaller_config_def sample_defs)
  moreover have "plan_rule sample_cli smaller_config bridge_args (Some ''infra'') ''srv-a'' (Some ''srv-b'') ''f4'' ''bridge'' (Relay (loopback 9000) sample_target []) =
      Inr sample_relay"
    using names
    by (simp add: plan_rule_def forward_def lookup_by_def or_else_def smaller_config_def sample_cli_def bridge_args_def effective_def
        effective_cleanup_def with_target_server_def sample_defs)
  moreover have "sp_id sample_server_a = ''srv-a''" "sp_id sample_server_b = ''srv-b''" by (simp_all add: sample_defs)
  ultimately show ?thesis
    using names
    by (simp add: plan_def plan_servers_def plan_group_def check_names_def or_else_def bridge_args_def rule_name_def new_server_def sample_cli_def
        option_list_def)
qed

theorem add_is_accepted_witness:
  "\<exists>ch. prepare no_ext small_json smaller_config (CreateForwards [sample_relay] None None) = Inr ch \<and> ch_config ch = sample_config"
  using add_is_accepted [OF sample_plan] by (simp add: sample_cli_def smaller_config_def sample_config_def option_list_def)

lemma sample_edit: "plan_edit sample_cli sample_config regroup_args = Inr \<lparr>ap_forwards = [sample_relay], ap_server = None, ap_target_server = None\<rparr>"
proof -
  have "foldl replace_rule (sample_config\<lparr>servers := servers sample_config\<rparr>) [sample_relay] = sample_config"
    by (simp add: replace_rule_def sample_defs)
  then have "validate no_ext small_json (foldl replace_rule (sample_config\<lparr>servers := servers sample_config\<rparr>) [sample_relay]) = Inr ()"
    by (simp only: validate_iff_wf sample_wf)
  moreover have "forward sample_config ''bridge'' = Some sample_relay" "forward sample_config ''f4'' = Some sample_relay"
    by (simp_all add: forward_def lookup_by_def or_else_def sample_defs)
  moreover have "select sample_cli i sample_config ''alpha'' None = Inr \<lparr>sv_profile = sample_server_a, sv_is_new = False\<rparr>"
    "select sample_cli i sample_config ''srv-b'' None = Inr \<lparr>sv_profile = sample_server_b, sv_is_new = False\<rparr>" for i
    by (simp_all add: select_def server_def lookup_by_def or_else_def sample_defs)
  moreover have "split_brackets (trim ''9000'') = Inr [''9000'']" "single_port ''9000'' = Inr 9000"
    by (simp_all add: split_brackets_def single_port_def single_def trim_def is_whitespace_def byte_def is_ascii_digit_def parse_u16_def parse_uint_def
        digits_value_def)
  moreover have "edit_relay_fields (loopback 9000) sample_target regroup_args = Inr (loopback 9000, sample_target)"
    using calculation
    by (simp add: edit_relay_fields_def regroup_args_def patched_source_def source_parts_def loopback_def)
  moreover have "edit_rule sample_config regroup_args (Some \<lparr>sv_profile = sample_server_a, sv_is_new = False\<rparr>)
      (Some \<lparr>sv_profile = sample_server_b, sv_is_new = False\<rparr>) False ''f4'' = Inr sample_relay"
    using calculation
    by (simp add: edit_rule_def edit_fields_def edit_tunnel_def effective_def effective_cleanup_def edit_relay_target_def regroup_args_def sample_relay_def
        sample_server_a_def sample_server_b_def new_profile_def)
  moreover have "select_forwards sample_config ''bridge'' = Inr [''f4'']"
    using calculation by (simp add: select_forwards_def sample_relay_def)
  ultimately show ?thesis
    by (simp add: plan_edit_def select_option_def regroup_args_def new_server_def sample_cli_def option_list_def)
qed

theorem edit_is_accepted_witness:
  "\<exists>ch. prepare no_ext small_json sample_config (PutForwardsWithServer [sample_relay] None None) = Inr ch \<and>
     sample_relay \<in> set (forwards (ch_config ch))"
proof -
  have "wf_config (ce_alphanumeric sample_cli) (ce_json_size sample_cli) sample_config" by (simp add: sample_cli_def sample_wf)
  from edit_is_accepted [OF this sample_edit] show ?thesis
    by (auto simp: sample_cli_def option_list_def replace_rule_def sample_defs)
qed

end
