(* ===== verification/Spec2Isabelle.thy ===== *)
theory Spec2Isabelle
  imports Fwm_Prelude Text Net Model Config Samples Selection Migrate Wire Retry Ports RandomNames Bytes Socks
    Codec History Cursor HistoryLog Status Engine Supervision Lifecycle
    Patterns Paths SshLine SshConfig SshResolve SshTrust Intents Store StoreSafety Recovery
    Protocol Change Journal Daemon DaemonSafety
    Fencing Lease AddressText Remote RemoteSafety Forward Session SessionInvariant SessionSafety Supervisor Relay RelaySafety RelaySupervisor Offline HostTrust Hops Auth Dial Signer CliSpec CliPlan
begin

text \<open>
  Verification library for fwm, a manager of SSH port forwardings.
\<close>

end
